(* ===== verification/Prelude.thy ===== *)
theory Prelude
  imports Main "HOL-Library.Word" "HOL-Library.Monad_Syntax" "HOL-Library.Sublist"
begin

text \<open>
  What the component theories share: the machine types and the text
  representation of the model, the operations of the Rust standard library on
  byte slices and \<^verbatim>\<open>&str\<close> values that the sources call, and their laws.

  A \<^verbatim>\<open>String\<close> is the list of its UTF-8 code units, as a HOL
  \<^typ>\<open>string\<close> whose characters are bytes; a \<^verbatim>\<open>Vec<u8>\<close> or
  \<^verbatim>\<open>&[u8]\<close> is a list of \<^typ>\<open>8 word\<close>.  Operations that
  panic out of range (\<^verbatim>\<open>a[i]\<close>, \<^verbatim>\<open>a[i..j]\<close>) return
  an option, \<^const>\<open>None\<close> standing for the panic, so that the absence of
  panics is a theorem about the definition and not a convention.
\<close>

section \<open>Types\<close>

type_synonym u8 = "8 word"
type_synonym u16 = "16 word"
type_synonym u32 = "32 word"
type_synonym u64 = "64 word"
type_synonym u128 = "128 word"
type_synonym bytes = "8 word list"
type_synonym millis = nat
type_synonym ('e, 'a) rust_result = "'e + 'a"

abbreviation Err :: "'e \<Rightarrow> 'e + 'a"
  where "Err \<equiv> Inl"

abbreviation Ok :: "'a \<Rightarrow> 'e + 'a"
  where "Ok \<equiv> Inr"

named_theorems text_simps \<open>evaluation and shape laws of the string operations\<close>
named_theorems wire_simps \<open>laws of encoders and decoders of bytes\<close>
named_theorems step_defs \<open>definitions unfolded when one step of an operation is analysed\<close>
named_theorems no_panic \<open>introduction rules for the absence of panics\<close>
named_theorems inv_intros \<open>preservation of a component's invariant by its operations\<close>

section \<open>Slices\<close>

definition index_at :: "'a list \<Rightarrow> nat \<Rightarrow> 'a option"
  where "index_at xs i = (if i < length xs then Some (xs ! i) else None)"

definition slice :: "'a list \<Rightarrow> nat \<Rightarrow> nat \<Rightarrow> 'a list option"
  where "slice xs i j = (if i \<le> j \<and> j \<le> length xs then Some (take (j - i) (drop i xs)) else None)"

definition split_at_checked :: "'a list \<Rightarrow> nat \<Rightarrow> ('a list \<times> 'a list) option"
  where "split_at_checked xs n = (if n \<le> length xs then Some (take n xs, drop n xs) else None)"

lemma index_at_Some [simp]: "i < length xs \<Longrightarrow> index_at xs i = Some (xs ! i)"
  by (simp add: index_at_def)

lemma index_at_None_iff [simp]: "index_at xs i = None \<longleftrightarrow> length xs \<le> i"
  by (auto simp: index_at_def)

lemma slice_Some [simp]:
  "\<lbrakk>i \<le> j; j \<le> length xs\<rbrakk> \<Longrightarrow> slice xs i j = Some (take (j - i) (drop i xs))"
  by (simp add: slice_def)

lemma slice_SomeD: "slice xs i j = Some ys \<Longrightarrow> length ys = j - i \<and> i \<le> j \<and> j \<le> length xs"
  by (auto simp: slice_def split: if_splits)

lemma slice_append: "j \<le> length xs \<Longrightarrow> slice (xs @ ys) i j = slice xs i j"
  by (auto simp: slice_def)

lemma index_at_append: "i < length xs \<Longrightarrow> index_at (xs @ ys) i = index_at xs i"
  by (simp add: index_at_def nth_append)

lemma split_at_checked_append [wire_simps]:
  "length xs = n \<Longrightarrow> split_at_checked (xs @ ys) n = Some (xs, ys)"
  by (simp add: split_at_checked_def)

lemma split_at_checked_Some:
  "split_at_checked zs n = Some (xs, ys) \<longleftrightarrow> zs = xs @ ys \<and> length xs = n"
  by (auto simp: split_at_checked_def)

section \<open>Characters and ASCII\<close>

abbreviation code_of :: "char \<Rightarrow> nat"
  where "code_of c \<equiv> of_char c"

definition byte_of_char :: "char \<Rightarrow> u8"
  where "byte_of_char c = word_of_nat (code_of c)"

definition char_of_byte :: "u8 \<Rightarrow> char"
  where "char_of_byte b = char_of (unat b)"

definition as_bytes :: "string \<Rightarrow> bytes"
  where "as_bytes s = map byte_of_char s"

definition of_bytes :: "bytes \<Rightarrow> string"
  where "of_bytes bs = map char_of_byte bs"

lemma code_of_less [simp]: "code_of c < 256"
  using range_nat_of_char by auto

lemma char_of_code [simp]: "char_of (code_of c) = c"
  by (fact char_of_char)

lemma unat_byte_of_char [simp]: "unat (byte_of_char c) = code_of c"
  by (simp add: byte_of_char_def unat_of_nat take_bit_nat_eq_self)

lemma char_of_byte_of_char [simp]: "char_of_byte (byte_of_char c) = c"
  by (simp add: char_of_byte_def)

lemma byte_of_char_of_byte [simp]: "byte_of_char (char_of_byte b) = b"
proof (rule word_unat_eq_iff [THEN iffD2])
  show "unat (byte_of_char (char_of_byte b)) = unat b"
    using unsigned_less [of b, where ?'a = nat] by (simp add: char_of_byte_def)
qed

lemma of_bytes_as_bytes [simp]: "of_bytes (as_bytes s) = s"
  by (simp add: of_bytes_def as_bytes_def comp_def)

lemma as_bytes_of_bytes [simp]: "as_bytes (of_bytes bs) = bs"
  by (simp add: of_bytes_def as_bytes_def comp_def)

lemma as_bytes_simps [simp]:
  "as_bytes [] = []" "as_bytes (c # s) = byte_of_char c # as_bytes s"
  "as_bytes (s @ t) = as_bytes s @ as_bytes t" "length (as_bytes s) = length s"
  by (simp_all add: as_bytes_def)

lemma of_bytes_simps [simp]:
  "of_bytes [] = []" "of_bytes (b # bs) = char_of_byte b # of_bytes bs"
  "of_bytes (bs @ cs) = of_bytes bs @ of_bytes cs" "length (of_bytes bs) = length bs"
  by (simp_all add: of_bytes_def)

definition is_ascii_lowercase :: "char \<Rightarrow> bool"
  where "is_ascii_lowercase c \<longleftrightarrow> 97 \<le> code_of c \<and> code_of c \<le> 122"

definition is_ascii_uppercase :: "char \<Rightarrow> bool"
  where "is_ascii_uppercase c \<longleftrightarrow> 65 \<le> code_of c \<and> code_of c \<le> 90"

definition is_ascii_digit :: "char \<Rightarrow> bool"
  where "is_ascii_digit c \<longleftrightarrow> 48 \<le> code_of c \<and> code_of c \<le> 57"

definition is_ascii_alphanumeric :: "char \<Rightarrow> bool"
  where "is_ascii_alphanumeric c \<longleftrightarrow>
    is_ascii_lowercase c \<or> is_ascii_uppercase c \<or> is_ascii_digit c"

definition is_ascii_hexdigit :: "char \<Rightarrow> bool"
  where "is_ascii_hexdigit c \<longleftrightarrow>
    is_ascii_digit c \<or> (97 \<le> code_of c \<and> code_of c \<le> 102) \<or> (65 \<le> code_of c \<and> code_of c \<le> 70)"

definition lower_char :: "char \<Rightarrow> char"
  where "lower_char c = (if is_ascii_uppercase c then char_of (code_of c + 32) else c)"

definition to_ascii_lowercase :: "string \<Rightarrow> string"
  where "to_ascii_lowercase s = map lower_char s"

definition eq_ignore_ascii_case :: "string \<Rightarrow> string \<Rightarrow> bool"
  where "eq_ignore_ascii_case s t \<longleftrightarrow> to_ascii_lowercase s = to_ascii_lowercase t"

lemma lower_char_not_upper [simp]: "\<not> is_ascii_uppercase (lower_char c)"
  by (auto simp: lower_char_def is_ascii_uppercase_def)

lemma lower_char_id [simp]: "\<not> is_ascii_uppercase c \<Longrightarrow> lower_char c = c"
  by (simp add: lower_char_def)

lemma lower_char_idem [simp]: "lower_char (lower_char c) = lower_char c"
  by simp

lemma to_ascii_lowercase_append [simp]:
  "to_ascii_lowercase (s @ t) = to_ascii_lowercase s @ to_ascii_lowercase t"
  by (simp add: to_ascii_lowercase_def)

lemma to_ascii_lowercase_Nil [simp]: "to_ascii_lowercase [] = []"
  by (simp add: to_ascii_lowercase_def)

lemma to_ascii_lowercase_Cons [simp]:
  "to_ascii_lowercase (c # s) = lower_char c # to_ascii_lowercase s"
  by (simp add: to_ascii_lowercase_def)

lemma length_to_ascii_lowercase [simp]: "length (to_ascii_lowercase s) = length s"
  by (simp add: to_ascii_lowercase_def)

lemma to_ascii_lowercase_idem [simp]:
  "to_ascii_lowercase (to_ascii_lowercase s) = to_ascii_lowercase s"
  by (simp add: to_ascii_lowercase_def)

lemma to_ascii_lowercase_id:
  "(\<And>c. c \<in> set s \<Longrightarrow> \<not> is_ascii_uppercase c) \<Longrightarrow> to_ascii_lowercase s = s"
  by (induction s) auto

lemma lower_char_eq_dot: "lower_char c = CHR ''.'' \<longleftrightarrow> c = CHR ''.''"
proof -
  have "lower_char c \<noteq> CHR ''.''" if "is_ascii_uppercase c"
  proof
    assume "lower_char c = CHR ''.''"
    with that have "code_of (char_of (code_of c + 32) :: char) = 46"
      by (simp add: lower_char_def)
    with that show False
      by (simp add: is_ascii_uppercase_def)
  qed
  then show ?thesis
    by (cases "is_ascii_uppercase c") (auto simp: is_ascii_uppercase_def)
qed

section \<open>Searching and splitting text\<close>

fun strip_prefix_of :: "'a list \<Rightarrow> 'a list \<Rightarrow> 'a list option" where
  "strip_prefix_of [] s = Some s"
| "strip_prefix_of (x # p) [] = None"
| "strip_prefix_of (x # p) (y # s) = (if x = y then strip_prefix_of p s else None)"

definition strip_prefix :: "'a list \<Rightarrow> 'a list \<Rightarrow> 'a list option"
  where "strip_prefix s p = strip_prefix_of p s"

definition strip_suffix :: "'a list \<Rightarrow> 'a list \<Rightarrow> 'a list option"
  where "strip_suffix s p = map_option rev (strip_prefix_of (rev p) (rev s))"

fun split_once :: "'a \<Rightarrow> 'a list \<Rightarrow> ('a list \<times> 'a list) option" where
  "split_once c [] = None"
| "split_once c (x # xs) =
     (if x = c then Some ([], xs) else map_option (apfst (Cons x)) (split_once c xs))"

definition rsplit_once :: "'a \<Rightarrow> 'a list \<Rightarrow> ('a list \<times> 'a list) option"
  where "rsplit_once c s = map_option (\<lambda>(a, b). (rev b, rev a)) (split_once c (rev s))"

fun split_on :: "'a \<Rightarrow> 'a list \<Rightarrow> 'a list list" where
  "split_on c [] = [[]]"
| "split_on c (x # xs) =
     (if x = c then [] # split_on c xs
      else (case split_on c xs of [] \<Rightarrow> [[x]] | w # ws \<Rightarrow> (x # w) # ws))"

lemma strip_prefix_of_Some: "strip_prefix_of p s = Some r \<longleftrightarrow> s = p @ r"
  by (induction p s rule: strip_prefix_of.induct) auto

lemma strip_prefix_Some [text_simps]: "strip_prefix s p = Some r \<longleftrightarrow> s = p @ r"
  by (simp add: strip_prefix_def strip_prefix_of_Some)

lemma strip_suffix_Some [text_simps]: "strip_suffix s p = Some r \<longleftrightarrow> s = r @ p"
proof -
  have "strip_suffix s p = Some r \<longleftrightarrow> strip_prefix_of (rev p) (rev s) = Some (rev r)"
    by (cases "strip_prefix_of (rev p) (rev s)") (auto simp: strip_suffix_def)
  then show ?thesis
    by (metis rev_append rev_rev_ident strip_prefix_of_Some)
qed

lemma strip_suffix_append [simp]: "strip_suffix (r @ p) p = Some r"
  by (simp add: strip_suffix_Some)

lemma strip_prefix_append [simp]: "strip_prefix (p @ r) p = Some r"
  by (simp add: strip_prefix_Some)

lemma strip_suffix_eq_None: "strip_suffix s p = None \<longleftrightarrow> (\<forall>r. s \<noteq> r @ p)"
  by (metis not_None_eq strip_suffix_Some)

lemma strip_prefix_eq_None: "strip_prefix s p = None \<longleftrightarrow> (\<forall>r. s \<noteq> p @ r)"
  by (metis not_None_eq strip_prefix_Some)

lemma strip_suffix_chain [text_simps]:
  "Option.bind (strip_suffix s p) (\<lambda>r. Option.bind (strip_suffix r q) f) =
   Option.bind (strip_suffix s (q @ p)) f"
proof (cases "strip_suffix s (q @ p)")
  case None
  then have no: "s \<noteq> r @ q @ p" for r by (simp add: strip_suffix_eq_None)
  have "strip_suffix r q = None" if "strip_suffix s p = Some r" for r
    using that no by (auto simp: strip_suffix_Some strip_suffix_eq_None)
  with None show ?thesis by (cases "strip_suffix s p") simp_all
next
  case (Some r)
  then have "strip_suffix s p = Some (r @ q)" by (simp add: strip_suffix_Some)
  with Some show ?thesis by simp
qed

lemma split_once_Some:
  "split_once c s = Some (a, b) \<longleftrightarrow> s = a @ c # b \<and> c \<notin> set a"
proof (induction s arbitrary: a)
  case Nil
  then show ?case by simp
next
  case (Cons x xs)
  show ?case
  proof (cases "x = c")
    case True
    then show ?thesis by (cases a) auto
  next
    case False
    then have "split_once c (x # xs) = Some (a, b) \<longleftrightarrow>
        (\<exists>a'. a = x # a' \<and> split_once c xs = Some (a', b))"
      by (cases "split_once c xs") auto
    then show ?thesis
      using False Cons.IH by (cases a) auto
  qed
qed

lemma split_once_None: "split_once c s = None \<longleftrightarrow> c \<notin> set s"
  by (induction s) auto

lemma rsplit_once_Some:
  "rsplit_once c s = Some (a, b) \<longleftrightarrow> s = a @ c # b \<and> c \<notin> set b"
proof -
  have "rsplit_once c s = Some (a, b) \<longleftrightarrow> split_once c (rev s) = Some (rev b, rev a)"
    by (cases "split_once c (rev s)") (auto simp: rsplit_once_def)
  also have "\<dots> \<longleftrightarrow> rev s = rev b @ c # rev a \<and> c \<notin> set b"
    by (simp add: split_once_Some)
  also have "\<dots> \<longleftrightarrow> s = a @ c # b \<and> c \<notin> set b"
    by (metis append.assoc append_Cons append_Nil rev_append rev_rev_ident rev_singleton_conv
        rev.simps(2))
  finally show ?thesis .
qed

lemma rsplit_once_None: "rsplit_once c s = None \<longleftrightarrow> c \<notin> set s"
  by (simp add: rsplit_once_def split_once_None)

lemma split_on_nonempty [simp]: "split_on c s \<noteq> []"
  by (induction s) (auto split: list.splits)

lemma split_on_no_sep: "c \<notin> set s \<Longrightarrow> split_on c s = [s]"
  by (induction s) auto

lemma split_on_append_sep:
  "c \<notin> set a \<Longrightarrow> split_on c (a @ c # b) = a # split_on c b"
  by (induction a) auto

lemma split_on_parts: "w \<in> set (split_on c s) \<Longrightarrow> c \<notin> set w"
  by (induction s arbitrary: w) (auto split: if_splits list.splits)

lemma split_on_single: "split_on c s = [w] \<longleftrightarrow> s = w \<and> c \<notin> set s"
proof
  assume "split_on c s = [w]"
  then show "s = w \<and> c \<notin> set s"
    by (induction s arbitrary: w) (auto split: if_splits list.splits)
next
  assume "s = w \<and> c \<notin> set s"
  then show "split_on c s = [w]" by (metis split_on_no_sep)
qed

lemma split_on_pair:
  "split_on c s = [v, w] \<longleftrightarrow> s = v @ c # w \<and> c \<notin> set v \<and> c \<notin> set w"
proof
  assume split: "split_on c s = [v, w]"
  then have "c \<in> set s" by (metis list.inject list.distinct(1) split_on_no_sep)
  then obtain a b where ab: "s = a @ c # b" "c \<notin> set a"
    by (meson split_list_first)
  with split have "v = a" "split_on c b = [w]" by (simp_all add: split_on_append_sep)
  with ab show "s = v @ c # w \<and> c \<notin> set v \<and> c \<notin> set w"
    by (auto simp: split_on_single)
next
  assume "s = v @ c # w \<and> c \<notin> set v \<and> c \<notin> set w"
  then show "split_on c s = [v, w]" by (simp add: split_on_append_sep split_on_no_sep)
qed

lemma span_append:
  assumes "\<And>c. c \<in> set xs \<Longrightarrow> P c" "rest = [] \<or> \<not> P (hd rest)"
  shows "takeWhile P (xs @ rest) = xs" and "dropWhile P (xs @ rest) = rest"
  using assms by (cases rest; simp add: takeWhile_append dropWhile_append)+

section \<open>Decimal numbers\<close>

definition digit_value :: "char \<Rightarrow> nat option"
  where "digit_value c = (if is_ascii_digit c then Some (code_of c - 48) else None)"

text \<open>The digits of \<^verbatim>\<open>from_str\<close> for unsigned integers, accumulated from
  the left with the overflow check at every digit.\<close>

fun parse_digits :: "nat \<Rightarrow> nat \<Rightarrow> string \<Rightarrow> nat option" where
  "parse_digits limit acc [] = Some acc"
| "parse_digits limit acc (c # s) =
     (case digit_value c of
        None \<Rightarrow> None
      | Some d \<Rightarrow> if limit < acc * 10 + d then None else parse_digits limit (acc * 10 + d) s)"

text \<open>\<^verbatim>\<open>str::parse::<uN>\<close>: one leading plus sign is accepted, an empty
  digit string is not.\<close>

definition parse_unsigned :: "nat \<Rightarrow> string \<Rightarrow> nat option"
  where "parse_unsigned limit s =
    (let digits = (case s of c # rest \<Rightarrow> if c = CHR ''+'' then rest else s | [] \<Rightarrow> s)
     in if digits = [] then None else parse_digits limit 0 digits)"

definition digit_char :: "nat \<Rightarrow> char"
  where "digit_char d = char_of (48 + d)"

fun show_nat :: "nat \<Rightarrow> string" where
  "show_nat n = (if n < 10 then [digit_char n] else show_nat (n div 10) @ [digit_char (n mod 10)])"

declare show_nat.simps [simp del]

lemma digit_char_digit [simp]: "d < 10 \<Longrightarrow> is_ascii_digit (digit_char d)"
  by (simp add: digit_char_def is_ascii_digit_def)

lemma digit_value_digit_char [simp]: "d < 10 \<Longrightarrow> digit_value (digit_char d) = Some d"
  by (simp add: digit_value_def) (simp add: digit_char_def)

lemma show_nat_nonempty [simp]: "show_nat n \<noteq> []"
  by (subst show_nat.simps) auto

lemma show_nat_digits: "c \<in> set (show_nat n) \<Longrightarrow> is_ascii_digit c"
proof (induction n rule: show_nat.induct)
  case (1 n)
  show ?case
  proof (cases "n < 10")
    case True
    with 1 show ?thesis by (auto simp: show_nat.simps [of n])
  next
    case False
    with 1 show ?thesis by (auto simp: show_nat.simps [of n])
  qed
qed

lemma parse_digits_append:
  "parse_digits limit acc (s @ t) =
     (case parse_digits limit acc s of None \<Rightarrow> None | Some acc' \<Rightarrow> parse_digits limit acc' t)"
  by (induction s arbitrary: acc) (auto split: option.splits)

lemma parse_digits_show_nat: "n \<le> limit \<Longrightarrow> parse_digits limit 0 (show_nat n) = Some n"
proof (induction n rule: show_nat.induct)
  case (1 n)
  show ?case
  proof (cases "n < 10")
    case True
    with 1 show ?thesis by (simp add: show_nat.simps [of n])
  next
    case False
    with 1 have "parse_digits limit 0 (show_nat (n div 10)) = Some (n div 10)"
      by (meson div_le_dividend le_trans)
    with False 1 show ?thesis
      by (simp add: show_nat.simps [of n] parse_digits_append)
  qed
qed

lemma parse_digits_bound: "parse_digits limit acc s = Some n \<Longrightarrow> acc \<le> limit \<Longrightarrow> n \<le> limit"
  by (induction limit acc s rule: parse_digits.induct) (auto split: option.splits if_splits)

lemma parse_digits_Some_digits:
  "parse_digits limit acc s = Some n \<Longrightarrow> c \<in> set s \<Longrightarrow> is_ascii_digit c"
  by (induction limit acc s rule: parse_digits.induct)
     (auto split: option.splits if_splits simp: digit_value_def)

lemma parse_unsigned_bound: "parse_unsigned limit s = Some n \<Longrightarrow> n \<le> limit"
  by (auto simp: parse_unsigned_def Let_def simp del: parse_digits.simps
      split: if_splits list.splits dest: parse_digits_bound)

lemma not_digit_plus [simp]: "\<not> is_ascii_digit CHR ''+''"
  by (simp add: is_ascii_digit_def)

lemma parse_unsigned_digits:
  assumes "s \<noteq> []" "\<And>c. c \<in> set s \<Longrightarrow> is_ascii_digit c"
  shows "parse_unsigned limit s = parse_digits limit 0 s"
proof (cases s)
  case (Cons c rest)
  with assms have "c \<noteq> CHR ''+''" by (metis list.set_intros(1) not_digit_plus)
  with Cons show ?thesis by (simp add: parse_unsigned_def)
qed (use assms in simp)

lemma parse_unsigned_show_nat [text_simps]:
  "n \<le> limit \<Longrightarrow> parse_unsigned limit (show_nat n) = Some n"
  by (simp add: parse_unsigned_digits show_nat_digits parse_digits_show_nat)

section \<open>Big-endian words\<close>

definition be16 :: "u16 \<Rightarrow> bytes"
  where "be16 w = [ucast (drop_bit 8 w), ucast w]"

definition be32 :: "u32 \<Rightarrow> bytes"
  where "be32 w = [ucast (drop_bit 24 w), ucast (drop_bit 16 w), ucast (drop_bit 8 w), ucast w]"

text \<open>The value of a big-endian byte string, as \<^verbatim>\<open>from_be_bytes\<close> reads it.\<close>

definition be_nat :: "bytes \<Rightarrow> nat"
  where "be_nat bs = foldl (\<lambda>acc b. acc * 256 + unat b) 0 bs"

primrec nat_be :: "nat \<Rightarrow> nat \<Rightarrow> bytes" where
  "nat_be 0 n = []"
| "nat_be (Suc k) n = nat_be k (n div 256) @ [word_of_nat (n mod 256)]"

lemma unat_less_256 [simp]: "unat (b :: u8) < 256"
  using unsigned_less [of b, where ?'a = nat] by simp

lemma unat_le_255 [simp]: "unat (b :: u8) \<le> 255"
  using unat_less_256 [of b] by linarith

lemma unat_byte_length: "n < 256 \<Longrightarrow> unat (word_of_nat n :: u8) = n"
  by (simp add: unat_of_nat take_bit_nat_eq_self)

lemma length_4_cases:
  assumes "length xs = 4" obtains a b c d where "xs = [a, b, c, d]"
  using assms by (auto simp: eval_nat_numeral length_Suc_conv)

lemma be_nat_Nil [simp]: "be_nat [] = 0"
  by (simp add: be_nat_def)

lemma be_nat_snoc [simp]: "be_nat (bs @ [b]) = be_nat bs * 256 + unat b"
  by (simp add: be_nat_def)

lemma length_nat_be [simp]: "length (nat_be k n) = k"
  by (induction k arbitrary: n) auto

lemma be_nat_nat_be [wire_simps]: "n < 256 ^ k \<Longrightarrow> be_nat (nat_be k n) = n"
proof (induction k arbitrary: n)
  case (Suc k)
  then have "n div 256 < 256 ^ k" by (simp add: less_mult_imp_div_less mult.commute)
  with Suc.IH show ?case by (simp add: unat_of_nat take_bit_eq_mod)
qed simp

lemma be_nat_less: "be_nat bs < 256 ^ length bs"
proof (induction bs rule: rev_induct)
  case (snoc b bs)
  have "be_nat bs * 256 + unat b < be_nat bs * 256 + 256" by simp
  also have "\<dots> = (be_nat bs + 1) * 256" by simp
  also have "\<dots> \<le> 256 ^ length bs * 256"
    using snoc.IH by (intro mult_right_mono) auto
  finally show ?case by (simp add: mult.commute)
qed simp

lemma nat_be_be_nat [wire_simps]: "nat_be (length bs) (be_nat bs) = bs"
proof (induction bs rule: rev_induct)
  case (snoc b bs)
  have "(be_nat bs * 256 + unat b) div 256 = be_nat bs"
    using unat_less_256 [of b] by (simp del: unat_less_256)
  moreover have "(be_nat bs * 256 + unat b) mod 256 = unat b"
    by (simp add: mod_less)
  ultimately show ?case using snoc.IH by simp
qed simp

lemma be_nat_inject: "length bs = length cs \<Longrightarrow> be_nat bs = be_nat cs \<longleftrightarrow> bs = cs"
  by (metis nat_be_be_nat)

lemma nat_be_2: "nat_be 2 n = [word_of_nat (n div 256 mod 256), word_of_nat (n mod 256)]"
  by (simp add: numeral_2_eq_2)

lemma unat_word_of_nat_mod [simp]: "unat (word_of_nat (n mod 256) :: u8) = n mod 256"
  by (simp add: unat_of_nat take_bit_eq_mod)

text \<open>Reading at an offset, in terms of what follows the offset.\<close>

lemma drop_eq_length: "drop i data = xs @ rest \<Longrightarrow> xs \<noteq> [] \<Longrightarrow> i + length xs \<le> length data"
  by (metis append_is_Nil_conv drop_eq_Nil le_add_diff_inverse length_append length_drop nat_le_linear
      add_le_cancel_left le_add1)

lemma index_at_drop: "drop i data = b # rest \<Longrightarrow> index_at data i = Some b"
  by (metis drop_all index_at_def list.distinct(1) not_le nth_via_drop)

lemma slice_drop:
  assumes "drop i data = xs @ rest" "j = i + length xs" "i \<le> length data"
  shows "slice data i j = Some xs"
proof -
  have "length data - i = length xs + length rest"
    using assms(1) by (metis length_append length_drop)
  with assms show ?thesis by (simp add: slice_def)
qed

section \<open>Sums and options\<close>

definition ok_or :: "'a option \<Rightarrow> 'e \<Rightarrow> 'e + 'a"
  where "ok_or opt e = (case opt of None \<Rightarrow> Inl e | Some x \<Rightarrow> Inr x)"

definition result_bind :: "('e + 'a) \<Rightarrow> ('a \<Rightarrow> 'e + 'b) \<Rightarrow> 'e + 'b"
  where "result_bind r f = (case r of Inl e \<Rightarrow> Inl e | Inr x \<Rightarrow> f x)"

definition option_filter :: "('a \<Rightarrow> bool) \<Rightarrow> 'a option \<Rightarrow> 'a option"
  where "option_filter P opt = (case opt of None \<Rightarrow> None | Some x \<Rightarrow> if P x then Some x else None)"

lemma ok_or_simps [simp]: "ok_or None e = Inl e" "ok_or (Some x) e = Inr x"
  by (simp_all add: ok_or_def)

lemma result_bind_simps [simp]: "result_bind (Inl e) f = Inl e" "result_bind (Inr x) f = f x"
  by (simp_all add: result_bind_def)

lemma result_bind_Inr: "result_bind r f = Inr y \<longleftrightarrow> (\<exists>x. r = Inr x \<and> f x = Inr y)"
  by (cases r) auto

lemma option_filter_Some: "option_filter P opt = Some x \<longleftrightarrow> opt = Some x \<and> P x"
  by (auto simp: option_filter_def split: option.splits)

lemma map_option_Some_iff: "map_option f opt = Some y \<longleftrightarrow> (\<exists>x. opt = Some x \<and> y = f x)"
  by (cases opt) auto

text \<open>A computation that may panic does not, when none of its steps does.\<close>

lemma bind_no_panic [no_panic]:
  "m \<noteq> None \<Longrightarrow> (\<And>x. m = Some x \<Longrightarrow> f x \<noteq> None) \<Longrightarrow> Option.bind m f \<noteq> None"
  by (cases m) auto

lemma if_no_panic [no_panic]:
  "(c \<Longrightarrow> a \<noteq> None) \<Longrightarrow> (\<not> c \<Longrightarrow> b \<noteq> None) \<Longrightarrow> (if c then a else b) \<noteq> None"
  by simp

lemma case_option_no_panic [no_panic]:
  "(opt = None \<Longrightarrow> a \<noteq> None) \<Longrightarrow> (\<And>x. opt = Some x \<Longrightarrow> f x \<noteq> None) \<Longrightarrow>
    (case opt of None \<Rightarrow> a | Some x \<Rightarrow> f x) \<noteq> None"
  by (cases opt) auto

lemma case_sum_no_panic [no_panic]:
  "(\<And>x. r = Inl x \<Longrightarrow> f x \<noteq> None) \<Longrightarrow> (\<And>x. r = Inr x \<Longrightarrow> g x \<noteq> None) \<Longrightarrow>
    (case r of Inl x \<Rightarrow> f x | Inr x \<Rightarrow> g x) \<noteq> None"
  by (cases r) auto

lemma case_prod_no_panic [no_panic]:
  "(\<And>a b. p = (a, b) \<Longrightarrow> f a b \<noteq> None) \<Longrightarrow> (case p of (a, b) \<Rightarrow> f a b) \<noteq> None"
  by (cases p) auto

lemma Some_no_panic [no_panic]: "Some x \<noteq> None"
  by simp

lemma map_option_no_panic [no_panic]: "m \<noteq> None \<Longrightarrow> map_option f m \<noteq> None"
  by simp

lemma index_at_no_panic [no_panic]: "i < length xs \<Longrightarrow> index_at xs i \<noteq> None"
  by simp

lemma slice_no_panic [no_panic]: "i \<le> j \<Longrightarrow> j \<le> length xs \<Longrightarrow> slice xs i j \<noteq> None"
  by simp

section \<open>The contract of an encoder and its decoder\<close>

text \<open>Several components write a value to bytes or text and read it back.  The
  contract they share is that decoding inverts encoding on the valid values; an
  exact codec also accepts nothing but encodings.\<close>

locale round_trip =
  fixes enc :: "'a \<Rightarrow> 'w"
    and dec :: "'w \<Rightarrow> 'a option"
    and valid :: "'a \<Rightarrow> bool"
  assumes dec_enc: "valid x \<Longrightarrow> dec (enc x) = Some x"
begin

lemma enc_eq_iff: "valid x \<Longrightarrow> valid y \<Longrightarrow> enc x = enc y \<longleftrightarrow> x = y"
  by (metis dec_enc option.inject)

lemma enc_inj_on: "inj_on enc (Collect valid)"
  by (simp add: inj_on_def enc_eq_iff)

lemma decode_all:
  "list_all valid xs \<Longrightarrow> those (map (dec \<circ> enc) xs) = Some xs"
  by (induction xs) (simp_all add: dec_enc)

end

locale exact_round_trip = round_trip +
  assumes enc_dec: "dec w = Some x \<Longrightarrow> valid x \<and> enc x = w"
begin

lemma dec_iff: "dec w = Some x \<longleftrightarrow> valid x \<and> w = enc x"
  using dec_enc enc_dec by blast

lemma dec_inj: "dec v = Some x \<Longrightarrow> dec w = Some x \<Longrightarrow> v = w"
  by (simp add: dec_iff)

end

section \<open>The contract of a parser that is called again as bytes arrive\<close>

text \<open>A connection is read in pieces: each call is given everything received so far and
  the state of the previous call, until an answer other than \<open>more\<close> comes.\<close>

fun feed :: "('s \<Rightarrow> 'b list \<Rightarrow> 's \<times> 'r) \<Rightarrow> 'r \<Rightarrow> 's \<Rightarrow> 'b list \<Rightarrow> 'b list list \<Rightarrow> 's \<times> 'r" where
  "feed run more s seen [] = run s seen"
| "feed run more s seen (chunk # chunks) =
     (case run s seen of
        (s', r) \<Rightarrow> if r = more then feed run more s' (seen @ chunk) chunks else (s', r))"

locale incremental_parser =
  fixes run :: "'s \<Rightarrow> 'b list \<Rightarrow> 's \<times> 'r"
    and more :: 'r
  assumes resume: "run s d = (s', more) \<Longrightarrow> run s' (d @ e) = run s (d @ e)"
    and stable: "run s d = (s', r) \<Longrightarrow> r \<noteq> more \<Longrightarrow> run s (d @ e) = (s', r)"
begin

lemma feed_eq_run: "feed run more s seen chunks = run s (seen @ concat chunks)"
proof (induction chunks arbitrary: s seen)
  case (Cons chunk chunks)
  obtain s' r where run: "run s seen = (s', r)" by fastforce
  show ?case
  proof (cases "r = more")
    case True
    with Cons run show ?thesis
      using resume [of s seen s' "chunk @ concat chunks"] by simp
  next
    case False
    with run show ?thesis
      using stable [of s seen s' r "chunk @ concat chunks"] by simp
  qed
qed simp

lemma feed_chunking_irrelevant:
  "concat chunks = concat chunks' \<Longrightarrow> feed run more s seen chunks = feed run more s seen chunks'"
  by (simp add: feed_eq_run)

end

end
