(* ===== verification/Names.thy ===== *)
theory Names
  imports Prelude
begin

text \<open>
  Names and routes: the label grammar, the route of an SNI and the target
  syntax of \<^verbatim>\<open>opentunnel/src/protocol/names.rs\<close>, the route values of
  \<^verbatim>\<open>protocol/routes.rs\<close> with their serialized form, the server's reading of
  a hostname in \<^verbatim>\<open>opentunnel-server/src/relay.rs\<close> (\<^verbatim>\<open>tunnel_id\<close>,
  \<^verbatim>\<open>route_name\<close>), and the names a tunnel certificate may cover, from
  \<^verbatim>\<open>opentunnel-server/src/csr.rs\<close>.  The lemmas show that the client and the
  server agree on which route a hostname names, that the two parts of a hostname
  are recovered from it, and that no certificate is ordered for a name outside
  the tunnel.
\<close>

section \<open>Labels, routes and targets (names.rs)\<close>

definition ROOT_ROUTE :: string
  where "ROOT_ROUTE = ''@''"

definition label_char :: "char \<Rightarrow> bool"
  where "label_char c \<longleftrightarrow> is_ascii_lowercase c \<or> is_ascii_digit c"

definition is_label :: "string \<Rightarrow> bool"
  where "is_label s \<longleftrightarrow>
    (case s of
       [] \<Rightarrow> False
     | [only] \<Rightarrow> label_char only
     | first # rest \<Rightarrow>
         length s \<le> 63 \<and> label_char first \<and> label_char (last rest) \<and>
         list_all (\<lambda>c. label_char c \<or> c = CHR ''-'') (butlast rest))"

definition is_valid_route :: "string \<Rightarrow> bool"
  where "is_valid_route s \<longleftrightarrow> s = ROOT_ROUTE \<or> is_label s"

definition is_valid_profile :: "string \<Rightarrow> bool"
  where "is_valid_profile s \<longleftrightarrow> is_label s"

definition route_for_sni :: "string \<Rightarrow> string \<Rightarrow> string option"
  where "route_for_sni sni hostname =
    (let sni = to_ascii_lowercase sni; hostname = to_ascii_lowercase hostname
     in if sni = hostname then Some ROOT_ROUTE
        else do {
          rest \<leftarrow> strip_suffix sni hostname;
          label \<leftarrow> strip_suffix rest ''.'';
          if is_label label then Some label else None })"

definition target_host_char :: "char \<Rightarrow> bool"
  where "target_host_char c \<longleftrightarrow> is_ascii_alphanumeric c \<or>
    c = CHR ''.'' \<or> c = CHR ''-'' \<or> c = CHR '':'' \<or> c = CHR ''_''"

definition parse_target :: "string \<Rightarrow> (string \<times> u16) option"
  where "parse_target s = do {
    (host, port_text) \<leftarrow> rsplit_once CHR '':'' s;
    port \<leftarrow> option_filter (\<lambda>p. p \<noteq> 0) (parse_unsigned 65535 port_text);
    host \<leftarrow> (case strip_prefix host ''['' of
               Some inner \<Rightarrow> strip_suffix inner '']''
             | None \<Rightarrow> Some host);
    if host \<noteq> [] \<and> list_all target_host_char host then Some (host, word_of_nat port) else None }"

section \<open>Route values (routes.rs)\<close>

datatype ProxyProtocol = V1 | V2

definition proxy_as_str :: "ProxyProtocol \<Rightarrow> string"
  where "proxy_as_str v = (case v of V1 \<Rightarrow> ''v1'' | V2 \<Rightarrow> ''v2'')"

definition proxy_parse :: "string \<Rightarrow> ProxyProtocol option"
  where "proxy_parse s = (if s = ''v1'' then Some V1 else if s = ''v2'' then Some V2 else None)"

record Route =
  target :: string
  proxy_protocol :: "ProxyProtocol option"

definition Route_new :: "string \<Rightarrow> Route"
  where "Route_new t = \<lparr>target = t, proxy_protocol = None\<rparr>"

definition with_proxy_protocol :: "Route \<Rightarrow> ProxyProtocol option \<Rightarrow> Route"
  where "with_proxy_protocol r v = r\<lparr>proxy_protocol := v\<rparr>"

definition has_options :: "Route \<Rightarrow> bool"
  where "has_options r \<longleftrightarrow> proxy_protocol r \<noteq> None"

definition Route_validate :: "Route \<Rightarrow> string \<Rightarrow> string + unit"
  where "Route_validate r name =
    (if \<not> is_valid_route name then Err (''invalid route name '' @ [CHR 0x27] @ name @ [CHR 0x27])
     else if parse_target (target r) = None
     then Err (''invalid target '' @ [CHR 0x27] @ target r @ [CHR 0x27] @ '' for route '' @
               [CHR 0x27] @ name @ [CHR 0x27] @ '': use host:port'')
     else Ok ())"

definition Route_display :: "Route \<Rightarrow> string"
  where "Route_display r = target r @
    (case proxy_protocol r of
       None \<Rightarrow> []
     | Some v \<Rightarrow> '' (proxy protocol '' @ proxy_as_str v @ '')'')"

text \<open>The part of the serde data model that routes use: a string, or a map whose
  entries are kept in the order the format presents them, duplicates included.\<close>

datatype serde_value = SStr string | SMap "(string \<times> serde_value) list" | SOther

datatype route_error =
  Duplicate_field string
| Invalid_value string
| Unknown_field string
| Missing_field string
| Wrong_type

definition Route_serialize :: "Route \<Rightarrow> serde_value"
  where "Route_serialize r =
    (if \<not> has_options r then SStr (target r)
     else SMap ((''target'', SStr (target r)) #
       (case proxy_protocol r of
          None \<Rightarrow> []
        | Some v \<Rightarrow> [(''proxy_protocol'', SStr (proxy_as_str v))])))"

fun visit_map :: "string option \<Rightarrow> ProxyProtocol option \<Rightarrow> (string \<times> serde_value) list
    \<Rightarrow> route_error + Route" where
  "visit_map t p [] =
     (case t of
        None \<Rightarrow> Err (Missing_field ''target'')
      | Some t \<Rightarrow> Ok \<lparr>target = t, proxy_protocol = p\<rparr>)"
| "visit_map t p ((key, v) # entries) =
     (if key = ''target'' then
        (if t \<noteq> None then Err (Duplicate_field ''target'')
         else case v of SStr s \<Rightarrow> visit_map (Some s) p entries | _ \<Rightarrow> Err Wrong_type)
      else if key = ''proxy_protocol'' then
        (if p \<noteq> None then Err (Duplicate_field ''proxy_protocol'')
         else case v of
           SStr s \<Rightarrow> (case proxy_parse s of
                       None \<Rightarrow> Err (Invalid_value s)
                     | Some version \<Rightarrow> visit_map t (Some version) entries)
         | _ \<Rightarrow> Err Wrong_type)
      else Err (Unknown_field key))"

definition Route_deserialize :: "serde_value \<Rightarrow> route_error + Route"
  where "Route_deserialize v =
    (case v of
       SStr s \<Rightarrow> Ok (Route_new s)
     | SMap entries \<Rightarrow> visit_map None None entries
     | SOther \<Rightarrow> Err Wrong_type)"

section \<open>The server's reading of a hostname (relay.rs)\<close>

definition tunnel_id :: "string \<Rightarrow> string \<Rightarrow> string option"
  where "tunnel_id hostname domain = do {
    rest \<leftarrow> strip_suffix hostname domain;
    labels \<leftarrow> strip_suffix rest ''.'';
    let labels = split_on CHR ''.'' labels;
    if labels = [] \<or> length labels > 2 then None
    else let tid = last labels in if tid \<noteq> [] then Some tid else None }"

definition route_name :: "string \<Rightarrow> string \<Rightarrow> string \<Rightarrow> string option"
  where "route_name hostname tid domain = do {
    rest \<leftarrow> strip_suffix hostname domain;
    labels \<leftarrow> strip_suffix rest ''.'';
    if labels = tid then Some ''@''
    else do {
      rest \<leftarrow> strip_suffix labels tid;
      route \<leftarrow> strip_suffix rest ''.'';
      if route \<noteq> [] \<and> CHR ''.'' \<notin> set route then Some route else None } }"

section \<open>Names of a tunnel certificate (csr.rs)\<close>

record Request =
  req_hostname :: string
  req_identifiers :: "string list"

definition valid_tunnel_id :: "string \<Rightarrow> bool"
  where "valid_tunnel_id tid \<longleftrightarrow>
    tid \<noteq> [] \<and> length tid \<le> 63 \<and>
    list_all (\<lambda>c. is_ascii_lowercase c \<or> is_ascii_digit c \<or> c = CHR ''-'') tid \<and>
    hd tid \<noteq> CHR ''-'' \<and> last tid \<noteq> CHR ''-''"

text \<open>What is wrong with a request, in place of the message texts.\<close>

datatype csr_error =
  Not_a_tunnel_id string
| Names_requested nat
| Not_a_name string
| Requested_twice string
| Hostname_missing string
| Csr_invalid
| Csr_other_host string
| Csr_other_names "string list"

text \<open>The loop over the identifiers with their index; \<open>earlier\<close> is
  \<^verbatim>\<open>identifiers[..index]\<close>.\<close>

fun check_identifiers :: "string \<Rightarrow> string \<Rightarrow> string list \<Rightarrow> string list \<Rightarrow> csr_error + unit" where
  "check_identifiers hostname wildcard earlier [] = Ok ()"
| "check_identifiers hostname wildcard earlier (name # rest) =
     (if \<not> eq_ignore_ascii_case name hostname \<and> \<not> eq_ignore_ascii_case name wildcard
      then Err (Not_a_name name)
      else if list_ex (\<lambda>e. eq_ignore_ascii_case e name) earlier then Err (Requested_twice name)
      else check_identifiers hostname wildcard (earlier @ [name]) rest)"

definition tunnel_hostname :: "string \<Rightarrow> string \<Rightarrow> string"
  where "tunnel_hostname tid domain = tid @ ''.'' @ domain"

definition check_tunnel_names :: "string \<Rightarrow> string \<Rightarrow> string list \<Rightarrow> csr_error + unit"
  where "check_tunnel_names tid domain identifiers =
    (if \<not> valid_tunnel_id tid then Err (Not_a_tunnel_id tid)
     else
       let hostname = tunnel_hostname tid domain; wildcard = ''*.'' @ hostname
       in if identifiers = [] \<or> length identifiers > 2 then Err (Names_requested (length identifiers))
          else result_bind (check_identifiers hostname wildcard [] identifiers) (\<lambda>_.
            if \<not> list_ex (\<lambda>i. eq_ignore_ascii_case i hostname) identifiers
            then Err (Hostname_missing hostname) else Ok ()))"

text \<open>What the x509 library reads from a certificate request: the common names of
  the subject (\<^const>\<open>None\<close> for one that is not text) and the requested
  extensions, if there are any.\<close>

datatype GeneralName = DNSName string | OtherName

datatype ParsedExtension = SubjectAlternativeName "GeneralName list" | OtherExtension

record X509Request =
  iter_common_name :: "string option list"
  requested_extensions :: "ParsedExtension list option"

primrec join_with :: "string \<Rightarrow> string list \<Rightarrow> string" where
  "join_with sep [] = []"
| "join_with sep (x # xs) = (case xs of [] \<Rightarrow> x | _ \<Rightarrow> x @ sep @ join_with sep xs)"

definition push_name :: "string list \<Rightarrow> GeneralName \<Rightarrow> string list"
  where "push_name identifiers n =
    (case n of
       DNSName name \<Rightarrow> if name \<in> set identifiers then identifiers else identifiers @ [name]
     | OtherName \<Rightarrow> identifiers)"

definition push_extension :: "string list \<Rightarrow> ParsedExtension \<Rightarrow> string list"
  where "push_extension identifiers e =
    (case e of
       SubjectAlternativeName names \<Rightarrow> foldl push_name identifiers names
     | OtherExtension \<Rightarrow> identifiers)"

text \<open>\<open>decode_csr\<close> stands for the decoding of the PEM or DER text and the check
  of the signature, done by the base64 and x509 libraries; what follows is
  \<^verbatim>\<open>csr::parse\<close>.\<close>

definition csr_parse :: "(string \<Rightarrow> X509Request option) \<Rightarrow> string \<Rightarrow> Request option"
  where "csr_parse decode_csr csr = do {
    info \<leftarrow> decode_csr csr;
    let common_names = List.map_filter (\<lambda>n. n) (iter_common_name info);
    let hostname = join_with '','' common_names;
    let identifiers = foldl push_extension []
      (case requested_extensions info of None \<Rightarrow> [] | Some es \<Rightarrow> es);
    let identifiers = (if identifiers = [] then [hostname] else identifiers);
    Some \<lparr>req_hostname = hostname, req_identifiers = identifiers\<rparr> }"

definition check_tunnel_request ::
    "(string \<Rightarrow> X509Request option) \<Rightarrow> string \<Rightarrow> string \<Rightarrow> string list \<Rightarrow> string \<Rightarrow> csr_error + unit"
  where "check_tunnel_request decode_csr tid domain identifiers csr =
    result_bind (check_tunnel_names tid domain identifiers) (\<lambda>_.
    result_bind (ok_or (csr_parse decode_csr csr) Csr_invalid) (\<lambda>request.
    if \<not> eq_ignore_ascii_case (req_hostname request) (tunnel_hostname tid domain)
    then Err (Csr_other_host (req_hostname request))
    else if \<not> (length (req_identifiers request) = length identifiers \<and>
      list_all (\<lambda>name. list_ex (\<lambda>i. eq_ignore_ascii_case i name) identifiers)
        (req_identifiers request))
    then Err (Csr_other_names (req_identifiers request))
    else Ok ()))"

section \<open>Lemmas on labels and hostnames\<close>

lemma label_char_simps [simp]:
  "\<not> label_char CHR ''-''" "\<not> label_char CHR ''.''" "\<not> label_char CHR ''@''"
  by (simp_all add: label_char_def is_ascii_lowercase_def is_ascii_digit_def)

lemma label_char_not_upper: "label_char c \<Longrightarrow> \<not> is_ascii_uppercase c"
  by (auto simp: label_char_def is_ascii_lowercase_def is_ascii_digit_def is_ascii_uppercase_def)

lemma is_label_ends:
  "is_label (c # t @ [d]) \<longleftrightarrow>
     length t \<le> 61 \<and> label_char c \<and> label_char d \<and> list_all (\<lambda>c. label_char c \<or> c = CHR ''-'') t"
  by (cases t) (auto simp: is_label_def)

lemma is_label_iff:
  "is_label s \<longleftrightarrow>
     s \<noteq> [] \<and> length s \<le> 63 \<and> list_all (\<lambda>c. label_char c \<or> c = CHR ''-'') s \<and>
     hd s \<noteq> CHR ''-'' \<and> last s \<noteq> CHR ''-''"
proof (cases s rule: rev_cases)
  case (snoc t d)
  then show ?thesis
  proof (cases t)
    case Nil
    with snoc show ?thesis by (auto simp: is_label_def)
  next
    case (Cons c u)
    with snoc show ?thesis by (auto simp: is_label_ends)
  qed
qed (simp add: is_label_def)

lemma is_label_no_dot: "is_label s \<Longrightarrow> CHR ''.'' \<notin> set s"
  by (auto simp: is_label_iff list_all_iff)

lemma is_label_nonempty: "is_label s \<Longrightarrow> s \<noteq> []"
  by (simp add: is_label_iff)

lemma is_label_lower: "is_label s \<Longrightarrow> to_ascii_lowercase s = s"
proof (rule to_ascii_lowercase_id)
  fix c assume "is_label s" "c \<in> set s"
  then have "label_char c \<or> c = CHR ''-''" by (auto simp: is_label_iff list_all_iff)
  then show "\<not> is_ascii_uppercase c"
    by (elim disjE) (simp add: label_char_not_upper, simp add: is_ascii_uppercase_def)
qed

lemma valid_tunnel_id_is_label: "valid_tunnel_id s = is_label s"
  by (simp add: valid_tunnel_id_def is_label_iff label_char_def disj_assoc)

lemmas tunnel_id_no_dot = is_label_no_dot [folded valid_tunnel_id_is_label]
lemmas tunnel_id_lower = is_label_lower [folded valid_tunnel_id_is_label]

lemma tunnel_id_iff:
  "tunnel_id h d = Some t \<longleftrightarrow>
     t \<noteq> [] \<and> CHR ''.'' \<notin> set t \<and>
     (h = tunnel_hostname t d \<or>
      (\<exists>r. CHR ''.'' \<notin> set r \<and> h = r @ ''.'' @ tunnel_hostname t d))"
  (is "?L \<longleftrightarrow> ?R")
proof
  assume ?L
  then obtain labels where h: "h = labels @ ''.'' @ d"
    and len: "length (split_on CHR ''.'' labels) \<le> 2"
    and t: "t = last (split_on CHR ''.'' labels)" "t \<noteq> []"
    by (auto simp: tunnel_id_def text_simps Let_def bind_eq_Some_conv split: if_splits)
  show ?R
  proof (cases "\<exists>w. split_on CHR ''.'' labels = [w]")
    case True
    then have "split_on CHR ''.'' labels = [labels]" "CHR ''.'' \<notin> set labels"
      by (auto simp: split_on_single)
    with t h show ?thesis by (simp add: tunnel_hostname_def)
  next
    case False
    with len obtain v w where "split_on CHR ''.'' labels = [v, w]"
      by (cases "split_on CHR ''.'' labels" rule: remdups_adj.cases) auto
    moreover from this have "labels = v @ CHR ''.'' # w" "CHR ''.'' \<notin> set v" "CHR ''.'' \<notin> set w"
      by (simp_all add: split_on_pair)
    ultimately show ?thesis using t h by (auto simp: tunnel_hostname_def)
  qed
next
  assume R: ?R
  then obtain labels where h: "h = labels @ ''.'' @ d"
    and labels: "labels = t \<or> (\<exists>r. CHR ''.'' \<notin> set r \<and> labels = r @ ''.'' @ t)"
    by (auto simp: tunnel_hostname_def)
  then have "strip_suffix h (''.'' @ d) = Some labels" by (simp add: strip_suffix_Some)
  with R labels show ?L
    by (auto simp: tunnel_id_def strip_suffix_chain split_on_no_sep split_on_append_sep)
qed

lemma route_name_iff:
  "route_name h t d = Some r \<longleftrightarrow>
     (h = tunnel_hostname t d \<and> r = ''@'') \<or>
     (r \<noteq> [] \<and> CHR ''.'' \<notin> set r \<and> h = r @ ''.'' @ tunnel_hostname t d)"
proof (cases "strip_suffix h (''.'' @ d)")
  case None
  then have "h \<noteq> x @ ''.'' @ d" for x by (simp add: strip_suffix_eq_None)
  then have "h \<noteq> tunnel_hostname t d" "h \<noteq> x @ ''.'' @ tunnel_hostname t d" for x
    by (simp add: tunnel_hostname_def, metis append.assoc tunnel_hostname_def)
  with None show ?thesis
    by (simp add: route_name_def strip_suffix_chain)
next
  case (Some labels)
  then have h: "h = labels @ ''.'' @ d" by (simp add: strip_suffix_Some)
  have "route_name h t d = Some r \<longleftrightarrow>
      (if labels = t then r = ''@''
       else r \<noteq> [] \<and> CHR ''.'' \<notin> set r \<and> labels = r @ ''.'' @ t)"
    using Some by (auto simp: route_name_def text_simps bind_eq_Some_conv)
  then show ?thesis by (auto simp: h tunnel_hostname_def)
qed

lemma route_for_sni_iff:
  "route_for_sni sni hostname = Some r \<longleftrightarrow>
     (to_ascii_lowercase sni = to_ascii_lowercase hostname \<and> r = ''@'') \<or>
     (is_label r \<and> to_ascii_lowercase sni = r @ ''.'' @ to_ascii_lowercase hostname)"
  by (auto simp: route_for_sni_def ROOT_ROUTE_def Let_def text_simps bind_eq_Some_conv
      split: if_splits)

lemma tunnel_hostname_lower:
  "to_ascii_lowercase (tunnel_hostname t d) =
   tunnel_hostname (to_ascii_lowercase t) (to_ascii_lowercase d)"
  by (simp add: tunnel_hostname_def lower_char_def is_ascii_uppercase_def)

section \<open>Lemmas on targets and route values\<close>

lemma show_nat_no_colon: "CHR '':'' \<notin> set (show_nat n)"
  using show_nat_digits by (force simp: is_ascii_digit_def)

lemma target_host_char_no_bracket: "\<not> target_host_char CHR ''[''"
  by (simp add: target_host_char_def is_ascii_alphanumeric_def is_ascii_lowercase_def
      is_ascii_uppercase_def is_ascii_digit_def)

lemma parse_target_split:
  assumes "CHR '':'' \<notin> set t"
  shows "parse_target (h @ '':'' @ t) = do {
    port \<leftarrow> option_filter (\<lambda>p. p \<noteq> 0) (parse_unsigned 65535 t);
    host \<leftarrow> (case strip_prefix h ''['' of Some inner \<Rightarrow> strip_suffix inner '']'' | None \<Rightarrow> Some h);
    if host \<noteq> [] \<and> list_all target_host_char host then Some (host, word_of_nat port) else None }"
proof -
  from assms have "rsplit_once CHR '':'' (h @ '':'' @ t) = Some (h, t)"
    by (simp add: rsplit_once_Some)
  then show ?thesis by (simp add: parse_target_def)
qed

lemma target_host_strip:
  assumes "list_all target_host_char h" shows "strip_prefix h ''['' = None"
  using assms target_host_char_no_bracket by (auto simp: strip_prefix_eq_None)

lemma parse_target_print:
  assumes "h \<noteq> []" "list_all target_host_char h" "0 < n" "n \<le> 65535"
  shows "parse_target (h @ '':'' @ show_nat n) = Some (h, word_of_nat n)"
    and "parse_target (''['' @ h @ '']'' @ '':'' @ show_nat n) = Some (h, word_of_nat n)"
proof -
  have port: "option_filter (\<lambda>p. p \<noteq> 0) (parse_unsigned 65535 (show_nat n)) = Some n"
    using assms by (simp add: option_filter_Some parse_unsigned_show_nat)
  show "parse_target (h @ '':'' @ show_nat n) = Some (h, word_of_nat n)"
    unfolding parse_target_split [OF show_nat_no_colon] port
    using assms by (simp add: target_host_strip)
  have "strip_prefix (''['' @ h @ '']'') ''['' = Some (h @ '']'')"
    by (simp add: strip_prefix_Some)
  then have "parse_target ((''['' @ h @ '']'') @ '':'' @ show_nat n) = Some (h, word_of_nat n)"
    unfolding parse_target_split [OF show_nat_no_colon] port using assms by simp
  then show "parse_target (''['' @ h @ '']'' @ '':'' @ show_nat n) = Some (h, word_of_nat n)"
    by simp
qed

lemma parse_target_sound:
  assumes "parse_target s = Some (h, p)"
  shows "h \<noteq> [] \<and> list_all target_host_char h \<and> p \<noteq> 0"
proof -
  from assms obtain n where n: "n \<noteq> 0" "n \<le> 65535" "p = word_of_nat n"
    and h: "h \<noteq> []" "list_all target_host_char h"
    by (auto simp: parse_target_def bind_eq_Some_conv option_filter_Some split: if_splits
        dest: parse_unsigned_bound)
  from n(2) have "unat p = n" by (simp add: n(3) unat_of_nat take_bit_nat_eq_self)
  with n(1) h show ?thesis by auto
qed

lemma proxy_parse_as_str [simp]: "proxy_parse (proxy_as_str v) = Some v"
  by (cases v) (simp_all add: proxy_parse_def proxy_as_str_def)

lemma Route_deserialize_serialize: "Route_deserialize (Route_serialize r) = Ok r"
  by (cases r) (auto simp: Route_deserialize_def Route_serialize_def Route_new_def has_options_def
      split: option.split)

definition Route_read :: "serde_value \<Rightarrow> Route option"
  where "Route_read v = (case Route_deserialize v of Inl _ \<Rightarrow> None | Inr r \<Rightarrow> Some r)"

interpretation route_codec: round_trip Route_serialize Route_read "\<lambda>_. True"
  by unfold_locales (simp add: Route_read_def Route_deserialize_serialize)

section \<open>Lemmas on certificate names\<close>

lemma eq_ignore_ascii_case_sym: "eq_ignore_ascii_case s t = eq_ignore_ascii_case t s"
  by (auto simp: eq_ignore_ascii_case_def)

lemma list_ex_ignore_case:
  "list_ex (\<lambda>e. eq_ignore_ascii_case e n) names \<longleftrightarrow>
     to_ascii_lowercase n \<in> to_ascii_lowercase ` set names"
  by (induction names) (auto simp: eq_ignore_ascii_case_def)

lemma check_identifiers_Ok:
  "check_identifiers h w earlier names = Ok () \<longleftrightarrow>
     (\<forall>n\<in>set names. eq_ignore_ascii_case n h \<or> eq_ignore_ascii_case n w) \<and>
     distinct (map to_ascii_lowercase names) \<and>
     to_ascii_lowercase ` set earlier \<inter> to_ascii_lowercase ` set names = {}"
proof (induction names arbitrary: earlier)
  case (Cons n names)
  from Cons.IH [of "earlier @ [n]"] show ?case by (auto simp: list_ex_ignore_case)
qed simp

lemma two_names:
  assumes "xs \<noteq> []" "length xs \<le> 2" "distinct xs" "set xs \<subseteq> {a, b}" "a \<in> set xs"
  shows "xs \<in> {[a], [a, b], [b, a]}"
  using assms by (cases xs rule: remdups_adj.cases) auto

lemma check_tunnel_names_iff:
  "check_tunnel_names t d names = Ok () \<longleftrightarrow>
     valid_tunnel_id t \<and>
     (let h = to_ascii_lowercase (tunnel_hostname t d); w = ''*.'' @ h
      in map to_ascii_lowercase names \<in> {[h], [h, w], [w, h]})"
  (is "?L \<longleftrightarrow> ?R")
proof -
  define h w where "h = to_ascii_lowercase (tunnel_hostname t d)" and "w = ''*.'' @ h"
  have "to_ascii_lowercase (''*.'' @ tunnel_hostname t d) = w"
    by (simp add: w_def h_def lower_char_def is_ascii_uppercase_def)
  then have ids: "check_identifiers (tunnel_hostname t d) (''*.'' @ tunnel_hostname t d) [] names = Ok ()
      \<longleftrightarrow> distinct (map to_ascii_lowercase names) \<and> to_ascii_lowercase ` set names \<subseteq> {h, w}"
    unfolding check_identifiers_Ok eq_ignore_ascii_case_def by (auto simp flip: h_def)
  have "h \<noteq> w" by (simp add: w_def)
  have "?L \<longleftrightarrow> valid_tunnel_id t \<and> names \<noteq> [] \<and> length names \<le> 2 \<and>
      check_identifiers (tunnel_hostname t d) (''*.'' @ tunnel_hostname t d) [] names = Ok () \<and>
      h \<in> to_ascii_lowercase ` set names"
    unfolding check_tunnel_names_def Let_def list_ex_ignore_case h_def
    by (simp add: result_bind_Inr not_less)
  also have "\<dots> \<longleftrightarrow> valid_tunnel_id t \<and> names \<noteq> [] \<and> length names \<le> 2 \<and>
      distinct (map to_ascii_lowercase names) \<and> to_ascii_lowercase ` set names \<subseteq> {h, w} \<and>
      h \<in> to_ascii_lowercase ` set names"
    unfolding ids by simp
  also have "\<dots> \<longleftrightarrow> valid_tunnel_id t \<and> map to_ascii_lowercase names \<in> {[h], [h, w], [w, h]}"
  proof (intro conj_cong refl iffI; (elim conjE)?)
    assume "names \<noteq> []" "length names \<le> 2" "distinct (map to_ascii_lowercase names)"
      "to_ascii_lowercase ` set names \<subseteq> {h, w}" "h \<in> to_ascii_lowercase ` set names"
    then show "map to_ascii_lowercase names \<in> {[h], [h, w], [w, h]}"
      by (intro two_names) auto
  next
    assume "map to_ascii_lowercase names \<in> {[h], [h, w], [w, h]}"
    with \<open>h \<noteq> w\<close> show "names \<noteq> [] \<and> length names \<le> 2 \<and>
      distinct (map to_ascii_lowercase names) \<and> to_ascii_lowercase ` set names \<subseteq> {h, w} \<and>
      h \<in> to_ascii_lowercase ` set names"
      by (auto simp: map_eq_Cons_conv)
  qed
  finally show ?thesis by (simp add: h_def w_def Let_def)
qed

section \<open>Properties of names and routes\<close>

text \<open>C26. Hostnames and their parts: the server finds the tunnel id \<open>t\<close> and the route
  \<open>r\<close> in a hostname exactly when the hostname is \<open>t.domain\<close> and the route is
  \<open>@\<close>, or it is \<open>r.t.domain\<close>, with \<open>t\<close> and \<open>r\<close> single nonempty labels. So a
  hostname determines its tunnel and route, and every tunnel and route have a hostname.\<close>

theorem hostname_parts:
  "tunnel_id h d = Some t \<and> route_name h t d = Some r \<longleftrightarrow>
     t \<noteq> [] \<and> CHR ''.'' \<notin> set t \<and>
     ((h = tunnel_hostname t d \<and> r = ''@'') \<or>
      (r \<noteq> [] \<and> CHR ''.'' \<notin> set r \<and> h = r @ ''.'' @ tunnel_hostname t d))"
  by (auto simp: tunnel_id_iff route_name_iff)

text \<open>Client and server agree on routes: for a tunnel whose id and domain are
  lowercase and an SNI as the server stores it (lowercase), the client resolves the SNI to a
  route exactly when the server does and the name is a label or the hostname is the tunnel's own.\<close>

theorem client_server_routes_agree:
  assumes "to_ascii_lowercase sni = sni" "to_ascii_lowercase t = t" "to_ascii_lowercase d = d"
  shows "route_for_sni sni (tunnel_hostname t d) = Some r \<longleftrightarrow>
    route_name sni t d = Some r \<and> (is_label r \<or> sni = tunnel_hostname t d)"
  using assms
  by (auto simp: route_for_sni_iff route_name_iff tunnel_hostname_lower
      dest: is_label_no_dot is_label_nonempty)

theorem client_server_routes_agree_witness:
  "route_for_sni ''web.abc.example.com'' (tunnel_hostname ''abc'' ''example.com'') = Some ''web''"
proof -
  have "route_name ''web.abc.example.com'' ''abc'' ''example.com'' = Some ''web''" by code_simp
  moreover have "is_label ''web''" by code_simp
  moreover have "to_ascii_lowercase ''web.abc.example.com'' = ''web.abc.example.com''"
    "to_ascii_lowercase ''abc'' = ''abc''" "to_ascii_lowercase ''example.com'' = ''example.com''"
    by code_simp+
  ultimately show ?thesis
    using client_server_routes_agree [of "''web.abc.example.com''" "''abc''" "''example.com''" "''web''"]
    by simp
qed

lemma check_tunnel_request_safe:
  assumes "check_tunnel_request decode_csr t d names csr = Ok ()"
  shows "\<exists>request. csr_parse decode_csr csr = Some request \<and> valid_tunnel_id t \<and>
    to_ascii_lowercase (req_hostname request) = to_ascii_lowercase (tunnel_hostname t d) \<and>
    (let h = to_ascii_lowercase (tunnel_hostname t d)
     in map to_ascii_lowercase names \<in> {[h], [h, ''*.'' @ h], [''*.'' @ h, h]} \<and>
        to_ascii_lowercase ` set (req_identifiers request) \<subseteq> {h, ''*.'' @ h})"
proof -
  from assms obtain request where r: "csr_parse decode_csr csr = Some request"
      and names: "check_tunnel_names t d names = Ok ()"
      and host: "eq_ignore_ascii_case (req_hostname request) (tunnel_hostname t d)"
      and all: "\<And>n. n \<in> set (req_identifiers request) \<Longrightarrow>
        to_ascii_lowercase n \<in> set (map to_ascii_lowercase names)"
    by (cases "csr_parse decode_csr csr")
       (auto simp: check_tunnel_request_def result_bind_Inr list_all_iff list_ex_ignore_case
         split: if_splits)
  have "to_ascii_lowercase ` set (req_identifiers request) \<subseteq> set (map to_ascii_lowercase names)"
    using all by blast
  with r names host show ?thesis
    by (auto simp: check_tunnel_names_iff Let_def eq_ignore_ascii_case_def)
qed

text \<open>A certificate request that passes the check covers no name outside its tunnel:
  the tunnel id is valid, the ordered names are the tunnel's hostname, alone or with the wildcard
  below it, and every name in the request is (up to ASCII case) one of them, whatever the library
  that decodes requests returns.\<close>

theorem certificate_names_safe:
  assumes "check_tunnel_request decode_csr t d names csr = Ok ()"
  shows "\<exists>request. csr_parse decode_csr csr = Some request \<and> valid_tunnel_id t \<and>
    to_ascii_lowercase (req_hostname request) = to_ascii_lowercase (tunnel_hostname t d) \<and>
    (let h = to_ascii_lowercase (tunnel_hostname t d)
     in map to_ascii_lowercase names \<in> {[h], [h, ''*.'' @ h], [''*.'' @ h, h]} \<and>
        to_ascii_lowercase ` set (req_identifiers request) \<subseteq> {h, ''*.'' @ h})"
  using assms by (rule check_tunnel_request_safe)

definition example_csr :: "string \<Rightarrow> X509Request option"
  where "example_csr csr = (if csr = ''csr'' then Some \<lparr>iter_common_name = [Some ''abc.example.com''],
    requested_extensions = Some [OtherExtension, SubjectAlternativeName
      [DNSName ''abc.example.com'', OtherName, DNSName ''ABC.example.com'']]\<rparr> else None)"

theorem certificate_names_safe_witness:
  "check_tunnel_request example_csr ''abc'' ''example.com''
     [''*.abc.example.com'', ''abc.example.com''] ''csr'' = Ok () \<and>
   (\<exists>request. csr_parse example_csr ''csr'' = Some request \<and> valid_tunnel_id ''abc'' \<and>
    to_ascii_lowercase (req_hostname request) = to_ascii_lowercase (tunnel_hostname ''abc'' ''example.com'') \<and>
    (let h = to_ascii_lowercase (tunnel_hostname ''abc'' ''example.com'')
     in map to_ascii_lowercase [''*.abc.example.com'', ''abc.example.com'']
          \<in> {[h], [h, ''*.'' @ h], [''*.'' @ h, h]} \<and>
        to_ascii_lowercase ` set (req_identifiers request) \<subseteq> {h, ''*.'' @ h}))"
proof -
  have "check_tunnel_request example_csr ''abc'' ''example.com''
     [''*.abc.example.com'', ''abc.example.com''] ''csr'' = Ok ()"
    by code_simp
  then show ?thesis
    using certificate_names_safe [of example_csr "''abc''" "''example.com''"
        "[''*.abc.example.com'', ''abc.example.com'']" "''csr''"] by blast
qed

text \<open>The check compares the number of names and that each requested name is an ordered
  one, ignoring case. A request that names the hostname twice in different case passes for an
  order of hostname and wildcard: it is not a request for exactly the ordered names.\<close>

theorem csr_names_may_miss_wildcard:
  "check_tunnel_request example_csr ''abc'' ''example.com''
     [''abc.example.com'', ''*.abc.example.com''] ''csr'' = Ok () \<and>
   map_option (\<lambda>r. remdups (map to_ascii_lowercase (req_identifiers r))) (csr_parse example_csr ''csr'')
     = Some [''abc.example.com'']"
  by code_simp

text \<open>Route values survive their serialized form, whether they are a plain target or a
  table with options, and two different routes never have the same one.\<close>

theorem route_values_round_trip:
  "Route_deserialize (Route_serialize r) = Ok r \<and>
   (Route_serialize r = Route_serialize r' \<longleftrightarrow> r = r')"
  using route_codec.enc_eq_iff [of r r'] by (simp add: Route_deserialize_serialize)

text \<open>A route that validates has a name the client can resolve and a target with a
  nonempty host and a port that is not zero; a host and port printed with a colon, with or
  without brackets, is read back as that host and port.\<close>

theorem validated_route_target:
  "(Route_validate r name = Ok () \<longleftrightarrow> (name = ''@'' \<or> is_label name) \<and>
     (\<exists>h p. parse_target (target r) = Some (h, p) \<and> h \<noteq> [] \<and> list_all target_host_char h \<and> p \<noteq> 0)) \<and>
   (h \<noteq> [] \<and> list_all target_host_char h \<and> 0 < n \<and> n \<le> 65535 \<longrightarrow>
     parse_target (h @ '':'' @ show_nat n) = Some (h, word_of_nat n) \<and>
     parse_target (''['' @ h @ '']'' @ '':'' @ show_nat n) = Some (h, word_of_nat n))"
proof (intro conjI impI)
  show "Route_validate r name = Ok () \<longleftrightarrow> (name = ''@'' \<or> is_label name) \<and>
     (\<exists>h p. parse_target (target r) = Some (h, p) \<and> h \<noteq> [] \<and> list_all target_host_char h \<and> p \<noteq> 0)"
    using parse_target_sound
    by (cases "parse_target (target r)")
       (auto simp: Route_validate_def is_valid_route_def ROOT_ROUTE_def)
qed (use parse_target_print in blast)+

theorem validated_route_target_witness:
  "parse_target (''['' @ ''::1'' @ '']'' @ '':'' @ show_nat 8080) = Some (''::1'', word_of_nat 8080)"
proof -
  have "list_all target_host_char ''::1''" by code_simp
  then show ?thesis
    using validated_route_target [of undefined undefined "''::1''" 8080] by simp
qed

end
