(* ===== verification/Frames.thy ===== *)
theory Frames
  imports Prelude
begin

text \<open>
  The bridge protocol of \<^verbatim>\<open>opentunnel/src/protocol/bridge.rs\<close>: the control
  messages both sides exchange as JSON text, the rule that unknown server message
  types are ignored, and the binary data frames (a connection id of four bytes
  followed by the payload).  The JSON parser and the decoders that serde derives
  are parameters of \<^verbatim>\<open>ServerMessage::decode\<close>.
\<close>

section \<open>Constants\<close>

definition HEARTBEAT_MS :: millis where "HEARTBEAT_MS = 15000"
definition IDLE_TIMEOUT_MS :: millis where "IDLE_TIMEOUT_MS = 45000"
definition CONNECT_TIMEOUT_MS :: millis where "CONNECT_TIMEOUT_MS = 10000"
definition RECONNECT_BACKOFF_MIN_MS :: millis where "RECONNECT_BACKOFF_MIN_MS = 250"
definition RECONNECT_BACKOFF_MAX_MS :: millis where "RECONNECT_BACKOFF_MAX_MS = 30000"
definition MAX_PAYLOAD_SIZE :: nat where "MAX_PAYLOAD_SIZE = 32 * 1024"
definition CONN_ID_SIZE :: nat where "CONN_ID_SIZE = 4"

type_synonym ConnId = u32

section \<open>Control messages\<close>

record ClientInfo =
  version :: string
  max_conns :: u32

datatype Transport = Ws

datatype ClientMessage =
  ClientAttach string Transport "string list" ClientInfo
| ClientPing u64
| ClientPong u64
| ClientEnd ConnId
| ClientReset ConnId string

datatype ServerMessage =
  ServerAttached string "string list" u64 u64
| ServerAttachError string
| ServerOpen ConnId string string string
| ServerPing u64
| ServerPong u64
| ServerDrain string
| ServerEnd ConnId
| ServerReset ConnId string

definition SERVER_TYPES :: "string list"
  where "SERVER_TYPES = [''attached'', ''attach_error'', ''open'', ''ping'', ''pong'', ''drain'',
    ''end'', ''reset'']"

text \<open>The wire name of a message: the variant's name in snake case, which serde
  puts in the \<^verbatim>\<open>type\<close> field.\<close>

fun server_type :: "ServerMessage \<Rightarrow> string" where
  "server_type (ServerAttached _ _ _ _) = ''attached''"
| "server_type (ServerAttachError _) = ''attach_error''"
| "server_type (ServerOpen _ _ _ _) = ''open''"
| "server_type (ServerPing _) = ''ping''"
| "server_type (ServerPong _) = ''pong''"
| "server_type (ServerDrain _) = ''drain''"
| "server_type (ServerEnd _) = ''end''"
| "server_type (ServerReset _ _) = ''reset''"

text \<open>JSON values as \<^verbatim>\<open>serde_json::Value\<close> has them.\<close>

datatype json =
  JNull
| JBool bool
| JNumber int
| JString string
| JArray "json list"
| JObject "(string \<times> json) list"

fun json_get :: "json \<Rightarrow> string \<Rightarrow> json option" where
  "json_get (JObject entries) key = map_of entries key"
| "json_get _ key = None"

fun json_as_str :: "json \<Rightarrow> string option" where
  "json_as_str (JString s) = Some s"
| "json_as_str _ = None"

datatype DecodeError = Invalid_control

definition ServerMessage_decode ::
    "(string \<Rightarrow> json option) \<Rightarrow> (json \<Rightarrow> ServerMessage option) \<Rightarrow> string
      \<Rightarrow> DecodeError + ServerMessage option"
  where "ServerMessage_decode from_str from_value text =
    result_bind (ok_or (from_str text) Invalid_control) (\<lambda>v.
      let known = (case Option.bind (json_get v ''type'') json_as_str of
                     None \<Rightarrow> False
                   | Some kind \<Rightarrow> List.member SERVER_TYPES kind)
      in if \<not> known \<and>
            (case json_get v ''type'' of None \<Rightarrow> False | Some kind \<Rightarrow> json_as_str kind \<noteq> None)
         then Ok None
         else result_bind (ok_or (from_value v) Invalid_control) (\<lambda>m. Ok (Some m)))"

section \<open>Codes\<close>

definition BAD_TOKEN :: string where "BAD_TOKEN = ''bad_token''"
definition CERT_NOT_READY :: string where "CERT_NOT_READY = ''cert_not_ready''"
definition UNKNOWN_ROUTE :: string where "UNKNOWN_ROUTE = ''unknown_route''"
definition TOO_MANY_CONNECTIONS :: string where "TOO_MANY_CONNECTIONS = ''too_many_connections''"
definition UPSTREAM_CONNECT_FAILED :: string
  where "UPSTREAM_CONNECT_FAILED = ''upstream_connect_failed''"
definition UPSTREAM_IO_ERROR :: string where "UPSTREAM_IO_ERROR = ''upstream_io_error''"

definition is_fatal_attach_error :: "string \<Rightarrow> bool"
  where "is_fatal_attach_error code \<longleftrightarrow> code = BAD_TOKEN \<or> code = CERT_NOT_READY"

section \<open>Data frames\<close>

definition u32_to_be :: "u32 \<Rightarrow> bytes"
  where "u32_to_be w = nat_be 4 (unat w)"

definition u32_from_be :: "bytes \<Rightarrow> u32"
  where "u32_from_be bs = word_of_nat (be_nat bs)"

definition encode_data_frame :: "ConnId \<Rightarrow> bytes \<Rightarrow> bytes"
  where "encode_data_frame conn payload = u32_to_be conn @ payload"

definition decode_data_frame :: "bytes \<Rightarrow> (ConnId \<times> bytes) option"
  where "decode_data_frame frame = do {
    (head, payload) \<leftarrow> split_at_checked frame CONN_ID_SIZE;
    Some (u32_from_be head, payload) }"

lemma length_u32_to_be [simp]: "length (u32_to_be w) = 4"
  by (simp add: u32_to_be_def)

lemma u32_from_to_be [wire_simps]: "u32_from_be (u32_to_be w) = w"
proof -
  have "unat w < 256 ^ 4" using unsigned_less [of w, where ?'a = nat] by simp
  then show ?thesis by (simp add: u32_from_be_def u32_to_be_def be_nat_nat_be)
qed

lemma u32_to_from_be [wire_simps]: "length bs = 4 \<Longrightarrow> u32_to_be (u32_from_be bs) = bs"
proof -
  assume len: "length bs = 4"
  then have "be_nat bs < 2 ^ 32" using be_nat_less [of bs] by simp
  then have "unat (u32_from_be bs) = be_nat bs"
    by (simp add: u32_from_be_def unat_of_nat take_bit_nat_eq_self)
  with len show ?thesis using nat_be_be_nat [of bs] by (simp add: u32_to_be_def)
qed

interpretation data_frame: exact_round_trip
  "\<lambda>(conn, payload). encode_data_frame conn payload" decode_data_frame "\<lambda>_. True"
  by unfold_locales
     (auto simp: encode_data_frame_def decode_data_frame_def CONN_ID_SIZE_def wire_simps
        split_at_checked_Some bind_eq_Some_conv)

text \<open>Data frames: the decoder returns a connection and a payload exactly for the
  frame the encoder makes of them, and fails exactly on inputs shorter than a connection id.\<close>

theorem data_frame_exact:
  "(decode_data_frame frame = Some (conn, payload) \<longleftrightarrow> frame = encode_data_frame conn payload) \<and>
   (decode_data_frame frame = None \<longleftrightarrow> length frame < 4)"
  using data_frame.dec_iff [of frame "(conn, payload)"]
  by (auto simp: decode_data_frame_def split_at_checked_def CONN_ID_SIZE_def)

lemma server_type_known: "List.member SERVER_TYPES (server_type m)"
  by (cases m) (simp_all add: SERVER_TYPES_def)

text \<open>Unknown control messages are ignored and known ones are not: text that parses to an
  object whose type is a string outside the protocol decodes to nothing, while a message the
  serializer produced (its type field is its wire name, and the derived decoder reads it back)
  decodes to itself.\<close>

theorem decode_ignores_exactly_unknown:
  assumes "from_str text = Some v"
  shows "(ServerMessage_decode from_str from_value text = Ok None \<longleftrightarrow>
      (\<exists>kind. json_get v ''type'' = Some (JString kind) \<and> \<not> List.member SERVER_TYPES kind)) \<and>
    (json_get v ''type'' = Some (JString (server_type m)) \<and> from_value v = Some m \<longrightarrow>
      ServerMessage_decode from_str from_value text = Ok (Some m))"
proof -
  have as_str: "json_as_str j = Some s \<longleftrightarrow> j = JString s" for j s
    by (cases j) auto
  have "result_bind (ok_or (from_value v) Invalid_control) (\<lambda>m. Ok (Some m)) \<noteq> Ok None"
    by (cases "from_value v") auto
  then show ?thesis
    using assms server_type_known [of m]
    by (cases "json_get v ''type''")
       (auto simp: ServerMessage_decode_def Let_def as_str split: option.splits)
qed

theorem decode_ignores_exactly_unknown_witness:
  "ServerMessage_decode (\<lambda>_. Some (JObject [(''type'', JString ''end''), (''conn'', JNumber 7)]))
     (\<lambda>_. Some (ServerEnd 7)) ''{}'' = Ok (Some (ServerEnd 7))"
  using decode_ignores_exactly_unknown
    [of "\<lambda>_. Some (JObject [(''type'', JString ''end''), (''conn'', JNumber 7)])" "''{}''"
      "JObject [(''type'', JString ''end''), (''conn'', JNumber 7)]" "\<lambda>_. Some (ServerEnd 7)" "ServerEnd 7"]
  by simp

end
