(* ===== verification/Utf8.thy ===== *)
theory Utf8
  imports Prelude
begin

text \<open>
  UTF-8 as the Rust standard library reads it: the width of a sequence from its
  first byte, the longest valid or maximal invalid piece at the front of a byte
  string, \<^verbatim>\<open>str::from_utf8\<close> and \<^verbatim>\<open>String::from_utf8_lossy\<close>.
  The lemmas show that valid text is closed under concatenation, that ASCII is
  valid, that lossy decoding is the identity on valid text and that what it
  returns is always valid.
\<close>

definition is_cont :: "u8 \<Rightarrow> bool"
  where "is_cont b \<longleftrightarrow> 128 \<le> unat b \<and> unat b \<le> 191"

definition utf8_char_width :: "u8 \<Rightarrow> nat"
  where "utf8_char_width b =
    (let n = unat b in
     if n < 128 then 1
     else if n < 194 then 0
     else if n < 224 then 2
     else if n < 240 then 3
     else if n < 245 then 4
     else 0)"

text \<open>The second byte allowed after a first byte of width three or four: no overlong
  forms, no surrogates, nothing above U+10FFFF.\<close>

definition second_ok :: "u8 \<Rightarrow> u8 \<Rightarrow> bool"
  where "second_ok b c \<longleftrightarrow>
    (let n = unat b; m = unat c in
     if n = 224 then 160 \<le> m \<and> m \<le> 191
     else if n = 237 then 128 \<le> m \<and> m \<le> 159
     else if n = 240 then 144 \<le> m \<and> m \<le> 191
     else if n = 244 then 128 \<le> m \<and> m \<le> 143
     else 128 \<le> m \<and> m \<le> 191)"

text \<open>The piece at the front of a nonempty byte string: how many bytes, and whether
  they are one character.\<close>

fun utf8_piece :: "bytes \<Rightarrow> nat \<times> bool" where
  "utf8_piece [] = (0, True)"
| "utf8_piece (b # rest) =
     (if utf8_char_width b = 1 then (1, True)
      else if utf8_char_width b = 2 then
        (case rest of c # _ \<Rightarrow> if is_cont c then (2, True) else (1, False) | [] \<Rightarrow> (1, False))
      else if utf8_char_width b = 3 then
        (case rest of
           c # d # _ \<Rightarrow> if \<not> second_ok b c then (1, False)
                       else if is_cont d then (3, True) else (2, False)
         | [c] \<Rightarrow> if second_ok b c then (2, False) else (1, False)
         | [] \<Rightarrow> (1, False))
      else if utf8_char_width b = 4 then
        (case rest of
           c # d # e # _ \<Rightarrow> if \<not> second_ok b c then (1, False)
                           else if \<not> is_cont d then (2, False)
                           else if is_cont e then (4, True) else (3, False)
         | [c, d] \<Rightarrow> if \<not> second_ok b c then (1, False)
                     else if is_cont d then (3, False) else (2, False)
         | [c] \<Rightarrow> if second_ok b c then (2, False) else (1, False)
         | [] \<Rightarrow> (1, False))
      else (1, False))"

lemma utf8_piece_pos: "0 < fst (utf8_piece (b # rest))"
  by (auto split: list.splits)

lemma utf8_piece_le: "fst (utf8_piece bs) \<le> length bs"
  by (cases bs) (auto split: list.splits)

function is_utf8 :: "bytes \<Rightarrow> bool" where
  "is_utf8 [] = True"
| "is_utf8 (b # rest) =
     (snd (utf8_piece (b # rest)) \<and> is_utf8 (drop (fst (utf8_piece (b # rest))) (b # rest)))"
  by pat_completeness auto

termination is_utf8
  using utf8_piece_pos by (relation "measure length") (auto simp del: utf8_piece.simps)

definition replacement :: bytes
  where "replacement = [0xEF, 0xBF, 0xBD]"

function utf8_lossy :: "bytes \<Rightarrow> bytes" where
  "utf8_lossy [] = []"
| "utf8_lossy (b # rest) =
     (let (n, ok) = utf8_piece (b # rest)
      in (if ok then take n (b # rest) else replacement) @ utf8_lossy (drop n (b # rest)))"
  by pat_completeness auto

termination utf8_lossy
proof (relation "measure length")
  fix b rest x xa y
  assume "x = utf8_piece (b # rest)" "(xa, y) = x"
  then have "0 < xa" using utf8_piece_pos [of b rest] by (metis fst_conv)
  then show "(drop xa (b # rest), b # rest) \<in> measure length" by simp
qed simp

definition from_utf8 :: "bytes \<Rightarrow> string option"
  where "from_utf8 bs = (if is_utf8 bs then Some (of_bytes bs) else None)"

definition from_utf8_lossy :: "bytes \<Rightarrow> string"
  where "from_utf8_lossy bs = of_bytes (utf8_lossy bs)"

declare is_utf8.simps(2) [simp del] utf8_lossy.simps(2) [simp del] utf8_piece.simps(2) [simp del]

lemma utf8_piece_append:
  assumes "snd (utf8_piece (b # rest))"
  shows "utf8_piece (b # rest @ more) = utf8_piece (b # rest)"
  using assms by (auto simp: utf8_piece.simps split: if_splits list.splits)

lemma is_utf8_piece:
  "is_utf8 (b # rest) \<Longrightarrow>
     snd (utf8_piece (b # rest)) \<and> is_utf8 (drop (fst (utf8_piece (b # rest))) (b # rest))"
  by (simp add: is_utf8.simps(2))

lemma is_utf8_append: "is_utf8 s \<Longrightarrow> is_utf8 (s @ t) = is_utf8 t"
proof (induction s rule: is_utf8.induct)
  case (2 b rest)
  let ?n = "fst (utf8_piece (b # rest))"
  from 2(2) have ok: "snd (utf8_piece (b # rest))" "is_utf8 (drop ?n (b # rest))"
    by (simp_all add: is_utf8_piece)
  have "drop ?n (b # rest @ t) = drop ?n (b # rest) @ t"
    using utf8_piece_le [of "b # rest"] by (metis append_Cons drop_append diff_is_0_eq drop0)
  with 2(1) ok show ?case
    by (simp add: is_utf8.simps(2) utf8_piece_append)
qed simp

lemma is_utf8_ascii: "list_all (\<lambda>b. unat b < 128) bs \<Longrightarrow> is_utf8 bs"
  by (induction bs) (auto simp: is_utf8.simps(2) utf8_piece.simps utf8_char_width_def)

lemma utf8_lossy_valid: "is_utf8 bs \<Longrightarrow> utf8_lossy bs = bs"
proof (induction bs rule: is_utf8.induct)
  case (2 b rest)
  let ?n = "fst (utf8_piece (b # rest))"
  from 2(2) have ok: "snd (utf8_piece (b # rest))" "is_utf8 (drop ?n (b # rest))"
    by (simp_all add: is_utf8_piece)
  with 2(1) show ?case
    by (simp add: utf8_lossy.simps(2) case_prod_beta' Let_def)
qed simp

lemma is_utf8_replacement: "is_utf8 replacement"
  by code_simp

lemma utf8_piece_take:
  assumes "snd (utf8_piece (b # rest))"
  shows "is_utf8 (take (fst (utf8_piece (b # rest))) (b # rest))"
  using assms
  by (auto simp: utf8_piece.simps is_utf8.simps(2) split: if_splits list.splits)

lemma is_utf8_lossy: "is_utf8 (utf8_lossy bs)"
proof (induction bs rule: utf8_lossy.induct)
  case (2 b rest)
  then have "is_utf8 (utf8_lossy (drop (fst (utf8_piece (b # rest))) (b # rest)))"
    by (metis prod.collapse)
  then show ?case
    by (simp add: utf8_lossy.simps(2) case_prod_beta' Let_def is_utf8_append is_utf8_replacement
        utf8_piece_take)
qed simp

lemma utf8_lossy_Nil_iff: "utf8_lossy bs = [] \<longleftrightarrow> bs = []"
proof (cases bs)
  case (Cons b rest)
  then show ?thesis
    using utf8_piece_pos [of b rest]
    by (auto simp: utf8_lossy.simps(2) case_prod_beta' Let_def replacement_def)
qed simp

lemma from_utf8_lossy_valid: "is_utf8 (as_bytes s) \<Longrightarrow> from_utf8_lossy (as_bytes s) = s"
  by (simp add: from_utf8_lossy_def utf8_lossy_valid)

lemma from_utf8_lossy_Nil_iff [simp]: "from_utf8_lossy bs = [] \<longleftrightarrow> bs = []"
  by (simp add: from_utf8_lossy_def of_bytes_def utf8_lossy_Nil_iff)

lemma from_utf8_lossy_ascii:
  "list_all (\<lambda>c. code_of c < 128) s \<Longrightarrow> from_utf8_lossy (as_bytes s) = s"
  by (intro from_utf8_lossy_valid is_utf8_ascii) (simp add: as_bytes_def list_all_iff)

end
