(* ===== verification/Sni.thy ===== *)
theory Sni
  imports Utf8
begin

text \<open>
  The ClientHello reader of \<^verbatim>\<open>opentunnel-server/src/sni.rs\<close>: the parser state
  that survives between reads, the loop over TLS records and the walk over the
  extensions of a hello, with every index a checked one.  The lemmas show that
  no input makes the parser panic, that feeding it a connection piece by piece
  gives the answer of parsing the whole at once, and that a hello built from a
  list of extensions is read as the meaning of that list, however its bytes are
  split over records.

  \<^verbatim>\<open>str::to_lowercase\<close> follows the Unicode tables; it is the parameter
  \<open>to_lower\<close>.
\<close>

section \<open>The parser\<close>

datatype Hello = HelloIncomplete | HelloInvalid string | HelloComplete string string

definition CLIENT_HELLO_LIMIT :: nat
  where "CLIENT_HELLO_LIMIT = 64 * 1024"

definition u16_at :: "bytes \<Rightarrow> nat \<Rightarrow> nat option"
  where "u16_at data offset = do {
    hi \<leftarrow> index_at data offset;
    lo \<leftarrow> index_at data (offset + 1);
    Some (unat hi * 256 + unat lo) }"

text \<open>The inner loop over the entries of a server name list: the first entry of type
  zero that fits.\<close>

function name_loop :: "bytes \<Rightarrow> nat \<Rightarrow> nat \<Rightarrow> bytes option option" where
  "name_loop hello name_offset list_end =
     (if list_end < name_offset + 3 then Some None
      else do {
        name_type \<leftarrow> index_at hello name_offset;
        name_length \<leftarrow> u16_at hello (name_offset + 1);
        if list_end < name_offset + 3 + name_length then Some None
        else if name_type = 0 then do {
          name \<leftarrow> slice hello (name_offset + 3) (name_offset + 3 + name_length);
          Some (Some name) }
        else name_loop hello (name_offset + 3 + name_length) list_end })"
  by pat_completeness auto

termination name_loop
  by (relation "measure (\<lambda>(hello, name_offset, list_end). list_end - name_offset)") auto

text \<open>One extension: the server name and ALPN so far, updated from \<open>length\<close> bytes at
  \<open>offset\<close>.\<close>

definition hello_extension ::
    "bytes \<Rightarrow> nat \<Rightarrow> nat \<Rightarrow> nat \<Rightarrow> string \<times> string \<Rightarrow> (string \<times> string) option"
  where "hello_extension hello kind len offset names =
    (case names of (server_name, alpn) \<Rightarrow>
     if kind = 0 \<and> 5 \<le> len then do {
       list_length \<leftarrow> u16_at hello offset;
       found \<leftarrow> name_loop hello (offset + 2) (min (offset + len) (offset + 2 + list_length));
       Some (case found of None \<Rightarrow> server_name | Some name \<Rightarrow> from_utf8_lossy name, alpn) }
     else if kind = 16 \<and> 3 \<le> len then do {
       list_length \<leftarrow> u16_at hello offset;
       let list_end = min (offset + len) (offset + 2 + list_length);
       protocol_length \<leftarrow> map_option unat (index_at hello (offset + 2));
       if offset + 3 + protocol_length \<le> list_end then do {
         protocol \<leftarrow> slice hello (offset + 3) (offset + 3 + protocol_length);
         Some (server_name, from_utf8_lossy protocol) }
       else Some (server_name, alpn) }
     else Some (server_name, alpn))"

function extension_loop ::
    "bytes \<Rightarrow> nat \<Rightarrow> nat \<Rightarrow> string \<times> string \<Rightarrow> (string + string \<times> string) option" where
  "extension_loop hello offset extensions_end names =
     (if extensions_end < offset + 4 then Some (Ok names)
      else do {
        kind \<leftarrow> u16_at hello offset;
        len \<leftarrow> u16_at hello (offset + 2);
        if extensions_end < offset + 4 + len then Some (Err ''truncated extension'')
        else do {
          names \<leftarrow> hello_extension hello kind len (offset + 4) names;
          extension_loop hello (offset + 4 + len) extensions_end names } })"
  by pat_completeness auto

termination extension_loop
  by (relation "measure (\<lambda>(hello, offset, extensions_end, names). extensions_end - offset)") auto

definition parse_hello_body :: "(string \<Rightarrow> string) \<Rightarrow> bytes \<Rightarrow> Hello option"
  where "parse_hello_body to_lower hello =
    (if length hello < 35 then Some (HelloInvalid ''truncated ClientHello'')
     else do {
       session_length \<leftarrow> map_option unat (index_at hello 34);
       let offset = 35 + session_length;
       if length hello < offset + 2 then Some (HelloInvalid ''invalid session'')
       else do {
         cipher_length \<leftarrow> u16_at hello offset;
         let offset = offset + 2 + cipher_length;
         if length hello \<le> offset then Some (HelloInvalid ''invalid cipher suites'')
         else do {
           compression_length \<leftarrow> map_option unat (index_at hello offset);
           let offset = offset + 1 + compression_length;
           if offset = length hello then Some (HelloInvalid ''ClientHello has no SNI'')
           else if length hello < offset + 2 then Some (HelloInvalid ''invalid extensions'')
           else do {
             extensions_length \<leftarrow> u16_at hello offset;
             let offset = offset + 2;
             let extensions_end = offset + extensions_length;
             if length hello < extensions_end then Some (HelloInvalid ''truncated extensions'')
             else do {
               names \<leftarrow> extension_loop hello offset extensions_end ([], []);
               Some (case names of
                 Inl e \<Rightarrow> HelloInvalid e
               | Inr (server_name, alpn) \<Rightarrow>
                   if server_name = [] then HelloInvalid ''ClientHello has no SNI''
                   else HelloComplete (to_lower server_name) alpn) } } } } })"

record HelloParser =
  record_offset :: nat
  handshake :: bytes
  handshake_length :: "nat option"

definition HelloParser_default :: HelloParser
  where "HelloParser_default = \<lparr>record_offset = 0, handshake = [], handshake_length = None\<rparr>"

definition handshake_done :: "HelloParser \<Rightarrow> nat option"
  where "handshake_done p =
    (case handshake_length p of
       Some len \<Rightarrow> if len + 4 \<le> length (handshake p) then Some len else None
     | None \<Rightarrow> None)"

text \<open>The end of one round of the loop: the record's bytes are in \<open>hs\<close>; the message type is
  checked and the length remembered once four bytes are there.  \<^const>\<open>Inl\<close> is an answer.\<close>

definition note_handshake :: "HelloParser \<Rightarrow> (HelloParser \<times> Hello + HelloParser) option"
  where "note_handshake p =
    (let hs = handshake p in
     if 4 \<le> length hs then do {
       kind \<leftarrow> index_at hs 0;
       b1 \<leftarrow> index_at hs 1; b2 \<leftarrow> index_at hs 2; b3 \<leftarrow> index_at hs 3;
       if kind \<noteq> 1 then Some (Inl (p, HelloInvalid ''expected TLS ClientHello''))
       else Some (Inr (case handshake_length p of
         Some _ \<Rightarrow> p
       | None \<Rightarrow> p\<lparr>handshake_length := Some (unat b1 * 65536 + unat b2 * 256 + unat b3)\<rparr>)) }
     else Some (Inr p))"

lemma note_handshake_offset:
  "note_handshake p = Some (Inr p') \<Longrightarrow> record_offset p' = record_offset p"
  by (auto simp: note_handshake_def Let_def bind_eq_Some_conv split: if_splits option.splits)

function HelloParser_parse :: "(string \<Rightarrow> string) \<Rightarrow> HelloParser \<Rightarrow> bytes \<Rightarrow> (HelloParser \<times> Hello) option" where
  "HelloParser_parse to_lower p data =
     (case handshake_done p of
        Some len \<Rightarrow> do {
          body \<leftarrow> slice (handshake p) 4 (len + 4);
          hello \<leftarrow> parse_hello_body to_lower body;
          Some (p, hello) }
      | None \<Rightarrow>
          let offset = record_offset p in
          if length data - offset < 5 then Some (p, HelloIncomplete)
          else do {
            kind \<leftarrow> index_at data offset;
            if kind \<noteq> 0x16 then Some (p, HelloInvalid ''expected TLS handshake record'')
            else do {
              record_length \<leftarrow> u16_at data (offset + 3);
              if length data - offset - 5 < record_length then Some (p, HelloIncomplete)
              else do {
                fragment \<leftarrow> slice data (offset + 5) (offset + 5 + record_length);
                noted \<leftarrow> note_handshake (p\<lparr>handshake := handshake p @ fragment,
                                          record_offset := offset + 5 + record_length\<rparr>);
                case noted of
                  Inl answer \<Rightarrow> Some answer
                | Inr p' \<Rightarrow> HelloParser_parse to_lower p' data } } })"
  by pat_completeness auto

termination HelloParser_parse
  by (relation "measure (\<lambda>(to_lower, p, data). length data - record_offset p)")
     (auto dest: note_handshake_offset)

definition parse_client_hello :: "(string \<Rightarrow> string) \<Rightarrow> bytes \<Rightarrow> Hello option"
  where "parse_client_hello to_lower data =
    map_option snd (HelloParser_parse to_lower HelloParser_default data)"

declare name_loop.simps [simp del] extension_loop.simps [simp del] HelloParser_parse.simps [simp del]

section \<open>No input makes the parser panic\<close>

lemma u16_at_no_panic [no_panic]: "offset + 1 < length data \<Longrightarrow> u16_at data offset \<noteq> None"
  by (simp add: u16_at_def)

lemma name_loop_no_panic [no_panic]:
  "list_end \<le> length hello \<Longrightarrow> name_loop hello name_offset list_end \<noteq> None"
proof (induction hello name_offset list_end rule: name_loop.induct)
  case (1 hello name_offset list_end)
  show ?case
    by (subst name_loop.simps, intro no_panic) (use 1 in auto)
qed

lemma hello_extension_no_panic [no_panic]:
  assumes "offset + len \<le> length hello"
  shows "hello_extension hello kind len offset names \<noteq> None"
proof (cases names)
  case (Pair server_name alpn)
  show ?thesis
    unfolding hello_extension_def Pair prod.case Let_def
    by (intro no_panic) (use assms in auto)
qed

lemma extension_loop_no_panic [no_panic]:
  "extensions_end \<le> length hello \<Longrightarrow> extension_loop hello offset extensions_end names \<noteq> None"
proof (induction hello offset extensions_end names rule: extension_loop.induct)
  case (1 hello offset extensions_end names)
  show ?case
    by (subst extension_loop.simps, intro no_panic) (use 1 in auto)
qed

lemma parse_hello_body_no_panic [no_panic]: "parse_hello_body to_lower hello \<noteq> None"
  unfolding parse_hello_body_def Let_def
  by (intro no_panic) auto

lemma note_handshake_no_panic [no_panic]: "note_handshake p \<noteq> None"
  unfolding note_handshake_def Let_def
  by (intro no_panic) auto

lemma HelloParser_parse_no_panic: "HelloParser_parse to_lower p data \<noteq> None"
proof (induction to_lower p data rule: HelloParser_parse.induct)
  case (1 to_lower p data)
  show ?case
    by (subst HelloParser_parse.simps, unfold Let_def, intro no_panic)
       (use 1 in \<open>auto simp: handshake_done_def Let_def split: option.splits if_splits\<close>)
qed

section \<open>Parsing piece by piece\<close>

lemma u16_at_append: "offset + 1 < length data \<Longrightarrow> u16_at (data @ e) offset = u16_at data offset"
  by (simp add: u16_at_def nth_append)

text \<open>One round of the loop does not depend on bytes after the record it completes.\<close>

lemma HelloParser_parse_extend:
  "HelloParser_parse to_lower p d = Some (p', r) \<Longrightarrow>
     (r = HelloIncomplete \<longrightarrow> HelloParser_parse to_lower p' (d @ e) = HelloParser_parse to_lower p (d @ e)) \<and>
     (r \<noteq> HelloIncomplete \<longrightarrow> HelloParser_parse to_lower p (d @ e) = Some (p', r))"
proof (induction to_lower p d rule: HelloParser_parse.induct)
  case (1 to_lower p data)
  let ?off = "record_offset p"
  show ?case
  proof (cases "handshake_done p")
    case (Some len)
    then have "HelloParser_parse to_lower p (data @ e) = HelloParser_parse to_lower p data"
      by (simp add: HelloParser_parse.simps [of to_lower p])
    moreover from Some 1(2) have "p' = p"
      by (auto simp: HelloParser_parse.simps [of to_lower p data] bind_eq_Some_conv)
    ultimately show ?thesis using 1(2) by simp
  next
    case None
    show ?thesis
    proof (cases "length data - ?off < 5")
      case True
      with None 1(2) show ?thesis by (auto simp: HelloParser_parse.simps [of to_lower p data] Let_def)
    next
      case False
      then obtain n where n: "u16_at data (?off + 3) = Some n"
        by (simp add: u16_at_def)
      from False have "?off + 4 < length data" by linarith
      then have same: "index_at (data @ e) ?off = index_at data ?off"
        "u16_at (data @ e) (?off + 3) = Some n" "\<not> length (data @ e) - ?off < 5"
        using False n by (simp_all add: index_at_def u16_at_append nth_append)
      show ?thesis
      proof (cases "data ! ?off = 0x16 \<and> \<not> length data - ?off - 5 < n")
        case True
        define q where "q = p\<lparr>handshake := handshake p @ take n (drop (?off + 5) data),
                              record_offset := ?off + 5 + n\<rparr>"
        obtain noted where noted: "note_handshake q = Some noted"
          using note_handshake_no_panic [of q] by blast
        from True False have fits: "?off + 5 + n \<le> length data" by linarith
        then have fragment: "slice data (?off + 5) (?off + 5 + n) = Some (take n (drop (?off + 5) data))"
          "slice (data @ e) (?off + 5) (?off + 5 + n) = Some (take n (drop (?off + 5) data))"
          using fits by (simp_all add: slice_def)
        have step: "HelloParser_parse to_lower p ds =
            (case noted of Inl answer \<Rightarrow> Some answer | Inr p' \<Rightarrow> HelloParser_parse to_lower p' ds)"
          if "ds = data \<or> ds = data @ e" for ds
          using that True False None n same fragment noted
          by (subst HelloParser_parse.simps) (auto simp: Let_def q_def split: sum.splits)
        show ?thesis
        proof (cases noted)
          case (Inl answer)
          then have "snd answer \<noteq> HelloIncomplete"
            using noted by (auto simp: note_handshake_def Let_def bind_eq_Some_conv split: if_splits)
          with Inl step 1(2) show ?thesis by auto
        next
          case (Inr p2)
          have "HelloParser_parse to_lower p2 data = Some (p', r)"
            using step [of data] 1(2) Inr by simp
          moreover have "index_at data ?off = Some 0x16" using True False by simp
          ultimately show ?thesis
            using 1(1) [OF None refl False _ _ n _ fragment(1) noted [unfolded q_def] Inr] step True Inr
            by simp
        qed
      next
        case stop: False
        show ?thesis
        proof (cases "data ! ?off = 0x16")
          case True
          with stop False None n 1(2) show ?thesis
            by (simp add: HelloParser_parse.simps [of to_lower p data])
        next
          case wrong: False
          have "HelloParser_parse to_lower p ds = Some (p, HelloInvalid ''expected TLS handshake record'')"
            if "ds = data \<or> ds = data @ e" for ds
            using that wrong False None same
            by (subst HelloParser_parse.simps) (auto simp: Let_def)
          with 1(2) show ?thesis by simp
        qed
      qed
    qed
  qed
qed

definition hello_run :: "(string \<Rightarrow> string) \<Rightarrow> HelloParser \<Rightarrow> bytes \<Rightarrow> HelloParser \<times> Hello"
  where "hello_run to_lower p data = the (HelloParser_parse to_lower p data)"

lemma hello_run_Some: "HelloParser_parse to_lower p data = Some (hello_run to_lower p data)"
  using HelloParser_parse_no_panic by (simp add: hello_run_def)

interpretation hello_parser: incremental_parser "hello_run to_lower" HelloIncomplete
  using HelloParser_parse_extend by unfold_locales (metis hello_run_Some option.inject)+

section \<open>Reading a well-formed hello\<close>

text \<open>A hello by its contents: the meaning the parser gives to a list of extensions, and
  the bytes of such a hello as RFC 8446 and RFC 6066 lay them out.\<close>

datatype extension =
  ServerName bytes
| Alpn bytes "bytes list"
| OtherExt nat bytes

record client_hello =
  hello_random :: bytes
  hello_session :: bytes
  hello_ciphers :: bytes
  hello_compression :: bytes
  hello_extensions :: "extension list"

definition be2 :: "nat \<Rightarrow> bytes"
  where "be2 n = nat_be 2 n"

fun extension_kind :: "extension \<Rightarrow> nat" where
  "extension_kind (ServerName _) = 0"
| "extension_kind (Alpn _ _) = 16"
| "extension_kind (OtherExt kind _) = kind"

fun extension_data :: "extension \<Rightarrow> bytes" where
  "extension_data (ServerName name) = be2 (length name + 3) @ [0] @ be2 (length name) @ name"
| "extension_data (Alpn p ps) =
     (let protocols = concat (map (\<lambda>p. word_of_nat (length p) # p) (p # ps))
      in be2 (length protocols) @ protocols)"
| "extension_data (OtherExt _ data) = data"

definition extension_bytes :: "extension \<Rightarrow> bytes"
  where "extension_bytes e = be2 (extension_kind e) @ be2 (length (extension_data e)) @ extension_data e"

fun extension_wf :: "extension \<Rightarrow> bool" where
  "extension_wf (ServerName name) \<longleftrightarrow> length name + 5 < 65536"
| "extension_wf (Alpn p ps) \<longleftrightarrow> length p < 256 \<and> length (extension_data (Alpn p ps)) < 65536"
| "extension_wf (OtherExt kind data) \<longleftrightarrow>
     kind \<noteq> 0 \<and> kind \<noteq> 16 \<and> kind < 65536 \<and> length data < 65536"

fun extension_meaning :: "string \<times> string \<Rightarrow> extension \<Rightarrow> string \<times> string" where
  "extension_meaning (server_name, alpn) (ServerName name) = (from_utf8_lossy name, alpn)"
| "extension_meaning (server_name, alpn) (Alpn p ps) = (server_name, from_utf8_lossy p)"
| "extension_meaning names (OtherExt _ _) = names"

definition hello_meaning :: "client_hello \<Rightarrow> string \<times> string"
  where "hello_meaning h = foldl extension_meaning ([], []) (hello_extensions h)"

definition hello_body :: "client_hello \<Rightarrow> bytes"
  where "hello_body h = [3, 3] @ hello_random h @
    word_of_nat (length (hello_session h)) # hello_session h @
    be2 (length (hello_ciphers h)) @ hello_ciphers h @
    word_of_nat (length (hello_compression h)) # hello_compression h @
    (let exts = concat (map extension_bytes (hello_extensions h)) in be2 (length exts) @ exts)"

definition hello_wf :: "client_hello \<Rightarrow> bool"
  where "hello_wf h \<longleftrightarrow>
    length (hello_random h) = 32 \<and> length (hello_session h) < 256 \<and>
    length (hello_ciphers h) < 65536 \<and> length (hello_compression h) < 256 \<and>
    length (concat (map extension_bytes (hello_extensions h))) < 65536 \<and>
    list_all extension_wf (hello_extensions h)"

definition hello_message :: "client_hello \<Rightarrow> bytes"
  where "hello_message h = [1] @ nat_be 3 (length (hello_body h)) @ hello_body h"

definition tls_record :: "u8 \<Rightarrow> u8 \<Rightarrow> bytes \<Rightarrow> bytes"
  where "tls_record major minor fragment = [0x16, major, minor] @ be2 (length fragment) @ fragment"

lemma length_be2 [simp]: "length (be2 n) = 2"
  by (simp add: be2_def)

lemma u16_at_drop:
  assumes "drop offset data = be2 n @ rest" "n < 65536"
  shows "u16_at data offset = Some n"
proof -
  from assms(1) have d: "drop offset data = word_of_nat (n div 256 mod 256) # word_of_nat (n mod 256) # rest"
    by (simp add: be2_def nat_be_2)
  then have "drop (offset + 1) data = word_of_nat (n mod 256) # rest"
    by (metis drop_drop drop_Suc_Cons drop0 One_nat_def add.commute)
  with d have "u16_at data offset =
      Some (unat (word_of_nat (n div 256 mod 256) :: u8) * 256 + unat (word_of_nat (n mod 256) :: u8))"
    unfolding u16_at_def by (simp only: index_at_drop bind.bind_lunit)
  moreover from assms(2) have "n div 256 mod 256 * 256 + n mod 256 = n" by simp
  ultimately show ?thesis by (simp only: unat_word_of_nat_mod)
qed

lemma drop_tail: "drop i data = xs @ rest \<Longrightarrow> j = i + length xs \<Longrightarrow> drop j data = rest"
  by (metis add.commute append_eq_conv_conj drop_drop)

lemma be2_nonempty [simp]: "be2 n \<noteq> []"
  by (simp add: be2_def nat_be_2)

lemma server_name_step:
  assumes d: "drop offset hello = be2 (length name + 3) @ [0] @ be2 (length name) @ name @ rest"
    and wf: "length name + 5 < 65536"
  shows "hello_extension hello 0 (length name + 5) offset (server_name, alpn) =
    Some (from_utf8_lossy name, alpn)"
proof -
  have d2: "drop (offset + 2) hello = [0] @ be2 (length name) @ name @ rest"
    using drop_tail [OF d] by simp
  have d3: "drop (offset + 3) hello = be2 (length name) @ name @ rest"
    using drop_tail [OF d2, of "offset + 3"] by simp
  have d5: "drop (offset + 5) hello = name @ rest"
    using drop_tail [OF d3, of "offset + 5"] by simp
  have len: "offset + 5 \<le> length hello"
    using drop_eq_length [of "offset + 3" hello "be2 (length name)"] d3 by simp
  have reads: "u16_at hello offset = Some (length name + 3)" "index_at hello (offset + 2) = Some 0"
    "u16_at hello (offset + 3) = Some (length name)"
    using u16_at_drop [OF d] u16_at_drop [OF d3] index_at_drop [of "offset + 2" hello 0] d2 wf by auto
  have "slice hello (offset + 5) (offset + 5 + length name) = Some name"
    using slice_drop [OF d5] len by simp
  with reads have "name_loop hello (offset + 2) (offset + length name + 5) = Some (Some name)"
    by (subst name_loop.simps) (simp add: algebra_simps numeral_eq_Suc)
  with reads show ?thesis
    by (simp add: hello_extension_def algebra_simps)
qed

lemma alpn_step:
  assumes d: "drop offset hello = be2 (length p + 1 + k) @ [word_of_nat (length p)] @ p @ rest"
    and wf: "length p < 256" "length p + 1 + k < 65536" and k: "k \<le> length rest"
  shows "hello_extension hello 16 (length p + 3 + k) offset (server_name, alpn) =
    Some (server_name, from_utf8_lossy p)"
proof -
  have d2: "drop (offset + 2) hello = [word_of_nat (length p)] @ p @ rest"
    using drop_tail [OF d] by simp
  have d3: "drop (offset + 3) hello = p @ rest"
    using drop_tail [OF d2, of "offset + 3"] by simp
  have len: "offset + 3 \<le> length hello"
    using drop_eq_length [of "offset + 2" hello "[word_of_nat (length p)]"] d2 by simp
  have "unat (word_of_nat (length p) :: u8) = length p"
    using wf(1) by (simp add: unat_of_nat take_bit_nat_eq_self)
  moreover have "u16_at hello offset = Some (length p + 1 + k)"
    "index_at hello (offset + 2) = Some (word_of_nat (length p))"
    using u16_at_drop [OF d] index_at_drop [of "offset + 2" hello] d2 wf by auto
  moreover have "slice hello (offset + 3) (offset + 3 + length p) = Some p"
    using slice_drop [OF d3] len by simp
  ultimately show ?thesis
    by (simp add: hello_extension_def Let_def algebra_simps)
qed

lemma hello_extension_meaning:
  assumes d: "drop offset hello = extension_data e @ rest" and wf: "extension_wf e"
  shows "hello_extension hello (extension_kind e) (length (extension_data e)) offset names =
    Some (extension_meaning names e)"
proof (cases names)
  case (Pair server_name alpn)
  show ?thesis
  proof (cases e)
    case (ServerName name)
    then have len: "length (extension_data e) = length name + 5" by simp
    from ServerName d wf show ?thesis
      unfolding len using server_name_step [of offset hello name rest server_name alpn]
      by (simp add: Pair)
  next
    case (Alpn p ps)
    define others where "others = concat (map (\<lambda>p. word_of_nat (length p) # p) ps)"
    have data: "extension_data e = be2 (length p + 1 + length others) @ [word_of_nat (length p)] @ p @ others"
      by (simp add: Alpn others_def)
    from wf have len: "length p < 256" "length (extension_data e) < 65536" unfolding Alpn by simp_all
    have "hello_extension hello 16 (length p + 3 + length others) offset (server_name, alpn) =
        Some (server_name, from_utf8_lossy p)"
      using len d by (intro alpn_step [of _ _ _ _ "others @ rest"]) (simp_all add: data)
    moreover have "length (extension_data e) = length p + 3 + length others"
      unfolding data by simp
    ultimately show ?thesis by (simp add: Pair Alpn del: extension_data.simps)
  next
    case (OtherExt kind data)
    with wf show ?thesis by (simp add: Pair hello_extension_def)
  qed
qed

lemma extension_wf_bounds:
  "extension_wf e \<Longrightarrow> extension_kind e < 65536 \<and> length (extension_data e) < 65536"
  by (cases e) auto

lemma extension_loop_meaning:
  assumes "drop offset hello = concat (map extension_bytes exts) @ rest" "offset \<le> length hello"
    and "list_all extension_wf exts"
    and "ends = offset + length (concat (map extension_bytes exts))"
  shows "extension_loop hello offset ends names = Some (Ok (foldl extension_meaning names exts))"
  using assms
proof (induction exts arbitrary: offset names)
  case Nil
  then show ?case by (simp add: extension_loop.simps)
next
  case (Cons e exts)
  let ?len = "length (extension_data e)"
  let ?tail = "concat (map extension_bytes exts) @ rest"
  have wf: "extension_wf e" "extension_kind e < 65536" "?len < 65536"
    using Cons.prems(3) extension_wf_bounds by auto
  have d: "drop offset hello = be2 (extension_kind e) @ be2 ?len @ extension_data e @ ?tail"
    using Cons.prems(1) by (simp add: extension_bytes_def [of e])
  have d2: "drop (offset + 2) hello = be2 ?len @ extension_data e @ ?tail"
    using drop_tail [OF d] by simp
  have d4: "drop (offset + 4) hello = extension_data e @ ?tail"
    using drop_tail [OF d2, of "offset + 4"] by simp
  have d': "drop (offset + 4 + ?len) hello = ?tail"
    using drop_tail [OF d4] by simp
  have ends: "ends = offset + 4 + ?len + length (concat (map extension_bytes exts))"
    using Cons.prems(4) by (simp add: extension_bytes_def [of e])
  have "offset + 4 + ?len \<le> length hello"
    using drop_eq_length [of offset hello "be2 (extension_kind e) @ be2 ?len @ extension_data e" ?tail] d
    by simp
  with Cons.IH [OF d' _ _ ends] Cons.prems(3)
  have IH: "extension_loop hello (offset + 4 + ?len) ends names' =
      Some (Ok (foldl extension_meaning names' exts))" for names'
    by simp
  have "u16_at hello offset = Some (extension_kind e)" "u16_at hello (offset + 2) = Some ?len"
    using u16_at_drop [OF d] u16_at_drop [OF d2] wf by simp_all
  with IH hello_extension_meaning [OF d4 wf(1)] ends show ?case
    by (subst extension_loop.simps) simp
qed

lemma parse_hello_body_meaning:
  assumes wf: "hello_wf h" and meaning: "hello_meaning h = (server_name, alpn)" "server_name \<noteq> []"
  shows "parse_hello_body to_lower (hello_body h) = Some (HelloComplete (to_lower server_name) alpn)"
proof -
  define hello where "hello = hello_body h"
  define exts where "exts = concat (map extension_bytes (hello_extensions h))"
  define i where "i = 35 + length (hello_session h)"
  define j where "j = i + 2 + length (hello_ciphers h)"
  define k where "k = j + 1 + length (hello_compression h)"
  let ?compression = "word_of_nat (length (hello_compression h)) # hello_compression h @ be2 (length exts) @ exts"
  let ?ciphers = "be2 (length (hello_ciphers h)) @ hello_ciphers h @ ?compression"
  have d0: "drop 0 hello = ([3, 3] @ hello_random h) @ word_of_nat (length (hello_session h)) #
      hello_session h @ ?ciphers"
    by (simp add: hello_def hello_body_def exts_def Let_def)
  have d34: "drop 34 hello = (word_of_nat (length (hello_session h)) # hello_session h) @ ?ciphers"
    using drop_tail [OF d0, of 34] wf by (simp add: hello_wf_def)
  have di: "drop i hello = be2 (length (hello_ciphers h)) @ hello_ciphers h @ ?compression"
    using drop_tail [OF d34, of i] by (simp add: i_def)
  have dj: "drop j hello = (word_of_nat (length (hello_compression h)) # hello_compression h) @
      be2 (length exts) @ exts"
    using drop_tail [of i hello "be2 (length (hello_ciphers h)) @ hello_ciphers h", of ?compression j] di
    by (simp add: j_def)
  have dk: "drop k hello = be2 (length exts) @ exts"
    using drop_tail [OF dj, of k] by (simp add: k_def)
  have dk2: "drop (k + 2) hello = exts @ []"
    using drop_tail [OF dk, of "k + 2"] by simp
  have len: "length hello = k + 2 + length exts"
    using wf by (simp add: hello_def hello_body_def exts_def k_def j_def i_def Let_def hello_wf_def)
  have "index_at hello 34 = Some (word_of_nat (length (hello_session h)))"
    "u16_at hello i = Some (length (hello_ciphers h))"
    "index_at hello j = Some (word_of_nat (length (hello_compression h)))"
    "u16_at hello k = Some (length exts)"
    using index_at_drop [of 34 hello] d34 u16_at_drop [OF di] index_at_drop [of j hello] dj
      u16_at_drop [OF dk] wf by (simp_all add: hello_wf_def exts_def)
  moreover have "extension_loop hello (k + 2) (k + 2 + length exts) ([], []) = Some (Ok (server_name, alpn))"
    using extension_loop_meaning [of "k + 2" hello "hello_extensions h" "[]"] dk2 len wf meaning
    by (simp add: exts_def hello_wf_def hello_meaning_def)
  ultimately show ?thesis
    using wf meaning(2) len unfolding hello_def [symmetric]
    by (simp add: parse_hello_body_def Let_def hello_wf_def unat_byte_length i_def j_def k_def
        del: index_at_Some)
qed

lemma hello_message_head:
  assumes "hello_wf h"
  obtains b1 b2 b3 where "hello_message h = [1, b1, b2, b3] @ hello_body h"
    "unat b1 * 65536 + unat b2 * 256 + unat b3 = length (hello_body h)"
proof -
  let ?n = "length (hello_body h)"
  have "?n < 256 ^ 3" using assms by (simp add: hello_body_def hello_wf_def Let_def)
  then have value_n: "be_nat (nat_be 3 ?n) = ?n" by (rule be_nat_nat_be)
  obtain b1 b2 b3 where bs: "nat_be 3 ?n = [b1, b2, b3]"
    by (simp add: numeral_3_eq_3)
  have "hello_message h = [1, b1, b2, b3] @ hello_body h"
    by (simp add: hello_message_def bs)
  moreover have "unat b1 * 65536 + unat b2 * 256 + unat b3 = ?n"
    using value_n by (simp add: bs be_nat_def)
  ultimately show ?thesis by (rule that)
qed

lemma note_handshake_prefix:
  assumes "hello_wf h" "handshake q @ tail = hello_message h"
    and "handshake_length q = None \<or> handshake_length q = Some (length (hello_body h))"
  shows "note_handshake q = Some (Inr (if 4 \<le> length (handshake q)
    then q\<lparr>handshake_length := Some (length (hello_body h))\<rparr> else q))"
proof (cases "4 \<le> length (handshake q)")
  case True
  obtain b1 b2 b3 where m: "hello_message h = [1, b1, b2, b3] @ hello_body h"
      and n: "unat b1 * 65536 + unat b2 * 256 + unat b3 = length (hello_body h)"
    using hello_message_head assms(1) .
  from True assms(2) m obtain r where r: "handshake q = [1, b1, b2, b3] @ r"
    by (cases "handshake q" rule: remdups_adj.cases)
       (auto simp: append_eq_append_conv2 Cons_eq_append_conv numeral_eq_Suc Suc_le_length_iff)
  show ?thesis
    using True assms(3)
    by (auto simp: note_handshake_def Let_def r index_at_def n split: option.splits)
qed (simp add: note_handshake_def)

lemma HelloParser_parse_done:
  assumes "hello_wf h" "hello_meaning h = (server_name, alpn)" "server_name \<noteq> []"
    and "handshake p = hello_message h" "handshake_length p = Some (length (hello_body h))"
  shows "HelloParser_parse to_lower p data = Some (p, HelloComplete (to_lower server_name) alpn)"
proof -
  have "slice (hello_message h) 4 (length (hello_body h) + 4) = Some (hello_body h)"
    by (simp add: hello_message_def slice_def)
  with assms show ?thesis
    by (subst HelloParser_parse.simps)
       (simp add: handshake_done_def hello_message_def parse_hello_body_meaning)
qed

definition fragments_wf :: "(u8 \<times> u8 \<times> bytes) list \<Rightarrow> bool"
  where "fragments_wf frags \<longleftrightarrow> list_all (\<lambda>(major, minor, fragment). length fragment < 65536) frags"

definition fragment_records :: "(u8 \<times> u8 \<times> bytes) list \<Rightarrow> bytes"
  where "fragment_records frags = concat (map (\<lambda>(major, minor, fragment). tls_record major minor fragment) frags)"

definition fragment_bytes :: "(u8 \<times> u8 \<times> bytes) list \<Rightarrow> bytes"
  where "fragment_bytes frags = concat (map (\<lambda>(major, minor, fragment). fragment) frags)"

lemma HelloParser_parse_records:
  assumes h: "hello_wf h" "hello_meaning h = (server_name, alpn)" "server_name \<noteq> []"
    and "fragments_wf frags" "handshake p @ fragment_bytes frags = hello_message h"
    and "drop (record_offset p) data = fragment_records frags @ rest" "record_offset p \<le> length data"
    and "handshake_length p =
      (if 4 \<le> length (handshake p) then Some (length (hello_body h)) else None)"
  shows "\<exists>p'. HelloParser_parse to_lower p data = Some (p', HelloComplete (to_lower server_name) alpn)"
  using assms(4-)
proof (induction frags arbitrary: p)
  case Nil
  then have "handshake p = hello_message h" by (simp add: fragment_bytes_def)
  moreover from this Nil(5) have "handshake_length p = Some (length (hello_body h))"
    by (simp add: hello_message_def)
  ultimately show ?case using HelloParser_parse_done [OF h] by blast
next
  case (Cons frag frags)
  obtain major minor f where frag: "frag = (major, minor, f)" by (cases frag)
  show ?case
  proof (cases "handshake_done p")
    case (Some len)
    then have "length (hello_message h) \<le> length (handshake p)" "handshake_length p = Some (length (hello_body h))"
      using Cons.prems(5) by (auto simp: handshake_done_def hello_message_def split: option.splits if_splits)
    with Cons.prems(2) show ?thesis
      using HelloParser_parse_done [OF h, of p] by (metis append_eq_conv_conj take_all)
  next
    case None
    let ?off = "record_offset p"
    define q where "q = p\<lparr>handshake := handshake p @ f, record_offset := ?off + 5 + length f\<rparr>"
    define q' where "q' = (if 4 \<le> length (handshake q)
      then q\<lparr>handshake_length := Some (length (hello_body h))\<rparr> else q)"
    have d: "drop ?off data = [0x16, major, minor] @ be2 (length f) @ f @ fragment_records frags @ rest"
      using Cons.prems(3) by (simp add: frag fragment_records_def tls_record_def)
    have d3: "drop (?off + 3) data = be2 (length f) @ f @ fragment_records frags @ rest"
      using drop_tail [OF d, of "?off + 3"] by simp
    have d5: "drop (?off + 5) data = f @ fragment_records frags @ rest"
      using drop_tail [OF d3, of "?off + 5"] by simp
    have len: "?off + 5 + length f \<le> length data"
      using drop_eq_length [of ?off data "[0x16, major, minor] @ be2 (length f) @ f"] d by simp
    have f: "length f < 65536" "fragments_wf frags"
      using Cons.prems(1) by (simp_all add: frag fragments_wf_def)
    have reads: "index_at data ?off = Some 0x16" "u16_at data (?off + 3) = Some (length f)"
      "slice data (?off + 5) (?off + 5 + length f) = Some f"
      using index_at_drop [of ?off data] d u16_at_drop [OF d3 f(1)] slice_drop [OF d5] len by simp_all
    have noted: "note_handshake q = Some (Inr q')"
      unfolding q'_def using Cons.prems(2,5)
      by (intro note_handshake_prefix [OF h(1), of _ "fragment_bytes frags"])
         (auto simp: q_def frag fragment_bytes_def)
    have "\<not> length data - ?off < 5" "\<not> length data - ?off - 5 < length f"
      using len by linarith+
    then have "HelloParser_parse to_lower p data = HelloParser_parse to_lower q' data"
      using None reads noted
      by (subst HelloParser_parse.simps) (simp add: Let_def q_def del: index_at_Some slice_Some)
    moreover have "\<exists>p'. HelloParser_parse to_lower q' data = Some (p', HelloComplete (to_lower server_name) alpn)"
      using Cons.prems(2,5) d5 len f(2) drop_tail [OF d5, of "?off + 5 + length f"]
      by (intro Cons.IH) (auto simp: q'_def q_def frag fragment_bytes_def)
    ultimately show ?thesis by simp
  qed
qed

section \<open>Properties of the hello parser\<close>

text \<open>No bytes make the parser index out of range: it answers on every input in every
  state.\<close>

theorem hello_parser_never_panics: "\<exists>answer. HelloParser_parse to_lower p data = Some answer"
  using HelloParser_parse_no_panic by blast

text \<open>C33. Parsing a connection piece by piece, as the bytes arrive, gives the state and the answer
  of parsing everything received at once: the incremental parser is the one-shot one.\<close>

theorem hello_incremental_is_one_shot:
  "Some (feed (hello_run to_lower) HelloIncomplete HelloParser_default [] chunks) =
     HelloParser_parse to_lower HelloParser_default (concat chunks) \<and>
   Some (snd (feed (hello_run to_lower) HelloIncomplete HelloParser_default [] chunks)) =
     parse_client_hello to_lower (concat chunks)"
  using hello_parser.feed_eq_run [of to_lower HelloParser_default "[]" chunks]
  by (simp add: hello_run_Some parse_client_hello_def)

text \<open>C32. A well-formed ClientHello is read as its contents: however its bytes are cut into
  TLS records and the records into reads, the server name found is the one the extensions carry,
  lowercased, with the first ALPN protocol, and bytes that follow the hello do not matter.\<close>

theorem hello_read_as_its_contents:
  assumes "hello_wf h" "hello_meaning h = (server_name, alpn)" "server_name \<noteq> []"
    and "fragments_wf frags" "fragment_bytes frags = hello_message h"
    and "concat chunks = fragment_records frags @ rest"
  shows "snd (feed (hello_run to_lower) HelloIncomplete HelloParser_default [] chunks) =
    HelloComplete (to_lower server_name) alpn"
proof -
  have "\<exists>p'. HelloParser_parse to_lower HelloParser_default (fragment_records frags @ rest) =
      Some (p', HelloComplete (to_lower server_name) alpn)"
    using assms(1-5)
    by (intro HelloParser_parse_records [where frags = frags and rest = rest])
       (auto simp: HelloParser_default_def)
  then show ?thesis
    using hello_parser.feed_eq_run [of to_lower HelloParser_default "[]" chunks] assms(6)
    by (auto simp: hello_run_def)
qed

definition example_hello :: client_hello
  where "example_hello = \<lparr>hello_random = replicate 32 7, hello_session = [1, 2],
    hello_ciphers = [0x13, 1], hello_compression = [0],
    hello_extensions = [OtherExt 43 [2, 3, 4], ServerName (as_bytes ''API.abc.example''),
      Alpn (as_bytes ''h2'') [as_bytes ''http/1.1'']]\<rparr>"

definition example_fragments :: "(u8 \<times> u8 \<times> bytes) list"
  where "example_fragments = [(3, 1, take 20 (hello_message example_hello)), (3, 3, []),
    (3, 3, drop 20 (hello_message example_hello))]"

theorem hello_read_as_its_contents_witness:
  "snd (feed (hello_run to_ascii_lowercase) HelloIncomplete HelloParser_default []
     [take 30 (fragment_records example_fragments), drop 30 (fragment_records example_fragments)]) =
   HelloComplete ''api.abc.example'' ''h2''"
proof -
  have "to_ascii_lowercase ''API.abc.example'' = ''api.abc.example''" by code_simp
  moreover have "fragment_bytes example_fragments = hello_message example_hello"
    by (simp only: fragment_bytes_def example_fragments_def list.map prod.case concat.simps
        append_Nil append_Nil2 append_take_drop_id)
  moreover have "hello_wf example_hello"
    "hello_meaning example_hello = (''API.abc.example'', ''h2'')" "fragments_wf example_fragments"
    by (simp_all add: hello_wf_def hello_meaning_def example_hello_def extension_bytes_def
        from_utf8_lossy_ascii fragments_wf_def example_fragments_def
        hello_message_def hello_body_def del: as_bytes_simps(2))
  ultimately show ?thesis
    using hello_read_as_its_contents [of example_hello "''API.abc.example''" "''h2''" example_fragments
        "[take 30 (fragment_records example_fragments), drop 30 (fragment_records example_fragments)]" "[]"]
    by simp
qed

end
