(* ===== verification/Addresses.thy ===== *)
theory Addresses
  imports Prelude
begin

text \<open>
  IP addresses as \<^verbatim>\<open>std::net\<close> has them, for the components that read or write
  them: \<^verbatim>\<open>IpAddr\<close> and \<^verbatim>\<open>SocketAddr\<close>, octets and segments, the
  parser and the printer of addresses, and IPv4-mapped IPv6 addresses.  The parser
  is the recursive descent of the standard library, so that leading zeros, too many
  digits, embedded IPv4 parts and the shortened form are decided as it decides them.
\<close>

datatype IpAddr = IpV4 u32 | IpV6 u128

record SocketAddr =
  sock_ip :: IpAddr
  sock_port :: u16

definition v4_octets :: "u32 \<Rightarrow> bytes"
  where "v4_octets a = nat_be 4 (unat a)"

definition v6_octets :: "u128 \<Rightarrow> bytes"
  where "v6_octets a = nat_be 16 (unat a)"

definition v4_of_octets :: "bytes \<Rightarrow> u32"
  where "v4_of_octets bs = word_of_nat (be_nat bs)"

definition v6_of_octets :: "bytes \<Rightarrow> u128"
  where "v6_of_octets bs = word_of_nat (be_nat bs)"

fun pair_bytes :: "bytes \<Rightarrow> nat list" where
  "pair_bytes (a # b # rest) = (unat a * 256 + unat b) # pair_bytes rest"
| "pair_bytes _ = []"

definition v6_segments :: "u128 \<Rightarrow> nat list"
  where "v6_segments a = pair_bytes (v6_octets a)"

definition v6_of_segments :: "nat list \<Rightarrow> u128"
  where "v6_of_segments segs = v6_of_octets (concat (map (nat_be 2) segs))"

text \<open>\<^verbatim>\<open>Ipv6Addr::to_ipv4_mapped\<close>: \<open>::ffff:a.b.c.d\<close>.\<close>

definition to_ipv4_mapped :: "u128 \<Rightarrow> u32 option"
  where "to_ipv4_mapped a =
    (if take 12 (v6_octets a) = replicate 10 0 @ [0xff, 0xff]
     then Some (v4_of_octets (drop 12 (v6_octets a))) else None)"

section \<open>Reading addresses\<close>

definition hex_digit_value :: "char \<Rightarrow> nat option"
  where "hex_digit_value c =
    (if is_ascii_digit c then Some (code_of c - 48)
     else if 97 \<le> code_of c \<and> code_of c \<le> 102 then Some (code_of c - 87)
     else if 65 \<le> code_of c \<and> code_of c \<le> 70 then Some (code_of c - 55)
     else None)"

definition to_digit :: "nat \<Rightarrow> char \<Rightarrow> nat option"
  where "to_digit radix c = option_filter (\<lambda>d. d < radix) (hex_digit_value c)"

definition digits_value :: "nat \<Rightarrow> string \<Rightarrow> nat"
  where "digits_value radix ds = foldl (\<lambda>acc c. acc * radix + the (to_digit radix c)) 0 ds"

definition read_number :: "nat \<Rightarrow> nat \<Rightarrow> nat \<Rightarrow> bool \<Rightarrow> string \<Rightarrow> (nat \<times> string) option"
  where "read_number radix max_digits limit allow_zero_prefix s =
    (let ds = takeWhile (\<lambda>c. to_digit radix c \<noteq> None) s;
         rest = dropWhile (\<lambda>c. to_digit radix c \<noteq> None) s
     in if ds = [] \<or> max_digits < length ds \<or>
           (\<not> allow_zero_prefix \<and> hd ds = CHR ''0'' \<and> 1 < length ds) \<or>
           limit < digits_value radix ds
        then None else Some (digits_value radix ds, rest))"

definition read_given_char :: "char \<Rightarrow> string \<Rightarrow> string option"
  where "read_given_char c s = strip_prefix s [c]"

definition read_separator :: "char \<Rightarrow> nat \<Rightarrow> (string \<Rightarrow> ('a \<times> string) option) \<Rightarrow> string \<Rightarrow> ('a \<times> string) option"
  where "read_separator sep i inner s =
    (if 0 < i then Option.bind (read_given_char sep s) inner else inner s)"

definition read_octet :: "string \<Rightarrow> (nat \<times> string) option"
  where "read_octet = read_number 10 3 255 False"

definition read_ipv4_addr :: "string \<Rightarrow> (u32 \<times> string) option"
  where "read_ipv4_addr s = do {
    (a, s) \<leftarrow> read_separator CHR ''.'' 0 read_octet s;
    (b, s) \<leftarrow> read_separator CHR ''.'' 1 read_octet s;
    (c, s) \<leftarrow> read_separator CHR ''.'' 2 read_octet s;
    (d, s) \<leftarrow> read_separator CHR ''.'' 3 read_octet s;
    Some (v4_of_octets (map word_of_nat [a, b, c, d]), s) }"

text \<open>\<^verbatim>\<open>read_groups\<close>: up to \<open>limit\<close> groups, \<open>i\<close> of them read; the last two may be
  an IPv4 address.  The result is the groups, whether they end in an IPv4 part, and the rest.\<close>

function read_groups :: "nat \<Rightarrow> nat \<Rightarrow> string \<Rightarrow> nat list \<times> bool \<times> string" where
  "read_groups limit i s =
     (if limit \<le> i then ([], False, s)
      else case (if i < limit - 1 then read_separator CHR '':'' i read_ipv4_addr s else None) of
        Some (v4, s') \<Rightarrow> (pair_bytes (v4_octets v4), True, s')
      | None \<Rightarrow>
          (case read_separator CHR '':'' i (read_number 16 4 65535 True) s of
             None \<Rightarrow> ([], False, s)
           | Some (seg, s') \<Rightarrow>
               (case read_groups limit (Suc i) s' of (segs, ipv4, s'') \<Rightarrow> (seg # segs, ipv4, s''))))"
  by pat_completeness auto

termination read_groups
  by (relation "measure (\<lambda>(limit, i, s). limit - i)") auto

definition read_ipv6_addr :: "string \<Rightarrow> (u128 \<times> string) option"
  where "read_ipv6_addr s =
    (case read_groups 8 0 s of (head_groups, head_ipv4, s) \<Rightarrow>
     if length head_groups = 8 then Some (v6_of_segments head_groups, s)
     else if head_ipv4 then None
     else do {
       s \<leftarrow> read_given_char CHR '':'' s;
       s \<leftarrow> read_given_char CHR '':'' s;
       case read_groups (8 - (length head_groups + 1)) 0 s of (tail_groups, _, s) \<Rightarrow>
         Some (v6_of_segments (head_groups @
           replicate (8 - length head_groups - length tail_groups) 0 @ tail_groups), s) })"

definition finished :: "('a \<times> string) option \<Rightarrow> 'a option"
  where "finished r = (case r of Some (a, []) \<Rightarrow> Some a | _ \<Rightarrow> None)"

definition parse_ipv4 :: "string \<Rightarrow> u32 option"
  where "parse_ipv4 s = (if 15 < length s then None else finished (read_ipv4_addr s))"

definition parse_ipv6 :: "string \<Rightarrow> u128 option"
  where "parse_ipv6 s = finished (read_ipv6_addr s)"

definition parse_ip :: "string \<Rightarrow> IpAddr option"
  where "parse_ip s = finished (case read_ipv4_addr s of
      Some (a, s) \<Rightarrow> Some (IpV4 a, s)
    | None \<Rightarrow> (case read_ipv6_addr s of Some (a, s) \<Rightarrow> Some (IpV6 a, s) | None \<Rightarrow> None))"

section \<open>Printing addresses\<close>

definition hex_char :: "nat \<Rightarrow> char"
  where "hex_char d = char_of (if d < 10 then 48 + d else 87 + d)"

fun show_hex :: "nat \<Rightarrow> string" where
  "show_hex n = (if n < 16 then [hex_char n] else show_hex (n div 16) @ [hex_char (n mod 16)])"

declare show_hex.simps [simp del]

fun join :: "string \<Rightarrow> string list \<Rightarrow> string" where
  "join sep [] = []"
| "join sep [x] = x"
| "join sep (x # y # rest) = x @ sep @ join sep (y # rest)"

definition show_ipv4 :: "u32 \<Rightarrow> string"
  where "show_ipv4 a = join ''.'' (map (\<lambda>b. show_nat (unat b)) (v4_octets a))"

text \<open>The first longest run of zero segments, as a start and a length.\<close>

fun zero_run :: "nat \<Rightarrow> nat list \<Rightarrow> nat \<times> nat \<Rightarrow> nat \<times> nat \<Rightarrow> nat \<times> nat" where
  "zero_run i [] current longest = longest"
| "zero_run i (seg # segs) current longest =
     (if seg = 0 then
        (let current = (if snd current = 0 then (i, 1) else (fst current, snd current + 1))
         in zero_run (Suc i) segs current (if snd longest < snd current then current else longest))
      else zero_run (Suc i) segs (0, 0) longest)"

definition show_ipv6 :: "u128 \<Rightarrow> string"
  where "show_ipv6 a =
    (case to_ipv4_mapped a of
       Some v4 \<Rightarrow> ''::ffff:'' @ show_ipv4 v4
     | None \<Rightarrow>
         (let segs = v6_segments a; (start, len) = zero_run 0 segs (0, 0) (0, 0)
          in if 1 < len
             then join '':'' (map show_hex (take start segs)) @ ''::'' @
                  join '':'' (map show_hex (drop (start + len) segs))
             else join '':'' (map show_hex segs)))"

definition show_ip :: "IpAddr \<Rightarrow> string"
  where "show_ip ip = (case ip of IpV4 a \<Rightarrow> show_ipv4 a | IpV6 a \<Rightarrow> show_ipv6 a)"

definition show_socket_addr :: "SocketAddr \<Rightarrow> string"
  where "show_socket_addr addr =
    (case sock_ip addr of
       IpV4 a \<Rightarrow> show_ipv4 a @ '':'' @ show_nat (unat (sock_port addr))
     | IpV6 a \<Rightarrow> ''['' @ show_ipv6 a @ '']:'' @ show_nat (unat (sock_port addr)))"

section \<open>Octets\<close>

lemma length_v4_octets [simp]: "length (v4_octets a) = 4"
  by (simp add: v4_octets_def)

lemma length_v6_octets [simp]: "length (v6_octets a) = 16"
  by (simp add: v6_octets_def)

lemma v4_of_v4_octets [wire_simps]: "v4_of_octets (v4_octets a) = a"
proof -
  have "unat a < 256 ^ 4" using unsigned_less [of a, where ?'a = nat] by simp
  then show ?thesis by (simp add: v4_of_octets_def v4_octets_def be_nat_nat_be)
qed

lemma v6_of_v6_octets [wire_simps]: "v6_of_octets (v6_octets a) = a"
proof -
  have "unat a < 256 ^ 16" using unsigned_less [of a, where ?'a = nat] by simp
  then show ?thesis by (simp add: v6_of_octets_def v6_octets_def be_nat_nat_be)
qed

lemma v4_octets_of [wire_simps]: "length bs = 4 \<Longrightarrow> v4_octets (v4_of_octets bs) = bs"
  using be_nat_less [of bs] nat_be_be_nat [of bs]
  by (simp add: v4_of_octets_def v4_octets_def unat_of_nat take_bit_nat_eq_self)

lemma v6_octets_of [wire_simps]: "length bs = 16 \<Longrightarrow> v6_octets (v6_of_octets bs) = bs"
  using be_nat_less [of bs] nat_be_be_nat [of bs]
  by (simp add: v6_of_octets_def v6_octets_def unat_of_nat take_bit_nat_eq_self)

lemma to_ipv4_mapped_iff:
  "to_ipv4_mapped a = Some b \<longleftrightarrow> v6_octets a = replicate 10 0 @ [0xff, 0xff] @ v4_octets b"
proof -
  have split: "v6_octets a = take 12 (v6_octets a) @ drop 12 (v6_octets a)" by simp
  show ?thesis
  proof
    assume "to_ipv4_mapped a = Some b"
    then have "take 12 (v6_octets a) = replicate 10 0 @ [0xff, 0xff]" "b = v4_of_octets (drop 12 (v6_octets a))"
      by (auto simp: to_ipv4_mapped_def split: if_splits)
    moreover from this have "v4_octets b = drop 12 (v6_octets a)" by (simp add: v4_octets_of)
    ultimately show "v6_octets a = replicate 10 0 @ [0xff, 0xff] @ v4_octets b"
      using split by (metis append.assoc)
  next
    assume "v6_octets a = replicate 10 0 @ [0xff, 0xff] @ v4_octets b"
    then show "to_ipv4_mapped a = Some b"
      by (simp add: to_ipv4_mapped_def numeral_eq_Suc v4_of_v4_octets)
  qed
qed

lemma v4_octets_cases:
  obtains b0 b1 b2 b3 where "v4_octets a = [b0, b1, b2, b3]"
  by (rule length_4_cases [OF length_v4_octets])

section \<open>Reading back what is printed\<close>

lemma to_digit_10: "to_digit 10 c = digit_value c"
  by (auto simp: to_digit_def hex_digit_value_def option_filter_def digit_value_def is_ascii_digit_def)

lemma foldl_digits:
  "parse_digits limit acc ds = Some n \<Longrightarrow> foldl (\<lambda>acc c. acc * 10 + the (to_digit 10 c)) acc ds = n"
  by (induction limit acc ds rule: parse_digits.induct)
     (auto simp: to_digit_10 split: option.splits if_splits)

lemma digits_value_show_nat: "digits_value 10 (show_nat n) = n"
  using foldl_digits [OF parse_digits_show_nat [of n n]] by (simp add: digits_value_def)

lemma show_nat_head: "show_nat n = CHR ''0'' # ds \<Longrightarrow> ds = []"
proof (induction n arbitrary: ds rule: show_nat.induct)
  case (1 n)
  show ?case
  proof (cases "n < 10")
    case True
    with 1(2) show ?thesis by (simp add: show_nat.simps [of n])
  next
    case False
    then have s: "show_nat n = show_nat (n div 10) @ [digit_char (n mod 10)]"
      by (simp add: show_nat.simps [of n])
    obtain c cs where c: "show_nat (n div 10) = c # cs"
      by (cases "show_nat (n div 10)") auto
    with s 1 False have "cs = []" by simp
    with c s 1(2) have "show_nat (n div 10) = [CHR ''0'']" by simp
    then have "n div 10 = 0" using digits_value_show_nat [of "n div 10"]
      by (simp add: digits_value_def to_digit_10 digit_value_def is_ascii_digit_def)
    with False show ?thesis by simp
  qed
qed

lemma length_show_nat_255: "n \<le> 255 \<Longrightarrow> length (show_nat n) \<le> 3"
  by (subst show_nat.simps, subst show_nat.simps, subst show_nat.simps) auto

lemma read_octet_show:
  assumes "n \<le> 255" "rest = [] \<or> \<not> is_ascii_digit (hd rest)"
  shows "read_octet (show_nat n @ rest) = Some (n, rest)"
proof -
  have digit: "(\<lambda>c. to_digit 10 c \<noteq> None) = is_ascii_digit"
    by (auto simp: to_digit_10 digit_value_def)
  have "takeWhile is_ascii_digit (show_nat n @ rest) = show_nat n"
    "dropWhile is_ascii_digit (show_nat n @ rest) = rest"
    using span_append [of "show_nat n" is_ascii_digit rest] show_nat_digits assms(2) by auto
  moreover have "\<not> (hd (show_nat n) = CHR ''0'' \<and> 1 < length (show_nat n))"
    using show_nat_head [of n] by (cases "show_nat n") auto
  ultimately show ?thesis
    using assms(1) length_show_nat_255 [of n] unfolding read_octet_def read_number_def digit
    by (simp add: digits_value_show_nat Let_def not_less)
qed

lemma read_ipv4_show:
  assumes "rest = [] \<or> \<not> is_ascii_digit (hd rest)"
  shows "read_ipv4_addr (show_ipv4 a @ rest) = Some (a, rest)"
proof -
  obtain b0 b1 b2 b3 where o: "v4_octets a = [b0, b1, b2, b3]"
    by (rule v4_octets_cases)
  have "v4_of_octets [b0, b1, b2, b3] = a" using v4_of_v4_octets [of a] by (simp add: o)
  moreover have dot: "\<not> is_ascii_digit CHR ''.''" by (simp add: is_ascii_digit_def)
  ultimately show ?thesis
    using assms
    by (simp add: show_ipv4_def o read_ipv4_addr_def read_separator_def read_given_char_def
        read_octet_show strip_prefix_def)
qed

lemma length_show_ipv4: "length (show_ipv4 a) \<le> 15"
proof -
  obtain b0 b1 b2 b3 where o: "v4_octets a = [b0, b1, b2, b3]"
    by (rule v4_octets_cases)
  have "length (show_nat (unat b)) \<le> 3" for b :: u8
    by (intro length_show_nat_255) simp
  from this [of b0] this [of b1] this [of b2] this [of b3] show ?thesis
    by (simp add: show_ipv4_def o)
qed

lemma parse_ipv4_show [text_simps]: "parse_ipv4 (show_ipv4 a) = Some a"
  using read_ipv4_show [of "[]" a] length_show_ipv4 [of a]
  by (simp add: parse_ipv4_def finished_def)

lemma parse_ip_show_ipv4 [text_simps]: "parse_ip (show_ipv4 a) = Some (IpV4 a)"
  using read_ipv4_show [of "[]" a] by (simp add: parse_ip_def finished_def)

section \<open>Reading back IPv6 addresses\<close>

lemma hex_char_value: "d < 16 \<Longrightarrow> to_digit 16 (hex_char d) = Some d"
  by (auto simp: to_digit_def hex_digit_value_def hex_char_def option_filter_def is_ascii_digit_def)

lemma show_hex_digits: "c \<in> set (show_hex n) \<Longrightarrow> to_digit 16 c \<noteq> None"
proof (induction n rule: show_hex.induct)
  case (1 n)
  then show ?case
    by (cases "n < 16") (auto simp: show_hex.simps [of n] hex_char_value)
qed

lemma show_hex_nonempty [simp]: "show_hex n \<noteq> []"
  by (subst show_hex.simps) simp

lemma digits_value_show_hex: "digits_value 16 (show_hex n) = n"
proof (induction n rule: show_hex.induct)
  case (1 n)
  then show ?case
    by (cases "n < 16") (auto simp: show_hex.simps [of n] digits_value_def hex_char_value)
qed

lemma length_show_hex_div: "length (show_hex n) = (if n < 16 then 1 else Suc (length (show_hex (n div 16))))"
  by (simp add: show_hex.simps [of n])

lemma length_show_hex: "n < 65536 \<Longrightarrow> length (show_hex n) \<le> 4"
  using length_show_hex_div [of n] length_show_hex_div [of "n div 16"]
    length_show_hex_div [of "n div 256"] length_show_hex_div [of "n div 4096"]
  by (simp add: div_mult2_eq [symmetric] split: if_splits)

lemma not_hex_colon: "to_digit 16 CHR '':'' = None"
  by (simp add: to_digit_def hex_digit_value_def option_filter_def is_ascii_digit_def)

definition no_hex_start :: "string \<Rightarrow> bool"
  where "no_hex_start rest \<longleftrightarrow> rest = [] \<or> hd rest = CHR '':''"

lemma no_hex_start_simps [simp]:
  "no_hex_start []" "no_hex_start (CHR '':'' # s)"
  by (simp_all add: no_hex_start_def)

lemma read_hex_show:
  assumes "n < 65536" "no_hex_start rest"
  shows "read_number 16 4 65535 True (show_hex n @ rest) = Some (n, rest)"
proof -
  let ?hex = "\<lambda>c. to_digit 16 c \<noteq> None"
  have "rest = [] \<or> \<not> ?hex (hd rest)"
    using assms(2) by (auto simp: no_hex_start_def not_hex_colon)
  then have "takeWhile ?hex (show_hex n @ rest) = show_hex n" "dropWhile ?hex (show_hex n @ rest) = rest"
    using span_append [of "show_hex n" ?hex rest] show_hex_digits by blast+
  then show ?thesis
    using assms(1) length_show_hex [of n]
    unfolding read_number_def by (simp add: digits_value_show_hex Let_def not_less)
qed

lemma read_hex_none: "no_hex_start s \<Longrightarrow> read_number 16 4 65535 True s = None"
  by (cases s) (auto simp: no_hex_start_def read_number_def Let_def not_hex_colon)

lemma not_dot_after_digits:
  assumes "\<And>c. c \<in> set ds \<Longrightarrow> to_digit 16 c \<noteq> None" "no_hex_start rest" "\<not> P CHR '':''"
  shows "read_given_char CHR ''.'' (dropWhile P (ds @ rest)) = None"
proof -
  have dot: "to_digit 16 CHR ''.'' = None"
    by (simp add: to_digit_def hex_digit_value_def option_filter_def is_ascii_digit_def)
  have "dropWhile P (ds @ rest) \<noteq> CHR ''.'' # t" for t
  proof
    assume eq: "dropWhile P (ds @ rest) = CHR ''.'' # t"
    show False
    proof (cases "\<exists>c\<in>set ds. \<not> P c")
      case True
      then have "dropWhile P (ds @ rest) = dropWhile P ds @ rest" "dropWhile P ds \<noteq> []"
        by (auto simp: dropWhile_append dropWhile_eq_Nil_conv)
      with eq have "CHR ''.'' \<in> set (dropWhile P ds)" by (cases "dropWhile P ds") auto
      with assms(1) dot show False by (meson set_dropWhileD)
    next
      case False
      then have "dropWhile P (ds @ rest) = dropWhile P rest" by (simp add: dropWhile_append)
      with eq assms(2,3) show False by (cases rest) (auto simp: no_hex_start_def)
    qed
  qed
  then show ?thesis by (simp add: read_given_char_def strip_prefix_eq_None)
qed

lemma read_ipv4_none:
  assumes "\<And>c. c \<in> set ds \<Longrightarrow> to_digit 16 c \<noteq> None" "no_hex_start rest"
  shows "read_ipv4_addr (ds @ rest) = None"
proof -
  let ?dec = "\<lambda>c. to_digit 10 c \<noteq> None"
  have colon: "\<not> ?dec CHR '':''" by (simp add: to_digit_10 digit_value_def is_ascii_digit_def)
  have "read_octet (ds @ rest) = None \<or>
      (\<exists>n. read_octet (ds @ rest) = Some (n, dropWhile ?dec (ds @ rest)))"
    by (simp add: read_octet_def read_number_def Let_def)
  then show ?thesis
    using not_dot_after_digits [OF assms, where P = ?dec] colon
    by (auto simp: read_ipv4_addr_def read_separator_def)
qed

text \<open>Groups as \<open>read_groups\<close> meets them: the first without a colon when none came before.\<close>

fun group_text :: "nat \<Rightarrow> nat list \<Rightarrow> string" where
  "group_text i [] = []"
| "group_text i (seg # segs) = (if 0 < i then '':'' else []) @ show_hex seg @ group_text (Suc i) segs"

lemma group_text_Suc: "group_text (Suc i) segs = concat (map (\<lambda>seg. '':'' @ show_hex seg) segs)"
  by (induction segs arbitrary: i) auto

lemma join_group_text: "join '':'' (map show_hex segs) = group_text 0 segs"
proof -
  have "join '':'' (map show_hex (seg # segs)) = show_hex seg @ group_text 1 segs" for seg segs
    by (induction segs arbitrary: seg) (auto simp: group_text_Suc)
  then show ?thesis by (cases segs) auto
qed

lemma group_text_start:
  "no_hex_start rest \<Longrightarrow> no_hex_start (group_text (Suc i) segs @ rest)"
  by (cases segs) auto

definition groups_stop :: "string \<Rightarrow> bool"
  where "groups_stop rest \<longleftrightarrow> rest = [] \<or> (\<exists>s. rest = '':'' @ '':'' @ s)"

lemma groups_stop_start: "groups_stop rest \<Longrightarrow> no_hex_start rest"
  by (auto simp: groups_stop_def)

lemma read_group_stop:
  assumes "groups_stop rest"
  shows "read_separator CHR '':'' i read_ipv4_addr rest = None"
    and "read_separator CHR '':'' i (read_number 16 4 65535 True) rest = None"
  using assms read_ipv4_none [of "[]"] read_hex_none
  by (auto simp: groups_stop_def read_separator_def read_given_char_def strip_prefix_def)

lemma read_groups_text:
  assumes "i + length segs \<le> limit" "list_all (\<lambda>seg. seg < 65536) segs"
    and "groups_stop rest"
  shows "read_groups limit i (group_text i segs @ rest) = (segs, False, rest)"
  using assms
proof (induction segs arbitrary: i)
  case Nil
  then show ?case by (simp add: read_groups.simps [of limit i] read_group_stop)
next
  case (Cons seg segs)
  let ?tail = "group_text (Suc i) segs @ rest"
  have start: "no_hex_start ?tail"
    using Cons.prems(3) by (intro group_text_start groups_stop_start)
  have strip: "read_separator CHR '':'' i f (group_text i (seg # segs) @ rest) = f (show_hex seg @ ?tail)"
    for f :: "string \<Rightarrow> ('a \<times> string) option"
    by (simp add: read_separator_def read_given_char_def strip_prefix_def)
  have "read_ipv4_addr (show_hex seg @ ?tail) = None"
    using start by (intro read_ipv4_none show_hex_digits)
  moreover have "read_number 16 4 65535 True (show_hex seg @ ?tail) = Some (seg, ?tail)"
    using Cons.prems(2) start by (intro read_hex_show) auto
  moreover have "read_groups limit (Suc i) ?tail = (segs, False, rest)"
    using Cons by (intro Cons.IH) auto
  ultimately show ?case
    using Cons.prems(1) by (subst read_groups.simps, unfold strip) simp
qed

lemma zero_run_spec:
  assumes "i + length segs = length all" "drop i all = segs"
    and "fst current + snd current = i \<or> snd current = 0"
    and "snd current > 0 \<longrightarrow> (\<forall>k. fst current \<le> k \<and> k < i \<longrightarrow> all ! k = 0)"
    and "snd longest > 0 \<longrightarrow> fst longest + snd longest \<le> i \<and>
      (\<forall>k. fst longest \<le> k \<and> k < fst longest + snd longest \<longrightarrow> all ! k = 0)"
    and "zero_run i segs current longest = (start, len)" "0 < len"
  shows "start + len \<le> length all \<and> (\<forall>k. start \<le> k \<and> k < start + len \<longrightarrow> all ! k = 0)"
  using assms
proof (induction segs arbitrary: i current longest)
  case Nil
  then show ?case by auto
next
  case (Cons seg segs)
  from Cons.prems(2) have seg: "all ! i = seg" "drop (Suc i) all = segs"
    by (metis nth_via_drop, metis drop_Suc list.sel(3) tl_drop)
  let ?current = "if snd current = 0 then (i, 1) else (fst current, snd current + 1)"
  show ?case
  proof (cases "seg = 0")
    case True
    have run: "zero_run (Suc i) segs ?current (if snd longest < snd ?current then ?current else longest)
        = (start, len)"
      using Cons.prems(6) True by (simp add: Let_def)
    show ?thesis
      using Cons.prems(1,3,4,5,7) seg True
      by (intro Cons.IH [OF _ seg(2) _ _ _ run]) (auto simp: less_Suc_eq)
  next
    case False
    then have run: "zero_run (Suc i) segs (0, 0) longest = (start, len)"
      using Cons.prems(6) by simp
    show ?thesis
      using Cons.prems(1,5,7) by (intro Cons.IH [OF _ seg(2) _ _ _ run]) auto
  qed
qed

lemma zero_run_split:
  assumes "zero_run 0 segs (0, 0) (0, 0) = (start, len)" "0 < len"
  shows "start + len \<le> length segs" "segs = take start segs @ replicate len 0 @ drop (start + len) segs"
proof -
  have run: "start + len \<le> length segs \<and> (\<forall>k. start \<le> k \<and> k < start + len \<longrightarrow> segs ! k = 0)"
    by (rule zero_run_spec [OF _ _ _ _ _ assms]) auto
  then show "start + len \<le> length segs" by simp
  have "take len (drop start segs) = replicate len 0"
    using run by (intro nth_equalityI) auto
  then show "segs = take start segs @ replicate len 0 @ drop (start + len) segs"
    by (metis append_take_drop_id drop_drop add.commute)
qed

lemma pair_bytes_segments:
  "even (length bs) \<Longrightarrow> concat (map (nat_be 2) (pair_bytes bs)) = bs \<and>
     list_all (\<lambda>seg. seg < 65536) (pair_bytes bs) \<and> length (pair_bytes bs) * 2 = length bs"
proof (induction bs rule: pair_bytes.induct)
  case (1 a b rest)
  have "nat_be 2 (unat a * 256 + unat b) = [a, b]"
    using nat_be_be_nat [of "[a, b]"] by (simp add: be_nat_def numeral_2_eq_2)
  moreover have "unat a * 256 + unat b < 65536"
    using be_nat_less [of "[a, b]"] by (simp add: be_nat_def)
  ultimately show ?case using 1 by simp
qed auto

lemma v6_segments_props:
  "v6_of_segments (v6_segments a) = a" "list_all (\<lambda>seg. seg < 65536) (v6_segments a)"
  "length (v6_segments a) = 8"
  using pair_bytes_segments [of "v6_octets a"]
  by (simp_all add: v6_of_segments_def v6_segments_def v6_of_v6_octets)

lemma v4_pair_bytes: "concat (map (nat_be 2) (pair_bytes (v4_octets a))) = v4_octets a"
  "length (pair_bytes (v4_octets a)) = 2"
  using pair_bytes_segments [of "v4_octets a"] by simp_all

lemma read_ipv6_mapped:
  assumes "to_ipv4_mapped a = Some v4"
  shows "read_ipv6_addr (''::ffff:'' @ show_ipv4 v4) = Some (a, [])"
proof -
  have ffff: "show_hex 65535 = ''ffff''"
    by (simp add: show_hex.simps hex_char_def) code_simp
  have head: "read_groups 8 0 (''::ffff:'' @ show_ipv4 v4) = ([], False, ''::ffff:'' @ show_ipv4 v4)"
    using read_groups_text [of 0 "[]" 8 "''::ffff:'' @ show_ipv4 v4"] by (simp add: groups_stop_def)
  have tail: "read_groups 7 0 (''ffff:'' @ show_ipv4 v4) = (65535 # pair_bytes (v4_octets v4), True, [])"
  proof -
    have "read_groups 7 1 ('':'' @ show_ipv4 v4) = (pair_bytes (v4_octets v4), True, [])"
      using read_ipv4_show [of "[]" v4]
      by (simp add: read_groups.simps [of 7 1] read_separator_def read_given_char_def strip_prefix_def)
    moreover have "read_ipv4_addr (show_hex 65535 @ '':'' @ show_ipv4 v4) = None"
      by (intro read_ipv4_none show_hex_digits) auto
    moreover have "read_number 16 4 65535 True (show_hex 65535 @ '':'' @ show_ipv4 v4) =
        Some (65535, '':'' @ show_ipv4 v4)"
      by (intro read_hex_show) auto
    ultimately have "read_groups 7 0 (show_hex 65535 @ '':'' @ show_ipv4 v4) =
        (65535 # pair_bytes (v4_octets v4), True, [])"
      by (subst read_groups.simps) (simp add: read_separator_def)
    then show ?thesis by (simp add: ffff)
  qed
  have five: "replicate 5 x = [x, x, x, x, x]" for x :: nat
    by (simp add: eval_nat_numeral)
  have ten: "replicate 10 x = [x, x, x, x, x, x, x, x, x, x]" for x :: u8
    by (simp add: eval_nat_numeral)
  have "nat_be 2 0 = [0, 0]" "nat_be 2 65535 = [0xff, 0xff]" by (simp_all add: nat_be_2)
  then have "v6_of_segments (replicate 5 0 @ 65535 # pair_bytes (v4_octets v4)) =
      v6_of_octets (replicate 10 0 @ [0xff, 0xff] @ v4_octets v4)"
    using five ten by (simp add: v6_of_segments_def v4_pair_bytes)
  also have "\<dots> = a"
    using assms to_ipv4_mapped_iff [of a v4] v6_of_v6_octets [of a] by simp
  finally show ?thesis
    using head tail
    by (simp add: read_ipv6_addr_def read_given_char_def strip_prefix_def v4_pair_bytes)
qed

lemma read_ipv6_show: "read_ipv6_addr (show_ipv6 a) = Some (a, [])"
proof (cases "to_ipv4_mapped a")
  case (Some v4)
  then show ?thesis using read_ipv6_mapped [OF Some] by (simp add: show_ipv6_def)
next
  case None
  define segs where "segs = v6_segments a"
  have segs: "length segs = 8" "list_all (\<lambda>seg. seg < 65536) segs" "v6_of_segments segs = a"
    using v6_segments_props [of a] by (simp_all add: segs_def)
  obtain start len where run: "zero_run 0 segs (0, 0) (0, 0) = (start, len)" by fastforce
  show ?thesis
  proof (cases "1 < len")
    case True
    have "0 < len" using True by simp
    note split = zero_run_split [OF run this]
    let ?head = "take start segs" and ?tail = "drop (start + len) segs"
    have printed: "show_ipv6 a = group_text 0 ?head @ ''::'' @ group_text 0 ?tail"
      using None run True by (simp add: show_ipv6_def segs_def Let_def join_group_text)
    have "read_groups 8 0 (group_text 0 ?head @ ''::'' @ group_text 0 ?tail) =
        (?head, False, ''::'' @ group_text 0 ?tail)"
      using segs split(1) by (intro read_groups_text) (auto simp: groups_stop_def list_all_iff dest: in_set_takeD)
    moreover have "read_groups (8 - (start + 1)) 0 (group_text 0 ?tail @ []) = (?tail, False, [])"
      using segs split(1) True
      by (intro read_groups_text) (auto simp: groups_stop_def list_all_iff dest: in_set_dropD)
    moreover have "8 - start - length ?tail = len" "length ?head = start"
      using split(1) segs(1) by auto
    ultimately show ?thesis
      using segs split True unfolding printed
      by (simp add: read_ipv6_addr_def read_given_char_def strip_prefix_def)
  next
    case False
    then have printed: "show_ipv6 a = group_text 0 segs @ []"
      using None run by (simp add: show_ipv6_def segs_def Let_def join_group_text)
    have "read_groups 8 0 (group_text 0 segs @ []) = (segs, False, [])"
      using segs by (intro read_groups_text) (auto simp: groups_stop_def)
    then show ?thesis using segs unfolding printed by (simp add: read_ipv6_addr_def)
  qed
qed

lemma group_text_split:
  assumes "no_hex_start r"
  shows "\<exists>ds rest. group_text 0 segs @ r = ds @ rest \<and> (\<forall>c\<in>set ds. to_digit 16 c \<noteq> None) \<and> no_hex_start rest"
proof (cases segs)
  case Nil
  then have "group_text 0 segs @ r = [] @ r" by simp
  with assms show ?thesis by (metis empty_iff empty_set)
next
  case (Cons seg segs')
  then have "group_text 0 segs @ r = show_hex seg @ (group_text (Suc 0) segs' @ r)" by simp
  then show ?thesis using group_text_start [OF assms] show_hex_digits by blast
qed

lemma show_ipv6_forms:
  assumes "to_ipv4_mapped a = None"
  shows "(\<exists>h t. show_ipv6 a = group_text 0 h @ ''::'' @ group_text 0 t) \<or>
    (\<exists>segs. show_ipv6 a = group_text 0 segs @ [])"
proof -
  obtain start len where run: "zero_run 0 (v6_segments a) (0, 0) (0, 0) = (start, len)" by fastforce
  have "show_ipv6 a = (if 1 < len
      then group_text 0 (take start (v6_segments a)) @ ''::'' @ group_text 0 (drop (start + len) (v6_segments a))
      else group_text 0 (v6_segments a) @ [])"
    using assms run by (simp add: show_ipv6_def Let_def join_group_text)
  then show ?thesis by (metis (no_types))
qed

lemma show_ipv6_split:
  "\<exists>ds rest. show_ipv6 a = ds @ rest \<and> (\<forall>c\<in>set ds. to_digit 16 c \<noteq> None) \<and> no_hex_start rest"
proof (cases "to_ipv4_mapped a")
  case (Some v4)
  then have "show_ipv6 a = group_text 0 [] @ ''::ffff:'' @ show_ipv4 v4" by (simp add: show_ipv6_def)
  then show ?thesis using group_text_split [of "''::ffff:'' @ show_ipv4 v4" "[]"] by auto
next
  case None
  obtain segs r where "show_ipv6 a = group_text 0 segs @ r" "no_hex_start r"
    using show_ipv6_forms [OF None]
  proof (elim disjE exE)
    fix h t assume "show_ipv6 a = group_text 0 h @ ''::'' @ group_text 0 t"
    then show ?thesis by (rule that) simp
  next
    fix segs assume "show_ipv6 a = group_text 0 segs @ []"
    then show ?thesis by (rule that) simp
  qed
  then show ?thesis using group_text_split [of r segs] by simp
qed

lemma parse_ipv6_show [text_simps]: "parse_ipv6 (show_ipv6 a) = Some a"
  by (simp add: parse_ipv6_def read_ipv6_show finished_def)

lemma read_ipv4_show_ipv6: "read_ipv4_addr (show_ipv6 a) = None"
  using show_ipv6_split [of a] read_ipv4_none by force

lemma parse_ip_show [text_simps]: "parse_ip (show_ip ip) = Some ip"
  using parse_ip_show_ipv4
  by (cases ip) (simp_all add: show_ip_def parse_ip_def read_ipv4_show_ipv6 read_ipv6_show finished_def)

lemma show_ipv4_chars: "c \<in> set (show_ipv4 a) \<Longrightarrow> is_ascii_digit c \<or> c = CHR ''.''"
proof -
  obtain b0 b1 b2 b3 where o: "v4_octets a = [b0, b1, b2, b3]"
    by (rule v4_octets_cases)
  assume "c \<in> set (show_ipv4 a)"
  then show ?thesis using show_nat_digits [of c] by (auto simp: show_ipv4_def o)
qed

lemma group_text_chars: "c \<in> set (group_text i segs) \<Longrightarrow> to_digit 16 c \<noteq> None \<or> c = CHR '':''"
  using show_hex_digits by (induction segs arbitrary: i) (auto split: if_splits)

lemma show_ipv6_chars:
  "c \<in> set (show_ipv6 a) \<Longrightarrow> to_digit 16 c \<noteq> None \<or> c = CHR '':'' \<or> c = CHR ''.''"
proof (cases "to_ipv4_mapped a")
  case (Some v4)
  assume "c \<in> set (show_ipv6 a)"
  then have "c \<in> set (show_ipv4 v4) \<or> c = CHR '':'' \<or> c = CHR ''f''" by (auto simp: show_ipv6_def Some)
  then have "is_ascii_digit c \<or> c = CHR ''.'' \<or> c = CHR '':'' \<or> c = CHR ''f''"
    using show_ipv4_chars [of c v4] by blast
  moreover have "to_digit 16 CHR ''f'' \<noteq> None" by code_simp
  moreover have "is_ascii_digit c \<Longrightarrow> to_digit 16 c \<noteq> None"
    by (auto simp: to_digit_def hex_digit_value_def option_filter_def is_ascii_digit_def)
  ultimately show ?thesis by blast
next
  case None
  assume "c \<in> set (show_ipv6 a)"
  then have "\<exists>segs. c \<in> set (group_text 0 segs) \<or> c = CHR '':''"
    using show_ipv6_forms [OF None] by auto
  then show ?thesis using group_text_chars by blast
qed

end
