(* ===== verification/Proxy.thy ===== *)
theory Proxy
  imports Names Addresses Utf8
begin

unbundle bit_operations_syntax

text \<open>
  The PROXY protocol on both sides: the header a client writes to a route's target
  (\<^verbatim>\<open>opentunnel/src/protocol/proxy.rs\<close>) and the parser of the headers in front
  of the server's connections (\<^verbatim>\<open>opentunnel-server/src/proxy_protocol.rs\<close>).  The
  lemmas show that the parser never panics, and that what one side writes the other
  reads: the visitor's address, and a length that is exactly the header's.
\<close>

section \<open>The header a route writes (protocol/proxy.rs)\<close>

definition PUBLIC_PORT :: u16 where "PUBLIC_PORT = 443"

definition V2_SIGNATURE :: bytes
  where "V2_SIGNATURE = [0x0d, 0x0a, 0x0d, 0x0a, 0x00, 0x0d, 0x0a, 0x51, 0x55, 0x49, 0x54, 0x0a]"

definition V2_PROXY :: u8 where "V2_PROXY = 0x21"
definition V2_LOCAL :: u8 where "V2_LOCAL = 0x20"
definition V2_TCP4 :: u8 where "V2_TCP4 = 0x11"
definition V2_TCP6 :: u8 where "V2_TCP6 = 0x21"
definition V2_UNSPEC :: u8 where "V2_UNSPEC = 0x00"
definition PP2_TYPE_AUTHORITY :: u8 where "PP2_TYPE_AUTHORITY = 0x02"

text \<open>\<^verbatim>\<open>split_once\<close> with a pattern of several characters.\<close>

fun split_once_str :: "string \<Rightarrow> string \<Rightarrow> (string \<times> string) option" where
  "split_once_str pat s =
     (case strip_prefix s pat of
        Some rest \<Rightarrow> Some ([], rest)
      | None \<Rightarrow> (case s of
          [] \<Rightarrow> None
        | c # s' \<Rightarrow> map_option (apfst (Cons c)) (split_once_str pat s')))"

declare split_once_str.simps [simp del]

definition parse_port :: "string \<Rightarrow> u16 option"
  where "parse_port s =
    (if s = [] \<or> 5 < length s \<or> \<not> list_all is_ascii_digit s then None
     else map_option word_of_nat (parse_unsigned 65535 s))"

definition parse_peer :: "string \<Rightarrow> SocketAddr option"
  where "parse_peer peer = do {
    (ip, port) \<leftarrow>
      (case parse_ip peer of
         Some ip \<Rightarrow> Some (ip, 0)
       | None \<Rightarrow>
           (case strip_prefix peer ''['' of
              Some rest \<Rightarrow> do {
                (host, port) \<leftarrow> split_once_str '']:'' rest;
                ip \<leftarrow> parse_ipv6 host;
                port \<leftarrow> parse_port port;
                Some (IpV6 ip, port) }
            | None \<Rightarrow> do {
                (host, port) \<leftarrow> rsplit_once CHR '':'' peer;
                ip \<leftarrow> parse_ipv4 host;
                port \<leftarrow> parse_port port;
                Some (IpV4 ip, port) }));
    let ip = (case ip of
        IpV6 v6 \<Rightarrow> (case to_ipv4_mapped v6 of Some v4 \<Rightarrow> IpV4 v4 | None \<Rightarrow> IpV6 v6)
      | ip \<Rightarrow> ip);
    Some \<lparr>sock_ip = ip, sock_port = port\<rparr> }"

definition u16_to_be :: "u16 \<Rightarrow> bytes"
  where "u16_to_be w = nat_be 2 (unat w)"

definition crlf :: string
  where "crlf = [CHR 0x0d, CHR 0x0a]"

definition proxy_v1 :: "SocketAddr option \<Rightarrow> bytes"
  where "proxy_v1 source = as_bytes
    (case source of
       Some addr \<Rightarrow>
         (case sock_ip addr of
            IpV4 ip \<Rightarrow> ''PROXY TCP4 '' @ show_ipv4 ip @ '' '' @ show_ipv4 0 @ '' '' @
              show_nat (unat (sock_port addr)) @ '' '' @ show_nat (unat PUBLIC_PORT) @ crlf
          | IpV6 ip \<Rightarrow> ''PROXY TCP6 '' @ show_ipv6 ip @ '' '' @ show_ipv6 0 @ '' '' @
              show_nat (unat (sock_port addr)) @ '' '' @ show_nat (unat PUBLIC_PORT) @ crlf)
     | None \<Rightarrow> ''PROXY UNKNOWN'' @ crlf)"

definition proxy_v2 :: "SocketAddr option \<Rightarrow> string \<Rightarrow> bytes"
  where "proxy_v2 source sni =
    (let (command, family, body) =
       (case source of
          Some addr \<Rightarrow>
            (case sock_ip addr of
               IpV4 ip \<Rightarrow> (V2_PROXY, V2_TCP4,
                 v4_octets ip @ v4_octets 0 @ u16_to_be (sock_port addr) @ u16_to_be PUBLIC_PORT)
             | IpV6 ip \<Rightarrow> (V2_PROXY, V2_TCP6,
                 v6_octets ip @ v6_octets 0 @ u16_to_be (sock_port addr) @ u16_to_be PUBLIC_PORT))
        | None \<Rightarrow> (V2_LOCAL, V2_UNSPEC, []));
       body = body @ (if sni \<noteq> [] \<and> length sni \<le> 255
         then [PP2_TYPE_AUTHORITY] @ u16_to_be (word_of_nat (length sni)) @ as_bytes sni else [])
     in V2_SIGNATURE @ [command, family] @ u16_to_be (word_of_nat (length body)) @ body)"

definition proxy_header :: "ProxyProtocol \<Rightarrow> string \<Rightarrow> string \<Rightarrow> bytes"
  where "proxy_header version peer sni =
    (let source = parse_peer peer
     in case version of V1 \<Rightarrow> proxy_v1 source | V2 \<Rightarrow> proxy_v2 source sni)"

section \<open>Reading a header (proxy_protocol.rs)\<close>

definition V1_MAX :: nat where "V1_MAX = 107"

datatype Header = HeaderIncomplete | HeaderInvalid | HeaderComplete nat "SocketAddr option"

definition parse_v2 :: "bytes \<Rightarrow> Header option"
  where "parse_v2 data =
    (let prefix = min (length data) 12 in
     if take prefix data \<noteq> take prefix V2_SIGNATURE then Some HeaderInvalid
     else if length data < 16 then Some HeaderIncomplete
     else do {
       version_command \<leftarrow> index_at data 12;
       if drop_bit 4 version_command \<noteq> 2 then Some HeaderInvalid
       else do {
         family \<leftarrow> index_at data 13;
         hi \<leftarrow> index_at data 14;
         lo \<leftarrow> index_at data 15;
         let total = 16 + be_nat [hi, lo];
         if length data < total then Some HeaderIncomplete
         else do {
           body \<leftarrow> slice data 16 total;
           let command = version_command AND 0x0f;
           if command = 0 then Some (HeaderComplete total None)
           else if command = 1 \<and> drop_bit 4 family = 1 \<and> 12 \<le> length body then do {
             octets \<leftarrow> slice body 0 4;
             port \<leftarrow> slice body 8 10;
             Some (HeaderComplete total (Some
               \<lparr>sock_ip = IpV4 (v4_of_octets octets), sock_port = word_of_nat (be_nat port)\<rparr>)) }
           else if command = 1 \<and> drop_bit 4 family = 2 \<and> 36 \<le> length body then do {
             octets \<leftarrow> slice body 0 16;
             port \<leftarrow> slice body 32 34;
             Some (HeaderComplete total (Some
               \<lparr>sock_ip = IpV6 (v6_of_octets octets), sock_port = word_of_nat (be_nat port)\<rparr>)) }
           else if command = 1 then Some (HeaderComplete total None)
           else Some HeaderInvalid } } })"

text \<open>\<^verbatim>\<open>windows(2).position(..)\<close> for the line end.\<close>

fun find_crlf :: "bytes \<Rightarrow> nat option" where
  "find_crlf (a # b # rest) =
     (if a = 0x0d \<and> b = 0x0a then Some 0 else map_option Suc (find_crlf (b # rest)))"
| "find_crlf _ = None"

definition parse_v1_line :: "string \<Rightarrow> SocketAddr option option"
  where "parse_v1_line line =
    (case split_on CHR '' '' line of
       proxy # kind # rest \<Rightarrow>
         if proxy \<noteq> ''PROXY'' then None
         else if kind = ''UNKNOWN'' then Some None
         else if kind = ''TCP4'' \<or> kind = ''TCP6'' then
           (case rest of
              [source, _, port, _] \<Rightarrow>
                (case (parse_ip source, parse_unsigned 65535 port) of
                   (Some ip, Some port) \<Rightarrow> Some (Some \<lparr>sock_ip = ip, sock_port = word_of_nat port\<rparr>)
                 | _ \<Rightarrow> None)
            | _ \<Rightarrow> None)
         else None
     | _ \<Rightarrow> None)"

definition parse_v1 :: "bytes \<Rightarrow> Header option"
  where "parse_v1 data =
    (let prefix = min (length data) 6 in
     if take prefix data \<noteq> take prefix (as_bytes ''PROXY '') then Some HeaderInvalid
     else case find_crlf data of
       None \<Rightarrow> Some (if V1_MAX \<le> length data then HeaderInvalid else HeaderIncomplete)
     | Some line_end \<Rightarrow> do {
         line \<leftarrow> slice data 0 line_end;
         Some (case from_utf8 line of
             None \<Rightarrow> HeaderInvalid
           | Some line \<Rightarrow>
               (case parse_v1_line line of
                  None \<Rightarrow> HeaderInvalid
                | Some source \<Rightarrow> HeaderComplete (line_end + 2) source)) })"

definition header_parse :: "bytes \<Rightarrow> Header option"
  where "header_parse data =
    (if data = [] then Some HeaderIncomplete
     else do {
       first \<leftarrow> index_at data 0;
       if first = 0x0d then parse_v2 data
       else if first = 0x50 then parse_v1 data
       else Some HeaderInvalid })"

section \<open>The parser does not panic\<close>

lemma find_crlf_less: "find_crlf data = Some n \<Longrightarrow> n + 1 < length data"
  by (induction data arbitrary: n rule: find_crlf.induct) (auto split: if_splits)

lemma parse_v2_no_panic [no_panic]: "parse_v2 data \<noteq> None"
  unfolding parse_v2_def Let_def
  by (intro no_panic; (drule slice_SomeD)?; simp)

lemma parse_v1_no_panic [no_panic]: "parse_v1 data \<noteq> None"
  unfolding parse_v1_def Let_def
  by (intro no_panic) (auto dest: find_crlf_less)

lemma header_parse_no_panic: "header_parse data \<noteq> None"
  unfolding header_parse_def
  by (intro no_panic) auto

section \<open>Addresses printed by the server are read by the client\<close>

text \<open>The canonical form \<^const>\<open>parse_peer\<close> gives an address: IPv4-mapped becomes IPv4.\<close>

definition unmapped :: "SocketAddr \<Rightarrow> SocketAddr"
  where "unmapped addr = addr\<lparr>sock_ip := (case sock_ip addr of
      IpV6 v6 \<Rightarrow> (case to_ipv4_mapped v6 of Some v4 \<Rightarrow> IpV4 v4 | None \<Rightarrow> IpV6 v6)
    | ip \<Rightarrow> ip)\<rparr>"

lemma unat_u16 [simp]: "unat (p :: u16) \<le> 65535"
  using unsigned_less [of p, where ?'a = nat] by simp

lemma length_show_nat_div: "length (show_nat n) = (if n < 10 then 1 else Suc (length (show_nat (n div 10))))"
  by (simp add: show_nat.simps [of n])

lemma length_show_nat_65535: "n \<le> 65535 \<Longrightarrow> length (show_nat n) \<le> 5"
  using length_show_nat_div [of n] length_show_nat_div [of "n div 10"] length_show_nat_div [of "n div 100"]
    length_show_nat_div [of "n div 1000"] length_show_nat_div [of "n div 10000"]
  by (simp add: div_mult2_eq [symmetric] split: if_splits)

lemma parse_port_show [text_simps]: "parse_port (show_nat (unat p)) = Some p"
  using length_show_nat_65535 [of "unat p"] show_nat_digits [of _ "unat p"]
  by (auto simp: parse_port_def list_all_iff parse_unsigned_show_nat)

lemma split_once_str_bracket:
  assumes "CHR '']'' \<notin> set host"
  shows "split_once_str '']:'' (host @ '']:'' @ rest) = Some (host, rest)"
  using assms
proof (induction host)
  case Nil
  show ?case by (simp add: split_once_str.simps strip_prefix_def)
next
  case (Cons c host)
  then have "strip_prefix (c # host @ '']:'' @ rest) '']:'' = None"
    by (simp add: strip_prefix_def)
  with Cons show ?case by (simp add: split_once_str.simps [of _ "c # _"])
qed

lemma parse_ip_bracket: "parse_ip (CHR ''['' # s) = None"
proof -
  have none: "to_digit 10 CHR ''['' = None" "to_digit 16 CHR ''['' = None" by code_simp+
  then have "read_ipv4_addr (CHR ''['' # s) = None"
    by (simp add: read_ipv4_addr_def read_separator_def read_octet_def read_number_def Let_def)
  moreover have "read_ipv6_addr (CHR ''['' # s) = None"
    using none calculation
    by (simp add: read_ipv6_addr_def read_groups.simps [of 8 0] read_separator_def read_number_def
        Let_def read_given_char_def strip_prefix_def)
  ultimately show ?thesis by (simp add: parse_ip_def finished_def)
qed

lemma parse_ip_port: "parse_ip (show_ipv4 ip @ CHR '':'' # s) = None"
  using read_ipv4_show [of "CHR '':'' # s" ip]
  by (simp add: parse_ip_def finished_def is_ascii_digit_def)

lemma show_ipv6_no_bracket: "CHR '']'' \<notin> set (show_ipv6 a)"
proof
  assume "CHR '']'' \<in> set (show_ipv6 a)"
  then have "to_digit 16 CHR '']'' \<noteq> None" using show_ipv6_chars by blast
  moreover have "to_digit 16 CHR '']'' = None" by code_simp
  ultimately show False by simp
qed

lemma strip_prefix_show_ipv4: "strip_prefix (show_ipv4 ip @ s) ''['' = None"
proof -
  obtain b0 b1 b2 b3 where o: "v4_octets ip = [b0, b1, b2, b3]"
    by (rule v4_octets_cases)
  obtain c cs where c: "show_nat (unat b0) = c # cs" by (cases "show_nat (unat b0)") auto
  then have "is_ascii_digit c" using show_nat_digits [of c "unat b0"] by simp
  then have "c \<noteq> CHR ''[''" by (auto simp: is_ascii_digit_def)
  with c o show ?thesis by (simp add: show_ipv4_def strip_prefix_def)
qed

lemma parse_peer_show: "parse_peer (show_socket_addr addr) = Some (unmapped addr)"
proof (cases "sock_ip addr")
  case (IpV4 ip)
  have "rsplit_once CHR '':'' (show_ipv4 ip @ CHR '':'' # show_nat (unat (sock_port addr))) =
      Some (show_ipv4 ip, show_nat (unat (sock_port addr)))"
    by (simp add: rsplit_once_Some show_nat_no_colon)
  then show ?thesis
    by (simp add: parse_peer_def show_socket_addr_def IpV4 parse_ip_port strip_prefix_show_ipv4
        parse_ipv4_show parse_port_show unmapped_def)
next
  case (IpV6 ip)
  have "strip_prefix (show_socket_addr addr) ''['' =
      Some (show_ipv6 ip @ '']:'' @ show_nat (unat (sock_port addr)))"
    by (simp add: show_socket_addr_def IpV6 strip_prefix_def)
  then show ?thesis
    using split_once_str_bracket [OF show_ipv6_no_bracket [of ip]]
    by (simp add: parse_peer_def show_socket_addr_def IpV6 parse_ip_bracket
        parse_ipv6_show parse_port_show unmapped_def split: option.split)
qed

section \<open>Headers written by the client are read by the server\<close>

lemma length_u16_to_be [simp]: "length (u16_to_be w) = 2"
  by (simp add: u16_to_be_def)

lemma be_nat_u16_to_be [wire_simps]: "be_nat (u16_to_be w) = unat w"
proof -
  have "unat w < 256 ^ 2" using unsigned_less [of w, where ?'a = nat] by simp
  then show ?thesis by (simp add: u16_to_be_def be_nat_nat_be)
qed

lemma slice_mid: "length pre = i \<Longrightarrow> j = i + length xs \<Longrightarrow> slice (pre @ xs @ rest) i j = Some xs"
  by (simp add: slice_def)

lemma u16_to_be_pair: obtains hi lo where "u16_to_be w = [hi, lo]" "be_nat [hi, lo] = unat w"
  using be_nat_u16_to_be [of w] by (simp add: u16_to_be_def nat_be_2)

text \<open>What the version 2 parser makes of a header with a given command, family and body.\<close>

definition v2_source :: "u8 \<Rightarrow> u8 \<Rightarrow> bytes \<Rightarrow> SocketAddr option"
  where "v2_source command family body =
    (if command = V2_LOCAL then None
     else if family = V2_TCP4 then Some \<lparr>sock_ip = IpV4 (v4_of_octets (take 4 body)),
       sock_port = word_of_nat (be_nat (take 2 (drop 8 body)))\<rparr>
     else Some \<lparr>sock_ip = IpV6 (v6_of_octets (take 16 body)),
       sock_port = word_of_nat (be_nat (take 2 (drop 32 body)))\<rparr>)"

lemma header_parse_v2:
  assumes "length body < 65536"
    and "command = V2_LOCAL \<or> (command = V2_PROXY \<and>
      (family = V2_TCP4 \<and> 12 \<le> length body \<or> family = V2_TCP6 \<and> 36 \<le> length body))"
  shows "header_parse (V2_SIGNATURE @ [command, family] @ u16_to_be (word_of_nat (length body)) @ body @ rest) =
    Some (HeaderComplete (16 + length body) (v2_source command family body))"
proof -
  obtain hi lo where hl: "u16_to_be (word_of_nat (length body)) = [hi, lo]"
      and n: "be_nat [hi, lo] = unat (word_of_nat (length body) :: u16)"
    by (rule u16_to_be_pair)
  define pre where "pre = V2_SIGNATURE @ [command, family, hi, lo]"
  define data where "data = pre @ body @ rest"
  have len: "be_nat [hi, lo] = length body"
    using n assms(1) by (simp add: unat_of_nat take_bit_nat_eq_self)
  have pre: "length pre = 16" "pre \<noteq> []" by (simp_all add: pre_def V2_SIGNATURE_def)
  have reads: "index_at data 0 = Some 0x0d" "index_at data 12 = Some command" "index_at data 13 = Some family"
    "index_at data 14 = Some hi" "index_at data 15 = Some lo"
    by (simp_all add: data_def pre_def V2_SIGNATURE_def index_at_def)
  have "slice data 16 (16 + length body) = Some body"
    unfolding data_def using pre by (intro slice_mid) auto
  moreover have "take (min (length data) 12) data = take (min (length data) 12) V2_SIGNATURE"
    using pre by (simp add: data_def pre_def V2_SIGNATURE_def)
  moreover have "\<not> length data < 16" "data \<noteq> []" using pre by (simp_all add: data_def)
  moreover have "\<not> length data < 16 + length body" using pre by (simp add: data_def)
  ultimately have "header_parse data = Some (HeaderComplete (16 + length body) (v2_source command family body))"
    using reads len assms(2)
    by (auto simp: header_parse_def parse_v2_def Let_def v2_source_def V2_LOCAL_def V2_PROXY_def
        V2_TCP4_def V2_TCP6_def slice_def simp del: index_at_Some)
  then show ?thesis by (simp add: data_def pre_def hl)
qed

lemma header_parse_proxy_v2:
  "header_parse (proxy_v2 source sni @ rest) =
     Some (HeaderComplete (length (proxy_v2 source sni)) source)"
proof -
  define tlv where "tlv = (if sni \<noteq> [] \<and> length sni \<le> 255
    then [PP2_TYPE_AUTHORITY] @ u16_to_be (word_of_nat (length sni)) @ as_bytes sni else [])"
  have tlv: "length tlv \<le> 258" by (simp add: tlv_def)
  have whole: "header_parse (proxy_v2 source sni @ rest) =
      Some (HeaderComplete (length (proxy_v2 source sni)) source)"
    if "proxy_v2 source sni = V2_SIGNATURE @ [command, family] @ u16_to_be (word_of_nat (length body)) @ body"
      and "length body < 65536" "v2_source command family body = source"
      and "command = V2_LOCAL \<or> (command = V2_PROXY \<and>
        (family = V2_TCP4 \<and> 12 \<le> length body \<or> family = V2_TCP6 \<and> 36 \<le> length body))"
    for command family body
    using header_parse_v2 [OF that(2,4), of rest] that(1,3) by (simp add: V2_SIGNATURE_def)
  show ?thesis
  proof (cases source)
    case None
    show ?thesis
      by (rule whole [of V2_LOCAL V2_UNSPEC tlv])
         (use tlv in \<open>simp_all add: None proxy_v2_def tlv_def Let_def v2_source_def\<close>)
  next
    case (Some addr)
    define ports where "ports = u16_to_be (sock_port addr) @ u16_to_be PUBLIC_PORT"
    have lp: "length ports = 4" by (simp add: ports_def)
    have addr: "addr = \<lparr>sock_ip = sock_ip addr, sock_port = sock_port addr\<rparr>" by simp
    show ?thesis
    proof (cases "sock_ip addr")
      case (IpV4 ip)
      show ?thesis
        by (rule whole [of V2_PROXY V2_TCP4 "v4_octets ip @ v4_octets 0 @ ports @ tlv"])
           (use tlv addr IpV4 lp in \<open>simp_all add: Some proxy_v2_def tlv_def Let_def v2_source_def ports_def
              V2_PROXY_def V2_LOCAL_def v4_of_v4_octets be_nat_u16_to_be\<close>)
    next
      case (IpV6 ip)
      show ?thesis
        by (rule whole [of V2_PROXY V2_TCP6 "v6_octets ip @ v6_octets 0 @ ports @ tlv"])
           (use tlv addr IpV6 lp in \<open>simp_all add: Some proxy_v2_def tlv_def Let_def v2_source_def ports_def
              V2_PROXY_def V2_LOCAL_def V2_TCP4_def V2_TCP6_def v6_of_v6_octets be_nat_u16_to_be\<close>)
    qed
  qed
qed

lemma find_crlf_append:
  "0x0d \<notin> set xs \<Longrightarrow> find_crlf (xs @ [0x0d, 0x0a] @ rest) = Some (length xs)"
proof (induction xs)
  case (Cons x xs)
  then show ?case by (cases xs) auto
qed simp

definition plain_char :: "char \<Rightarrow> bool"
  where "plain_char c \<longleftrightarrow> 32 < code_of c \<and> code_of c < 128"

lemma plain_digit: "is_ascii_digit c \<Longrightarrow> plain_char c"
  by (auto simp: is_ascii_digit_def plain_char_def)

lemma plain_hex: "to_digit 16 c \<noteq> None \<Longrightarrow> plain_char c"
  by (auto simp: to_digit_def hex_digit_value_def option_filter_def is_ascii_digit_def plain_char_def
      split: if_splits)

lemma plain_show_nat: "list_all plain_char (show_nat n)"
  using show_nat_digits plain_digit by (auto simp: list_all_iff)

lemma plain_show_ip: "list_all plain_char (show_ip ip)"
proof -
  have "plain_char CHR ''.''" "plain_char CHR '':''" by (simp_all add: plain_char_def)
  then show ?thesis
    using show_ipv4_chars show_ipv6_chars plain_digit plain_hex
    by (cases ip) (force simp: show_ip_def list_all_iff)+
qed

text \<open>A line of words separated by single spaces is split into its words.\<close>

lemma split_on_join_space:
  "ws \<noteq> [] \<Longrightarrow> list_all (list_all plain_char) ws \<Longrightarrow> split_on CHR '' '' (join '' '' ws) = ws"
proof (induction "'' ''" ws rule: join.induct)
  case (2 x)
  then have "CHR '' '' \<notin> set x" by (auto simp: list_all_iff plain_char_def)
  then show ?case by (simp add: split_on_no_sep)
next
  case (3 x y rest)
  then have "CHR '' '' \<notin> set x" by (auto simp: list_all_iff plain_char_def)
  with 3 show ?case by (simp add: split_on_append_sep)
qed simp

lemma join_space_chars:
  "list_all (list_all plain_char) ws \<Longrightarrow> c \<in> set (join '' '' ws) \<Longrightarrow> 32 \<le> code_of c \<and> code_of c < 128"
  by (induction "'' ''" ws rule: join.induct) (auto simp: list_all_iff plain_char_def)

lemma byte_of_char_eq_num: "byte_of_char c = word_of_nat n \<Longrightarrow> n < 256 \<Longrightarrow> code_of c = n"
  by (metis unat_byte_length unat_byte_of_char)

lemma header_parse_v1:
  assumes words: "list_all (list_all plain_char) ws" and line: "join '' '' (''PROXY'' # ws) = line"
    and source: "parse_v1_line line = Some source" and "ws \<noteq> []"
  shows "header_parse (as_bytes (line @ crlf) @ rest) =
    Some (HeaderComplete (length (as_bytes (line @ crlf))) source)"
proof -
  define data where "data = as_bytes line @ [0x0d, 0x0a] @ rest"
  have chars: "32 \<le> code_of c \<and> code_of c < 128" if "c \<in> set line" for c
    using that line join_space_chars [of "''PROXY'' # ws" c] words
    by (simp add: plain_char_def)
  have "0x0d \<notin> set (as_bytes line)"
  proof
    assume "0x0d \<in> set (as_bytes line)"
    then obtain c where "c \<in> set line" "byte_of_char c = 0x0d" by (auto simp: as_bytes_def)
    with chars [of c] byte_of_char_eq_num [of c 13] show False by simp
  qed
  then have crlf: "find_crlf data = Some (length line)"
    using find_crlf_append [of "as_bytes line" rest] by (simp add: data_def)
  have "is_utf8 (as_bytes line)"
    using chars by (intro is_utf8_ascii) (simp add: as_bytes_def list_all_iff)
  then have utf8: "from_utf8 (as_bytes line) = Some line" by (simp add: from_utf8_def)
  obtain more where more: "line = ''PROXY '' @ more" using line \<open>ws \<noteq> []\<close> by (cases ws) auto
  have "as_bytes ''PROXY '' = [0x50, 0x52, 0x4f, 0x58, 0x59, 0x20]" by (simp add: byte_of_char_def)
  then have d: "data = [0x50, 0x52, 0x4f, 0x58, 0x59, 0x20] @ as_bytes more @ [0x0d, 0x0a] @ rest"
    by (simp add: data_def more)
  have "slice data 0 (length line) = Some (as_bytes line)" by (simp add: data_def slice_def)
  moreover have "take (min (length data) 6) data = take (min (length data) 6) (as_bytes ''PROXY '')"
    by (simp add: d byte_of_char_def)
  ultimately have "parse_v1 data = Some (HeaderComplete (length line + 2) source)"
    using crlf utf8 source by (simp add: parse_v1_def Let_def)
  moreover have "index_at data 0 = Some 0x50" "data \<noteq> []" by (simp_all add: d)
  ultimately have "header_parse data = Some (HeaderComplete (length line + 2) source)"
    by (simp add: header_parse_def del: index_at_Some)
  then show ?thesis by (simp add: data_def crlf_def byte_of_char_def)
qed

lemma proxy_v1_join:
  "proxy_v1 source = as_bytes (join '' '' (''PROXY'' #
     (case source of
        Some addr \<Rightarrow> [case sock_ip addr of IpV4 _ \<Rightarrow> ''TCP4'' | IpV6 _ \<Rightarrow> ''TCP6'',
          show_ip (sock_ip addr), case sock_ip addr of IpV4 _ \<Rightarrow> show_ipv4 0 | IpV6 _ \<Rightarrow> show_ipv6 0,
          show_nat (unat (sock_port addr)), show_nat (unat PUBLIC_PORT)]
      | None \<Rightarrow> [''UNKNOWN''])) @ crlf)"
  by (simp add: proxy_v1_def show_ip_def split: option.split IpAddr.split)

lemma header_parse_proxy_v1:
  "header_parse (proxy_v1 source @ rest) = Some (HeaderComplete (length (proxy_v1 source)) source)"
proof -
  define ws where "ws = (case source of
        Some addr \<Rightarrow> [case sock_ip addr of IpV4 _ \<Rightarrow> ''TCP4'' | IpV6 _ \<Rightarrow> ''TCP6'',
          show_ip (sock_ip addr), case sock_ip addr of IpV4 _ \<Rightarrow> show_ipv4 0 | IpV6 _ \<Rightarrow> show_ipv6 0,
          show_nat (unat (sock_port addr)), show_nat (unat PUBLIC_PORT)]
      | None \<Rightarrow> [''UNKNOWN''])"
  have kinds: "list_all plain_char ''TCP4''" "list_all plain_char ''TCP6''"
    "list_all plain_char ''UNKNOWN''" "list_all plain_char ''PROXY''"
    by (simp_all add: plain_char_def)
  have plain: "list_all (list_all plain_char) ws"
    using kinds plain_show_ip [of "IpV4 0"] plain_show_ip [of "IpV6 0"] plain_show_ip plain_show_nat
    by (simp add: ws_def show_ip_def split: option.split IpAddr.split)
  have "split_on CHR '' '' (join '' '' (''PROXY'' # ws)) = ''PROXY'' # ws"
    using plain kinds by (intro split_on_join_space) auto
  then have "parse_v1_line (join '' '' (''PROXY'' # ws)) = Some source"
    by (cases source)
       (auto simp: parse_v1_line_def ws_def parse_ip_show parse_unsigned_show_nat split: IpAddr.split)
  then show ?thesis
    using header_parse_v1 [OF plain refl, of source rest] proxy_v1_join [of source]
    by (simp add: ws_def [symmetric]) (simp add: ws_def split: option.splits)
qed

section \<open>Properties of the PROXY protocol\<close>

text \<open>C34. The header parser never panics, and it accepts every header the client writes, of
  both versions and for every peer text and server name: it finds the source address the client
  read from the peer, and the length it reports is exactly the header's, whatever follows.\<close>

theorem proxy_header_read_back:
  "header_parse data \<noteq> None \<and>
   header_parse (proxy_header version peer sni @ rest) =
     Some (HeaderComplete (length (proxy_header version peer sni)) (parse_peer peer))"
  using header_parse_no_panic header_parse_proxy_v1 header_parse_proxy_v2
  by (cases version) (simp_all add: proxy_header_def)

text \<open>The visitor's address survives the way to the target: printed by the server in an open
  message, read by the client and written in a header of either version, it is parsed again as the
  same address and port, an IPv4-mapped address as its IPv4 form.\<close>

theorem visitor_address_end_to_end:
  "header_parse (proxy_header version (show_socket_addr addr) sni @ rest) =
     Some (HeaderComplete (length (proxy_header version (show_socket_addr addr) sni))
       (Some (unmapped addr)))"
  using header_parse_proxy_v1 header_parse_proxy_v2
  by (cases version) (simp_all add: proxy_header_def parse_peer_show)

text \<open>A version 1 line longer than the protocol's 107 bytes is refused while its end has not
  arrived, yet accepted when the whole line is there at the first read.\<close>

theorem v1_limit_depends_on_arrival:
  "(let line = as_bytes ''PROXY UNKNOWN '' @ replicate 100 0x20
    in header_parse line = Some HeaderInvalid \<and>
       header_parse (line @ [0x0d, 0x0a]) = Some (HeaderComplete 116 None))"
  by code_simp

end
