(* ===== verification/Websocket.thy ===== *)
theory Websocket
  imports Utf8
begin

unbundle bit_operations_syntax

text \<open>
  The server side of a bridge's WebSocket, from
  \<^verbatim>\<open>opentunnel-server/src/websocket.rs\<close>: the reader with its buffer and partly
  assembled message, the frame splitter, the word-wise unmasking, and the writer with
  its vectored write loop.  The connection is the list of byte chunks that reads
  return; the writer's is the number of bytes each write takes.

  The lemmas show that the reader never panics, that frames masked by a client are
  read back whatever their length encoding, that the unmasking eight bytes at a time
  is the byte-wise one on either byte order, that messages do not depend on how the
  bytes arrive, and that no message exceeds the limit.
\<close>

section \<open>Frames and messages\<close>

definition CONTINUATION :: u8 where "CONTINUATION = 0x0"
definition TEXT :: u8 where "TEXT = 0x1"
definition BINARY :: u8 where "BINARY = 0x2"
definition CLOSE :: u8 where "CLOSE = 0x8"
definition PING :: u8 where "PING = 0x9"
definition PONG :: u8 where "PONG = 0xa"

lemmas opcode_defs = CONTINUATION_def TEXT_def BINARY_def CLOSE_def PING_def PONG_def

datatype Message =
  MText string
| MBinary bytes
| MPing bytes
| MPong bytes
| MClose u16

datatype ws_error = Ws_io | Ws_protocol string | Ws_too_large string

record Frame =
  fin :: bool
  opcode :: u8
  payload :: bytes

record Reader =
  buffer :: bytes
  wanted :: nat
  max_message :: nat
  partial :: "(bool \<times> bytes) option"

definition Reader_new :: "nat \<Rightarrow> Reader"
  where "Reader_new limit = \<lparr>buffer = [], wanted = 0, max_message = limit, partial = None\<rparr>"

definition set_max_message :: "Reader \<Rightarrow> nat \<Rightarrow> Reader"
  where "set_max_message r limit = r\<lparr>max_message := limit\<rparr>"

section \<open>Unmasking\<close>

text \<open>\<^verbatim>\<open>u64::from_ne_bytes\<close> and \<^verbatim>\<open>to_ne_bytes\<close> on a machine of either byte
  order.\<close>

definition from_ne_bytes :: "bool \<Rightarrow> bytes \<Rightarrow> u64"
  where "from_ne_bytes big bs = word_of_nat (be_nat (if big then bs else rev bs))"

definition to_ne_bytes :: "bool \<Rightarrow> u64 \<Rightarrow> bytes"
  where "to_ne_bytes big w = (if big then nat_be 8 (unat w) else rev (nat_be 8 (unat w)))"

fun unmask_rest :: "bytes \<Rightarrow> nat \<Rightarrow> bytes \<Rightarrow> bytes" where
  "unmask_rest mkey index [] = []"
| "unmask_rest mkey index (b # rest) = (b XOR mkey ! (index mod 4)) # unmask_rest mkey (Suc index) rest"

function unmask :: "bool \<Rightarrow> bytes \<Rightarrow> bytes \<Rightarrow> bytes" where
  "unmask big data mkey =
     (if length data < 8 then unmask_rest mkey 0 data
      else to_ne_bytes big (from_ne_bytes big (take 8 data) XOR from_ne_bytes big (mkey @ mkey)) @
           unmask big (drop 8 data) mkey)"
  by pat_completeness auto

termination unmask
  by (relation "measure (\<lambda>(big, data, mkey). length data)") auto

section \<open>The reader\<close>

text \<open>The payload length and where the masking key starts, or how many bytes the header
  needs before they are known.  The outer option is the panic of an index.\<close>

definition frame_length :: "bytes \<Rightarrow> u8 \<Rightarrow> (nat + nat \<times> nat) option"
  where "frame_length buf short =
    (if short = 126 then
       (if length buf < 4 then Some (Inl 4) else map_option (\<lambda>bs. Inr (be_nat bs, 4)) (slice buf 2 4))
     else if short = 127 then
       (if length buf < 10 then Some (Inl 10) else map_option (\<lambda>bs. Inr (be_nat bs, 10)) (slice buf 2 10))
     else Some (Inr (unat short, 2)))"

text \<open>The split of a complete frame off the front of the buffer.\<close>

definition take_frame :: "bool \<Rightarrow> Reader \<Rightarrow> u8 \<Rightarrow> nat \<Rightarrow> nat \<Rightarrow> (Reader \<times> Frame) option"
  where "take_frame big r b0 len offset = do {
    mkey \<leftarrow> slice (buffer r) offset (offset + 4);
    data \<leftarrow> slice (buffer r) (offset + 4) (offset + 4 + len);
    Some (r\<lparr>buffer := drop (offset + 4 + len) (buffer r), wanted := 0\<rparr>,
          \<lparr>fin = (b0 AND 0x80 \<noteq> 0), opcode = b0 AND 0x0f, payload = unmask big data mkey\<rparr>) }"

text \<open>\<^verbatim>\<open>Reader::frame\<close>: the buffer only changes when a frame is split off.\<close>

definition Reader_frame :: "bool \<Rightarrow> Reader \<Rightarrow> (Reader \<times> (ws_error + Frame option)) option"
  where "Reader_frame big r =
    (if length (buffer r) < 2 then Some (r\<lparr>wanted := 2\<rparr>, Ok None)
     else do {
       b0 \<leftarrow> index_at (buffer r) 0;
       b1 \<leftarrow> index_at (buffer r) 1;
       if b0 AND 0x70 \<noteq> 0 then Some (r\<lparr>wanted := 2\<rparr>, Err (Ws_protocol ''reserved bits set''))
       else if b1 AND 0x80 = 0
       then Some (r\<lparr>wanted := 2\<rparr>, Err (Ws_protocol ''unmasked client frame''))
       else do {
         known \<leftarrow> frame_length (buffer r) (b1 AND 0x7f);
         case known of
           Inl needed \<Rightarrow> Some (r\<lparr>wanted := needed\<rparr>, Ok None)
         | Inr (len, offset) \<Rightarrow>
             if max_message r < len
             then Some (r\<lparr>wanted := 2\<rparr>, Err (Ws_too_large ''frame too large''))
             else if length (buffer r) < offset + 4 + len
             then Some (r\<lparr>wanted := offset + 4 + len\<rparr>, Ok None)
             else map_option (apsnd (\<lambda>f. Ok (Some f))) (take_frame big r b0 len offset) } })"

text \<open>The message of a control frame.\<close>

definition control_message :: "Frame \<Rightarrow> ws_error + Message"
  where "control_message f =
    (if \<not> fin f \<or> 125 < length (payload f) then Err (Ws_protocol ''invalid control frame'')
     else if opcode f = CLOSE then
       (case payload f of
          [] \<Rightarrow> Ok (MClose 1005)
        | [_] \<Rightarrow> Err (Ws_protocol ''invalid close frame'')
        | a # b # reason \<Rightarrow>
            if \<not> is_utf8 reason then Err (Ws_protocol ''invalid close reason'')
            else Ok (MClose (word_of_nat (be_nat [a, b]))))
     else if opcode f = PING then Ok (MPing (payload f))
     else if opcode f = PONG then Ok (MPong (payload f))
     else Err (Ws_protocol ''unknown opcode''))"

text \<open>The kind and data of a message after one more data frame, given what was assembled.\<close>

definition assemble :: "nat \<Rightarrow> Frame \<Rightarrow> (bool \<times> bytes) option \<Rightarrow> ws_error + (bool \<times> bytes)"
  where "assemble limit f part =
    (if opcode f = TEXT \<or> opcode f = BINARY then
       (case part of
          None \<Rightarrow> Ok (opcode f = TEXT, payload f)
        | Some _ \<Rightarrow> Err (Ws_protocol ''expected a continuation''))
     else if opcode f = CONTINUATION then
       (case part of
          Some (text, data) \<Rightarrow>
            if limit < length data + length (payload f) then Err (Ws_too_large ''message too large'')
            else Ok (text, data @ payload f)
        | None \<Rightarrow> Err (Ws_protocol ''unexpected continuation''))
     else Err (Ws_protocol ''unknown opcode''))"

definition finish_message :: "bool \<times> bytes \<Rightarrow> ws_error + Message"
  where "finish_message m =
    (case m of (text, data) \<Rightarrow>
       if text then (case from_utf8 data of
           Some s \<Rightarrow> Ok (MText s)
         | None \<Rightarrow> Err (Ws_protocol ''text is not UTF-8''))
       else Ok (MBinary data))"

lemma take_frame_SomeD:
  "take_frame big r b0 len offset = Some (r', f) \<Longrightarrow>
     buffer r' = drop (offset + 4 + len) (buffer r) \<and> offset + 4 + len \<le> length (buffer r) \<and>
     max_message r' = max_message r \<and> partial r' = partial r"
  by (auto simp: take_frame_def bind_eq_Some_conv dest: slice_SomeD)

text \<open>The cases of one call: not enough bytes, an error, or a frame split off.\<close>

lemma Reader_frame_cases:
  assumes "Reader_frame big r = Some (r', taken)"
  obtains (incomplete) n where "taken = Ok None" "r' = r\<lparr>wanted := n\<rparr>"
  | (error) e where "taken = Err e" "r' = r\<lparr>wanted := 2\<rparr>"
  | (frame) b0 len offset f where "taken = Ok (Some f)" "take_frame big r b0 len offset = Some (r', f)"
      "len \<le> max_message r"
proof (cases "length (buffer r) < 2")
  case True
  with assms have "taken = Ok None" "r' = r\<lparr>wanted := 2\<rparr>" by (auto simp: Reader_frame_def)
  then show ?thesis by (rule incomplete)
next
  case False
  then have "index_at (buffer r) 0 = Some (buffer r ! 0)" "index_at (buffer r) 1 = Some (buffer r ! 1)"
    by (intro index_at_Some; linarith)+
  then obtain b0 b1 where b: "index_at (buffer r) 0 = Some b0" "index_at (buffer r) 1 = Some b1"
    by blast
  show ?thesis
  proof (cases "b0 AND 0x70 \<noteq> 0 \<or> b1 AND 0x80 = 0")
    case True
    with assms b False have "\<exists>e. taken = Err e \<and> r' = r\<lparr>wanted := 2\<rparr>"
      by (auto simp: Reader_frame_def simp del: index_at_Some split: if_splits)
    then show ?thesis using error by blast
  next
    case ok: False
    with assms b False obtain known where k: "frame_length (buffer r) (b1 AND 0x7f) = Some known"
      by (cases "frame_length (buffer r) (b1 AND 0x7f)") (simp_all add: Reader_frame_def del: index_at_Some)
    show ?thesis
    proof (cases known)
      case (Inl needed)
      with assms b False ok k have "taken = Ok None" "r' = r\<lparr>wanted := needed\<rparr>"
        by (auto simp: Reader_frame_def simp del: index_at_Some)
      then show ?thesis by (rule incomplete)
    next
      case (Inr p)
      obtain len offset where p: "p = (len, offset)" by fastforce
      have "Reader_frame big r = (if max_message r < len
             then Some (r\<lparr>wanted := 2\<rparr>, Err (Ws_too_large ''frame too large''))
             else if length (buffer r) < offset + 4 + len
             then Some (r\<lparr>wanted := offset + 4 + len\<rparr>, Ok None)
             else map_option (apsnd (\<lambda>f. Ok (Some f))) (take_frame big r b0 len offset))"
        using b False ok k Inr p by (simp add: Reader_frame_def del: index_at_Some)
      with assms have "(taken = Err (Ws_too_large ''frame too large'') \<and> r' = r\<lparr>wanted := 2\<rparr>) \<or>
          (taken = Ok None \<and> r' = r\<lparr>wanted := offset + 4 + len\<rparr>) \<or>
          (\<exists>f. taken = Ok (Some f) \<and> take_frame big r b0 len offset = Some (r', f) \<and> len \<le> max_message r)"
        by (auto split: if_splits)
      then show ?thesis using error incomplete frame by blast
    qed
  qed
qed

lemma Reader_frame_consumes:
  "Reader_frame big r = Some (r', Ok (Some f)) \<Longrightarrow> length (buffer r') < length (buffer r)"
  by (erule Reader_frame_cases) (auto dest!: take_frame_SomeD)

text \<open>\<^verbatim>\<open>Reader::parse\<close>: frames are taken from the buffer until a message is complete.\<close>

function Reader_parse :: "bool \<Rightarrow> Reader \<Rightarrow> (Reader \<times> (ws_error + Message option)) option" where
  "Reader_parse big r = do {
     (r, taken) \<leftarrow> Reader_frame big r;
     case taken of
       Inl e \<Rightarrow> Some (r, Err e)
     | Inr None \<Rightarrow> Some (r, Ok None)
     | Inr (Some f) \<Rightarrow>
         if CLOSE \<le> opcode f then
           Some (r, result_bind (control_message f) (\<lambda>m. Ok (Some m)))
         else
           (case assemble (max_message r) f (partial r) of
              Inl e \<Rightarrow> Some (r\<lparr>partial := None\<rparr>, Err e)
            | Inr m \<Rightarrow>
                if \<not> fin f then Reader_parse big (r\<lparr>partial := Some m\<rparr>)
                else Some (r\<lparr>partial := None\<rparr>, result_bind (finish_message m) (\<lambda>m. Ok (Some m)))) }"
  by pat_completeness auto

termination Reader_parse
  by (relation "measure (\<lambda>(big, r). length (buffer r))") (auto dest: Reader_frame_consumes)

text \<open>\<^verbatim>\<open>Reader::next\<close>: reads until a message is complete; the connection is the list of
  what reads return, at its end a read returns nothing.\<close>

fun Reader_next :: "bool \<Rightarrow> Reader \<Rightarrow> bytes list \<Rightarrow>
    (Reader \<times> bytes list \<times> (ws_error + Message option)) option" where
  "Reader_next big r io = do {
     (r, parsed) \<leftarrow> Reader_parse big r;
     case parsed of
       Inl e \<Rightarrow> Some (r, io, Err e)
     | Inr (Some m) \<Rightarrow> Some (r, io, Ok (Some m))
     | Inr None \<Rightarrow>
         (case io of
            [] \<Rightarrow> Some (r, [], Ok None)
          | chunk # io \<Rightarrow>
              if chunk = [] then Some (r, io, Ok None)
              else Reader_next big (r\<lparr>buffer := buffer r @ chunk\<rparr>) io) }"

declare unmask.simps [simp del] Reader_parse.simps [simp del] Reader_next.simps [simp del]

section \<open>The writer\<close>

text \<open>The bytes of a frame, in front of the prefix and the payload.\<close>

definition Writer_header :: "u8 \<Rightarrow> nat \<Rightarrow> bytes"
  where "Writer_header op len =
    (0x80 OR op) #
    (if len < 126 then [word_of_nat len]
     else if len \<le> 65535 then 126 # nat_be 2 len
     else 127 # nat_be 8 len)"

text \<open>The loop over \<^verbatim>\<open>write_vectored\<close>: each entry of \<open>takes\<close> is the number of bytes the
  connection takes in one call; no more entries is an I/O error.  The result is what was
  written and whether the frame was.\<close>

fun write_loop :: "nat list \<Rightarrow> bytes \<Rightarrow> bytes \<times> bool" where
  "write_loop takes [] = ([], True)"
| "write_loop [] pending = ([], False)"
| "write_loop (n # takes) pending =
     (if n = 0 then ([], False)
      else case write_loop takes (drop n pending) of
        (written, ok) \<Rightarrow> (take n pending @ written, ok))"

definition Writer_frame :: "nat list \<Rightarrow> u8 \<Rightarrow> bytes \<Rightarrow> bytes \<Rightarrow> bytes \<times> bool"
  where "Writer_frame takes op lead data =
    write_loop takes (Writer_header op (length lead + length data) @ lead @ data)"

definition Writer_text :: "nat list \<Rightarrow> string \<Rightarrow> bytes \<times> bool"
  where "Writer_text takes s = Writer_frame takes TEXT [] (as_bytes s)"

definition Writer_binary :: "nat list \<Rightarrow> bytes \<Rightarrow> bytes \<times> bool"
  where "Writer_binary takes data = Writer_frame takes BINARY [] data"

definition Writer_pong :: "nat list \<Rightarrow> bytes \<Rightarrow> bytes \<times> bool"
  where "Writer_pong takes data = Writer_frame takes PONG [] data"

definition is_char_boundary :: "string \<Rightarrow> nat \<Rightarrow> bool"
  where "is_char_boundary s i \<longleftrightarrow>
    i = 0 \<or> i = length s \<or> (i < length s \<and> \<not> is_cont (byte_of_char (s ! i)))"

fun char_floor :: "string \<Rightarrow> nat \<Rightarrow> nat" where
  "char_floor s 0 = 0"
| "char_floor s (Suc i) = (if is_char_boundary s (Suc i) then Suc i else char_floor s i)"

definition Writer_close :: "nat list \<Rightarrow> (u16 \<times> string) option \<Rightarrow> bytes \<times> bool"
  where "Writer_close takes close =
    (case close of
       Some (code, reason) \<Rightarrow>
         Writer_frame takes CLOSE (nat_be 2 (unat code))
           (take (char_floor reason (min (length reason) 123)) (as_bytes reason))
     | None \<Rightarrow> Writer_frame takes CLOSE [] [])"

section \<open>Unmasking eight bytes at a time\<close>

lemma xor_byte_split:
  fixes a b x y :: nat
  assumes "x < 256" "y < 256"
  shows "(a * 256 + x) XOR (b * 256 + y) = (a XOR b) * 256 + (x XOR y)" (is "?L = ?R")
proof -
  have "drop_bit 8 ?L = a XOR b"
    using assms by (simp add: drop_bit_xor) (simp add: drop_bit_eq_div)
  moreover have "take_bit 8 ?L = x XOR y"
    using assms by (simp add: take_bit_xor) (simp add: take_bit_eq_mod)
  ultimately have "?L div 256 = a XOR b" "?L mod 256 = x XOR y"
    by (simp_all add: drop_bit_eq_div take_bit_eq_mod)
  then show ?thesis by (metis div_mult_mod_eq)
qed

lemma be_nat_xor:
  "length xs = length ys \<Longrightarrow> be_nat (map2 (XOR) xs ys) = be_nat xs XOR be_nat ys"
proof (induction xs ys rule: rev_induct2)
  case (4 x xs y ys)
  then show ?case
    by (simp add: xor_byte_split unsigned_xor_eq)
qed auto

lemma ne_bytes_xor:
  assumes "length xs = 8" "length ys = 8"
  shows "to_ne_bytes big (from_ne_bytes big xs XOR from_ne_bytes big ys) = map2 (XOR) xs ys"
proof -
  have eight: "nat_be 8 (unat (word_of_nat (be_nat us) XOR word_of_nat (be_nat vs) :: u64)) = map2 (XOR) us vs"
    if "length us = 8" "length vs = 8" for us vs
  proof -
    have "unat (word_of_nat (be_nat us) :: u64) = be_nat us" "unat (word_of_nat (be_nat vs) :: u64) = be_nat vs"
      using be_nat_less [of us] be_nat_less [of vs] that by (simp_all add: unat_of_nat take_bit_nat_eq_self)
    then have "unat (word_of_nat (be_nat us) XOR word_of_nat (be_nat vs) :: u64) = be_nat (map2 (XOR) us vs)"
      using that by (simp add: unsigned_xor_eq be_nat_xor)
    with that nat_be_be_nat [of "map2 (XOR) us vs"] show ?thesis by simp
  qed
  have "rev (map2 (XOR) (rev xs) (rev ys)) = map2 (XOR) xs ys"
    using assms by (simp add: rev_map [symmetric] zip_rev)
  with assms show ?thesis by (simp add: to_ne_bytes_def from_ne_bytes_def eight)
qed

lemma length_unmask_rest [simp]: "length (unmask_rest mkey i data) = length data"
  by (induction data arbitrary: i) auto

lemma nth_unmask_rest:
  "k < length data \<Longrightarrow> unmask_rest mkey i data ! k = data ! k XOR mkey ! ((i + k) mod 4)"
  by (induction data arbitrary: i k) (auto simp: nth_Cons split: nat.split)

lemma unmask_rest_append:
  "unmask_rest mkey i (xs @ ys) = unmask_rest mkey i xs @ unmask_rest mkey (i + length xs) ys"
  by (induction xs arbitrary: i) auto

lemma unmask_rest_shift: "unmask_rest mkey (i + 8) data = unmask_rest mkey i data"
proof (rule nth_equalityI)
  fix k assume "k < length (unmask_rest mkey (i + 8) data)"
  moreover have "(i + 8 + k) mod 4 = (i + k) mod 4" by presburger
  ultimately show "unmask_rest mkey (i + 8) data ! k = unmask_rest mkey i data ! k"
    by (simp add: nth_unmask_rest)
qed simp

lemma unmask_rest_involution: "unmask_rest mkey i (unmask_rest mkey i data) = data"
  by (rule nth_equalityI) (auto simp: nth_unmask_rest xor.assoc)

lemma nth_double_key: "length mkey = 4 \<Longrightarrow> k < 8 \<Longrightarrow> (mkey @ mkey) ! k = mkey ! (k mod 4)"
  by (auto simp: nth_append mod_if)

lemma unmask_chunk:
  assumes "length mkey = 4" "length data = 8"
  shows "map2 (XOR) data (mkey @ mkey) = unmask_rest mkey 0 data"
  using assms by (intro nth_equalityI) (auto simp: nth_unmask_rest nth_double_key)

lemma unmask_bytewise: "length mkey = 4 \<Longrightarrow> unmask big data mkey = unmask_rest mkey 0 data"
proof (induction big data mkey rule: unmask.induct)
  case (1 big data mkey)
  show ?case
  proof (cases "length data < 8")
    case False
    have "unmask_rest mkey 0 data = unmask_rest mkey 0 (take 8 data) @ unmask_rest mkey 8 (drop 8 data)"
      using unmask_rest_append [of mkey 0 "take 8 data" "drop 8 data"] False by simp
    also have "\<dots> = map2 (XOR) (take 8 data) (mkey @ mkey) @ unmask big (drop 8 data) mkey"
      using 1 False unmask_chunk [of mkey "take 8 data"] unmask_rest_shift [of mkey 0] by simp
    also have "\<dots> = unmask big data mkey"
      using 1(2) False by (simp add: unmask.simps [of big data] ne_bytes_xor)
    finally show ?thesis ..
  qed (simp add: unmask.simps)
qed

section \<open>Frames as a client sends them\<close>

definition client_length :: "nat \<Rightarrow> bytes"
  where "client_length len =
    (if len < 126 then [0x80 OR word_of_nat len]
     else if len \<le> 65535 then (0x80 OR 126) # nat_be 2 len
     else (0x80 OR 127) # nat_be 8 len)"

definition client_frame :: "bytes \<Rightarrow> Frame \<Rightarrow> bytes"
  where "client_frame mkey f =
    ((if fin f then 0x80 else 0) OR opcode f) # client_length (length (payload f)) @
    mkey @ unmask_rest mkey 0 (payload f)"

definition frame_wf :: "Frame \<Rightarrow> bool"
  where "frame_wf f \<longleftrightarrow> opcode f < 16 \<and> length (payload f) < 2 ^ 64"

lemma first_byte:
  fixes op :: u8
  assumes "op < 16"
  shows "((if b then 0x80 else 0) OR op) AND 0x70 = 0" "((if b then 0x80 else 0) OR op) AND 0x0f = op"
    "((if b then 0x80 else 0) OR op) AND 0x80 \<noteq> 0 \<longleftrightarrow> b"
proof -
  have "unat op < 16" using assms by (simp add: word_less_nat_alt)
  then have "unat op \<in> set [0..<16]" by simp
  moreover have "op = word_of_nat (unat op)" by simp
  ultimately obtain n where "n \<in> set [0..<16]" "op = word_of_nat n" by blast
  then have "op \<in> {0, 1, 2, 3, 4, 5, 6, 7, 8, 9, 10, 11, 12, 13, 14, 15}"
    by (auto simp: upt_rec)
  then show "((if b then 0x80 else 0) OR op) AND 0x70 = 0" "((if b then 0x80 else 0) OR op) AND 0x0f = op"
    "((if b then 0x80 else 0) OR op) AND 0x80 \<noteq> 0 \<longleftrightarrow> b"
    by (cases b; auto)+
qed

lemma length_byte:
  assumes "len < 128"
  shows "(0x80 OR word_of_nat len :: u8) AND 0x80 \<noteq> 0" "(0x80 OR word_of_nat len :: u8) AND 0x7f = word_of_nat len"
proof -
  have "(0x80 OR word_of_nat len :: u8) AND 0x80 = 0x80"
    by (rule bit_word_eqI) (auto simp: bit_simps)
  then show "(0x80 OR word_of_nat len :: u8) AND 0x80 \<noteq> 0" by simp
  have "(word_of_nat len :: u8) AND 0x7f = take_bit 7 (word_of_nat len)"
    by (simp add: take_bit_eq_mask mask_eq_exp_minus_1)
  also have "\<dots> = word_of_nat len"
    using assms by (intro word_unat_eq_iff [THEN iffD2])
      (simp add: unsigned_take_bit_eq unat_byte_length take_bit_nat_eq_self)
  finally show "(0x80 OR word_of_nat len :: u8) AND 0x7f = word_of_nat len"
    by (simp add: bit.conj_disj_distrib2)
qed

lemma client_length_read:
  assumes "len < 2 ^ 64" "drop 1 buf = client_length len @ rest" "buf \<noteq> []"
  obtains b1 offset where "index_at buf 1 = Some b1" "b1 AND 0x80 \<noteq> 0"
    "frame_length buf (b1 AND 0x7f) = Some (Inr (len, offset))" "drop offset buf = rest"
    "offset = 1 + length (client_length len)"
proof -
  obtain b0 where b0: "buf = b0 # client_length len @ rest"
    using assms(2,3) by (cases buf) auto
  let ?offset = "1 + length (client_length len)"
  have drop: "drop ?offset buf = rest" by (simp add: b0)
  show ?thesis
  proof (cases "len < 126")
    case True
    then have "(word_of_nat len :: u8) \<noteq> 126" "(word_of_nat len :: u8) \<noteq> 127"
      using unat_byte_length [of len] by auto
    then have "frame_length buf (word_of_nat len) = Some (Inr (len, 2))"
      using True by (simp add: frame_length_def unat_byte_length)
    with True drop length_byte [of len] that show ?thesis by (simp add: b0 client_length_def)
  next
    case False
    show ?thesis
    proof (cases "len \<le> 65535")
      case True
      then have "slice buf 2 4 = Some (nat_be 2 len)"
        using False slice_drop [of 2 buf "nat_be 2 len" rest 4] by (simp add: b0 client_length_def)
      moreover have "be_nat (nat_be 2 len) = len" using True by (intro be_nat_nat_be) simp
      ultimately have "frame_length buf 126 = Some (Inr (len, 4))"
        using False True by (simp add: frame_length_def b0 client_length_def)
      with True False drop that show ?thesis by (simp add: b0 client_length_def)
    next
      case large: False
      then have "slice buf 2 10 = Some (nat_be 8 len)"
        using False slice_drop [of 2 buf "nat_be 8 len" rest 10] by (simp add: b0 client_length_def)
      moreover have "be_nat (nat_be 8 len) = len" using assms(1) by (intro be_nat_nat_be) simp
      ultimately have "frame_length buf 127 = Some (Inr (len, 10))"
        using False large by (simp add: frame_length_def b0 client_length_def)
      with large False drop that show ?thesis by (simp add: b0 client_length_def)
    qed
  qed
qed

lemma Reader_frame_client:
  assumes "frame_wf f" "length mkey = 4" "length (payload f) \<le> max_message r"
    and "buffer r = client_frame mkey f @ rest"
  shows "Reader_frame big r = Some (r\<lparr>buffer := rest, wanted := 0\<rparr>, Ok (Some f))"
proof -
  let ?len = "length (payload f)" and ?b0 = "(if fin f then 0x80 else 0) OR opcode f"
  let ?masked = "unmask_rest mkey 0 (payload f)"
  have buf: "drop 1 (buffer r) = client_length ?len @ mkey @ ?masked @ rest" "buffer r \<noteq> []"
    "index_at (buffer r) 0 = Some ?b0"
    by (simp_all add: assms(4) client_frame_def)
  obtain b1 offset where b1: "index_at (buffer r) 1 = Some b1" "b1 AND 0x80 \<noteq> 0"
      and known: "frame_length (buffer r) (b1 AND 0x7f) = Some (Inr (?len, offset))"
      and tail: "drop offset (buffer r) = mkey @ ?masked @ rest"
      and offset: "offset = 1 + length (client_length ?len)"
    using client_length_read [OF _ buf(1,2)] assms(1) unfolding frame_wf_def by blast
  have len: "length (buffer r) = offset + 4 + ?len + length rest"
    using assms(2) offset by (simp add: assms(4) client_frame_def)
  have "slice (buffer r) offset (offset + 4) = Some mkey"
    using slice_drop [OF tail] assms(2) len by simp
  moreover have "drop (offset + 4) (buffer r) = ?masked @ rest"
    by (metis add.commute append_eq_conv_conj assms(2) drop_drop tail)
  moreover from this have "slice (buffer r) (offset + 4) (offset + 4 + ?len) = Some ?masked"
    using slice_drop [of "offset + 4" "buffer r" ?masked rest] len by simp
  moreover from calculation(2) have "drop (offset + 4 + ?len) (buffer r) = rest"
    by (metis add.commute append_eq_conv_conj drop_drop length_unmask_rest)
  ultimately have "take_frame big r ?b0 ?len offset =
      Some (r\<lparr>buffer := rest, wanted := 0\<rparr>, f)"
    using assms(1,2) first_byte [of "opcode f" "fin f"]
    by (cases f) (simp add: take_frame_def unmask_bytewise unmask_rest_involution frame_wf_def)
  moreover have "\<not> length (buffer r) < 2" "?b0 AND 0x70 = 0"
    using len first_byte(1) assms(1) by (auto simp: frame_wf_def)
  ultimately show ?thesis
    using b1 known buf(3) assms(3) len
    by (simp add: Reader_frame_def del: index_at_Some)
qed

section \<open>No panic, and no message over the limit\<close>

lemma frame_length_no_panic [no_panic]: "frame_length buf short \<noteq> None"
  unfolding frame_length_def by (intro no_panic) auto

lemma take_frame_no_panic [no_panic]:
  "offset + 4 + len \<le> length (buffer r) \<Longrightarrow> take_frame big r b0 len offset \<noteq> None"
  unfolding take_frame_def by (intro no_panic) auto

lemma Reader_frame_no_panic [no_panic]: "Reader_frame big r \<noteq> None"
  unfolding Reader_frame_def
  by (intro no_panic) auto

lemma Reader_parse_no_panic [no_panic]: "Reader_parse big r \<noteq> None"
proof (induction big r rule: Reader_parse.induct)
  case (1 big r)
  show ?case
    by (subst Reader_parse.simps, intro no_panic) (use 1 in auto)
qed

lemma Reader_next_no_panic: "Reader_next big r io \<noteq> None"
proof (induction io arbitrary: r)
  case Nil
  show ?case
    by (subst Reader_next.simps, unfold list.case, intro no_panic)
next
  case (Cons chunk io)
  show ?case
    by (subst Reader_next.simps, unfold list.case, intro no_panic Cons)
qed

text \<open>What the reader guarantees about a message.\<close>

fun message_ok :: "nat \<Rightarrow> Message \<Rightarrow> bool" where
  "message_ok limit (MText s) \<longleftrightarrow> length s \<le> limit \<and> is_utf8 (as_bytes s)"
| "message_ok limit (MBinary data) \<longleftrightarrow> length data \<le> limit"
| "message_ok limit (MPing data) \<longleftrightarrow> length data \<le> 125"
| "message_ok limit (MPong data) \<longleftrightarrow> length data \<le> 125"
| "message_ok limit (MClose _) \<longleftrightarrow> True"

definition reader_inv :: "Reader \<Rightarrow> bool"
  where "reader_inv r \<longleftrightarrow> (case partial r of None \<Rightarrow> True | Some (_, data) \<Rightarrow> length data \<le> max_message r)"

lemma reader_inv_simps [simp]:
  "reader_inv (r\<lparr>wanted := n\<rparr>) = reader_inv r" "reader_inv (r\<lparr>partial := None\<rparr>)"
  "reader_inv (r\<lparr>partial := Some (t, data)\<rparr>) \<longleftrightarrow> length data \<le> max_message r"
  by (simp_all add: reader_inv_def split: option.split)

lemma reader_inv_cong: "partial q = partial r \<Longrightarrow> max_message q = max_message r \<Longrightarrow> reader_inv q = reader_inv r"
  by (simp add: reader_inv_def split: option.split)

lemma length_unmask: "length mkey = 4 \<Longrightarrow> length (unmask big data mkey) = length data"
  by (simp add: unmask_bytewise)

lemma take_frame_payload:
  "take_frame big r b0 len offset = Some (r', f) \<Longrightarrow> length (payload f) = len"
  by (auto simp: take_frame_def bind_eq_Some_conv length_unmask dest!: slice_SomeD)

lemma control_message_ok: "control_message f = Ok m \<Longrightarrow> message_ok limit m"
  by (auto simp: control_message_def split: if_splits list.splits)

lemma finish_message_ok: "finish_message (t, data) = Ok m \<Longrightarrow> length data \<le> limit \<Longrightarrow> message_ok limit m"
  by (auto simp: finish_message_def from_utf8_def split: if_splits)

lemma assemble_ok:
  "assemble limit f part = Ok (t, data) \<Longrightarrow> length (payload f) \<le> limit \<Longrightarrow> length data \<le> limit"
  by (auto simp: assemble_def split: if_splits option.splits)

lemma Reader_parse_ok:
  "Reader_parse big r = Some (r', res) \<Longrightarrow> reader_inv r \<Longrightarrow>
     reader_inv r' \<and> max_message r' = max_message r \<and>
     (\<forall>m. res = Ok (Some m) \<longrightarrow> message_ok (max_message r) m)"
proof (induction big r rule: Reader_parse.induct)
  case (1 big r)
  obtain q taken where frame: "Reader_frame big r = Some (q, taken)"
    using Reader_frame_no_panic [of big r] by fastforce
  from frame show ?case
  proof (cases rule: Reader_frame_cases)
    case (incomplete n)
    with 1(2,3) frame show ?thesis by (auto simp: Reader_parse.simps [of big r])
  next
    case (error e)
    with 1(2,3) frame show ?thesis by (auto simp: Reader_parse.simps [of big r])
  next
    case (frame b0 len offset f)
    have f: "length (payload f) \<le> max_message q" "max_message q = max_message r" "partial q = partial r"
      using frame take_frame_payload take_frame_SomeD by fastforce+
    show ?thesis
    proof (cases "CLOSE \<le> opcode f")
      case True
      have "reader_inv q" using reader_inv_cong [OF f(3,2)] 1(3) by simp
      with True 1(2) frame f \<open>Reader_frame big r = Some (q, taken)\<close> show ?thesis
        by (auto simp: Reader_parse.simps [of big r] result_bind_Inr dest: control_message_ok)
    next
      case False
      show ?thesis
      proof (cases "assemble (max_message q) f (partial q)")
        case (Inl e)
        with 1(2,3) frame f False \<open>Reader_frame big r = Some (q, taken)\<close> show ?thesis
          by (auto simp: Reader_parse.simps [of big r])
      next
        case (Inr m)
        obtain t data where m: "m = (t, data)" by fastforce
        have data: "length data \<le> max_message r" using assemble_ok Inr m f by metis
        show ?thesis
        proof (cases "fin f")
          case True
          with 1(2) frame f False Inr data \<open>Reader_frame big r = Some (q, taken)\<close> show ?thesis
            by (auto simp: Reader_parse.simps [of big r] result_bind_Inr m
                dest: finish_message_ok)
        next
          case unfinished: False
          have parse: "Reader_parse big (q\<lparr>partial := Some m\<rparr>) = Some (r', res)"
            using 1(2) frame f False Inr unfinished \<open>Reader_frame big r = Some (q, taken)\<close>
            by (simp add: Reader_parse.simps [of big r])
          have "reader_inv (q\<lparr>partial := Some m\<rparr>)" using data f by (simp add: m)
          with 1(1) [OF \<open>Reader_frame big r = Some (q, taken)\<close> refl frame(1) refl False Inr unfinished parse] f
          show ?thesis by simp
        qed
      qed
    qed
  qed
qed

section \<open>Messages do not depend on how bytes arrive\<close>

definition with_more :: "Reader \<Rightarrow> bytes \<Rightarrow> Reader"
  where "with_more r e = r\<lparr>buffer := buffer r @ e\<rparr>"

lemma with_more_simps [simp]:
  "buffer (with_more r e) = buffer r @ e" "max_message (with_more r e) = max_message r"
  "partial (with_more r e) = partial r" "wanted (with_more r e) = wanted r"
  "with_more (r\<lparr>partial := p\<rparr>) e = (with_more r e)\<lparr>partial := p\<rparr>"
  "with_more (r\<lparr>wanted := n\<rparr>) e = (with_more r e)\<lparr>wanted := n\<rparr>"
  "with_more r [] = r" "with_more (with_more r d) e = with_more r (d @ e)"
  by (simp_all add: with_more_def)

lemma Reader_frame_wanted: "Reader_frame big (r\<lparr>wanted := n\<rparr>) = Reader_frame big r"
  by (cases r) (simp add: Reader_frame_def take_frame_def cong: if_cong sum.case_cong)

lemma Reader_parse_wanted: "Reader_parse big (r\<lparr>wanted := n\<rparr>) = Reader_parse big r"
  by (simp add: Reader_parse.simps [of big r] Reader_parse.simps [of big "r\<lparr>wanted := n\<rparr>"] Reader_frame_wanted)

lemma frame_length_extend:
  "frame_length buf short = Some (Inr p) \<Longrightarrow> frame_length (buf @ e) short = Some (Inr p)"
  by (auto simp: frame_length_def slice_append split: if_splits)

lemma take_frame_extend:
  assumes "take_frame big r b0 len offset = Some (q, f)"
  shows "take_frame big (with_more r e) b0 len offset = Some (with_more q e, f)"
proof -
  have "offset + 4 + len \<le> length (buffer r)" using take_frame_SomeD [OF assms] by simp
  with assms show ?thesis
    by (auto simp: take_frame_def slice_append with_more_def bind_eq_Some_conv)
qed

text \<open>What a decided call makes of more bytes.\<close>

lemma Reader_frame_extend:
  assumes "Reader_frame big r = Some (q, taken)" "taken \<noteq> Ok None"
  shows "Reader_frame big (with_more r e) = Some (with_more q e, taken)"
proof (cases "length (buffer r) < 2")
  case True
  with assms show ?thesis by (simp add: Reader_frame_def)
next
  case False
  then have i: "0 < length (buffer r)" "1 < length (buffer r)" by auto
  then obtain b0 b1 where b: "index_at (buffer r) 0 = Some b0" "index_at (buffer r) 1 = Some b1"
    by (simp only: index_at_Some)
  then have b': "index_at (buffer r @ e) 0 = Some b0" "index_at (buffer r @ e) 1 = Some b1"
    using i by (simp_all only: index_at_append)
  have long: "\<not> length (buffer r @ e) < 2" using False by simp
  show ?thesis
  proof (cases "b0 AND 0x70 \<noteq> 0 \<or> b1 AND 0x80 = 0")
    case True
    with assms b b' False long show ?thesis
      by (auto simp: Reader_frame_def simp del: index_at_Some length_append split: if_splits)
  next
    case ok: False
    obtain known where k: "frame_length (buffer r) (b1 AND 0x7f) = Some known"
      using frame_length_no_panic by blast
    show ?thesis
    proof (cases known)
      case (Inl needed)
      with assms b False ok k show ?thesis
        by (auto simp: Reader_frame_def simp del: index_at_Some)
    next
      case (Inr p)
      obtain len offset where p: "p = (len, offset)" by fastforce
      have k': "frame_length (buffer r @ e) (b1 AND 0x7f) = Some (Inr (len, offset))"
        using frame_length_extend k Inr p by blast
      have step: "Reader_frame big s = (if max_message s < len
             then Some (s\<lparr>wanted := 2\<rparr>, Err (Ws_too_large ''frame too large''))
             else if length (buffer s) < offset + 4 + len
             then Some (s\<lparr>wanted := offset + 4 + len\<rparr>, Ok None)
             else map_option (apsnd (\<lambda>f. Ok (Some f))) (take_frame big s b0 len offset))"
        if "s = r \<or> s = with_more r e" for s
        using that b b' False long ok k k' Inr p
        by (auto simp: Reader_frame_def simp del: index_at_Some length_append)
      show ?thesis
      proof (cases "max_message r < len \<or> length (buffer r) < offset + 4 + len")
        case True
        with step [of r] step [of "with_more r e"] assms show ?thesis by (auto split: if_splits)
      next
        case complete: False
        then have "map_option (apsnd (\<lambda>f. Ok (Some f))) (take_frame big r b0 len offset) = Some (q, taken)"
          using step [of r] assms(1) by simp
        then obtain f where f: "take_frame big r b0 len offset = Some (q, f)" "taken = Ok (Some f)"
          by (auto simp: map_option_Some_iff apsnd_def map_prod_def split: prod.splits)
        have "\<not> length (buffer (with_more r e)) < offset + 4 + len" using complete by simp
        then show ?thesis
          using step [of "with_more r e"] complete take_frame_extend [OF f(1), of e] f(2) by auto
      qed
    qed
  qed
qed

lemma Reader_parse_extend:
  assumes "Reader_parse big r = Some (q, res)"
  shows "if res = Ok None then Reader_parse big (with_more r e) = Reader_parse big (with_more q e)
    else Reader_parse big (with_more r e) = Some (with_more q e, res)"
  using assms
proof (induction big r rule: Reader_parse.induct)
  case (1 big r)
  obtain s taken where frame: "Reader_frame big r = Some (s, taken)"
    using Reader_frame_no_panic [of big r] by fastforce
  show ?case
  proof (cases "taken = Ok None")
    case True
    from frame have "\<exists>n. s = r\<lparr>wanted := n\<rparr>" using True by (cases rule: Reader_frame_cases) auto
    moreover have "q = s" "res = Ok None" using 1(2) frame True by (auto simp: Reader_parse.simps [of big r])
    ultimately show ?thesis by (auto simp: Reader_parse_wanted)
  next
    case False
    note more = Reader_frame_extend [OF frame False, of e]
    show ?thesis
    proof (cases "\<exists>f m. taken = Ok (Some f) \<and> \<not> CLOSE \<le> opcode f \<and> \<not> fin f \<and>
        assemble (max_message s) f (partial s) = Ok m")
      case True
      then obtain f m where f: "taken = Ok (Some f)" "\<not> CLOSE \<le> opcode f" "\<not> fin f"
        "assemble (max_message s) f (partial s) = Ok m" by blast
      have "Reader_parse big r = Reader_parse big (s\<lparr>partial := Some m\<rparr>)"
        "Reader_parse big (with_more r e) = Reader_parse big (with_more (s\<lparr>partial := Some m\<rparr>) e)"
        using frame more f by (simp_all add: Reader_parse.simps [of big r] Reader_parse.simps [of big "with_more r e"])
      then show ?thesis using 1(1) [OF frame refl f(1) refl f(2,4,3)] 1(2) by (simp split: if_splits)
    next
      case final: False
      then show ?thesis
        using 1(2) frame more False
        by (auto simp: Reader_parse.simps [of big r] Reader_parse.simps [of big "with_more r e"] result_bind_def
            split: sum.splits option.splits if_splits)
    qed
  qed
qed

text \<open>Reading message by message from chunks, all of them nonempty, is parsing the
  concatenation.\<close>

lemma Reader_next_chunks:
  assumes "Reader_next big r io = Some (q, rest, res)" "list_all (\<lambda>chunk. chunk \<noteq> []) io"
  shows "if res = Ok None then rest = [] \<and> Reader_parse big (with_more r (concat io)) = Some (q, Ok None)
    else Reader_parse big (with_more r (concat io)) = Some (with_more q (concat rest), res)"
  using assms
proof (induction io arbitrary: r)
  case Nil
  obtain s parsed where "Reader_parse big r = Some (s, parsed)"
    using Reader_parse_no_panic [of big r] by fastforce
  with Nil show ?case
    by (auto simp: Reader_next.simps [of big r] split: sum.splits option.splits)
next
  case (Cons chunk io)
  obtain s parsed where parse: "Reader_parse big r = Some (s, parsed)"
    using Reader_parse_no_panic [of big r] by fastforce
  note more = Reader_parse_extend [OF parse, of "chunk @ concat io"]
  show ?case
  proof (cases "parsed = Ok None")
    case True
    have "Reader_next big (with_more s chunk) io = Some (q, rest, res)"
      using Cons.prems parse True by (simp add: Reader_next.simps [of big r] with_more_def)
    from Cons.IH [OF this] Cons.prems(2) more True show ?thesis by (simp split: if_splits)
  next
    case False
    with Cons.prems parse more show ?thesis
      by (auto simp: Reader_next.simps [of big r] split: sum.splits option.splits)
  qed
qed

section \<open>The write loop\<close>

lemma write_loop_prefix:
  "write_loop takes pending = (written, ok) \<Longrightarrow>
     (\<exists>rest. pending = written @ rest) \<and> (ok \<longleftrightarrow> written = pending)"
proof (induction takes pending arbitrary: written ok rule: write_loop.induct)
  case (3 n takes b pending)
  let ?p = "b # pending"
  show ?case
  proof (cases "n = 0")
    case False
    obtain w k where loop: "write_loop takes (drop n ?p) = (w, k)" by fastforce
    with 3 False have "written = take n ?p @ w" "ok = k" by auto
    moreover have "(\<exists>rest. drop n ?p = w @ rest) \<and> (k \<longleftrightarrow> w = drop n ?p)"
      using 3(1) [OF False loop] .
    ultimately show ?thesis
      by (metis append.assoc append_take_drop_id same_append_eq)
  qed (use 3(2) in auto)
qed auto

lemma write_loop_finishes:
  "list_all (\<lambda>n. 0 < n) takes \<Longrightarrow> length pending \<le> sum_list takes \<Longrightarrow> snd (write_loop takes pending)"
proof (induction takes pending rule: write_loop.induct)
  case (3 n takes b pending)
  then have "snd (write_loop takes (drop n (b # pending)))" by auto
  with 3 show ?case by (auto split: prod.split)
qed auto

lemma char_floor_le: "char_floor s i \<le> i"
  by (induction i) auto

lemma char_floor_boundary: "is_char_boundary s (char_floor s i)"
  by (induction i) (auto simp: is_char_boundary_def)

section \<open>Properties of the WebSocket\<close>

text \<open>Client frames are read back: whatever its opcode, final bit, masking key and length
  encoding, a frame a client sends is split off the front of the buffer as it was before masking,
  and the rest of the buffer stays.\<close>

theorem client_frame_read_back:
  assumes "frame_wf f" "length mkey = 4" "length (payload f) \<le> max_message r"
    and "buffer r = client_frame mkey f @ rest"
  shows "Reader_frame big r = Some (r\<lparr>buffer := rest, wanted := 0\<rparr>, Ok (Some f))"
  by (rule Reader_frame_client [OF assms])

theorem client_frame_read_back_witness:
  "Reader_frame False \<lparr>buffer = client_frame [1, 2, 3, 4] \<lparr>fin = True, opcode = 2, payload = [9, 8, 7]\<rparr> @ [5],
      wanted = 0, max_message = 100, partial = None\<rparr> =
   Some (\<lparr>buffer = [5], wanted = 0, max_message = 100, partial = None\<rparr>,
      Ok (Some \<lparr>fin = True, opcode = 2, payload = [9, 8, 7]\<rparr>))"
  using client_frame_read_back [of "\<lparr>fin = True, opcode = 2, payload = [9, 8, 7]\<rparr>" "[1, 2, 3, 4]"
      "\<lparr>buffer = client_frame [1, 2, 3, 4] \<lparr>fin = True, opcode = 2, payload = [9, 8, 7]\<rparr> @ [5],
        wanted = 0, max_message = 100, partial = None\<rparr>" "[5]" False]
  by (simp add: frame_wf_def word_less_nat_alt)

text \<open>Unmasking eight bytes at a time is unmasking byte by byte, on machines of either byte
  order, and masking twice is the identity.\<close>

theorem unmask_is_bytewise:
  assumes "length mkey = 4"
  shows "unmask big data mkey = map (\<lambda>i. data ! i XOR mkey ! (i mod 4)) [0..<length data] \<and>
    unmask big (unmask big' data mkey) mkey = data"
proof -
  have "unmask_rest mkey 0 data = map (\<lambda>i. data ! i XOR mkey ! (i mod 4)) [0..<length data]"
    by (rule nth_equalityI) (auto simp: nth_unmask_rest)
  moreover have "unmask big (unmask big' data mkey) mkey = data"
    using assms by (simp add: unmask_bytewise unmask_rest_involution)
  ultimately show ?thesis using assms by (simp add: unmask_bytewise)
qed

theorem unmask_is_bytewise_witness:
  "unmask True [10, 20, 30, 40, 50] [1, 2, 3, 4] =
     map (\<lambda>i. [10, 20, 30, 40, 50] ! i XOR [1, 2, 3, 4] ! (i mod 4)) [0..<length [10, 20, 30, 40, 50 :: u8]]"
  using unmask_is_bytewise [of "[1, 2, 3, 4]" True "[10, 20, 30, 40, 50]"] by simp

text \<open>C35. Reading is safe and independent of arrival: a reader always answers without panicking;
  from a reader whose partly assembled message is within the limit, the message it returns is
  within the limit (125 bytes for a control message) and text is UTF-8; and reading from nonempty
  chunks is parsing their concatenation, what is left over included.\<close>

theorem reader_safe_and_chunk_independent:
  assumes "reader_inv r" "list_all (\<lambda>chunk. chunk \<noteq> []) io"
  shows "\<exists>q rest res. Reader_next big r io = Some (q, rest, res) \<and>
    (\<forall>m. res = Ok (Some m) \<longrightarrow> message_ok (max_message r) m) \<and>
    (if res = Ok None then rest = [] \<and> Reader_parse big (with_more r (concat io)) = Some (q, Ok None)
     else Reader_parse big (with_more r (concat io)) = Some (with_more q (concat rest), res))"
proof -
  obtain q rest res where nxt: "Reader_next big r io = Some (q, rest, res)"
    using Reader_next_no_panic [of big r io] by (metis not_None_eq prod_cases3)
  note chunks = Reader_next_chunks [OF nxt assms(2)]
  have "reader_inv (with_more r (concat io))"
    using assms(1) reader_inv_cong [of "with_more r (concat io)" r] by simp
  then have "\<forall>m. res = Ok (Some m) \<longrightarrow> message_ok (max_message r) m"
    using chunks Reader_parse_ok [of big "with_more r (concat io)"] by (auto split: if_splits)
  with nxt chunks show ?thesis by blast
qed

theorem reader_safe_and_chunk_independent_witness:
  "\<exists>q rest res. Reader_next True (Reader_new 100) [[1], [2, 3]] = Some (q, rest, res)"
  using reader_safe_and_chunk_independent [of "Reader_new 100" "[[1], [2, 3]]" True]
  by (auto simp: reader_inv_def Reader_new_def)

text \<open>The writer sends whole frames: what reached the connection is always a prefix of the
  header, prefix and payload, all of it exactly when the write reports success, and success is
  certain when every write takes something and they take enough. A close frame's payload fits a
  control frame and its reason ends at a character boundary.\<close>

theorem writer_frames_whole:
  "(\<exists>rest. Writer_header op (length lead + length data) @ lead @ data =
      fst (Writer_frame takes op lead data) @ rest) \<and>
   (snd (Writer_frame takes op lead data) \<longleftrightarrow>
      fst (Writer_frame takes op lead data) = Writer_header op (length lead + length data) @ lead @ data) \<and>
   (list_all (\<lambda>n. 0 < n) takes \<and>
      length (Writer_header op (length lead + length data)) + length lead + length data \<le> sum_list takes
    \<longrightarrow> snd (Writer_frame takes op lead data)) \<and>
   (let n = char_floor reason (min (length reason) 123) in n \<le> 123 \<and> is_char_boundary reason n)"
  using write_loop_prefix [of takes "Writer_header op (length lead + length data) @ lead @ data"]
    write_loop_finishes [of takes "Writer_header op (length lead + length data) @ lead @ data"]
    char_floor_le [of reason "min (length reason) 123"] char_floor_boundary [of reason]
  by (auto simp: Writer_frame_def Let_def intro: prod.collapse [symmetric])

theorem writer_frames_whole_witness:
  "snd (Writer_frame [2, 1, 5] BINARY [1] [2, 3])"
proof -
  have "list_all (\<lambda>n. 0 < n) [2, 1, 5 :: nat] \<and>
      length (Writer_header BINARY (length [1 :: u8] + length [2, 3 :: u8])) + length [1 :: u8] +
      length [2, 3 :: u8] \<le> sum_list [2, 1, 5]"
    by (simp add: Writer_header_def)
  then show ?thesis
    using writer_frames_whole [of BINARY "[1]" "[2, 3]" "[2, 1, 5]" "[]"] by blast
qed

end
