(* ===== verification/Limits.thy ===== *)
theory Limits
  imports Addresses
begin

unbundle bit_operations_syntax

text \<open>
  Limits on the work a client can cause, from \<^verbatim>\<open>opentunnel-server/src/limits.rs\<close> and
  the rate table of \<^verbatim>\<open>store.rs\<close>: address ranges, the trusted proxies and the client
  address they vouch for, the key a client is counted under, GCRA rates kept in a
  table every machine shares, and the backlog check.

  Every SQL statement of \<^verbatim>\<open>take_rate\<close> is one atomic step on the table; what other
  machines do between them, and a statement that fails, is the function \<open>db\<close> from
  the number of the statement and the table to the table the statement meets.  The
  lemmas bound the requests allowed in any window of time, over all machines, and
  show that a client address is only taken from a trusted proxy.
\<close>

section \<open>Addresses and ranges\<close>

definition canonical :: "IpAddr \<Rightarrow> IpAddr"
  where "canonical ip =
    (case ip of
       IpV6 v6 \<Rightarrow> (case to_ipv4_mapped v6 of Some v4 \<Rightarrow> IpV4 v4 | None \<Rightarrow> IpV6 v6)
     | v4 \<Rightarrow> v4)"

record Cidr =
  network :: IpAddr
  net_prefix :: nat

text \<open>\<^verbatim>\<open>str::trim\<close> removes the Unicode white space from both ends, on UTF-8 text.\<close>

definition white_space :: "string list"
  where "white_space =
    map (\<lambda>n. [char_of n]) [9, 10, 11, 12, 13, 32 :: nat] @
    map (map (char_of :: nat \<Rightarrow> char))
      ([[0xc2, 0x85], [0xc2, 0xa0], [0xe1, 0x9a, 0x80]] @
       map (\<lambda>n. [0xe2, 0x80, 0x80 + n]) [0..<11] @
       [[0xe2, 0x80, 0xa8], [0xe2, 0x80, 0xa9], [0xe2, 0x80, 0xaf], [0xe2, 0x81, 0x9f], [0xe3, 0x80, 0x80]])"

fun first_some :: "('a \<Rightarrow> 'b option) \<Rightarrow> 'a list \<Rightarrow> 'b option" where
  "first_some f [] = None"
| "first_some f (x # xs) = (case f x of Some y \<Rightarrow> Some y | None \<Rightarrow> first_some f xs)"

fun trim_fuel :: "nat \<Rightarrow> string list \<Rightarrow> string \<Rightarrow> string" where
  "trim_fuel 0 ws s = s"
| "trim_fuel (Suc n) ws s =
     (case first_some (\<lambda>w. strip_prefix s w) ws of Some rest \<Rightarrow> trim_fuel n ws rest | None \<Rightarrow> s)"

definition trim_start :: "string \<Rightarrow> string"
  where "trim_start s = trim_fuel (length s) white_space s"

definition trim_end :: "string \<Rightarrow> string"
  where "trim_end s = rev (trim_fuel (length s) (map rev white_space) (rev s))"

definition trim :: "string \<Rightarrow> string"
  where "trim s = trim_end (trim_start s)"

datatype limit_error = Not_a_cidr string | Db_error

definition Cidr_parse :: "string \<Rightarrow> limit_error + Cidr"
  where "Cidr_parse text =
    (let text = trim text;
         (address, prefix_text) = (case split_once CHR ''/'' text of
           Some (address, prefix_text) \<Rightarrow> (address, Some prefix_text)
         | None \<Rightarrow> (text, None))
     in result_bind (ok_or (parse_ip address) (Not_a_cidr text)) (\<lambda>ip.
          let ip = canonical ip;
              bits = (case ip of IpV4 _ \<Rightarrow> 32 | IpV6 _ \<Rightarrow> 128)
          in result_bind
               (case prefix_text of
                  Some t \<Rightarrow> ok_or (parse_unsigned 255 t) (Not_a_cidr text)
                | None \<Rightarrow> Ok bits)
               (\<lambda>p. if bits < p then Err (Not_a_cidr text)
                     else Ok \<lparr>network = ip, net_prefix = p\<rparr>)))"

definition v4_mask :: "nat \<Rightarrow> u32"
  where "v4_mask p = (if 32 - p < 32 then push_bit (32 - p) (- 1) else 0)"

definition v6_mask :: "nat \<Rightarrow> u128"
  where "v6_mask p = (if 128 - p < 128 then push_bit (128 - p) (- 1) else 0)"

definition Cidr_contains :: "Cidr \<Rightarrow> IpAddr \<Rightarrow> bool"
  where "Cidr_contains c ip =
    (case (network c, canonical ip) of
       (IpV4 net, IpV4 ip) \<Rightarrow> net AND v4_mask (net_prefix c) = ip AND v4_mask (net_prefix c)
     | (IpV6 net, IpV6 ip) \<Rightarrow> net AND v6_mask (net_prefix c) = ip AND v6_mask (net_prefix c)
     | _ \<Rightarrow> False)"

definition CLOUDFLARE_RANGES :: "string list"
  where "CLOUDFLARE_RANGES =
    [''173.245.48.0/20'', ''103.21.244.0/22'', ''103.22.200.0/22'', ''103.31.4.0/22'',
     ''141.101.64.0/18'', ''108.162.192.0/18'', ''190.93.240.0/20'', ''188.114.96.0/20'',
     ''197.234.240.0/22'', ''198.41.128.0/17'', ''162.158.0.0/15'', ''104.16.0.0/13'',
     ''104.24.0.0/14'', ''172.64.0.0/13'', ''131.0.72.0/22'', ''2400:cb00::/32'',
     ''2606:4700::/32'', ''2803:f800::/32'', ''2405:b500::/32'', ''2405:8100::/32'',
     ''2a06:98c0::/29'', ''2c0f:f248::/32'']"

fun parse_all :: "string list \<Rightarrow> limit_error + Cidr list" where
  "parse_all [] = Ok []"
| "parse_all (r # ranges) =
     result_bind (Cidr_parse r) (\<lambda>c. result_bind (parse_all ranges) (\<lambda>cs. Ok (c # cs)))"

definition TrustedProxies_parse :: "string list \<Rightarrow> limit_error + Cidr list"
  where "TrustedProxies_parse ranges =
    (let ranges = filter (\<lambda>r. r \<noteq> []) (map trim ranges)
     in if ranges = [] then parse_all CLOUDFLARE_RANGES
        else if ranges = [''off''] then Ok []
        else parse_all ranges)"

definition TrustedProxies_contains :: "Cidr list \<Rightarrow> IpAddr \<Rightarrow> bool"
  where "TrustedProxies_contains proxies ip \<longleftrightarrow> list_ex (\<lambda>c. Cidr_contains c ip) proxies"

text \<open>\<open>client_header\<close> is the text of the \<^verbatim>\<open>CF-Connecting-IP\<close> header, if the request has
  one that is text.\<close>

definition TrustedProxies_client :: "Cidr list \<Rightarrow> IpAddr \<Rightarrow> string option \<Rightarrow> IpAddr"
  where "TrustedProxies_client proxies source client_header =
    (let source = canonical source in
     if \<not> TrustedProxies_contains proxies source then source
     else case Option.bind client_header (\<lambda>t. parse_ip (trim t)) of
       Some ip \<Rightarrow> canonical ip
     | None \<Rightarrow> source)"

definition client_key :: "IpAddr \<Rightarrow> string"
  where "client_key ip =
    (case canonical ip of
       IpV4 v4 \<Rightarrow> show_ipv4 v4
     | IpV6 v6 \<Rightarrow> show_ipv6 (v6 AND push_bit 64 (- 1)) @ ''/64'')"

section \<open>Rates\<close>

record Rate =
  interval_ms :: nat
  tolerance_ms :: nat

definition Rate_new :: "nat \<Rightarrow> nat \<Rightarrow> nat \<Rightarrow> Rate option"
  where "Rate_new count period burst =
    (if count = 0 then None
     else let interval = max (period div count) 1
          in Some \<lparr>interval_ms = interval, tolerance_ms = interval * (max burst 1 - 1)\<rparr>)"

datatype Verdict = Allowed | Limited nat

type_synonym rates = "string \<Rightarrow> int option"

text \<open>The three statements: the conditional update, the insert (refused when the row exists),
  and the read of the row.\<close>

definition update_rate :: "string \<Rightarrow> int \<Rightarrow> Rate \<Rightarrow> rates \<Rightarrow> (rates \<times> nat)"
  where "update_rate name now rate t =
    (case t name of
       Some tat \<Rightarrow>
         if max tat now \<le> now + int (tolerance_ms rate)
         then (t(name \<mapsto> max tat now + int (interval_ms rate)), 1) else (t, 0)
     | None \<Rightarrow> (t, 0))"

definition insert_rate :: "string \<Rightarrow> int \<Rightarrow> Rate \<Rightarrow> rates \<Rightarrow> rates option"
  where "insert_rate name now rate t =
    (case t name of None \<Rightarrow> Some (t(name \<mapsto> now + int (interval_ms rate))) | Some _ \<Rightarrow> None)"

fun take_rate_tries :: "nat \<Rightarrow> (nat \<Rightarrow> rates \<Rightarrow> rates option) \<Rightarrow> nat \<Rightarrow> string \<Rightarrow> int \<Rightarrow> Rate \<Rightarrow> rates
    \<Rightarrow> rates \<times> (limit_error + Verdict)" where
  "take_rate_tries 0 db k name now rate t =
     (case db k t of
        None \<Rightarrow> (t, Err Db_error)
      | Some t \<Rightarrow>
          (t, Ok (Limited (nat (max 1 (case t name of
             Some tat \<Rightarrow> tat - int (tolerance_ms rate) - now | None \<Rightarrow> 0))))))"
| "take_rate_tries (Suc n) db k name now rate t =
     (case db k t of
        None \<Rightarrow> (t, Err Db_error)
      | Some t \<Rightarrow>
          (case update_rate name now rate t of (t, affected) \<Rightarrow>
           if affected = 1 then (t, Ok Allowed)
           else
             (case db (Suc k) t of
                None \<Rightarrow> (t, Err Db_error)
              | Some t \<Rightarrow>
                  (case insert_rate name now rate t of
                     Some t \<Rightarrow> (t, Ok Allowed)
                   | None \<Rightarrow> take_rate_tries n db (k + 2) name now rate t))))"

definition take_rate :: "(nat \<Rightarrow> rates \<Rightarrow> rates option) \<Rightarrow> string \<Rightarrow> int \<Rightarrow> Rate \<Rightarrow> rates
    \<Rightarrow> rates \<times> (limit_error + Verdict)"
  where "take_rate db name now rate t = take_rate_tries 2 db 0 name now rate t"

text \<open>The statement deletes at most 10000 rows; which ones is up to the database, so the rows it
  picks are an argument.\<close>

definition prune_rate_limits :: "string set \<Rightarrow> int \<Rightarrow> rates \<Rightarrow> rates"
  where "prune_rate_limits picked now t =
    (\<lambda>name. case t name of
       Some tat \<Rightarrow> if name \<in> picked \<and> tat < now then None else Some tat
     | None \<Rightarrow> None)"

section \<open>The limits of the server\<close>

record Limits =
  proxies :: "Cidr list"
  create_rate :: "Rate option"
  issuance_rate :: "Rate option"
  backlog_limit :: nat
  backlog :: "(nat \<times> nat) option"

definition BACKLOG_TTL_MS :: nat where "BACKLOG_TTL_MS = 5000"
definition HOUR_MS :: nat where "HOUR_MS = 60 * 60 * 1000"
definition DAY_MS :: nat where "DAY_MS = 24 * HOUR_MS"

definition Limits_take :: "(nat \<Rightarrow> rates \<Rightarrow> rates option) \<Rightarrow> Rate option \<Rightarrow> string \<Rightarrow> int \<Rightarrow> rates
    \<Rightarrow> rates \<times> (limit_error + Verdict)"
  where "Limits_take db rate key now t =
    (case rate of None \<Rightarrow> (t, Ok Allowed) | Some rate \<Rightarrow> take_rate db key now rate t)"

definition Limits_create :: "(nat \<Rightarrow> rates \<Rightarrow> rates option) \<Rightarrow> Limits \<Rightarrow> IpAddr \<Rightarrow> int \<Rightarrow> rates
    \<Rightarrow> rates \<times> (limit_error + Verdict)"
  where "Limits_create db l client now t =
    Limits_take db (create_rate l) (''create:'' @ client_key client) now t"

definition Limits_issuance :: "(nat \<Rightarrow> rates \<Rightarrow> rates option) \<Rightarrow> Limits \<Rightarrow> string \<Rightarrow> int \<Rightarrow> rates
    \<Rightarrow> rates \<times> (limit_error + Verdict)"
  where "Limits_issuance db l tunnel now t =
    Limits_take db (issuance_rate l) (''issue:'' @ tunnel) now t"

text \<open>\<open>pending\<close> is what counting the pending jobs returns now, \<^const>\<open>None\<close> when it fails.\<close>

definition Limits_backlogged :: "Limits \<Rightarrow> nat \<Rightarrow> nat option \<Rightarrow> Limits \<times> bool"
  where "Limits_backlogged l now pending =
    (if backlog_limit l = 0 then (l, False)
     else case backlog l of
       Some (count, at) \<Rightarrow>
         if now - at < BACKLOG_TTL_MS then (l, backlog_limit l < count)
         else (case pending of
             Some count \<Rightarrow> (l\<lparr>backlog := Some (count, now)\<rparr>, backlog_limit l < count)
           | None \<Rightarrow> (l, False))
     | None \<Rightarrow>
         (case pending of
             Some count \<Rightarrow> (l\<lparr>backlog := Some (count, now)\<rparr>, backlog_limit l < count)
           | None \<Rightarrow> (l, False)))"

section \<open>How many requests a rate allows\<close>

text \<open>Runs of the table of one key, over all machines: \<open>allowed\<close> are the times of the
  statements that took a request, \<open>now\<close> the time so far.  Anything that leaves the row of the
  key alone may happen in between.\<close>

inductive gcra :: "Rate \<Rightarrow> string \<Rightarrow> int list \<Rightarrow> int \<Rightarrow> rates \<Rightarrow> bool" for rate name where
  start: "t name = None \<Longrightarrow> gcra rate name [] now t"
| update: "\<lbrakk>gcra rate name allowed now t; now \<le> now'; update_rate name now' rate t = (t', 1)\<rbrakk>
    \<Longrightarrow> gcra rate name (allowed @ [now']) now' t'"
| insert: "\<lbrakk>gcra rate name allowed now t; now \<le> now'; insert_rate name now' rate t = Some t'\<rbrakk>
    \<Longrightarrow> gcra rate name (allowed @ [now']) now' t'"
| prune: "\<lbrakk>gcra rate name allowed now t; now \<le> now'\<rbrakk>
    \<Longrightarrow> gcra rate name allowed now' (prune_rate_limits picked now' t)"
| other: "\<lbrakk>gcra rate name allowed now t; now \<le> now'; t' name = t name\<rbrakk> \<Longrightarrow> gcra rate name allowed now' t'"

text \<open>The time the budget of the key is full again, never in the past.\<close>

definition full_again :: "string \<Rightarrow> int \<Rightarrow> rates \<Rightarrow> int"
  where "full_again name now t = (case t name of Some tat \<Rightarrow> max tat now | None \<Rightarrow> now)"

definition gcra_inv :: "Rate \<Rightarrow> string \<Rightarrow> int list \<Rightarrow> int \<Rightarrow> rates \<Rightarrow> bool"
  where "gcra_inv rate name allowed now t \<longleftrightarrow>
    (\<forall>i < length allowed. allowed ! i + int (length allowed - i) * int (interval_ms rate)
       \<le> full_again name now t) \<and>
    (\<forall>i j. i \<le> j \<and> j < length allowed \<longrightarrow>
       int (j - i) * int (interval_ms rate) \<le> allowed ! j - allowed ! i + int (tolerance_ms rate))"

lemma full_again_mono: "now \<le> now' \<Longrightarrow> full_again name now t \<le> full_again name now' t"
  by (auto simp: full_again_def split: option.split)

lemma full_again_prune:
  "full_again name now (prune_rate_limits picked now t) = full_again name now t"
  by (auto simp: full_again_def prune_rate_limits_def split: option.split)

text \<open>One more request taken: the row moves on by an interval from a point within the tolerance.\<close>

lemma gcra_inv_take:
  assumes inv: "gcra_inv rate name allowed now t" and le: "full_again name now t \<le> full_again name now' t"
    and ok: "full_again name now' t \<le> now' + int (tolerance_ms rate)"
    and t': "full_again name now' t + int (interval_ms rate) = full_again name now' t'"
    and now: "now' \<le> full_again name now' t"
  shows "gcra_inv rate name (allowed @ [now']) now' t'"
proof -
  let ?n = "length allowed" and ?I = "int (interval_ms rate)"
  have old: "allowed ! i + int (?n - i) * ?I \<le> full_again name now' t" if "i < ?n" for i
    using inv le that unfolding gcra_inv_def by (meson order_trans)
  have "(allowed @ [now']) ! i + int (Suc ?n - i) * ?I \<le> full_again name now' t'" if "i < Suc ?n" for i
  proof (cases "i < ?n")
    case True
    then have "int (Suc ?n - i) * ?I = int (?n - i) * ?I + ?I" by (simp add: Suc_diff_le algebra_simps)
    with old [OF True] t' True show ?thesis by (simp add: nth_append)
  next
    case False
    with that have "i = ?n" by simp
    with t' now show ?thesis by simp
  qed
  moreover have "int (j - i) * ?I \<le> (allowed @ [now']) ! j - (allowed @ [now']) ! i + int (tolerance_ms rate)"
    if "i \<le> j" "j < Suc ?n" for i j
  proof (cases "j < ?n")
    case True
    with inv that show ?thesis by (simp add: gcra_inv_def nth_append)
  next
    case False
    with that have j: "j = ?n" by simp
    show ?thesis
    proof (cases "i < ?n")
      case True
      with old [OF True] ok j show ?thesis by (simp add: nth_append)
    qed (use that j in simp)
  qed
  ultimately show ?thesis by (simp add: gcra_inv_def)
qed

lemma gcra_invariant: "gcra rate name allowed now t \<Longrightarrow> gcra_inv rate name allowed now t"
proof (induction rule: gcra.induct)
  case (start t now)
  then show ?case by (simp add: gcra_inv_def)
next
  case (update allowed now t now' t')
  then show ?case
    by (intro gcra_inv_take [OF update.IH full_again_mono])
       (auto simp: update_rate_def full_again_def split: option.splits if_splits)
next
  case (insert allowed now t now' t')
  then show ?case
    by (intro gcra_inv_take [OF insert.IH full_again_mono])
       (auto simp: insert_rate_def full_again_def split: option.splits)
next
  case (prune allowed now t now' picked)
  then show ?case
    using full_again_mono [OF prune(2), of name t]
    by (force simp: gcra_inv_def full_again_prune)
next
  case (other allowed now t now' t')
  moreover from this have "full_again name now t \<le> full_again name now' t'"
    using full_again_mono [of now now' name t] by (simp add: full_again_def)
  ultimately show ?case by (force simp: gcra_inv_def)
qed

text \<open>A call of \<^verbatim>\<open>take_rate\<close> among others: it adds one taken request exactly when it is
  allowed, if what happens between its statements is itself such a run.\<close>

lemma take_rate_tries_gcra:
  assumes env: "\<And>k a t t'. gcra rate name a now t \<Longrightarrow> db k t = Some t' \<Longrightarrow> \<exists>more. gcra rate name (a @ more) now t'"
    and "gcra rate name allowed now t" "take_rate_tries n db k name now rate t = (t', res)"
  shows "\<exists>more. gcra rate name (allowed @ more @ (if res = Ok Allowed then [now] else [])) now t'"
  using assms(2,3)
proof (induction n arbitrary: k t allowed)
  case 0
  show ?case
  proof (cases "db k t")
    case None
    with 0 show ?thesis by (auto intro: exI [of _ "[]"])
  next
    case (Some t1)
    with env [OF 0(1)] 0(2) show ?thesis by auto
  qed
next
  case (Suc n)
  show ?case
  proof (cases "db k t")
    case None
    with Suc.prems show ?thesis by (auto intro: exI [of _ "[]"])
  next
    case (Some t1)
    then obtain m1 where m1: "gcra rate name (allowed @ m1) now t1" using env [OF Suc.prems(1)] by blast
    obtain t2 affected where up: "update_rate name now rate t1 = (t2, affected)" by fastforce
    show ?thesis
    proof (cases "affected = 1")
      case True
      then have "gcra rate name ((allowed @ m1) @ [now]) now t2"
        using gcra.update [OF m1 order_refl] up by simp
      with Suc.prems(2) Some up True show ?thesis by auto
    next
      case False
      then have t2: "t2 = t1" using up by (auto simp: update_rate_def split: option.splits if_splits)
      show ?thesis
      proof (cases "db (Suc k) t1")
        case None
        with Suc.prems(2) Some up False t2 m1 show ?thesis by auto
      next
        case db2: (Some t3)
        then obtain m2 where m2: "gcra rate name ((allowed @ m1) @ m2) now t3" using env [OF m1] by blast
        show ?thesis
        proof (cases "insert_rate name now rate t3")
          case (Some t4)
          then have "gcra rate name (((allowed @ m1) @ m2) @ [now]) now t4"
            using gcra.insert [OF m2 order_refl] by simp
          moreover have "t' = t4" "res = Ok Allowed"
            using Suc.prems(2) \<open>db k t = Some t1\<close> up False t2 db2 Some by auto
          ultimately show ?thesis by (auto intro: exI [of _ "m1 @ m2"])
        next
          case None
          then have "take_rate_tries n db (k + 2) name now rate t3 = (t', res)"
            using Suc.prems(2) \<open>db k t = Some t1\<close> up False t2 db2 by simp
          then obtain m3 where
            "gcra rate name (((allowed @ m1) @ m2) @ m3 @ (if res = Ok Allowed then [now] else [])) now t'"
            using Suc.IH [OF m2] by blast
          then show ?thesis by (intro exI [of _ "m1 @ m2 @ m3"]) simp
        qed
      qed
    qed
  qed
qed

section \<open>Ranges and keys\<close>

lemma and_high_mask: "(a :: 'a :: len word) AND NOT (mask k) = push_bit k (drop_bit k a)"
  by (rule bit_word_eqI) (auto simp: bit_simps)

lemma high_mask_eq_iff:
  "(a :: 'a :: len word) AND NOT (mask k) = b AND NOT (mask k) \<longleftrightarrow> drop_bit k a = drop_bit k b"
proof -
  have "drop_bit k (push_bit k (drop_bit k c)) = drop_bit k c" for c :: "'a word"
    by (rule bit_word_eqI) (auto simp: bit_simps dest: bit_imp_le_length)
  then show ?thesis unfolding and_high_mask by metis
qed

text \<open>The leading bits of two addresses agree.\<close>

definition same_network :: "nat \<Rightarrow> IpAddr \<Rightarrow> IpAddr \<Rightarrow> bool"
  where "same_network p a b =
    (case (a, b) of
       (IpV4 x, IpV4 y) \<Rightarrow> drop_bit (32 - p) x = drop_bit (32 - p) y
     | (IpV6 x, IpV6 y) \<Rightarrow> drop_bit (128 - p) x = drop_bit (128 - p) y
     | _ \<Rightarrow> False)"

lemma v4_mask_eq: "v4_mask p = NOT (mask (32 - p))"
  by (cases "p = 0") (auto simp: v4_mask_def bit_simps intro!: bit_word_eqI)

lemma v6_mask_eq: "v6_mask p = NOT (mask (128 - p))"
  by (cases "p = 0") (auto simp: v6_mask_def bit_simps intro!: bit_word_eqI)

lemma Cidr_contains_iff: "Cidr_contains c ip \<longleftrightarrow> same_network (net_prefix c) (network c) (canonical ip)"
  by (auto simp: Cidr_contains_def same_network_def v4_mask_eq v6_mask_eq high_mask_eq_iff
      split: IpAddr.split)

lemma canonical_idem [simp]: "canonical (canonical ip) = canonical ip"
  by (auto simp: canonical_def split: IpAddr.split option.split)

lemma show_ipv4_no_slash: "CHR ''/'' \<notin> set (show_ipv4 a)"
  using show_ipv4_chars by (force simp: is_ascii_digit_def)

lemma show_ipv4_inject: "show_ipv4 a = show_ipv4 b \<longleftrightarrow> a = b"
  by (metis option.inject parse_ipv4_show)

lemma show_ipv6_inject: "show_ipv6 a = show_ipv6 b \<longleftrightarrow> a = b"
  by (metis option.inject parse_ipv6_show)

lemma client_key_iff: "client_key a = client_key b \<longleftrightarrow>
    (case (canonical a, canonical b) of
       (IpV4 x, IpV4 y) \<Rightarrow> x = y
     | (IpV6 x, IpV6 y) \<Rightarrow> drop_bit 64 x = drop_bit 64 y
     | _ \<Rightarrow> False)"
proof -
  have "show_ipv4 x \<noteq> y @ ''/64''" for x y
    using show_ipv4_no_slash [of x] by (metis in_set_conv_decomp)
  moreover have "x AND push_bit 64 (- 1) = y AND push_bit 64 (- 1) \<longleftrightarrow> drop_bit 64 x = drop_bit 64 y" for x y :: u128
    unfolding push_bit_minus_one_eq_not_mask by (rule high_mask_eq_iff)
  ultimately show ?thesis
    unfolding client_key_def
    by (cases "canonical a"; cases "canonical b")
       (auto simp: show_ipv4_inject show_ipv6_inject simp del: push_bit_minus_one_eq_not_mask dest: sym)
qed

lemma Cidr_parse_wf:
  "Cidr_parse t = Ok c \<Longrightarrow>
     canonical (network c) = network c \<and>
     net_prefix c \<le> (case network c of IpV4 _ \<Rightarrow> 32 | IpV6 _ \<Rightarrow> 128)"
  by (auto simp: Cidr_parse_def Let_def result_bind_Inr split: if_splits prod.splits)

lemma parse_all_wf: "parse_all ranges = Ok cs \<Longrightarrow> c \<in> set cs \<Longrightarrow> \<exists>t. Cidr_parse t = Ok c"
  by (induction ranges arbitrary: cs) (auto simp: result_bind_Inr)

section \<open>Properties of the limits\<close>

text \<open>C36. A rate holds over all machines: in any run of the shared table, between the requests
  number \<open>i\<close> and \<open>j\<close> of one key at most the burst and one per interval elapsed are allowed, for
  the rate made of \<open>count\<close> per \<open>period\<close>.\<close>

theorem rate_limits_requests:
  assumes "Rate_new count period burst = Some rate" "gcra rate name allowed now t"
    and "i \<le> j" "j < length allowed"
  shows "int (j - i) + 1 \<le> int (max burst 1) + (allowed ! j - allowed ! i) div int (interval_ms rate)"
proof -
  let ?I = "int (interval_ms rate)" and ?d = "allowed ! j - allowed ! i"
  have rate: "0 < ?I" "tolerance_ms rate = interval_ms rate * (max burst 1 - 1)"
    using assms(1) by (auto simp: Rate_new_def Let_def split: if_splits)
  have "int (j - i) * ?I \<le> ?d + int (tolerance_ms rate)"
    using gcra_invariant [OF assms(2)] assms(3,4) by (simp add: gcra_inv_def)
  then have "(int (j - i) - (int (max burst 1) - 1)) * ?I \<le> ?d"
    by (simp add: rate(2) algebra_simps of_nat_diff)
  then have "int (j - i) - (int (max burst 1) - 1) \<le> ?d div ?I"
    by (metis rate(1) nonzero_mult_div_cancel_right order_less_irrefl zdiv_mono1)
  then show ?thesis by simp
qed

theorem rate_limits_requests_witness:
  "int (1 - 0) + 1 \<le> int (max 2 1) + ([0, 0] ! 1 - [0, 0] ! 0) div int (interval_ms \<lparr>interval_ms = 100, tolerance_ms = 100\<rparr>)"
proof -
  let ?rate = "\<lparr>interval_ms = 100, tolerance_ms = 100\<rparr>"
  have "gcra ?rate ''k'' [] 0 Map.empty" by (rule gcra.start) simp
  then have "gcra ?rate ''k'' ([] @ [0]) 0 (Map.empty(''k'' \<mapsto> 100))"
    by (rule gcra.insert) (simp_all add: insert_rate_def)
  then have "gcra ?rate ''k'' (([] @ [0]) @ [0]) 0 (Map.empty(''k'' \<mapsto> 200))"
    by (rule gcra.update) (simp_all add: update_rate_def)
  then show ?thesis
    using rate_limits_requests [of 10 1000 2 ?rate "''k''" "[0, 0]" 0 _ 0 1] by (simp add: Rate_new_def)
qed

text \<open>A call takes from the shared budget exactly when it says so: whatever other machines
  run between its statements, a call that is allowed adds one taken request to the run of the
  table, and one that is limited or fails adds none.\<close>

theorem take_rate_takes_once:
  assumes "\<And>k a t t'. gcra rate name a now t \<Longrightarrow> db k t = Some t' \<Longrightarrow> \<exists>more. gcra rate name (a @ more) now t'"
    and "gcra rate name allowed now t" "take_rate db name now rate t = (t', res)"
  shows "\<exists>more. gcra rate name (allowed @ more @ (if res = Ok Allowed then [now] else [])) now t'"
  by (rule take_rate_tries_gcra [OF assms(1,2) assms(3) [unfolded take_rate_def]])

theorem take_rate_takes_once_witness:
  "\<exists>more. gcra \<lparr>interval_ms = 100, tolerance_ms = 0\<rparr> ''k'' ([] @ more @ [5]) 5 (Map.empty(''k'' \<mapsto> 105))"
proof -
  let ?rate = "\<lparr>interval_ms = 100, tolerance_ms = 0\<rparr>"
  have "take_rate (\<lambda>k t. Some t) ''k'' 5 ?rate Map.empty = (Map.empty(''k'' \<mapsto> 105), Ok Allowed)"
    by (simp add: take_rate_def numeral_2_eq_2 update_rate_def insert_rate_def)
  moreover have "gcra ?rate ''k'' [] 5 Map.empty" by (rule gcra.start) simp
  moreover have "\<exists>more. gcra ?rate ''k'' (a @ more) 5 t'" if "gcra ?rate ''k'' a 5 t" "Some t = Some t'" for a t t'
    using that by (intro exI [of _ "[]"]) simp
  ultimately show ?thesis
    using take_rate_takes_once [of ?rate "''k''" 5 "\<lambda>k t. Some t" "[]" Map.empty "Map.empty(''k'' \<mapsto> 105)" "Ok Allowed"]
    by simp
qed

text \<open>C21. A limited caller is told the right time: when nothing interferes, a request refused
  with a wait of \<open>r\<close> milliseconds leaves the table as it was, is allowed after exactly that wait and
  refused at any time before.\<close>

theorem retry_after_exact:
  assumes "take_rate (\<lambda>_ t. Some t) name now rate t = (t', Ok (Limited r))"
  shows "t' = t \<and> 0 < r \<and>
    snd (take_rate (\<lambda>_ t. Some t) name (now + int r) rate t) = Ok Allowed \<and>
    (now \<le> x \<and> x < now + int r \<longrightarrow> snd (take_rate (\<lambda>_ t. Some t) name x rate t) \<noteq> Ok Allowed)"
proof (cases "t name")
  case None
  with assms show ?thesis
    by (simp add: take_rate_def numeral_2_eq_2 update_rate_def insert_rate_def)
next
  case (Some tat)
  have allowed: "snd (take_rate (\<lambda>_ t. Some t) name y rate t) = Ok Allowed \<longleftrightarrow>
      max tat y \<le> y + int (tolerance_ms rate)" for y
    using Some by (auto simp: take_rate_def numeral_2_eq_2 update_rate_def insert_rate_def)
  have "t' = t \<and> \<not> max tat now \<le> now + int (tolerance_ms rate) \<and>
      r = nat (max 1 (tat - int (tolerance_ms rate) - now))"
    using assms Some
    by (auto simp: take_rate_def numeral_2_eq_2 update_rate_def insert_rate_def split: if_splits)
  then show ?thesis unfolding allowed by (auto simp: max_def split: if_splits)
qed

theorem retry_after_exact_witness:
  "snd (take_rate (\<lambda>_ t. Some t) ''k'' (5 + int 95) \<lparr>interval_ms = 100, tolerance_ms = 0\<rparr>
     (Map.empty(''k'' \<mapsto> 100))) = Ok Allowed"
proof -
  have "take_rate (\<lambda>_ t. Some t) ''k'' 5 \<lparr>interval_ms = 100, tolerance_ms = 0\<rparr> (Map.empty(''k'' \<mapsto> 100)) =
      (Map.empty(''k'' \<mapsto> 100), Ok (Limited 95))"
    by (simp add: take_rate_def numeral_2_eq_2 update_rate_def insert_rate_def)
  then show ?thesis using retry_after_exact by blast
qed

text \<open>The address a client is counted under cannot be forged: unless the connection comes
  from a range of the trusted proxies (its leading bits agree with the range's network), the
  client is the connection's own address whatever the header says; and two clients share a
  budget exactly when they are the same IPv4 address or in the same IPv6 /64.\<close>

theorem client_identity_sound:
  "((\<forall>c\<in>set ps. \<not> same_network (net_prefix c) (network c) (canonical source)) \<longrightarrow>
     TrustedProxies_client ps source client_header = canonical source) \<and>
   canonical (TrustedProxies_client ps source client_header) = TrustedProxies_client ps source client_header \<and>
   (client_key a = client_key b \<longleftrightarrow>
     (case (canonical a, canonical b) of
        (IpV4 x, IpV4 y) \<Rightarrow> x = y
      | (IpV6 x, IpV6 y) \<Rightarrow> drop_bit 64 x = drop_bit 64 y
      | _ \<Rightarrow> False))"
  by (auto simp: TrustedProxies_client_def TrustedProxies_contains_def Let_def list_ex_iff
      Cidr_contains_iff client_key_iff split: option.split)

theorem client_identity_sound_witness:
  "TrustedProxies_client [\<lparr>network = IpV4 0x0a000000, net_prefix = 8\<rparr>] (IpV4 0x0b000001) (Some ''1.2.3.4'')
     = IpV4 0x0b000001"
proof -
  have "\<forall>c\<in>set [\<lparr>network = IpV4 0x0a000000, net_prefix = 8\<rparr>].
      \<not> same_network (net_prefix c) (network c) (canonical (IpV4 0x0b000001))"
    by (simp add: same_network_def canonical_def)
  then show ?thesis
    using client_identity_sound [of "[\<lparr>network = IpV4 0x0a000000, net_prefix = 8\<rparr>]" "IpV4 0x0b000001"
        "Some ''1.2.3.4''" undefined undefined]
    by (simp add: canonical_def)
qed

end
