(* ===== verification/Retry.thy ===== *)
theory Retry
  imports Limits
begin

text \<open>
  When failed work is tried again: the classification and backoff of issuance
  attempts (\<^verbatim>\<open>opentunnel-server/src/retry.rs\<close>), the retries of API requests
  (\<^verbatim>\<open>opentunnel/src/protocol/api.rs\<close>), the reconnect backoff of the client
  (\<^verbatim>\<open>opentunnel/src/tunnel.rs\<close>) and the CA cool-down every machine shares
  (\<^verbatim>\<open>opentunnel-server/src/jobs.rs\<close>).

  The random value of \<^verbatim>\<open>jitter()\<close> is a 32-bit number divided by 2 to the 32; the
  model takes the number.  Half a delay is below 2 to the 21, so the product in floating
  point is below 2 to the 53 and exact, and its truncation is the division here.
\<close>

section \<open>Issuance attempts (retry.rs)\<close>

definition RETRY_WINDOW_MS :: nat where "RETRY_WINDOW_MS = DAY_MS"
definition MAX_DELAY_MS :: nat where "MAX_DELAY_MS = HOUR_MS"
definition ATTEMPTS :: nat where "ATTEMPTS = 3"
definition U64_MAX :: nat where "U64_MAX = 2 ^ 64 - 1"

lemmas time_defs = RETRY_WINDOW_MS_def MAX_DELAY_MS_def DAY_MS_def HOUR_MS_def

text \<open>The \<^verbatim>\<open>Retry-After\<close> of a transient failure in milliseconds.\<close>

datatype Class = Transient "nat option" | Permanent | Unknown

definition PERMANENT_PROBLEMS :: "string list"
  where "PERMANENT_PROBLEMS =
    [''rejectedIdentifier'', ''unsupportedIdentifier'', ''badCSR'', ''caa'', ''badSignatureAlgorithm'',
     ''badPublicKey'', ''externalAccountRequired'', ''accountDoesNotExist'', ''invalidContact'',
     ''unsupportedContact'', ''malformed'']"

definition TRANSIENT_PROBLEMS :: "string list"
  where "TRANSIENT_PROBLEMS = [''badNonce'', ''rateLimited'', ''serverInternal'']"

definition classify_status :: "nat \<Rightarrow> nat option \<Rightarrow> Class"
  where "classify_status status after =
    (if status = 429 \<or> (500 \<le> status \<and> status \<le> 599) then Transient after
     else if status = 408 then Transient None
     else Unknown)"

record Problem =
  kind :: string
  problem_status :: nat
  retry_after :: "nat option"

definition classify_problem :: "Problem \<Rightarrow> Class"
  where "classify_problem problem =
    (let k = last (split_on CHR '':'' (kind problem)) in
     if List.member PERMANENT_PROBLEMS k then Permanent
     else if List.member TRANSIENT_PROBLEMS k then Transient (retry_after problem)
     else classify_status (problem_status problem) (retry_after problem))"

fun contains_str :: "string \<Rightarrow> string \<Rightarrow> bool" where
  "contains_str s needle =
     (strip_prefix s needle \<noteq> None \<or> (case s of [] \<Rightarrow> False | _ # s' \<Rightarrow> contains_str s' needle))"

fun after_str :: "string \<Rightarrow> string \<Rightarrow> string option" where
  "after_str s needle =
     (case strip_prefix s needle of
        Some rest \<Rightarrow> Some rest
      | None \<Rightarrow> (case s of [] \<Rightarrow> None | _ # s' \<Rightarrow> after_str s' needle))"

declare contains_str.simps [simp del] after_str.simps [simp del]

definition PERMANENT_REASONS :: "string list"
  where "PERMANENT_REASONS =
    [''Failed to persist certificate state'', '' are required'', ''is not a P-256 private JWK'',
     ''is not base64url'', ''CSR is not PEM'', ''did not offer dns-01'', ''a certificate for another key'']"

definition TRANSIENT_REASONS :: "string list"
  where "TRANSIENT_REASONS =
    [''returned no nonce'', ''error decoding response body'', ''error sending request'',
     ''operation timed out'', ''connection closed'', ''connection reset'', ''status server error'',
     ''authorization ended in pending'', ''An identical record already exists'', ''ACME directory'']"

definition classify_reason :: "string \<Rightarrow> Class"
  where "classify_reason reason =
    (if list_ex (contains_str reason) PERMANENT_REASONS then Permanent
     else if list_ex (\<lambda>p. contains_str reason (''acme:error:'' @ p)) PERMANENT_PROBLEMS then Permanent
     else if list_ex (\<lambda>p. contains_str reason (''acme:error:'' @ p)) TRANSIENT_PROBLEMS then Transient None
     else if list_ex (contains_str reason) TRANSIENT_REASONS then Transient None
     else case Option.bind (after_str reason ''| HTTP '') (\<lambda>rest. parse_unsigned 65535 (take 3 rest)) of
       Some status \<Rightarrow> classify_status status None
     | None \<Rightarrow> Unknown)"

text \<open>The causes of an error as \<^verbatim>\<open>classify\<close> distinguishes them: the typed ACME failures, an
  HTTP client error with its status or whether it is one of the network kinds, and others.\<close>

datatype cause =
  Transient_cause "nat option"
| Problem_cause Problem
| Reqwest_status nat
| Reqwest_network
| Reqwest_other
| Other_cause

fun classify_chain :: "cause list \<Rightarrow> Class option" where
  "classify_chain [] = None"
| "classify_chain (c # chain) =
     (case c of
        Transient_cause after \<Rightarrow> Some (Transient after)
      | Problem_cause problem \<Rightarrow> Some (classify_problem problem)
      | Reqwest_status status \<Rightarrow> Some (classify_status status None)
      | Reqwest_network \<Rightarrow> Some (Transient None)
      | Reqwest_other \<Rightarrow> classify_chain chain
      | Other_cause \<Rightarrow> classify_chain chain)"

definition classify :: "cause list \<Rightarrow> string \<Rightarrow> Class"
  where "classify chain message =
    (case classify_chain chain of Some class \<Rightarrow> class | None \<Rightarrow> classify_reason message)"

definition backoff :: "nat \<Rightarrow> nat \<Rightarrow> nat \<Rightarrow> nat"
  where "backoff base_ms attempts jitter =
    (let exponent = min (attempts - 1) 32;
         delay = max 1 (min (min (base_ms * 2 ^ exponent) U64_MAX) MAX_DELAY_MS);
         half = delay div 2
     in half + half * min jitter (2 ^ 32) div 2 ^ 32)"

definition next_attempt :: "Class \<Rightarrow> nat \<Rightarrow> nat \<Rightarrow> nat \<Rightarrow> nat \<Rightarrow> nat \<Rightarrow> nat option"
  where "next_attempt class attempts base_ms queued_at now jitter =
    (case class of
       Permanent \<Rightarrow> None
     | Unknown \<Rightarrow>
         if ATTEMPTS \<le> attempts then None else Some (now + backoff base_ms attempts jitter)
     | Transient after \<Rightarrow>
         let delay = max (backoff base_ms attempts jitter)
               (min (case after of None \<Rightarrow> 0 | Some a \<Rightarrow> a) MAX_DELAY_MS);
             at = now + delay
         in if at \<le> queued_at + RETRY_WINDOW_MS then Some at else None)"

section \<open>API requests (api.rs)\<close>

definition RETRY_BASE_MS :: nat where "RETRY_BASE_MS = 250"
definition RETRY_MAX_MS :: nat where "RETRY_MAX_MS = 8000"
definition RETRIES :: nat where "RETRIES = 6"

datatype Repeat = Idempotent | Once

definition retryable_status :: "nat \<Rightarrow> Repeat \<Rightarrow> bool"
  where "retryable_status status repeat =
    (case repeat of
       Idempotent \<Rightarrow> status = 429 \<or> (500 \<le> status \<and> status \<le> 599)
     | Once \<Rightarrow> List.member [429, 503, 521, 522, 523, 525] status)"

definition retry_delay_ms :: "nat \<Rightarrow> string option \<Rightarrow> nat \<times> nat"
  where "retry_delay_ms attempt after =
    (case Option.bind after (\<lambda>t. parse_unsigned U64_MAX (trim t)) of
       Some seconds \<Rightarrow>
         let delay = min (min (seconds * 1000) U64_MAX) RETRY_MAX_MS in (delay, delay)
     | None \<Rightarrow>
         let delay = min (min (RETRY_BASE_MS * 2 ^ min attempt 16) U64_MAX) RETRY_MAX_MS
         in (delay div 2, delay))"

definition cloudflare_reason :: "nat \<Rightarrow> string option"
  where "cloudflare_reason status =
    map_of [(520, ''the server returned an unknown error''),
      (521, ''the server refused the connection''),
      (522, ''the connection to the server timed out''),
      (523, ''the server is unreachable''),
      (524, ''the server did not answer in time''),
      (525, ''the SSL handshake with the server failed''),
      (526, ''the server'' @ [CHR 0x27] @ ''s certificate is invalid''),
      (527, ''the connection to the server failed'')] status"

section \<open>Reconnecting (tunnel.rs)\<close>

text \<open>The range the random delay before reconnect attempt \<open>attempt\<close> is drawn from.\<close>

definition reconnect_backoff :: "nat \<Rightarrow> nat \<times> nat"
  where "reconnect_backoff attempt =
    (let base = min (min (250 * 2 ^ min attempt 16) U64_MAX) 30000 in (base div 2, base))"

section \<open>The CA cool-down (jobs.rs)\<close>

definition MINUTE_MS :: nat where "MINUTE_MS = 60 * 1000"
definition COOLDOWN_FAILURES :: nat where "COOLDOWN_FAILURES = 5"
definition COOLDOWN_MIN_MS :: nat where "COOLDOWN_MIN_MS = MINUTE_MS"
definition COOLDOWN_MAX_MS :: nat where "COOLDOWN_MAX_MS = HOUR_MS"

definition ca_trouble :: "string \<Rightarrow> bool"
  where "ca_trouble class \<longleftrightarrow> List.member [''network'', ''timeout'', ''http_5xx'', ''http_429'',
    ''bad_body'', ''nonce'', ''bad_nonce''] class"

record Cooldown =
  failures :: nat
  cooldown_ms :: nat
  until :: nat

definition Cooldown_default :: Cooldown
  where "Cooldown_default = \<lparr>failures = 0, cooldown_ms = 0, until = 0\<rparr>"

definition Cooldown_failed :: "Cooldown \<Rightarrow> string \<Rightarrow> nat option \<Rightarrow> nat \<Rightarrow> Cooldown \<times> bool"
  where "Cooldown_failed c class after now =
    (if \<not> ca_trouble class then (c, False)
     else
       let c = c\<lparr>failures := failures c + 1\<rparr> in
       if class \<noteq> ''http_429'' \<and> failures c < COOLDOWN_FAILURES then (c, False)
       else
         let len = (if cooldown_ms c = 0 then COOLDOWN_MIN_MS
                    else min (cooldown_ms c * 2) COOLDOWN_MAX_MS);
             ends = max (until c)
               (now + max len (min (case after of None \<Rightarrow> 0 | Some a \<Rightarrow> a) COOLDOWN_MAX_MS))
         in (c\<lparr>cooldown_ms := len, until := ends, failures := 0\<rparr>, True))"

definition Cooldown_succeeded :: "Cooldown \<Rightarrow> Cooldown \<times> bool"
  where "Cooldown_succeeded c = (Cooldown_default, 0 < cooldown_ms c)"

definition Cooldown_encode :: "Cooldown \<Rightarrow> string"
  where "Cooldown_encode c = show_nat (until c) @ '' '' @ show_nat (cooldown_ms c)"

definition Cooldown_merge :: "Cooldown \<Rightarrow> string \<Rightarrow> Cooldown"
  where "Cooldown_merge c stored =
    (let fs = map (\<lambda>f. case parse_unsigned U64_MAX f of Some n \<Rightarrow> n | None \<Rightarrow> 0) (split_on CHR '' '' stored);
         ends = (case fs of [] \<Rightarrow> 0 | n # _ \<Rightarrow> n);
         len = (case fs of _ # n # _ \<Rightarrow> n | _ \<Rightarrow> 0)
     in c\<lparr>until := max (until c) ends, cooldown_ms := max (cooldown_ms c) len\<rparr>)"

section \<open>Bounds\<close>

lemma backoff_bounds:
  "backoff base_ms attempts jitter \<le> MAX_DELAY_MS \<and>
   (2 \<le> base_ms \<longrightarrow> 1 \<le> backoff base_ms attempts jitter)"
proof -
  define d where "d = max 1 (min (min (base_ms * 2 ^ min (attempts - 1) 32) U64_MAX) MAX_DELAY_MS)"
  have d: "d \<le> MAX_DELAY_MS" by (simp add: d_def time_defs)
  have "d div 2 * min jitter (2 ^ 32) div 2 ^ 32 \<le> d div 2 * 2 ^ 32 div 2 ^ 32"
    by (intro div_le_mono mult_le_mono) auto
  then have up: "d div 2 + d div 2 * min jitter (2 ^ 32) div 2 ^ 32 \<le> d" by simp
  have "base_ms * 1 \<le> base_ms * 2 ^ min (attempts - 1) 32" by (intro mult_le_mono) auto
  then have "2 \<le> base_ms \<Longrightarrow> 2 \<le> base_ms * 2 ^ min (attempts - 1) 32" by linarith
  then have "2 \<le> base_ms \<Longrightarrow> 2 \<le> d" unfolding d_def by (simp add: U64_MAX_def time_defs)
  then have low: "2 \<le> base_ms \<Longrightarrow> 1 \<le> d div 2" by fastforce
  have b: "backoff base_ms attempts jitter = d div 2 + d div 2 * min jitter (2 ^ 32) div 2 ^ 32"
    unfolding backoff_def Let_def d_def ..
  show ?thesis unfolding b using order_trans [OF up d] low trans_le_add1 by blast
qed

lemma next_attempt_later:
  assumes "next_attempt class attempts base_ms queued_at now jitter = Some at" "2 \<le> base_ms"
  shows "now < at \<and> at \<le> now + MAX_DELAY_MS"
  using assms backoff_bounds [of base_ms attempts jitter]
  by (auto simp: next_attempt_def Let_def split: Class.splits if_splits option.splits)

text \<open>Runs of attempts that all fail: the times and the outcome of each retry decision.\<close>

inductive retries :: "nat \<Rightarrow> nat \<Rightarrow> Class list \<Rightarrow> nat \<Rightarrow> bool" for base_ms queued_at where
  first: "queued_at \<le> now \<Longrightarrow> retries base_ms queued_at [] now"
| again: "\<lbrakk>retries base_ms queued_at classes now;
    next_attempt class (Suc (length classes)) base_ms queued_at now jitter = Some at\<rbrakk>
    \<Longrightarrow> retries base_ms queued_at (classes @ [class]) at"

lemma retries_bounds:
  "retries base_ms queued_at classes now \<Longrightarrow> 2 \<le> base_ms \<Longrightarrow>
     queued_at + length classes \<le> now \<and>
     (\<forall>class\<in>set classes. class \<noteq> Permanent) \<and>
     (classes \<noteq> [] \<and> last classes = Unknown \<longrightarrow> length classes < ATTEMPTS) \<and>
     (classes \<noteq> [] \<and> (\<exists>a. last classes = Transient a) \<longrightarrow> now \<le> queued_at + RETRY_WINDOW_MS)"
proof (induction rule: retries.induct)
  case (again classes now c jitter at)
  have "now < at" using next_attempt_later [OF again(2,4)] by simp
  with again show ?case
    by (auto simp: next_attempt_def Let_def split: Class.splits if_splits)
qed auto

section \<open>Properties of retries\<close>

text \<open>Issuance retries end: a run of failing attempts with a base delay of at least two
  milliseconds never repeats after a permanent error, repeats after an unrecognized one only up to
  the third attempt, and after a transient one only within a day of queuing; each attempt is
  strictly later than the one before and at most an hour later, so no run is longer than the
  milliseconds of the window.\<close>

theorem issuance_retries_end:
  assumes "retries base_ms queued_at classes now" "2 \<le> base_ms"
  shows "(\<forall>class\<in>set classes. class \<noteq> Permanent) \<and>
    (classes \<noteq> [] \<longrightarrow> length classes < ATTEMPTS \<or>
      (now \<le> queued_at + RETRY_WINDOW_MS \<and> length classes \<le> RETRY_WINDOW_MS)) \<and>
    (next_attempt class (Suc (length classes)) base_ms queued_at now jitter = Some at \<longrightarrow>
      now < at \<and> at \<le> now + MAX_DELAY_MS)"
  using retries_bounds [OF assms] next_attempt_later [OF _ assms(2)]
  by (cases "last classes") auto

theorem issuance_retries_end_witness:
  "next_attempt (Transient (Some 5000)) 1 1000 0 0 0 = Some 5000 \<and>
   (Transient (Some 5000) \<noteq> Permanent) \<and> 5000 \<le> 0 + RETRY_WINDOW_MS"
proof -
  have step: "next_attempt (Transient (Some 5000)) (Suc (length [])) 1000 0 0 0 = Some 5000"
    by (simp add: next_attempt_def backoff_def Let_def time_defs U64_MAX_def)
  have "retries 1000 0 ([] @ [Transient (Some 5000)]) 5000"
    by (rule retries.again [OF retries.first step]) simp
  then show ?thesis
    using issuance_retries_end [of 1000 0 "[Transient (Some 5000)]" 5000] step
    by (simp add: ATTEMPTS_def time_defs)
qed

lemma retry_delay_ms_bounds: "case retry_delay_ms attempt after of (lo, hi) \<Rightarrow> hi div 2 \<le> lo \<and> lo \<le> hi \<and> hi \<le> RETRY_MAX_MS"
  by (auto simp: retry_delay_ms_def Let_def split: option.split)

lemma reconnect_backoff_bounds:
  "case reconnect_backoff attempt of (lo, hi) \<Rightarrow>
     lo = hi div 2 \<and> 250 \<le> hi \<and> hi \<le> 30000 \<and> (7 \<le> attempt \<longrightarrow> hi = 30000)"
proof -
  have "(250 :: nat) * 1 \<le> 250 * 2 ^ min attempt 16" by (intro mult_le_mono) auto
  moreover have "7 \<le> attempt \<Longrightarrow> (2 :: nat) ^ 7 \<le> 2 ^ min attempt 16" by (intro power_increasing) auto
  ultimately show ?thesis by (auto simp: reconnect_backoff_def Let_def U64_MAX_def)
qed

text \<open>Delays stay in their ranges: an API retry waits between half of its delay and all of
  it, at most eight seconds, a reconnect at most thirty; a request sent at most once is repeated
  only for statuses for which an idempotent one is.\<close>

theorem retry_delays_bounded:
  "(case retry_delay_ms attempt after of (lo, hi) \<Rightarrow> hi div 2 \<le> lo \<and> lo \<le> hi \<and> hi \<le> RETRY_MAX_MS) \<and>
   (case reconnect_backoff attempt of (lo, hi) \<Rightarrow>
      lo = hi div 2 \<and> 250 \<le> hi \<and> hi \<le> 30000 \<and> (7 \<le> attempt \<longrightarrow> hi = 30000)) \<and>
   (retryable_status status Once \<longrightarrow> retryable_status status Idempotent)"
  using reconnect_backoff_bounds [of attempt] retry_delay_ms_bounds [of attempt after]
  by (auto simp: retryable_status_def)

theorem retry_delays_bounded_witness: "retryable_status 503 Idempotent"
  using retry_delays_bounded [of 0 None 503] by (simp add: retryable_status_def)


definition cooldown_inv :: "Cooldown \<Rightarrow> bool"
  where "cooldown_inv c \<longleftrightarrow> failures c < COOLDOWN_FAILURES \<and>
    (cooldown_ms c = 0 \<or> (COOLDOWN_MIN_MS \<le> cooldown_ms c \<and> cooldown_ms c \<le> COOLDOWN_MAX_MS))"

lemmas cooldown_defs = COOLDOWN_FAILURES_def COOLDOWN_MIN_MS_def COOLDOWN_MAX_MS_def MINUTE_MS_def
  HOUR_MS_def

lemma Cooldown_failed_started:
  assumes "Cooldown_failed c class after now = (c', True)" "cooldown_inv c"
  shows "ca_trouble class \<and> (class = ''http_429'' \<or> failures c = COOLDOWN_FAILURES - 1) \<and> failures c' = 0 \<and>
    COOLDOWN_MIN_MS \<le> cooldown_ms c' \<and> cooldown_ms c' \<le> COOLDOWN_MAX_MS \<and>
    now + COOLDOWN_MIN_MS \<le> until c' \<and> until c \<le> until c' \<and> until c' \<le> max (until c) (now + COOLDOWN_MAX_MS)"
proof -
  from assms(1) have trouble: "ca_trouble class" "\<not> (class \<noteq> ''http_429'' \<and> failures c + 1 < COOLDOWN_FAILURES)"
    by (auto simp: Cooldown_failed_def Let_def split: if_splits)
  define len where "len = (if cooldown_ms c = 0 then COOLDOWN_MIN_MS else min (cooldown_ms c * 2) COOLDOWN_MAX_MS)"
  define wait where "wait = max len (min (case after of None \<Rightarrow> 0 | Some a \<Rightarrow> a) COOLDOWN_MAX_MS)"
  have c': "cooldown_ms c' = len" "until c' = max (until c) (now + wait)" "failures c' = 0"
    using assms(1) trouble by (auto simp: Cooldown_failed_def Let_def len_def wait_def split: if_splits)
  have "COOLDOWN_MIN_MS \<le> len" "len \<le> COOLDOWN_MAX_MS"
    using assms(2) by (auto simp: len_def cooldown_inv_def cooldown_defs)
  moreover from this have "COOLDOWN_MIN_MS \<le> wait" "wait \<le> COOLDOWN_MAX_MS" by (auto simp: wait_def)
  ultimately show ?thesis
    using trouble c' assms(2) by (auto simp: cooldown_inv_def max_def)
qed

lemma Cooldown_failed_inv: "cooldown_inv c \<Longrightarrow> cooldown_inv (fst (Cooldown_failed c class after now))"
proof (cases "snd (Cooldown_failed c class after now)")
  case True
  assume "cooldown_inv c"
  with True have "Cooldown_failed c class after now = (fst (Cooldown_failed c class after now), True)"
    by (metis prod.collapse)
  from Cooldown_failed_started [OF this \<open>cooldown_inv c\<close>] show ?thesis
    by (simp add: cooldown_inv_def COOLDOWN_FAILURES_def)
next
  case False
  assume "cooldown_inv c"
  with False show ?thesis
    by (auto simp: Cooldown_failed_def Let_def cooldown_inv_def split: if_splits)
qed

lemma show_nat_no_space: "CHR '' '' \<notin> set (show_nat n)"
  using show_nat_digits by (force simp: is_ascii_digit_def)

lemma Cooldown_merge_encode:
  assumes "until d \<le> U64_MAX" "cooldown_ms d \<le> U64_MAX"
  shows "Cooldown_merge c (Cooldown_encode d) =
    c\<lparr>until := max (until c) (until d), cooldown_ms := max (cooldown_ms c) (cooldown_ms d)\<rparr>"
proof -
  have "split_on CHR '' '' (Cooldown_encode d) = [show_nat (until d), show_nat (cooldown_ms d)]"
    by (simp add: Cooldown_encode_def split_on_append_sep split_on_no_sep show_nat_no_space)
  with assms show ?thesis by (simp add: Cooldown_merge_def Let_def parse_unsigned_show_nat)
qed

text \<open>The cool-down of the CA: it starts only on a rate limit or the fifth CA failure in a
  row, lasts between a minute and an hour and never ends earlier than one already running; every
  operation keeps its state in range; and a machine that merges another's published state ends up
  with the later end and the longer duration of the two.\<close>

theorem cooldown_starts_and_spreads:
  assumes "cooldown_inv c" "until d \<le> U64_MAX" "cooldown_ms d \<le> U64_MAX"
  shows "(Cooldown_failed c class after now = (c', True) \<longrightarrow>
      ca_trouble class \<and> (class = ''http_429'' \<or> failures c = COOLDOWN_FAILURES - 1) \<and>
      now + COOLDOWN_MIN_MS \<le> until c' \<and> until c \<le> until c' \<and>
      until c' \<le> max (until c) (now + COOLDOWN_MAX_MS)) \<and>
    cooldown_inv (fst (Cooldown_failed c class after now)) \<and>
    cooldown_inv (fst (Cooldown_succeeded c)) \<and>
    Cooldown_merge c (Cooldown_encode d) =
      c\<lparr>until := max (until c) (until d), cooldown_ms := max (cooldown_ms c) (cooldown_ms d)\<rparr>"
  using Cooldown_failed_started [OF _ assms(1)] Cooldown_failed_inv [OF assms(1)]
    Cooldown_merge_encode [OF assms(2,3)]
  by (auto simp: Cooldown_succeeded_def Cooldown_default_def cooldown_inv_def COOLDOWN_FAILURES_def)

theorem cooldown_starts_and_spreads_witness:
  "Cooldown_merge Cooldown_default (Cooldown_encode \<lparr>failures = 0, cooldown_ms = 60000, until = 1000000\<rparr>) =
     \<lparr>failures = 0, cooldown_ms = 60000, until = 1000000\<rparr>"
  using cooldown_starts_and_spreads [of Cooldown_default "\<lparr>failures = 0, cooldown_ms = 60000, until = 1000000\<rparr>"]
  by (simp add: Cooldown_default_def cooldown_inv_def COOLDOWN_FAILURES_def U64_MAX_def)

end
