(* ===== verification/Crypto.thy ===== *)
theory Crypto
  imports Names Addresses
begin

unbundle bit_operations_syntax

text \<open>
  The helpers of \<^verbatim>\<open>opentunnel-server/src/crypto.rs\<close> around the cryptographic
  library: tunnel ids from random bytes, hexadecimal, the constant-time comparison of a
  token with its stored hash, and the layout of a version 4 UUID.  SHA-256 is the
  parameter \<open>sha256\<close>, random bytes are arguments.  The lemmas show that every
  generated id is a valid tunnel id, that ids and bytes correspond, and that the
  comparison accepts exactly the token's own hash.
\<close>

definition SLUG_ALPHABET :: string
  where "SLUG_ALPHABET = ''abcdefghijklmnopqrstuvwxyz234567''"

definition slug :: "bytes \<Rightarrow> string option"
  where "slug random = those (map (\<lambda>b. index_at SLUG_ALPHABET (unat (b AND 31))) random)"

definition hex_bytes :: "bytes \<Rightarrow> string"
  where "hex_bytes bs = concat (map (\<lambda>b. [hex_char (unat b div 16), hex_char (unat b mod 16)]) bs)"

definition hash_token :: "(bytes \<Rightarrow> bytes) \<Rightarrow> string \<Rightarrow> string"
  where "hash_token sha256 token = hex_bytes (sha256 (as_bytes token))"

definition token_matches :: "(bytes \<Rightarrow> bytes) \<Rightarrow> string \<Rightarrow> string \<Rightarrow> bool"
  where "token_matches sha256 token hash =
    (let actual = hash_token sha256 token in
     length actual = length hash \<and>
     foldl (\<lambda>difference (a, b). difference OR (a XOR b)) (0 :: u8)
       (zip (as_bytes actual) (as_bytes hash)) = 0)"

definition uuid :: "bytes \<Rightarrow> string option"
  where "uuid random = do {
    b6 \<leftarrow> index_at random 6;
    b8 \<leftarrow> index_at random 8;
    let hex = hex_bytes (random[6 := (b6 AND 0x0f) OR 0x40, 8 := (b8 AND 0x3f) OR 0x80]);
    p1 \<leftarrow> slice hex 0 8;
    p2 \<leftarrow> slice hex 8 12;
    p3 \<leftarrow> slice hex 12 16;
    p4 \<leftarrow> slice hex 16 20;
    p5 \<leftarrow> slice hex 20 (length hex);
    Some (p1 @ ''-'' @ p2 @ ''-'' @ p3 @ ''-'' @ p4 @ ''-'' @ p5) }"

lemma length_hex_bytes: "length (hex_bytes bs) = 2 * length bs"
  by (induction bs) (simp_all add: hex_bytes_def)

lemma length_SLUG_ALPHABET: "length SLUG_ALPHABET = 32"
  by (simp add: SLUG_ALPHABET_def)

lemma slug_char_label: "list_all label_char SLUG_ALPHABET"
  by code_simp

lemma low_five_bits: "unat ((b :: u8) AND 31) < 32"
proof -
  have "b AND 31 = take_bit 5 b" by (simp add: take_bit_eq_mask mask_eq_exp_minus_1)
  then have "unat (b AND 31) = take_bit 5 (unat b)" by (simp add: unsigned_take_bit_eq)
  then show ?thesis using take_bit_nat_less_exp [of 5 "unat b"] by simp
qed

lemma slug_Some: "slug random = Some (map (\<lambda>b. SLUG_ALPHABET ! unat (b AND 31)) random)"
  by (induction random) (simp_all add: slug_def low_five_bits length_SLUG_ALPHABET)

lemma slug_is_label:
  assumes "random \<noteq> []" "length random \<le> 63" "slug random = Some s"
  shows "is_label s"
proof -
  have chars: "label_char c" if "c \<in> set s" for c
    using that assms(3) slug_char_label low_five_bits length_SLUG_ALPHABET
    by (auto simp: slug_Some list_all_iff)
  moreover have "s \<noteq> []" "length s \<le> 63" using assms by (auto simp: slug_Some)
  ultimately show ?thesis
    by (auto simp: is_label_iff list_all_iff dest: chars [OF hd_in_set] chars [OF last_in_set])
qed

lemma xor_zero_iff: "(x :: 'a :: len word) XOR y = 0 \<longleftrightarrow> x = y"
proof
  assume "x XOR y = 0"
  then have "x XOR (x XOR y) = x" by simp
  then show "x = y" by (simp add: xor.assoc [symmetric])
qed simp

lemma fold_difference:
  "length xs = length ys \<Longrightarrow>
     foldl (\<lambda>difference (a, b). difference OR (a XOR b)) (d :: u8) (zip xs ys) = 0 \<longleftrightarrow> d = 0 \<and> xs = ys"
  by (induction xs ys arbitrary: d rule: list_induct2) (auto simp: or_eq_0_iff xor_zero_iff)

lemma token_matches_iff: "token_matches sha256 token hash \<longleftrightarrow> hash = hash_token sha256 token"
proof -
  have "token_matches sha256 token hash \<longleftrightarrow>
      length (hash_token sha256 token) = length hash \<and> as_bytes (hash_token sha256 token) = as_bytes hash"
    by (auto simp: token_matches_def Let_def fold_difference)
  then show ?thesis by (metis of_bytes_as_bytes)
qed

text \<open>A generated id can name a tunnel: twelve random bytes always give twelve characters
  that make a valid tunnel id; and the constant-time comparison accepts a token exactly for the
  hash that storing it gives.\<close>

theorem ids_valid_and_tokens_exact:
  "(length random = 12 \<longrightarrow> (\<exists>s. slug random = Some s \<and> length s = 12 \<and> valid_tunnel_id s)) \<and>
   (token_matches sha256 token hash \<longleftrightarrow> hash = hash_token sha256 token)"
proof (intro conjI impI)
  assume len: "length random = 12"
  then have "is_label (map (\<lambda>b. SLUG_ALPHABET ! unat (b AND 31)) random)"
    by (intro slug_is_label [OF _ _ slug_Some]) auto
  with len show "\<exists>s. slug random = Some s \<and> length s = 12 \<and> valid_tunnel_id s"
    by (simp add: slug_Some valid_tunnel_id_is_label)
qed (rule token_matches_iff)

theorem ids_valid_and_tokens_exact_witness:
  "\<exists>s. slug (replicate 12 7) = Some s \<and> length s = 12 \<and> valid_tunnel_id s"
  using ids_valid_and_tokens_exact [of "replicate 12 7" "\<lambda>bs. bs" "[]" "[]"] by simp

end
