(* ===== verification/Peer_Auth.thy ===== *)
theory Peer_Auth
  imports Crypto
begin

text \<open>
  Authentication between machines, from \<^verbatim>\<open>opentunnel-server/src/peer_auth.rs\<close> and the
  signed requests of \<^verbatim>\<open>cluster.rs\<close>: the length-prefixed message a proof covers, the
  proof and its check, the freshness of a timestamp and the table of used nonces.

  HMAC-SHA256 is the parameter \<open>hmac\<close>, from the key and the message to the tag; the
  check of the library is that the presented tag is the message's.  The lemmas show that the
  message determines its parts, that a request is only accepted with the right proof for
  exactly its own fields, and that no request is accepted twice.
\<close>

section \<open>Encoding\<close>

definition MAX_SKEW_MS :: nat where "MAX_SKEW_MS = 30000"
definition MAX_NONCES :: nat where "MAX_NONCES = 100000"

text \<open>The length is cast to 32 bits.\<close>

definition message_part :: "string \<Rightarrow> bytes"
  where "message_part part = nat_be 4 (length part mod 2 ^ 32) @ as_bytes part"

definition message :: "string list \<Rightarrow> bytes"
  where "message parts = concat (map message_part parts)"

text \<open>\<^verbatim>\<open>u8::from_str_radix\<close> on two characters: a plus sign is accepted.\<close>

definition hex_pair :: "char \<Rightarrow> char \<Rightarrow> u8 option"
  where "hex_pair a b =
    (if a = CHR ''+'' then map_option word_of_nat (to_digit 16 b)
     else do {
       hi \<leftarrow> to_digit 16 a;
       lo \<leftarrow> to_digit 16 b;
       Some (word_of_nat (hi * 16 + lo)) })"

fun hex_pairs :: "string \<Rightarrow> bytes option" where
  "hex_pairs [] = Some []"
| "hex_pairs [c] = None"
| "hex_pairs (a # b # s) = do { x \<leftarrow> hex_pair a b; xs \<leftarrow> hex_pairs s; Some (x # xs) }"

definition decode_hex :: "string \<Rightarrow> bytes option"
  where "decode_hex s = (if odd (length s) \<or> 128 < length s then None else hex_pairs s)"

definition Secret_sign :: "('k \<Rightarrow> bytes \<Rightarrow> bytes) \<Rightarrow> 'k \<Rightarrow> string list \<Rightarrow> string"
  where "Secret_sign hmac key parts = hex_bytes (hmac key (message parts))"

definition Secret_verify :: "('k \<Rightarrow> bytes \<Rightarrow> bytes) \<Rightarrow> 'k \<Rightarrow> string list \<Rightarrow> string \<Rightarrow> bool"
  where "Secret_verify hmac key parts proof_text =
    (case decode_hex proof_text of None \<Rightarrow> False | Some tag \<Rightarrow> hmac key (message parts) = tag)"

section \<open>Freshness and nonces\<close>

definition fresh :: "nat \<Rightarrow> nat \<Rightarrow> bool"
  where "fresh timestamp now \<longleftrightarrow> max timestamp now - min timestamp now \<le> MAX_SKEW_MS"

text \<open>The table of nonces and the timestamps they were signed at, keys distinct.\<close>

type_synonym Nonces = "(string \<times> nat) list"

definition nonces_room :: "Nonces \<Rightarrow> nat \<Rightarrow> Nonces"
  where "nonces_room seen now =
    (if length seen < MAX_NONCES then seen
     else
       let seen = filter (\<lambda>(_, at). now - MAX_SKEW_MS \<le> at) seen in
       if length seen < MAX_NONCES then seen
       else
         let times = sort (map snd seen);
             median = times ! (length times div 2)
         in filter (\<lambda>(_, at). median < at) seen)"

definition first_use :: "Nonces \<Rightarrow> string \<Rightarrow> nat \<Rightarrow> nat \<Rightarrow> Nonces \<times> bool"
  where "first_use seen nonce timestamp now =
    (let seen = nonces_room seen now in
     if map_of seen nonce \<noteq> None then (seen, False)
     else ((nonce, timestamp) # seen, True))"

section \<open>Signed requests (cluster.rs)\<close>

record Cluster =
  machine_id :: string
  nonces :: Nonces

datatype auth_error = Other_machine | Bad_timestamp | Stale | Bad_signature | Replayed

definition Cluster_sign ::
    "('k \<Rightarrow> bytes \<Rightarrow> bytes) \<Rightarrow> 'k \<Rightarrow> string \<Rightarrow> nat \<Rightarrow> string \<Rightarrow> string \<Rightarrow> string \<Rightarrow> string list \<Rightarrow> string"
  where "Cluster_sign hmac key self now nonce label receiver fs =
    (let timestamp = show_nat now;
         proof_text = Secret_sign hmac key ([label, self, receiver, timestamp, nonce] @ fs)
     in self @ '' '' @ receiver @ '' '' @ timestamp @ '' '' @ nonce @ '' '' @ proof_text)"

definition Cluster_verify ::
    "('k \<Rightarrow> bytes \<Rightarrow> bytes) \<Rightarrow> 'k \<Rightarrow> Cluster \<Rightarrow> nat \<Rightarrow> string
      \<Rightarrow> string \<times> string \<times> string \<times> string \<times> string \<Rightarrow> string list \<Rightarrow> Cluster \<times> (auth_error + unit)"
  where "Cluster_verify hmac key c now label request fs =
    (case request of (sender, receiver, timestamp, nonce, proof_text) \<Rightarrow>
     if receiver \<noteq> machine_id c then (c, Err Other_machine)
     else case parse_unsigned (2 ^ 64 - 1) timestamp of
       None \<Rightarrow> (c, Err Bad_timestamp)
     | Some at \<Rightarrow>
         if \<not> fresh at now then (c, Err Stale)
         else if \<not> Secret_verify hmac key ([label, sender, receiver, timestamp, nonce] @ fs) proof_text
         then (c, Err Bad_signature)
         else
           (case first_use (nonces c) nonce at now of
              (seen, new) \<Rightarrow> (c\<lparr>nonces := seen\<rparr>, if new then Ok () else Err Replayed)))"

section \<open>Messages determine their parts\<close>

lemma message_part_inject:
  assumes "length p < 2 ^ 32" "length q < 2 ^ 32" "message_part p @ s = message_part q @ t"
  shows "p = q \<and> s = t"
proof -
  have small: "length p mod 2 ^ 32 = length p" "length q mod 2 ^ 32 = length q"
    by (rule mod_less [OF assms(1)], rule mod_less [OF assms(2)])
  from assms(3) have parts: "nat_be 4 (length p) @ (as_bytes p @ s) = nat_be 4 (length q) @ (as_bytes q @ t)"
    unfolding message_part_def small by (simp only: append.assoc)
  have "length (nat_be 4 (length p)) = length (nat_be 4 (length q))" by (simp only: length_nat_be)
  with parts have heads: "nat_be 4 (length p) = nat_be 4 (length q)" and tails: "as_bytes p @ s = as_bytes q @ t"
    by (meson append_eq_append_conv)+
  have "(2 :: nat) ^ 32 = 256 ^ 4" by simp
  then have "be_nat (nat_be 4 (length p)) = length p" "be_nat (nat_be 4 (length q)) = length q"
    using assms(1,2) by (metis be_nat_nat_be)+
  with heads have "length p = length q" by metis
  with tails have "as_bytes p = as_bytes q \<and> s = t" by simp
  then show ?thesis by (metis of_bytes_as_bytes)
qed

lemma message_inject:
  "list_all (\<lambda>p. length p < 2 ^ 32) ps \<Longrightarrow> list_all (\<lambda>p. length p < 2 ^ 32) qs \<Longrightarrow>
     message ps = message qs \<Longrightarrow> ps = qs"
proof (induction ps arbitrary: qs)
  case Nil
  then show ?case by (cases qs) (auto simp: message_def message_part_def dest: arg_cong [of _ _ length])
next
  case (Cons p ps)
  show ?case
  proof (cases qs)
    case Nil
    with Cons.prems show ?thesis by (auto simp: message_def message_part_def dest: arg_cong [of _ _ length])
  next
    case (Cons q qs')
    with Cons.prems have "message_part p @ message ps = message_part q @ message qs'"
      by (simp add: message_def)
    with message_part_inject [of p q "message ps" "message qs'"] Cons Cons.prems Cons.IH [of qs'] show ?thesis by simp
  qed
qed

section \<open>Proofs in hexadecimal\<close>

lemma hex_pair_char: "hex_pair (hex_char (unat b div 16)) (hex_char (unat b mod 16)) = Some b"
proof -
  have "unat b div 16 < 16" using unat_less_256 [of b] by linarith
  moreover have "to_digit 16 CHR ''+'' = None" by code_simp
  moreover have "(word_of_nat (unat b div 16 * 16 + unat b mod 16) :: u8) = b"
    by (simp only: div_mult_mod_eq) simp
  then have "(word_of_nat (unat b div 16) * 16 + word_of_nat (unat b mod 16) :: u8) = b"
    by (simp only: of_nat_add of_nat_mult of_nat_numeral)
  ultimately show ?thesis
    using hex_char_value [of "unat b div 16"] hex_char_value [of "unat b mod 16"]
    by (auto simp: hex_pair_def)
qed

lemma hex_pairs_bytes: "hex_pairs (hex_bytes bs) = Some bs"
  by (induction bs) (simp_all add: hex_bytes_def hex_pair_char)

lemma decode_hex_bytes [wire_simps]: "length bs \<le> 64 \<Longrightarrow> decode_hex (hex_bytes bs) = Some bs"
  by (simp add: decode_hex_def hex_pairs_bytes length_hex_bytes)

interpretation hex_codec: round_trip hex_bytes decode_hex "\<lambda>bs. length bs \<le> 64"
  by unfold_locales (simp add: decode_hex_bytes)

lemma Secret_verify_iff:
  assumes "length (hmac key (message qs)) \<le> 64"
  shows "Secret_verify hmac key ps (Secret_sign hmac key qs) \<longleftrightarrow> hmac key (message ps) = hmac key (message qs)"
  using assms by (simp add: Secret_verify_def Secret_sign_def decode_hex_bytes)

section \<open>Replays\<close>

text \<open>Runs of the nonce table: the accepted requests as their nonce and timestamp, the time
  so far (the clock does not go back), and the table, which never needs more room than it has
  once the expired entries are dropped.\<close>

definition room_left :: "Nonces \<Rightarrow> nat \<Rightarrow> bool"
  where "room_left seen now \<longleftrightarrow> length (filter (\<lambda>(_, at). now - MAX_SKEW_MS \<le> at) seen) < MAX_NONCES"

inductive accepted_run :: "(string \<times> nat) list \<Rightarrow> nat \<Rightarrow> Nonces \<Rightarrow> bool" where
  start: "accepted_run [] now []"
| request: "\<lbrakk>accepted_run accepted now seen; now \<le> now'; room_left seen now'; fresh at now';
    first_use seen nonce at now' = (seen', new)\<rbrakk>
    \<Longrightarrow> accepted_run (if new then accepted @ [(nonce, at)] else accepted) now' seen'"

definition remembered :: "(string \<times> nat) list \<Rightarrow> nat \<Rightarrow> Nonces \<Rightarrow> bool"
  where "remembered accepted now seen \<longleftrightarrow>
    distinct accepted \<and> (\<forall>(n, at)\<in>set accepted. (n, at) \<in> set seen \<or> at + MAX_SKEW_MS < now)"

lemma nonces_room_keeps:
  assumes "room_left seen now" "(n, at) \<in> set seen"
  shows "(n, at) \<in> set (nonces_room seen now) \<or> at + MAX_SKEW_MS < now"
  using assms by (auto simp: nonces_room_def room_left_def Let_def)

lemma remembered_step:
  assumes inv: "remembered accepted now seen" and "now \<le> now'" "room_left seen now'" "fresh at now'"
    and use_result: "first_use seen nonce at now' = (seen', new)"
  shows "remembered (if new then accepted @ [(nonce, at)] else accepted) now' seen'"
proof -
  have old: "(n, a) \<in> set (nonces_room seen now') \<or> a + MAX_SKEW_MS < now'" if "(n, a) \<in> set accepted" for n a
    using that inv nonces_room_keeps [OF assms(3)] \<open>now \<le> now'\<close> unfolding remembered_def by fastforce
  show ?thesis
  proof (cases new)
    case True
    then have seen': "seen' = (nonce, at) # nonces_room seen now'" and none: "map_of (nonces_room seen now') nonce = None"
      using use_result by (auto simp: first_use_def Let_def split: if_splits)
    have "(nonce, at) \<notin> set accepted"
    proof
      assume "(nonce, at) \<in> set accepted"
      then have "(nonce, at) \<in> set (nonces_room seen now') \<or> at + MAX_SKEW_MS < now'" by (rule old)
      moreover have "(nonce, at) \<notin> set (nonces_room seen now')" using none by (force simp: map_of_eq_None_iff)
      ultimately show False using \<open>fresh at now'\<close> by (auto simp: fresh_def max_def min_def split: if_splits)
    qed
    with inv old True seen' show ?thesis unfolding remembered_def by auto
  next
    case False
    then have "seen' = nonces_room seen now'"
      using use_result by (auto simp: first_use_def Let_def split: if_splits)
    with inv old False show ?thesis unfolding remembered_def by auto
  qed
qed

lemma accepted_run_remembered: "accepted_run accepted now seen \<Longrightarrow> remembered accepted now seen"
proof (induction rule: accepted_run.induct)
  case (start now)
  show ?case by (simp add: remembered_def)
next
  case (request accepted now seen now' at nonce seen' new)
  then show ?case by (intro remembered_step)
qed

section \<open>Properties of signed requests\<close>

text \<open>C37. Only what was signed for a request is accepted for it: if the check accepts a
  request presented with a proof made for other parts (another label, machine, time, nonce or
  field), then the tags of the two messages collide; without such a collision the parts are the
  same. A request signed for this machine within the clock skew and with an unused nonce is
  accepted.\<close>

theorem signed_request_sound:
  assumes "list_all (\<lambda>p. length p < 2 ^ 32) parts"
    and "list_all (\<lambda>p. length p < 2 ^ 32) ([label, sender, receiver, timestamp, nonce] @ fs)"
    and "length (hmac key (message parts)) \<le> 64"
    and "hmac key (message ([label, sender, receiver, timestamp, nonce] @ fs)) = hmac key (message parts) \<Longrightarrow>
      message ([label, sender, receiver, timestamp, nonce] @ fs) = message parts"
    and "Cluster_verify hmac key c now label (sender, receiver, timestamp, nonce, Secret_sign hmac key parts) fs
      = (c', Ok ())"
  shows "parts = [label, sender, receiver, timestamp, nonce] @ fs \<and> receiver = machine_id c \<and>
    (\<exists>at. parse_unsigned (2 ^ 64 - 1) timestamp = Some at \<and> fresh at now)"
proof -
  from assms(5) have ok: "receiver = machine_id c"
    "Secret_verify hmac key ([label, sender, receiver, timestamp, nonce] @ fs) (Secret_sign hmac key parts)"
    "\<exists>at. parse_unsigned (2 ^ 64 - 1) timestamp = Some at \<and> fresh at now"
    unfolding Cluster_verify_def prod.case by (auto split: if_splits option.splits)
  then have "message ([label, sender, receiver, timestamp, nonce] @ fs) = message parts"
    using assms(3,4) Secret_verify_iff by metis
  then have "[label, sender, receiver, timestamp, nonce] @ fs = parts"
    by (rule message_inject [OF assms(2,1)])
  with ok show ?thesis by simp
qed

theorem signed_request_sound_witness:
  "\<exists>at. parse_unsigned (2 ^ 64 - 1) ''5'' = Some at \<and> fresh at 6"
proof -
  let ?hmac = "\<lambda>(k :: nat) m. take 64 m" and ?c = "\<lparr>machine_id = ''b'', nonces = []\<rparr>"
  let ?parts = "[''l'', ''a'', ''b'', ''5'', ''n'']"
  have at: "parse_unsigned (2 ^ 64 - 1) ''5'' = Some 5"
    by (simp add: parse_unsigned_def digit_value_def is_ascii_digit_def)
  have "Secret_verify ?hmac 0 ?parts (Secret_sign ?hmac 0 ?parts)"
    by (subst Secret_verify_iff) simp_all
  then have "Cluster_verify ?hmac 0 ?c 6 ''l'' (''a'', ''b'', ''5'', ''n'', Secret_sign ?hmac 0 ?parts) []
      = (\<lparr>machine_id = ''b'', nonces = [(''n'', 5)]\<rparr>, Ok ())"
    unfolding Cluster_verify_def prod.case at
    by (simp add: first_use_def nonces_room_def MAX_NONCES_def fresh_def MAX_SKEW_MS_def)
  moreover have "list_all (\<lambda>p. length p < 2 ^ 32) ?parts" by simp
  ultimately show ?thesis
    using signed_request_sound [of ?parts "''l''" "''a''" "''b''" "''5''" "''n''" "[]" ?hmac 0 ?c 6
        "\<lparr>machine_id = ''b'', nonces = [(''n'', 5)]\<rparr>"]
    by (simp only: append_Nil2 append_Cons append_Nil length_take)
qed

text \<open>No replay: on a clock that does not go back, and while the table has room for the
  requests of the last half minute, no request (nonce and timestamp) is accepted twice.\<close>

theorem no_request_accepted_twice:
  assumes "accepted_run accepted now seen"
  shows "distinct accepted"
  using accepted_run_remembered [OF assms] by (simp add: remembered_def)

theorem no_request_accepted_twice_witness: "distinct [(''n'', 5 :: nat)]"
proof -
  have "accepted_run (if True then [] @ [(''n'', 5)] else []) 5 [(''n'', 5)]"
    by (rule accepted_run.request [OF accepted_run.start, of 0 5])
       (simp_all add: room_left_def MAX_NONCES_def fresh_def first_use_def nonces_room_def)
  then show ?thesis using no_request_accepted_twice [of "[(''n'', 5)]"] by simp
qed

text \<open>Hexadecimal proofs: decoding inverts encoding for tags of up to 64 bytes, but the
  decoder also reads uppercase digits and a plus sign in place of a leading zero, so a proof has
  several accepted spellings.\<close>

theorem proofs_have_other_spellings:
  "(length bs \<le> 64 \<longrightarrow> decode_hex (hex_bytes bs) = Some bs) \<and>
   decode_hex ''+f'' = decode_hex ''0f'' \<and> decode_hex ''0F'' = decode_hex ''0f'' \<and>
   decode_hex ''0f'' = Some [15]"
proof (intro conjI impI)
  show "decode_hex (hex_bytes bs) = Some bs" if "length bs \<le> 64"
    using that by (rule hex_codec.dec_enc)
qed code_simp+

theorem proofs_have_other_spellings_witness: "decode_hex (hex_bytes [1, 255]) = Some [1, 255]"
  using proofs_have_other_spellings [of "[1, 255]"] by simp

end
