(* ===== verification/Records.thy ===== *)
theory Records
  imports Prelude
begin

text \<open>
  The stored tunnel record and the values the API exchanges
  (\<^verbatim>\<open>crates/opentunnel-server/src/record.rs\<close> and
  \<^verbatim>\<open>crates/opentunnel/src/protocol/api.rs\<close>): records and enums with the constructors of the
  source. Fields whose source name is taken by another record carry a prefix.
\<close>

section \<open>Values of the API (api.rs)\<close>

datatype TunnelState = Offline | Online

datatype CertificateState =
  Challenge string string
| Issuing
| Ready string string string
| Failed string

record CertificateInfo =
  cert_id :: string
  cert_state :: CertificateState

section \<open>The stored record (record.rs)\<close>

record Renewal =
  renewal_id :: string
  started_at :: string

record StoredTunnel =
  record_version :: nat
  ident :: string
  hostname :: string
  tstate :: TunnelState
  certificate_id :: "string option"
  token_hash :: string
  created_at :: string
  deleted_at :: "string option"
  certificate :: "CertificateInfo option"
  certificate_csr :: "string option"
  certificate_identifiers :: "string list option"
  certificate_started_at :: "string option"
  last_connected_at :: "string option"
  renewal :: "Renewal option"

definition is_deleted :: "StoredTunnel \<Rightarrow> bool"
  where "is_deleted t = (deleted_at t \<noteq> None)"

definition ready_expiry :: "StoredTunnel \<Rightarrow> string option"
  where "ready_expiry t =
    (case certificate t of
       None \<Rightarrow> None
     | Some info \<Rightarrow> (case cert_state info of Ready _ _ expiry \<Rightarrow> Some expiry | _ \<Rightarrow> None))"

definition certificate_ready :: "StoredTunnel \<Rightarrow> bool"
  where "certificate_ready t = (ready_expiry t \<noteq> None)"

definition identifiers :: "StoredTunnel \<Rightarrow> string list"
  where "identifiers t =
    (case certificate_identifiers t of Some names \<Rightarrow> names | None \<Rightarrow> [hostname t])"

record TunnelView =
  view_id :: string
  view_hostname :: string
  view_state :: TunnelState
  view_certificate_id :: "string option"

text \<open>Whether a certificate of the record is still being issued, by the current certificate or by a
  renewal beside it.\<close>

definition certificate_pending :: "StoredTunnel \<Rightarrow> bool"
  where "certificate_pending t =
    (case certificate t of
       None \<Rightarrow> False
     | Some info \<Rightarrow> (case cert_state info of Issuing \<Rightarrow> True | Challenge _ _ \<Rightarrow> True | _ \<Rightarrow> False))"

lemma certificate_ready_not_pending: "certificate_ready t \<Longrightarrow> \<not> certificate_pending t"
  by (auto simp: certificate_ready_def ready_expiry_def certificate_pending_def
    split: option.splits CertificateState.splits)

end
