(* ===== verification/Store.thy ===== *)
theory Store
  imports Records Retry "HOL-Library.AList" "HOL-Library.List_Lexorder"
begin

text \<open>
  The database every machine of a deployment shares
  (\<^verbatim>\<open>crates/opentunnel-server/src/store.rs\<close>). A table is an association list from its primary
  key to its row; a statement is a function on the database. A JSON column holds the value serde
  wrote into it, timestamps are natural numbers, and rows affected are rows matched, as the driver
  reports them. Between any two statements of one operation the rest of the deployment may change
  the database, and every statement may fail, before or after it took effect: both are decided by
  an argument of type \<open>world\<close>. The rate limit table is in \<open>Limits\<close>.
\<close>

section \<open>Tables\<close>

type_synonym ('k, 'r) table = "('k \<times> 'r) list"

text \<open>\<open>INSERT\<close>, refused for a key that exists, \<open>UPDATE ... WHERE key = ? AND cond\<close> with the number of
  rows it matched, and \<open>UPDATE ... WHERE cond\<close>.\<close>

definition insert_row :: "'k \<Rightarrow> 'r \<Rightarrow> ('k, 'r) table \<Rightarrow> ('k, 'r) table option"
  where "insert_row k r t = (if map_of t k = None then Some (t @ [(k, r)]) else None)"

definition update_row :: "'k \<Rightarrow> ('r \<Rightarrow> bool) \<Rightarrow> ('r \<Rightarrow> 'r) \<Rightarrow> ('k, 'r) table \<Rightarrow> nat \<times> ('k, 'r) table"
  where "update_row k c f t =
    (case map_of t k of
       Some r \<Rightarrow> if c r then (1, AList.update k (f r) t) else (0, t)
     | None \<Rightarrow> (0, t))"

definition update_rows :: "('r \<Rightarrow> bool) \<Rightarrow> ('r \<Rightarrow> 'r) \<Rightarrow> ('k, 'r) table \<Rightarrow> ('k, 'r) table"
  where "update_rows c f t = map (\<lambda>(k, r). (k, if c r then f r else r)) t"

lemma insert_row_Some:
  "insert_row k r t = Some t' \<longleftrightarrow> map_of t k = None \<and> t' = t @ [(k, r)]"
  by (auto simp: insert_row_def)

lemma insert_row_None: "insert_row k r t = None \<longleftrightarrow> map_of t k \<noteq> None"
  by (simp add: insert_row_def)

lemma insert_row_map_of:
  "insert_row k r t = Some t' \<Longrightarrow> map_of t' = (map_of t)(k \<mapsto> r)"
  by (auto simp: insert_row_Some fun_eq_iff map_add_def split: option.splits)

lemma update_row_cases:
  obtains (hit) r where "map_of t k = Some r" "c r" "update_row k c f t = (1, AList.update k (f r) t)"
    | (miss) "\<forall>r. map_of t k = Some r \<longrightarrow> \<not> c r" "update_row k c f t = (0, t)"
  by (cases "map_of t k") (auto simp: update_row_def split: if_splits)

lemma update_row_map_of:
  "map_of (snd (update_row k c f t)) =
     (case map_of t k of Some r \<Rightarrow> if c r then (map_of t)(k \<mapsto> f r) else map_of t | None \<Rightarrow> map_of t)"
  by (auto simp: update_row_def update_conv' split: option.splits)

lemma update_row_affected:
  "fst (update_row k c f t) = (if \<exists>r. map_of t k = Some r \<and> c r then 1 else 0)"
  by (auto simp: update_row_def split: option.splits)

lemma update_rows_map_of:
  "map_of (update_rows c f t) k = map_option (\<lambda>r. if c r then f r else r) (map_of t k)"
  by (induction t) (auto simp: update_rows_def)

lemma distinct_insert_row:
  "insert_row k r t = Some t' \<Longrightarrow> distinct (map fst t) \<Longrightarrow> distinct (map fst t')"
  by (auto simp: insert_row_Some map_of_eq_None_iff)

lemma distinct_update_row:
  "distinct (map fst t) \<Longrightarrow> distinct (map fst (snd (update_row k c f t)))"
  by (auto simp: update_row_def distinct_update split: option.splits)

lemma distinct_update_rows:
  "distinct (map fst t) \<Longrightarrow> distinct (map fst (update_rows c f t))"
  by (simp add: update_rows_def comp_def case_prod_unfold)

section \<open>Rows\<close>

datatype JobKind = Issue | Renew | Server

definition JobKind_as_str :: "JobKind \<Rightarrow> string"
  where "JobKind_as_str k = (case k of Issue \<Rightarrow> ''issue'' | Renew \<Rightarrow> ''renew'' | Server \<Rightarrow> ''server'')"

definition JobKind_parse :: "string \<Rightarrow> JobKind"
  where "JobKind_parse value =
    (if value = ''renew'' then Renew else if value = ''server'' then Server else Issue)"

record Job =
  job_certificate_id :: string
  job_tunnel_id :: "string option"
  job_kind :: JobKind
  job_identifiers :: "string list"
  job_csr :: string
  job_attempts :: nat
  job_created_at :: nat

record FailedJob =
  failed_certificate_id :: string
  failed_tunnel_id :: "string option"
  failed_status :: string
  failed_last_error :: string
  failed_created_at :: nat
  failed_updated_at :: nat

record ServerCertificate =
  private_key :: string
  server_csr :: string
  server_cert :: "string option"
  server_chain :: "string option"
  server_expiry :: "string option"

datatype ImportOutcome = Inserted | Updated | Unchanged | KeptLocal

text \<open>The rows of \<open>tunnels\<close> and of \<open>jobs\<close> (without the primary key).\<close>

record TunnelRow =
  row_record :: StoredTunnel
  revision :: nat
  deleted :: bool
  issuing :: bool
  alarm_at :: "nat option"
  updated_at :: nat
  imported_at :: "nat option"
  local_update :: bool

record JobRow =
  row_tunnel_id :: "string option"
  row_kind :: string
  row_identifiers :: "string list"
  row_csr :: string
  row_status :: string
  row_attempts :: nat
  run_at :: nat
  lease_owner :: "string option"
  lease_until :: "nat option"
  last_error :: "string option"
  row_created_at :: nat
  row_updated_at :: nat

record Db =
  tunnels :: "(string, TunnelRow) table"
  jobs :: "(string, JobRow) table"
  server_certificates :: "(string, ServerCertificate) table"
  meta_rows :: "(string, string) table"

record Loaded =
  loaded_record :: StoredTunnel
  loaded_revision :: nat

record AttachSnapshot =
  loaded :: Loaded
  snapshot_alarm :: "nat option"

definition LEASE_MS :: nat where "LEASE_MS = 2 * 60 * 1000"

definition record_flags :: "StoredTunnel \<Rightarrow> bool \<times> bool"
  where "record_flags r = (is_deleted r, renewal r \<noteq> None \<or> certificate_pending r)"

definition job_from_row :: "string \<Rightarrow> JobRow \<Rightarrow> Job"
  where "job_from_row cid r =
    \<lparr>job_certificate_id = cid, job_tunnel_id = row_tunnel_id r,
     job_kind = JobKind_parse (row_kind r), job_identifiers = row_identifiers r,
     job_csr = row_csr r, job_attempts = row_attempts r, job_created_at = row_created_at r\<rparr>"

definition failed_job_from_row :: "string \<Rightarrow> JobRow \<Rightarrow> FailedJob"
  where "failed_job_from_row cid r =
    \<lparr>failed_certificate_id = cid, failed_tunnel_id = row_tunnel_id r,
     failed_status = row_status r,
     failed_last_error = (case last_error r of Some e \<Rightarrow> e | None \<Rightarrow> []),
     failed_created_at = row_created_at r, failed_updated_at = row_updated_at r\<rparr>"

definition literal_char :: "char \<Rightarrow> bool"
  where "literal_char c = (is_ascii_alphanumeric c \<or> c \<in> set ''-_.@'')"

definition literal :: "string \<Rightarrow> string option"
  where "literal value =
    (if value \<noteq> [] \<and> length value \<le> 191 \<and> list_all literal_char value
     then Some (CHR 0x27 # value @ [CHR 0x27]) else None)"

section \<open>Statements and operations\<close>

text \<open>A statement that fails may have been refused or may have taken effect without its answer
  arriving (a timeout); a statement that waited too long for a lock, or was chosen to end a
  deadlock, is rolled back with its own code. The world decides, before the \<open>k\<close>-th statement of a run, what the rest of the
  deployment does to the database and whether the statement is answered. Operations are functions
  of the number of statements so far and the database.\<close>

datatype fault = Answered | Refused | Lost | Deadlock

datatype store_error = Unavailable | Locked | Conflict | Disappeared

type_synonym world = "nat \<Rightarrow> Db \<Rightarrow> fault \<times> Db"
type_synonym store_state = "nat \<times> Db"
type_synonym 'a store_io = "store_state \<Rightarrow> (store_error + 'a) \<times> store_state"

definition timed :: "world \<Rightarrow> (Db \<Rightarrow> 'a \<times> Db) \<Rightarrow> 'a store_io"
  where "timed w statement = (\<lambda>(k, db).
    (case w k db of (f, db) \<Rightarrow>
     (case f of
        Answered \<Rightarrow> (case statement db of (a, db) \<Rightarrow> (Ok a, Suc k, db))
      | Refused \<Rightarrow> (Err Unavailable, Suc k, db)
      | Deadlock \<Rightarrow> (Err Locked, Suc k, db)
      | Lost \<Rightarrow> (Err Unavailable, Suc k, snd (statement db)))))"

definition io_bind :: "'a store_io \<Rightarrow> ('a \<Rightarrow> 'b store_io) \<Rightarrow> 'b store_io"
  where "io_bind m f = (\<lambda>s. case m s of (Inl e, s) \<Rightarrow> (Inl e, s) | (Inr a, s) \<Rightarrow> f a s)"

definition io_return :: "'a \<Rightarrow> 'a store_io"
  where "io_return a = (\<lambda>s. (Ok a, s))"

definition io_fail :: "store_error \<Rightarrow> 'a store_io"
  where "io_fail e = (\<lambda>s. (Err e, s))"

text \<open>Reads.\<close>

definition select :: "(Db \<Rightarrow> 'a) \<Rightarrow> Db \<Rightarrow> 'a \<times> Db"
  where "select q db = (q db, db)"

subsection \<open>Tunnels\<close>

definition snapshot_of :: "TunnelRow \<Rightarrow> AttachSnapshot"
  where "snapshot_of r =
    \<lparr>loaded = \<lparr>loaded_record = row_record r, loaded_revision = revision r\<rparr>,
     snapshot_alarm = alarm_at r\<rparr>"

definition tunnel_with_alarm :: "world \<Rightarrow> string \<Rightarrow> AttachSnapshot option store_io"
  where "tunnel_with_alarm w tid =
    timed w (select (\<lambda>db. map_option snapshot_of (map_of (tunnels db) tid)))"

definition tunnel :: "world \<Rightarrow> string \<Rightarrow> Loaded option store_io"
  where "tunnel w tid =
    io_bind (tunnel_with_alarm w tid) (\<lambda>found. io_return (map_option loaded found))"

text \<open>The two statements of \<^verbatim>\<open>save_tunnel\<close>: \<open>Some\<close> is the new revision, \<open>None\<close> a conflict.\<close>

definition insert_tunnel :: "StoredTunnel \<Rightarrow> nat \<Rightarrow> Db \<Rightarrow> bool \<times> Db"
  where "insert_tunnel r now db =
    (case insert_row (ident r)
        \<lparr>row_record = r, revision = 1, deleted = fst (record_flags r),
         issuing = snd (record_flags r), alarm_at = None, updated_at = now, imported_at = None,
         local_update = True\<rparr> (tunnels db) of
       Some t \<Rightarrow> (True, db\<lparr>tunnels := t\<rparr>)
     | None \<Rightarrow> (False, db))"

definition write_record :: "StoredTunnel \<Rightarrow> nat \<Rightarrow> TunnelRow \<Rightarrow> TunnelRow"
  where "write_record r now row =
    row\<lparr>row_record := r, revision := revision row + 1, deleted := fst (record_flags r),
        issuing := snd (record_flags r), updated_at := now, local_update := True\<rparr>"

definition update_tunnel :: "StoredTunnel \<Rightarrow> nat \<Rightarrow> nat \<Rightarrow> Db \<Rightarrow> nat \<times> Db"
  where "update_tunnel r seen now db =
    (case update_row (ident r) (\<lambda>row. revision row = seen) (write_record r now) (tunnels db) of
       (n, t) \<Rightarrow> (n, db\<lparr>tunnels := t\<rparr>))"

definition save_tunnel :: "world \<Rightarrow> StoredTunnel \<Rightarrow> nat \<Rightarrow> nat \<Rightarrow> nat store_io"
  where "save_tunnel w r seen now =
    (if seen = 0
     then io_bind (timed w (insert_tunnel r now))
            (\<lambda>inserted. if inserted then io_return 1 else io_fail Conflict)
     else io_bind (timed w (update_tunnel r seen now))
            (\<lambda>n. if n = 0 then io_fail Conflict else io_return (seen + 1)))"

definition upsert_tunnel :: "StoredTunnel \<Rightarrow> nat \<Rightarrow> Db \<Rightarrow> unit \<times> Db"
  where "upsert_tunnel r now db =
    (case insert_tunnel r now db of
       (True, db) \<Rightarrow> ((), db)
     | (False, db) \<Rightarrow>
         ((), db\<lparr>tunnels := snd (update_row (ident r) (\<lambda>_. True) (write_record r now) (tunnels db))\<rparr>))"

definition put_tunnel :: "world \<Rightarrow> StoredTunnel \<Rightarrow> nat \<Rightarrow> unit store_io"
  where "put_tunnel w r now = timed w (upsert_tunnel r now)"

definition alarm :: "world \<Rightarrow> string \<Rightarrow> nat option store_io"
  where "alarm w tid =
    timed w (select (\<lambda>db. case map_of (tunnels db) tid of Some r \<Rightarrow> alarm_at r | None \<Rightarrow> None))"

definition write_alarm :: "string \<Rightarrow> nat option \<Rightarrow> Db \<Rightarrow> unit \<times> Db"
  where "write_alarm tid at db =
    ((), db\<lparr>tunnels := snd (update_row tid (\<lambda>_. True) (\<lambda>r. r\<lparr>alarm_at := at\<rparr>) (tunnels db))\<rparr>)"

definition set_alarm :: "world \<Rightarrow> string \<Rightarrow> nat option \<Rightarrow> unit store_io"
  where "set_alarm w tid at = timed w (write_alarm tid at)"

text \<open>Alarms in the order the query returns them, and the statement that clears one.\<close>

definition alarms_in_order :: "Db \<Rightarrow> (string \<times> nat) list"
  where "alarms_in_order db =
    sort_key snd (List.map_filter (\<lambda>(k, r). map_option (Pair k) (alarm_at r)) (tunnels db))"

definition clear_alarm :: "string \<Rightarrow> nat \<Rightarrow> Db \<Rightarrow> nat \<times> Db"
  where "clear_alarm tid at db =
    (case update_row tid (\<lambda>r. alarm_at r = Some at) (\<lambda>r. r\<lparr>alarm_at := None\<rparr>) (tunnels db) of
       (n, t) \<Rightarrow> (n, db\<lparr>tunnels := t\<rparr>))"

definition ALARM_LIMIT :: nat where "ALARM_LIMIT = 500"

fun take_alarms :: "world \<Rightarrow> (string \<times> nat) list \<Rightarrow> string list store_io" where
  "take_alarms w [] = io_return []"
| "take_alarms w ((tid, at) # due) =
     io_bind (timed w (clear_alarm tid at)) (\<lambda>n.
       io_bind (take_alarms w due) (\<lambda>taken.
         io_return (if n = 1 then tid # taken else taken)))"

definition due_alarms :: "nat \<Rightarrow> (string \<times> nat) list \<Rightarrow> (string \<times> nat) list \<times> nat option"
  where "due_alarms now due =
    (let later = min (length (takeWhile (\<lambda>(_, at). at \<le> now) due)) ALARM_LIMIT
     in (take later due,
         if later < length due then Some (max (snd (due ! later)) now) else None))"

definition take_due_alarms_and_next :: "world \<Rightarrow> nat \<Rightarrow> (string list \<times> nat option) store_io"
  where "take_due_alarms_and_next w now =
    io_bind (timed w (select (\<lambda>db. take (ALARM_LIMIT + 1) (alarms_in_order db)))) (\<lambda>due.
      case due_alarms now due of (due, later) \<Rightarrow>
        io_bind (take_alarms w due) (\<lambda>taken. io_return (taken, later)))"

definition take_due_alarms :: "world \<Rightarrow> nat \<Rightarrow> string list store_io"
  where "take_due_alarms w now =
    io_bind (take_due_alarms_and_next w now) (\<lambda>r. io_return (fst r))"

definition next_alarm :: "world \<Rightarrow> nat option store_io"
  where "next_alarm w =
    timed w (select (\<lambda>db. case alarms_in_order db of [] \<Rightarrow> None | (_, at) # _ \<Rightarrow> Some at))"

definition issuing_tunnels :: "world \<Rightarrow> StoredTunnel list store_io"
  where "issuing_tunnels w =
    timed w (select (\<lambda>db.
      map (\<lambda>(_, r). row_record r) (filter (\<lambda>(_, r). issuing r \<and> \<not> deleted r) (tunnels db))))"

definition deleted_of :: "string list \<Rightarrow> Db \<Rightarrow> string list"
  where "deleted_of ids db =
    map fst (filter (\<lambda>(k, r). deleted r \<and> k \<in> set ids) (tunnels db))"

function deleted_tunnels :: "world \<Rightarrow> string list \<Rightarrow> string list store_io" where
  "deleted_tunnels w ids =
     (if ids = [] then io_return []
      else io_bind (timed w (select (deleted_of (take 500 ids)))) (\<lambda>found.
             io_bind (deleted_tunnels w (drop 500 ids)) (\<lambda>rest. io_return (found @ rest))))"
  by pat_completeness auto
termination by (relation "measure (\<lambda>(w, ids). length ids)") auto

declare deleted_tunnels.simps [simp del]

subsection \<open>Imports\<close>

definition import_row :: "StoredTunnel \<Rightarrow> nat option \<Rightarrow> nat \<Rightarrow> nat \<Rightarrow> TunnelRow"
  where "import_row r at seen now =
    \<lparr>row_record = r, revision = seen, deleted = fst (record_flags r), issuing = snd (record_flags r),
     alarm_at = at, updated_at = now, imported_at = Some now, local_update = False\<rparr>"

definition import_insert :: "StoredTunnel \<Rightarrow> nat option \<Rightarrow> nat \<Rightarrow> Db \<Rightarrow> bool \<times> Db"
  where "import_insert r at now db =
    (case insert_row (ident r) (import_row r at 1 now) (tunnels db) of
       Some t \<Rightarrow> (True, db\<lparr>tunnels := t\<rparr>)
     | None \<Rightarrow> (False, db))"

text \<open>The transaction: the row is locked from the read to the commit. Rows are never deleted, so it
  exists; reading no row is an error of the driver.\<close>

definition import_existing :: "StoredTunnel \<Rightarrow> nat option \<Rightarrow> bool \<Rightarrow> nat \<Rightarrow> Db \<Rightarrow> ImportOutcome option \<times> Db"
  where "import_existing r at force now db =
    (case map_of (tunnels db) (ident r) of
       None \<Rightarrow> (None, db)
     | Some row \<Rightarrow>
         if local_update row \<and> \<not> force then (Some KeptLocal, db)
         else if row_record row = r then (Some Unchanged, db)
         else (Some Updated,
           db\<lparr>tunnels := AList.update (ident r) (import_row r at (revision row + 1) now) (tunnels db)\<rparr>))"

definition try_import :: "world \<Rightarrow> StoredTunnel \<Rightarrow> nat option \<Rightarrow> bool \<Rightarrow> nat \<Rightarrow> ImportOutcome store_io"
  where "try_import w r at force now =
    io_bind (timed w (import_insert r at now)) (\<lambda>inserted.
      if inserted then io_return Inserted
      else io_bind (timed w (import_existing r at force now)) (\<lambda>outcome.
        case outcome of Some outcome \<Rightarrow> io_return outcome | None \<Rightarrow> io_fail Unavailable))"

text \<open>\<^verbatim>\<open>retryable\<close>: a duplicate key is answered by the statements themselves, which leaves the lock
  codes. At most six tries; the pause between them is the number of the try times 20 ms.\<close>

definition retryable :: "store_error \<Rightarrow> bool"
  where "retryable e = (e = Locked)"

fun import_tries :: "nat \<Rightarrow> world \<Rightarrow> StoredTunnel \<Rightarrow> nat option \<Rightarrow> bool \<Rightarrow> nat \<Rightarrow> ImportOutcome store_io" where
  "import_tries 0 w r at force now s = try_import w r at force now s"
| "import_tries (Suc n) w r at force now s =
     (case try_import w r at force now s of
        (Inl e, s) \<Rightarrow> if retryable e then import_tries n w r at force now s else (Inl e, s)
      | (Inr outcome, s) \<Rightarrow> (Inr outcome, s))"

definition import_tunnel :: "world \<Rightarrow> StoredTunnel \<Rightarrow> nat option \<Rightarrow> bool \<Rightarrow> nat \<Rightarrow> ImportOutcome store_io"
  where "import_tunnel w r at force now = import_tries 5 w r at force now"

definition export_page :: "world \<Rightarrow> string option \<Rightarrow> nat \<Rightarrow> (string \<times> StoredTunnel \<times> nat option) list store_io"
  where "export_page w after limit =
    timed w (select (\<lambda>db.
      map (\<lambda>(k, r). (k, row_record r, alarm_at r))
        (take limit (sort_key (\<lambda>(k, _). map code_of k)
          (filter (\<lambda>(k, _). (case after of Some a \<Rightarrow> map code_of a | None \<Rightarrow> []) < map code_of k)
            (tunnels db))))))"

subsection \<open>Jobs\<close>

definition insert_job :: "Job \<Rightarrow> nat \<Rightarrow> Db \<Rightarrow> bool \<times> Db"
  where "insert_job job at db =
    (case insert_row (job_certificate_id job)
        \<lparr>row_tunnel_id = job_tunnel_id job, row_kind = JobKind_as_str (job_kind job),
         row_identifiers = job_identifiers job, row_csr = job_csr job, row_status = ''pending'',
         row_attempts = job_attempts job, run_at = at, lease_owner = None, lease_until = None,
         last_error = None, row_created_at = job_created_at job,
         row_updated_at = job_created_at job\<rparr> (jobs db) of
       Some t \<Rightarrow> (True, db\<lparr>jobs := t\<rparr>)
     | None \<Rightarrow> (False, db))"

definition add_job :: "world \<Rightarrow> Job \<Rightarrow> nat \<Rightarrow> bool store_io"
  where "add_job w job at = timed w (insert_job job at)"

definition job_status :: "world \<Rightarrow> string \<Rightarrow> string option store_io"
  where "job_status w cid =
    timed w (select (\<lambda>db. map_option row_status (map_of (jobs db) cid)))"

definition job_exists :: "world \<Rightarrow> string \<Rightarrow> bool store_io"
  where "job_exists w cid = io_bind (job_status w cid) (\<lambda>st. io_return (st \<noteq> None))"

definition job_pending :: "world \<Rightarrow> string \<Rightarrow> bool store_io"
  where "job_pending w cid =
    io_bind (job_status w cid) (\<lambda>st. io_return (st = Some ''pending''))"

definition count_jobs :: "(JobRow \<Rightarrow> bool) \<Rightarrow> Db \<Rightarrow> nat"
  where "count_jobs c db = length (filter (\<lambda>(_, r). c r) (jobs db))"

definition job_counts :: "world \<Rightarrow> nat \<Rightarrow> (nat \<times> nat) store_io"
  where "job_counts w since =
    timed w (select (\<lambda>db.
      (count_jobs (\<lambda>r. row_status r = ''pending'') db,
       count_jobs (\<lambda>r. row_status r = ''failed'' \<and> since \<le> row_updated_at r) db)))"

definition leased_at :: "nat \<Rightarrow> JobRow \<Rightarrow> bool"
  where "leased_at now r = (case lease_until r of Some ends \<Rightarrow> now \<le> ends | None \<Rightarrow> False)"

definition leased_job_identifiers :: "world \<Rightarrow> nat \<Rightarrow> string list store_io"
  where "leased_job_identifiers w now =
    timed w (select (\<lambda>db.
      concat (map (\<lambda>(_, r). row_identifiers r)
        (filter (\<lambda>(_, r). row_status r = ''pending'' \<and> leased_at now r) (jobs db)))))"

definition pending_jobs :: "world \<Rightarrow> nat store_io"
  where "pending_jobs w = timed w (select (count_jobs (\<lambda>r. row_status r = ''pending'')))"

definition may_claim :: "string \<Rightarrow> nat \<Rightarrow> JobRow \<Rightarrow> bool"
  where "may_claim owner now r =
    (row_status r = ''pending'' \<and> run_at r \<le> now \<and>
     (case lease_until r of None \<Rightarrow> True | Some ends \<Rightarrow> ends < now \<or> lease_owner r = Some owner))"

definition due_job_ids :: "world \<Rightarrow> string \<Rightarrow> nat \<Rightarrow> nat \<Rightarrow> string list store_io"
  where "due_job_ids w owner now limit =
    timed w (select (\<lambda>db.
      map fst (take limit (sort_key (\<lambda>(_, r). run_at r)
        (filter (\<lambda>(_, r). may_claim owner now r) (jobs db))))))"

definition update_job :: "string \<Rightarrow> (JobRow \<Rightarrow> bool) \<Rightarrow> (JobRow \<Rightarrow> JobRow) \<Rightarrow> Db \<Rightarrow> nat \<times> Db"
  where "update_job cid c f db =
    (case update_row cid c f (jobs db) of (n, t) \<Rightarrow> (n, db\<lparr>jobs := t\<rparr>))"

definition claim_statement :: "string \<Rightarrow> string \<Rightarrow> nat \<Rightarrow> Db \<Rightarrow> nat \<times> Db"
  where "claim_statement cid owner now =
    update_job cid (may_claim owner now)
      (\<lambda>r. r\<lparr>lease_owner := Some owner, lease_until := Some (now + LEASE_MS)\<rparr>)"

definition claim_job :: "world \<Rightarrow> string \<Rightarrow> string \<Rightarrow> nat \<Rightarrow> Job option store_io"
  where "claim_job w cid owner now =
    io_bind (timed w (claim_statement cid owner now)) (\<lambda>claimed.
      if claimed = 0 then io_return None
      else timed w (select (\<lambda>db.
        case map_of (jobs db) cid of
          Some r \<Rightarrow> if lease_owner r = Some owner then Some (job_from_row cid r) else None
        | None \<Rightarrow> None)))"

fun claim_each :: "world \<Rightarrow> string \<Rightarrow> nat \<Rightarrow> string list \<Rightarrow> Job list store_io" where
  "claim_each w owner now [] = io_return []"
| "claim_each w owner now (cid # ids) =
     io_bind (claim_job w cid owner now) (\<lambda>job.
       io_bind (claim_each w owner now ids) (\<lambda>claimed.
         io_return (case job of Some job \<Rightarrow> job # claimed | None \<Rightarrow> claimed)))"

definition claim_due_jobs :: "world \<Rightarrow> string \<Rightarrow> nat \<Rightarrow> nat \<Rightarrow> Job list store_io"
  where "claim_due_jobs w owner now limit =
    io_bind (due_job_ids w owner now limit) (claim_each w owner now)"

definition extend_statement :: "string \<Rightarrow> string \<Rightarrow> nat \<Rightarrow> Db \<Rightarrow> nat \<times> Db"
  where "extend_statement cid owner now =
    update_job cid (\<lambda>r. lease_owner r = Some owner \<and> row_status r = ''pending'')
      (\<lambda>r. r\<lparr>lease_until := Some (now + LEASE_MS)\<rparr>)"

definition extend_lease :: "world \<Rightarrow> string \<Rightarrow> string \<Rightarrow> nat \<Rightarrow> bool store_io"
  where "extend_lease w cid owner now =
    io_bind (timed w (extend_statement cid owner now)) (\<lambda>n. io_return (n = 1))"

definition release_statement :: "string \<Rightarrow> Db \<Rightarrow> unit \<times> Db"
  where "release_statement owner db =
    ((), db\<lparr>jobs := update_rows (\<lambda>r. lease_owner r = Some owner)
      (\<lambda>r. r\<lparr>lease_owner := None, lease_until := None\<rparr>) (jobs db)\<rparr>)"

definition release_leases :: "world \<Rightarrow> string \<Rightarrow> unit store_io"
  where "release_leases w owner = timed w (release_statement owner)"

definition finish_statement :: "string \<Rightarrow> string \<Rightarrow> string \<Rightarrow> string option \<Rightarrow> nat \<Rightarrow> Db \<Rightarrow> nat \<times> Db"
  where "finish_statement cid owner st e now =
    update_job cid (\<lambda>r. lease_owner r = Some owner)
      (\<lambda>r. r\<lparr>row_status := st, last_error := e, row_updated_at := now, lease_owner := None,
        lease_until := None\<rparr>)"

definition finish_job :: "world \<Rightarrow> string \<Rightarrow> string \<Rightarrow> string \<Rightarrow> string option \<Rightarrow> nat \<Rightarrow> bool store_io"
  where "finish_job w cid owner st e now =
    io_bind (timed w (finish_statement cid owner st e now)) (\<lambda>n. io_return (n = 1))"

definition retry_statement :: "string \<Rightarrow> string \<Rightarrow> nat \<Rightarrow> nat \<Rightarrow> string \<Rightarrow> nat \<Rightarrow> Db \<Rightarrow> nat \<times> Db"
  where "retry_statement cid owner tries at e now =
    update_job cid (\<lambda>r. lease_owner r = Some owner)
      (\<lambda>r. r\<lparr>row_attempts := tries, run_at := at, last_error := Some e, row_updated_at := now,
        lease_owner := None, lease_until := None\<rparr>)"

definition retry_job :: "world \<Rightarrow> string \<Rightarrow> string \<Rightarrow> nat \<Rightarrow> nat \<Rightarrow> string \<Rightarrow> nat \<Rightarrow> bool store_io"
  where "retry_job w cid owner tries at e now =
    io_bind (timed w (retry_statement cid owner tries at e now)) (\<lambda>n. io_return (n = 1))"

definition failed_issue_jobs :: "world \<Rightarrow> nat \<Rightarrow> FailedJob list store_io"
  where "failed_issue_jobs w since =
    timed w (select (\<lambda>db. map (\<lambda>(k, r). failed_job_from_row k r)
      (filter (\<lambda>(_, r). row_status r = ''failed'' \<and> row_kind r = ''issue'' \<and>
        since \<le> row_updated_at r) (jobs db))))"

text \<open>\<open>LIKE '%...%'\<close> with a pattern that has no wildcard of its own is a substring test.\<close>

definition authz_pending_issue_jobs :: "world \<Rightarrow> nat \<Rightarrow> nat \<Rightarrow> FailedJob list store_io"
  where "authz_pending_issue_jobs w before since =
    timed w (select (\<lambda>db. map (\<lambda>(k, r). failed_job_from_row k r)
      (filter (\<lambda>(_, r). row_kind r = ''issue'' \<and> row_status r \<in> {''failed'', ''pending''} \<and>
        row_created_at r < before \<and> since \<le> row_updated_at r \<and>
        (case last_error r of
           Some e \<Rightarrow> contains_str e ''authorization ended in pending'' | None \<Rightarrow> False)) (jobs db))))"

definition requeued :: "nat \<Rightarrow> nat \<Rightarrow> JobRow \<Rightarrow> JobRow"
  where "requeued queued now r =
    r\<lparr>row_status := ''pending'', row_attempts := 0, run_at := now, row_created_at := queued,
      row_updated_at := now, lease_owner := None, lease_until := None\<rparr>"

definition requeue_before_statement :: "string \<Rightarrow> nat \<Rightarrow> nat \<Rightarrow> Db \<Rightarrow> nat \<times> Db"
  where "requeue_before_statement cid before now =
    update_job cid
      (\<lambda>r. row_status r \<in> {''failed'', ''pending''} \<and> row_created_at r < before \<and>
        (case lease_until r of None \<Rightarrow> True | Some ends \<Rightarrow> ends < now))
      (requeued (max now before) now)"

definition requeue_job_queued_before :: "world \<Rightarrow> string \<Rightarrow> nat \<Rightarrow> nat \<Rightarrow> bool store_io"
  where "requeue_job_queued_before w cid before now =
    io_bind (timed w (requeue_before_statement cid before now)) (\<lambda>n. io_return (n = 1))"

definition requeue_failed_statement :: "string \<Rightarrow> nat \<Rightarrow> Db \<Rightarrow> nat \<times> Db"
  where "requeue_failed_statement cid now =
    update_job cid (\<lambda>r. row_status r = ''failed'') (requeued now now)"

definition requeue_failed_job :: "world \<Rightarrow> string \<Rightarrow> nat \<Rightarrow> bool store_io"
  where "requeue_failed_job w cid now =
    io_bind (timed w (requeue_failed_statement cid now)) (\<lambda>n. io_return (n = 1))"

definition ready_at :: "string \<Rightarrow> JobRow \<Rightarrow> nat"
  where "ready_at owner r =
    max (run_at r)
      (case lease_until r of
         None \<Rightarrow> 0
       | Some ends \<Rightarrow> if lease_owner r = Some owner then 0 else ends + 1)"

text \<open>\<open>ORDER BY ready_at > now, kind = 'issue', ready_at\<close>: sorting by the last key first.\<close>

definition schedule_order :: "nat \<Rightarrow> (string \<times> nat \<times> string) list \<Rightarrow> (string \<times> nat \<times> string) list"
  where "schedule_order now rows =
    sort_key (\<lambda>(_, at, _). now < at)
      (sort_key (\<lambda>(_, _, kind). kind = ''issue'') (sort_key (\<lambda>(_, at, _). at) rows))"

definition job_schedule :: "world \<Rightarrow> string \<Rightarrow> nat \<Rightarrow> nat \<Rightarrow> (string \<times> nat \<times> JobKind) list store_io"
  where "job_schedule w owner now limit =
    io_bind (timed w (select (\<lambda>db. take limit (schedule_order now
        (map (\<lambda>(k, r). (k, ready_at owner r, row_kind r))
          (filter (\<lambda>(_, r). row_status r = ''pending'') (jobs db)))))))
      (\<lambda>rows. io_return (map (\<lambda>(k, at, kind). (k, at, JobKind_parse kind)) rows))"

subsection \<open>Certificates of the server, and meta\<close>

definition server_certificate :: "world \<Rightarrow> string \<Rightarrow> ServerCertificate option store_io"
  where "server_certificate w name =
    timed w (select (\<lambda>db. map_of (server_certificates db) name))"

definition insert_server_certificate :: "string \<Rightarrow> ServerCertificate \<Rightarrow> Db \<Rightarrow> unit \<times> Db"
  where "insert_server_certificate name c db =
    (case insert_row name c (server_certificates db) of
       Some t \<Rightarrow> ((), db\<lparr>server_certificates := t\<rparr>)
     | None \<Rightarrow> ((), db))"

definition create_server_certificate :: "world \<Rightarrow> string \<Rightarrow> ServerCertificate \<Rightarrow> ServerCertificate store_io"
  where "create_server_certificate w name c =
    io_bind (timed w (insert_server_certificate name c)) (\<lambda>_.
      io_bind (server_certificate w name) (\<lambda>found.
        case found of Some c \<Rightarrow> io_return c | None \<Rightarrow> io_fail Disappeared))"

definition update_server_certificate :: "string \<Rightarrow> ServerCertificate \<Rightarrow> Db \<Rightarrow> unit \<times> Db"
  where "update_server_certificate name c db =
    ((), db\<lparr>server_certificates := snd (update_row name (\<lambda>s. server_csr s = server_csr c)
      (\<lambda>s. s\<lparr>server_cert := server_cert c, server_chain := server_chain c,
        server_expiry := server_expiry c\<rparr>) (server_certificates db))\<rparr>)"

definition save_server_certificate :: "world \<Rightarrow> string \<Rightarrow> ServerCertificate \<Rightarrow> unit store_io"
  where "save_server_certificate w name c = timed w (update_server_certificate name c)"

definition meta :: "world \<Rightarrow> string \<Rightarrow> string option store_io"
  where "meta w key = timed w (select (\<lambda>db. map_of (meta_rows db) key))"

definition write_meta :: "string \<Rightarrow> string \<Rightarrow> Db \<Rightarrow> unit \<times> Db"
  where "write_meta key value db = ((), db\<lparr>meta_rows := AList.update key value (meta_rows db)\<rparr>)"

definition set_meta :: "world \<Rightarrow> string \<Rightarrow> string \<Rightarrow> unit store_io"
  where "set_meta w key value = timed w (write_meta key value)"

definition swap_statement :: "string \<Rightarrow> string option \<Rightarrow> string \<Rightarrow> Db \<Rightarrow> bool \<times> Db"
  where "swap_statement key expected value db =
    (case expected of
       None \<Rightarrow>
         (case insert_row key value (meta_rows db) of
            Some t \<Rightarrow> (True, db\<lparr>meta_rows := t\<rparr>) | None \<Rightarrow> (False, db))
     | Some expected \<Rightarrow>
         (case update_row key (\<lambda>v. v = expected) (\<lambda>_. value) (meta_rows db) of
            (n, t) \<Rightarrow> (n = 1, db\<lparr>meta_rows := t\<rparr>)))"

definition swap_meta :: "world \<Rightarrow> string \<Rightarrow> string option \<Rightarrow> string \<Rightarrow> bool store_io"
  where "swap_meta w key expected value = timed w (swap_statement key expected value)"

end
