(* ===== verification/Store_Safety.thy ===== *)
theory Store_Safety
  imports Store
begin

text \<open>
  What the shared database promises to the machines that use it concurrently: a labelled step
  relation with one rule per statement of \<open>Store\<close> that changes rows, the well-formedness of the
  tables as its invariant, and three interfaces proved once as locales and interpreted on the
  statements: versioned records (no lost update, one winner), leases (a job has one runner) and
  operations that keep a predicate of the database.
\<close>

section \<open>Steps of the deployment\<close>

text \<open>A label says what kind of statement ran, on which machine and at what time. \<open>Arm\<close> is a
  statement that may set the alarm of a tunnel.\<close>

datatype action = Write string | Arm string | Disarm string | Jobs | Settings

inductive db_step :: "action \<Rightarrow> string \<Rightarrow> nat \<Rightarrow> Db \<Rightarrow> Db \<Rightarrow> bool" where
  insert: "db_step (Write (ident r)) m now db (snd (insert_tunnel r now db))"
| update: "db_step (Write (ident r)) m now db (snd (update_tunnel r seen now db))"
| upsert: "db_step (Write (ident r)) m now db (snd (upsert_tunnel r now db))"
| set: "db_step (Arm tid) m now db (snd (write_alarm tid at db))"
| clear: "db_step (Disarm tid) m now db (snd (clear_alarm tid at db))"
| import_new: "db_step (Arm (ident r)) m now db (snd (import_insert r at now db))"
| import_old: "db_step (Arm (ident r)) m now db (snd (import_existing r at force now db))"
| add: "db_step Jobs m now db (snd (insert_job job at db))"
| claim: "db_step Jobs m now db (snd (claim_statement cid m now db))"
| extend: "db_step Jobs m now db (snd (extend_statement cid m now db))"
| release: "db_step Jobs m now db (snd (release_statement m db))"
| finish: "st \<in> {''done'', ''failed'', ''abandoned''} \<Longrightarrow>
    db_step Jobs m now db (snd (finish_statement cid m st e now db))"
| retry: "db_step Jobs m now db (snd (retry_statement cid m tries at e now db))"
| requeue_before: "db_step Jobs m now db (snd (requeue_before_statement cid before now db))"
| requeue_failed: "db_step Jobs m now db (snd (requeue_failed_statement cid now db))"
| certificate_new: "db_step Settings m now db (snd (insert_server_certificate name c db))"
| certificate_set: "db_step Settings m now db (snd (update_server_certificate name c db))"
| meta_set: "db_step Settings m now db (snd (write_meta key value db))"
| meta_swap: "db_step Settings m now db (snd (swap_statement key expected value db))"

inductive_cases db_stepE: "db_step a m now db db'"

text \<open>Runs of labelled steps.\<close>

inductive db_run :: "(action \<times> string \<times> nat) list \<Rightarrow> Db \<Rightarrow> Db \<Rightarrow> bool" where
  nil: "db_run [] db db"
| cons: "db_step a m now db db1 \<Longrightarrow> db_run ls db1 db2 \<Longrightarrow> db_run ((a, m, now) # ls) db db2"

section \<open>The effect of a step on one row\<close>

text \<open>Every write of a record bumps its revision; the alarm alone may change without it.\<close>

definition row_next :: "TunnelRow \<Rightarrow> TunnelRow \<Rightarrow> bool"
  where "row_next r r' =
    (revision r' = Suc (revision r) \<or> (\<exists>at. r' = r\<lparr>alarm_at := at\<rparr>))"

definition row_ok :: "string \<Rightarrow> TunnelRow \<Rightarrow> bool"
  where "row_ok tid r =
    (0 < revision r \<and> ident (row_record r) = tid \<and>
     (deleted r, issuing r) = record_flags (row_record r))"

definition job_ok :: "JobRow \<Rightarrow> bool"
  where "job_ok r =
    (row_status r \<in> {''pending'', ''done'', ''failed'', ''abandoned''} \<and>
     (lease_owner r = None \<longleftrightarrow> lease_until r = None) \<and>
     (row_status r \<noteq> ''pending'' \<longrightarrow> lease_owner r = None) \<and>
     row_kind r \<in> {''issue'', ''renew'', ''server''})"

definition jobs_ok :: "(string, JobRow) table \<Rightarrow> bool"
  where "jobs_ok t = (\<forall>cid r. map_of t cid = Some r \<longrightarrow> job_ok r)"

definition db_ok :: "Db \<Rightarrow> bool"
  where "db_ok db =
    (distinct (map fst (tunnels db)) \<and> distinct (map fst (jobs db)) \<and>
     (\<forall>tid r. map_of (tunnels db) tid = Some r \<longrightarrow> row_ok tid r) \<and> jobs_ok (jobs db))"

named_theorems statements

lemmas [statements] =
  insert_tunnel_def update_tunnel_def upsert_tunnel_def write_alarm_def clear_alarm_def
  import_insert_def import_existing_def insert_job_def claim_statement_def extend_statement_def
  release_statement_def finish_statement_def retry_statement_def requeue_before_statement_def
  requeue_failed_statement_def insert_server_certificate_def update_server_certificate_def
  write_meta_def swap_statement_def update_job_def

lemma insert_row_split:
  "(case insert_row k r t of Some t' \<Rightarrow> f t' | None \<Rightarrow> g) =
     (if map_of t k = None then f (t @ [(k, r)]) else g)"
  by (simp add: insert_row_def)

lemma map_of_append_new [simp]:
  "map_of t k = None \<Longrightarrow> map_of (t @ [(k, r)]) = (map_of t)(k \<mapsto> r)"
  by (auto simp: fun_eq_iff map_add_def split: option.splits)

declare map_of_append [simp del]

lemma tunnels_jobs_step [simp]:
  "tunnels (snd (insert_job job at db)) = tunnels db"
  "tunnels (snd (update_job cid c f db)) = tunnels db"
  "tunnels (snd (release_statement m db)) = tunnels db"
  "tunnels (snd (insert_server_certificate name c' db)) = tunnels db"
  "tunnels (snd (update_server_certificate name c' db)) = tunnels db"
  "tunnels (snd (write_meta key v db)) = tunnels db"
  "tunnels (snd (swap_statement key ex v db)) = tunnels db"
  by (auto simp: statements split: option.splits prod.splits)

lemma jobs_other_step [simp]:
  "jobs (snd (insert_tunnel r now db)) = jobs db"
  "jobs (snd (update_tunnel r seen now db)) = jobs db"
  "jobs (snd (upsert_tunnel r now db)) = jobs db"
  "jobs (snd (write_alarm tid at db)) = jobs db"
  "jobs (snd (clear_alarm tid at' db)) = jobs db"
  "jobs (snd (import_insert r at now db)) = jobs db"
  "jobs (snd (import_existing r at force now db)) = jobs db"
  "jobs (snd (insert_server_certificate name c db)) = jobs db"
  "jobs (snd (update_server_certificate name c db)) = jobs db"
  "jobs (snd (write_meta key v db)) = jobs db"
  "jobs (snd (swap_statement key ex v db)) = jobs db"
  by (auto simp: statements split: option.splits prod.splits bool.splits)

lemma update_row_row:
  "map_of t k' = Some r \<Longrightarrow>
     map_of (snd (update_row k c f t)) k' = Some (if k' = k \<and> c r then f r else r)"
  by (auto simp: update_row_map_of split: option.splits)

lemma row_next_refl [simp]: "row_next r r"
  unfolding row_next_def by (rule disjI2, rule exI [of _ "alarm_at r"]) simp

lemma row_next_write [simp]: "row_next r (write_record rec now r)"
  by (simp add: row_next_def write_record_def)

lemma row_next_alarm [simp]: "row_next r (r\<lparr>alarm_at := at\<rparr>)"
  by (auto simp: row_next_def)

lemma row_next_import [simp]: "row_next r (import_row rec at (Suc (revision r)) now)"
  by (simp add: row_next_def import_row_def)

lemma step_row_next:
  assumes "db_step a m now db db'" "map_of (tunnels db) tid = Some r"
  shows "\<exists>r'. map_of (tunnels db') tid = Some r' \<and> row_next r r'"
  using assms
  by (cases rule: db_step.cases)
    (auto simp: statements case_prod_unfold insert_row_split update_row_row update_conv' split: option.splits bool.splits)

lemma step_row_new:
  assumes "db_step a m now db db'" "map_of (tunnels db) tid = None"
    "map_of (tunnels db') tid = Some r"
  shows "revision r = 1"
  using assms
  by (cases rule: db_step.cases)
    (auto simp: statements case_prod_unfold insert_row_split update_row_map_of update_conv' import_row_def
      split: option.splits bool.splits if_splits)

lemma row_ok_write [simp]:
  "row_ok tid r \<Longrightarrow> tid = ident rec \<Longrightarrow> row_ok tid (write_record rec now r)"
  by (simp add: row_ok_def write_record_def)

lemma row_ok_alarm [simp]: "row_ok tid (r\<lparr>alarm_at := at\<rparr>) = row_ok tid r"
  by (simp add: row_ok_def)

lemma row_ok_import [simp]: "0 < n \<Longrightarrow> row_ok (ident rec) (import_row rec at n now)"
  by (simp add: row_ok_def import_row_def)

lemma step_row_ok:
  assumes "db_step a m now db db'" "\<forall>tid r. map_of (tunnels db) tid = Some r \<longrightarrow> row_ok tid r"
    "map_of (tunnels db') tid = Some r"
  shows "row_ok tid r"
  using assms
  by (cases rule: db_step.cases)
    (auto simp: statements case_prod_unfold insert_row_split update_row_map_of update_conv' row_ok_def
      write_record_def import_row_def split: option.splits bool.splits if_splits)

lemma jobs_ok_update [intro]:
  assumes "jobs_ok (jobs db)" "\<And>r. job_ok r \<Longrightarrow> c r \<Longrightarrow> job_ok (f r)"
  shows "jobs_ok (jobs (snd (update_job cid c f db)))"
  using assms by (auto simp: jobs_ok_def update_job_def update_row_map_of case_prod_unfold
    split: option.splits if_splits)

lemma jobs_ok_insert: "jobs_ok (jobs db) \<Longrightarrow> jobs_ok (jobs (snd (insert_job job at db)))"
  by (auto simp: jobs_ok_def insert_job_def insert_row_split job_ok_def JobKind_as_str_def
    split: JobKind.splits if_splits)

lemma job_ok_released: "job_ok r \<Longrightarrow> job_ok (r\<lparr>lease_owner := None, lease_until := None\<rparr>)"
  by (simp add: job_ok_def)

lemma jobs_ok_release: "jobs_ok (jobs db) \<Longrightarrow> jobs_ok (jobs (snd (release_statement m db)))"
  by (auto simp: jobs_ok_def release_statement_def update_rows_map_of intro: job_ok_released)

lemma job_ok_kept:
  "job_ok r \<Longrightarrow> may_claim m now r \<Longrightarrow> job_ok (r\<lparr>lease_owner := Some m, lease_until := Some ends\<rparr>)"
  "job_ok r \<Longrightarrow> lease_owner r = Some m \<and> row_status r = ''pending'' \<Longrightarrow>
     job_ok (r\<lparr>lease_until := Some ends\<rparr>)"
  "job_ok r \<Longrightarrow> st \<in> {''done'', ''failed'', ''abandoned''} \<Longrightarrow>
     job_ok (r\<lparr>row_status := st, last_error := e, row_updated_at := now, lease_owner := None,
       lease_until := None\<rparr>)"
  "job_ok r \<Longrightarrow> job_ok (r\<lparr>row_attempts := tries, run_at := at, last_error := e, row_updated_at := now,
     lease_owner := None, lease_until := None\<rparr>)"
  "job_ok r \<Longrightarrow> job_ok (requeued queued now r)"
  by (auto simp: job_ok_def may_claim_def requeued_def)

lemma step_job_ok:
  assumes "db_step a m now db db'" "jobs_ok (jobs db)"
  shows "jobs_ok (jobs db')"
  using assms
  by (cases rule: db_step.cases)
    (simp_all add: jobs_ok_insert jobs_ok_release claim_statement_def extend_statement_def
      finish_statement_def retry_statement_def requeue_before_statement_def
      requeue_failed_statement_def jobs_ok_update job_ok_kept)

lemma step_distinct:
  assumes "db_step a m now db db'"
  shows "distinct (map fst (tunnels db)) \<Longrightarrow> distinct (map fst (tunnels db'))"
    and "distinct (map fst (jobs db)) \<Longrightarrow> distinct (map fst (jobs db'))"
  using assms
  by (cases rule: db_step.cases;
      auto simp: statements case_prod_unfold insert_row_split map_of_eq_None_iff distinct_update distinct_update_rows
      split: option.splits bool.splits dest: distinct_update_row)+

theorem db_ok_step: "db_step a m now db db' \<Longrightarrow> db_ok db \<Longrightarrow> db_ok db'"
  unfolding db_ok_def using step_distinct step_row_ok step_job_ok by meson

lemma db_ok_run: "db_run ls db db' \<Longrightarrow> db_ok db \<Longrightarrow> db_ok db'"
  by (induction rule: db_run.induct) (auto intro: db_ok_step)

section \<open>Versioned records\<close>

text \<open>A store of records with versions that many writers change: a write names the version it read,
  zero for no record. The laws are about one write and one step; the lemmas about any run.\<close>

locale versioned =
  fixes ok :: "'db \<Rightarrow> bool"
    and step :: "'db \<Rightarrow> 'db \<Rightarrow> bool"
    and key :: "'v \<Rightarrow> 'k"
    and look :: "'k \<Rightarrow> 'db \<Rightarrow> ('v \<times> nat) option"
    and put :: "'v \<Rightarrow> nat \<Rightarrow> 'db \<Rightarrow> bool \<times> 'db"
  assumes step_ok: "ok db \<Longrightarrow> step db db' \<Longrightarrow> ok db'"
    and step_forward: "ok db \<Longrightarrow> step db db' \<Longrightarrow>
      look k db' = look k db \<or>
      (case look k db of None \<Rightarrow> 0 | Some (_, n) \<Rightarrow> n) < (case look k db' of None \<Rightarrow> 0 | Some (_, n) \<Rightarrow> n)"
    and write_iff: "ok db \<Longrightarrow>
      fst (put v n db) \<longleftrightarrow> (case look (key v) db of None \<Rightarrow> 0 | Some (_, n) \<Rightarrow> n) = n"
    and write_reads: "ok db \<Longrightarrow> fst (put v n db) \<Longrightarrow> look (key v) (snd (put v n db)) = Some (v, Suc n)"
    and write_other: "k \<noteq> key v \<Longrightarrow> look k (snd (put v n db)) = look k db"
    and write_failed: "\<not> fst (put v n db) \<Longrightarrow> snd (put v n db) = db"
    and write_step: "fst (put v n db) \<Longrightarrow> step db (snd (put v n db))"
begin

definition version_of :: "'k \<Rightarrow> 'db \<Rightarrow> nat"
  where "version_of k db = (case look k db of None \<Rightarrow> 0 | Some (_, n) \<Rightarrow> n)"

lemma steps_ok: "step\<^sup>*\<^sup>* db db' \<Longrightarrow> ok db \<Longrightarrow> ok db'"
  by (induction rule: rtranclp_induct) (auto intro: step_ok)

lemma steps_forward:
  "step\<^sup>*\<^sup>* db db' \<Longrightarrow> ok db \<Longrightarrow>
     version_of k db \<le> version_of k db' \<and> (version_of k db' = version_of k db \<longrightarrow> look k db' = look k db)"
proof (induction rule: rtranclp_induct)
  case (step y z)
  have "look k z = look k y \<or> version_of k y < version_of k z"
    unfolding version_of_def using step_forward steps_ok step.hyps step.prems by blast
  with step show ?case by (auto simp: version_of_def)
qed simp

lemma no_lost_update:
  assumes "ok db" "step\<^sup>*\<^sup>* db db'" "fst (put v (version_of (key v) db) db')"
  shows "look (key v) db' = look (key v) db"
proof -
  have "version_of (key v) db' = version_of (key v) db"
    using write_iff [OF steps_ok [OF assms(2,1)]] assms(3) by (simp add: version_of_def)
  then show ?thesis using steps_forward [OF assms(2,1)] by blast
qed

lemma one_winner:
  assumes "ok db" "step\<^sup>*\<^sup>* db db1" "fst (put v n db1)" "step\<^sup>*\<^sup>* (snd (put v n db1)) db2"
    "key v' = key v"
  shows "put v' n db2 = (False, db2)"
proof -
  let ?w = "snd (put v n db1)"
  have ok1: "ok db1" and okw: "ok ?w"
    using steps_ok assms(1,2) step_ok write_step [OF assms(3)] by blast+
  have "version_of (key v) ?w = Suc n"
    using write_reads [OF ok1 assms(3)] by (simp add: version_of_def)
  then have "n < version_of (key v') db2"
    using steps_forward [OF assms(4) okw, of "key v"] assms(5) by simp
  then have "\<not> fst (put v' n db2)"
    using write_iff [OF steps_ok [OF assms(4) okw]] by (simp add: version_of_def)
  then show ?thesis using write_failed [of v' n db2] by (simp add: prod_eq_iff)
qed

end

text \<open>The statement of \<^verbatim>\<open>save_tunnel\<close> and what it reads.\<close>

definition save_statement :: "nat \<Rightarrow> StoredTunnel \<Rightarrow> nat \<Rightarrow> Db \<Rightarrow> bool \<times> Db"
  where "save_statement now r seen db =
    (if seen = 0 then insert_tunnel r now db
     else (case update_tunnel r seen now db of (n, db) \<Rightarrow> (n \<noteq> 0, db)))"

definition stored :: "string \<Rightarrow> Db \<Rightarrow> (StoredTunnel \<times> nat) option"
  where "stored tid db = map_option (\<lambda>r. (row_record r, revision r)) (map_of (tunnels db) tid)"

definition any_step :: "Db \<Rightarrow> Db \<Rightarrow> bool"
  where "any_step db db' = (\<exists>a m now. db_step a m now db db')"

lemma save_tunnel_is_statement:
  "save_tunnel w r seen now =
     io_bind (timed w (save_statement now r seen))
       (\<lambda>saved. if saved then io_return (seen + 1) else io_fail Conflict)"
  by (rule ext)
    (auto simp: save_tunnel_def save_statement_def io_bind_def timed_def io_return_def io_fail_def
      case_prod_unfold split: sum.splits fault.splits prod.splits)

lemma stored_step:
  assumes "db_ok db" "any_step db db'"
  shows "stored tid db' = stored tid db \<or>
    (case stored tid db of None \<Rightarrow> 0 | Some (_, n) \<Rightarrow> n) < (case stored tid db' of None \<Rightarrow> 0 | Some (_, n) \<Rightarrow> n)"
proof -
  obtain a m now where st: "db_step a m now db db'" using assms(2) by (auto simp: any_step_def)
  show ?thesis
  proof (cases "map_of (tunnels db) tid")
    case None
    then show ?thesis using step_row_new [OF st None]
      by (cases "map_of (tunnels db') tid") (auto simp: stored_def)
  next
    case (Some r)
    then obtain r' where "map_of (tunnels db') tid = Some r'" "row_next r r'"
      using step_row_next [OF st] by blast
    with Some show ?thesis by (auto simp: stored_def row_next_def)
  qed
qed

lemma save_statement_iff:
  assumes "db_ok db"
  shows "fst (save_statement now r seen db) \<longleftrightarrow>
    (case stored (ident r) db of None \<Rightarrow> 0 | Some (_, n) \<Rightarrow> n) = seen"
  using assms
  by (cases "map_of (tunnels db) (ident r)")
    (auto simp: save_statement_def stored_def insert_tunnel_def update_tunnel_def insert_row_split
      update_row_def db_ok_def row_ok_def)

lemma save_statement_step: "any_step db (snd (save_statement now r seen db))"
  unfolding any_step_def save_statement_def
  by (cases "seen = 0") (auto simp: case_prod_unfold intro: db_step.intros)

interpretation tunnel_rows: versioned db_ok any_step ident stored "save_statement now" for now
proof
  fix db db' k and v :: StoredTunnel and n
  show "db_ok db \<Longrightarrow> any_step db db' \<Longrightarrow> db_ok db'" by (auto simp: any_step_def intro: db_ok_step)
  show "db_ok db \<Longrightarrow> any_step db db' \<Longrightarrow> stored k db' = stored k db \<or>
      (case stored k db of None \<Rightarrow> 0 | Some (_, n) \<Rightarrow> n) < (case stored k db' of None \<Rightarrow> 0 | Some (_, n) \<Rightarrow> n)"
    by (rule stored_step)
  show "db_ok db \<Longrightarrow> fst (save_statement now v n db) \<longleftrightarrow>
      (case stored (ident v) db of None \<Rightarrow> 0 | Some (_, n) \<Rightarrow> n) = n"
    by (rule save_statement_iff)
  show "fst (save_statement now v n db) \<Longrightarrow>
      stored (ident v) (snd (save_statement now v n db)) = Some (v, Suc n)"
    by (auto simp: save_statement_def stored_def insert_tunnel_def update_tunnel_def insert_row_split
      update_row_def update_conv' write_record_def split: option.splits if_splits)
  show "k \<noteq> ident v \<Longrightarrow> stored k (snd (save_statement now v n db)) = stored k db"
    by (auto simp: save_statement_def stored_def insert_tunnel_def update_tunnel_def insert_row_split
      update_row_def update_conv' split: option.splits if_splits)
  show "\<not> fst (save_statement now v n db) \<Longrightarrow> snd (save_statement now v n db) = db"
    by (auto simp: save_statement_def insert_tunnel_def update_tunnel_def insert_row_split
      update_row_def split: option.splits if_splits)
  show "fst (save_statement now v n db) \<Longrightarrow> any_step db (snd (save_statement now v n db))"
    by (rule save_statement_step)
qed

section \<open>Leases\<close>

text \<open>Work that one machine at a time may hold until an agreed moment: until then nobody else's
  step takes it away.\<close>

locale leases =
  fixes ok :: "'db \<Rightarrow> bool"
    and step :: "'l \<Rightarrow> 'm \<Rightarrow> nat \<Rightarrow> 'db \<Rightarrow> 'db \<Rightarrow> bool"
    and run :: "('l \<times> 'm \<times> nat) list \<Rightarrow> 'db \<Rightarrow> 'db \<Rightarrow> bool"
    and holder :: "'k \<Rightarrow> 'db \<Rightarrow> ('m \<times> nat) option"
    and claim :: "'k \<Rightarrow> 'm \<Rightarrow> nat \<Rightarrow> 'db \<Rightarrow> nat \<times> 'db"
    and lease :: nat
  assumes run_nil: "run [] db db' \<Longrightarrow> db' = db"
    and run_cons: "run ((l, m, now) # ls) db db' \<Longrightarrow> \<exists>db1. step l m now db db1 \<and> run ls db1 db'"
    and lease_ok: "ok db \<Longrightarrow> step l m now db db' \<Longrightarrow> ok db'"
    and respected: "ok db \<Longrightarrow> step l m now db db' \<Longrightarrow> holder k db = Some (owner, ends) \<Longrightarrow>
      m \<noteq> owner \<Longrightarrow> now \<le> ends \<Longrightarrow> holder k db' = Some (owner, ends)"
    and claim_holds: "fst (claim k m now db) = 1 \<Longrightarrow> holder k (snd (claim k m now db)) = Some (m, now + lease)"
    and claim_refused: "ok db \<Longrightarrow> holder k db = Some (owner, ends) \<Longrightarrow> m \<noteq> owner \<Longrightarrow> now \<le> ends \<Longrightarrow>
      claim k m now db = (0, db)"
begin

lemma held_along:
  "run ls db db' \<Longrightarrow> ok db \<Longrightarrow> holder k db = Some (owner, ends) \<Longrightarrow>
     \<forall>(l, m, now) \<in> set ls. m \<noteq> owner \<and> now \<le> ends \<Longrightarrow> ok db' \<and> holder k db' = Some (owner, ends)"
proof (induction ls arbitrary: db)
  case (Cons x ls)
  obtain l m now where x: "x = (l, m, now)" by (cases x)
  obtain db1 where "step l m now db db1" "run ls db1 db'" using run_cons Cons.prems(1) x by blast
  then show ?case using Cons x respected lease_ok by auto
qed (auto dest: run_nil)

lemma one_runner:
  assumes "ok db" "fst (claim k owner t db) = 1" "ok (snd (claim k owner t db))"
    "run ls (snd (claim k owner t db)) db'"
    "\<forall>(l, m, now) \<in> set ls. m \<noteq> owner \<and> now \<le> t + lease" "m \<noteq> owner" "now \<le> t + lease"
  shows "claim k m now db' = (0, db') \<and> holder k db' = Some (owner, t + lease)"
  using held_along [OF assms(4,3) claim_holds [OF assms(2)] assms(5)] claim_refused assms(6,7) by blast

end

definition holder :: "string \<Rightarrow> Db \<Rightarrow> (string \<times> nat) option"
  where "holder cid db =
    (case map_of (jobs db) cid of
       Some r \<Rightarrow> (case (lease_owner r, lease_until r) of (Some m, Some ends) \<Rightarrow> Some (m, ends) | _ \<Rightarrow> None)
     | None \<Rightarrow> None)"

lemma holder_Some:
  "holder cid db = Some (m, ends) \<longleftrightarrow>
     (\<exists>r. map_of (jobs db) cid = Some r \<and> lease_owner r = Some m \<and> lease_until r = Some ends)"
  by (auto simp: holder_def split: option.splits)

lemma update_job_keeps_row:
  assumes "map_of (jobs db) cid = Some r" "\<not> (cid' = cid \<and> c r)"
  shows "map_of (jobs (snd (update_job cid' c f db))) cid = Some r"
  using assms by (auto simp: update_job_def update_row_row case_prod_unfold)

lemma insert_job_keeps_row:
  "map_of (jobs db) cid = Some r \<Longrightarrow> map_of (jobs (snd (insert_job job at db))) cid = Some r"
  by (auto simp: insert_job_def insert_row_split)

lemma others_keep_job:
  assumes "db_step a m now db db'" "jobs_ok (jobs db)" "map_of (jobs db) cid = Some r"
    "lease_owner r = Some owner" "lease_until r = Some ends" "m \<noteq> owner" "now \<le> ends"
  shows "map_of (jobs db') cid = Some r"
proof -
  have ok: "job_ok r" using assms(2,3) by (auto simp: jobs_ok_def)
  show ?thesis
    using assms(1,3-) ok
    by (cases rule: db_step.cases)
      (simp_all add: claim_statement_def extend_statement_def finish_statement_def
        retry_statement_def requeue_before_statement_def requeue_failed_statement_def
        update_job_keeps_row may_claim_def job_ok_def insert_job_keeps_row
        release_statement_def update_rows_map_of)
qed

interpretation job_leases: leases db_ok db_step db_run holder claim_statement LEASE_MS
proof
  fix db db' db1 :: Db and l m now ls k owner ends
  show "db_run [] db db' \<Longrightarrow> db' = db" by (auto elim: db_run.cases)
  show "db_run ((l, m, now) # ls) db db' \<Longrightarrow> \<exists>db1. db_step l m now db db1 \<and> db_run ls db1 db'"
    by (cases rule: db_run.cases) auto
  show "db_ok db \<Longrightarrow> db_step l m now db db' \<Longrightarrow> db_ok db'" by (rule db_ok_step)
  show "db_ok db \<Longrightarrow> db_step l m now db db' \<Longrightarrow> holder k db = Some (owner, ends) \<Longrightarrow>
      m \<noteq> owner \<Longrightarrow> now \<le> ends \<Longrightarrow> holder k db' = Some (owner, ends)"
    using others_keep_job by (fastforce simp: holder_Some db_ok_def)
  show "fst (claim_statement k m now db) = 1 \<Longrightarrow>
      holder k (snd (claim_statement k m now db)) = Some (m, now + LEASE_MS)"
    by (auto simp: holder_def claim_statement_def update_job_def update_row_def update_conv'
      split: option.splits if_splits)
  show "holder k db = Some (owner, ends) \<Longrightarrow> m \<noteq> owner \<Longrightarrow> now \<le> ends \<Longrightarrow>
      claim_statement k m now db = (0, db)"
    by (auto simp: holder_Some claim_statement_def update_job_def update_row_def may_claim_def)
qed

section \<open>Operations keep the tables well-formed\<close>

text \<open>A predicate of the database kept by an operation, whatever the world does that keeps it.\<close>

definition keeps :: "(Db \<Rightarrow> bool) \<Rightarrow> 'a store_io \<Rightarrow> bool"
  where "keeps P m = (\<forall>s. P (snd s) \<longrightarrow> P (snd (snd (m s))))"

definition world_keeps :: "(Db \<Rightarrow> bool) \<Rightarrow> world \<Rightarrow> bool"
  where "world_keeps P w = (\<forall>k db. P db \<longrightarrow> P (snd (w k db)))"

named_theorems keeping

lemma keeps_timed [keeping]:
  "world_keeps P w \<Longrightarrow> (\<And>db. P db \<Longrightarrow> P (snd (st db))) \<Longrightarrow> keeps P (timed w st)"
  by (auto simp: keeps_def world_keeps_def timed_def case_prod_unfold split: fault.splits)

lemma keepsI: "(\<And>s x s'. P (snd s) \<Longrightarrow> m s = (x, s') \<Longrightarrow> P (snd s')) \<Longrightarrow> keeps P m"
  unfolding keeps_def by (metis prod.exhaust_sel)

lemma keepsD: "keeps P m \<Longrightarrow> m s = (x, s') \<Longrightarrow> P (snd s) \<Longrightarrow> P (snd s')"
  unfolding keeps_def by (metis snd_conv)

lemma keeps_bind [keeping]:
  assumes "keeps P m" "\<And>a. keeps P (f a)"
  shows "keeps P (io_bind m f)"
proof (rule keepsI)
  fix s x s' assume s: "P (snd s)" and run: "io_bind m f s = (x, s')"
  obtain y s1 where m: "m s = (y, s1)" by (cases "m s")
  have "P (snd s1)" using keepsD [OF assms(1) m s] .
  then show "P (snd s')" using run m keepsD [OF assms(2)]
    by (cases y) (auto simp: io_bind_def)
qed

lemma keeps_return [keeping]: "keeps P (io_return a)" "keeps P (io_fail e)"
  by (auto simp: keeps_def io_return_def io_fail_def)

lemma snd_select [simp]: "snd (select q db) = db"
  by (simp add: select_def)

lemma keeps_if [keeping]: "keeps P m \<Longrightarrow> keeps P m' \<Longrightarrow> keeps P (if b then m else m')"
  by simp

lemma keeps_option [keeping]:
  "keeps P m \<Longrightarrow> (\<And>x. keeps P (f x)) \<Longrightarrow> keeps P (case v of None \<Rightarrow> m | Some x \<Rightarrow> f x)"
  by (cases v) auto

lemma keeps_pair [keeping]: "(\<And>x y. keeps P (f x y)) \<Longrightarrow> keeps P (case p of (x, y) \<Rightarrow> f x y)"
  by (cases p) auto

lemmas statements_ok = db_step.intros [THEN db_ok_step]

lemma keeps_tries [keeping]:
  assumes "keeps P (try_import w r at force now)"
  shows "keeps P (import_tries n w r at force now)"
proof (induction n)
  case 0
  have "import_tries 0 w r at force now = try_import w r at force now" by (rule ext) simp
  then show ?case using assms by simp
next
  case (Suc n)
  show ?case
  proof (rule keepsI)
    fix s x s' assume s: "P (snd s)" and run: "import_tries (Suc n) w r at force now s = (x, s')"
    obtain y s1 where m: "try_import w r at force now s = (y, s1)"
      by (cases "try_import w r at force now s")
    have "P (snd s1)" using keepsD [OF assms m s] .
    then show "P (snd s')" using run m keepsD [OF Suc.IH]
      by (cases y) (auto split: if_splits)
  qed
qed

lemma keeps_take_alarms [keeping]:
  "world_keeps db_ok w \<Longrightarrow> keeps db_ok (take_alarms w due)"
  by (induction w due rule: take_alarms.induct) (auto intro!: keeping statements_ok)

lemma keeps_claim_job [keeping]:
  "world_keeps db_ok w \<Longrightarrow> keeps db_ok (claim_job w cid owner now)"
  unfolding claim_job_def by (auto intro!: keeping statements_ok)

lemma keeps_claim_each [keeping]:
  "world_keeps db_ok w \<Longrightarrow> keeps db_ok (claim_each w owner now ids)"
  by (induction ids) (auto intro!: keeping)

lemma keeps_import [keeping]:
  "world_keeps db_ok w \<Longrightarrow> keeps db_ok (import_tunnel w r at force now)"
  unfolding import_tunnel_def
  by (rule keeps_tries) (auto simp: try_import_def intro!: keeping statements_ok)

section \<open>Properties of the shared database\<close>

text \<open>The rest of the deployment, between two statements of an operation.\<close>

definition world_steps :: "world \<Rightarrow> bool"
  where "world_steps w = (\<forall>k db. any_step\<^sup>*\<^sup>* db (snd (w k db)))"

lemma timed_Ok:
  "timed w st (k, db) = (Ok a, k', db') \<longleftrightarrow>
     (\<exists>db1. w k db = (Answered, db1) \<and> st db1 = (a, db')) \<and> k' = Suc k"
  by (auto simp: timed_def split: prod.splits fault.splits)

lemma io_bind_Ok:
  "io_bind m f s = (Ok b, s') \<longleftrightarrow> (\<exists>a s1. m s = (Ok a, s1) \<and> f a s1 = (Ok b, s'))"
  by (auto simp: io_bind_def split: prod.splits sum.splits)

lemma io_return_Ok: "io_return a s = (Ok b, s') \<longleftrightarrow> b = a \<and> s' = s"
  by (auto simp: io_return_def)

lemma io_fail_Ok: "io_fail e s = (Ok b, s') \<longleftrightarrow> False"
  by (simp add: io_fail_def)

lemmas io_Ok = timed_Ok io_bind_Ok io_return_Ok io_fail_Ok

lemma world_reach: "world_steps w \<Longrightarrow> w k db = (f, db') \<Longrightarrow> any_step\<^sup>*\<^sup>* db db'"
  by (metis world_steps_def snd_conv)

lemma save_tunnel_Ok:
  "save_tunnel w r seen now (k, db) = (Ok n, k', db') \<longleftrightarrow>
     (\<exists>db1. w k db = (Answered, db1) \<and> save_statement now r seen db1 = (True, db')) \<and>
     n = Suc seen \<and> k' = Suc k"
  by (auto simp: save_tunnel_is_statement io_Ok split: if_splits)

lemma save_refused_after:
  assumes "db_ok db" "world_steps w" "save_statement now r seen db = (True, db2)"
    "any_step\<^sup>*\<^sup>* db2 db3" "ident r' = ident r"
  shows "save_tunnel w r' seen now' (k, db3) \<noteq> (Ok n, k', db')"
proof
  assume "save_tunnel w r' seen now' (k, db3) = (Ok n, k', db')"
  then obtain db4 where db4: "w k db3 = (Answered, db4)" "save_statement now' r' seen db4 = (True, db')"
    by (auto simp: save_tunnel_Ok)
  have "any_step\<^sup>*\<^sup>* db2 db4" using assms(4) world_reach [OF assms(2) db4(1)] by simp
  moreover have "stored (ident r) db2 = Some (r, Suc seen)"
    using tunnel_rows.write_reads [OF assms(1), of now r seen] assms(3) by simp
  moreover have "any_step db db2" using save_statement_step [of db now r seen] assms(3) by simp
  then have ok2: "db_ok db2" using assms(1) by (auto simp: any_step_def intro: db_ok_step)
  ultimately have "seen < tunnel_rows.version_of (ident r) db4" and "db_ok db4"
    using tunnel_rows.steps_forward [OF _ ok2, of db4 "ident r"] tunnel_rows.steps_ok [OF _ ok2, of db4]
    by (simp_all add: tunnel_rows.version_of_def [of _ db2])
  then show False
    using save_statement_iff [of db4 now' r' seen] db4(2) assms(5)
    by (simp add: tunnel_rows.version_of_def)
qed

definition quiet :: world
  where "quiet = (\<lambda>k db. (Answered, db))"

lemma world_quiet [simp]: "world_steps quiet" "world_keeps P quiet"
  by (auto simp: world_steps_def world_keeps_def quiet_def)

lemma timed_quiet [simp]: "timed quiet st (k, db) = (Ok (fst (st db)), Suc k, snd (st db))"
  by (simp add: timed_def quiet_def case_prod_unfold)

definition empty_db :: Db
  where "empty_db = \<lparr>tunnels = [], jobs = [], server_certificates = [], meta_rows = []\<rparr>"

lemma db_ok_empty [simp]: "db_ok empty_db"
  by (simp add: db_ok_def empty_db_def jobs_ok_def)

text \<open>C38. No saved record overwrites a change its writer has not seen: when a machine saves a record
  at the revision it read, however the deployment changed the database in between, success means
  that the stored record is still the one it read at that moment and that the new one is stored at
  the next revision; and from then on nobody who read the same revision can save.\<close>

theorem saves_never_lose_updates:
  assumes "db_ok db" "world_steps w" "any_step\<^sup>*\<^sup>* db db1"
    "seen = (case stored (ident r) db of None \<Rightarrow> 0 | Some (_, n) \<Rightarrow> n)"
    "save_tunnel w r seen now (k, db1) = (Ok n, k2, db2)"
  shows "n = Suc seen \<and> stored (ident r) db2 = Some (r, n) \<and>
    (\<exists>db1'. any_step\<^sup>*\<^sup>* db1 db1' \<and> stored (ident r) db1' = stored (ident r) db \<and>
       save_statement now r seen db1' = (True, db2)) \<and>
    (\<forall>r' db3 now' k3 s'. ident r' = ident r \<longrightarrow> any_step\<^sup>*\<^sup>* db2 db3 \<longrightarrow>
       (\<forall>n'. save_tunnel w r' seen now' (k3, db3) \<noteq> (Ok n', s')))"
proof -
  obtain db1' where w: "w k db1 = (Answered, db1')" and st: "save_statement now r seen db1' = (True, db2)"
    and n: "n = Suc seen"
    using assms(5) by (auto simp: save_tunnel_Ok)
  have reach: "any_step\<^sup>*\<^sup>* db1 db1'" by (rule world_reach [OF assms(2) w])
  have all: "any_step\<^sup>*\<^sup>* db db1'" using assms(3) reach by simp
  have ok: "db_ok db1'" using tunnel_rows.steps_ok [OF all assms(1)] .
  have "stored (ident r) db1' = stored (ident r) db"
    by (rule tunnel_rows.no_lost_update [OF assms(1) all, of now])
      (use st assms(4) in \<open>simp add: tunnel_rows.version_of_def\<close>)
  moreover have "stored (ident r) db2 = Some (r, n)"
    using tunnel_rows.write_reads [OF ok, of now r seen] st n by simp
  ultimately show ?thesis
    using n reach st save_refused_after [OF ok assms(2) st] by (metis prod.exhaust)
qed

theorem saves_never_lose_updates_witness:
  "let r = \<lparr>record_version = 1, ident = ''t'', hostname = ''t.example'', tstate = Offline,
        certificate_id = None, token_hash = [], created_at = [], deleted_at = None,
        certificate = None, certificate_csr = None, certificate_identifiers = None,
        certificate_started_at = None, last_connected_at = None, renewal = None\<rparr>;
       db2 = snd (insert_tunnel r 5 empty_db)
   in save_tunnel quiet r 0 5 (0, empty_db) = (Ok 1, 1, db2) \<and>
      stored ''t'' db2 = Some (r, 1) \<and> (\<forall>n' s'. save_tunnel quiet r 0 6 (0, db2) \<noteq> (Ok n', s'))"
proof -
  define r where "r = \<lparr>record_version = 1, ident = ''t'', hostname = ''t.example'', tstate = Offline,
        certificate_id = None, token_hash = [], created_at = [], deleted_at = None,
        certificate = None, certificate_csr = None, certificate_identifiers = None,
        certificate_started_at = None, last_connected_at = None, renewal = None\<rparr>"
  let ?db = "snd (insert_tunnel r 5 empty_db)"
  have id: "ident r = ''t''" by (simp add: r_def)
  have saved: "save_tunnel quiet r 0 5 (0, empty_db) = (Ok 1, 1, ?db)"
    by (simp add: save_tunnel_def io_bind_def io_return_def insert_tunnel_def insert_row_def empty_db_def)
  have none: "0 = (case stored (ident r) empty_db of None \<Rightarrow> 0 | Some (_, n) \<Rightarrow> n)"
    by (simp add: stored_def empty_db_def)
  note result = saves_never_lose_updates [OF db_ok_empty world_quiet(1) rtranclp.rtrancl_refl none saved]
  have "stored ''t'' ?db = Some (r, 1)" using result id by simp
  moreover have "\<forall>n' s'. save_tunnel quiet r 0 6 (0, ?db) \<noteq> (Ok n', s')" using result by blast
  ultimately show ?thesis unfolding Let_def r_def [symmetric] using saved by blast
qed

text \<open>C39. A job has one runner: once a machine has claimed a job, then in any run of the deployment
  whose other steps are by other machines and happen before the lease ends, the row of the job
  stays as it was, no other machine can claim, extend, finish, retry or requeue it, and the holder
  can still finish it.\<close>

theorem job_leases_exclusive:
  assumes "db_ok db" "claim_statement cid owner t db = (1, db1)" "db_run ls db1 db2"
    "\<forall>(a, m, now) \<in> set ls. m \<noteq> owner \<and> now \<le> t + LEASE_MS" "m \<noteq> owner" "now \<le> t + LEASE_MS"
  shows "holder cid db2 = Some (owner, t + LEASE_MS) \<and>
    claim_statement cid m now db2 = (0, db2) \<and> extend_statement cid m now db2 = (0, db2) \<and>
    finish_statement cid m st e now db2 = (0, db2) \<and>
    retry_statement cid m tries at e' now db2 = (0, db2) \<and>
    requeue_before_statement cid before now db2 = (0, db2) \<and>
    requeue_failed_statement cid now db2 = (0, db2) \<and>
    fst (finish_statement cid owner st e now db2) = 1"
proof -
  have db1: "db_ok db1" using db_ok_step [OF db_step.claim [of owner t db cid] assms(1)] assms(2) by simp
  have held: "holder cid db2 = Some (owner, t + LEASE_MS)" and ok: "db_ok db2"
    using job_leases.held_along [OF assms(3) db1 _ assms(4)]
      job_leases.claim_holds [of cid owner t db] assms(2) by auto
  then obtain r where r: "map_of (jobs db2) cid = Some r" "lease_owner r = Some owner"
      "lease_until r = Some (t + LEASE_MS)"
    by (auto simp: holder_Some)
  have "job_ok r" using ok r(1) by (auto simp: db_ok_def jobs_ok_def)
  then have "row_status r = ''pending''" using r(2) by (auto simp: job_ok_def)
  then show ?thesis
    using held r assms(5,6)
    by (auto simp: claim_statement_def extend_statement_def finish_statement_def retry_statement_def
      requeue_before_statement_def requeue_failed_statement_def update_job_def update_row_def may_claim_def)
qed

definition sample_job :: Job
  where "sample_job = \<lparr>job_certificate_id = ''c'', job_tunnel_id = Some ''t'', job_kind = Issue,
    job_identifiers = [''t.example''], job_csr = ''csr'', job_attempts = 0, job_created_at = 5\<rparr>"

lemma sample_job_added:
  "db_ok (snd (insert_job sample_job 5 empty_db))"
  "map_of (jobs (snd (insert_job sample_job 5 empty_db))) ''c'' =
     Some \<lparr>row_tunnel_id = Some ''t'', row_kind = ''issue'', row_identifiers = [''t.example''],
       row_csr = ''csr'', row_status = ''pending'', row_attempts = 0, run_at = 5, lease_owner = None,
       lease_until = None, last_error = None, row_created_at = 5, row_updated_at = 5\<rparr>"
  by (rule db_ok_step [OF db_step.add db_ok_empty])
    (simp add: insert_job_def insert_row_def empty_db_def sample_job_def JobKind_as_str_def)

lemma sample_job_claimed:
  "fst (claim_statement ''c'' ''m1'' 10 (snd (insert_job sample_job 5 empty_db))) = 1"
  using sample_job_added(2)
  by (simp add: claim_statement_def update_job_def update_row_def may_claim_def)

theorem job_leases_exclusive_witness:
  "let db1 = snd (claim_statement ''c'' ''m1'' 10 (snd (insert_job sample_job 5 empty_db)))
   in holder ''c'' db1 = Some (''m1'', 10 + LEASE_MS) \<and> claim_statement ''c'' ''m2'' 1000 db1 = (0, db1)"
proof -
  let ?db = "snd (insert_job sample_job 5 empty_db)"
  let ?db1 = "snd (claim_statement ''c'' ''m1'' 10 ?db)"
  have "claim_statement ''c'' ''m1'' 10 ?db = (1, ?db1)"
    using sample_job_claimed by (metis prod.collapse)
  from job_leases_exclusive [OF sample_job_added(1) this db_run.nil, of "''m2''" 1000]
  show ?thesis by (simp add: LEASE_MS_def)
qed

end
