(* ===== verification/Store_Queue.thy ===== *)
theory Store_Queue
  imports Store_Safety
begin

text \<open>
  What the work queues of the shared database deliver: alarms fire once and in time, the job
  schedule offers exactly what can be claimed in the promised order, requeuing happens once,
  imports never replace local changes, and every machine ends up with the same server key.
\<close>

section \<open>Alarms\<close>

definition alarm_of :: "string \<Rightarrow> Db \<Rightarrow> nat option"
  where "alarm_of tid db = (case map_of (tunnels db) tid of Some r \<Rightarrow> alarm_at r | None \<Rightarrow> None)"

lemma step_alarm:
  assumes "db_step a m now db db'" "a \<noteq> Arm tid"
  shows "alarm_of tid db' = alarm_of tid db \<or> alarm_of tid db' = None"
  using assms
  by (cases rule: db_step.cases)
    (auto simp: alarm_of_def statements case_prod_unfold insert_row_split update_row_map_of
      write_record_def import_row_def update_conv' split: option.splits bool.splits if_splits)

lemma run_alarm:
  "db_run ls db db' \<Longrightarrow> \<forall>(a, m, now) \<in> set ls. a \<noteq> Arm tid \<Longrightarrow> alarm_of tid db = None \<Longrightarrow>
     alarm_of tid db' = None"
  by (induction rule: db_run.induct) (auto dest: step_alarm)

lemma clear_alarm_iff:
  "fst (clear_alarm tid at db) = (if alarm_of tid db = Some at then 1 else 0)"
  "alarm_of tid db \<noteq> Some at \<Longrightarrow> clear_alarm tid at db = (0, db)"
  "alarm_of tid db = Some at \<Longrightarrow> alarm_of tid (snd (clear_alarm tid at db)) = None"
  by (auto simp: alarm_of_def clear_alarm_def update_row_def update_conv' split: option.splits)

lemma clear_alarm_other:
  "tid' \<noteq> tid \<Longrightarrow> alarm_of tid' (snd (clear_alarm tid at db)) = alarm_of tid' db"
  by (auto simp: alarm_of_def clear_alarm_def update_row_def update_conv' split: option.splits)

text \<open>The rows with an alarm, as the query lists them.\<close>

lemma set_alarms:
  assumes "distinct (map fst (tunnels db))"
  shows "set (alarms_in_order db) = {(tid, at). alarm_of tid db = Some at}"
    "distinct (map fst (alarms_in_order db))" "sorted (map snd (alarms_in_order db))"
proof -
  let ?f = "\<lambda>(k, r). map_option (Pair k) (alarm_at r)"
  let ?has = "\<lambda>(k, r). alarm_at r \<noteq> (None :: nat option)"
  have rows: "List.map_filter ?f t = map (\<lambda>(k, r). (k, the (alarm_at r))) (filter ?has t)"
    for t :: "(string, TunnelRow) table"
    by (induction t) (auto simp: map_filter_simps)
  show "set (alarms_in_order db) = {(tid, at). alarm_of tid db = Some at}"
    using assms unfolding alarms_in_order_def rows
    by (force simp: alarm_of_def map_of_eq_Some_iff split: option.splits dest: map_of_SomeD)
  have "map fst (List.map_filter ?f t) = map fst (filter ?has t)" for t :: "(string, TunnelRow) table"
    unfolding rows by (simp add: comp_def case_prod_unfold)
  then have "distinct (map fst (List.map_filter ?f (tunnels db)))"
    using assms by (metis distinct_map_filter)
  then show "distinct (map fst (alarms_in_order db))"
    by (simp add: alarms_in_order_def distinct_map)
  show "sorted (map snd (alarms_in_order db))" by (simp add: alarms_in_order_def)
qed

lemma take_alarms_quiet:
  "distinct (map fst due) \<Longrightarrow> \<forall>(tid, at) \<in> set due. alarm_of tid db = Some at \<Longrightarrow>
     \<exists>k' db'. take_alarms quiet due (k, db) = (Ok (map fst due), k', db') \<and>
       (\<forall>tid. alarm_of tid db' = (if tid \<in> fst ` set due then None else alarm_of tid db)) \<and>
       (\<forall>tid. stored tid db' = stored tid db)"
proof (induction due arbitrary: k db)
  case (Cons p due)
  obtain tid at where p: "p = (tid, at)" by (cases p)
  let ?db = "snd (clear_alarm tid at db)"
  have "\<forall>(tid', at') \<in> set due. alarm_of tid' ?db = Some at'"
  proof clarify
    fix tid' at' assume m: "(tid', at') \<in> set due"
    then have "tid' \<noteq> tid" using Cons.prems(1) p by (auto simp: rev_image_eqI)
    then show "alarm_of tid' ?db = Some at'" using Cons.prems(2) m by (auto simp: clear_alarm_other)
  qed
  from Cons.IH [OF _ this, of "Suc k"] Cons.prems p obtain k' db' where
    IH: "take_alarms quiet due (Suc k, ?db) = (Ok (map fst due), k', db')"
      "\<forall>tid'. alarm_of tid' db' = (if tid' \<in> fst ` set due then None else alarm_of tid' ?db)"
      "\<forall>tid'. stored tid' db' = stored tid' ?db"
    by auto
  have "alarm_of tid db = Some at" using Cons.prems(2) p by simp
  moreover have "stored tid' ?db = stored tid' db" for tid'
    by (auto simp: stored_def clear_alarm_def update_row_def update_conv' split: option.splits)
  ultimately show ?case
    using IH p clear_alarm_iff(1) [of tid at db] clear_alarm_iff(3) [of tid db at] clear_alarm_other [of _ tid at db]
    by (auto simp: io_bind_def io_return_def)
qed (simp add: io_return_def)

lemma sorted_takeWhile_set:
  "sorted (map snd xs) \<Longrightarrow> set (takeWhile (\<lambda>(_, at). at \<le> now) xs) = {(k, at) \<in> set xs. at \<le> (now :: nat)}"
  by (induction xs) (auto split: prod.splits)

lemma takeWhile_take_prefix: "takeWhile P (take n xs) = take n (takeWhile P xs)"
proof (induction xs arbitrary: n)
  case (Cons x xs)
  then show ?case by (cases n) auto
qed simp

lemma due_alarms_all:
  assumes "sorted (map snd xs)" "length (takeWhile (\<lambda>(_, at). at \<le> now) xs) \<le> ALARM_LIMIT"
  shows "due_alarms now (take (ALARM_LIMIT + 1) xs) =
    (takeWhile (\<lambda>(_, at). at \<le> now) xs,
     case dropWhile (\<lambda>(_, at). at \<le> now) xs of [] \<Rightarrow> None | (_, at) # _ \<Rightarrow> Some at)"
proof -
  let ?P = "\<lambda>(_ :: 'a, at). at \<le> now" let ?D = "takeWhile ?P xs"
  have len: "length (takeWhile ?P (take (ALARM_LIMIT + 1) xs)) = length ?D"
    using assms(2) by (simp add: takeWhile_take_prefix)
  have first: "take (length ?D) (take (ALARM_LIMIT + 1) xs) = ?D"
    using assms(2) by (simp add: takeWhile_eq_take [symmetric])
  show ?thesis
  proof (cases "dropWhile ?P xs")
    case Nil
    then have D: "?D = xs" by (metis append_Nil2 takeWhile_dropWhile_id)
    have "length xs \<le> ALARM_LIMIT" using assms(2) by (simp only: D)
    then show ?thesis using len by (simp add: due_alarms_def Let_def D Nil)
  next
    case (Cons p ps)
    have parts: "xs = ?D @ p # ps" using takeWhile_dropWhile_id [of ?P xs] Cons by simp
    have nth: "xs ! length ?D = p" by (subst parts) (rule nth_append_length)
    have long: "length ?D < length xs" using arg_cong [OF parts, of length] by simp
    have "\<not> ?P p" using hd_dropWhile [of ?P xs] Cons by simp
    then have "now < snd p" by (cases p) simp
    then show ?thesis
      using Cons len first nth long assms(2) by (cases p) (auto simp: due_alarms_def Let_def min_def)
  qed
qed

lemma take_due_exact:
  fixes now :: nat
  assumes "db_ok db" "card {tid. \<exists>at. alarm_of tid db = Some at \<and> at \<le> now} \<le> ALARM_LIMIT"
  defines "D \<equiv> takeWhile (\<lambda>(_, at). at \<le> now) (alarms_in_order db)"
  defines "later \<equiv> (case dropWhile (\<lambda>(_, at). at \<le> now) (alarms_in_order db) of
      [] \<Rightarrow> None | (_, at) # _ \<Rightarrow> Some at)"
  shows "\<exists>k' db'. take_due_alarms_and_next quiet now (k, db) = (Ok (map fst D, later), k', db') \<and>
      (\<forall>tid. alarm_of tid db' = (if tid \<in> fst ` set D then None else alarm_of tid db)) \<and>
      (\<forall>tid. stored tid db' = stored tid db)"
    and "distinct (map fst D)" "fst ` set D = {tid. \<exists>at. alarm_of tid db = Some at \<and> at \<le> now}"
proof -
  note all = set_alarms [of db]
  have ok: "distinct (map fst (tunnels db))" using assms(1) by (simp add: db_ok_def)
  have setD: "set D = {(tid, at). alarm_of tid db = Some at \<and> at \<le> now}"
    unfolding D_def using sorted_takeWhile_set [OF all(3) [OF ok]] all(1) [OF ok] by auto
  then show image: "fst ` set D = {tid. \<exists>at. alarm_of tid db = Some at \<and> at \<le> now}" by force
  show dist: "distinct (map fst D)"
    unfolding D_def using all(2) [OF ok] by (metis map_append distinct_append takeWhile_dropWhile_id)
  have "length D = card (fst ` set D)" using distinct_card [OF dist] by simp
  then have "length D \<le> ALARM_LIMIT" using assms(2) image by simp
  then have due: "due_alarms now (take (ALARM_LIMIT + 1) (alarms_in_order db)) = (D, later)"
    using due_alarms_all [OF all(3) [OF ok]] by (simp add: D_def later_def)
  have "\<forall>(tid, at) \<in> set D. alarm_of tid db = Some at" using setD by auto
  from take_alarms_quiet [OF dist this, of "Suc k"] due
  show "\<exists>k' db'. take_due_alarms_and_next quiet now (k, db) = (Ok (map fst D, later), k', db') \<and>
      (\<forall>tid. alarm_of tid db' = (if tid \<in> fst ` set D then None else alarm_of tid db)) \<and>
      (\<forall>tid. stored tid db' = stored tid db)"
    by (auto simp: take_due_alarms_and_next_def io_bind_def io_return_def select_def)
qed

lemma later_alarm_least:
  fixes now :: nat
  assumes "db_ok db"
  shows "case (case dropWhile (\<lambda>(_, at). at \<le> now) (alarms_in_order db) of
      [] \<Rightarrow> None | (_, at) # _ \<Rightarrow> Some at) of
    None \<Rightarrow> \<forall>tid at. alarm_of tid db = Some at \<longrightarrow> at \<le> now
  | Some at \<Rightarrow> now < at \<and> (\<exists>tid. alarm_of tid db = Some at) \<and>
      (\<forall>tid at'. alarm_of tid db = Some at' \<longrightarrow> at' \<le> now \<or> at \<le> at')"
proof -
  let ?P = "\<lambda>(_ :: string, at). at \<le> now"
  have ok: "distinct (map fst (tunnels db))" using assms by (simp add: db_ok_def)
  note all = set_alarms [OF ok]
  show ?thesis
  proof (cases "dropWhile ?P (alarms_in_order db)")
    case Nil
    then have "\<forall>x \<in> set (alarms_in_order db). ?P x" by (simp add: dropWhile_eq_Nil_conv)
    then have "\<forall>tid at. alarm_of tid db = Some at \<longrightarrow> at \<le> now" using all(1) by auto
    then show ?thesis by (simp add: Nil)
  next
    case (Cons p ps)
    obtain tid at where p: "p = (tid, at)" by (cases p)
    have parts: "alarms_in_order db = takeWhile ?P (alarms_in_order db) @ p # ps"
      using takeWhile_dropWhile_id [of ?P "alarms_in_order db"] Cons by simp
    have "now < at" using hd_dropWhile [of ?P "alarms_in_order db"] Cons p by simp
    moreover have "alarm_of tid db = Some at"
      using parts p all(1) by (metis (mono_tags, lifting) case_prodD in_set_conv_decomp mem_Collect_eq)
    moreover have "at' \<le> now \<or> at \<le> at'" if "alarm_of tid' db = Some at'" for tid' at'
    proof -
      have "(tid', at') \<in> set (alarms_in_order db)" using that all(1) by simp
      then have "(tid', at') \<in> set (takeWhile ?P (alarms_in_order db)) \<or> (tid', at') \<in> set (p # ps)"
        using parts by (metis Un_iff set_append)
      moreover have "sorted (map snd (p # ps))"
        using all(3) parts by (metis map_append sorted_append)
      ultimately show ?thesis using p by (fastforce dest: set_takeWhileD)
    qed
    ultimately show ?thesis using Cons p by auto
  qed
qed

text \<open>Alarms fire once and in time. While nothing interferes, taking the due alarms of a
  well-formed database with at most 500 due returns exactly the tunnels whose alarm is due, clears
  exactly these and changes no record, and the time to look again is that of the earliest alarm
  left. And however the machines interleave, an alarm that one of them cleared is not cleared by
  another until something sets it again.\<close>

theorem alarms_fire_once:
  assumes "db_ok db" "card {tid. \<exists>at. alarm_of tid db = Some at \<and> at \<le> now} \<le> ALARM_LIMIT"
  shows "(\<exists>taken later k' db'. take_due_alarms_and_next quiet now (k, db) = (Ok (taken, later), k', db') \<and>
      distinct taken \<and> set taken = {tid. \<exists>at. alarm_of tid db = Some at \<and> at \<le> now} \<and>
      (\<forall>tid. alarm_of tid db' = (if tid \<in> set taken then None else alarm_of tid db)) \<and>
      (\<forall>tid. stored tid db' = stored tid db) \<and>
      (case later of
         None \<Rightarrow> \<forall>tid. alarm_of tid db' = None
       | Some at \<Rightarrow> (\<exists>tid. alarm_of tid db' = Some at) \<and> (\<forall>tid at'. alarm_of tid db' = Some at' \<longrightarrow> at \<le> at'))) \<and>
    (\<forall>tid at db1 ls db2. clear_alarm tid at db = (1, db1) \<longrightarrow> db_run ls db1 db2 \<longrightarrow>
      (\<forall>(a, m, t) \<in> set ls. a \<noteq> Arm tid) \<longrightarrow> clear_alarm tid at db2 = (0, db2))"
    (is "?sequential \<and> ?concurrent")
proof
  let ?later = "case dropWhile (\<lambda>(_, at). at \<le> now) (alarms_in_order db) of
      [] \<Rightarrow> None | (_, at) # _ \<Rightarrow> Some at"
  let ?D = "takeWhile (\<lambda>(_, at). at \<le> now) (alarms_in_order db)"
  obtain k' db' where run: "take_due_alarms_and_next quiet now (k, db) = (Ok (map fst ?D, ?later), k', db')"
    and alarms: "\<forall>tid. alarm_of tid db' = (if tid \<in> fst ` set ?D then None else alarm_of tid db)"
    and kept: "\<forall>tid. stored tid db' = stored tid db"
    using take_due_exact(1) [OF assms] by blast
  note D = take_due_exact(2,3) [OF assms]
  have "case ?later of None \<Rightarrow> \<forall>tid. alarm_of tid db' = None
      | Some at \<Rightarrow> (\<exists>tid. alarm_of tid db' = Some at) \<and> (\<forall>tid at'. alarm_of tid db' = Some at' \<longrightarrow> at \<le> at')"
    using later_alarm_least [OF assms(1), of now] alarms unfolding D(2)
    by (cases ?later) (auto, (meson not_None_eq | force)+)
  then show ?sequential
    using run alarms kept D by (intro exI [of _ "map fst ?D"] exI [of _ ?later] exI [of _ k'] exI [of _ db']) simp
  show ?concurrent
  proof clarify
    fix tid at db1 ls db2
    assume c: "clear_alarm tid at db = (1, db1)" and r: "db_run ls db1 db2"
      and l: "\<forall>(a, m, t) \<in> set ls. a \<noteq> Arm tid"
    have "alarm_of tid db = Some at"
      using c clear_alarm_iff(1) [of tid at db] by (auto split: if_splits)
    then have "alarm_of tid db1 = None" using clear_alarm_iff(3) [of tid db at] c by simp
    then have "alarm_of tid db2 = None" using run_alarm [OF r] l by blast
    then show "clear_alarm tid at db2 = (0, db2)" by (simp add: clear_alarm_iff(2))
  qed
qed

definition sample_tunnel :: StoredTunnel
  where "sample_tunnel = \<lparr>record_version = 1, ident = ''t'', hostname = ''t.example'', tstate = Offline,
    certificate_id = None, token_hash = [], created_at = [], deleted_at = None, certificate = None,
    certificate_csr = None, certificate_identifiers = None, certificate_started_at = None,
    last_connected_at = None, renewal = None\<rparr>"

definition sample_db :: Db
  where "sample_db = snd (import_insert sample_tunnel (Some 5) 1 empty_db)"

lemma sample_db_ok: "db_ok sample_db"
  unfolding sample_db_def by (rule db_ok_step [OF db_step.import_new db_ok_empty])

lemma sample_db_alarm: "alarm_of tid sample_db = (if tid = ''t'' then Some 5 else None)"
  by (simp add: sample_db_def alarm_of_def import_insert_def insert_row_def empty_db_def
    sample_tunnel_def import_row_def)

theorem alarms_fire_once_witness:
  "(\<exists>taken later k' db'. take_due_alarms_and_next quiet 9 (0, sample_db) = (Ok (taken, later), k', db') \<and>
      set taken = {''t''} \<and> alarm_of ''t'' db' = None)"
proof -
  have due: "{tid. \<exists>at. alarm_of tid sample_db = Some at \<and> at \<le> 9} = {''t''}"
    by (auto simp: sample_db_alarm)
  have "card {tid. \<exists>at. alarm_of tid sample_db = Some at \<and> at \<le> 9} \<le> ALARM_LIMIT"
    unfolding due by (simp add: ALARM_LIMIT_def)
  from conjunct1 [OF alarms_fire_once [OF sample_db_ok this, of 0]]
  obtain taken later k' db' where
    "take_due_alarms_and_next quiet 9 (0, sample_db) = (Ok (taken, later), k', db')"
    "set taken = {''t''}" "\<forall>tid. alarm_of tid db' = (if tid \<in> set taken then None else alarm_of tid sample_db)"
    unfolding due by - (elim exE conjE, rule that, assumption+)
  moreover from this have "alarm_of ''t'' db' = None" by simp
  ultimately show ?thesis by blast
qed

section \<open>The job schedule\<close>

definition precedes :: "nat \<Rightarrow> string \<times> nat \<times> string \<Rightarrow> string \<times> nat \<times> string \<Rightarrow> bool"
  where "precedes now x y =
    (case (x, y) of ((_, at, k), (_, at', k')) \<Rightarrow>
       if (now < at) \<noteq> (now < at') then at \<le> now
       else if (k = ''issue'') \<noteq> (k' = ''issue'') then k \<noteq> ''issue''
       else at \<le> at')"

lemma insort_key_bool:
  fixes f :: "'a \<Rightarrow> bool"
  shows "\<forall>y \<in> set xs. \<not> f y \<Longrightarrow> \<forall>y \<in> set ys. f y \<Longrightarrow>
    insort_key f x (xs @ ys) = (if f x then xs @ x # ys else x # xs @ ys)"
proof (induction xs)
  case Nil
  then show ?case by (cases ys) auto
qed auto

lemma sort_key_bool:
  fixes f :: "'a \<Rightarrow> bool"
  shows "sort_key f xs = filter (\<lambda>x. \<not> f x) xs @ filter f xs"
  by (induction xs) (auto simp: insort_key_bool)

lemma sorted_wrt_stable_key:
  fixes f :: "'a \<Rightarrow> bool"
  shows "sorted_wrt R xs \<Longrightarrow> sorted_wrt (\<lambda>x y. f x < f y \<or> (f x = f y \<and> R x y)) (sort_key f xs)"
proof -
  assume sorted: "sorted_wrt R xs"
  have split: "sort_key f xs = filter (\<lambda>x. \<not> f x) xs @ filter f xs"
    by (rule sort_key_bool)
  have part: "sorted_wrt (\<lambda>x y. f x < f y \<or> (f x = f y \<and> R x y)) (filter (\<lambda>x. f x = b) xs)" for b
    by (rule sorted_wrt_mono_rel [OF _ sorted_wrt_filter [OF sorted]]) simp
  show ?thesis unfolding split sorted_wrt_append using part [of False] part [of True] by auto
qed

lemma schedule_order_sorted: "sorted_wrt (precedes now) (schedule_order now rows)"
proof -
  let ?at = "\<lambda>(_, at, _). at" and ?issue = "\<lambda>(_, _, kind). kind = ''issue''" and ?late = "\<lambda>(_, at, _). now < at"
  have "sorted_wrt (\<lambda>x y. ?at x \<le> ?at y) (sort_key ?at rows)"
    using sorted_sort_key [of ?at rows] by (simp add: sorted_wrt_map)
  from sorted_wrt_stable_key [OF sorted_wrt_stable_key [OF this, of ?issue], of ?late]
  show ?thesis unfolding schedule_order_def
    by (rule sorted_wrt_mono_rel [rotated]) (auto simp: precedes_def)
qed

lemma schedule_order_distinct:
  "distinct (map fst rows) \<Longrightarrow> distinct (map fst (schedule_order now rows))"
  by (simp add: schedule_order_def distinct_map)

lemma ready_at_iff:
  "job_ok r \<Longrightarrow> row_status r = ''pending'' \<Longrightarrow> ready_at owner r \<le> now \<longleftrightarrow> may_claim owner now r"
  by (auto simp: ready_at_def may_claim_def split: option.splits)

text \<open>The job schedule is right: while nothing interferes, the runner gets jobs in the promised
  order (those it may take now first, among them renewals and the server's own before first
  issuance, each group soonest first), a job is listed as ready exactly when claiming it succeeds,
  and with room for all pending jobs every job the machine can claim is listed.\<close>

theorem schedule_offers_claimable:
  assumes "db_ok db"
  shows "\<exists>rows. job_schedule quiet owner now limit (k, db) =
      (Ok (map (\<lambda>(cid, at, kd). (cid, at, JobKind_parse kd)) rows), Suc k, db) \<and>
    length rows \<le> limit \<and> sorted_wrt (precedes now) rows \<and> distinct (map fst rows) \<and>
    (\<forall>(cid, at, kd) \<in> set rows. at \<le> now \<longleftrightarrow> fst (claim_statement cid owner now db) = 1) \<and>
    (count_jobs (\<lambda>r. row_status r = ''pending'') db \<le> limit \<longrightarrow>
      (\<forall>cid. fst (claim_statement cid owner now db) = 1 \<longrightarrow> cid \<in> fst ` set rows))"
proof -
  let ?pending = "filter (\<lambda>(_, r). row_status r = ''pending'') (jobs db)"
  let ?all = "map (\<lambda>(k, r). (k, ready_at owner r, row_kind r)) ?pending"
  let ?rows = "take limit (schedule_order now ?all)"
  have ok: "distinct (map fst (jobs db))" and rowok: "\<And>cid r. map_of (jobs db) cid = Some r \<Longrightarrow> job_ok r"
    using assms by (auto simp: db_ok_def jobs_ok_def)
  have claim: "fst (claim_statement cid owner now db) = 1 \<longleftrightarrow>
      (\<exists>r. map_of (jobs db) cid = Some r \<and> may_claim owner now r)" for cid
    by (auto simp: claim_statement_def update_job_def update_row_def split: option.splits)
  have set_order: "set (schedule_order now ?all) = set ?all"
    by (simp add: schedule_order_def)
  have "job_schedule quiet owner now limit (k, db) =
      (Ok (map (\<lambda>(cid, at, kd). (cid, at, JobKind_parse kd)) ?rows), Suc k, db)"
    by (simp add: job_schedule_def io_bind_def io_return_def select_def)
  moreover have "sorted_wrt (precedes now) ?rows"
    by (rule sorted_wrt_take [OF schedule_order_sorted])
  moreover have "distinct (map fst ?rows)"
  proof -
    have same: "map fst ?all = map fst ?pending" by (simp add: comp_def case_prod_unfold)
    have "distinct (map fst ?all)" unfolding same by (rule distinct_map_filter [OF ok])
    then have "distinct (map fst (schedule_order now ?all))" by (rule schedule_order_distinct)
    then show ?thesis by (simp add: take_map [symmetric])
  qed
  moreover have "at \<le> now \<longleftrightarrow> fst (claim_statement cid owner now db) = 1"
    if "(cid, at, kd) \<in> set ?rows" for cid at kd
  proof -
    have "(cid, at, kd) \<in> set ?all" using in_set_takeD [OF that] unfolding set_order .
    then obtain r where r: "(cid, r) \<in> set (jobs db)" "row_status r = ''pending''" "at = ready_at owner r"
      by auto
    then have "map_of (jobs db) cid = Some r" using ok by simp
    then show ?thesis using claim [of cid] r ready_at_iff [OF rowok r(2)] by simp
  qed
  moreover have "cid \<in> fst ` set ?rows"
    if few: "count_jobs (\<lambda>r. row_status r = ''pending'') db \<le> limit"
      and claimed: "fst (claim_statement cid owner now db) = 1" for cid
  proof -
    obtain r where "map_of (jobs db) cid = Some r" "may_claim owner now r" using claimed claim by blast
    then have "(cid, r) \<in> set ?pending" by (auto simp: may_claim_def dest: map_of_SomeD)
    then have "cid \<in> fst ` set ?all" by force
    moreover have "length (schedule_order now ?all) \<le> limit"
      using few by (simp add: schedule_order_def count_jobs_def)
    ultimately show ?thesis using set_order by simp
  qed
  ultimately show ?thesis by (intro exI [of _ ?rows]) auto
qed

theorem schedule_offers_claimable_witness:
  "let db = snd (insert_job sample_job 5 empty_db)
   in \<exists>rows. job_schedule quiet ''m1'' 10 20 (0, db) =
        (Ok (map (\<lambda>(cid, at, kd). (cid, at, JobKind_parse kd)) rows), 1, db) \<and> ''c'' \<in> fst ` set rows"
proof -
  let ?db = "snd (insert_job sample_job 5 empty_db)"
  have "count_jobs (\<lambda>r. row_status r = ''pending'') ?db \<le> 20"
    by (simp add: count_jobs_def insert_job_def insert_row_def empty_db_def)
  moreover from schedule_offers_claimable [OF sample_job_added(1), of "''m1''" 10 20 0]
  obtain rows where "job_schedule quiet ''m1'' 10 20 (0, ?db) =
      (Ok (map (\<lambda>(cid, at, kd). (cid, at, JobKind_parse kd)) rows), Suc 0, ?db)"
    "count_jobs (\<lambda>r. row_status r = ''pending'') ?db \<le> 20 \<longrightarrow>
      (\<forall>cid. fst (claim_statement cid ''m1'' 10 ?db) = 1 \<longrightarrow> cid \<in> fst ` set rows)"
    by - (elim exE conjE, rule that, assumption+)
  ultimately show ?thesis
    unfolding Let_def One_nat_def using sample_job_claimed [unfolded One_nat_def] by blast
qed

section \<open>Requeuing, imports and the server's key\<close>

definition queued_since :: "nat \<Rightarrow> string \<Rightarrow> Db \<Rightarrow> bool"
  where "queued_since before cid db =
    (\<exists>r. map_of (jobs db) cid = Some r \<and> before \<le> row_created_at r)"

lemma update_job_created:
  assumes "map_of (jobs db) cid = Some r" "before \<le> row_created_at r"
    "\<And>r. before \<le> row_created_at r \<Longrightarrow> before \<le> row_created_at (f r)"
  shows "queued_since before cid (snd (update_job cid' c f db))"
  using assms by (auto simp: queued_since_def update_job_def update_row_map_of case_prod_unfold split: option.splits)

lemma step_queued_since:
  assumes "db_step a m now db db'" "before \<le> now" "queued_since before cid db"
  shows "queued_since before cid db'"
proof -
  obtain r where r: "map_of (jobs db) cid = Some r" "before \<le> row_created_at r"
    using assms(3) by (auto simp: queued_since_def)
  note update = update_job_created [OF r]
  show ?thesis
    using assms(1,2)
    by (cases rule: db_step.cases)
      (use r in \<open>auto simp: claim_statement_def extend_statement_def finish_statement_def retry_statement_def
        requeue_before_statement_def requeue_failed_statement_def requeued_def queued_since_def
        insert_job_keeps_row release_statement_def update_rows_map_of
        intro!: update [unfolded queued_since_def]\<close>)
qed

lemma run_queued_since:
  "db_run ls db db' \<Longrightarrow> \<forall>(a, m, now) \<in> set ls. before \<le> now \<Longrightarrow> queued_since before cid db \<Longrightarrow>
     queued_since before cid db'"
  by (induction rule: db_run.induct) (auto intro: step_queued_since)

text \<open>A job queued before a moment is queued again at most once for it: after one machine has
  requeued it, and while clocks are past that moment, no run of the deployment lets anyone requeue
  it for the same moment; a failed job is requeued by one machine at most until it fails again.\<close>

theorem requeued_once:
  assumes "requeue_before_statement cid before now db = (1, db1)" "db_run ls db1 db2"
    "\<forall>(a, m, t) \<in> set ls. before \<le> t"
  shows "requeue_before_statement cid before now' db2 = (0, db2) \<and>
    (requeue_failed_statement cid now db1 = (0, db1))"
proof -
  have "queued_since before cid db1" "\<exists>r. map_of (jobs db1) cid = Some r \<and> row_status r = ''pending''"
    using assms(1)
    by (auto simp: queued_since_def requeue_before_statement_def update_job_def update_row_def
      update_conv' requeued_def split: option.splits if_splits)
  moreover have "queued_since before cid db2"
    using run_queued_since [OF assms(2,3)] calculation(1) .
  ultimately show ?thesis
    by (auto simp: queued_since_def requeue_before_statement_def requeue_failed_statement_def
      update_job_def update_row_def split: option.splits)
qed

theorem requeued_once_witness:
  "let db1 = snd (requeue_before_statement ''c'' 9 20 (snd (insert_job sample_job 5 empty_db)))
   in requeue_before_statement ''c'' 9 30 db1 = (0, db1)"
proof -
  let ?db = "snd (insert_job sample_job 5 empty_db)"
  let ?db1 = "snd (requeue_before_statement ''c'' 9 20 ?db)"
  have "fst (requeue_before_statement ''c'' 9 20 ?db) = 1"
    using sample_job_added(2) by (simp add: requeue_before_statement_def update_job_def update_row_def)
  then have "requeue_before_statement ''c'' 9 20 ?db = (1, ?db1)" by (metis prod.collapse)
  from requeued_once [OF this db_run.nil, of 30] show ?thesis by simp
qed

text \<open>Imports never replace local work: without force, importing over a row this deployment
  wrote keeps it and changes nothing; a new record is inserted with its alarm and not marked as
  local; an equal one changes nothing; any other replaces the row and advances its revision, so
  that whoever read it before cannot save over the import.\<close>

theorem imports_keep_local:
  assumes "db_ok db"
  shows "case map_of (tunnels db) (ident r) of
      None \<Rightarrow> \<exists>db'. import_tunnel quiet r at force now (k, db) = (Ok Inserted, Suc k, db') \<and>
        map_of (tunnels db') = (map_of (tunnels db))(ident r \<mapsto> import_row r at 1 now)
    | Some row \<Rightarrow> \<exists>outcome db'. import_tunnel quiet r at force now (k, db) = (Ok outcome, Suc (Suc k), db') \<and>
        (if local_update row \<and> \<not> force then outcome = KeptLocal \<and> db' = db
         else if row_record row = r then outcome = Unchanged \<and> db' = db
         else outcome = Updated \<and>
           map_of (tunnels db') = (map_of (tunnels db))(ident r \<mapsto> import_row r at (Suc (revision row)) now) \<and>
           (\<forall>r' t. ident r' = ident r \<longrightarrow> fst (save_statement t r' (revision row) db') = False))"
proof (cases "map_of (tunnels db) (ident r)")
  case None
  then show ?thesis
    by (simp add: import_tunnel_def try_import_def io_bind_def io_return_def import_insert_def
      insert_row_def numeral_eq_Suc)
next
  case (Some row)
  have dup: "import_insert r at now db = (False, db)"
    using Some by (simp add: import_insert_def insert_row_def)
  have tried: "import_tunnel quiet r at force now (k, db) =
      (case import_existing r at force now db of (outcome, db') \<Rightarrow> (Ok (the outcome), Suc (Suc k), db'))"
    using Some dup
    by (simp add: import_tunnel_def try_import_def io_bind_def io_return_def import_existing_def
      numeral_eq_Suc)
  have "ident (row_record row) = ident r" "0 < revision row"
    using assms Some by (auto simp: db_ok_def row_ok_def)
  then show ?thesis
    using Some tried
    by (auto simp: import_existing_def update_conv' save_statement_def update_tunnel_def update_row_def
      import_row_def)
qed

theorem imports_keep_local_witness:
  "\<exists>db'. import_tunnel quiet sample_tunnel None False 9 (0, empty_db) = (Ok Inserted, 1, db') \<and>
     map_of (tunnels db') ''t'' = Some (import_row sample_tunnel None 1 9)"
  using imports_keep_local [OF db_ok_empty, of sample_tunnel None False 9 0]
  by (auto simp: empty_db_def sample_tunnel_def)

text \<open>The key and CSR of the server's certificate, once stored, never change.\<close>

definition server_key :: "string \<Rightarrow> Db \<Rightarrow> (string \<times> string) option"
  where "server_key name db =
    map_option (\<lambda>c. (private_key c, server_csr c)) (map_of (server_certificates db) name)"

lemma certificates_other_step [simp]:
  "server_certificates (snd (insert_tunnel r now db)) = server_certificates db"
  "server_certificates (snd (update_tunnel r seen now db)) = server_certificates db"
  "server_certificates (snd (upsert_tunnel r now db)) = server_certificates db"
  "server_certificates (snd (write_alarm tid at db)) = server_certificates db"
  "server_certificates (snd (clear_alarm tid at' db)) = server_certificates db"
  "server_certificates (snd (import_insert r at now db)) = server_certificates db"
  "server_certificates (snd (import_existing r at force now db)) = server_certificates db"
  "server_certificates (snd (insert_job job t db)) = server_certificates db"
  "server_certificates (snd (update_job cid c f db)) = server_certificates db"
  "server_certificates (snd (release_statement m db)) = server_certificates db"
  "server_certificates (snd (write_meta key v db)) = server_certificates db"
  "server_certificates (snd (swap_statement key ex v db)) = server_certificates db"
  by (auto simp: statements split: option.splits prod.splits bool.splits)

lemma step_server_key:
  "db_step a m now db db' \<Longrightarrow> server_key name db = Some key \<Longrightarrow> server_key name db' = Some key"
  by (cases rule: db_step.cases)
    (auto simp: server_key_def claim_statement_def extend_statement_def finish_statement_def
      retry_statement_def requeue_before_statement_def requeue_failed_statement_def
      insert_server_certificate_def update_server_certificate_def insert_row_split update_row_map_of
      split: option.splits)

lemma steps_server_key:
  "any_step\<^sup>*\<^sup>* db db' \<Longrightarrow> server_key name db = Some key \<Longrightarrow> server_key name db' = Some key"
  by (induction rule: rtranclp_induct) (auto simp: any_step_def dest: step_server_key)

lemma create_server_certificate_key:
  assumes "world_steps w" "create_server_certificate w name c (k, db) = (Ok found, k', db')"
  shows "any_step\<^sup>*\<^sup>* db db'" "server_key name db' = Some (private_key found, server_csr found)"
proof -
  obtain db1 db2 where w: "w k db = (Answered, db1)" "w (Suc k) db2 = (Answered, db')"
    and ins: "db2 = snd (insert_server_certificate name c db1)"
    and found: "map_of (server_certificates db') name = Some found"
    using assms(2)
    by (auto simp: create_server_certificate_def server_certificate_def io_Ok select_def split: option.splits)
  have "any_step db1 db2" unfolding ins any_step_def by (blast intro: db_step.certificate_new)
  then show "any_step\<^sup>*\<^sup>* db db'"
    using world_reach [OF assms(1) w(1)] world_reach [OF assms(1) w(2)] by simp
  show "server_key name db' = Some (private_key found, server_csr found)"
    using found by (simp add: server_key_def)
qed

text \<open>Every machine of the deployment ends up with the same key: whatever certificates two
  machines generate and however their statements interleave with everything else, two successful
  creations for the same name return the same private key and request, and it stays stored.\<close>

theorem server_key_agreed:
  assumes "world_steps w" "world_steps w'"
    "create_server_certificate w name c (k, db) = (Ok found, k1, db1)"
    "any_step\<^sup>*\<^sup>* db1 db2" "create_server_certificate w' name c' (k2, db2) = (Ok found', k3, db3)"
  shows "(private_key found', server_csr found') = (private_key found, server_csr found) \<and>
    (any_step\<^sup>*\<^sup>* db3 db4 \<longrightarrow> server_key name db4 = Some (private_key found, server_csr found))"
proof -
  note first = create_server_certificate_key [OF assms(1,3)]
  note second = create_server_certificate_key [OF assms(2,5)]
  have "server_key name db3 = Some (private_key found, server_csr found)"
    using steps_server_key [OF second(1) steps_server_key [OF assms(4) first(2)]] .
  then show ?thesis using second(2) steps_server_key by auto
qed

theorem server_key_agreed_witness:
  "let c = \<lparr>private_key = ''a'', server_csr = ''ca'', server_cert = None, server_chain = None, server_expiry = None\<rparr>;
       c' = c\<lparr>private_key := ''b'', server_csr := ''cb''\<rparr>;
       s = snd (create_server_certificate quiet ''x'' c (0, empty_db))
   in \<exists>found s'. create_server_certificate quiet ''x'' c' s = (Ok found, s') \<and> private_key found = ''a''"
proof -
  define c where "c = \<lparr>private_key = ''a'', server_csr = ''ca'', server_cert = None,
    server_chain = None, server_expiry = (None :: string option)\<rparr>"
  define c' where "c' = c\<lparr>private_key := ''b'', server_csr := ''cb''\<rparr>"
  define db1 where "db1 = empty_db\<lparr>server_certificates := [(''x'', c)]\<rparr>"
  have one: "create_server_certificate quiet ''x'' c (0, empty_db) = (Ok c, 2, db1)"
    by (simp add: create_server_certificate_def server_certificate_def io_bind_def io_return_def
      insert_server_certificate_def insert_row_def empty_db_def select_def db1_def numeral_2_eq_2)
  have two: "create_server_certificate quiet ''x'' c' (2, db1) = (Ok c, 4, db1)"
    by (simp add: create_server_certificate_def server_certificate_def io_bind_def io_return_def
      insert_server_certificate_def insert_row_def select_def db1_def)
  have "private_key c = ''a''"
    using server_key_agreed [OF world_quiet(1) world_quiet(1) one rtranclp.rtrancl_refl two]
    by (simp add: c_def)
  then show ?thesis unfolding Let_def c_def [symmetric] c'_def [symmetric] using one two by simp
qed

section \<open>All operations keep the tables well-formed\<close>

text \<open>C40. The tables stay well-formed: whatever the rest of the deployment does that keeps them so,
  and however statements fail, every operation that changes tunnels or jobs leaves unique keys,
  positive revisions, flags that agree with the records, and leases only on pending jobs and with
  an end.\<close>

theorem operations_keep_tables:
  assumes "world_keeps db_ok w"
  shows "keeps db_ok (save_tunnel w r seen now) \<and> keeps db_ok (put_tunnel w r now) \<and>
    keeps db_ok (set_alarm w tid at) \<and> keeps db_ok (take_due_alarms w now) \<and>
    keeps db_ok (import_tunnel w r at force now) \<and> keeps db_ok (add_job w job t) \<and>
    keeps db_ok (claim_job w cid owner now) \<and> keeps db_ok (claim_due_jobs w owner now limit) \<and>
    keeps db_ok (extend_lease w cid owner now) \<and> keeps db_ok (release_leases w owner) \<and>
    (st \<in> {''done'', ''failed'', ''abandoned''} \<longrightarrow> keeps db_ok (finish_job w cid owner st e now)) \<and>
    keeps db_ok (retry_job w cid owner tries t e' now) \<and>
    keeps db_ok (requeue_job_queued_before w cid before now) \<and>
    keeps db_ok (requeue_failed_job w cid now)"
  using assms
  unfolding save_tunnel_def put_tunnel_def set_alarm_def take_due_alarms_def
    take_due_alarms_and_next_def add_job_def claim_due_jobs_def due_job_ids_def extend_lease_def
    release_leases_def finish_job_def retry_job_def requeue_job_queued_before_def
    requeue_failed_job_def
  by (intro conjI impI) (auto intro!: keeping statements_ok)

theorem operations_keep_tables_witness:
  "db_ok (snd (snd (claim_due_jobs quiet ''m1'' 10 5 (0, snd (insert_job sample_job 5 empty_db)))))"
proof -
  have "keeps db_ok (claim_due_jobs quiet ''m1'' 10 5)"
    by (rule operations_keep_tables [OF world_quiet(2), THEN conjunct2, THEN conjunct2, THEN conjunct2,
      THEN conjunct2, THEN conjunct2, THEN conjunct2, THEN conjunct2, THEN conjunct1])
  then show ?thesis using sample_job_added(1) by (simp add: keeps_def)
qed

end
