(* ===== verification/Service.thy ===== *)
theory Service
  imports Names Frames Crypto Store
begin

text \<open>
  One machine's view of its tunnels (\<^verbatim>\<open>crates/opentunnel-server/src/service.rs\<close>): the cached
  records with the rules for trusting them, the bridges attached to this machine and the public
  connections they carry. An operation holds the lock of its tunnel's entry while it runs, so it is
  one function of the machine's state; objects the source shares by reference (bridges and
  connections) live in heaps and are named by number. Operations that use the database, the clock,
  randomness or the certificate library take them from the environment. A call reads the clock
  once. Analytics and metrics are left out. \<open>Service_Api\<close> and \<open>Service_Bridges\<close> hold the operations.
\<close>

section \<open>Constants\<close>

definition RENEW_BEFORE_MS :: nat where "RENEW_BEFORE_MS = 30 * DAY_MS"
definition ACTIVE_WINDOW_MS :: nat where "ACTIVE_WINDOW_MS = 90 * DAY_MS"
definition RENEWAL_RETRY_MS :: nat where "RENEWAL_RETRY_MS = HOUR_MS"
definition RENEWAL_STALE_MS :: nat where "RENEWAL_STALE_MS = DAY_MS"
definition ORPHAN_MAX_AGE_MS :: nat where "ORPHAN_MAX_AGE_MS = 2 * DAY_MS"
definition RETRY_FAILED_MAX_AGE_MS :: nat where "RETRY_FAILED_MAX_AGE_MS = 7 * DAY_MS"
definition AUTHZ_PENDING_FIX_MS :: nat where "AUTHZ_PENDING_FIX_MS = 1791957600000"
definition STALE_BRIDGE_MS :: nat where "STALE_BRIDGE_MS = IDLE_TIMEOUT_MS + HEARTBEAT_MS"
definition REFRESH_BACKOFF_MS :: nat where "REFRESH_BACKOFF_MS = 5000"
definition MISSING_TTL_MS :: nat where "MISSING_TTL_MS = 30000"
definition NOT_READY_TTL_MS :: nat where "NOT_READY_TTL_MS = 5000"
definition SAFETY_TTL_MS :: nat where "SAFETY_TTL_MS = 10 * MINUTE_MS"
definition ATTACH_REREAD_MS :: nat where "ATTACH_REREAD_MS = 2000"
definition LAST_CONNECTED_INTERVAL_MS :: nat where "LAST_CONNECTED_INTERVAL_MS = HOUR_MS"
definition MAX_TUNNEL_ROUTES :: nat where "MAX_TUNNEL_ROUTES = 256"
definition ACTIVE_INTERVAL_MS :: nat where "ACTIVE_INTERVAL_MS = 5 * MINUTE_MS"

definition BRIDGE_BUDGET :: nat where "BRIDGE_BUDGET = 4 * 1024 * 1024"
definition OUTBOUND_BUDGET :: nat where "OUTBOUND_BUDGET = 1024 * 1024"
definition CHANNEL_BUDGET :: nat where "CHANNEL_BUDGET = 512 * 1024"
definition OUTBOUND_QUEUE :: nat where "OUTBOUND_QUEUE = 256"

section \<open>Bridges and public connections\<close>

datatype Outcome = Closed | Reset | BridgeDisconnected | Deleted | Backpressure | ClientError

definition Outcome_as_str :: "Outcome \<Rightarrow> string"
  where "Outcome_as_str o' = (case o' of Closed \<Rightarrow> ''closed'' | Reset \<Rightarrow> ''reset''
    | BridgeDisconnected \<Rightarrow> ''bridge_disconnected'' | Deleted \<Rightarrow> ''deleted''
    | Backpressure \<Rightarrow> ''backpressure'' | ClientError \<Rightarrow> ''client_error'')"

text \<open>The control messages of the server (\<^verbatim>\<open>ServerControl\<close> in \<^verbatim>\<open>bridge.rs\<close>, and \<^verbatim>\<open>drain\<close>), kept as
  values: the text on the wire is the JSON that serde derives. \<open>Out_data\<close> holds its
  length of the outbound budgets until it is written.\<close>

datatype ServerControl =
  ControlAttached string "string list" nat nat
| ControlAttachError string
| ControlOpen u32 string string string
| ControlPing nat
| ControlPong json
| ControlEnd u32
| ControlReset u32 string
| ControlDrain string

datatype Outbound =
  Out_text ServerControl
| Out_binary bytes
| Out_data bytes nat
| Out_pong bytes
| Out_close nat string

datatype Inbound = In_data bytes | In_end

record Finish =
  outcome :: "Outcome option"
  abort :: bool

definition Finish_new :: Finish
  where "Finish_new = \<lparr>outcome = None, abort = False\<rparr>"

definition finish :: "Outcome \<Rightarrow> bool \<Rightarrow> Finish \<Rightarrow> Finish"
  where "finish out ab f =
    (if outcome f \<noteq> None then f
     else f\<lparr>outcome := Some out, abort := (if ab then True else abort f)\<rparr>)"

record Channel =
  inbound :: "Inbound list"
  rx_open :: bool
  ch_finish :: Finish
  bytes_out :: nat
  ch_free :: nat
  drained_at :: nat

record BridgeState =
  attached :: bool
  detached :: bool
  session :: "string option"
  routes :: "string list"
  conns_wanted :: "nat option"
  attached_at :: nat
  active_at :: nat
  server_close :: "nat option"

definition BridgeState_default :: BridgeState
  where "BridgeState_default = \<lparr>attached = False, detached = False, session = None, routes = [],
    conns_wanted = None, attached_at = 0, active_at = 0, server_close = None\<rparr>"

record Bridge =
  b_tx :: "Outbound list"
  tx_open :: bool
  b_cancel :: bool
  seen_at :: nat
  bstate :: BridgeState
  channels :: "u32 \<rightharpoonup> nat"
  inbound_free :: nat
  outbound_free :: nat
  sent_at :: nat
  visitors :: nat

definition is_attached :: "Bridge \<Rightarrow> bool"
  where "is_attached b = (attached (bstate b) \<and> \<not> detached (bstate b))"

definition claims :: "Bridge \<Rightarrow> string \<Rightarrow> bool"
  where "claims b route =
    (attached (bstate b) \<and> \<not> detached (bstate b) \<and> route \<in> set (routes (bstate b)))"

definition is_closing :: "Bridge \<Rightarrow> bool"
  where "is_closing b = (server_close (bstate b) \<noteq> None)"

definition touch :: "nat \<Rightarrow> Bridge \<Rightarrow> Bridge"
  where "touch now b = b\<lparr>seen_at := now\<rparr>"

text \<open>\<open>rx_open\<close> and \<open>tx_open\<close> say that the other end of a queue still exists: a message for a queue
  without one is dropped. \<^verbatim>\<open>send\<close> on the bounded queue waits for room, in order; the list is what
  is queued and the messages of senders that wait. \<^verbatim>\<open>try_send\<close> drops the message when there is no
  room. The cancellation that \<^verbatim>\<open>close\<close> schedules five seconds later is recorded in \<open>b_cancel\<close>.\<close>

definition send :: "Outbound \<Rightarrow> Bridge \<Rightarrow> Bridge"
  where "send m b = (if tx_open b then b\<lparr>b_tx := b_tx b @ [m]\<rparr> else b)"

definition try_send :: "Outbound \<Rightarrow> Bridge \<Rightarrow> Bridge"
  where "try_send m b = (if length (b_tx b) < OUTBOUND_QUEUE then send m b else b)"

definition close :: "nat \<Rightarrow> string \<Rightarrow> Bridge \<Rightarrow> Bridge"
  where "close code reason b =
    (try_send (Out_close code reason) (b\<lparr>bstate := (bstate b)\<lparr>server_close := Some code\<rparr>\<rparr>))
      \<lparr>b_cancel := True\<rparr>"

definition conn_limit :: "Bridge \<Rightarrow> nat \<Rightarrow> nat"
  where "conn_limit b limit =
    (case conns_wanted (bstate b) of
       Some n \<Rightarrow> max 1 (min (if n < 2 ^ 64 then n else limit) limit)
     | None \<Rightarrow> limit)"

definition DRAIN_REASON :: string where "DRAIN_REASON = ''server restarting''"

definition send_drain :: "string \<Rightarrow> Bridge \<Rightarrow> Bridge"
  where "send_drain reason b = close 1012 reason (try_send (Out_text (ControlDrain reason)) b)"

section \<open>The machine\<close>

record BridgeLimits =
  conns_per_bridge :: nat
  conns_per_tunnel :: nat
  buffered_bytes :: nat

definition BridgeLimits_default :: BridgeLimits
  where "BridgeLimits_default =
    \<lparr>conns_per_bridge = 256, conns_per_tunnel = 1024, buffered_bytes = 256 * 1024 * 1024\<rparr>"

record EntryState =
  loaded_entry :: bool
  e_record :: "StoredTunnel option"
  e_revision :: nat
  checked_at :: nat
  stale :: bool
  e_generation :: nat
  e_bridges :: "nat list"
  e_sequence :: u32
  e_alarm :: "(nat \<times> nat option) option"

definition EntryState_default :: EntryState
  where "EntryState_default = \<lparr>loaded_entry = False, e_record = None, e_revision = 0, checked_at = 0,
    stale = False, e_generation = 0, e_bridges = [], e_sequence = 0, e_alarm = None\<rparr>"

text \<open>\<open>slots\<close> are the live \<^verbatim>\<open>VisitorSlot\<close> values: the connection whose task owns the slot, the bridge
  it counts on and the number the connection was opened with. \<open>mesh_calls\<close> is what the machine tells
  the others through the mesh, in order.\<close>

datatype Event =
  TunnelCreated string
| TunnelDeleted string
| CertificateChanged string
| Leaving
| JobEnqueued
| UnknownEvent

datatype mesh_call =
  Publish Event
| Mesh_attached string nat "string list" nat
| Mesh_detached string nat

record Service =
  domain :: string
  sv_store :: store_state
  sv_rates :: rates
  entries :: "(string, EntryState) table"
  bridge_heap :: "nat \<Rightarrow> Bridge"
  chan_heap :: "nat \<Rightarrow> Channel"
  next_bridge :: nat
  next_chan :: nat
  clustered :: bool
  mesh_complete :: bool
  mesh_calls :: "mesh_call list"
  sv_limits :: "Limits option"
  refresh_failed_at :: nat
  generation :: nat
  draining :: bool
  bridge_limits :: BridgeLimits
  buffer_free :: nat
  slots :: "nat \<rightharpoonup> nat \<times> u32"
  uuids :: nat

datatype service_error = Store_failed store_error | Limit_failed limit_error | Missing string | Panic

record Env =
  db_world :: world
  rate_world :: "nat \<Rightarrow> rates \<Rightarrow> rates option"
  sha256 :: "bytes \<Rightarrow> bytes"
  decode_csr :: "string \<Rightarrow> X509Request option"
  iso :: "nat \<Rightarrow> string"
  parse_iso :: "string \<Rightarrow> nat option"
  random :: "nat \<Rightarrow> bytes"
  error_text :: "service_error \<Rightarrow> string"

type_synonym 'a sv = "Service \<Rightarrow> (service_error + 'a) \<times> Service"

definition sv_bind :: "'a sv \<Rightarrow> ('a \<Rightarrow> 'b sv) \<Rightarrow> 'b sv"
  where "sv_bind m f = (\<lambda>s. case m s of (Inl e, s) \<Rightarrow> (Inl e, s) | (Inr a, s) \<Rightarrow> f a s)"

definition sv_return :: "'a \<Rightarrow> 'a sv"
  where "sv_return a = (\<lambda>s. (Ok a, s))"

definition sv_fail :: "service_error \<Rightarrow> 'a sv"
  where "sv_fail e = (\<lambda>s. (Err e, s))"

text \<open>An operation whose failure the caller handles.\<close>

definition sv_try :: "'a sv \<Rightarrow> (service_error + 'a) sv"
  where "sv_try m = (\<lambda>s. case m s of (r, s) \<Rightarrow> (Ok r, s))"

definition sv_modify :: "(Service \<Rightarrow> Service) \<Rightarrow> unit sv"
  where "sv_modify f = (\<lambda>s. (Ok (), f s))"

definition sv_get :: "(Service \<Rightarrow> 'a) \<Rightarrow> 'a sv"
  where "sv_get f = (\<lambda>s. (Ok (f s), s))"

definition sv_store_io :: "'a store_io \<Rightarrow> 'a sv"
  where "sv_store_io m = (\<lambda>s. case m (sv_store s) of
    (Inl e, st) \<Rightarrow> (Inl (Store_failed e), s\<lparr>sv_store := st\<rparr>) | (Inr a, st) \<Rightarrow> (Inr a, s\<lparr>sv_store := st\<rparr>))"

definition new_uuid :: "Env \<Rightarrow> string sv"
  where "new_uuid env = (\<lambda>s.
    case uuid (random env (uuids s)) of
      Some u \<Rightarrow> (Ok u, s\<lparr>uuids := Suc (uuids s)\<rparr>) | None \<Rightarrow> (Err Panic, s))"

definition announce :: "mesh_call \<Rightarrow> unit sv"
  where "announce call = sv_modify (\<lambda>s. if clustered s then s\<lparr>mesh_calls := mesh_calls s @ [call]\<rparr> else s)"

definition job_added :: "unit sv"
  where "job_added = announce (Publish JobEnqueued)"

section \<open>Entries\<close>

text \<open>\<^verbatim>\<open>entry\<close> creates the entry of a tunnel when there is none.\<close>

definition entry_at :: "string \<Rightarrow> Service \<Rightarrow> EntryState"
  where "entry_at tid s =
    (case map_of (entries s) tid of Some e \<Rightarrow> e | None \<Rightarrow> EntryState_default)"

definition set_entry :: "string \<Rightarrow> EntryState \<Rightarrow> Service \<Rightarrow> Service"
  where "set_entry tid e s = s\<lparr>entries := AList.update tid e (entries s)\<rparr>"

definition entry :: "string \<Rightarrow> Service \<Rightarrow> Service"
  where "entry tid s = set_entry tid (entry_at tid s) s"

definition set_bridge :: "nat \<Rightarrow> Bridge \<Rightarrow> Service \<Rightarrow> Service"
  where "set_bridge bid b s = s\<lparr>bridge_heap := (bridge_heap s)(bid := b)\<rparr>"

definition on_bridge :: "(Bridge \<Rightarrow> Bridge) \<Rightarrow> nat \<Rightarrow> Service \<Rightarrow> Service"
  where "on_bridge f bid s = set_bridge bid (f (bridge_heap s bid)) s"

text \<open>The record of an entry, unless it is deleted.\<close>

definition live_record :: "EntryState \<Rightarrow> StoredTunnel option"
  where "live_record e = option_filter (\<lambda>r. \<not> is_deleted r) (e_record e)"

definition attached_bridges :: "Service \<Rightarrow> EntryState \<Rightarrow> nat list"
  where "attached_bridges s e = filter (\<lambda>b. is_attached (bridge_heap s b)) (e_bridges e)"

definition finish_channels :: "Outcome \<Rightarrow> nat \<Rightarrow> Service \<Rightarrow> Service"
  where "finish_channels out bid s =
    (let held = ran (channels (bridge_heap s bid))
     in on_bridge (\<lambda>b. b\<lparr>channels := (\<lambda>_. None)\<rparr>) bid
          (s\<lparr>chan_heap := (\<lambda>c. if c \<in> held
             then (chan_heap s c)\<lparr>ch_finish := finish out True (ch_finish (chan_heap s c))\<rparr>
             else chan_heap s c)\<rparr>))"

section \<open>Locking a tunnel with its record\<close>

text \<open>\<open>now - t\<close> on natural numbers is the source's saturating subtraction.\<close>

definition load_snapshot :: "nat \<Rightarrow> nat \<Rightarrow> AttachSnapshot option \<Rightarrow> EntryState \<Rightarrow> EntryState"
  where "load_snapshot now gen found e =
    (case found of
       Some sn \<Rightarrow> e\<lparr>e_record := Some (loaded_record (loaded sn)), e_revision := loaded_revision (loaded sn),
         e_alarm := Some (now, snapshot_alarm sn)\<rparr>
     | None \<Rightarrow> e\<lparr>e_record := None, e_revision := 0, e_alarm := None\<rparr>)
      \<lparr>loaded_entry := True, checked_at := now, stale := False, e_generation := gen\<rparr>"

definition lock :: "Env \<Rightarrow> nat \<Rightarrow> string \<Rightarrow> unit sv"
  where "lock env now tid =
    sv_bind (sv_modify (entry tid)) (\<lambda>_.
    sv_bind (sv_get (entry_at tid)) (\<lambda>e.
      if loaded_entry e then sv_return ()
      else sv_bind (sv_store_io (tunnel_with_alarm (db_world env) tid)) (\<lambda>found.
        sv_modify (\<lambda>s. set_entry tid (load_snapshot now (generation s) found (entry_at tid s)) s))))"

definition refresh :: "Env \<Rightarrow> nat \<Rightarrow> string \<Rightarrow> unit sv"
  where "refresh env now tid =
    sv_bind (sv_get refresh_failed_at) (\<lambda>failed_at.
      if now - failed_at < REFRESH_BACKOFF_MS then sv_return ()
      else sv_bind (sv_get generation) (\<lambda>gen.
        sv_bind (sv_try (sv_store_io (tunnel (db_world env) tid))) (\<lambda>found.
          case found of
            Inr found \<Rightarrow>
              sv_modify (\<lambda>s. let e = entry_at tid s in set_entry tid
                ((case found of
                    Some l \<Rightarrow> e\<lparr>e_record := Some (loaded_record l), e_revision := loaded_revision l\<rparr>
                  | None \<Rightarrow> e\<lparr>e_record := None, e_revision := 0\<rparr>)
                 \<lparr>checked_at := now, stale := False, e_generation := gen\<rparr>) s)
          | Inl _ \<Rightarrow> sv_modify (\<lambda>s. s\<lparr>refresh_failed_at := now\<rparr>))))"

definition lock_fresh :: "Env \<Rightarrow> nat \<Rightarrow> string \<Rightarrow> unit sv"
  where "lock_fresh env now tid =
    sv_bind (sv_modify (entry tid)) (\<lambda>_.
    sv_bind (sv_get (\<lambda>s. (clustered s, entry_at tid s))) (\<lambda>(many, e).
      if \<not> many \<or> \<not> loaded_entry e then lock env now tid else refresh env now tid))"

definition cached_ttl :: "bool \<Rightarrow> EntryState \<Rightarrow> nat"
  where "cached_ttl complete e =
    (if complete then SAFETY_TTL_MS
     else case live_record e of Some _ \<Rightarrow> NOT_READY_TTL_MS | None \<Rightarrow> MISSING_TTL_MS)"

definition record_ready :: "EntryState \<Rightarrow> bool"
  where "record_ready e = (case live_record e of Some r \<Rightarrow> certificate_ready r | None \<Rightarrow> False)"

definition lock_routable :: "Env \<Rightarrow> nat \<Rightarrow> string \<Rightarrow> unit sv"
  where "lock_routable env now tid =
    sv_bind (sv_modify (entry tid)) (\<lambda>_.
    sv_bind (sv_get (\<lambda>s. s)) (\<lambda>s.
      let e = entry_at tid s in
      if \<not> clustered s \<or> \<not> loaded_entry e then lock env now tid
      else if stale e then refresh env now tid
      else if record_ready e then sv_return ()
      else if e_generation e < generation s then refresh env now tid
      else if now - checked_at e < cached_ttl (mesh_complete s) e then sv_return ()
      else refresh env now tid))"

text \<open>The read of an attach: a cached record is used when the database does not answer. The result is
  the alarm, when it was read: \<^verbatim>\<open>AttachFollowup\<close>.\<close>

definition attach_read :: "Env \<Rightarrow> nat \<Rightarrow> string \<Rightarrow> nat option option sv"
  where "attach_read env now tid =
    sv_bind (sv_try (sv_store_io (tunnel_with_alarm (db_world env) tid))) (\<lambda>found s.
      let e = entry_at tid s in
      case found of
        Inr (Some sn) \<Rightarrow>
          (Ok (Some (snapshot_alarm sn)), set_entry tid (load_snapshot now (generation s) (Some sn) e) s)
      | Inr None \<Rightarrow>
          (Ok None, set_entry tid ((load_snapshot now (generation s) None e)\<lparr>e_alarm := e_alarm e\<rparr>) s)
      | Inl err \<Rightarrow>
          if loaded_entry e then (Ok None, s\<lparr>refresh_failed_at := now\<rparr>) else (Err err, s))"

definition lock_for_attach :: "Env \<Rightarrow> nat \<Rightarrow> string \<Rightarrow> nat option option sv"
  where "lock_for_attach env now tid =
    sv_bind (sv_modify (entry tid)) (\<lambda>_.
    sv_bind (sv_get (\<lambda>s. s)) (\<lambda>s.
      let e = entry_at tid s in
      if \<not> clustered s then sv_bind (lock env now tid) (\<lambda>_. sv_return None)
      else if loaded_entry e \<and> now - refresh_failed_at s < REFRESH_BACKOFF_MS then sv_return None
      else case e_alarm e of
        Some (read_at, at) \<Rightarrow>
          if loaded_entry e \<and> \<not> stale e \<and> e_generation e = generation s \<and> read_at = checked_at e \<and>
             now - read_at < ATTACH_REREAD_MS
          then sv_return (Some at) else attach_read env now tid
      | None \<Rightarrow> attach_read env now tid))"

section \<open>The cache\<close>

text \<open>\<open>in_use\<close> says which entries another task holds now (their reference count is above one or
  their lock is taken).\<close>

definition collect_idle :: "(string \<Rightarrow> bool) \<Rightarrow> nat \<Rightarrow> Service \<Rightarrow> Service"
  where "collect_idle in_use now s =
    s\<lparr>entries := filter (\<lambda>(tid, e). in_use tid \<or> e_bridges e \<noteq> [] \<or>
        (loaded_entry e \<and> now - checked_at e < MISSING_TTL_MS)) (entries s)\<rparr>"

definition expire :: "string \<Rightarrow> Service \<Rightarrow> Service"
  where "expire tid s =
    (case map_of (entries s) tid of Some e \<Rightarrow> set_entry tid (e\<lparr>stale := True\<rparr>) s | None \<Rightarrow> s)"

definition forget_cached_answers :: "Service \<Rightarrow> Service"
  where "forget_cached_answers s = s\<lparr>generation := Suc (generation s)\<rparr>"

definition forget_record :: "EntryState \<Rightarrow> EntryState"
  where "forget_record e = e\<lparr>loaded_entry := False, e_record := None, e_revision := 0\<rparr>"

definition invalidate :: "string \<Rightarrow> Service \<Rightarrow> Service"
  where "invalidate tid s = set_entry tid (forget_record (entry_at tid s)) s"

definition save :: "Env \<Rightarrow> nat \<Rightarrow> string \<Rightarrow> StoredTunnel \<Rightarrow> unit sv"
  where "save env now tid r =
    sv_bind (sv_get (entry_at tid)) (\<lambda>e.
    sv_bind (sv_try (sv_store_io (save_tunnel (db_world env) r (e_revision e) now))) (\<lambda>saved.
      case saved of
        Inr n \<Rightarrow> sv_modify (\<lambda>s. set_entry tid ((entry_at tid s)\<lparr>e_revision := n, e_record := Some r\<rparr>) s)
      | Inl err \<Rightarrow>
          sv_bind (sv_modify (\<lambda>s. if err = Store_failed Conflict
              then set_entry tid (forget_record (entry_at tid s)) s else s))
            (\<lambda>_. sv_fail err)))"

definition view :: "Service \<Rightarrow> EntryState \<Rightarrow> StoredTunnel \<Rightarrow> TunnelView"
  where "view s e r =
    \<lparr>view_id = ident r, view_hostname = hostname r,
     view_state = (if attached_bridges s e \<noteq> [] then Online else Offline),
     view_certificate_id = certificate_id r\<rparr>"

section \<open>Laws of the operations on the machine\<close>

lemma entry_at_set [simp]:
  "entry_at tid (set_entry tid' e s) = (if tid = tid' then e else entry_at tid s)"
  by (simp add: entry_at_def set_entry_def update_conv')

lemma entry_at_entry [simp]: "entry_at tid (entry tid' s) = entry_at tid s"
  by (simp add: entry_def)

lemma entry_at_update [simp]:
  "entry_at tid (s\<lparr>sv_store := st\<rparr>) = entry_at tid s"
  "entry_at tid (s\<lparr>refresh_failed_at := t\<rparr>) = entry_at tid s"
  "entry_at tid (s\<lparr>mesh_calls := cs\<rparr>) = entry_at tid s"
  "entry_at tid (s\<lparr>uuids := u\<rparr>) = entry_at tid s"
  "entry_at tid (s\<lparr>sv_rates := rs\<rparr>) = entry_at tid s"
  "entry_at tid (s\<lparr>sv_limits := l\<rparr>) = entry_at tid s"
  "entry_at tid (s\<lparr>bridge_heap := h\<rparr>) = entry_at tid s"
  "entry_at tid (s\<lparr>chan_heap := ch\<rparr>) = entry_at tid s"
  "entry_at tid (s\<lparr>slots := sl\<rparr>) = entry_at tid s"
  "entry_at tid (s\<lparr>next_bridge := n\<rparr>) = entry_at tid s"
  "entry_at tid (s\<lparr>next_chan := n\<rparr>) = entry_at tid s"
  "entry_at tid (s\<lparr>buffer_free := n\<rparr>) = entry_at tid s"
  "entry_at tid (s\<lparr>draining := d\<rparr>) = entry_at tid s"
  "entry_at tid (s\<lparr>generation := g\<rparr>) = entry_at tid s"
  by (simp_all add: entry_at_def)

lemma entry_at_set_bridge [simp]:
  "entry_at tid (set_bridge bid b s) = entry_at tid s" "entry_at tid (on_bridge f bid s) = entry_at tid s"
  by (simp_all add: set_bridge_def on_bridge_def)

lemma set_entry_others [simp]:
  "sv_store (set_entry tid e s) = sv_store s" "bridge_heap (set_entry tid e s) = bridge_heap s"
  "chan_heap (set_entry tid e s) = chan_heap s" "clustered (set_entry tid e s) = clustered s"
  "generation (set_entry tid e s) = generation s" "mesh_calls (set_entry tid e s) = mesh_calls s"
  "next_bridge (set_entry tid e s) = next_bridge s" "next_chan (set_entry tid e s) = next_chan s"
  "domain (set_entry tid e s) = domain s" "draining (set_entry tid e s) = draining s"
  "bridge_limits (set_entry tid e s) = bridge_limits s" "uuids (set_entry tid e s) = uuids s"
  "refresh_failed_at (set_entry tid e s) = refresh_failed_at s"
  "mesh_complete (set_entry tid e s) = mesh_complete s" "sv_limits (set_entry tid e s) = sv_limits s"
  "sv_rates (set_entry tid e s) = sv_rates s" "buffer_free (set_entry tid e s) = buffer_free s"
  "slots (set_entry tid e s) = slots s"
  by (simp_all add: set_entry_def)

lemma entry_others [simp]:
  "sv_store (entry tid s) = sv_store s" "bridge_heap (entry tid s) = bridge_heap s"
  "chan_heap (entry tid s) = chan_heap s" "clustered (entry tid s) = clustered s"
  "generation (entry tid s) = generation s" "mesh_calls (entry tid s) = mesh_calls s"
  "next_bridge (entry tid s) = next_bridge s" "next_chan (entry tid s) = next_chan s"
  "domain (entry tid s) = domain s" "draining (entry tid s) = draining s"
  "bridge_limits (entry tid s) = bridge_limits s" "uuids (entry tid s) = uuids s"
  "refresh_failed_at (entry tid s) = refresh_failed_at s"
  "mesh_complete (entry tid s) = mesh_complete s" "sv_limits (entry tid s) = sv_limits s"
  "sv_rates (entry tid s) = sv_rates s" "buffer_free (entry tid s) = buffer_free s"
  "slots (entry tid s) = slots s"
  by (simp_all add: entry_def)

lemma sv_bind_Ok:
  "sv_bind m f s = (Ok b, s') \<longleftrightarrow> (\<exists>a s1. m s = (Ok a, s1) \<and> f a s1 = (Ok b, s'))"
  by (auto simp: sv_bind_def split: prod.splits sum.splits)

lemmas sv_defs = sv_bind_def sv_return_def sv_fail_def sv_try_def sv_modify_def sv_get_def sv_store_io_def

end
