(* ===== verification/Service_Api.thy ===== *)
theory Service_Api
  imports Service
begin

text \<open>
  The operations of the API and of certificates on one machine (\<^verbatim>\<open>service.rs\<close>): creating, looking up
  and removing tunnels, binding a certificate request, recording the progress of issuance, the
  renewal alarm, and the passes that resume or repeat issuance.
\<close>

section \<open>Tunnels\<close>

definition new_record :: "string \<Rightarrow> string \<Rightarrow> string \<Rightarrow> string \<Rightarrow> StoredTunnel"
  where "new_record tid dn hash at =
    \<lparr>record_version = 1, ident = tid, hostname = tid @ ''.'' @ dn, tstate = Offline,
     certificate_id = None, token_hash = hash, created_at = at, deleted_at = None,
     certificate = None, certificate_csr = None, certificate_identifiers = None,
     certificate_started_at = None, last_connected_at = None, renewal = None\<rparr>"

definition create :: "Env \<Rightarrow> nat \<Rightarrow> string \<Rightarrow> string \<Rightarrow> TunnelView option sv"
  where "create env now tid hash =
    sv_bind (lock_fresh env now tid) (\<lambda>_.
    sv_bind (sv_get (\<lambda>s. (entry_at tid s, domain s))) (\<lambda>(e, dn).
      if live_record e \<noteq> None then sv_return None
      else let r = new_record tid dn hash (iso env now) in
        sv_bind (save env now tid r) (\<lambda>_.
        sv_bind (announce (Publish (TunnelCreated tid))) (\<lambda>_.
        sv_bind (sv_store_io (set_alarm (db_world env) tid None)) (\<lambda>_.
        sv_get (\<lambda>s. Some (view s (entry_at tid s) r)))))))"

datatype 'a Lookup = Found 'a | NotFound | Unauthorized

text \<open>\<open>elsewhere\<close> is whether the mesh knows a bridge of the tunnel on another machine.\<close>

definition info :: "Env \<Rightarrow> nat \<Rightarrow> (string \<Rightarrow> bool) \<Rightarrow> string \<Rightarrow> string \<Rightarrow> TunnelView Lookup sv"
  where "info env now elsewhere tid token =
    sv_bind (lock_fresh env now tid) (\<lambda>_.
    sv_get (\<lambda>s. let e = entry_at tid s in
      case live_record e of
        None \<Rightarrow> NotFound
      | Some r \<Rightarrow>
          if \<not> token_matches (sha256 env) token (token_hash r) then Unauthorized
          else let v = view s e r in
            Found (if view_state v = Offline \<and> clustered s \<and> elsewhere tid
              then v\<lparr>view_state := Online\<rparr> else v)))"

datatype CertificateLookup = Certificate CertificateInfo | CertNotFound | CertUnauthorized | NoCertificate

definition certificate_lookup :: "Env \<Rightarrow> nat \<Rightarrow> string \<Rightarrow> string \<Rightarrow> CertificateLookup sv"
  where "certificate_lookup env now tid token =
    sv_bind (lock_fresh env now tid) (\<lambda>_.
    sv_get (\<lambda>s.
      case live_record (entry_at tid s) of
        None \<Rightarrow> CertNotFound
      | Some r \<Rightarrow>
          if \<not> token_matches (sha256 env) token (token_hash r) then CertUnauthorized
          else (case certificate r of Some c \<Rightarrow> Certificate c | None \<Rightarrow> NoCertificate)))"

section \<open>Binding a certificate\<close>

definition ensure_issuance :: "Env \<Rightarrow> nat \<Rightarrow> StoredTunnel \<Rightarrow> JobKind \<Rightarrow> unit sv"
  where "ensure_issuance env now r kd =
    (case (case kd of Renew \<Rightarrow> map_option renewal_id (renewal r) | _ \<Rightarrow> certificate_id r) of
       None \<Rightarrow> sv_fail (Missing ''Certificate ID is missing'')
     | Some cid \<Rightarrow>
         (case certificate_csr r of
            None \<Rightarrow> sv_fail (Missing ''Certificate CSR is missing'')
          | Some csr \<Rightarrow>
              sv_bind (sv_store_io (add_job (db_world env)
                  \<lparr>job_certificate_id = cid, job_tunnel_id = Some (ident r), job_kind = kd,
                   job_identifiers = identifiers r, job_csr = csr, job_attempts = 0,
                   job_created_at = now\<rparr> now)) (\<lambda>added.
                if added then job_added else sv_return ())))"

datatype Bind =
  Bound CertificateInfo
| BindNotFound
| BindUnauthorized
| InProgress
| InvalidRequest string
| InvalidHostname string string
| BindUnavailable service_error
| RateLimited nat
| Backlogged

definition backlog_check :: "Env \<Rightarrow> nat \<Rightarrow> Limits \<Rightarrow> bool sv"
  where "backlog_check env now l =
    sv_bind (if backlog_limit l = 0 \<or> (case backlog l of Some (_, at) \<Rightarrow> now - at < BACKLOG_TTL_MS | None \<Rightarrow> False)
        then sv_return None
        else sv_bind (sv_try (sv_store_io (pending_jobs (db_world env)))) (\<lambda>count.
          sv_return (case count of Inr n \<Rightarrow> Some n | Inl _ \<Rightarrow> None))) (\<lambda>count.
      case Limits_backlogged l now count of (l, backlogged) \<Rightarrow>
        sv_bind (sv_modify (\<lambda>s. s\<lparr>sv_limits := Some l\<rparr>)) (\<lambda>_. sv_return backlogged))"

definition issuance_verdict :: "Env \<Rightarrow> nat \<Rightarrow> Limits \<Rightarrow> string \<Rightarrow> Verdict sv"
  where "issuance_verdict env now l tid = (\<lambda>s.
    case Limits_issuance (rate_world env) l tid (int now) (sv_rates s) of
      (t, Inl e) \<Rightarrow> (Err (Limit_failed e), s\<lparr>sv_rates := t\<rparr>)
    | (t, Inr v) \<Rightarrow> (Ok v, s\<lparr>sv_rates := t\<rparr>))"

text \<open>The limits on a new certificate: \<^const>\<open>None\<close> lets it through.\<close>

definition check_limits :: "Env \<Rightarrow> nat \<Rightarrow> string \<Rightarrow> Bind option sv"
  where "check_limits env now tid =
    sv_bind (sv_get sv_limits) (\<lambda>limits.
      case limits of
        None \<Rightarrow> sv_return None
      | Some l \<Rightarrow>
          sv_bind (backlog_check env now l) (\<lambda>backlogged.
            if backlogged then sv_return (Some Backlogged)
            else sv_bind (issuance_verdict env now l tid) (\<lambda>v.
              sv_return (case v of Limited ms \<Rightarrow> Some (RateLimited ms) | Allowed \<Rightarrow> None))))"

definition start_issuance :: "Env \<Rightarrow> nat \<Rightarrow> string \<Rightarrow> StoredTunnel \<Rightarrow> string \<Rightarrow> string list \<Rightarrow> Bind sv"
  where "start_issuance env now tid r csr names =
    sv_bind (new_uuid env) (\<lambda>u.
      let cid = ''cert_'' @ u;
          c = \<lparr>cert_id = cid, cert_state = Issuing\<rparr>;
          issuing = r\<lparr>certificate_id := Some cid, certificate := Some c, certificate_csr := Some csr,
            certificate_identifiers := Some names, certificate_started_at := Some (iso env now),
            renewal := None\<rparr>
      in sv_bind (save env now tid issuing) (\<lambda>_.
         sv_bind (announce (Publish (CertificateChanged tid))) (\<lambda>_.
         sv_bind (sv_try (ensure_issuance env now issuing Issue)) (\<lambda>started.
           case started of
             Inr _ \<Rightarrow> sv_return (Bound c)
           | Inl err \<Rightarrow>
               sv_bind (save env now tid
                   (issuing\<lparr>certificate := Some \<lparr>cert_id = cid, cert_state = Failed (error_text env err)\<rparr>\<rparr>))
                 (\<lambda>_. sv_return (BindUnavailable err))))))"

definition bind_certificate :: "Env \<Rightarrow> nat \<Rightarrow> string \<Rightarrow> string \<Rightarrow> string \<Rightarrow> Bind sv"
  where "bind_certificate env now tid token csr =
    sv_bind (lock_fresh env now tid) (\<lambda>_.
    sv_bind (sv_get (\<lambda>s. live_record (entry_at tid s))) (\<lambda>found.
      case found of
        None \<Rightarrow> sv_return BindNotFound
      | Some r \<Rightarrow>
          if \<not> token_matches (sha256 env) token (token_hash r) then sv_return BindUnauthorized
          else (case csr_parse (decode_csr env) csr of
            None \<Rightarrow> sv_return (InvalidRequest ''Failed to parse CSR'')
          | Some request \<Rightarrow>
              let wildcard = ''*.'' @ hostname r in
              if req_hostname request \<noteq> hostname r
              then sv_return (InvalidHostname (req_hostname request) (hostname r))
              else if list_ex (\<lambda>i. i \<noteq> hostname r \<and> i \<noteq> wildcard) (req_identifiers request)
              then sv_return (InvalidHostname (join_with '','' (req_identifiers request))
                (hostname r @ '','' @ wildcard))
              else (case certificate r of
                Some c \<Rightarrow>
                  if certificate_csr r = Some csr
                  then sv_bind (sv_try (ensure_issuance env now r Issue)) (\<lambda>started.
                    sv_return (case started of Inr _ \<Rightarrow> Bound c | Inl err \<Rightarrow> BindUnavailable err))
                  else if certificate_pending r then sv_return InProgress
                  else sv_bind (check_limits env now tid) (\<lambda>refused.
                    case refused of
                      Some b \<Rightarrow> sv_return b
                    | None \<Rightarrow> start_issuance env now tid r csr (req_identifiers request))
              | None \<Rightarrow>
                  sv_bind (check_limits env now tid) (\<lambda>refused.
                    case refused of
                      Some b \<Rightarrow> sv_return b
                    | None \<Rightarrow> start_issuance env now tid r csr (req_identifiers request))))))"

section \<open>Removing a tunnel\<close>

definition close_bridge :: "Outcome \<Rightarrow> nat \<Rightarrow> string \<Rightarrow> nat \<Rightarrow> Service \<Rightarrow> Service"
  where "close_bridge out code reason bid s =
    on_bridge (close code reason) bid (finish_channels out bid s)"

definition remove_tunnel :: "Env \<Rightarrow> nat \<Rightarrow> string \<Rightarrow> string \<Rightarrow> unit Lookup sv"
  where "remove_tunnel env now tid token =
    sv_bind (lock_fresh env now tid) (\<lambda>_.
    sv_bind (sv_get (entry_at tid)) (\<lambda>e.
      case live_record e of
        None \<Rightarrow> sv_return NotFound
      | Some r \<Rightarrow>
          if \<not> token_matches (sha256 env) token (token_hash r) then sv_return Unauthorized
          else
            sv_bind (sv_modify (\<lambda>s. fold (close_bridge Deleted 1000 ''deleted'') (e_bridges e) s)) (\<lambda>_.
            sv_bind (save env now tid (r\<lparr>tstate := Offline, deleted_at := Some (iso env now)\<rparr>)) (\<lambda>_.
            sv_bind (announce (Publish (TunnelDeleted tid))) (\<lambda>_.
            sv_bind (sv_store_io (set_alarm (db_world env) tid None)) (\<lambda>_.
            sv_return (Found ())))))))"

section \<open>The progress of issuance\<close>

text \<open>\<^verbatim>\<open>set_alarm\<close> of the service also wakes this machine's alarm loop, which only looks at the
  database earlier than it would.\<close>

definition schedule_renewal :: "Env \<Rightarrow> nat \<Rightarrow> StoredTunnel \<Rightarrow> unit sv"
  where "schedule_renewal env now r =
    (if is_deleted r then sv_return ()
     else case Option.bind (ready_expiry r) (parse_iso env) of
       None \<Rightarrow> sv_return ()
     | Some expiry \<Rightarrow>
         sv_store_io (set_alarm (db_world env) (ident r)
           (Some (max (expiry - RENEW_BEFORE_MS) (now + MINUTE_MS)))))"

definition update_renewal :: "Env \<Rightarrow> nat \<Rightarrow> string \<Rightarrow> StoredTunnel \<Rightarrow> string \<Rightarrow> CertificateState \<Rightarrow> unit sv"
  where "update_renewal env now tid r cid st =
    (case st of
       Ready _ _ _ \<Rightarrow>
         let renewed = r\<lparr>certificate_id := Some cid,
           certificate := Some \<lparr>cert_id = cid, cert_state = st\<rparr>, renewal := None\<rparr>
         in sv_bind (save env now tid renewed) (\<lambda>_.
            sv_bind (announce (Publish (CertificateChanged tid))) (\<lambda>_.
            schedule_renewal env now renewed))
     | Failed _ \<Rightarrow>
         sv_bind (save env now tid (r\<lparr>renewal := None\<rparr>)) (\<lambda>_.
         sv_store_io (set_alarm (db_world env) tid (Some (now + RENEWAL_RETRY_MS))))
     | _ \<Rightarrow> sv_return ())"

definition is_renewal :: "StoredTunnel \<Rightarrow> string \<Rightarrow> bool"
  where "is_renewal r cid = (case renewal r of Some n \<Rightarrow> renewal_id n = cid | None \<Rightarrow> False)"

definition is_ready :: "CertificateState \<Rightarrow> bool"
  where "is_ready st = (case st of Ready _ _ _ \<Rightarrow> True | _ \<Rightarrow> False)"

definition is_failed :: "CertificateState \<Rightarrow> bool"
  where "is_failed st = (case st of Failed _ \<Rightarrow> True | _ \<Rightarrow> False)"

definition update_certificate :: "Env \<Rightarrow> nat \<Rightarrow> string \<Rightarrow> string \<Rightarrow> CertificateState \<Rightarrow> bool sv"
  where "update_certificate env now tid cid st =
    sv_bind (lock_fresh env now tid) (\<lambda>_.
    sv_bind (sv_get (\<lambda>s. live_record (entry_at tid s))) (\<lambda>found.
      case found of
        None \<Rightarrow> sv_return False
      | Some r \<Rightarrow>
          if is_renewal r cid
          then sv_bind (update_renewal env now tid r cid st) (\<lambda>_. sv_return True)
          else if certificate_id r \<noteq> Some cid then sv_return False
          else let updated = r\<lparr>certificate := Some \<lparr>cert_id = cid, cert_state = st\<rparr>\<rparr> in
            sv_bind (save env now tid updated) (\<lambda>_.
            sv_bind (if is_ready st then announce (Publish (CertificateChanged tid)) else sv_return ()) (\<lambda>_.
            sv_bind (schedule_renewal env now updated) (\<lambda>_. sv_return True)))))"

definition wants_certificate :: "Env \<Rightarrow> nat \<Rightarrow> string \<Rightarrow> string \<Rightarrow> bool sv"
  where "wants_certificate env now tid cid =
    sv_bind (lock_fresh env now tid) (\<lambda>_.
    sv_get (\<lambda>s. case live_record (entry_at tid s) of
        None \<Rightarrow> False
      | Some r \<Rightarrow> certificate_id r = Some cid \<or> is_renewal r cid))"

section \<open>Renewals\<close>

definition is_active :: "Env \<Rightarrow> nat \<Rightarrow> Service \<Rightarrow> EntryState \<Rightarrow> StoredTunnel \<Rightarrow> bool"
  where "is_active env now s e r =
    (attached_bridges s e \<noteq> [] \<or>
     (case Option.bind (last_connected_at r) (parse_iso env) of
        Some t \<Rightarrow> now - t < ACTIVE_WINDOW_MS | None \<Rightarrow> False))"

definition start_renewal :: "Env \<Rightarrow> nat \<Rightarrow> string \<Rightarrow> StoredTunnel \<Rightarrow> unit sv"
  where "start_renewal env now tid r =
    (if certificate_csr r = None then sv_return ()
     else sv_bind (new_uuid env) (\<lambda>u.
       let renewing = r\<lparr>renewal := Some \<lparr>renewal_id = ''cert_'' @ u, started_at = iso env now\<rparr>\<rparr>
       in sv_bind (save env now tid renewing) (\<lambda>_.
          sv_bind (sv_try (ensure_issuance env now renewing Renew)) (\<lambda>started.
            case started of
              Inr _ \<Rightarrow> sv_return ()
            | Inl _ \<Rightarrow>
                sv_bind (save env now tid r) (\<lambda>_.
                sv_store_io (set_alarm (db_world env) (ident r) (Some (now + RENEWAL_RETRY_MS))))))))"

definition renewal_running :: "Env \<Rightarrow> nat \<Rightarrow> StoredTunnel \<Rightarrow> bool"
  where "renewal_running env now r =
    (case renewal r of
       None \<Rightarrow> False
     | Some n \<Rightarrow> (case parse_iso env (started_at n) of Some t \<Rightarrow> now - t < RENEWAL_STALE_MS | None \<Rightarrow> False))"

definition renewal_alarm :: "Env \<Rightarrow> nat \<Rightarrow> string \<Rightarrow> unit sv"
  where "renewal_alarm env now tid =
    sv_bind (lock_fresh env now tid) (\<lambda>_.
    sv_bind (sv_get (\<lambda>s. (s, entry_at tid s))) (\<lambda>(s, e).
      case live_record e of
        None \<Rightarrow> sv_return ()
      | Some r \<Rightarrow>
          (case Option.bind (ready_expiry r) (parse_iso env) of
             None \<Rightarrow> sv_return ()
           | Some expiry \<Rightarrow>
               if renewal_running env now r then sv_return ()
               else if now < expiry - RENEW_BEFORE_MS then schedule_renewal env now r
               else if \<not> is_active env now s e r then sv_return ()
               else start_renewal env now tid r)))"

definition on_attached :: "Env \<Rightarrow> nat \<Rightarrow> string \<Rightarrow> StoredTunnel \<Rightarrow> nat option option \<Rightarrow> unit sv"
  where "on_attached env now tid r at =
    (case Option.bind (ready_expiry r) (parse_iso env) of
       None \<Rightarrow> sv_return ()
     | Some expiry \<Rightarrow>
         if \<not> renewal_running env now r \<and> expiry - RENEW_BEFORE_MS \<le> now
         then start_renewal env now tid r
         else sv_bind (case at of
             Some at \<Rightarrow> sv_return at
           | None \<Rightarrow> sv_store_io (Store.alarm (db_world env) (ident r))) (\<lambda>at.
           if at = None then schedule_renewal env now r else sv_return ()))"

section \<open>Resuming and repeating issuance\<close>

definition started_between :: "Env \<Rightarrow> nat \<Rightarrow> nat \<Rightarrow> string option \<Rightarrow> bool"
  where "started_between env now grace started =
    (case Option.bind started (parse_iso env) of
       Some t \<Rightarrow> grace \<le> now - t \<and> now - t < ORPHAN_MAX_AGE_MS | None \<Rightarrow> False)"

definition resume_job :: "Env \<Rightarrow> nat \<Rightarrow> StoredTunnel \<Rightarrow> JobKind \<Rightarrow> string option \<Rightarrow> bool \<Rightarrow> nat sv"
  where "resume_job env now r kd cid wanted =
    (case cid of
       Some cid \<Rightarrow>
         if wanted then sv_bind (sv_store_io (job_exists (db_world env) cid)) (\<lambda>there.
           if there then sv_return 0
           else sv_bind (ensure_issuance env now r kd) (\<lambda>_. sv_return 1))
         else sv_return 0
     | None \<Rightarrow> sv_return 0)"

definition resume_one :: "Env \<Rightarrow> nat \<Rightarrow> nat \<Rightarrow> string \<Rightarrow> nat sv"
  where "resume_one env now grace tid =
    sv_bind (lock_fresh env now tid) (\<lambda>_.
    sv_bind (sv_get (\<lambda>s. live_record (entry_at tid s))) (\<lambda>found.
      case found of
        None \<Rightarrow> sv_return 0
      | Some r \<Rightarrow>
          sv_bind (resume_job env now r Issue (certificate_id r)
              (certificate_pending r \<and> started_between env now grace (certificate_started_at r))) (\<lambda>n.
          sv_bind (resume_job env now r Renew (map_option renewal_id (renewal r))
              (started_between env now grace (map_option started_at (renewal r)))) (\<lambda>m.
          sv_return (n + m)))))"

fun resume_each :: "Env \<Rightarrow> nat \<Rightarrow> nat \<Rightarrow> StoredTunnel list \<Rightarrow> nat sv" where
  "resume_each env now grace [] = sv_return 0"
| "resume_each env now grace (r # rs) =
     sv_bind (resume_one env now grace (ident r)) (\<lambda>n.
     sv_bind (resume_each env now grace rs) (\<lambda>m. sv_return (n + m)))"

definition resume_orphaned_issuance :: "Env \<Rightarrow> nat \<Rightarrow> nat \<Rightarrow> nat sv"
  where "resume_orphaned_issuance env now grace =
    sv_bind (sv_store_io (issuing_tunnels (db_world env))) (resume_each env now grace)"

text \<open>Both passes over failed jobs end by showing the tunnel as issuing again; a failure to save
  that is ignored.\<close>

definition show_issuing :: "Env \<Rightarrow> nat \<Rightarrow> string \<Rightarrow> StoredTunnel \<Rightarrow> string \<Rightarrow> unit sv"
  where "show_issuing env now tid r cid =
    sv_bind (sv_try (save env now tid
      (r\<lparr>certificate := Some \<lparr>cert_id = cid, cert_state = Issuing\<rparr>\<rparr>))) (\<lambda>_. sv_return ())"

definition waits_for :: "StoredTunnel \<Rightarrow> string \<Rightarrow> (CertificateState \<Rightarrow> bool) \<Rightarrow> bool"
  where "waits_for r cid p =
    (certificate_id r = Some cid \<and>
     (case certificate r of Some c \<Rightarrow> cert_id c = cid \<and> p (cert_state c) | None \<Rightarrow> False))"

definition retry_failed :: "Env \<Rightarrow> nat \<Rightarrow> FailedJob \<Rightarrow> bool sv"
  where "retry_failed env now job =
    (let cid = failed_certificate_id job in
     if \<not> failed_updated_at job - failed_created_at job < RETRY_WINDOW_MS div 2 \<or>
        \<not> (case classify_reason (failed_last_error job) of Transient _ \<Rightarrow> True | _ \<Rightarrow> False)
     then sv_return False
     else case failed_tunnel_id job of
       None \<Rightarrow> sv_return False
     | Some tid \<Rightarrow>
         sv_bind (lock_fresh env now tid) (\<lambda>_.
         sv_bind (sv_get (\<lambda>s. live_record (entry_at tid s))) (\<lambda>found.
           case found of
             None \<Rightarrow> sv_return False
           | Some r \<Rightarrow>
               if \<not> (\<not> is_deleted r \<and> waits_for r cid is_failed) then sv_return False
               else sv_bind (sv_store_io (requeue_failed_job (db_world env) cid now)) (\<lambda>won.
                 if \<not> won then sv_return False
                 else sv_bind (show_issuing env now tid r cid) (\<lambda>_. sv_return True)))))"

definition retry_authz_pending :: "Env \<Rightarrow> nat \<Rightarrow> string list \<Rightarrow> FailedJob \<Rightarrow> bool sv"
  where "retry_authz_pending env now done_ids job =
    (let cid = failed_certificate_id job in
     if cid \<in> set done_ids then sv_return False
     else case failed_tunnel_id job of
       None \<Rightarrow> sv_return False
     | Some tid \<Rightarrow>
         sv_bind (lock_fresh env now tid) (\<lambda>_.
         sv_bind (sv_get (\<lambda>s. live_record (entry_at tid s))) (\<lambda>found.
           case found of
             None \<Rightarrow> sv_return False
           | Some r \<Rightarrow>
               if \<not> waits_for r cid (\<lambda>st. \<not> is_ready st) then sv_return False
               else sv_bind (sv_store_io (requeue_job_queued_before (db_world env) cid AUTHZ_PENDING_FIX_MS now)) (\<lambda>won.
                 if \<not> won then sv_return False
                 else sv_bind (if waits_for r cid is_failed then show_issuing env now tid r cid
                     else sv_return ()) (\<lambda>_. sv_return True)))))"

fun retry_each :: "(FailedJob \<Rightarrow> bool sv) \<Rightarrow> FailedJob list \<Rightarrow> string list sv" where
  "retry_each f [] = sv_return []"
| "retry_each f (job # js) =
     sv_bind (f job) (\<lambda>b. sv_bind (retry_each f js) (\<lambda>ids.
       sv_return (if b then failed_certificate_id job # ids else ids)))"

definition retry_failed_issuance :: "Env \<Rightarrow> nat \<Rightarrow> nat sv"
  where "retry_failed_issuance env now =
    sv_bind (sv_store_io (failed_issue_jobs (db_world env) (now - RETRY_FAILED_MAX_AGE_MS))) (\<lambda>js.
    sv_bind (retry_each (retry_failed env now) js) (\<lambda>first.
    sv_bind (sv_store_io (authz_pending_issue_jobs (db_world env) AUTHZ_PENDING_FIX_MS
        (now - RETRY_FAILED_MAX_AGE_MS))) (\<lambda>js.
    sv_bind (retry_each (retry_authz_pending env now first) js) (\<lambda>second.
    sv_bind (if first @ second \<noteq> [] then job_added else sv_return ()) (\<lambda>_.
    sv_return (length (first @ second)))))))"

end
