(* ===== verification/Service_Bridges.thy ===== *)
theory Service_Bridges
  imports Service_Api
begin

text \<open>
  Bridges on one machine (\<^verbatim>\<open>service.rs\<close>): registering and attaching them, the bookkeeping after an
  attach, routing a public connection to one, retiring silent ones, and shutting down.
\<close>

section \<open>Registering\<close>

definition exists_tunnel :: "Env \<Rightarrow> nat \<Rightarrow> string \<Rightarrow> bool sv"
  where "exists_tunnel env now tid =
    sv_bind (lock_routable env now tid) (\<lambda>_. sv_get (\<lambda>s. live_record (entry_at tid s) \<noteq> None))"

definition new_bridge :: "nat \<Rightarrow> nat \<Rightarrow> Bridge"
  where "new_bridge now tick = \<lparr>b_tx = [], tx_open = True, b_cancel = False, seen_at = now, bstate = BridgeState_default,
    channels = (\<lambda>_. None), inbound_free = BRIDGE_BUDGET, outbound_free = OUTBOUND_BUDGET,
    sent_at = tick, visitors = 0\<rparr>"

definition register_bridge :: "Env \<Rightarrow> nat \<Rightarrow> nat \<Rightarrow> string \<Rightarrow> nat option sv"
  where "register_bridge env now tick tid =
    sv_bind (lock_routable env now tid) (\<lambda>_. \<lambda>s.
      let e = entry_at tid s; bid = next_bridge s in
      if live_record e = None then (Ok None, s)
      else
        let b = new_bridge now tick;
            s = set_entry tid (e\<lparr>e_bridges := e_bridges e @ [bid]\<rparr>)
                  (set_bridge bid (if draining s then send_drain DRAIN_REASON b else b)
                    (s\<lparr>next_bridge := Suc bid\<rparr>))
        in (Ok (Some bid), s))"

section \<open>Retiring silent bridges\<close>

definition mesh_detach :: "string \<Rightarrow> nat \<Rightarrow> Service \<Rightarrow> Service"
  where "mesh_detach tid bid s =
    (if clustered s then s\<lparr>mesh_calls := mesh_calls s @ [Mesh_detached tid bid]\<rparr> else s)"

definition mark_detached :: "Bridge \<Rightarrow> Bridge"
  where "mark_detached b = b\<lparr>bstate := (bstate b)\<lparr>detached := True\<rparr>\<rparr>"

definition retire_bridge :: "nat \<Rightarrow> string option \<Rightarrow> nat \<Rightarrow> Service \<Rightarrow> Service"
  where "retire_bridge now tid bid s =
    (let b = bridge_heap s bid in
     if \<not> is_attached b \<or> now - seen_at b \<le> STALE_BRIDGE_MS then s
     else
       let s = close_bridge BridgeDisconnected 1001 ''idle timeout'' bid (on_bridge mark_detached bid s)
       in case tid of Some tid \<Rightarrow> mesh_detach tid bid s | None \<Rightarrow> s)"

definition retire_stale :: "nat \<Rightarrow> string \<Rightarrow> Service \<Rightarrow> Service"
  where "retire_stale now tid s =
    (let e = entry_at tid s
     in fold (retire_bridge now (map_option ident (e_record e))) (e_bridges e) s)"

section \<open>Attaching\<close>

datatype Attach =
  Attached string "string list" "nat option option"
| AttachRefused string string

definition held_count :: "nat \<Rightarrow> string \<Rightarrow> Service \<Rightarrow> nat"
  where "held_count bid tid s =
    (\<Sum>b \<leftarrow> filter (\<lambda>b. b \<noteq> bid) (attached_bridges s (entry_at tid s)).
       length (routes (bstate (bridge_heap s b))))"

definition route_conflict :: "nat \<Rightarrow> string \<Rightarrow> string list \<Rightarrow> Service \<Rightarrow> bool"
  where "route_conflict bid tid rs s =
    list_ex (\<lambda>b. b \<noteq> bid \<and> list_ex (claims (bridge_heap s b)) rs) (e_bridges (entry_at tid s))"

definition attach_state :: "nat \<Rightarrow> string \<Rightarrow> string list \<Rightarrow> nat option \<Rightarrow> BridgeState \<Rightarrow> BridgeState"
  where "attach_state now sess rs limit st =
    st\<lparr>attached := True, session := Some sess, routes := rs, conns_wanted := limit,
       attached_at := now, active_at := now\<rparr>"

text \<open>\<open>elsewhere\<close> is the answer of the other machines to \<^verbatim>\<open>held_elsewhere\<close>, asked only on a
  machine that is one of many.\<close>

definition attach :: "Env \<Rightarrow> nat \<Rightarrow> (string \<Rightarrow> string list \<Rightarrow> bool) \<Rightarrow> string \<Rightarrow> nat \<Rightarrow> string \<Rightarrow> string list \<Rightarrow> nat option
    \<Rightarrow> Attach sv"
  where "attach env now elsewhere tid bid token rs limit =
    sv_bind (lock_for_attach env now tid) (\<lambda>followup.
    sv_bind (sv_get (\<lambda>s. live_record (entry_at tid s))) (\<lambda>found.
      case found of
        None \<Rightarrow> sv_return (AttachRefused ''bad_token'' ''bad token'')
      | Some r \<Rightarrow>
          if \<not> token_matches (sha256 env) token (token_hash r)
          then sv_return (AttachRefused ''bad_token'' ''bad token'')
          else if \<not> certificate_ready r
          then sv_return (AttachRefused ''cert_not_ready'' ''certificate not ready'')
          else if rs = [] \<or> list_ex (\<lambda>x. \<not> is_valid_route x) rs
          then sv_return (AttachRefused ''invalid_route'' ''invalid route'')
          else
            sv_bind (sv_modify (retire_stale now tid)) (\<lambda>_.
            sv_bind (sv_get (\<lambda>s. s)) (\<lambda>s.
              if MAX_TUNNEL_ROUTES < held_count bid tid s + length rs
              then sv_return (AttachRefused ''too_many_routes'' ''too many routes'')
              else if route_conflict bid tid rs s
              then sv_return (AttachRefused ''route_conflict'' ''route conflict'')
              else if clustered s \<and> elsewhere tid rs
              then sv_return (AttachRefused ''route_conflict'' ''route conflict'')
              else
                sv_bind (new_uuid env) (\<lambda>u.
                sv_bind (sv_modify (on_bridge (\<lambda>b. touch now
                    (b\<lparr>bstate := attach_state now (''sess_'' @ u) rs limit (bstate b)\<rparr>)) bid)) (\<lambda>_.
                sv_bind (announce (Mesh_attached tid bid rs now)) (\<lambda>_.
                sv_return (Attached (''sess_'' @ u) rs followup))))))))"

definition recently_connected :: "Env \<Rightarrow> nat \<Rightarrow> StoredTunnel \<Rightarrow> bool"
  where "recently_connected env now r =
    (tstate r = Online \<and>
     (case Option.bind (last_connected_at r) (parse_iso env) of
        Some at \<Rightarrow> now - at < LAST_CONNECTED_INTERVAL_MS | None \<Rightarrow> False))"

definition after_attach :: "Env \<Rightarrow> nat \<Rightarrow> string \<Rightarrow> nat \<Rightarrow> nat option option \<Rightarrow> unit sv"
  where "after_attach env now tid bid followup =
    sv_bind (sv_modify (entry tid)) (\<lambda>_.
    sv_bind (sv_get (\<lambda>s. (live_record (entry_at tid s), bridge_heap s bid))) (\<lambda>(found, b).
      case found of
        None \<Rightarrow> sv_return ()
      | Some r \<Rightarrow>
          if \<not> is_attached b then sv_return ()
          else if recently_connected env now r
          then sv_bind (sv_try (on_attached env now tid r followup)) (\<lambda>_. sv_return ())
          else let c = r\<lparr>tstate := Online, last_connected_at := Some (iso env now)\<rparr> in
            sv_bind (sv_try (save env now tid c)) (\<lambda>saved.
              case saved of
                Inl _ \<Rightarrow> sv_return ()
              | Inr _ \<Rightarrow> sv_bind (sv_try (on_attached env now tid c followup)) (\<lambda>_. sv_return ()))))"

text \<open>The report itself goes to analytics; the bridge only remembers when.\<close>

definition report_active :: "nat \<Rightarrow> nat \<Rightarrow> Service \<Rightarrow> Service"
  where "report_active now bid s =
    (let st = bstate (bridge_heap s bid) in
     if \<not> attached st \<or> now - active_at st < ACTIVE_INTERVAL_MS then s
     else on_bridge (\<lambda>b. b\<lparr>bstate := (bstate b)\<lparr>active_at := now\<rparr>\<rparr>) bid s)"

section \<open>Closing\<close>

definition bridge_closed :: "string \<Rightarrow> nat \<Rightarrow> Service \<Rightarrow> Service"
  where "bridge_closed tid bid s =
    (let s = entry tid s; e = entry_at tid s;
         s = set_entry tid (e\<lparr>e_bridges := filter (\<lambda>b. b \<noteq> bid) (e_bridges e)\<rparr>) s;
         st = bstate (bridge_heap s bid)
     in if \<not> attached st \<or> detached st then s
        else mesh_detach tid bid (finish_channels BridgeDisconnected bid (on_bridge mark_detached bid s)))"

definition sweep :: "(string \<Rightarrow> bool) \<Rightarrow> nat \<Rightarrow> Service \<Rightarrow> Service"
  where "sweep in_use now s =
    collect_idle in_use now
      (fold (\<lambda>tid s. if e_bridges (entry_at tid s) = [] then s else retire_stale now tid s)
        (map fst (entries s)) s)"

definition close_deleted :: "string \<Rightarrow> Service \<Rightarrow> bool \<times> Service"
  where "close_deleted tid s =
    (case map_of (entries s) tid of
       None \<Rightarrow> (False, s)
     | Some e \<Rightarrow>
         let s = fold (close_bridge Deleted 1000 ''deleted'') (e_bridges e) s
         in (e_bridges e \<noteq> [], set_entry tid (forget_record (entry_at tid s)) s))"

definition held_routes :: "nat \<Rightarrow> string \<Rightarrow> Service \<Rightarrow> string list \<times> Service"
  where "held_routes now tid s =
    (let s = entry tid s in
     if e_bridges (entry_at tid s) = [] then ([], s)
     else let s = retire_stale now tid s in
       (concat (map (\<lambda>b. routes (bstate (bridge_heap s b)))
          (filter (\<lambda>b. \<not> is_closing (bridge_heap s b)) (attached_bridges s (entry_at tid s)))), s))"

definition close_deleted_tunnels :: "Env \<Rightarrow> unit sv"
  where "close_deleted_tunnels env =
    sv_bind (sv_get (\<lambda>s. map fst (filter (\<lambda>(_, e). attached_bridges s e \<noteq> []) (entries s)))) (\<lambda>live.
      if live = [] then sv_return ()
      else sv_bind (sv_store_io (deleted_tunnels (db_world env) live)) (\<lambda>gone.
        sv_modify (fold (\<lambda>tid s. snd (close_deleted tid s)) gone)))"

text \<open>Shutting down: bridges are told in steps of a tenth of a second. The steps are the chunks.\<close>

definition DRAIN_RATE :: nat where "DRAIN_RATE = 5000"
definition DRAIN_SPREAD_MS :: nat where "DRAIN_SPREAD_MS = 5000"
definition DRAIN_STEP_MS :: nat where "DRAIN_STEP_MS = 100"

definition drain_per_step :: "nat \<Rightarrow> nat"
  where "drain_per_step n =
    (let steps = DRAIN_SPREAD_MS div DRAIN_STEP_MS
     in max (max (DRAIN_RATE * DRAIN_STEP_MS div 1000) ((n + max steps 1 - 1) div max steps 1)) 1)"

function chunks :: "nat \<Rightarrow> 'a list \<Rightarrow> 'a list list" where
  "chunks n xs = (if xs = [] \<or> n = 0 then [] else take n xs # chunks n (drop n xs))"
  by pat_completeness auto
termination by (relation "measure (\<lambda>(n, xs). length xs)") auto

declare chunks.simps [simp del]

definition all_bridges :: "Service \<Rightarrow> nat list"
  where "all_bridges s = concat (map (\<lambda>(_, e). e_bridges e) (entries s))"

definition drain_steps :: "Service \<Rightarrow> nat list list"
  where "drain_steps s = (let bs = all_bridges s in chunks (drain_per_step (length bs)) bs)"

definition drain :: "Service \<Rightarrow> Service"
  where "drain s =
    fold (fold (on_bridge (send_drain DRAIN_REASON))) (drain_steps s) (s\<lparr>draining := True\<rparr>)"

section \<open>Routing a public connection\<close>

text \<open>The search for a connection number that no open channel of the tunnel uses may in principle
  run forever; not returning is \<^const>\<open>None\<close>.\<close>

partial_function (option) next_conn :: "(u32 \<Rightarrow> bool) \<Rightarrow> u32 \<Rightarrow> (u32 \<times> u32) option" where
  "next_conn used candidate =
     (if candidate \<noteq> 0 \<and> \<not> used candidate then Some (candidate, candidate + 1)
      else next_conn used (candidate + 1))"

datatype Route =
  To_bridge nat u32 string nat
| Rejected bool string

definition route_of :: "string \<Rightarrow> string \<Rightarrow> string option"
  where "route_of sni host = (if sni = host then Some ''@'' else strip_suffix sni (''.'' @ host))"

definition route_outcome :: "StoredTunnel \<Rightarrow> string option \<Rightarrow> string"
  where "route_outcome r route =
    (if \<not> certificate_ready r then ''certificate_not_ready''
     else case route of
       None \<Rightarrow> ''unknown_route''
     | Some x \<Rightarrow> if CHR ''.'' \<in> set x then ''unknown_route'' else ''no_bridge'')"

definition channel_used :: "Service \<Rightarrow> string \<Rightarrow> u32 \<Rightarrow> bool"
  where "channel_used s tid conn =
    list_ex (\<lambda>b. channels (bridge_heap s b) conn \<noteq> None) (e_bridges (entry_at tid s))"

definition new_channel :: "nat \<Rightarrow> Channel"
  where "new_channel tick = \<lparr>inbound = [], rx_open = True, ch_finish = Finish_new, bytes_out = 0,
    ch_free = CHANNEL_BUDGET, drained_at = tick\<rparr>"

definition open_channel :: "nat \<Rightarrow> string \<Rightarrow> nat \<Rightarrow> u32 \<Rightarrow> u32 \<Rightarrow> Service \<Rightarrow> Service"
  where "open_channel tick tid bid conn sequence s =
    (let ch = next_chan s
     in set_entry tid ((entry_at tid s)\<lparr>e_sequence := sequence\<rparr>)
          (on_bridge (\<lambda>b. b\<lparr>visitors := Suc (visitors b), channels := (channels b)(conn \<mapsto> ch)\<rparr>) bid
            (s\<lparr>next_chan := Suc ch, chan_heap := (chan_heap s)(ch := new_channel tick),
               slots := (slots s)(ch \<mapsto> (bid, conn))\<rparr>)))"

text \<open>Dropping the slot of a connection.\<close>

definition drop_slot :: "nat \<Rightarrow> Service \<Rightarrow> Service"
  where "drop_slot ch s =
    (case slots s ch of
       None \<Rightarrow> s
     | Some (bid, _) \<Rightarrow> on_bridge (\<lambda>b. b\<lparr>visitors := visitors b - 1\<rparr>) bid (s\<lparr>slots := (slots s)(ch := None)\<rparr>))"

definition over_limit :: "Service \<Rightarrow> string \<Rightarrow> nat \<Rightarrow> bool"
  where "over_limit s tid bid =
    (conn_limit (bridge_heap s bid) (conns_per_bridge (bridge_limits s)) \<le> visitors (bridge_heap s bid) \<or>
     conns_per_tunnel (bridge_limits s) \<le>
       (\<Sum>b \<leftarrow> e_bridges (entry_at tid s). visitors (bridge_heap s b)))"

definition route :: "Env \<Rightarrow> nat \<Rightarrow> nat \<Rightarrow> string \<Rightarrow> string \<Rightarrow> Service \<Rightarrow> ((service_error + Route) \<times> Service) option"
  where "route env now tick tid sni s =
    (case lock_routable env now tid s of
       (Inl e, s) \<Rightarrow> Some (Inl e, s)
     | (Inr _, s) \<Rightarrow>
         (case live_record (entry_at tid s) of
            None \<Rightarrow> Some (Ok (Rejected False ''no_bridge''), s)
          | Some r \<Rightarrow>
              let wanted = route_of sni (hostname r);
                  s = retire_stale now tid s;
                  out = route_outcome r wanted;
                  found = Option.bind wanted
                    (\<lambda>x. List.find (\<lambda>b. claims (bridge_heap s b) x) (e_bridges (entry_at tid s)))
              in case found of
                None \<Rightarrow> Some (Ok (Rejected True out), s)
              | Some bid \<Rightarrow>
                  if out \<noteq> ''no_bridge'' then Some (Ok (Rejected True out), s)
                  else if over_limit s tid bid
                  then Some (Ok (Rejected True ''too_many_connections''), s)
                  else (case next_conn (channel_used s tid) (e_sequence (entry_at tid s)) of
                    None \<Rightarrow> None
                  | Some (conn, sequence) \<Rightarrow>
                      Some (Ok (To_bridge bid conn (ident r) (next_chan s)),
                        open_channel tick tid bid conn sequence s))))"

end
