(* ===== verification/Bridge_Session.thy ===== *)
theory Bridge_Session
  imports Service_Bridges Websocket
begin

text \<open>
  One bridge session on the server (\<^verbatim>\<open>crates/opentunnel-server/src/bridge.rs\<close>): the read loop with the
  attach handshake, control messages, connection data with its three budgets and the backpressure
  rules, and the writer. A session blocked on a full budget is a state of its own; what the source
  waits for (the reader, the deadline, a cancellation, room in a budget) are the events of the
  step functions. \<open>from_str\<close> is the JSON parser.
\<close>

section \<open>Constants and budgets\<close>

definition MAX_MESSAGE :: nat where "MAX_MESSAGE = 64 * 1024"
definition MAX_FRAME :: nat where "MAX_FRAME = CONN_ID_SIZE + MAX_PAYLOAD_SIZE"
definition MAX_ROUTES :: nat where "MAX_ROUTES = 128"
definition STALL_MS :: nat where "STALL_MS = 5000"

text \<open>The share of the outbound budgets for a visitor's data: the bridge's first, then the machine's. A
  visitor that waits for the machine's budget keeps what it took of the bridge's (\<open>taken\<close>). A
  waiter takes its whole share at once, when it is free.\<close>

datatype Hold = Waits_bridge | Waits_machine Service | Holds Service

definition hold_outbound :: "nat \<Rightarrow> bool \<Rightarrow> nat \<Rightarrow> Service \<Rightarrow> Hold"
  where "hold_outbound bid taken len s =
    (if \<not> taken \<and> outbound_free (bridge_heap s bid) < len then Waits_bridge
     else let s = (if taken then s else on_bridge (\<lambda>b. b\<lparr>outbound_free := outbound_free b - len\<rparr>) bid s)
       in if buffer_free s < len then Waits_machine s
          else Holds (s\<lparr>buffer_free := buffer_free s - len\<rparr>))"

definition release_outbound :: "nat \<Rightarrow> nat \<Rightarrow> Service \<Rightarrow> Service"
  where "release_outbound bid len s =
    on_bridge (\<lambda>b. b\<lparr>outbound_free := outbound_free b + len\<rparr>) bid (s\<lparr>buffer_free := buffer_free s + len\<rparr>)"

definition on_chan :: "(Channel \<Rightarrow> Channel) \<Rightarrow> nat \<Rightarrow> Service \<Rightarrow> Service"
  where "on_chan f ch s = s\<lparr>chan_heap := (chan_heap s)(ch := f (chan_heap s ch))\<rparr>"

definition data_frame :: "u32 \<Rightarrow> bytes \<Rightarrow> Outbound"
  where "data_frame conn body = Out_binary (u32_to_be conn @ body)"

definition data_message :: "u32 \<Rightarrow> bytes \<Rightarrow> Outbound"
  where "data_message conn body = Out_data (u32_to_be conn @ body) (length body)"

text \<open>Data from the client takes from the connection's, the bridge's and the machine's budget at
  once or not at all. \<open>started\<close> says that data starts waiting for this visitor now.\<close>

definition try_hold :: "nat \<Rightarrow> bool \<Rightarrow> nat \<Rightarrow> nat \<Rightarrow> nat \<Rightarrow> Service \<Rightarrow> Service option"
  where "try_hold tick started bid ch len s =
    (if len \<le> ch_free (chan_heap s ch) \<and> len \<le> inbound_free (bridge_heap s bid) \<and> len \<le> buffer_free s
     then Some (on_bridge (\<lambda>b. b\<lparr>inbound_free := inbound_free b - len\<rparr>) bid
            (on_chan (\<lambda>c. c\<lparr>ch_free := ch_free c - len,
                drained_at := (if started then tick else drained_at c)\<rparr>) ch
              (s\<lparr>buffer_free := buffer_free s - len\<rparr>)))
     else None)"

text \<open>Dropping what was held for data from the client: once the visitor's socket took it, or with
  the connection.\<close>

definition release_inbound :: "nat \<Rightarrow> nat \<Rightarrow> nat \<Rightarrow> nat \<Rightarrow> Service \<Rightarrow> Service"
  where "release_inbound tick bid ch len s =
    on_bridge (\<lambda>b. b\<lparr>inbound_free := inbound_free b + len\<rparr>) bid
      (on_chan (\<lambda>c. c\<lparr>ch_free := ch_free c + len, drained_at := tick\<rparr>) ch
        (s\<lparr>buffer_free := buffer_free s + len\<rparr>))"

definition finish_chan :: "Outcome \<Rightarrow> bool \<Rightarrow> nat \<Rightarrow> Service \<Rightarrow> Service"
  where "finish_chan out ab ch s = on_chan (\<lambda>c. c\<lparr>ch_finish := finish out ab (ch_finish c)\<rparr>) ch s"

definition remove_channel :: "nat \<Rightarrow> u32 \<Rightarrow> Service \<Rightarrow> Service"
  where "remove_channel bid conn s = on_bridge (\<lambda>b. b\<lparr>channels := (channels b)(conn := None)\<rparr>) bid s"

definition reset_channel :: "nat \<Rightarrow> u32 \<Rightarrow> nat \<Rightarrow> Service \<Rightarrow> Service"
  where "reset_channel bid conn ch s =
    on_bridge (send (Out_text (ControlReset conn ''client_io_error''))) bid
      (finish_chan Backpressure True ch (remove_channel bid conn s))"

definition stalled :: "nat \<Rightarrow> Channel \<Rightarrow> bool"
  where "stalled tick c = (ch_free c < CHANNEL_BUDGET \<and> STALL_MS \<le> tick - drained_at c)"

text \<open>\<open>conns\<close> are the open connections in the order the map lists them.\<close>

definition reset_stalled :: "nat \<Rightarrow> u32 list \<Rightarrow> nat \<Rightarrow> Service \<Rightarrow> Service"
  where "reset_stalled tick conns bid s =
    fold (\<lambda>conn s'. case channels (bridge_heap s bid) conn of
        Some ch \<Rightarrow> if stalled tick (chan_heap s ch) then reset_channel bid conn ch s' else s'
      | None \<Rightarrow> s') conns s"

definition keep_alive :: "nat \<Rightarrow> nat \<Rightarrow> nat \<Rightarrow> Service \<Rightarrow> Service"
  where "keep_alive tick wall bid s =
    (if tick - sent_at (bridge_heap s bid) < HEARTBEAT_MS then s
     else on_bridge (\<lambda>b. try_send (Out_text (ControlPing wall)) (b\<lparr>sent_at := tick\<rparr>)) bid s)"

section \<open>Connection data\<close>

record Session =
  tunnel :: string
  bridge :: nat
  s_attached :: bool
  attach_expired :: bool
  s_max_message :: nat
  waiting :: "(u32 \<times> nat \<times> bytes \<times> bool \<times> nat) option"
  ended :: "(nat \<times> bool) option"
  followup :: "nat option option option"

text \<open>A visitor that is gone drops the data and its share.\<close>

definition deliver :: "nat \<Rightarrow> nat \<Rightarrow> nat \<Rightarrow> bytes \<Rightarrow> Service \<Rightarrow> Service"
  where "deliver tick bid ch body s =
    (if rx_open (chan_heap s ch) then on_chan (\<lambda>c. c\<lparr>inbound := inbound c @ [In_data body]\<rparr>) ch s
     else release_inbound tick bid ch (length body) s)"

text \<open>A data frame: delivered when its share of the budgets is free, otherwise the reader waits.\<close>

definition data :: "nat \<Rightarrow> bytes \<Rightarrow> Session \<times> Service \<Rightarrow> Session \<times> Service"
  where "data tick frame = (\<lambda>(se, s).
    if length frame < 4 then (se, s)
    else let conn = u32_from_be (take 4 frame); body = drop 4 frame in
      case channels (bridge_heap s (bridge se)) conn of
        None \<Rightarrow> (se, s)
      | Some ch \<Rightarrow>
          let s = on_chan (\<lambda>c. c\<lparr>bytes_out := bytes_out c + length body\<rparr>) ch s;
              idle = (ch_free (chan_heap s ch) = CHANNEL_BUDGET)
          in (case try_hold tick idle (bridge se) ch (length body) s of
                Some s \<Rightarrow> (se, deliver tick (bridge se) ch body s)
              | None \<Rightarrow>
                  (se\<lparr>waiting := Some (conn, ch, body, idle, 0)\<rparr>,
                   if idle then on_chan (\<lambda>c. c\<lparr>drained_at := tick\<rparr>) ch s else s)))"

text \<open>A reader that waits takes its share of the connection's budget, then of the bridge's, then of
  the machine's; the number says how many it has. The wait ends when it has all three, after five
  seconds, or when the session is cancelled.\<close>

definition wait_step :: "nat \<Rightarrow> Session \<times> Service \<Rightarrow> Session \<times> Service"
  where "wait_step tick = (\<lambda>(se, s).
    case waiting se of
      None \<Rightarrow> (se, s)
    | Some (conn, ch, body, idle, stage) \<Rightarrow>
        let len = length body; more_to_take = se\<lparr>waiting := Some (conn, ch, body, idle, Suc stage)\<rparr> in
        if stage = 0 then
          (if len \<le> ch_free (chan_heap s ch)
           then (more_to_take, on_chan (\<lambda>c. c\<lparr>ch_free := ch_free c - len\<rparr>) ch s) else (se, s))
        else if stage = 1 then
          (if len \<le> inbound_free (bridge_heap s (bridge se))
           then (more_to_take, on_bridge (\<lambda>b. b\<lparr>inbound_free := inbound_free b - len\<rparr>) (bridge se) s)
           else (se, s))
        else if len \<le> buffer_free s
        then (se\<lparr>waiting := None\<rparr>, deliver tick (bridge se) ch body (s\<lparr>buffer_free := buffer_free s - len\<rparr>))
        else (se, s))"

definition give_back :: "nat \<Rightarrow> nat \<Rightarrow> nat \<Rightarrow> nat \<Rightarrow> Service \<Rightarrow> Service"
  where "give_back stage bid ch len s =
    (let s = (if 1 \<le> stage then on_chan (\<lambda>c. c\<lparr>ch_free := ch_free c + len\<rparr>) ch s else s)
     in if 2 \<le> stage then on_bridge (\<lambda>b. b\<lparr>inbound_free := inbound_free b + len\<rparr>) bid s else s)"

definition wait_deadline :: "nat \<Rightarrow> u32 list \<Rightarrow> Session \<times> Service \<Rightarrow> Session \<times> Service"
  where "wait_deadline tick conns = (\<lambda>(se, s).
    case waiting se of
      None \<Rightarrow> (se, s)
    | Some (conn, ch, body, idle, stage) \<Rightarrow>
        let se = se\<lparr>waiting := None\<rparr>;
            s = reset_stalled tick conns (bridge se) (give_back stage (bridge se) ch (length body) s)
        in if channels (bridge_heap s (bridge se)) conn = None then (se, s)
           else (case try_hold tick idle (bridge se) ch (length body) s of
               Some s \<Rightarrow> (se, deliver tick (bridge se) ch body s)
             | None \<Rightarrow> (se, reset_channel (bridge se) conn ch s)))"

definition wait_cancelled :: "Session \<times> Service \<Rightarrow> Session \<times> Service"
  where "wait_cancelled = (\<lambda>(se, s).
    case waiting se of
      None \<Rightarrow> (se, s)
    | Some (conn, ch, body, idle, stage) \<Rightarrow>
        (se\<lparr>waiting := None\<rparr>, give_back stage (bridge se) ch (length body) s))"

section \<open>Control messages\<close>

definition json_as_u64 :: "json \<Rightarrow> nat option"
  where "json_as_u64 v =
    (case v of JNumber n \<Rightarrow> if 0 \<le> n \<and> n < 2 ^ 64 then Some (nat n) else None | _ \<Rightarrow> None)"

definition json_str :: "json \<Rightarrow> string \<Rightarrow> string option"
  where "json_str v key = Option.bind (json_get v key) json_as_str"

definition is_number :: "json \<Rightarrow> bool"
  where "is_number v = (case v of JNumber _ \<Rightarrow> True | _ \<Rightarrow> False)"

definition handle_control :: "nat \<Rightarrow> json \<Rightarrow> Session \<times> Service \<Rightarrow> Session \<times> Service"
  where "handle_control now control = (\<lambda>(se, s).
    case json_str control ''type'' of
      None \<Rightarrow> (se, s)
    | Some k \<Rightarrow>
        if k = ''ping'' \<and> (case json_get control ''time_sent'' of Some v \<Rightarrow> is_number v | None \<Rightarrow> False)
        then (se, report_active now (bridge se)
               (on_bridge (send (Out_text (ControlPong (the (json_get control ''time_sent''))))) (bridge se) s))
        else if k = ''end'' \<or> k = ''reset'' then
          (case Option.bind (json_get control ''conn'') json_as_u64 of
             None \<Rightarrow> (se, s)
           | Some n \<Rightarrow>
               if n \<ge> 2 ^ 32 then (se, s)
               else let conn = word_of_nat n :: u32 in
                 (case channels (bridge_heap s (bridge se)) conn of
                    None \<Rightarrow> (se, s)
                  | Some ch \<Rightarrow>
                      let s = remove_channel (bridge se) conn s in
                      if k = ''reset'' then (se, finish_chan Reset True ch s)
                      else (se, on_chan (\<lambda>c. if rx_open c then c\<lparr>inbound := inbound c @ [In_end]\<rparr> else c) ch
                             (finish_chan Closed False ch s))))
        else (se, s))"

text \<open>The routes of an attach: without duplicates, in order, and \<open>@\<close> for clients that send none.\<close>

fun dedup_strings :: "string set \<Rightarrow> json list \<Rightarrow> string list" where
  "dedup_strings seen [] = []"
| "dedup_strings seen (v # vs) =
     (case json_as_str v of
        Some r \<Rightarrow> if r \<in> seen then dedup_strings seen vs else r # dedup_strings (insert r seen) vs
      | None \<Rightarrow> dedup_strings seen vs)"

definition attach_routes :: "json \<Rightarrow> string list"
  where "attach_routes control =
    (case json_get control ''routes'' of Some (JArray rs) \<Rightarrow> dedup_strings {} rs | _ \<Rightarrow> [''@''])"

definition too_many_routes :: "json \<Rightarrow> bool"
  where "too_many_routes control =
    (case json_get control ''routes'' of Some (JArray rs) \<Rightarrow> MAX_ROUTES < length rs | _ \<Rightarrow> False)"

definition attach_max_conns :: "json \<Rightarrow> nat option"
  where "attach_max_conns control =
    Option.bind (Option.bind (json_get control ''client'') (\<lambda>c. json_get c ''max_conns'')) json_as_u64"

definition session_attach :: "Env \<Rightarrow> nat \<Rightarrow> (string \<Rightarrow> string list \<Rightarrow> bool) \<Rightarrow> json \<Rightarrow> Session \<times> Service \<Rightarrow> Session \<times> Service"
  where "session_attach env now elsewhere control = (\<lambda>(se, s).
    let bid = bridge se in
    if json_str control ''type'' \<noteq> Some ''attach'' \<or> json_str control ''token'' = None
    then (se, on_bridge (close 1008 ''attach required'') bid s)
    else if too_many_routes control
    then (se, on_bridge (\<lambda>b. close 1008 ''too many routes''
           (send (Out_text (ControlAttachError ''too_many_routes'')) b)) bid s)
    else (case attach env now elsewhere (tunnel se) bid (the (json_str control ''token''))
        (attach_routes control) (attach_max_conns control) s of
      (Inl _, s) \<Rightarrow> (se, on_bridge (close 1011 ''internal error'') bid s)
    | (Inr (AttachRefused code reason), s) \<Rightarrow>
        (se, on_bridge (\<lambda>b. close 1008 reason (send (Out_text (ControlAttachError code)) b)) bid s)
    | (Inr (Attached sess rs at), s) \<Rightarrow>
        (se\<lparr>s_attached := True, s_max_message := MAX_FRAME, followup := Some at\<rparr>,
         on_bridge (send (Out_text (ControlAttached sess rs HEARTBEAT_MS IDLE_TIMEOUT_MS))) bid s)))"

section \<open>The read loop\<close>

datatype Next =
  Got Message
| Too_large
| Read_error
| Eof
| Cancelled
| Attach_deadline

definition is_control :: "json \<Rightarrow> bool"
  where "is_control v = (case v of JObject _ \<Rightarrow> json_str v ''type'' \<noteq> None | _ \<Rightarrow> False)"

definition handle_text :: "Env \<Rightarrow> (string \<Rightarrow> json option) \<Rightarrow> nat \<Rightarrow> (string \<Rightarrow> string list \<Rightarrow> bool) \<Rightarrow> string
    \<Rightarrow> Session \<times> Service \<Rightarrow> Session \<times> Service"
  where "handle_text env from_str now elsewhere txt = (\<lambda>(se, s).
    case option_filter is_control (from_str txt) of
      None \<Rightarrow> (se, on_bridge (close 1008 ''invalid control'') (bridge se) s)
    | Some control \<Rightarrow>
        if \<not> s_attached se then session_attach env now elsewhere control (se, s)
        else handle_control now control (se, s))"

definition closing_code :: "Session \<Rightarrow> Service \<Rightarrow> nat"
  where "closing_code se s =
    (case server_close (bstate (bridge_heap s (bridge se))) of Some c \<Rightarrow> c | None \<Rightarrow> 1006)"

definition handle_message :: "Env \<Rightarrow> (string \<Rightarrow> json option) \<Rightarrow> nat \<Rightarrow> nat \<Rightarrow> (string \<Rightarrow> string list \<Rightarrow> bool) \<Rightarrow> Message
    \<Rightarrow> Session \<times> Service \<Rightarrow> Session \<times> Service"
  where "handle_message env from_str now tick elsewhere m = (\<lambda>(se, s).
    case m of
      MClose code \<Rightarrow> (se\<lparr>ended := Some (unat code, True)\<rparr>, s)
    | _ \<Rightarrow>
        if is_closing (bridge_heap s (bridge se)) then (se, s)
        else (case m of
          MPing bs \<Rightarrow> (se, on_bridge (try_send (Out_pong bs)) (bridge se) s)
        | MBinary frame \<Rightarrow>
            let s = on_bridge (touch now) (bridge se) s in
            if \<not> s_attached se then (se, on_bridge (close 1008 ''attach required'') (bridge se) s)
            else data tick frame (se, s)
        | MText txt \<Rightarrow>
            handle_text env from_str now elsewhere txt (se, on_bridge (touch now) (bridge se) s)
        | _ \<Rightarrow> (se, on_bridge (touch now) (bridge se) s)))"

definition read_step :: "Env \<Rightarrow> (string \<Rightarrow> json option) \<Rightarrow> nat \<Rightarrow> nat \<Rightarrow> (string \<Rightarrow> string list \<Rightarrow> bool) \<Rightarrow> Next
    \<Rightarrow> Session \<times> Service \<Rightarrow> Session \<times> Service"
  where "read_step env from_str now tick elsewhere n = (\<lambda>(se, s).
    if ended se \<noteq> None \<or> waiting se \<noteq> None then (se, s)
    else case n of
      Cancelled \<Rightarrow> (se\<lparr>ended := Some (closing_code se s, False)\<rparr>, s)
    | Attach_deadline \<Rightarrow>
        if s_attached se \<or> attach_expired se then (se, s)
        else (se\<lparr>attach_expired := True\<rparr>, on_bridge (close 1008 ''attach timeout'') (bridge se) s)
    | Too_large \<Rightarrow>
        (se\<lparr>ended := Some (1009, False)\<rparr>, on_bridge (close 1009 ''message too big'') (bridge se) s)
    | Read_error \<Rightarrow> (se\<lparr>ended := Some (1006, False)\<rparr>, s)
    | Eof \<Rightarrow> (se\<lparr>ended := Some (closing_code se s, False)\<rparr>, s)
    | Got m \<Rightarrow> handle_message env from_str now tick elsewhere m (se, s))"

text \<open>Starting and ending a session: \<^verbatim>\<open>run\<close>.\<close>

definition session_start :: "string \<Rightarrow> nat \<Rightarrow> Session"
  where "session_start tid bid = \<lparr>tunnel = tid, bridge = bid, s_attached = False, attach_expired = False,
    s_max_message = MAX_MESSAGE, waiting = None, ended = None, followup = None\<rparr>"

definition run_start :: "Env \<Rightarrow> nat \<Rightarrow> nat \<Rightarrow> string \<Rightarrow> Service \<Rightarrow> Session option \<times> Service"
  where "run_start env now tick tid s =
    (case register_bridge env now tick tid s of
       (Inr (Some bid), s) \<Rightarrow> (Some (session_start tid bid), s)
     | (_, s) \<Rightarrow> (None, s))"

definition run_end :: "Session \<times> Service \<Rightarrow> Service"
  where "run_end = (\<lambda>(se, s). if ended se = None then s else bridge_closed (tunnel se) (bridge se) s)"

section \<open>The writer\<close>

text \<open>Once the writer ended, its queue is dropped, and with it the shares of the budgets that
  queued data holds.\<close>

fun drop_outbound :: "nat \<Rightarrow> Outbound list \<Rightarrow> Service \<Rightarrow> Service" where
  "drop_outbound bid [] s = s"
| "drop_outbound bid (Out_data _ len # ms) s = drop_outbound bid ms (release_outbound bid len s)"
| "drop_outbound bid (_ # ms) s = drop_outbound bid ms s"

definition writer_end :: "nat \<Rightarrow> Service \<Rightarrow> Service"
  where "writer_end bid s =
    on_bridge (\<lambda>b. b\<lparr>b_tx := [], tx_open := False\<rparr>) bid (drop_outbound bid (b_tx (bridge_heap s bid)) s)"

text \<open>One round of the writer: the message it sends, if any. A write that fails or times out cancels
  the session; a close frame is the last message.\<close>

definition write_step :: "nat \<Rightarrow> bool \<Rightarrow> nat \<Rightarrow> Service \<Rightarrow> Outbound option \<times> Service"
  where "write_step tick sent bid s =
    (case b_tx (bridge_heap s bid) of
       [] \<Rightarrow> (None, s)
     | m # ms \<Rightarrow>
         let s = drop_outbound bid [m] (on_bridge (\<lambda>b. b\<lparr>b_tx := ms\<rparr>) bid s);
             last_one = (case m of Out_close _ _ \<Rightarrow> True | _ \<Rightarrow> False)
         in (Some m,
             if \<not> sent then writer_end bid (on_bridge (\<lambda>b. b\<lparr>b_cancel := True\<rparr>) bid s)
             else if last_one then writer_end bid s
             else on_bridge (\<lambda>b. b\<lparr>sent_at := tick\<rparr>) bid s))"

end
