(* ===== verification/Relay.thy ===== *)
theory Relay
  imports Bridge_Session Proxy Sni
begin

text \<open>
  Public connections (\<^verbatim>\<open>crates/opentunnel-server/src/relay.rs\<close>): reading the PROXY header and the
  ClientHello, choosing where a connection goes, and carrying it over a bridge. A stream is the list
  of what its reads return within the time allowed; an empty read is the end of the stream, and
  an empty list means that nothing more arrives in time. The two halves of a carried connection are
  step functions whose events are what the source waits for.
\<close>

section \<open>Accepting\<close>

datatype Read = Read_bytes bytes | Read_failed string

record Accepted =
  acc_peer :: SocketAddr
  initial :: bytes
  acc_sni :: string
  acc_alpn :: string

definition PROXY_BUFFER_MAX :: nat where "PROXY_BUFFER_MAX = 536"

fun proxy_loop :: "bytes \<Rightarrow> Read list \<Rightarrow> (string + nat \<times> SocketAddr option \<times> bytes \<times> Read list) option" where
  "proxy_loop buf reads =
     (case header_parse buf of
        None \<Rightarrow> None
      | Some (HeaderComplete len source) \<Rightarrow> Some (Ok (len, source, buf, reads))
      | Some HeaderInvalid \<Rightarrow> Some (Err ''invalid PROXY protocol header'')
      | Some HeaderIncomplete \<Rightarrow>
          if PROXY_BUFFER_MAX < length buf then Some (Err ''connection closed before the PROXY header'')
          else (case reads of
            [] \<Rightarrow> Some (Err ''ClientHello timeout'')
          | Read_failed e # _ \<Rightarrow> Some (Err e)
          | Read_bytes bs # reads \<Rightarrow>
              if bs = [] then Some (Err ''connection closed before the PROXY header'')
              else proxy_loop (buf @ bs) reads))"

declare proxy_loop.simps [simp del]

fun hello_loop :: "(string \<Rightarrow> string) \<Rightarrow> HelloParser \<Rightarrow> nat \<Rightarrow> SocketAddr \<Rightarrow> bytes \<Rightarrow> Read list
    \<Rightarrow> (string + Accepted \<times> Read list) option" where
  "hello_loop to_lower parser start peer buf reads =
     (case Option.bind (slice buf start (length buf)) (HelloParser_parse to_lower parser) of
        None \<Rightarrow> None
      | Some (_, HelloComplete server_name alpn) \<Rightarrow>
          Some (Ok (\<lparr>acc_peer = peer, initial = drop start buf, acc_sni = server_name, acc_alpn = alpn\<rparr>, reads))
      | Some (_, HelloInvalid reason) \<Rightarrow> Some (Err reason)
      | Some (parser, HelloIncomplete) \<Rightarrow>
          if CLIENT_HELLO_LIMIT \<le> length buf - start then Some (Err ''ClientHello exceeded inspection limit'')
          else (case reads of
            [] \<Rightarrow> Some (Err ''ClientHello timeout'')
          | Read_failed e # _ \<Rightarrow> Some (Err e)
          | Read_bytes bs # reads \<Rightarrow>
              if bs = [] then Some (Err ''Connection closed before ClientHello'')
              else hello_loop to_lower parser start peer (buf @ bs) reads))"

declare hello_loop.simps [simp del]

definition accept_with :: "(string \<Rightarrow> string) \<Rightarrow> SocketAddr \<Rightarrow> bool \<Rightarrow> bytes \<Rightarrow> Read list
    \<Rightarrow> (string + Accepted \<times> Read list) option"
  where "accept_with to_lower peer proxied buf reads =
    (if \<not> proxied then hello_loop to_lower HelloParser_default 0 peer buf reads
     else case proxy_loop buf reads of
       None \<Rightarrow> None
     | Some (Inl e) \<Rightarrow> Some (Err e)
     | Some (Inr (len, source, buf, reads)) \<Rightarrow>
         hello_loop to_lower HelloParser_default len (case source of Some p \<Rightarrow> p | None \<Rightarrow> peer) buf reads)"

definition accept :: "(string \<Rightarrow> string) \<Rightarrow> SocketAddr \<Rightarrow> bool \<Rightarrow> Read list \<Rightarrow> (string + Accepted \<times> Read list) option"
  where "accept to_lower peer proxied reads = accept_with to_lower peer proxied [] reads"

section \<open>Where a connection goes\<close>

text \<open>\<open>Public\<close> says whether the machine is one of many.\<close>

datatype Origin = Public bool | Forwarded

text \<open>A carried connection: which of its halves still run, the visitor's data that waits for a share
  of the outbound budgets (and whether it has the bridge's), and the client's data that is being
  written to the visitor.\<close>

record Visitor =
  v_bridge :: nat
  v_conn :: u32
  v_chan :: nat
  uploading :: bool
  downloading :: bool
  holding :: "(bytes \<times> bool) option"
  writing :: "bytes option"

datatype Carry =
  Not_a_tunnel
| Route_failed service_error
| Forward_refused
| Try_forward string string bool string
| Turned_away string bool string
| Forwarder_gone
| Carried Visitor

definition carry_open :: "u32 \<Rightarrow> Accepted \<Rightarrow> Bridge \<Rightarrow> Bridge"
  where "carry_open conn acc b =
    fold (\<lambda>chunk. send (data_frame conn chunk)) (chunks MAX_PAYLOAD_SIZE (initial acc))
      (send (Out_text (ControlOpen conn (show_socket_addr (acc_peer acc)) (acc_sni acc) (acc_alpn acc))) b)"

text \<open>\<open>told\<close> is whether the forwarding machine could be told that the connection is accepted. A connection
  that no bridge here can take goes to another machine (\<open>Try_forward\<close>) or is turned away.\<close>

definition route_tunnel :: "Env \<Rightarrow> nat \<Rightarrow> nat \<Rightarrow> bool \<Rightarrow> Accepted \<Rightarrow> Origin \<Rightarrow> Service \<Rightarrow> (Carry \<times> Service) option"
  where "route_tunnel env now tick told acc origin s =
    (case tunnel_id (acc_sni acc) (domain s) of
       None \<Rightarrow> Some (Not_a_tunnel, s)
     | Some tid \<Rightarrow>
         (case route env now tick tid (acc_sni acc) s of
            None \<Rightarrow> None
          | Some (Inl e, s) \<Rightarrow> Some (Route_failed e, s)
          | Some (Inr (Rejected there out), s) \<Rightarrow>
              (case origin of
                 Forwarded \<Rightarrow> Some (Forward_refused, s)
               | Public many \<Rightarrow>
                   if out = ''no_bridge'' \<and> there \<and> many then
                     (case route_name (acc_sni acc) tid (domain s) of
                        Some r \<Rightarrow> Some (Try_forward tid r there out, s)
                      | None \<Rightarrow> Some (Turned_away tid there out, s))
                   else Some (Turned_away tid there out, s))
          | Some (Inr (To_bridge bid conn _ ch), s) \<Rightarrow>
              if origin = Forwarded \<and> \<not> told
              then Some (Forwarder_gone, drop_slot ch (on_chan (\<lambda>c. c\<lparr>rx_open := False\<rparr>) ch (remove_channel bid conn s)))
              else Some (Carried \<lparr>v_bridge = bid, v_conn = conn, v_chan = ch, uploading = True,
                  downloading = True, holding = None, writing = None\<rparr>,
                on_bridge (carry_open conn acc) bid s)))"

section \<open>Carrying\<close>

definition aborted :: "Visitor \<Rightarrow> Service \<Rightarrow> bool"
  where "aborted v s = abort (ch_finish (chan_heap s (v_chan v)))"

definition client_io_error :: "Visitor \<Rightarrow> Service \<Rightarrow> Service"
  where "client_io_error v s =
    finish_chan ClientError True (v_chan v)
      (on_bridge (try_send (Out_text (ControlReset (v_conn v) ''client_io_error''))) (v_bridge v)
        (remove_channel (v_bridge v) (v_conn v) s))"

text \<open>Visitor to client. \<open>Up_room\<close> is a waiting share of the budgets becoming free.\<close>

datatype upload_event = Up_read bytes | Up_failed | Up_room | Up_aborted

definition stop_upload :: "Visitor \<Rightarrow> Service \<Rightarrow> Visitor \<times> Service"
  where "stop_upload v s =
    (v\<lparr>uploading := False, holding := None\<rparr>,
     case holding v of
       Some (bs, True) \<Rightarrow> on_bridge (\<lambda>b. b\<lparr>outbound_free := outbound_free b + length bs\<rparr>) (v_bridge v) s
     | _ \<Rightarrow> s)"

definition upload_room :: "Visitor \<Rightarrow> Service \<Rightarrow> Visitor \<times> Service"
  where "upload_room v s =
    (case holding v of
       None \<Rightarrow> (v, s)
     | Some (bs, taken) \<Rightarrow>
         (case hold_outbound (v_bridge v) taken (length bs) s of
            Waits_bridge \<Rightarrow> (v, s)
          | Waits_machine s \<Rightarrow> (v\<lparr>holding := Some (bs, True)\<rparr>, s)
          | Holds s \<Rightarrow>
              if tx_open (bridge_heap s (v_bridge v))
              then (v\<lparr>holding := None\<rparr>, on_bridge (send (data_message (v_conn v) bs)) (v_bridge v) s)
              else (v\<lparr>holding := None, uploading := False\<rparr>,
                finish_chan BridgeDisconnected True (v_chan v) (release_outbound (v_bridge v) (length bs) s))))"

definition upload_step :: "upload_event \<Rightarrow> Visitor \<Rightarrow> Service \<Rightarrow> Visitor \<times> Service"
  where "upload_step ev v s =
    (if \<not> uploading v then (v, s)
     else case ev of
       Up_aborted \<Rightarrow> if aborted v s then stop_upload v s else (v, s)
     | Up_room \<Rightarrow> upload_room v s
     | Up_failed \<Rightarrow>
         if holding v \<noteq> None then (v, s) else (v\<lparr>uploading := False\<rparr>, client_io_error v s)
     | Up_read bs \<Rightarrow>
         if holding v \<noteq> None then (v, s)
         else if bs = []
         then (v\<lparr>uploading := False\<rparr>, on_bridge (send (Out_text (ControlEnd (v_conn v)))) (v_bridge v) s)
         else upload_room (v\<lparr>holding := Some (take MAX_PAYLOAD_SIZE bs, False)\<rparr>) s)"

text \<open>Client to visitor. The queue ends for the reader once the connection has left the bridge's map and
  no session still holds data for it (\<open>Down_ended\<close>).\<close>

datatype download_event = Down_next | Down_written bool | Down_progress | Down_aborted | Down_ended

fun drop_inbound :: "nat \<Rightarrow> nat \<Rightarrow> nat \<Rightarrow> Inbound list \<Rightarrow> Service \<Rightarrow> Service" where
  "drop_inbound tick bid ch [] s = s"
| "drop_inbound tick bid ch (In_data bs # ms) s =
     drop_inbound tick bid ch ms (release_inbound tick bid ch (length bs) s)"
| "drop_inbound tick bid ch (In_end # ms) s = drop_inbound tick bid ch ms s"

text \<open>Once the half ends, what it was writing and its queue are dropped.\<close>

definition stop_download :: "nat \<Rightarrow> Visitor \<Rightarrow> Service \<Rightarrow> Visitor \<times> Service"
  where "stop_download tick v s =
    (let ch = v_chan v;
         s = (case writing v of Some bs \<Rightarrow> release_inbound tick (v_bridge v) ch (length bs) s | None \<Rightarrow> s);
         s = drop_inbound tick (v_bridge v) ch (inbound (chan_heap s ch)) s
     in (v\<lparr>downloading := False, writing := None\<rparr>,
         on_chan (\<lambda>c. c\<lparr>inbound := [], rx_open := False\<rparr>) ch s))"

definition download_step :: "nat \<Rightarrow> download_event \<Rightarrow> Visitor \<Rightarrow> Service \<Rightarrow> Visitor \<times> Service"
  where "download_step tick ev v s =
    (if \<not> downloading v then (v, s)
     else case ev of
       Down_aborted \<Rightarrow> if aborted v s then stop_download tick v s else (v, s)
     | Down_next \<Rightarrow>
         if writing v \<noteq> None then (v, s)
         else (case inbound (chan_heap s (v_chan v)) of
           [] \<Rightarrow> (v, s)
         | In_data bs # ms \<Rightarrow>
             (v\<lparr>writing := Some bs\<rparr>, on_chan (\<lambda>c. c\<lparr>inbound := ms\<rparr>) (v_chan v) s)
         | In_end # ms \<Rightarrow> stop_download tick v (on_chan (\<lambda>c. c\<lparr>inbound := ms\<rparr>) (v_chan v) s))
     | Down_written ok \<Rightarrow>
         (case writing v of
            None \<Rightarrow> (v, s)
          | Some bs \<Rightarrow>
              let s = release_inbound tick (v_bridge v) (v_chan v) (length bs) s; v = v\<lparr>writing := None\<rparr> in
              if ok then (v, s) else stop_download tick v (client_io_error v s))
     | Down_progress \<Rightarrow>
         if writing v = None then (v, s)
         else (v, on_chan (\<lambda>c. c\<lparr>drained_at := tick\<rparr>) (v_chan v) s)
     | Down_ended \<Rightarrow>
         if writing v = None \<and> inbound (chan_heap s (v_chan v)) = [] \<and>
            channels (bridge_heap s (v_bridge v)) (v_conn v) \<noteq> Some (v_chan v)
         then stop_download tick v s else (v, s))"

text \<open>The end of a connection: both halves ended, or it was quiet for too long and both are dropped. The
  result says whether the socket is reset.\<close>

definition visitor_end :: "nat \<Rightarrow> bool \<Rightarrow> Visitor \<Rightarrow> Service \<Rightarrow> bool \<times> Service"
  where "visitor_end tick idle v s =
    (let (v, s) = (if idle then let (v, s) = stop_upload v s in stop_download tick v s else (v, s));
         s = (if idle then client_io_error v s else s);
         reset = (idle \<or> aborted v s);
         s = finish_chan Closed False (v_chan v) (remove_channel (v_bridge v) (v_conn v) s)
     in (reset, drop_slot (v_chan v) s))"

text \<open>How a write that waits sees that the visitor reads: \<open>unacked\<close> is what the kernel still holds.\<close>

definition PROGRESS :: nat where "PROGRESS = 64 * 1024"

definition watch_check :: "nat option \<Rightarrow> nat option \<times> nat \<Rightarrow> bool \<times> nat option \<times> nat"
  where "watch_check unacked = (\<lambda>(previous, acked).
    case unacked of
      None \<Rightarrow> (False, previous, acked)
    | Some queued \<Rightarrow>
        let acked = (case previous of Some p \<Rightarrow> if queued < p then acked + (p - queued) else acked | None \<Rightarrow> acked)
        in if PROGRESS \<le> acked then (True, Some queued, 0) else (False, Some queued, acked))"

end
