(* ===== verification/Machine_Safety.thy ===== *)
theory Machine_Safety
  imports Relay
begin

text \<open>
  The invariant of one machine over every operation of the service and of its bridge sessions:
  routes are exclusive, connection numbers and connections are never shared, counters agree with
  what they count. Most operations only let go of things; what they have in common is the relation
  \<open>calms\<close>, proved for each of them along the monad.
\<close>

section \<open>The invariant\<close>

definition slots_of :: "Service \<Rightarrow> nat \<Rightarrow> nat set"
  where "slots_of s b = {ch. \<exists>conn. slots s ch = Some (b, conn)}"

definition bridge_ok :: "Service \<Rightarrow> nat \<Rightarrow> bool"
  where "bridge_ok s b =
    (let br = bridge_heap s b; st = bstate br in
     visitors br = card (slots_of s b) \<and>
     (\<forall>conn ch. channels br conn = Some ch \<longrightarrow> slots s ch = Some (b, conn) \<and> conn \<noteq> 0) \<and>
     visitors br \<le> max 1 (conns_per_bridge (bridge_limits s)) \<and>
     (detached st \<longrightarrow> channels br = Map.empty) \<and>
     (attached st \<longrightarrow> routes st \<noteq> [] \<and> list_all is_valid_route (routes st) \<and> session st \<noteq> None))"

definition routes_held :: "Service \<Rightarrow> nat \<Rightarrow> string list"
  where "routes_held s b = (if is_attached (bridge_heap s b) then routes (bstate (bridge_heap s b)) else [])"

definition tunnel_ok :: "Service \<Rightarrow> nat list \<Rightarrow> bool"
  where "tunnel_ok s bs =
    (distinct bs \<and> (\<forall>b \<in> set bs. b < next_bridge s) \<and>
     (\<forall>b \<in> set bs. \<forall>c \<in> set bs. b \<noteq> c \<longrightarrow> set (routes_held s b) \<inter> set (routes_held s c) = {}) \<and>
     (\<Sum>b \<leftarrow> bs. length (routes_held s b)) \<le> MAX_TUNNEL_ROUTES \<and>
     (\<forall>b \<in> set bs. \<forall>c \<in> set bs. b \<noteq> c \<longrightarrow>
        dom (channels (bridge_heap s b)) \<inter> dom (channels (bridge_heap s c)) = {}))"

definition machine_ok :: "Service \<Rightarrow> bool"
  where "machine_ok s =
    (distinct (map fst (entries s)) \<and>
     (\<forall>b < next_bridge s. bridge_ok s b) \<and>
     (\<forall>ch b conn. slots s ch = Some (b, conn) \<longrightarrow> ch < next_chan s \<and> b < next_bridge s) \<and>
     (\<forall>tid. tunnel_ok s (e_bridges (entry_at tid s))) \<and>
     (\<forall>tid tid'. tid \<noteq> tid' \<longrightarrow>
        set (e_bridges (entry_at tid s)) \<inter> set (e_bridges (entry_at tid' s)) = {}))"

section \<open>Operations that only let go\<close>

definition fades :: "Bridge \<Rightarrow> Bridge \<Rightarrow> bool"
  where "fades b b' =
    (visitors b' = visitors b \<and> channels b' \<subseteq>\<^sub>m channels b \<and>
     (detached (bstate b) \<longrightarrow> detached (bstate b')) \<and>
     (detached (bstate b') \<and> \<not> detached (bstate b) \<longrightarrow> channels b' = Map.empty) \<and>
     attached (bstate b') = attached (bstate b) \<and> routes (bstate b') = routes (bstate b) \<and>
     session (bstate b') = session (bstate b))"

definition calms :: "Service \<Rightarrow> Service \<Rightarrow> bool"
  where "calms s s' =
    (slots s' = slots s \<and> next_bridge s' = next_bridge s \<and> next_chan s' = next_chan s \<and>
     bridge_limits s' = bridge_limits s \<and>
     (distinct (map fst (entries s)) \<longrightarrow> distinct (map fst (entries s'))) \<and>
     (\<forall>b. fades (bridge_heap s b) (bridge_heap s' b)) \<and>
     (\<forall>tid. \<exists>P. e_bridges (entry_at tid s') = filter P (e_bridges (entry_at tid s))))"

lemma fades_refl [simp, intro]: "fades b b"
  by (simp add: fades_def)

lemma fades_trans: "fades a b \<Longrightarrow> fades b c \<Longrightarrow> fades a c"
  unfolding fades_def by (auto intro: map_le_trans simp: map_le_def fun_eq_iff dom_def)

lemma calms_refl [simp, intro]: "calms s s"
  by (auto simp: calms_def intro!: exI [of _ "\<lambda>_. True"])

lemma calms_trans:
  assumes "calms s s'" "calms s' s''"
  shows "calms s s''"
  unfolding calms_def
proof (intro conjI allI)
  fix tid
  obtain P Q where "e_bridges (entry_at tid s') = filter P (e_bridges (entry_at tid s))"
    "e_bridges (entry_at tid s'') = filter Q (e_bridges (entry_at tid s'))"
    using assms unfolding calms_def by meson
  then show "\<exists>P. e_bridges (entry_at tid s'') = filter P (e_bridges (entry_at tid s))"
    by (metis filter_filter)
qed (use assms in \<open>auto simp: calms_def intro: fades_trans\<close>)

lemma fades_held:
  assumes "\<And>b. fades (bridge_heap s b) (bridge_heap s' b)"
  shows "routes_held s' b = routes_held s b \<or> routes_held s' b = []"
  using assms [of b] by (auto simp: fades_def routes_held_def is_attached_def)

lemma sum_filter_le:
  assumes "\<And>b. f b \<le> (g b :: nat)"
  shows "(\<Sum>b \<leftarrow> filter P bs. f b) \<le> (\<Sum>b \<leftarrow> bs. g b)"
  by (induction bs) (auto simp: add_mono assms trans_le_add2)

lemma calms_bridge_ok:
  assumes c: "calms s s'" and ok: "bridge_ok s b"
  shows "bridge_ok s' b"
proof -
  have f: "fades (bridge_heap s b) (bridge_heap s' b)" and same: "slots s' = slots s"
    "bridge_limits s' = bridge_limits s" using c by (simp_all add: calms_def)
  have le: "channels (bridge_heap s b) conn = Some ch" if "channels (bridge_heap s' b) conn = Some ch" for conn ch
    using f that by (auto simp: fades_def map_le_def dom_def)
  have none: "channels (bridge_heap s' b) = Map.empty" if "detached (bstate (bridge_heap s' b))"
    using f ok that map_le_antisym [OF _ map_le_empty, of "channels (bridge_heap s' b)"]
    by (auto simp: fades_def bridge_ok_def Let_def)
  show ?thesis
    using f ok none by (auto simp: bridge_ok_def Let_def same slots_of_def fades_def dest!: le)
qed

lemma calms_tunnel_ok:
  assumes c: "calms s s'" and ok: "tunnel_ok s bs"
  shows "tunnel_ok s' (filter P bs)"
proof -
  have f: "fades (bridge_heap s b) (bridge_heap s' b)" for b using c by (simp add: calms_def)
  have sub: "set (routes_held s' b) \<subseteq> set (routes_held s b)" "length (routes_held s' b) \<le> length (routes_held s b)" for b
    using fades_held [OF f, of b] by auto
  have ch: "dom (channels (bridge_heap s' b)) \<subseteq> dom (channels (bridge_heap s b))" for b
    using f by (simp add: fades_def map_le_implies_dom_le)
  show ?thesis
    unfolding tunnel_ok_def
  proof (intro conjI ballI impI)
    fix b d assume "b \<in> set (filter P bs)" "d \<in> set (filter P bs)" "b \<noteq> d"
    then have "set (routes_held s b) \<inter> set (routes_held s d) = {}"
      "dom (channels (bridge_heap s b)) \<inter> dom (channels (bridge_heap s d)) = {}"
      using ok by (auto simp: tunnel_ok_def)
    then show "set (routes_held s' b) \<inter> set (routes_held s' d) = {}"
      "dom (channels (bridge_heap s' b)) \<inter> dom (channels (bridge_heap s' d)) = {}"
      using sub(1) [of b] sub(1) [of d] ch [of b] ch [of d] by blast+
  next
    have "(\<Sum>b \<leftarrow> filter P bs. length (routes_held s' b)) \<le> (\<Sum>b \<leftarrow> bs. length (routes_held s b))"
      by (rule sum_filter_le) (rule sub(2))
    then show "(\<Sum>b \<leftarrow> filter P bs. length (routes_held s' b)) \<le> MAX_TUNNEL_ROUTES"
      using ok by (simp add: tunnel_ok_def)
  qed (use ok c in \<open>auto simp: tunnel_ok_def calms_def\<close>)
qed

lemma calms_machine_ok:
  assumes c: "calms s s'" and ok: "machine_ok s"
  shows "machine_ok s'"
  unfolding machine_ok_def
proof (intro conjI allI impI)
  fix tid tid' :: string
  obtain P Q where P: "e_bridges (entry_at tid s') = filter P (e_bridges (entry_at tid s))"
    and Q: "e_bridges (entry_at tid' s') = filter Q (e_bridges (entry_at tid' s))"
    using c unfolding calms_def by meson
  show "tunnel_ok s' (e_bridges (entry_at tid s'))"
    unfolding P using calms_tunnel_ok [OF c] ok by (simp add: machine_ok_def)
  show "set (e_bridges (entry_at tid s')) \<inter> set (e_bridges (entry_at tid' s')) = {}" if "tid \<noteq> tid'"
    unfolding P Q using that ok unfolding machine_ok_def set_filter by blast
next
  fix ch b conn assume "slots s' ch = Some (b, conn)"
  then show "ch < next_chan s'" "b < next_bridge s'"
    using ok c unfolding machine_ok_def calms_def by simp_all blast+
qed (use ok c calms_bridge_ok [OF c] in \<open>simp_all add: machine_ok_def calms_def\<close>)


named_theorems calm_intros

definition calm :: "'a sv \<Rightarrow> bool"
  where "calm m = (\<forall>s. calms s (snd (m s)))"

lemma calm_bind [calm_intros]:
  assumes "calm m" "\<And>a. calm (f a)"
  shows "calm (sv_bind m f)"
  unfolding calm_def
proof
  fix s
  obtain r s1 where m: "m s = (r, s1)" by (cases "m s")
  then have one: "calms s s1" using assms(1) by (metis calm_def snd_conv)
  show "calms s (snd (sv_bind m f s))"
  proof (cases r)
    case (Inr a)
    have "calms s1 (snd (f a s1))" using assms(2) by (simp add: calm_def)
    with one Inr m show ?thesis by (auto simp: sv_bind_def intro: calms_trans)
  qed (use one m in \<open>simp add: sv_bind_def\<close>)
qed

lemma calm_basic [calm_intros]:
  "calm (sv_return a)" "calm (sv_fail e)" "calm (sv_get g)"
  by (simp_all add: calm_def sv_return_def sv_fail_def sv_get_def)

lemma calm_try [calm_intros]: "calm m \<Longrightarrow> calm (sv_try m)"
  by (simp add: calm_def sv_try_def case_prod_unfold)

lemma calm_modify [calm_intros]: "(\<And>s. calms s (f s)) \<Longrightarrow> calm (sv_modify f)"
  by (simp add: calm_def sv_modify_def)

lemma calms_same:
  assumes "slots s' = slots s" "next_bridge s' = next_bridge s" "next_chan s' = next_chan s"
    "bridge_limits s' = bridge_limits s" "bridge_heap s' = bridge_heap s"
    "distinct (map fst (entries s)) \<Longrightarrow> distinct (map fst (entries s'))"
    "\<And>tid. e_bridges (entry_at tid s') = e_bridges (entry_at tid s)"
  shows "calms s s'"
  unfolding calms_def using assms by (auto intro!: exI [of _ "\<lambda>_. True"])

lemma calms_entries:
  "slots s' = slots s \<Longrightarrow> next_bridge s' = next_bridge s \<Longrightarrow> next_chan s' = next_chan s \<Longrightarrow>
   bridge_limits s' = bridge_limits s \<Longrightarrow> bridge_heap s' = bridge_heap s \<Longrightarrow> entries s' = entries s \<Longrightarrow> calms s s'"
  by (rule calms_same) (simp_all add: entry_at_def)

lemma calms_set_entry:
  assumes "e_bridges e = filter P (e_bridges (entry_at tid s))"
  shows "calms s (set_entry tid e s)"
proof -
  have "\<exists>P. e_bridges (entry_at tid' (set_entry tid e s)) = filter P (e_bridges (entry_at tid' s))" for tid'
    using assms by (cases "tid' = tid") (auto intro!: exI [of _ "if tid' = tid then P else (\<lambda>_. True)"])
  then show ?thesis
    unfolding calms_def by (auto simp: set_entry_def distinct_update)
qed

lemma calms_set_entry_same: "e_bridges e = e_bridges (entry_at tid s) \<Longrightarrow> calms s (set_entry tid e s)"
  by (rule calms_set_entry [where P = "\<lambda>_. True"]) simp

lemma calms_on_bridge:
  assumes "\<And>b. b = bridge_heap s bid \<Longrightarrow> fades b (f b)"
  shows "calms s (on_bridge f bid s)"
  unfolding calms_def
  using assms by (auto simp: on_bridge_def set_bridge_def intro!: exI [of _ "\<lambda>_. True"])

lemma calm_store_io [calm_intros]: "calm (sv_store_io m)"
  unfolding calm_def sv_store_io_def
  by (auto intro: calms_entries split: prod.splits sum.splits)

lemma calm_if [calm_intros]: "calm m \<Longrightarrow> calm m' \<Longrightarrow> calm (if b then m else m')"
  by simp

lemma calm_option [calm_intros]:
  "calm m \<Longrightarrow> (\<And>x. calm (f x)) \<Longrightarrow> calm (case v of None \<Rightarrow> m | Some x \<Rightarrow> f x)"
  by (cases v) auto

lemma calm_sum [calm_intros]:
  "(\<And>x. calm (f x)) \<Longrightarrow> (\<And>x. calm (g x)) \<Longrightarrow> calm (case v of Inl x \<Rightarrow> f x | Inr x \<Rightarrow> g x)"
  by (cases v) auto

lemma calm_prod [calm_intros]: "(\<And>x y. calm (f x y)) \<Longrightarrow> calm (case p of (x, y) \<Rightarrow> f x y)"
  by (cases p) auto

lemma calm_certificate [calm_intros]:
  "calm a \<Longrightarrow> (\<And>x y z. calm (b x y z)) \<Longrightarrow> (\<And>x. calm (c x)) \<Longrightarrow> (\<And>x y. calm (d x y)) \<Longrightarrow>
   calm (case st of Challenge x y \<Rightarrow> d x y | Issuing \<Rightarrow> a | Ready x y z \<Rightarrow> b x y z | Failed x \<Rightarrow> c x)"
  by (cases st) auto

lemma calm_Let [calm_intros]: "(\<And>x. calm (f x)) \<Longrightarrow> calm (let x = v in f x)"
  by simp

lemma calm_entry [calm_intros]: "calm (sv_modify (entry tid))"
  by (rule calm_modify) (simp add: entry_def calms_set_entry_same)

lemma calm_announce [calm_intros]: "calm (announce c)" "calm job_added"
  by (auto simp: announce_def job_added_def intro!: calm_modify intro: calms_entries)

lemma calm_uuid [calm_intros]: "calm (new_uuid env)"
  by (auto simp: calm_def new_uuid_def intro: calms_entries split: option.splits)

lemma load_snapshot_bridges [simp]: "e_bridges (load_snapshot now gen found e) = e_bridges e"
  by (auto simp: load_snapshot_def split: option.splits)

section \<open>The service keeps its bridges\<close>

lemma calm_set_entry [calm_intros]:
  "(\<And>s. e_bridges (f s) = e_bridges (entry_at tid s)) \<Longrightarrow> calm (sv_modify (\<lambda>s. set_entry tid (f s) s))"
  by (rule calm_modify) (rule calms_set_entry_same)

lemma calm_lock [calm_intros]: "calm (lock env now tid)"
  unfolding lock_def by (intro calm_intros) simp

lemma calm_refresh [calm_intros]: "calm (refresh env now tid)"
  unfolding refresh_def Let_def
  by (intro calm_intros) (auto intro: calms_entries split: option.splits)

lemma calm_lock_fresh [calm_intros]: "calm (lock_fresh env now tid)"
  unfolding lock_fresh_def by (intro calm_intros)

lemma calm_lock_routable [calm_intros]: "calm (lock_routable env now tid)"
  unfolding lock_routable_def by (intro calm_intros)

lemma calm_attach_read [calm_intros]: "calm (attach_read env now tid)"
  unfolding attach_read_def
proof (rule calm_bind)
  show "calm (\<lambda>s. let e = entry_at tid s in
      case found of
        Inr (Some sn) \<Rightarrow>
          (Ok (Some (snapshot_alarm sn)), set_entry tid (load_snapshot now (generation s) (Some sn) e) s)
      | Inr None \<Rightarrow>
          (Ok None, set_entry tid ((load_snapshot now (generation s) None e)\<lparr>e_alarm := e_alarm e\<rparr>) s)
      | Inl err \<Rightarrow>
          if loaded_entry e then (Ok None, s\<lparr>refresh_failed_at := now\<rparr>) else (Err err, s))"
    for found :: "service_error + AttachSnapshot option"
    unfolding calm_def Let_def
    by (auto intro: calms_entries intro!: calms_set_entry_same split: sum.splits option.splits)
qed (intro calm_intros)

lemma calm_lock_for_attach [calm_intros]: "calm (lock_for_attach env now tid)"
  unfolding lock_for_attach_def Let_def by (intro calm_intros)

lemma calm_save [calm_intros]: "calm (save env now tid r)"
  unfolding save_def
  by (intro calm_intros) (auto simp: forget_record_def intro: calms_set_entry_same)

lemma calm_ensure [calm_intros]: "calm (ensure_issuance env now r kd)"
  unfolding ensure_issuance_def by (intro calm_intros)

lemma calm_create [calm_intros]: "calm (create env now tid hash)"
  unfolding create_def by (intro calm_intros)

lemma calm_info [calm_intros]: "calm (info env now elsewhere tid token)"
  unfolding info_def by (intro calm_intros)

lemma calm_certificate_lookup [calm_intros]: "calm (certificate_lookup env now tid token)"
  unfolding certificate_lookup_def by (intro calm_intros)

lemma calm_check_limits [calm_intros]: "calm (check_limits env now tid)"
proof -
  have "calm (issuance_verdict env now l tid)" for l
    by (auto simp: calm_def issuance_verdict_def intro: calms_entries split: prod.splits sum.splits)
  moreover have "calm (backlog_check env now l)" for l
    unfolding backlog_check_def by (intro calm_intros) (rule calms_entries; simp)
  ultimately show ?thesis unfolding check_limits_def by (intro calm_intros)
qed

lemma calm_start_issuance [calm_intros]: "calm (start_issuance env now tid r csr names)"
  unfolding start_issuance_def by (intro calm_intros)

lemma calm_bind_certificate [calm_intros]: "calm (bind_certificate env now tid token csr)"
  unfolding bind_certificate_def by (intro calm_intros)


section \<open>Messages to bridges\<close>

named_theorems fade_simps

lemma fades_bridge [fade_simps]:
  "fades b (touch now b)" "fades b (send m b)" "fades b (try_send m b)" "fades b (close code reason b)"
  "fades b (b\<lparr>b_tx := ms\<rparr>)" "fades b (b\<lparr>b_tx := ms, tx_open := c\<rparr>)" "fades b (b\<lparr>b_cancel := c\<rparr>)" "fades b (b\<lparr>sent_at := t\<rparr>)"
  "fades b (b\<lparr>inbound_free := n\<rparr>)" "fades b (b\<lparr>outbound_free := n\<rparr>)"
  "fades b (b\<lparr>channels := (channels b)(conn := None)\<rparr>)"
  "fades b (b\<lparr>bstate := (bstate b)\<lparr>active_at := t\<rparr>\<rparr>)"
  by (simp_all add: fades_def touch_def send_def try_send_def close_def map_le_def)

lemma fades_send_drain [fade_simps]: "fades b (send_drain reason b)"
  unfolding send_drain_def by (rule fades_trans [OF fades_bridge(3) fades_bridge(4)])

lemma calms_fold: "(\<And>x s. calms s (f x s)) \<Longrightarrow> calms s (fold f xs s)"
  by (induction xs arbitrary: s) (auto intro: calms_trans)

lemma calms_chans: "calms s (s\<lparr>chan_heap := h\<rparr>)" "calms s (s\<lparr>buffer_free := n\<rparr>)" "calms s (s\<lparr>draining := d\<rparr>)"
  "calms s (s\<lparr>mesh_calls := cs\<rparr>)" "calms s (s\<lparr>generation := g\<rparr>)"
  by (rule calms_entries; simp)+

lemma calms_on_chan: "calms s (on_chan f ch s)"
  by (simp add: on_chan_def calms_chans)

lemma finish_channels_heap:
  "bridge_heap (finish_channels out bid s) =
     (bridge_heap s)(bid := (bridge_heap s bid)\<lparr>channels := Map.empty\<rparr>)"
  "entries (finish_channels out bid s) = entries s" "slots (finish_channels out bid s) = slots s"
  "next_bridge (finish_channels out bid s) = next_bridge s" "next_chan (finish_channels out bid s) = next_chan s"
  "bridge_limits (finish_channels out bid s) = bridge_limits s"
  by (simp_all add: finish_channels_def Let_def on_bridge_def set_bridge_def)

lemma calms_finish_channels: "calms s (finish_channels out bid s)"
  by (auto simp: calms_def finish_channels_heap entry_at_def fades_def intro!: exI [of _ "\<lambda>_. True"])

lemma calms_close_bridge: "calms s (close_bridge out code reason bid s)"
  unfolding close_bridge_def
  by (rule calms_trans [OF calms_finish_channels]) (rule calms_on_bridge, rule fade_simps)

lemma calms_detach: "calms s (finish_channels out bid (on_bridge mark_detached bid s))"
  by (auto simp: calms_def finish_channels_heap entry_at_def fades_def on_bridge_def set_bridge_def
      mark_detached_def intro!: exI [of _ "\<lambda>_. True"])

lemma calms_mesh_detach: "calms s (mesh_detach tid bid s)"
  by (simp add: mesh_detach_def calms_chans)

lemma calms_retire_bridge: "calms s (retire_bridge now tid bid s)"
  unfolding retire_bridge_def close_bridge_def Let_def
  by (auto intro!: calms_trans [OF calms_trans [OF calms_detach calms_on_bridge] calms_mesh_detach]
      calms_trans [OF calms_detach calms_on_bridge] fade_simps split: option.splits)

lemma calms_retire_stale: "calms s (retire_stale now tid s)"
  unfolding retire_stale_def Let_def by (rule calms_fold) (rule calms_retire_bridge)

lemma calm_remove_tunnel [calm_intros]: "calm (remove_tunnel env now tid token)"
  unfolding remove_tunnel_def by (intro calm_intros calms_fold calms_close_bridge)

lemma calm_schedule_renewal [calm_intros]: "calm (schedule_renewal env now r)"
  unfolding schedule_renewal_def by (intro calm_intros)

lemma calm_update_certificate [calm_intros]: "calm (update_certificate env now tid cid st)"
  unfolding update_certificate_def update_renewal_def Let_def by (intro calm_intros)

lemma calm_wants_certificate [calm_intros]: "calm (wants_certificate env now tid cid)"
  unfolding wants_certificate_def by (intro calm_intros)

lemma calm_start_renewal [calm_intros]: "calm (start_renewal env now tid r)"
  unfolding start_renewal_def Let_def by (intro calm_intros)

lemma calm_renewal_alarm [calm_intros]: "calm (renewal_alarm env now tid)"
  unfolding renewal_alarm_def by (intro calm_intros)

lemma calm_on_attached [calm_intros]: "calm (on_attached env now tid r at)"
  unfolding on_attached_def by (intro calm_intros)

lemma calm_after_attach [calm_intros]: "calm (after_attach env now tid bid at)"
  unfolding after_attach_def Let_def by (intro calm_intros)

lemma calm_resume_each [calm_intros]: "calm (resume_each env now grace rs)"
proof -
  have "calm (resume_job env now r kd cid wanted)" for r kd cid wanted
    unfolding resume_job_def by (intro calm_intros)
  then have "calm (resume_one env now grace tid)" for tid
    unfolding resume_one_def by (intro calm_intros)
  then show ?thesis by (induction rs) (simp_all add: calm_intros)
qed

lemma calm_resume_orphaned [calm_intros]: "calm (resume_orphaned_issuance env now grace)"
  unfolding resume_orphaned_issuance_def by (intro calm_intros)

lemma calm_retry_each: "(\<And>job. calm (f job)) \<Longrightarrow> calm (retry_each f js)"
  by (induction js) (simp_all add: calm_intros)

lemma calm_retry_failed_issuance [calm_intros]: "calm (retry_failed_issuance env now)"
  unfolding retry_failed_issuance_def retry_failed_def retry_authz_pending_def show_issuing_def Let_def
  by (intro calm_intros calm_retry_each)

lemma calm_exists_tunnel [calm_intros]: "calm (exists_tunnel env now tid)"
  unfolding exists_tunnel_def by (intro calm_intros)

lemma calms_close_deleted: "calms s (snd (close_deleted tid s))"
  unfolding close_deleted_def Let_def forget_record_def
  by (auto intro!: calms_trans [OF calms_fold calms_set_entry_same] calms_close_bridge split: option.splits)

lemma calm_close_deleted_tunnels [calm_intros]: "calm (close_deleted_tunnels env)"
  unfolding close_deleted_tunnels_def by (intro calm_intros calms_fold calms_close_deleted)

lemma calms_held_routes: "calms s (snd (held_routes now tid s))"
  unfolding held_routes_def Let_def entry_def
  by (auto intro!: calms_trans [OF calms_set_entry_same calms_retire_stale] calms_set_entry_same)

lemma calms_drain: "calms s (drain s)"
  unfolding drain_def
  by (rule calms_trans [OF calms_chans(3) [of _ True]], rule calms_fold, rule calms_fold)
    (rule calms_on_bridge, rule fade_simps)

lemma calms_report_active: "calms s (report_active now bid s)"
  by (auto simp: report_active_def Let_def intro!: calms_on_bridge fade_simps)

lemma calms_cache: "calms s (expire tid s)" "calms s (forget_cached_answers s)" "calms s (invalidate tid s)"
  by (auto simp: expire_def forget_cached_answers_def invalidate_def forget_record_def entry_at_def
      intro!: calms_chans calms_set_entry_same split: option.splits)

lemma calms_bridge_closed: "calms s (bridge_closed tid bid s)"
proof -
  define s1 where "s1 = set_entry tid ((entry_at tid (entry tid s))\<lparr>e_bridges :=
    filter (\<lambda>b. b \<noteq> bid) (e_bridges (entry_at tid (entry tid s)))\<rparr>) (entry tid s)"
  have "calms s s1"
    unfolding s1_def entry_def by (rule calms_trans [OF calms_set_entry_same calms_set_entry]) simp_all
  then show ?thesis
    unfolding bridge_closed_def Let_def s1_def [symmetric]
    by (auto intro: calms_trans [OF calms_trans [OF _ calms_detach] calms_mesh_detach])
qed

lemma map_of_filter_pairs:
  "distinct (map fst xs) \<Longrightarrow>
   map_of (filter P xs) k = (case map_of xs k of Some v \<Rightarrow> if P (k, v) then Some v else None | None \<Rightarrow> None)"
proof (induction xs)
  case (Cons x xs)
  then have "fst x = k \<Longrightarrow> map_of xs k = None" by (auto simp: map_of_eq_None_iff)
  with Cons show ?case by (cases x) (auto split: option.splits)
qed simp

lemma calms_collect_idle:
  assumes "machine_ok s"
  shows "calms s (collect_idle in_use now s)"
proof -
  have d: "distinct (map fst (entries s))" using assms by (simp add: machine_ok_def)
  have "e_bridges (entry_at tid (collect_idle in_use now s)) = e_bridges (entry_at tid s)" for tid
    using d by (auto simp: entry_at_def collect_idle_def map_of_filter_pairs EntryState_default_def
        split: option.splits)
  then show ?thesis
    by (rule calms_same [rotated 6]) (simp_all add: collect_idle_def distinct_map_filter)
qed

section \<open>Sessions let go\<close>

lemma calms_pieces:
  "calms s (on_bridge (send m) bid s)" "calms s (on_bridge (try_send m) bid s)"
  "calms s (on_bridge (touch now) bid s)" "calms s (on_bridge (close code reason) bid s)"
  "calms s (remove_channel bid conn s)" "calms s (finish_chan out ab ch s)"
  "calms s (on_bridge (\<lambda>b. b\<lparr>b_tx := ms\<rparr>) bid s)" "calms s (on_bridge (\<lambda>b. b\<lparr>b_cancel := c\<rparr>) bid s)"
  "calms s (on_bridge (\<lambda>b. b\<lparr>sent_at := t\<rparr>) bid s)"
  "calms s (on_bridge (\<lambda>b. b\<lparr>inbound_free := n b\<rparr>) bid s)"
  "calms s (on_bridge (\<lambda>b. b\<lparr>outbound_free := n b\<rparr>) bid s)"
  by (auto simp: remove_channel_def finish_chan_def calms_on_chan intro!: calms_on_bridge fade_simps)

lemma calms_refuse:
  "calms s (on_bridge (\<lambda>b. close code reason (send m b)) bid s)"
  by (rule calms_on_bridge) (rule fades_trans [OF fades_bridge(2) fades_bridge(4)])

lemma calms_reset_channel: "calms s (reset_channel bid conn ch s)"
  unfolding reset_channel_def
  by (rule calms_trans [OF calms_trans [OF calms_pieces(5) calms_pieces(6)] calms_pieces(1)])

lemma calms_reset_stalled: "calms s (reset_stalled tick conns bid s)"
  unfolding reset_stalled_def
  by (rule calms_fold) (auto intro: calms_reset_channel split: option.splits)

lemma calms_keep_alive: "calms s (keep_alive tick wall bid s)"
  unfolding keep_alive_def
  by (auto intro!: calms_on_bridge fades_trans [OF fades_bridge(8) fades_bridge(3)])

lemma calms_try_hold: "try_hold tick started bid ch len s = Some s' \<Longrightarrow> calms s s'"
  unfolding try_hold_def
  by (auto intro!: calms_trans [OF calms_trans [OF calms_chans(2) calms_on_chan] calms_pieces(10)]
      split: if_splits)

lemma calms_release:
  "calms s (release_inbound tick bid ch len s)" "calms s (release_outbound bid len s)"
  unfolding release_inbound_def release_outbound_def
  by (rule calms_trans [OF calms_trans [OF calms_chans(2) calms_on_chan] calms_pieces(10)])
    (rule calms_trans [OF calms_chans(2) calms_pieces(11)])

lemma calms_deliver: "calms s (deliver tick bid ch body s)"
  by (simp add: deliver_def calms_on_chan calms_release)

lemma calms_hold_outbound:
  "hold_outbound bid taken len s = Holds s' \<or> hold_outbound bid taken len s = Waits_machine s' \<Longrightarrow> calms s s'"
  unfolding hold_outbound_def Let_def
  by (auto intro: calms_pieces calms_chans calms_trans [OF calms_pieces(11) calms_chans(2)] split: if_splits)

lemma calms_give_back: "calms s (give_back stage bid ch len s)"
  unfolding give_back_def Let_def
  by (auto intro: calms_pieces calms_on_chan calms_trans [OF calms_on_chan calms_pieces(10)])

lemma calms_data: "calms s (snd (data tick frame (se, s)))"
  unfolding data_def Let_def
  by (auto intro: calms_on_chan calms_trans [OF calms_on_chan calms_on_chan]
      calms_trans [OF calms_on_chan calms_trans [OF calms_try_hold calms_deliver]] split: option.splits)

lemma calms_wait:
  "calms s (snd (wait_step tick (se, s)))" "calms s (snd (wait_cancelled (se, s)))"
  unfolding wait_step_def wait_cancelled_def Let_def
  by (auto intro: calms_on_chan calms_pieces calms_give_back calms_trans [OF calms_chans(2) calms_deliver]
      split: option.splits)

lemma calms_wait_deadline: "calms s (snd (wait_deadline tick conns (se, s)))"
proof (cases "waiting se")
  case (Some w)
  obtain conn ch body idle stage where w: "w = (conn, ch, body, idle, stage)" by (cases w)
  define s1 where "s1 = reset_stalled tick conns (bridge se) (give_back stage (bridge se) ch (length body) s)"
  have one: "calms s s1" unfolding s1_def by (rule calms_trans [OF calms_give_back calms_reset_stalled])
  show ?thesis
    using Some w one
    by (auto simp: wait_deadline_def Let_def s1_def [symmetric]
        intro: calms_trans [OF one calms_reset_channel]
          calms_trans [OF one calms_trans [OF calms_try_hold calms_deliver]] split: option.splits)
qed (simp add: wait_deadline_def)

lemma calms_handle_control: "calms s (snd (handle_control now control (se, s)))"
  unfolding handle_control_def Let_def
  by (auto intro: calms_trans [OF calms_pieces(1) calms_report_active]
      calms_trans [OF calms_pieces(5) calms_pieces(6)]
      calms_trans [OF calms_trans [OF calms_pieces(5) calms_pieces(6)] calms_on_chan]
      split: option.splits)

lemma calms_drop_outbound: "calms s (drop_outbound bid ms s)"
  by (induction bid ms s rule: drop_outbound.induct) (auto intro: calms_trans [OF calms_release(2)])

lemma calms_writer_end: "calms s (writer_end bid s)"
  unfolding writer_end_def
  by (rule calms_trans [OF calms_drop_outbound]) (rule calms_on_bridge, rule fade_simps)

lemma calms_write_step: "calms s (snd (write_step tick sent bid s))"
proof (cases "b_tx (bridge_heap s bid)")
  case (Cons m ms)
  define s1 where "s1 = drop_outbound bid [m] (on_bridge (\<lambda>b. b\<lparr>b_tx := ms\<rparr>) bid s)"
  have "calms s s1"
    unfolding s1_def by (rule calms_trans [OF calms_pieces(7) calms_drop_outbound])
  then show ?thesis
    using Cons by (auto simp: write_step_def Let_def s1_def [symmetric] intro: calms_trans [OF _ calms_pieces(9)]
        calms_trans [OF calms_trans [OF _ calms_pieces(8)] calms_writer_end] calms_trans [OF _ calms_writer_end])
qed (simp add: write_step_def)

section \<open>Carried connections let go\<close>

lemma calms_client_io_error: "calms s (client_io_error v s)"
  unfolding client_io_error_def
  by (rule calms_trans [OF calms_trans [OF calms_pieces(5) calms_pieces(2)] calms_pieces(6)])

lemma calms_stop_upload: "calms s (snd (stop_upload v s))"
  by (auto simp: stop_upload_def calms_pieces split: option.splits bool.splits)

lemma calms_upload_room: "calms s (snd (upload_room v s))"
  unfolding upload_room_def
  by (auto intro: calms_hold_outbound calms_trans [OF calms_hold_outbound calms_pieces(1)]
      calms_trans [OF calms_trans [OF calms_hold_outbound calms_release(2)] calms_pieces(6)]
      split: option.splits Hold.splits)

lemma calms_upload_step: "calms s (snd (upload_step ev v s))"
  unfolding upload_step_def
  by (auto intro: calms_stop_upload calms_upload_room calms_client_io_error calms_pieces
      split: upload_event.splits)

lemma calms_drop_inbound: "calms s (drop_inbound tick bid ch ms s)"
  by (induction tick bid ch ms s rule: drop_inbound.induct) (auto intro: calms_trans [OF calms_release(1)])

lemma calms_stop_download: "calms s (snd (stop_download tick v s))"
  unfolding stop_download_def Let_def
  by (auto intro: calms_trans [OF calms_drop_inbound calms_on_chan]
      calms_trans [OF calms_release(1) calms_trans [OF calms_drop_inbound calms_on_chan]] split: option.splits)

lemma calms_download_step: "calms s (snd (download_step tick ev v s))"
  unfolding download_step_def Let_def
  by (auto intro: calms_stop_download calms_on_chan calms_release calms_trans [OF calms_on_chan calms_stop_download]
      calms_trans [OF calms_release(1) calms_trans [OF calms_client_io_error calms_stop_download]]
      split: download_event.splits option.splits list.splits Inbound.splits)

lemma calms_carry_open: "calms s (on_bridge (carry_open conn acc) bid s)"
proof (rule calms_on_bridge)
  fix b :: Bridge
  have "fades b (fold (\<lambda>chunk. send (data_frame conn chunk)) cs (send m b))" for cs m
    by (induction cs arbitrary: b m) (auto intro: fade_simps fades_trans [OF fades_bridge(2)])
  then show "fades b (carry_open conn acc b)" by (simp add: carry_open_def)
qed

end
