(* ===== verification/Machine_Steps.thy ===== *)
theory Machine_Steps
  imports Machine_Safety
begin

text \<open>
  The operations that take something keep the invariant of \<open>Machine_Safety\<close>: registering and
  attaching a bridge, opening a connection with a number no other has, and giving a connection's
  slot back.
\<close>

section \<open>Steps that take something\<close>

lemma tunnel_ok_cong:
  assumes "\<And>b. b \<in> set bs \<Longrightarrow> bridge_heap s' b = bridge_heap s b" "next_bridge s \<le> next_bridge s'" "tunnel_ok s bs"
  shows "tunnel_ok s' bs"
proof -
  have held: "routes_held s' b = routes_held s b" if "b \<in> set bs" for b
    using assms(1) [OF that] by (simp add: routes_held_def)
  then have sum: "map (\<lambda>b. length (routes_held s' b)) bs = map (\<lambda>b. length (routes_held s b)) bs" by simp
  show ?thesis
    using assms(2,3) unfolding tunnel_ok_def sum by (auto simp: held assms(1))
qed

lemma bridge_ok_cong:
  "bridge_heap s' b = bridge_heap s b \<Longrightarrow> slots s' = slots s \<Longrightarrow> bridge_limits s' = bridge_limits s \<Longrightarrow>
   bridge_ok s' b = bridge_ok s b"
  by (simp add: bridge_ok_def slots_of_def)

lemma finite_slots_of: "machine_ok s \<Longrightarrow> finite (slots_of s b)"
  by (rule finite_subset [of _ "{..<next_chan s}"]) (auto simp: machine_ok_def slots_of_def)

definition add_bridge :: "string \<Rightarrow> Bridge \<Rightarrow> Service \<Rightarrow> Service"
  where "add_bridge tid b s =
    set_entry tid ((entry_at tid s)\<lparr>e_bridges := e_bridges (entry_at tid s) @ [next_bridge s]\<rparr>)
      (set_bridge (next_bridge s) b (s\<lparr>next_bridge := Suc (next_bridge s)\<rparr>))"

lemma add_bridge_fields:
  "bridge_heap (add_bridge tid b s) = (bridge_heap s)(next_bridge s := b)"
  "slots (add_bridge tid b s) = slots s" "next_bridge (add_bridge tid b s) = Suc (next_bridge s)"
  "next_chan (add_bridge tid b s) = next_chan s" "bridge_limits (add_bridge tid b s) = bridge_limits s"
  "e_bridges (entry_at tid' (add_bridge tid b s)) =
     e_bridges (entry_at tid' s) @ (if tid' = tid then [next_bridge s] else [])"
  "entries (add_bridge tid b s) = AList.update tid ((entry_at tid s)\<lparr>e_bridges :=
     e_bridges (entry_at tid s) @ [next_bridge s]\<rparr>) (entries s)"
  by (simp_all add: add_bridge_def set_bridge_def) (simp add: set_entry_def)

lemma machine_ok_add_bridge:
  assumes ok: "machine_ok s"
    and b: "visitors b = 0" "channels b = Map.empty" "\<not> attached (bstate b)"
  shows "machine_ok (add_bridge tid b s)"
proof -
  let ?n = "next_bridge s" and ?s = "add_bridge tid b s"
  have old: "c < ?n" if "c \<in> set (e_bridges (entry_at t s))" for c t
    using ok that by (auto simp: machine_ok_def tunnel_ok_def)
  have "slots_of s ?n = {}" using ok by (force simp: slots_of_def machine_ok_def)
  then have new: "bridge_ok ?s ?n"
    using b by (simp add: bridge_ok_def add_bridge_fields slots_of_def Let_def)
  have same: "bridge_ok ?s c" if "c < ?n" for c
    using ok that bridge_ok_cong [of ?s c s] by (simp add: machine_ok_def add_bridge_fields)
  have keep: "tunnel_ok ?s (e_bridges (entry_at t s))" for t
    using ok old by (intro tunnel_ok_cong [of _ ?s s]) (auto simp: add_bridge_fields machine_ok_def)
  have "routes_held ?s ?n = []" "channels (bridge_heap ?s ?n) = Map.empty"
    using b by (simp_all add: routes_held_def add_bridge_fields is_attached_def)
  then have "tunnel_ok ?s (e_bridges (entry_at tid s) @ [?n])"
    using keep [of tid] old [of _ tid]
    by (auto simp: tunnel_ok_def add_bridge_fields)
  then have "tunnel_ok ?s (e_bridges (entry_at t ?s))" for t
    using keep [of t] by (cases "t = tid") (simp_all add: add_bridge_fields(6))
  moreover have "set (e_bridges (entry_at t ?s)) \<inter> set (e_bridges (entry_at t' ?s)) = {}" if "t \<noteq> t'" for t t'
  proof -
    have "set (e_bridges (entry_at t s)) \<inter> set (e_bridges (entry_at t' s)) = {}"
      using ok that by (simp add: machine_ok_def)
    with that old [of ?n t] old [of ?n t'] show ?thesis by (auto simp: add_bridge_fields(6))
  qed
  moreover have "ch < next_chan ?s \<and> c < next_bridge ?s" if "slots ?s ch = Some (c, conn)" for ch c conn
    using ok that unfolding add_bridge_fields machine_ok_def by (meson less_Suc_eq)
  moreover have "bridge_ok ?s c" if "c < next_bridge ?s" for c
    using that new same [of c] by (cases "c = ?n") (auto simp: add_bridge_fields(3))
  moreover have "distinct (map fst (entries ?s))"
    using ok by (simp add: add_bridge_fields machine_ok_def distinct_update)
  ultimately show ?thesis unfolding machine_ok_def by blast
qed

lemma calm_state: "calm m \<Longrightarrow> m s = (r, s') \<Longrightarrow> calms s s'"
  by (metis calm_def snd_conv)

lemma register_bridge_adds:
  assumes "register_bridge env now tick tid s = (r, s')"
  obtains s1 b where "calms s s1" "s' = s1 \<and> (\<forall>bid. r \<noteq> Inr (Some bid)) \<or>
    s' = add_bridge tid b s1 \<and> r = Inr (Some (next_bridge s1)) \<and> fades (new_bridge now tick) b"
proof -
  obtain r1 s1 where l: "lock_routable env now tid s = (r1, s1)" by (cases "lock_routable env now tid s")
  have c: "calms s s1" by (rule calm_state [OF calm_lock_routable l])
  have "fades (new_bridge now tick) (if draining s1 then send_drain DRAIN_REASON (new_bridge now tick) else new_bridge now tick)"
    by (simp add: fade_simps)
  with c l assms show thesis
    by (intro that [of s1 "if draining s1 then send_drain DRAIN_REASON (new_bridge now tick) else new_bridge now tick"])
      (auto simp: register_bridge_def sv_bind_def Let_def add_bridge_def split: sum.splits if_splits)
qed

lemma machine_ok_register:
  assumes "machine_ok s" "register_bridge env now tick tid s = (r, s')"
  shows "machine_ok s'"
proof -
  obtain s1 b where c: "calms s s1" and s': "s' = s1 \<and> (\<forall>bid. r \<noteq> Inr (Some bid)) \<or>
    s' = add_bridge tid b s1 \<and> r = Inr (Some (next_bridge s1)) \<and> fades (new_bridge now tick) b"
    using register_bridge_adds [OF assms(2)] .
  have ok: "machine_ok s1" by (rule calms_machine_ok [OF c assms(1)])
  moreover have "machine_ok (add_bridge tid b s1)" if "fades (new_bridge now tick) b"
    using that by (intro machine_ok_add_bridge [OF ok])
      (auto simp: fades_def new_bridge_def BridgeState_default_def map_le_def fun_eq_iff dom_def)
  ultimately show ?thesis using s' by blast
qed


lemma distinct_sum_split:
  assumes "distinct bs" "b \<in> set bs"
  shows "(\<Sum>x \<leftarrow> bs. f x) = f b + (\<Sum>x \<leftarrow> filter (\<lambda>x. x \<noteq> b) bs. f x :: nat)"
  using assms
proof (induction bs)
  case (Cons a bs)
  moreover have "filter (\<lambda>x. x \<noteq> b) bs = bs" if "b \<notin> set bs" using that by (intro filter_True) auto
  ultimately show ?case by (cases "a = b") auto
qed simp

definition attach_bridge :: "nat \<Rightarrow> string \<Rightarrow> string list \<Rightarrow> nat option \<Rightarrow> nat \<Rightarrow> Service \<Rightarrow> Service"
  where "attach_bridge now sess rs limit =
    on_bridge (\<lambda>b. touch now (b\<lparr>bstate := attach_state now sess rs limit (bstate b)\<rparr>))"

lemma attach_bridge_fields:
  "slots (attach_bridge now sess rs limit bid s) = slots s"
  "next_bridge (attach_bridge now sess rs limit bid s) = next_bridge s"
  "next_chan (attach_bridge now sess rs limit bid s) = next_chan s"
  "bridge_limits (attach_bridge now sess rs limit bid s) = bridge_limits s"
  "entries (attach_bridge now sess rs limit bid s) = entries s"
  "entry_at tid (attach_bridge now sess rs limit bid s) = entry_at tid s"
  "b \<noteq> bid \<Longrightarrow> bridge_heap (attach_bridge now sess rs limit bid s) b = bridge_heap s b"
  "bstate (bridge_heap (attach_bridge now sess rs limit bid s) bid) =
     attach_state now sess rs limit (bstate (bridge_heap s bid))"
  "channels (bridge_heap (attach_bridge now sess rs limit bid s) b) = channels (bridge_heap s b)"
  "visitors (bridge_heap (attach_bridge now sess rs limit bid s) b) = visitors (bridge_heap s b)"
  by (simp_all add: attach_bridge_def on_bridge_def set_bridge_def touch_def entry_at_def)

lemma held_count_eq:
  "held_count bid tid s =
    (\<Sum>b \<leftarrow> filter (\<lambda>b. b \<noteq> bid) (e_bridges (entry_at tid s)). length (routes_held s b))"
proof -
  have "(\<Sum>b \<leftarrow> filter (\<lambda>b. b \<noteq> bid) (filter (\<lambda>b. is_attached (bridge_heap s b)) bs).
          length (routes (bstate (bridge_heap s b)))) =
        (\<Sum>b \<leftarrow> filter (\<lambda>b. b \<noteq> bid) bs. length (routes_held s b))" for bs
    by (induction bs) (simp_all add: routes_held_def)
  then show ?thesis by (simp add: held_count_def attached_bridges_def)
qed

lemma tunnel_ok_attach:
  assumes ok: "tunnel_ok s bs" and bs: "bs = e_bridges (entry_at tid s)" and bid: "bid \<in> set bs"
    and room: "held_count bid tid s + length rs \<le> MAX_TUNNEL_ROUTES" and free: "\<not> route_conflict bid tid rs s"
  shows "tunnel_ok (attach_bridge now sess rs limit bid s) bs" (is "tunnel_ok ?s bs")
proof -
  have other: "routes_held ?s b = routes_held s b" if "b \<noteq> bid" for b
    using that by (simp add: routes_held_def attach_bridge_fields)
  have own: "set (routes_held ?s bid) \<subseteq> set rs" "length (routes_held ?s bid) \<le> length rs"
    by (auto simp: routes_held_def attach_bridge_fields attach_state_def)
  have apart: "set (routes_held s b) \<inter> set rs = {}" if "b \<in> set bs" "b \<noteq> bid" for b
    using free that by (auto simp: route_conflict_def bs list_ex_iff claims_def routes_held_def is_attached_def
        split: if_splits)
  have rest: "map (\<lambda>b. length (routes_held ?s b)) (filter (\<lambda>b. b \<noteq> bid) bs) =
      map (\<lambda>b. length (routes_held s b)) (filter (\<lambda>b. b \<noteq> bid) bs)"
    using other by (auto intro: map_cong)
  have d: "distinct bs" using ok by (simp add: tunnel_ok_def)
  have "(\<Sum>b \<leftarrow> bs. length (routes_held ?s b)) \<le> MAX_TUNNEL_ROUTES"
    unfolding distinct_sum_split [OF d bid] rest
    using own(2) room by (simp add: held_count_eq bs)
  moreover have "set (routes_held ?s b) \<inter> set (routes_held ?s c) = {}"
    if "b \<in> set bs" "c \<in> set bs" "b \<noteq> c" for b c
  proof -
    consider "b = bid" "c \<noteq> bid" | "c = bid" "b \<noteq> bid" | "b \<noteq> bid" "c \<noteq> bid"
      using \<open>b \<noteq> c\<close> by (cases "b = bid"; cases "c = bid") auto
    then show ?thesis
    proof cases
      case 1 then show ?thesis using own(1) apart [of c] that other [of c] by auto
    next
      case 2 then show ?thesis using own(1) apart [of b] that other [of b] by auto
    next
      case 3 then show ?thesis using ok that other by (simp add: tunnel_ok_def)
    qed
  qed
  ultimately show ?thesis using ok by (simp add: tunnel_ok_def attach_bridge_fields)
qed

lemma machine_ok_attach_bridge:
  assumes ok: "machine_ok s" and rs: "rs \<noteq> []" "list_all is_valid_route rs"
    and room: "held_count bid tid s + length rs \<le> MAX_TUNNEL_ROUTES" and free: "\<not> route_conflict bid tid rs s"
    and mine: "\<And>t. bid \<in> set (e_bridges (entry_at t s)) \<Longrightarrow> t = tid"
  shows "machine_ok (attach_bridge now sess rs limit bid s)" (is "machine_ok ?s")
proof -
  have "bridge_ok ?s b" if "b < next_bridge s" for b
  proof -
    have "bridge_ok s b" using ok that by (simp add: machine_ok_def)
    with rs show ?thesis
      by (cases "b = bid") (auto simp: bridge_ok_def Let_def attach_bridge_fields slots_of_def attach_state_def)
  qed
  moreover have "tunnel_ok ?s (e_bridges (entry_at t s))" for t
  proof (cases "bid \<in> set (e_bridges (entry_at t s))")
    case True
    then show ?thesis using mine [of t] ok room free by (auto simp: machine_ok_def intro: tunnel_ok_attach)
  next
    case False
    then have "b \<noteq> bid" if "b \<in> set (e_bridges (entry_at t s))" for b using that by blast
    then show ?thesis using ok
      by (intro tunnel_ok_cong [of _ ?s s]) (simp_all add: attach_bridge_fields machine_ok_def)
  qed
  ultimately show ?thesis using ok by (simp add: machine_ok_def attach_bridge_fields)
qed

lemma calms_mine:
  "calms s s' \<Longrightarrow> b \<in> set (e_bridges (entry_at t s')) \<Longrightarrow> b \<in> set (e_bridges (entry_at t s))"
proof -
  assume "calms s s'" "b \<in> set (e_bridges (entry_at t s'))"
  moreover obtain P where "e_bridges (entry_at t s') = filter P (e_bridges (entry_at t s))"
    using \<open>calms s s'\<close> unfolding calms_def by meson
  ultimately show ?thesis by simp
qed

text \<open>What an attach did, on every branch: nothing but letting go, or the bridge holds the routes.\<close>

lemma entries_retire_stale [simp]: "entries (retire_stale now tid s) = entries s"
proof -
  have "entries (retire_bridge now t b s) = entries s" for t b s
    by (simp add: retire_bridge_def Let_def close_bridge_def on_bridge_def set_bridge_def finish_channels_heap
        mesh_detach_def split: option.splits)
  then have "entries (fold (retire_bridge now t) bs s) = entries s" for t bs
    by (induction bs arbitrary: s) simp_all
  then show ?thesis by (simp add: retire_stale_def Let_def)
qed

lemma entry_at_retire_stale [simp]: "entry_at tid' (retire_stale now tid s) = entry_at tid' s"
  by (simp add: entry_at_def)

lemma attach_checks_uuids [simp]:
  "held_count bid tid (s\<lparr>uuids := u\<rparr>) = held_count bid tid s"
  "route_conflict bid tid rs (s\<lparr>uuids := u\<rparr>) = route_conflict bid tid rs s"
  by (simp_all add: held_count_def route_conflict_def attached_bridges_def)

lemma attach_runs:
  assumes "lock_for_attach env now tid s = (Ok at, s0)" "live_record (entry_at tid s0) = Some rec"
    and "token_matches (sha256 env) token (token_hash rec)" "certificate_ready rec" "rs \<noteq> []"
      "list_all is_valid_route rs"
    and s1: "s1 = retire_stale now tid s0"
    and "held_count bid tid s1 + length rs \<le> MAX_TUNNEL_ROUTES" "\<not> route_conflict bid tid rs s1"
      "\<not> (clustered s1 \<and> elsewhere tid rs)" "uuid (random env (uuids s1)) = Some u"
  shows "attach env now elsewhere tid bid token rs limit s =
    (sv_bind (announce (Mesh_attached tid bid rs now)) (\<lambda>_. sv_return (Attached (''sess_'' @ u) rs at)))
      (attach_bridge now (''sess_'' @ u) rs limit bid (s1\<lparr>uuids := Suc (uuids s1)\<rparr>))"
proof -
  have "\<not> list_ex (\<lambda>x. \<not> is_valid_route x) rs" using assms(6) by (auto simp: list_ex_iff list_all_iff)
  then show ?thesis
    using assms by (auto simp: attach_def sv_bind_def sv_get_def sv_modify_def new_uuid_def attach_bridge_def)
qed

lemma attach_effect:
  assumes "attach env now elsewhere tid bid token rs limit s = (r, s')"
  obtains (refused) "calms s s'" "\<And>sess rs' at. r \<noteq> Inr (Attached sess rs' at)"
  | (attached) s1 rec sess at where "calms s s1" "r = Inr (Attached sess rs at)"
      "live_record (entry_at tid s1) = Some rec" "token_matches (sha256 env) token (token_hash rec)"
      "certificate_ready rec" "rs \<noteq> []" "list_all is_valid_route rs"
      "held_count bid tid s1 + length rs \<le> MAX_TUNNEL_ROUTES" "\<not> route_conflict bid tid rs s1"
      "\<not> (clustered s1 \<and> elsewhere tid rs)"
      "calms (attach_bridge now sess rs limit bid s1) s'"
      "bridge_heap s' = bridge_heap (attach_bridge now sess rs limit bid s1)" "entries s' = entries s1"
proof -
  obtain f s0 where l: "lock_for_attach env now tid s = (f, s0)" by (cases "lock_for_attach env now tid s")
  have c0: "calms s s0" by (rule calm_state [OF calm_lock_for_attach l])
  define s1 where "s1 = retire_stale now tid s0"
  have c1: "calms s s1" unfolding s1_def by (rule calms_trans [OF c0 calms_retire_stale])
  show thesis
  proof (cases "\<exists>at rec u. f = Inr at \<and> live_record (entry_at tid s0) = Some rec \<and>
      token_matches (sha256 env) token (token_hash rec) \<and> certificate_ready rec \<and> rs \<noteq> [] \<and>
      \<not> list_ex (\<lambda>x. \<not> is_valid_route x) rs \<and> \<not> MAX_TUNNEL_ROUTES < held_count bid tid s1 + length rs \<and>
      \<not> route_conflict bid tid rs s1 \<and> \<not> (clustered s1 \<and> elsewhere tid rs) \<and>
      uuid (random env (uuids s1)) = Some u")
    case True
    then obtain at rec u where f: "f = Inr at" and rec: "live_record (entry_at tid s0) = Some rec"
      and ok: "token_matches (sha256 env) token (token_hash rec)" "certificate_ready rec" "rs \<noteq> []"
        "\<not> list_ex (\<lambda>x. \<not> is_valid_route x) rs" "\<not> MAX_TUNNEL_ROUTES < held_count bid tid s1 + length rs"
        "\<not> route_conflict bid tid rs s1" "\<not> (clustered s1 \<and> elsewhere tid rs)"
      and u: "uuid (random env (uuids s1)) = Some u" by blast
    define s2 where "s2 = s1\<lparr>uuids := Suc (uuids s1)\<rparr>"
    have c2: "calms s s2" unfolding s2_def by (rule calms_trans [OF c1]) (rule calms_entries; simp)
    have run: "attach env now elsewhere tid bid token rs limit s =
      (sv_bind (announce (Mesh_attached tid bid rs now)) (\<lambda>_. sv_return (Attached (''sess_'' @ u) rs at)))
        (attach_bridge now (''sess_'' @ u) rs limit bid s2)"
      unfolding s2_def using ok
      by (intro attach_runs [OF l [unfolded f] rec _ _ _ _ s1_def _ _ _ u]) (auto simp: list_ex_iff list_all_iff)
    have out: "r = Inr (Attached (''sess_'' @ u) rs at)"
      "calms (attach_bridge now (''sess_'' @ u) rs limit bid s2) s'"
      "bridge_heap s' = bridge_heap (attach_bridge now (''sess_'' @ u) rs limit bid s2)" "entries s' = entries s2"
      using assms unfolding run
      by (auto simp: sv_bind_def announce_def sv_modify_def sv_return_def calms_chans attach_bridge_fields)
    have "entry_at tid s2 = entry_at tid s0" "clustered s2 = clustered s1" by (simp_all add: s2_def s1_def)
    with ok out c2 rec show thesis
      by (intro attached [of s2 "''sess_'' @ u" at rec]) (auto simp: s2_def list_ex_iff list_all_iff)
  next
    case False
    then have "r \<noteq> Inr (Attached sess rs' at) \<and> (s' = s0 \<or> s' = s1)" for sess rs' at
      using assms
      by (auto simp: attach_def sv_bind_def l sv_get_def sv_modify_def sv_return_def new_uuid_def s1_def
          split: sum.splits option.splits if_splits)
    then show thesis using c0 c1 by (intro refused) auto
  qed
qed

lemma machine_ok_attach:
  assumes ok: "machine_ok s" and run: "attach env now elsewhere tid bid token rs limit s = (r, s')"
    and mine: "\<And>t. bid \<in> set (e_bridges (entry_at t s)) \<Longrightarrow> t = tid"
  shows "machine_ok s'"
  using run
proof (cases rule: attach_effect)
  case refused
  then show ?thesis using calms_machine_ok ok by blast
next
  case (attached s1 rec sess at)
  have "machine_ok (attach_bridge now sess rs limit bid s1)"
    using calms_machine_ok [OF attached(1) ok] attached calms_mine [OF attached(1)] mine
    by (intro machine_ok_attach_bridge) auto
  with attached show ?thesis using calms_machine_ok by blast
qed


section \<open>Opening and ending a connection\<close>

lemma next_conn_fresh:
  assumes "next_conn used c = Some r"
  shows "fst r \<noteq> 0 \<and> \<not> used (fst r) \<and> snd r = fst r + 1"
  using assms
proof (induction rule: next_conn.raw_induct [rotated, consumes 1])
  case (1 next_conn used c r)
  from 1(2) 1(1) [of used "c + 1" r] show ?case by (auto split: if_splits)
qed

text \<open>The search ends when some number is free: the numbers wrap around, so every one is tried.\<close>

lemma next_conn_finds:
  assumes "conn \<noteq> 0" "\<not> used conn" "conn = c + word_of_nat k"
  shows "\<exists>r. next_conn used c = Some r"
  using assms
proof (induction k arbitrary: c)
  case 0
  then show ?case by (subst next_conn.simps) simp
next
  case (Suc k)
  have "conn = (c + 1) + word_of_nat k" using Suc.prems(3) by (simp add: algebra_simps)
  with Suc.IH [of "c + 1"] Suc.prems show ?case by (subst next_conn.simps) auto
qed

lemma next_conn_total:
  assumes "finite {c. used c}" "card {c. used c} < 2 ^ 32 - 1"
  shows "\<exists>r. next_conn used c = Some r"
proof -
  have "card (UNIV :: u32 set) = 2 ^ 32" by (simp add: card_word)
  moreover have "card (insert 0 {c :: u32. used c}) < 2 ^ 32"
    using assms by (simp add: card_insert_if)
  ultimately have "insert 0 {c. used c} \<noteq> UNIV" by force
  then obtain conn where conn: "conn \<noteq> 0" "\<not> used conn" by blast
  have "conn = c + word_of_nat (unat (conn - c))" by simp
  then show ?thesis using next_conn_finds conn by blast
qed

lemma open_channel_fields:
  "slots (open_channel tick tid bid conn n s) = (slots s)(next_chan s \<mapsto> (bid, conn))"
  "next_bridge (open_channel tick tid bid conn n s) = next_bridge s"
  "next_chan (open_channel tick tid bid conn n s) = Suc (next_chan s)"
  "bridge_limits (open_channel tick tid bid conn n s) = bridge_limits s"
  "e_bridges (entry_at t (open_channel tick tid bid conn n s)) = e_bridges (entry_at t s)"
  "b \<noteq> bid \<Longrightarrow> bridge_heap (open_channel tick tid bid conn n s) b = bridge_heap s b"
  "bstate (bridge_heap (open_channel tick tid bid conn n s) b) = bstate (bridge_heap s b)"
  "channels (bridge_heap (open_channel tick tid bid conn n s) bid) =
     (channels (bridge_heap s bid))(conn \<mapsto> next_chan s)"
  "visitors (bridge_heap (open_channel tick tid bid conn n s) bid) = Suc (visitors (bridge_heap s bid))"
  "distinct (map fst (entries s)) \<Longrightarrow> distinct (map fst (entries (open_channel tick tid bid conn n s)))"
  by (simp_all add: open_channel_def Let_def on_bridge_def set_bridge_def)
    (simp add: set_entry_def distinct_update)

lemma conn_limit_le: "conn_limit b n \<le> max 1 n"
  by (auto simp: conn_limit_def split: option.splits)

lemma machine_ok_open:
  assumes ok: "machine_ok s" and bid: "bid \<in> set (e_bridges (entry_at tid s))"
    and att: "is_attached (bridge_heap s bid)" and room: "\<not> over_limit s tid bid"
    and conn: "conn \<noteq> 0" "\<not> channel_used s tid conn"
  shows "machine_ok (open_channel tick tid bid conn n s)" (is "machine_ok ?s")
proof -
  let ?ch = "next_chan s"
  have below: "bid < next_bridge s" using ok bid by (auto simp: machine_ok_def tunnel_ok_def)
  have fresh: "slots s ?ch = None"
    using ok by (metis machine_ok_def nat_neq_iff not_None_eq surj_pair)
  have sl: "slots_of ?s b = (if b = bid then insert ?ch (slots_of s b) else slots_of s b)" for b
    using fresh by (auto simp: slots_of_def open_channel_fields)
  have new: "?ch \<notin> slots_of s bid" using fresh by (simp add: slots_of_def)
  have okb: "bridge_ok s b" if "b < next_bridge s" for b using ok that by (simp add: machine_ok_def)
  have limit: "Suc (visitors (bridge_heap s bid)) \<le> max 1 (conns_per_bridge (bridge_limits s))"
    using room conn_limit_le [of "bridge_heap s bid" "conns_per_bridge (bridge_limits s)"]
    by (simp add: over_limit_def)
  have "bridge_ok ?s bid"
    using okb [OF below] limit att conn fresh new finite_slots_of [OF ok, of bid]
    by (auto simp: bridge_ok_def Let_def sl open_channel_fields is_attached_def)
  moreover have "bridge_ok ?s b" if "b < next_bridge s" "b \<noteq> bid" for b
    using okb [OF that(1)] that(2) fresh by (auto simp: bridge_ok_def Let_def sl open_channel_fields)
  moreover have "tunnel_ok ?s (e_bridges (entry_at t s))" for t
  proof (cases "t = tid")
    case True
    have held: "routes_held ?s = routes_held s"
      by (simp add: routes_held_def is_attached_def open_channel_fields fun_eq_iff)
    have "conn \<notin> dom (channels (bridge_heap s b))" if "b \<in> set (e_bridges (entry_at tid s))" for b
      using conn(2) that by (auto simp: channel_used_def list_ex_iff)
    then have doms: "dom (channels (bridge_heap ?s b)) \<inter> dom (channels (bridge_heap ?s c)) = {}"
      if "b \<in> set (e_bridges (entry_at tid s))" "c \<in> set (e_bridges (entry_at tid s))" "b \<noteq> c" for b c
    proof -
      have "dom (channels (bridge_heap s b)) \<inter> dom (channels (bridge_heap s c)) = {}"
        using ok that by (simp add: machine_ok_def tunnel_ok_def)
      with that \<open>\<And>b. b \<in> set (e_bridges (entry_at tid s)) \<Longrightarrow> conn \<notin> dom (channels (bridge_heap s b))\<close>
      show ?thesis
        by (cases "b = bid"; cases "c = bid") (auto simp: open_channel_fields dom_def)
    qed
    have t: "tunnel_ok s (e_bridges (entry_at tid s))" using ok by (simp add: machine_ok_def)
    show ?thesis unfolding True using t doms by (simp add: tunnel_ok_def held open_channel_fields)
  next
    case False
    have "b \<noteq> bid" if "b \<in> set (e_bridges (entry_at t s))" for b
      using ok bid that False unfolding machine_ok_def by blast
    then show ?thesis using ok
      by (intro tunnel_ok_cong [of _ ?s s]) (simp_all add: open_channel_fields machine_ok_def)
  qed
  moreover have "ch < next_chan ?s \<and> b < next_bridge ?s" if "slots ?s ch = Some (b, c)" for ch b c
    using that ok below unfolding open_channel_fields machine_ok_def
    by (metis fun_upd_apply less_SucI lessI option.inject prod.inject)
  ultimately show ?thesis
    using ok by (auto simp: machine_ok_def open_channel_fields)
qed


lemma drop_slot_fields:
  assumes "slots s ch = Some (bid, conn)"
  shows "slots (drop_slot ch s) = (slots s)(ch := None)" "next_bridge (drop_slot ch s) = next_bridge s"
    "next_chan (drop_slot ch s) = next_chan s" "bridge_limits (drop_slot ch s) = bridge_limits s"
    "entries (drop_slot ch s) = entries s" "entry_at t (drop_slot ch s) = entry_at t s"
    "bstate (bridge_heap (drop_slot ch s) b) = bstate (bridge_heap s b)"
    "channels (bridge_heap (drop_slot ch s) b) = channels (bridge_heap s b)"
    "visitors (bridge_heap (drop_slot ch s) b) = visitors (bridge_heap s b) - (if b = bid then 1 else 0)"
  using assms by (simp_all add: drop_slot_def on_bridge_def set_bridge_def)

lemma machine_ok_drop_slot:
  assumes ok: "machine_ok s" and sl: "slots s ch = Some (bid, conn)"
    and left: "channels (bridge_heap s bid) conn \<noteq> Some ch"
  shows "machine_ok (drop_slot ch s)"
proof -
  note f = drop_slot_fields [OF sl]
  have slots': "slots_of (drop_slot ch s) b = slots_of s b - {ch}" for b
    by (auto simp: slots_of_def f)
  have "bridge_ok (drop_slot ch s) b" if "b < next_bridge s" for b
  proof -
    have okb: "bridge_ok s b" using ok that by (simp add: machine_ok_def)
    have "c \<noteq> ch" if "channels (bridge_heap s b) cn = Some c" for c cn
      using okb that sl left by (auto simp: bridge_ok_def Let_def)
    moreover have "card (slots_of s b - {ch}) = visitors (bridge_heap s b) - (if b = bid then 1 else 0)"
      using okb sl finite_slots_of [OF ok, of b]
      by (auto simp: bridge_ok_def Let_def slots_of_def card_Diff_singleton_if)
    ultimately show ?thesis
      using okb by (auto simp: bridge_ok_def Let_def slots' f)
  qed
  moreover have "routes_held (drop_slot ch s) = routes_held s"
    by (rule ext) (simp only: routes_held_def is_attached_def f)
  then have "tunnel_ok (drop_slot ch s) bs = tunnel_ok s bs" for bs
    by (simp add: tunnel_ok_def f)
  ultimately show ?thesis
    using ok unfolding machine_ok_def f by (auto split: if_splits)
qed

lemma retire_stale_domain [simp]: "domain (retire_stale now tid s) = domain s"
proof -
  have "domain (retire_bridge now t b s) = domain s" for t b s
    by (simp add: retire_bridge_def Let_def close_bridge_def on_bridge_def set_bridge_def finish_channels_def
        mesh_detach_def split: option.splits)
  then have "domain (fold (retire_bridge now t) bs s) = domain s" for t bs
    by (induction bs arbitrary: s) simp_all
  then show ?thesis by (simp add: retire_stale_def Let_def)
qed

text \<open>What routing did: a rejection that only lets go, or a connection on the bridge that claims the route.\<close>

lemma route_effect:
  assumes "route env now tick tid sni s = Some (r, s')"
  obtains (rejected) "calms s s'" "\<And>b c t ch. r \<noteq> Inr (To_bridge b c t ch)"
  | (opened) s1 rec wanted bid conn n where "calms s s1" "live_record (entry_at tid s1) = Some rec"
      "certificate_ready rec" "route_of sni (hostname rec) = Some wanted" "CHR ''.'' \<notin> set wanted"
      "List.find (\<lambda>b. claims (bridge_heap s1 b) wanted) (e_bridges (entry_at tid s1)) = Some bid"
      "\<not> over_limit s1 tid bid" "next_conn (channel_used s1 tid) (e_sequence (entry_at tid s1)) = Some (conn, n)"
      "r = Inr (To_bridge bid conn (ident rec) (next_chan s1))" "s' = open_channel tick tid bid conn n s1"
proof -
  obtain f s0 where l: "lock_routable env now tid s = (f, s0)" by (cases "lock_routable env now tid s")
  have c0: "calms s s0" by (rule calm_state [OF calm_lock_routable l])
  show thesis
  proof (cases "\<exists>b c t ch. r = Inr (To_bridge b c t ch)")
    case True
    with assms l c0 show thesis
      by (auto simp: route_def Let_def bind_eq_Some_conv route_outcome_def
          intro!: opened [of "retire_stale now tid s0"] calms_trans [OF c0 calms_retire_stale]
          split: sum.splits option.splits if_splits prod.splits)
  next
    case False
    with assms l have "s' = s0 \<or> s' = retire_stale now tid s0"
      by (auto simp: route_def Let_def split: sum.splits option.splits if_splits prod.splits)
    then show thesis
      using False c0 calms_trans [OF c0 calms_retire_stale] by (intro rejected) auto
  qed
qed

lemma machine_ok_route:
  assumes ok: "machine_ok s" and run: "route env now tick tid sni s = Some (r, s')"
  shows "machine_ok s'"
  using run
proof (cases rule: route_effect)
  case rejected
  then show ?thesis using calms_machine_ok ok by blast
next
  case (opened s1 rec wanted bid conn n)
  have "bid \<in> set (e_bridges (entry_at tid s1))" "claims (bridge_heap s1 bid) wanted"
    using opened(6) by (auto simp: find_Some_iff)
  then show ?thesis
    using opened next_conn_fresh [OF opened(8)] calms_machine_ok [OF opened(1) ok]
    by (auto simp: claims_def is_attached_def intro!: machine_ok_open)
qed

end
