(* ===== verification/Machine_Runs.thy ===== *)
theory Machine_Runs
  imports Machine_Steps
begin

text \<open>
  The machine as a state machine: its service, its bridge sessions and the public connections it
  carries, with a step for every operation of the service, for every event of a session and for
  every event of a connection. The invariant of \<open>Machine_Safety\<close> holds in every state it reaches.
\<close>

section \<open>The machine\<close>

record Machine =
  service :: Service
  sessions :: "nat \<rightharpoonup> Session"
  carried :: "nat \<rightharpoonup> Visitor"

text \<open>The operations that do not belong to a session or to a connection: requests of the API, of the
  other machines, of the job runner and of the timers.\<close>

datatype Request =
  Do_create string string
| Do_info "string \<Rightarrow> bool" string string
| Do_certificate string string
| Do_bind string string string
| Do_remove string string
| Do_update string string CertificateState
| Do_wants string string
| Do_alarm string
| Do_resume nat
| Do_retry
| Do_exists string
| Do_after_attach string nat "nat option option"
| Do_held string
| Do_deleted string
| Do_deleted_all
| Do_drain
| Do_sweep "string \<Rightarrow> bool"
| Do_expire string
| Do_forget
| Do_invalidate string

fun serve :: "Env \<Rightarrow> nat \<Rightarrow> Request \<Rightarrow> Service \<Rightarrow> Service" where
  "serve env now (Do_create tid hash) s = snd (create env now tid hash s)"
| "serve env now (Do_info elsewhere tid token) s = snd (info env now elsewhere tid token s)"
| "serve env now (Do_certificate tid token) s = snd (certificate_lookup env now tid token s)"
| "serve env now (Do_bind tid token csr) s = snd (bind_certificate env now tid token csr s)"
| "serve env now (Do_remove tid token) s = snd (remove_tunnel env now tid token s)"
| "serve env now (Do_update tid cid st) s = snd (update_certificate env now tid cid st s)"
| "serve env now (Do_wants tid cid) s = snd (wants_certificate env now tid cid s)"
| "serve env now (Do_alarm tid) s = snd (renewal_alarm env now tid s)"
| "serve env now (Do_resume grace) s = snd (resume_orphaned_issuance env now grace s)"
| "serve env now Do_retry s = snd (retry_failed_issuance env now s)"
| "serve env now (Do_exists tid) s = snd (exists_tunnel env now tid s)"
| "serve env now (Do_after_attach tid bid at) s = snd (after_attach env now tid bid at s)"
| "serve env now (Do_held tid) s = snd (held_routes now tid s)"
| "serve env now (Do_deleted tid) s = snd (close_deleted tid s)"
| "serve env now Do_deleted_all s = snd (close_deleted_tunnels env s)"
| "serve env now Do_drain s = drain s"
| "serve env now (Do_sweep in_use) s = sweep in_use now s"
| "serve env now (Do_expire tid) s = expire tid s"
| "serve env now Do_forget s = forget_cached_answers s"
| "serve env now (Do_invalidate tid) s = invalidate tid s"

text \<open>The events of a session and of a connection, beside its reads.\<close>

datatype session_event =
  On_read Next
| On_room
| On_stall "u32 list"
| On_keep_alive nat
| On_cancel
| On_written bool
| On_writer_gone

definition session_step :: "Env \<Rightarrow> (string \<Rightarrow> json option) \<Rightarrow> nat \<Rightarrow> nat \<Rightarrow> (string \<Rightarrow> string list \<Rightarrow> bool)
    \<Rightarrow> session_event \<Rightarrow> Session \<times> Service \<Rightarrow> Session \<times> Service"
  where "session_step env from_str now tick elsewhere ev = (\<lambda>(se, s).
    case ev of
      On_read n \<Rightarrow> read_step env from_str now tick elsewhere n (se, s)
    | On_room \<Rightarrow> wait_step tick (se, s)
    | On_stall conns \<Rightarrow> wait_deadline tick conns (se, s)
    | On_keep_alive wall \<Rightarrow> (se, if waiting se = None then s else keep_alive tick wall (bridge se) s)
    | On_cancel \<Rightarrow> wait_cancelled (se, s)
    | On_written sent \<Rightarrow> (se, snd (write_step tick sent (bridge se) s))
    | On_writer_gone \<Rightarrow> (se, writer_end (bridge se) s))"

datatype visitor_event = Up upload_event | Down download_event

definition visitor_step :: "nat \<Rightarrow> visitor_event \<Rightarrow> Visitor \<Rightarrow> Service \<Rightarrow> Visitor \<times> Service"
  where "visitor_step tick ev v s =
    (case ev of Up e \<Rightarrow> upload_step e v s | Down e \<Rightarrow> download_step tick e v s)"

inductive machine_step :: "Env \<Rightarrow> (string \<Rightarrow> json option) \<Rightarrow> Machine \<Rightarrow> Machine \<Rightarrow> bool"
  for env :: Env and from_str :: "string \<Rightarrow> json option"
where
  Serve: "machine_step env from_str m (m\<lparr>service := serve env now req (service m)\<rparr>)"
| Start: "run_start env now tick tid (service m) = (Some se, s) \<Longrightarrow>
    machine_step env from_str m (m\<lparr>service := s, sessions := (sessions m)(bridge se \<mapsto> se)\<rparr>)"
| Start_refused: "run_start env now tick tid (service m) = (None, s) \<Longrightarrow>
    machine_step env from_str m (m\<lparr>service := s\<rparr>)"
| Session: "sessions m b = Some se \<Longrightarrow>
    session_step env from_str now tick elsewhere ev (se, service m) = (se', s) \<Longrightarrow>
    machine_step env from_str m (m\<lparr>service := s, sessions := (sessions m)(b \<mapsto> se')\<rparr>)"
| Session_end: "sessions m b = Some se \<Longrightarrow> ended se \<noteq> None \<Longrightarrow>
    machine_step env from_str m (m\<lparr>service := run_end (se, service m), sessions := (sessions m)(b := None)\<rparr>)"
| Visit: "route_tunnel env now tick told acc origin (service m) = Some (Carried v, s) \<Longrightarrow>
    machine_step env from_str m (m\<lparr>service := s, carried := (carried m)(v_chan v \<mapsto> v)\<rparr>)"
| Visit_refused: "route_tunnel env now tick told acc origin (service m) = Some (r, s) \<Longrightarrow>
    \<forall>v. r \<noteq> Carried v \<Longrightarrow> machine_step env from_str m (m\<lparr>service := s\<rparr>)"
| Carry: "carried m ch = Some v \<Longrightarrow> visitor_step tick ev v (service m) = (v', s) \<Longrightarrow>
    machine_step env from_str m (m\<lparr>service := s, carried := (carried m)(ch \<mapsto> v')\<rparr>)"
| Leave: "carried m ch = Some v \<Longrightarrow> idle \<or> (\<not> uploading v \<and> \<not> downloading v) \<Longrightarrow>
    machine_step env from_str m
      (m\<lparr>service := snd (visitor_end tick idle v (service m)), carried := (carried m)(ch := None)\<rparr>)"

inductive machine_reach :: "Env \<Rightarrow> (string \<Rightarrow> json option) \<Rightarrow> Machine \<Rightarrow> Machine \<Rightarrow> bool"
  for env :: Env and from_str :: "string \<Rightarrow> json option"
where
  Here: "machine_reach env from_str m m"
| Next: "machine_reach env from_str m m1 \<Longrightarrow> machine_step env from_str m1 m2 \<Longrightarrow> machine_reach env from_str m m2"

definition machine_inv :: "Machine \<Rightarrow> bool"
  where "machine_inv m =
    (machine_ok (service m) \<and>
     (\<forall>b se. sessions m b = Some se \<longrightarrow> bridge se = b \<and>
        (\<forall>tid. b \<in> set (e_bridges (entry_at tid (service m))) \<longrightarrow> tid = tunnel se) \<and> b < next_bridge (service m)) \<and>
     (\<forall>ch v. carried m ch = Some v \<longrightarrow> v_chan v = ch \<and> slots (service m) ch = Some (v_bridge v, v_conn v)) \<and>
     (\<forall>ch. slots (service m) ch \<noteq> None \<longrightarrow> carried m ch \<noteq> None))"

text \<open>A machine that just started: no tunnel is loaded and nothing is connected.\<close>

definition machine_new :: "Machine \<Rightarrow> bool"
  where "machine_new m =
    (entries (service m) = [] \<and> slots (service m) = Map.empty \<and> next_bridge (service m) = 0 \<and>
     sessions m = Map.empty \<and> carried m = Map.empty)"


section \<open>Every step keeps the invariant\<close>

definition stays :: "Service \<Rightarrow> Service \<Rightarrow> bool"
  where "stays s s' =
    (slots s' = slots s \<and> next_bridge s' = next_bridge s \<and>
     (\<forall>t. set (e_bridges (entry_at t s')) \<subseteq> set (e_bridges (entry_at t s))))"

lemma calms_stays: "calms s s' \<Longrightarrow> stays s s'"
  using calms_mine by (auto simp: stays_def calms_def)

lemma stays_trans: "stays s s' \<Longrightarrow> stays s' s'' \<Longrightarrow> stays s s''"
  unfolding stays_def by (metis subset_trans)

lemma serve_keeps: "machine_ok s \<Longrightarrow> machine_ok (serve env now req s) \<and> stays s (serve env now req s)"
proof (cases "\<exists>in_use. req = Do_sweep in_use")
  case True
  assume ok: "machine_ok s"
  obtain in_use where req: "req = Do_sweep in_use" using True by blast
  define s1 where "s1 = fold (\<lambda>tid s. if e_bridges (entry_at tid s) = [] then s else retire_stale now tid s)
    (map fst (entries s)) s"
  have c: "calms s s1" unfolding s1_def by (rule calms_fold) (simp add: calms_retire_stale)
  have "calms s1 (collect_idle in_use now s1)"
    by (rule calms_collect_idle) (rule calms_machine_ok [OF c ok])
  with c ok show ?thesis
    unfolding req serve.simps sweep_def s1_def [symmetric]
    using calms_stays calms_trans calms_machine_ok by blast
next
  case False
  have "calms s (serve env now req s)"
    using False
    by (cases req) (simp_all add: calms_close_deleted calms_held_routes calms_drain calms_cache
        calm_intros [unfolded calm_def])
  then show "machine_ok s \<Longrightarrow> ?thesis" using calms_stays calms_machine_ok by blast
qed

lemma attach_keeps:
  assumes "attach env now elsewhere tid bid token rs limit s = (r, s')" "machine_ok s"
    "\<And>t. bid \<in> set (e_bridges (entry_at t s)) \<Longrightarrow> t = tid"
  shows "machine_ok s' \<and> stays s s'"
proof -
  have "stays s s'"
    using assms(1)
  proof (cases rule: attach_effect)
    case refused
    then show ?thesis by (simp add: calms_stays)
  next
    case (attached s1 rec sess at)
    have "stays s1 (attach_bridge now sess rs limit bid s1)"
      by (simp add: stays_def attach_bridge_fields)
    then show ?thesis using attached(1,11) calms_stays stays_trans by blast
  qed
  then show ?thesis using machine_ok_attach [OF assms(2,1)] assms(3) by blast
qed

text \<open>A step of a session with its own bridge.\<close>

definition session_keeps :: "Session \<times> Service \<Rightarrow> Session \<times> Service \<Rightarrow> bool"
  where "session_keeps = (\<lambda>(se, s) (se', s').
    bridge se' = bridge se \<and> tunnel se' = tunnel se \<and>
    (machine_ok s \<and> (\<forall>t. bridge se \<in> set (e_bridges (entry_at t s)) \<longrightarrow> t = tunnel se) \<longrightarrow>
       machine_ok s' \<and> stays s s'))"

lemma session_keeps_calms:
  "calms s s' \<Longrightarrow> bridge se' = bridge se \<Longrightarrow> tunnel se' = tunnel se \<Longrightarrow> session_keeps (se, s) (se', s')"
  using calms_machine_ok calms_stays by (auto simp: session_keeps_def)

lemma session_keeps_result:
  "calms s (snd r) \<Longrightarrow> bridge (fst r) = bridge se \<Longrightarrow> tunnel (fst r) = tunnel se \<Longrightarrow> session_keeps (se, s) r"
  by (cases r) (simp add: session_keeps_calms)

lemma session_keeps_trans:
  assumes "session_keeps a b" "session_keeps b c"
  shows "session_keeps a c"
proof -
  have "stays s s' \<Longrightarrow> \<forall>t. x \<in> set (e_bridges (entry_at t s)) \<longrightarrow> t = tid \<Longrightarrow>
      \<forall>t. x \<in> set (e_bridges (entry_at t s')) \<longrightarrow> t = tid" for s s' x tid
    unfolding stays_def by blast
  with assms show ?thesis
    unfolding session_keeps_def by (auto simp: split_beta intro: stays_trans)
qed

lemma session_keeps_attach: "session_keeps (se, s) (session_attach env now elsewhere control (se, s))"
proof (cases "json_str control ''type'' \<noteq> Some ''attach'' \<or> json_str control ''token'' = None \<or> too_many_routes control")
  case True
  then show ?thesis
    by (auto simp: session_attach_def Let_def intro!: session_keeps_calms calms_pieces calms_refuse)
next
  case False
  obtain r s1 where run: "attach env now elsewhere (tunnel se) (bridge se) (the (json_str control ''token''))
      (attach_routes control) (attach_max_conns control) s = (r, s1)" by (meson surj_pair)
  have one: "session_keeps (se, s) (se, s1)"
    unfolding session_keeps_def using attach_keeps [OF run] by auto
  have "session_keeps (se, s1) (session_attach env now elsewhere control (se, s))"
    using False run
    by (auto simp: session_attach_def Let_def intro!: session_keeps_calms calms_pieces calms_refuse
        split: sum.splits Attach.splits)
  with one show ?thesis by (rule session_keeps_trans)
qed

lemma data_session: "bridge (fst (data tick frame (se, s))) = bridge se" "tunnel (fst (data tick frame (se, s))) = tunnel se"
  by (simp_all add: data_def Let_def split: option.splits)

lemma handle_control_session: "fst (handle_control now control (se, s)) = se"
  by (simp add: handle_control_def Let_def split: option.splits)

lemma session_keeps_text: "session_keeps (se, s) (handle_text env from_str now elsewhere txt (se, s))"
proof (cases "option_filter is_control (from_str txt)")
  case (Some control)
  have "session_keeps (se, s) (handle_control now control (se, s))"
    by (rule session_keeps_result) (simp_all add: calms_handle_control handle_control_session)
  with Some show ?thesis by (simp add: handle_text_def session_keeps_attach)
qed (simp add: handle_text_def session_keeps_calms calms_pieces)

lemma wait_session:
  "bridge (fst (wait_step tick (se, s))) = bridge se" "tunnel (fst (wait_step tick (se, s))) = tunnel se"
  "bridge (fst (wait_deadline tick conns (se, s))) = bridge se"
  "tunnel (fst (wait_deadline tick conns (se, s))) = tunnel se"
  "bridge (fst (wait_cancelled (se, s))) = bridge se" "tunnel (fst (wait_cancelled (se, s))) = tunnel se"
  by (simp_all add: wait_step_def wait_deadline_def wait_cancelled_def Let_def split: option.splits)

lemma session_keeps_message:
  "session_keeps (se, s) (handle_message env from_str now tick elsewhere m (se, s))"
proof -
  let ?s = "on_bridge (touch now) (bridge se) s"
  have touch: "session_keeps (se, s) (se, ?s)" by (simp add: session_keeps_calms calms_pieces)
  have "session_keeps (se, s) (data tick frame (se, ?s))" for frame
    by (rule session_keeps_trans [OF touch]) (rule session_keeps_result; simp add: calms_data data_session)
  moreover have "session_keeps (se, s) (handle_text env from_str now elsewhere msg (se, ?s))" for msg
    by (rule session_keeps_trans [OF touch session_keeps_text])
  ultimately show ?thesis
    using touch
    by (auto simp: handle_message_def Let_def session_keeps_calms calms_pieces
        intro!: session_keeps_calms calms_trans [OF calms_pieces(3) calms_pieces(4)] split: Message.splits)
qed

lemma session_keeps_step:
  "session_keeps (se, s) (session_step env from_str now tick elsewhere ev (se, s))"
proof (cases ev)
  case (On_read n)
  then show ?thesis
    by (auto simp: session_step_def read_step_def session_keeps_message session_keeps_calms calms_pieces
        split: Next.splits)
qed (auto simp: session_step_def intro!: session_keeps_result
    simp: calms_wait calms_wait_deadline calms_keep_alive calms_write_step calms_writer_end wait_session)

section \<open>Carried connections keep their slot\<close>

lemma visitor_step_effect:
  "visitor_step tick ev v s = (v', s') \<Longrightarrow>
   calms s s' \<and> v_chan v' = v_chan v \<and> v_bridge v' = v_bridge v \<and> v_conn v' = v_conn v"
proof -
  assume run: "visitor_step tick ev v s = (v', s')"
  have "calms s (snd (visitor_step tick ev v s))"
    by (simp add: visitor_step_def calms_upload_step calms_download_step split: visitor_event.splits)
  moreover have "v_chan v' = v_chan v \<and> v_bridge v' = v_bridge v \<and> v_conn v' = v_conn v"
    using run by (auto simp: visitor_step_def upload_step_def download_step_def upload_room_def stop_upload_def
        stop_download_def Let_def split: visitor_event.splits upload_event.splits download_event.splits
        if_splits option.splits Hold.splits list.splits Inbound.splits)
  ultimately show ?thesis using run by simp
qed

lemma remove_channel_slots: "slots (remove_channel b c s) = slots s" "slots (finish_chan out ab ch s) = slots s"
  "bridge_heap (finish_chan out ab ch s) = bridge_heap s"
  "channels (bridge_heap (remove_channel b c s) b) c = None"
  by (simp_all add: remove_channel_def finish_chan_def on_bridge_def set_bridge_def on_chan_def)

lemma visitor_end_effect:
  assumes ok: "machine_ok s" and sl: "slots s (v_chan v) = Some (v_bridge v, v_conn v)"
  obtains s1 where "calms s s1" "snd (visitor_end tick idle v s) = drop_slot (v_chan v) s1"
    "machine_ok (drop_slot (v_chan v) s1)" "slots s1 (v_chan v) = Some (v_bridge v, v_conn v)"
proof -
  obtain w s0 where w: "(if idle then let (v, s) = stop_upload v s in stop_download tick v s else (v, s)) = (w, s0)"
    by (meson surj_pair)
  have same: "v_chan w = v_chan v" "v_bridge w = v_bridge v" "v_conn w = v_conn v"
    using w by (auto simp: stop_upload_def stop_download_def Let_def split: if_splits)
  have c0: "calms s s0"
  proof (cases idle)
    case True
    obtain v1 s1 where u: "stop_upload v s = (v1, s1)" by (meson surj_pair)
    with calms_stop_upload [of s v] calms_stop_download [of s1 tick v1] w True show ?thesis
      by (auto intro: calms_trans)
  qed (use w in simp)
  define s1 where "s1 = finish_chan Closed False (v_chan v) (remove_channel (v_bridge v) (v_conn v)
    (if idle then client_io_error w s0 else s0))"
  have c: "calms s s1"
    unfolding s1_def using c0
    by (auto intro: calms_trans [OF _ calms_trans [OF calms_pieces(5) calms_pieces(6)]]
        calms_trans [OF calms_trans [OF _ calms_client_io_error] calms_trans [OF calms_pieces(5) calms_pieces(6)]])
  have end1: "snd (visitor_end tick idle v s) = drop_slot (v_chan v) s1"
    unfolding visitor_end_def s1_def by (simp add: w Let_def same)
  have sl1: "slots s1 (v_chan v) = Some (v_bridge v, v_conn v)" using c sl by (simp add: calms_def)
  have "machine_ok (drop_slot (v_chan v) s1)"
    by (rule machine_ok_drop_slot [OF calms_machine_ok [OF c ok] sl1])
      (simp add: s1_def remove_channel_slots)
  with c end1 sl1 show thesis by (intro that)
qed


lemma route_tunnel_keeps:
  assumes ok: "machine_ok s" and run: "route_tunnel env now tick told acc origin s = Some (r, s')"
  shows "machine_ok s' \<and> next_bridge s' = next_bridge s \<and>
    (\<forall>t. set (e_bridges (entry_at t s')) \<subseteq> set (e_bridges (entry_at t s))) \<and>
    (\<forall>ch. slots s ch \<noteq> None \<longrightarrow> slots s' ch = slots s ch) \<and>
    (\<forall>ch. slots s' ch \<noteq> None \<longrightarrow> slots s ch \<noteq> None \<or> (\<exists>v. r = Carried v \<and> v_chan v = ch)) \<and>
    (\<forall>v. r = Carried v \<longrightarrow> slots s' (v_chan v) = Some (v_bridge v, v_conn v))"
proof (cases "tunnel_id (acc_sni acc) (domain s)")
  case None
  with run ok show ?thesis by (auto simp: route_tunnel_def)
next
  case (Some tid)
  obtain q s1 where route: "route env now tick tid (acc_sni acc) s = Some (q, s1)"
    using run Some by (auto simp: route_tunnel_def split: option.splits)
  have ok1: "machine_ok s1" by (rule machine_ok_route [OF ok route])
  show ?thesis
    using route
  proof (cases rule: route_effect)
    case rejected
    then have "s' = s1 \<and> (\<forall>v. r \<noteq> Carried v)"
      using run Some route
      by (auto simp: route_tunnel_def split: sum.splits Route.splits Origin.splits option.splits if_splits)
    then show ?thesis using ok1 calms_stays [OF rejected(1)] by (auto simp: stays_def)
  next
    case (opened s0 rec wanted bid conn n)
    let ?ch = "next_chan s0"
    have s1: "slots s1 = (slots s)(?ch \<mapsto> (bid, conn))" "next_bridge s1 = next_bridge s"
      "\<forall>t. set (e_bridges (entry_at t s1)) \<subseteq> set (e_bridges (entry_at t s))" "slots s ?ch = None"
    proof -
      show "slots s1 = (slots s)(?ch \<mapsto> (bid, conn))" "next_bridge s1 = next_bridge s"
        "\<forall>t. set (e_bridges (entry_at t s1)) \<subseteq> set (e_bridges (entry_at t s))"
        using calms_stays [OF opened(1)] unfolding opened(10) by (simp_all add: stays_def open_channel_fields)
      have "next_chan s0 = next_chan s" using opened(1) by (simp add: calms_def)
      then show "slots s ?ch = None"
        using ok unfolding machine_ok_def by (metis nat_neq_iff not_None_eq surj_pair)
    qed
    define gone where "gone = on_chan (\<lambda>c. c\<lparr>rx_open := False\<rparr>) ?ch (remove_channel bid conn s1)"
    have g: "calms s1 gone" "slots gone = slots s1"
      unfolding gone_def by (rule calms_trans [OF calms_pieces(5) calms_on_chan])
        (simp add: on_chan_def remove_channel_slots)
    have gs: "slots gone ?ch = Some (bid, conn)" by (simp add: g(2) s1(1))
    have left: "channels (bridge_heap gone bid) conn \<noteq> Some ?ch"
      by (simp add: gone_def on_chan_def remove_channel_slots)
    note d = drop_slot_fields [OF gs] machine_ok_drop_slot [OF calms_machine_ok [OF g(1) ok1] gs left]
    define v where "v = \<lparr>v_bridge = bid, v_conn = conn, v_chan = ?ch, uploading = True,
      downloading = True, holding = None, writing = None\<rparr>"
    have "(if origin = Forwarded \<and> \<not> told then Some (Forwarder_gone, drop_slot ?ch gone)
        else Some (Carried v, on_bridge (carry_open conn acc) bid s1)) = Some (r, s')"
      using run unfolding route_tunnel_def Some route opened(9) gone_def v_def option.case sum.case prod.case Route.case .
    then consider "r = Forwarder_gone" "s' = drop_slot ?ch gone"
      | "r = Carried v" "s' = on_bridge (carry_open conn acc) bid s1"
      by (cases "origin = Forwarded \<and> \<not> told") auto
    then show ?thesis
    proof cases
      case 1
      then show ?thesis
        using d(10) s1 calms_stays [OF g(1)] by (auto simp: stays_def d(1,2,6) split: if_splits)
    next
      case 2
      then have v: "r = Carried v" "v_chan v = ?ch" "v_bridge v = bid" "v_conn v = conn"
        and s': "s' = on_bridge (carry_open conn acc) bid s1" by (simp_all add: v_def)
      have c: "calms s1 s'" unfolding s' by (rule calms_carry_open)
      from calms_stays [OF c] have st: "slots s' = slots s1" "next_bridge s' = next_bridge s1"
        "\<And>t. set (e_bridges (entry_at t s')) \<subseteq> set (e_bridges (entry_at t s1))" by (simp_all add: stays_def)
      have "set (e_bridges (entry_at t s')) \<subseteq> set (e_bridges (entry_at t s))" for t
        using st(3) [of t] s1(3) by blast
      then show ?thesis using calms_machine_ok [OF c ok1] s1(1,2,4) v st(1,2) by (auto split: if_splits)
    qed
  qed
qed

lemma run_start_keeps:
  assumes ok: "machine_ok s" and run: "run_start env now tick tid s = (q, s')"
  shows "machine_ok s' \<and> slots s' = slots s \<and> next_bridge s \<le> next_bridge s' \<and>
    (\<forall>t b. b \<in> set (e_bridges (entry_at t s')) \<longrightarrow> b \<in> set (e_bridges (entry_at t s)) \<or> b = next_bridge s) \<and>
    (\<forall>se. q = Some se \<longrightarrow> bridge se = next_bridge s \<and> tunnel se = tid \<and> bridge se < next_bridge s' \<and>
      (\<forall>t. bridge se \<in> set (e_bridges (entry_at t s')) \<longrightarrow> t = tid))"
proof -
  obtain r where reg: "register_bridge env now tick tid s = (r, s')"
    and q: "q = (case r of Inr (Some bid) \<Rightarrow> Some (session_start tid bid) | _ \<Rightarrow> None)"
    using run by (auto simp: run_start_def split: prod.splits sum.splits option.splits)
  obtain s1 b where c: "calms s s1" and s': "s' = s1 \<and> (\<forall>bid. r \<noteq> Inr (Some bid)) \<or>
    s' = add_bridge tid b s1 \<and> r = Inr (Some (next_bridge s1)) \<and> fades (new_bridge now tick) b"
    using register_bridge_adds [OF reg] .
  have same: "slots s1 = slots s" "next_bridge s1 = next_bridge s" using c by (simp_all add: calms_def)
  have old: "x < next_bridge s" if "x \<in> set (e_bridges (entry_at t s1))" for x t
    using ok calms_mine [OF c that] by (auto simp: machine_ok_def tunnel_ok_def)
  have ok': "machine_ok s'" by (rule machine_ok_register [OF ok reg])
  show ?thesis
    using s'
  proof
    assume "s' = s1 \<and> (\<forall>bid. r \<noteq> Inr (Some bid))"
    then show ?thesis using ok' same q calms_mine [OF c] by (auto split: sum.splits option.splits)
  next
    assume "s' = add_bridge tid b s1 \<and> r = Inr (Some (next_bridge s1)) \<and> fades (new_bridge now tick) b"
    then show ?thesis
      using ok' same q calms_mine [OF c] old [of "next_bridge s"]
      by (auto simp: add_bridge_fields session_start_def split: if_splits)
  qed
qed

lemma machine_inv_change:
  assumes inv: "machine_inv m" and ok: "machine_ok (service m')"
    and grows: "next_bridge (service m) \<le> next_bridge (service m')"
    and lists: "\<And>t b. b \<in> set (e_bridges (entry_at t (service m'))) \<Longrightarrow> b < next_bridge (service m) \<Longrightarrow>
      b \<in> set (e_bridges (entry_at t (service m)))"
    and sess: "\<And>b se. sessions m' b = Some se \<Longrightarrow>
      (\<exists>se0. sessions m b = Some se0 \<and> bridge se = bridge se0 \<and> tunnel se = tunnel se0) \<or>
      (bridge se = b \<and> b < next_bridge (service m') \<and>
        (\<forall>t. b \<in> set (e_bridges (entry_at t (service m'))) \<longrightarrow> t = tunnel se))"
    and slot: "\<And>ch v. carried m' ch = Some v \<Longrightarrow>
      v_chan v = ch \<and> slots (service m') ch = Some (v_bridge v, v_conn v)"
    and owned: "\<And>ch. slots (service m') ch \<noteq> None \<Longrightarrow> carried m' ch \<noteq> None"
  shows "machine_inv m'"
proof -
  have "bridge se = b \<and> (\<forall>t. b \<in> set (e_bridges (entry_at t (service m'))) \<longrightarrow> t = tunnel se) \<and>
      b < next_bridge (service m')" if se: "sessions m' b = Some se" for b se
    using sess [OF se]
  proof
    assume "\<exists>se0. sessions m b = Some se0 \<and> bridge se = bridge se0 \<and> tunnel se = tunnel se0"
    then obtain se0 where old: "sessions m b = Some se0" "bridge se = bridge se0" "tunnel se = tunnel se0" by blast
    have "bridge se0 = b" "b < next_bridge (service m)"
      and mine: "\<And>t. b \<in> set (e_bridges (entry_at t (service m))) \<Longrightarrow> t = tunnel se0"
      using inv old(1) unfolding machine_inv_def by blast+
    with old(2,3) grows lists [of b] show ?thesis by auto
  qed blast
  then show ?thesis unfolding machine_inv_def using ok slot owned by blast
qed

lemma machine_inv_parts:
  assumes "machine_inv m"
  shows "machine_ok (service m)"
    and "sessions m b = Some se \<Longrightarrow> bridge se = b"
    and "sessions m b = Some se \<Longrightarrow> b \<in> set (e_bridges (entry_at t (service m))) \<Longrightarrow> t = tunnel se"
    and "carried m ch = Some v \<Longrightarrow> v_chan v = ch"
    and "carried m ch = Some v \<Longrightarrow> slots (service m) ch = Some (v_bridge v, v_conn v)"
    and "slots (service m) ch = Some x \<Longrightarrow> \<exists>v. carried m ch = Some v"
  using assms by (auto simp: machine_inv_def)

lemma machine_inv_stays:
  assumes inv: "machine_inv m" and "machine_ok s" "stays (service m) s" "m' = m\<lparr>service := s\<rparr>"
  shows "machine_inv m'"
  using assms machine_inv_parts [OF inv]
  by (intro machine_inv_change [OF inv]) (auto simp: stays_def)

lemma machine_inv_sessions:
  assumes inv: "machine_inv m"
    and "\<And>b se. q b = Some se \<Longrightarrow> \<exists>se0. sessions m b = Some se0 \<and> bridge se = bridge se0 \<and> tunnel se = tunnel se0"
    and "\<And>ch v. r ch = Some v \<Longrightarrow> v_chan v = ch \<and> slots (service m) ch = Some (v_bridge v, v_conn v)"
    and "\<And>ch x. slots (service m) ch = Some x \<Longrightarrow> r ch \<noteq> None"
  shows "machine_inv (m\<lparr>sessions := q, carried := r\<rparr>)"
  using assms machine_inv_parts(1) [OF inv] by (intro machine_inv_change [OF inv]) auto

lemma machine_step_inv:
  assumes step: "machine_step env from_str m m'" and inv: "machine_inv m"
  shows "machine_inv m'"
  using step
proof cases
  case (Serve now req)
  then show ?thesis
    using serve_keeps [OF machine_inv_parts(1) [OF inv], of env now req] by (auto intro: machine_inv_stays [OF inv])
next
  case (Start now tick tid se s)
  note k = run_start_keeps [OF machine_inv_parts(1) [OF inv] Start(2)]
  show ?thesis unfolding Start(1)
    by (rule machine_inv_change [OF inv]) (use k machine_inv_parts [OF inv] in \<open>auto split: if_splits\<close>)
next
  case (Start_refused now tick tid s)
  note k = run_start_keeps [OF machine_inv_parts(1) [OF inv] Start_refused(2)]
  show ?thesis unfolding Start_refused(1)
    by (rule machine_inv_change [OF inv]) (use k machine_inv_parts [OF inv] in \<open>auto split: if_splits\<close>)
next
  case (Session b se now tick elsewhere ev se' s)
  have k: "session_keeps (se, service m) (se', s)"
    using session_keeps_step [of se "service m" env from_str now tick elsewhere ev] Session(3) by simp
  moreover have "bridge se = b" "\<And>t. b \<in> set (e_bridges (entry_at t (service m))) \<Longrightarrow> t = tunnel se"
    using machine_inv_parts [OF inv] Session(2) by auto
  ultimately have "machine_ok s" "stays (service m) s" and same: "bridge se' = bridge se" "tunnel se' = tunnel se"
    using machine_inv_parts(1) [OF inv] by (auto simp: session_keeps_def)
  then have one: "machine_inv (m\<lparr>service := s\<rparr>)" by (auto intro: machine_inv_stays [OF inv])
  have "m' = m\<lparr>service := s\<rparr>\<lparr>sessions := (sessions m)(b \<mapsto> se'), carried := carried m\<rparr>"
    unfolding Session(1) by simp
  then show ?thesis
    by (simp only:) (rule machine_inv_sessions [OF one];
        use machine_inv_parts [OF one] same Session(2) in \<open>auto split: if_splits\<close>)
next
  case (Session_end b se)
  have c: "calms (service m) (run_end (se, service m))" by (simp add: run_end_def calms_bridge_closed)
  have one: "machine_inv (m\<lparr>service := run_end (se, service m)\<rparr>)"
    using calms_machine_ok [OF c machine_inv_parts(1) [OF inv]] calms_stays [OF c]
    by (auto intro: machine_inv_stays [OF inv])
  have "m' = m\<lparr>service := run_end (se, service m)\<rparr>\<lparr>sessions := (sessions m)(b := None), carried := carried m\<rparr>"
    unfolding Session_end(1) by simp
  then show ?thesis
    by (simp only:) (rule machine_inv_sessions [OF one];
        use machine_inv_parts [OF one] in \<open>auto split: if_splits\<close>)
next
  case (Visit now tick told acc origin v s)
  note k = route_tunnel_keeps [OF machine_inv_parts(1) [OF inv] Visit(2)]
  have "carried m ch \<noteq> None" if "slots s ch \<noteq> None" "ch \<noteq> v_chan v" for ch
  proof -
    have "slots (service m) ch \<noteq> None" using k that by blast
    then show ?thesis using machine_inv_parts(6) [OF inv, of ch] by blast
  qed
  with k machine_inv_parts(1-5) [OF inv] show ?thesis unfolding Visit(1)
    by (intro machine_inv_change [OF inv]) (auto split: if_splits)
next
  case (Visit_refused now tick told acc origin r s)
  note k = route_tunnel_keeps [OF machine_inv_parts(1) [OF inv] Visit_refused(2)]
  have "carried m ch \<noteq> None" if "slots s ch \<noteq> None" for ch
  proof -
    have "slots (service m) ch \<noteq> None" using k that Visit_refused(3) by blast
    then show ?thesis using machine_inv_parts(6) [OF inv, of ch] by blast
  qed
  with k machine_inv_parts(1-5) [OF inv] show ?thesis unfolding Visit_refused(1)
    by (intro machine_inv_change [OF inv]) auto
next
  case (Carry ch v tick ev v' s)
  have e: "calms (service m) s" and same: "v_chan v' = v_chan v" "v_bridge v' = v_bridge v" "v_conn v' = v_conn v"
    using visitor_step_effect [OF Carry(3)] by auto
  have one: "machine_inv (m\<lparr>service := s\<rparr>)"
    using calms_machine_ok [OF e machine_inv_parts(1) [OF inv]] calms_stays [OF e]
    by (auto intro: machine_inv_stays [OF inv])
  have "m' = m\<lparr>service := s\<rparr>\<lparr>sessions := sessions m, carried := (carried m)(ch \<mapsto> v')\<rparr>"
    unfolding Carry(1) by simp
  then show ?thesis
    by (simp only:) (rule machine_inv_sessions [OF one];
        use machine_inv_parts [OF one] same Carry(2) in \<open>auto split: if_splits\<close>)
next
  case (Leave ch v idle tick)
  have ch: "v_chan v = ch" "slots (service m) ch = Some (v_bridge v, v_conn v)"
    using machine_inv_parts(4,5) [OF inv Leave(2)] by simp_all
  obtain s1 where s1: "calms (service m) s1"
    "snd (visitor_end tick idle v (service m)) = drop_slot ch s1" "machine_ok (drop_slot ch s1)"
    "slots s1 ch = Some (v_bridge v, v_conn v)"
    using visitor_end_effect [OF machine_inv_parts(1) [OF inv], of v tick idle] ch by metis
  show ?thesis unfolding Leave(1) s1(2)
    by (rule machine_inv_change [OF inv])
      (use drop_slot_fields [OF s1(4)] s1(3) calms_stays [OF s1(1)] machine_inv_parts [OF inv]
        in \<open>auto simp: stays_def split: if_splits\<close>)
qed

lemma machine_new_inv: "machine_new m \<Longrightarrow> machine_inv m"
  by (simp add: machine_new_def machine_inv_def machine_ok_def tunnel_ok_def entry_at_def EntryState_default_def)

lemma machine_reach_inv: "machine_reach env from_str m m' \<Longrightarrow> machine_new m \<Longrightarrow> machine_inv m'"
  by (induction rule: machine_reach.induct) (auto intro: machine_new_inv machine_step_inv)

end
