(* ===== verification/Machine_Example.thy ===== *)
theory Machine_Example
  imports Machine_Runs Store_Safety
begin

text \<open>
  A machine with one tunnel in its database, run until its bridge is attached and a visitor is
  connected: the state the witnesses of \<open>Machine_Properties\<close> use.
\<close>

section \<open>A machine with one tunnel\<close>

definition example_record :: StoredTunnel
  where "example_record = \<lparr>record_version = 1, ident = ''t'', hostname = ''t.x.dev'', tstate = Offline,
    certificate_id = Some ''c'', token_hash = ''6b'', created_at = [], deleted_at = None,
    certificate = Some \<lparr>cert_id = ''c'', cert_state = Ready [] [] []\<rparr>, certificate_csr = None,
    certificate_identifiers = None, certificate_started_at = None, last_connected_at = None, renewal = None\<rparr>"

definition example_env :: Env
  where "example_env = \<lparr>db_world = quiet, rate_world = (\<lambda>_ r. Some r), sha256 = (\<lambda>bs. bs),
    decode_csr = (\<lambda>_. None), iso = (\<lambda>_. []), parse_iso = (\<lambda>_. None), random = (\<lambda>_. replicate 16 0),
    error_text = (\<lambda>_. [])\<rparr>"

definition example_service :: Service
  where "example_service = \<lparr>domain = ''x.dev'', sv_store = (0, snd (insert_tunnel example_record 5 empty_db)),
    sv_rates = Map.empty, entries = [], bridge_heap = (\<lambda>_. new_bridge 0 0), chan_heap = (\<lambda>_. new_channel 0),
    next_bridge = 0, next_chan = 0, clustered = False, mesh_complete = False, mesh_calls = [],
    sv_limits = None, refresh_failed_at = 0, generation = 0, draining = False,
    bridge_limits = BridgeLimits_default, buffer_free = 1024, slots = Map.empty, uuids = 0\<rparr>"

definition example_machine :: Machine
  where "example_machine = \<lparr>service = example_service, sessions = Map.empty, carried = Map.empty\<rparr>"

definition example_attach :: json
  where "example_attach = JObject [(''type'', JString ''attach''), (''token'', JString ''k'')]"

section \<open>Locking, when nothing fails\<close>

lemma entry_twice [simp]: "entry tid (entry tid s) = entry tid s"
  by (simp add: entry_def set_entry_def entry_at_def update_conv' update_triv split: option.splits)

lemma lock_loaded: "loaded_entry (entry_at tid s) \<Longrightarrow> lock env now tid s = (Ok (), entry tid s)"
  by (simp add: lock_def sv_defs)

lemma lock_loads:
  assumes "\<not> loaded_entry (entry_at tid s)"
    and "tunnel_with_alarm (db_world env) tid (sv_store s) = (Ok found, st)"
  shows "lock env now tid s = (Ok (), set_entry tid (load_snapshot now (generation s) found (entry_at tid s))
    ((entry tid s)\<lparr>sv_store := st\<rparr>))"
  using assms by (simp add: lock_def sv_defs)

lemma lock_routable_alone: "\<not> clustered s \<Longrightarrow> lock_routable env now tid s = lock env now tid (entry tid s)"
  by (simp add: lock_routable_def sv_defs)

lemma lock_for_attach_alone:
  "\<not> clustered s \<Longrightarrow> loaded_entry (entry_at tid s) \<Longrightarrow>
   lock_for_attach env now tid s = (Ok None, entry tid s)"
  by (simp add: lock_for_attach_def sv_defs lock_loaded [unfolded sv_defs])

lemma example_db:
  "tunnel_with_alarm quiet ''t'' (sv_store example_service) =
    (Ok (Some \<lparr>loaded = \<lparr>loaded_record = example_record, loaded_revision = 1\<rparr>, snapshot_alarm = None\<rparr>),
     1, snd (insert_tunnel example_record 5 empty_db))"
  by (simp add: tunnel_with_alarm_def example_service_def insert_tunnel_def insert_row_def empty_db_def
      example_record_def select_def snapshot_of_def)

definition example_loaded :: Service
  where "example_loaded = snd (lock example_env 0 ''t'' (entry ''t'' example_service))"

lemma example_lock: "lock_routable example_env 0 ''t'' example_service = (Ok (), example_loaded)"
  "loaded_entry (entry_at ''t'' example_loaded)" "live_record (entry_at ''t'' example_loaded) = Some example_record"
  "e_bridges (entry_at ''t'' example_loaded) = []" "\<not> clustered example_loaded" "\<not> draining example_loaded"
  "next_bridge example_loaded = 0" "uuids example_loaded = 0" "e_sequence (entry_at ''t'' example_loaded) = 0"
  "bridge_limits example_loaded = BridgeLimits_default" "domain example_loaded = ''x.dev''"
proof -
  have c: "\<not> clustered example_service" "entry_at ''t'' example_service = EntryState_default" "\<not> loaded_entry EntryState_default"
    by (simp_all add: example_service_def entry_at_def EntryState_default_def)
  have "tunnel_with_alarm (db_world example_env) ''t'' (sv_store (entry ''t'' example_service)) =
      (Ok (Some \<lparr>loaded = \<lparr>loaded_record = example_record, loaded_revision = 1\<rparr>, snapshot_alarm = None\<rparr>),
       1, snd (insert_tunnel example_record 5 empty_db))"
    using example_db by (simp add: example_env_def)
  note l = lock_loads [OF _ this, of 0]
  show "lock_routable example_env 0 ''t'' example_service = (Ok (), example_loaded)"
    using l c by (simp add: lock_routable_alone example_loaded_def)
  show "loaded_entry (entry_at ''t'' example_loaded)" "live_record (entry_at ''t'' example_loaded) = Some example_record"
    "e_bridges (entry_at ''t'' example_loaded) = []" "\<not> clustered example_loaded" "\<not> draining example_loaded"
    "next_bridge example_loaded = 0" "uuids example_loaded = 0" "e_sequence (entry_at ''t'' example_loaded) = 0"
    "bridge_limits example_loaded = BridgeLimits_default" "domain example_loaded = ''x.dev''"
    unfolding example_loaded_def using l c
    by (simp_all add: load_snapshot_def live_record_def example_record_def is_deleted_def option_filter_def
        EntryState_default_def example_service_def)
qed


definition example_registered :: Service
  where "example_registered = add_bridge ''t'' (new_bridge 0 0) example_loaded"

lemma example_start: "run_start example_env 0 0 ''t'' example_service = (Some (session_start ''t'' 0), example_registered)"
  using example_lock
  by (simp add: run_start_def register_bridge_def sv_bind_def Let_def example_registered_def add_bridge_def)

lemma retire_stale_seen:
  assumes "\<And>b. b \<in> set (e_bridges (entry_at tid s)) \<Longrightarrow> now - seen_at (bridge_heap s b) \<le> STALE_BRIDGE_MS"
  shows "retire_stale now tid s = s"
proof -
  have "fold (retire_bridge now t) bs s = s"
    if "\<And>b. b \<in> set bs \<Longrightarrow> now - seen_at (bridge_heap s b) \<le> STALE_BRIDGE_MS" for bs t
    using that by (induction bs) (simp_all add: retire_bridge_def Let_def)
  with assms show ?thesis by (simp add: retire_stale_def Let_def)
qed


lemma entry_at_add_bridge:
  "entry_at t (add_bridge tid b s) =
    (if t = tid then (entry_at tid s)\<lparr>e_bridges := e_bridges (entry_at tid s) @ [next_bridge s]\<rparr> else entry_at t s)"
  "clustered (add_bridge tid b s) = clustered s" "uuids (add_bridge tid b s) = uuids s"
  "domain (add_bridge tid b s) = domain s"
  by (simp_all add: add_bridge_def set_bridge_def)

lemma on_bridge_others [simp]:
  "clustered (on_bridge f bid s) = clustered s" "uuids (on_bridge f bid s) = uuids s"
  "bridge_heap (on_bridge f bid s) = (bridge_heap s)(bid := f (bridge_heap s bid))"
  "domain (on_bridge f bid s) = domain s" "bridge_limits (on_bridge f bid s) = bridge_limits s"
  by (simp_all add: on_bridge_def set_bridge_def)

definition example_touched :: Service
  where "example_touched = on_bridge (touch 0) 0 example_registered"

lemma example_touched_facts:
  "loaded_entry (entry_at ''t'' example_touched)" "live_record (entry_at ''t'' example_touched) = Some example_record"
  "e_bridges (entry_at ''t'' example_touched) = [0]" "\<not> clustered example_touched" "uuids example_touched = 0"
  "bridge_heap example_touched 0 = new_bridge 0 0" "e_sequence (entry_at ''t'' example_touched) = 0"
  "bridge_limits example_touched = BridgeLimits_default" "domain example_touched = ''x.dev''"
  using example_lock
  by (simp_all add: example_touched_def example_registered_def entry_at_add_bridge live_record_def
      add_bridge_fields touch_def new_bridge_def)

lemma example_uuid: "\<exists>u. uuid (random example_env n) = Some u"
  by (simp add: example_env_def uuid_def slice_def length_hex_bytes Let_def)

lemma example_attach_runs:
  obtains sess s where "attach example_env 0 (\<lambda>_ _. False) ''t'' 0 ''k'' [''@''] None example_touched =
      (Ok (Attached sess [''@''] None), s)"
    "bridge_heap s 0 = touch 0 ((new_bridge 0 0)\<lparr>bstate := attach_state 0 sess [''@''] None BridgeState_default\<rparr>)"
    "entry_at ''t'' s = entry_at ''t'' example_touched" "\<not> clustered s"
    "bridge_limits s = BridgeLimits_default" "domain s = ''x.dev''"
proof -
  obtain u where u: "uuid (random example_env 0) = Some u" using example_uuid by blast
  let ?s0 = "entry ''t'' example_touched"
  have l: "lock_for_attach example_env 0 ''t'' example_touched = (Ok None, ?s0)"
    using example_touched_facts by (intro lock_for_attach_alone) auto
  have r: "?s0 = retire_stale 0 ''t'' ?s0"
    using example_touched_facts by (simp add: retire_stale_seen STALE_BRIDGE_MS_def)
  have tok: "token_matches (sha256 example_env) ''k'' (token_hash example_record)"
    by (simp add: token_matches_iff example_env_def example_record_def hash_token_def hex_bytes_def) code_simp
  have "attach example_env 0 (\<lambda>_ _. False) ''t'' 0 ''k'' [''@''] None example_touched =
    sv_bind (announce (Mesh_attached ''t'' 0 [''@''] 0)) (\<lambda>_. sv_return (Attached (''sess_'' @ u) [''@''] None))
      (attach_bridge 0 (''sess_'' @ u) [''@''] None 0 (?s0\<lparr>uuids := Suc (uuids ?s0)\<rparr>))"
    using example_touched_facts tok u
    by (intro attach_runs [OF l _ _ _ _ _ r])
      (auto simp: certificate_ready_def ready_expiry_def example_record_def is_valid_route_def ROOT_ROUTE_def
        held_count_eq route_conflict_def claims_def MAX_TUNNEL_ROUTES_def routes_held_def new_bridge_def
        is_attached_def BridgeState_default_def)
  then show thesis
    using example_touched_facts
    by (intro that [of "''sess_'' @ u" "attach_bridge 0 (''sess_'' @ u) [''@''] None 0 (?s0\<lparr>uuids := Suc (uuids ?s0)\<rparr>)"])
      (simp_all add: sv_bind_def announce_def sv_modify_def sv_return_def attach_bridge_def new_bridge_def)
qed


definition example_json :: "string \<Rightarrow> json option"
  where "example_json = (\<lambda>_. Some example_attach)"

lemma example_attached:
  obtains se s where "session_step example_env example_json 0 0 (\<lambda>_ _. False) (On_read (Got (MText [])))
      (session_start ''t'' 0, example_registered) = (se, s)"
    "claims (bridge_heap s 0) ''@''" "visitors (bridge_heap s 0) = 0" "channels (bridge_heap s 0) = Map.empty"
    "seen_at (bridge_heap s 0) = 0" "conns_wanted (bstate (bridge_heap s 0)) = None"
    "entry_at ''t'' s = entry_at ''t'' example_touched" "\<not> clustered s"
    "bridge_limits s = BridgeLimits_default" "domain s = ''x.dev''" "s_attached se"
proof -
  obtain sess s where a: "attach example_env 0 (\<lambda>_ _. False) ''t'' 0 ''k'' [''@''] None example_touched =
      (Ok (Attached sess [''@''] None), s)"
    "bridge_heap s 0 = touch 0 ((new_bridge 0 0)\<lparr>bstate := attach_state 0 sess [''@''] None BridgeState_default\<rparr>)"
    "entry_at ''t'' s = entry_at ''t'' example_touched" "\<not> clustered s"
    "bridge_limits s = BridgeLimits_default" "domain s = ''x.dev''"
    by (rule example_attach_runs)
  have j: "option_filter is_control (example_json []) = Some example_attach" "json_str example_attach ''type'' = Some ''attach''"
    "json_str example_attach ''token'' = Some ''k''" "attach_routes example_attach = [''@'']"
    "attach_max_conns example_attach = None" "\<not> too_many_routes example_attach"
    by (simp_all add: example_json_def example_attach_def is_control_def json_str_def attach_routes_def
        attach_max_conns_def too_many_routes_def option_filter_def)
  have open_bridge: "\<not> is_closing (bridge_heap example_registered 0)"
    using example_lock(7) by (simp add: example_registered_def add_bridge_fields is_closing_def new_bridge_def BridgeState_default_def)
  have "session_step example_env example_json 0 0 (\<lambda>_ _. False) (On_read (Got (MText [])))
      (session_start ''t'' 0, example_registered) =
    session_attach example_env 0 (\<lambda>_ _. False) example_attach (session_start ''t'' 0, example_touched)"
    using open_bridge j(1)
    by (simp add: session_step_def read_step_def handle_message_def handle_text_def session_start_def example_touched_def)
  then have step: "session_step example_env example_json 0 0 (\<lambda>_ _. False) (On_read (Got (MText [])))
      (session_start ''t'' 0, example_registered) =
    ((session_start ''t'' 0)\<lparr>s_attached := True, s_max_message := MAX_FRAME, followup := Some None\<rparr>,
     on_bridge (send (Out_text (ControlAttached sess [''@''] HEARTBEAT_MS IDLE_TIMEOUT_MS))) 0 s)"
    using a(1) j by (simp add: session_attach_def session_start_def)
  show thesis
    by (rule that [OF step])
      (use a in \<open>simp_all add: send_def touch_def new_bridge_def claims_def attach_state_def BridgeState_default_def\<close>)
qed

lemma example_visit:
  assumes "claims (bridge_heap s 0) ''@''" "visitors (bridge_heap s 0) = 0" "channels (bridge_heap s 0) = Map.empty"
    "seen_at (bridge_heap s 0) = 0" "conns_wanted (bstate (bridge_heap s 0)) = None"
    "entry_at ''t'' s = entry_at ''t'' example_touched" "\<not> clustered s"
    "bridge_limits s = BridgeLimits_default" "domain s = ''x.dev''"
  shows "route example_env 0 0 ''t'' ''t.x.dev'' s =
    Some (Ok (To_bridge 0 1 ''t'' (next_chan s)), open_channel 0 ''t'' 0 1 2 (entry ''t'' s))"
proof -
  have f: "loaded_entry (entry_at ''t'' s)" "live_record (entry_at ''t'' s) = Some example_record"
    "e_bridges (entry_at ''t'' s) = [0]" "e_sequence (entry_at ''t'' s) = 0"
    using example_touched_facts assms(6) by simp_all
  have r: "retire_stale 0 ''t'' (entry ''t'' s) = entry ''t'' s"
    by (rule retire_stale_seen) (simp add: f assms(4))
  have c: "next_conn (channel_used (entry ''t'' s) ''t'') 0 = Some (1, 2)"
    by (subst next_conn.simps, simp, subst next_conn.simps) (simp add: channel_used_def f assms(3))
  have "certificate_ready example_record" "route_of ''t.x.dev'' (hostname example_record) = Some ''@''" "ident example_record = ''t''"
    by (simp_all add: certificate_ready_def ready_expiry_def example_record_def route_of_def)
  moreover have "\<not> over_limit (entry ''t'' s) ''t'' 0"
    using assms f by (simp add: over_limit_def conn_limit_def BridgeLimits_default_def)
  ultimately show ?thesis
    using f assms(1,7) r c
    by (simp add: route_def lock_routable_alone lock_loaded route_outcome_def)
qed


text \<open>The machine after the bridge attached and a visitor came.\<close>

lemma example_run:
  obtains m v where "machine_reach example_env example_json example_machine m" "carried m (v_chan v) = Some v"
    "v_bridge v = 0" "v_conn v = 1" "claims (bridge_heap (service m) 0) ''@''"
    "e_bridges (entry_at ''t'' (service m)) = [0]"
proof -
  obtain se s where a: "session_step example_env example_json 0 0 (\<lambda>_ _. False) (On_read (Got (MText [])))
      (session_start ''t'' 0, example_registered) = (se, s)"
    "claims (bridge_heap s 0) ''@''" "visitors (bridge_heap s 0) = 0" "channels (bridge_heap s 0) = Map.empty"
    "seen_at (bridge_heap s 0) = 0" "conns_wanted (bstate (bridge_heap s 0)) = None"
    "entry_at ''t'' s = entry_at ''t'' example_touched" "\<not> clustered s"
    "bridge_limits s = BridgeLimits_default" "domain s = ''x.dev''"
    by (rule example_attached)
  define m1 where "m1 = example_machine\<lparr>service := example_registered, sessions := [0 \<mapsto> session_start ''t'' 0]\<rparr>"
  have one: "machine_step example_env example_json example_machine m1"
    using machine_step.Start [of example_env 0 0 "''t''" example_machine "session_start ''t'' 0" example_registered example_json]
      example_start
    by (simp add: m1_def example_machine_def session_start_def)
  define m2 where "m2 = m1\<lparr>service := s, sessions := [0 \<mapsto> se]\<rparr>"
  have "machine_step example_env example_json m1 (m1\<lparr>service := s, sessions := (sessions m1)(0 \<mapsto> se)\<rparr>)"
    by (rule machine_step.Session [where se = "session_start ''t'' 0"]) (use a(1) in \<open>simp_all add: m1_def\<close>)
  then have two: "machine_step example_env example_json m1 m2" by (simp add: m1_def m2_def)
  define acc where "acc = \<lparr>acc_peer = \<lparr>sock_ip = IpV4 0, sock_port = 0\<rparr>, initial = [], acc_sni = ''t.x.dev'', acc_alpn = []\<rparr>"
  define v where "v = \<lparr>v_bridge = 0, v_conn = 1, v_chan = next_chan s, uploading = True, downloading = True,
    holding = None, writing = None\<rparr>"
  define s3 where "s3 = on_bridge (carry_open 1 acc) 0 (open_channel 0 ''t'' 0 1 2 (entry ''t'' s))"
  have "tunnel_id ''t.x.dev'' ''x.dev'' = Some ''t''" by code_simp
  then have "route_tunnel example_env 0 0 True acc (Public False) s = Some (Carried v, s3)"
    using example_visit [OF a(2-10)] a(10) by (simp add: route_tunnel_def acc_def v_def s3_def)
  then have three: "machine_step example_env example_json m2 (m2\<lparr>service := s3, carried := (carried m2)(v_chan v \<mapsto> v)\<rparr>)"
    by (intro machine_step.Visit) (simp add: m2_def)
  show thesis
  proof (rule that [of "m2\<lparr>service := s3, carried := (carried m2)(v_chan v \<mapsto> v)\<rparr>" v])
    show "machine_reach example_env example_json example_machine (m2\<lparr>service := s3, carried := (carried m2)(v_chan v \<mapsto> v)\<rparr>)"
      by (rule machine_reach.Next [OF machine_reach.Next [OF machine_reach.Next [OF machine_reach.Here one] two] three])
    have "bstate (carry_open 1 acc b) = bstate b" for b
      by (simp add: carry_open_def acc_def chunks.simps send_def)
    then show "claims (bridge_heap (service (m2\<lparr>service := s3, carried := (carried m2)(v_chan v \<mapsto> v)\<rparr>)) 0) ''@''"
      using a(2) by (simp add: s3_def claims_def open_channel_fields)
    show "e_bridges (entry_at ''t'' (service (m2\<lparr>service := s3, carried := (carried m2)(v_chan v \<mapsto> v)\<rparr>))) = [0]"
      using a(7) example_touched_facts by (simp add: s3_def open_channel_fields)
  qed (simp_all add: v_def)
qed

lemma example_new: "machine_new example_machine"
  by (simp add: machine_new_def example_machine_def example_service_def)

end
