(* ===== verification/Machine_Properties.thy ===== *)
theory Machine_Properties
  imports Machine_Example
begin

text \<open>
  What holds on a machine in every state it reaches, and the properties of attaching, routing and
  sessions that rest on it.
\<close>

section \<open>Bridges and their connections\<close>

lemma claims_held: "claims (bridge_heap s b) r \<longleftrightarrow> r \<in> set (routes_held s b)"
  by (auto simp: claims_def routes_held_def is_attached_def)

text \<open>C1. On a machine that started empty, whatever requests, sessions, visitors and timers did: two
  bridges of a tunnel never claim the same route, all claimed routes of a tunnel are valid and at most
  256, and a bridge belongs to one tunnel.\<close>

theorem routes_exclusive:
  assumes "machine_new m0" "machine_reach env from_str m0 m"
  shows "(\<forall>tid b c r. b \<in> set (e_bridges (entry_at tid (service m))) \<and> c \<in> set (e_bridges (entry_at tid (service m))) \<and>
      claims (bridge_heap (service m) b) r \<and> claims (bridge_heap (service m) c) r \<longrightarrow> b = c \<and> is_valid_route r) \<and>
    (\<forall>tid. (\<Sum>b \<leftarrow> attached_bridges (service m) (entry_at tid (service m)).
      length (routes (bstate (bridge_heap (service m) b)))) \<le> MAX_TUNNEL_ROUTES) \<and>
    (\<forall>tid tid' b. b \<in> set (e_bridges (entry_at tid (service m))) \<and> b \<in> set (e_bridges (entry_at tid' (service m))) \<longrightarrow>
      tid = tid')"
proof (intro conjI allI impI)
  let ?s = "service m"
  have ok: "machine_ok ?s" using machine_reach_inv [OF assms(2,1)] by (rule machine_inv_parts)
  have t: "tunnel_ok ?s (e_bridges (entry_at tid ?s))" for tid using ok by (simp add: machine_ok_def)
  fix tid
  have "(\<Sum>b \<leftarrow> filter (\<lambda>b. is_attached (bridge_heap ?s b)) bs. length (routes (bstate (bridge_heap ?s b)))) =
      (\<Sum>b \<leftarrow> bs. length (routes_held ?s b))" for bs
    by (induction bs) (simp_all add: routes_held_def)
  then show "(\<Sum>b \<leftarrow> attached_bridges ?s (entry_at tid ?s). length (routes (bstate (bridge_heap ?s b)))) \<le> MAX_TUNNEL_ROUTES"
    using t [of tid] by (simp add: attached_bridges_def tunnel_ok_def)
  fix b c r
  assume a: "b \<in> set (e_bridges (entry_at tid ?s)) \<and> c \<in> set (e_bridges (entry_at tid ?s)) \<and>
    claims (bridge_heap ?s b) r \<and> claims (bridge_heap ?s c) r"
  then show "b = c" using t [of tid] by (auto simp: claims_held tunnel_ok_def)
  have "bridge_ok ?s b" using a t [of tid] ok by (auto simp: tunnel_ok_def machine_ok_def)
  then show "is_valid_route r" using a by (auto simp: bridge_ok_def Let_def claims_def list_all_iff)
next
  fix tid tid' b
  assume "b \<in> set (e_bridges (entry_at tid (service m))) \<and> b \<in> set (e_bridges (entry_at tid' (service m)))"
  moreover have "machine_ok (service m)" using machine_reach_inv [OF assms(2,1)] by (rule machine_inv_parts)
  ultimately show "tid = tid'" unfolding machine_ok_def by blast
qed

theorem routes_exclusive_witness:
  "\<exists>m. machine_reach example_env example_json example_machine m \<and>
     {c \<in> set (e_bridges (entry_at ''t'' (service m))). claims (bridge_heap (service m) c) ''@''} = {0}"
proof -
  obtain m v where m: "machine_reach example_env example_json example_machine m" "carried m (v_chan v) = Some v"
    "v_bridge v = 0" "v_conn v = 1" "claims (bridge_heap (service m) 0) ''@''"
    "e_bridges (entry_at ''t'' (service m)) = [0]" by (rule example_run)
  have "c = 0" if "c \<in> set (e_bridges (entry_at ''t'' (service m)))" "claims (bridge_heap (service m) c) ''@''" for c
    using conjunct1 [OF routes_exclusive [OF example_new m(1)], rule_format, of c "''t''" 0 "''@''"] that m by simp
  with m show ?thesis by (intro exI [of _ m]) auto
qed

text \<open>C2. The connections a bridge counts are exactly those the machine carries on it, and never more than
  the limit. A connection number that is open on a bridge is not zero, names one carried connection,
  and is open on no other bridge of the tunnel.\<close>

theorem connections_counted:
  assumes "machine_new m0" "machine_reach env from_str m0 m" "b < next_bridge (service m)"
  shows "visitors (bridge_heap (service m) b) = card {ch. \<exists>v. carried m ch = Some v \<and> v_bridge v = b} \<and>
    visitors (bridge_heap (service m) b) \<le> max 1 (conns_per_bridge (bridge_limits (service m))) \<and>
    (\<forall>conn ch. channels (bridge_heap (service m) b) conn = Some ch \<longrightarrow>
      conn \<noteq> 0 \<and> (\<exists>v. carried m ch = Some v \<and> v_bridge v = b \<and> v_conn v = conn)) \<and>
    (\<forall>tid c conn. b \<in> set (e_bridges (entry_at tid (service m))) \<and> c \<in> set (e_bridges (entry_at tid (service m))) \<and>
      channels (bridge_heap (service m) b) conn \<noteq> None \<and> channels (bridge_heap (service m) c) conn \<noteq> None \<longrightarrow> b = c)"
proof -
  let ?s = "service m"
  have inv: "machine_inv m" by (rule machine_reach_inv [OF assms(2,1)])
  note ok = machine_inv_parts(1) [OF inv]
  have okb: "bridge_ok ?s b" using ok assms(3) by (simp add: machine_ok_def)
  have own: "\<exists>v. carried m ch = Some v \<and> v_bridge v = c \<and> v_conn v = conn" if "slots ?s ch = Some (c, conn)" for ch c conn
    using machine_inv_parts(6) [OF inv that] machine_inv_parts(5) [OF inv, of ch] that by force
  have count: "slots_of ?s b = {ch. \<exists>v. carried m ch = Some v \<and> v_bridge v = b}"
    using own machine_inv_parts(5) [OF inv] by (force simp: slots_of_def)
  have one: "b = c" if "b \<in> set (e_bridges (entry_at tid ?s))" "c \<in> set (e_bridges (entry_at tid ?s))"
    "channels (bridge_heap ?s b) conn \<noteq> None" "channels (bridge_heap ?s c) conn \<noteq> None" for tid c conn
  proof (rule ccontr)
    assume "b \<noteq> c"
    then have "dom (channels (bridge_heap ?s b)) \<inter> dom (channels (bridge_heap ?s c)) = {}"
      using ok that(1,2) by (simp add: machine_ok_def tunnel_ok_def)
    with that(3,4) show False by blast
  qed
  have open_ones: "conn \<noteq> 0 \<and> (\<exists>v. carried m ch = Some v \<and> v_bridge v = b \<and> v_conn v = conn)"
    if "channels (bridge_heap ?s b) conn = Some ch" for conn ch
    using okb own [of ch b conn] that by (simp add: bridge_ok_def Let_def)
  from okb have "visitors (bridge_heap ?s b) = card {ch. \<exists>v. carried m ch = Some v \<and> v_bridge v = b}"
    "visitors (bridge_heap ?s b) \<le> max 1 (conns_per_bridge (bridge_limits ?s))"
    unfolding count [symmetric] by (simp_all add: bridge_ok_def Let_def)
  with open_ones one show ?thesis by blast
qed

theorem connections_counted_witness:
  "\<exists>m v. machine_reach example_env example_json example_machine m \<and> carried m (v_chan v) = Some v \<and> v_bridge v = 0 \<and>
    visitors (bridge_heap (service m) 0) = card {ch. \<exists>v. carried m ch = Some v \<and> v_bridge v = 0}"
proof -
  obtain m v where m: "machine_reach example_env example_json example_machine m" "carried m (v_chan v) = Some v"
    "v_bridge v = 0" "v_conn v = 1" "claims (bridge_heap (service m) 0) ''@''"
    "e_bridges (entry_at ''t'' (service m)) = [0]" by (rule example_run)
  have "0 < next_bridge (service m)"
    using machine_inv_parts(1) [OF machine_reach_inv [OF m(1) example_new]] m(6)
    by (metis list.set_intros(1) machine_ok_def tunnel_ok_def)
  with m connections_counted [OF example_new m(1), of 0] show ?thesis by blast
qed


section \<open>Attaching\<close>

lemma attach_checks:
  assumes "attach env now elsewhere tid bid token rs limit s = (Ok (Attached sess rs' at), s')"
  shows "rs' = rs \<and> routes (bstate (bridge_heap s' bid)) = rs \<and> attached (bstate (bridge_heap s' bid)) \<and>
    (\<exists>rec. live_record (entry_at tid s') = Some rec \<and> token_hash rec = hash_token (sha256 env) token \<and>
      certificate_ready rec) \<and>
    rs \<noteq> [] \<and> list_all is_valid_route rs \<and>
    (\<forall>b r. b \<in> set (e_bridges (entry_at tid s')) \<and> b \<noteq> bid \<and> r \<in> set rs \<longrightarrow> \<not> claims (bridge_heap s' b) r)"
  using assms
proof (cases rule: attach_effect)
  case (attached s1 rec sess' at')
  have e: "entry_at tid s' = entry_at tid s1" using attached(13) by (simp add: entry_at_def)
  have "\<not> claims (bridge_heap s' b) r" if "b \<in> set (e_bridges (entry_at tid s'))" "b \<noteq> bid" "r \<in> set rs" for b r
    using attached(9,12) that
    by (auto simp: e route_conflict_def list_ex_iff attach_bridge_fields)
  moreover have "routes (bstate (bridge_heap s' bid)) = rs" "attached (bstate (bridge_heap s' bid))"
    by (simp_all add: attached(12) attach_bridge_fields attach_state_def)
  ultimately show ?thesis
    using attached(2-7) e by (auto simp: token_matches_iff)
next
  case refused
  from refused(2) [of sess rs' at] show ?thesis by simp
qed



section \<open>Routing\<close>

lemma route_None:
  assumes "route env now tick tid sni s = None"
  obtains s1 bid where "calms s s1" "\<not> over_limit s1 tid bid"
    "next_conn (channel_used s1 tid) (e_sequence (entry_at tid s1)) = None"
proof -
  obtain f s0 where l: "lock_routable env now tid s = (f, s0)" by (cases "lock_routable env now tid s")
  have c0: "calms s (retire_stale now tid s0)"
    by (rule calms_trans [OF calm_state [OF calm_lock_routable l] calms_retire_stale])
  from assms l c0 show thesis
    by (auto simp: route_def Let_def intro!: that [of "retire_stale now tid s0"]
        split: sum.splits option.splits if_splits prod.splits)
qed

lemma used_numbers:
  assumes ok: "machine_ok s"
  shows "finite {c. channel_used s tid c}"
    and "card {c. channel_used s tid c} \<le> (\<Sum>b \<leftarrow> e_bridges (entry_at tid s). visitors (bridge_heap s b))"
proof -
  have "finite (dom (channels (bridge_heap s b))) \<and> card (dom (channels (bridge_heap s b))) \<le> visitors (bridge_heap s b)"
    if "b \<in> set (e_bridges (entry_at tid s))" for b
  proof -
    let ?ch = "channels (bridge_heap s b)"
    have okb: "bridge_ok s b" using ok that by (auto simp: machine_ok_def tunnel_ok_def)
    have sl: "slots s ch = Some (b, conn)" if "?ch conn = Some ch" for conn ch
      using okb that by (simp add: bridge_ok_def Let_def)
    have sub: "(\<lambda>c. the (?ch c)) ` dom ?ch \<subseteq> slots_of s b"
      using sl by (auto simp: slots_of_def)
    have inj: "inj_on (\<lambda>c. the (?ch c)) (dom ?ch)"
    proof (rule inj_onI)
      fix x y assume "x \<in> dom ?ch" "y \<in> dom ?ch" "the (?ch x) = the (?ch y)"
      then have "slots s (the (?ch x)) = Some (b, x)" "slots s (the (?ch x)) = Some (b, y)"
        using sl [of x "the (?ch x)"] sl [of y "the (?ch x)"] by auto
      then show "x = y" by simp
    qed
    have "finite (dom ?ch)" using finite_imageD [OF finite_subset [OF sub finite_slots_of [OF ok]] inj] .
    moreover have "card (dom ?ch) \<le> card (slots_of s b)"
      using card_mono [OF finite_slots_of [OF ok] sub] card_image [OF inj] by simp
    ultimately show ?thesis using okb by (simp add: bridge_ok_def Let_def)
  qed
  then have "finite (\<Union>b \<in> set bs. dom (channels (bridge_heap s b))) \<and>
      card (\<Union>b \<in> set bs. dom (channels (bridge_heap s b))) \<le> (\<Sum>b \<leftarrow> bs. visitors (bridge_heap s b))"
    if "set bs \<subseteq> set (e_bridges (entry_at tid s))" for bs
    using that
  proof (induction bs)
    case (Cons b bs)
    then have i: "finite (dom (channels (bridge_heap s b)))" "card (dom (channels (bridge_heap s b))) \<le> visitors (bridge_heap s b)"
      "finite (\<Union>b \<in> set bs. dom (channels (bridge_heap s b)))"
      "card (\<Union>b \<in> set bs. dom (channels (bridge_heap s b))) \<le> (\<Sum>b \<leftarrow> bs. visitors (bridge_heap s b))" by auto
    show ?case
      using i card_Un_le [of "dom (channels (bridge_heap s b))" "\<Union>b \<in> set bs. dom (channels (bridge_heap s b))"]
      by simp
  qed simp
  moreover have "{c. channel_used s tid c} = (\<Union>b \<in> set (e_bridges (entry_at tid s)). dom (channels (bridge_heap s b)))"
    by (auto simp: channel_used_def list_ex_iff)
  ultimately show "finite {c. channel_used s tid c}"
    "card {c. channel_used s tid c} \<le> (\<Sum>b \<leftarrow> e_bridges (entry_at tid s). visitors (bridge_heap s b))" by auto
qed

text \<open>C5. Routing a public connection always ends: the search for a free connection number finds one on
  every machine in every state it reaches, as long as a tunnel may carry fewer connections than there are
  numbers.\<close>

theorem route_returns:
  assumes "machine_new m0" "machine_reach env0 from_str m0 m"
    and "conns_per_tunnel (bridge_limits (service m)) < 2 ^ 32"
  shows "\<exists>r s. route env now tick tid sni (service m) = Some (r, s)"
proof (rule ccontr)
  assume "\<not> (\<exists>r s. route env now tick tid sni (service m) = Some (r, s))"
  then have "route env now tick tid sni (service m) = None"
    by (cases "route env now tick tid sni (service m)") auto
  then obtain s1 bid where c: "calms (service m) s1" and room: "\<not> over_limit s1 tid bid"
    and none: "next_conn (channel_used s1 tid) (e_sequence (entry_at tid s1)) = None" by (rule route_None)
  have ok: "machine_ok s1"
    by (rule calms_machine_ok [OF c machine_inv_parts(1) [OF machine_reach_inv [OF assms(2,1)]]])
  have "bridge_limits s1 = bridge_limits (service m)" using c by (simp add: calms_def)
  then have "(\<Sum>b \<leftarrow> e_bridges (entry_at tid s1). visitors (bridge_heap s1 b)) < 2 ^ 32 - 1"
    using room assms(3) by (auto simp: over_limit_def)
  then have "card {c. channel_used s1 tid c} < 2 ^ 32 - 1" using used_numbers(2) [OF ok, of tid] by linarith
  from next_conn_total [OF used_numbers(1) [OF ok] this, of "e_sequence (entry_at tid s1)"] none show False by simp
qed

theorem route_returns_witness:
  "\<exists>r s. route example_env 0 0 ''t'' ''t.x.dev'' (service example_machine) = Some (r, s)"
proof -
  have "conns_per_tunnel (bridge_limits (service example_machine)) < 2 ^ 32"
    by (simp add: example_machine_def example_service_def BridgeLimits_default_def)
  then show ?thesis by (rule route_returns [OF example_new machine_reach.Here])
qed


lemma lock_routable_heap: "bridge_heap (snd (lock_routable env now tid s)) = bridge_heap s" "next_chan (snd (lock_routable env now tid s)) = next_chan s"
  by (simp_all add: lock_routable_def lock_def refresh_def sv_defs sv_bind_def sv_modify_def sv_get_def sv_return_def sv_try_def sv_store_io_def
      entry_def set_entry_def Let_def split: prod.split sum.split option.split)

text \<open>Retiring silent bridges leaves those that stay attached as they are.\<close>

lemma retire_bridge_attached:
  "is_attached (bridge_heap (retire_bridge now t c s) b) \<Longrightarrow> bridge_heap (retire_bridge now t c s) b = bridge_heap s b"
  by (auto simp: retire_bridge_def Let_def close_bridge_def finish_channels_heap mark_detached_def is_attached_def close_def send_def
      try_send_def mesh_detach_def split: option.splits if_splits)

lemma retire_stale_attached:
  assumes "is_attached (bridge_heap (retire_stale now tid s) b)"
  shows "bridge_heap (retire_stale now tid s) b = bridge_heap s b"
proof -
  have "is_attached (bridge_heap (fold (retire_bridge now t) bs s) b) \<Longrightarrow> bridge_heap (fold (retire_bridge now t) bs s) b = bridge_heap s b" for t bs
  proof (induction bs arbitrary: s)
    case (Cons c bs)
    then show ?case using retire_bridge_attached [of now t c s b] by simp
  qed simp
  then show ?thesis using assms by (simp add: retire_stale_def Let_def)
qed

lemma route_adds_connection:
  assumes "route env now tick tid sni s = Some (Ok (To_bridge bid conn tid' ch), s')"
  shows "channels (bridge_heap s bid) conn = None \<and> channels (bridge_heap s' bid) = (channels (bridge_heap s bid))(conn \<mapsto> ch) \<and> ch = next_chan s"
proof -
  obtain f s0 where l: "lock_routable env now tid s = (f, s0)" by (cases "lock_routable env now tid s")
  let ?s = "retire_stale now tid s0"
  obtain r n where r: "List.find (\<lambda>b. claims (bridge_heap ?s b) r) (e_bridges (entry_at tid ?s)) = Some bid"
    and n: "next_conn (channel_used ?s tid) (e_sequence (entry_at tid ?s)) = Some (conn, n)"
    and s': "s' = open_channel tick tid bid conn n ?s" "ch = next_chan ?s"
    using assms l by (auto simp: route_def Let_def bind_eq_Some_conv split: sum.splits option.splits if_splits prod.splits)
  have found: "bid \<in> set (e_bridges (entry_at tid ?s))" "is_attached (bridge_heap ?s bid)"
    using r by (auto simp: find_Some_iff claims_def is_attached_def)
  have "channels (bridge_heap ?s bid) conn = None"
    using next_conn_fresh [OF n] found(1) by (auto simp: channel_used_def list_ex_iff)
  moreover have "bridge_heap ?s bid = bridge_heap s bid"
    using retire_stale_attached [OF found(2)] lock_routable_heap(1) [of env now tid s] l by simp
  moreover have "next_chan ?s = next_chan s"
    using calms_retire_stale [of s0 now tid] lock_routable_heap(2) [of env now tid s] l by (simp add: calms_def)
  ultimately show ?thesis using s' by (simp add: open_channel_fields)
qed

text \<open>C4. A public connection goes to the bridge that claims its route: the server name is the hostname of
  the live tunnel, for the root route, or one label below it; the certificate is ready; and the
  connection is opened under a number that no open connection of the tunnel has, those of the same bridge included, which all stay open.\<close>

theorem route_right_bridge:
  assumes "route env now tick tid sni s = Some (Ok (To_bridge bid conn tid' ch), s')"
  shows "\<exists>rec r. live_record (entry_at tid s') = Some rec \<and> tid' = ident rec \<and> certificate_ready rec \<and>
    (r = ''@'' \<and> sni = hostname rec \<or> sni = r @ ''.'' @ hostname rec) \<and> CHR ''.'' \<notin> set r \<and>
    bid \<in> set (e_bridges (entry_at tid s')) \<and> claims (bridge_heap s' bid) r \<and>
    channels (bridge_heap s bid) conn = None \<and> conn \<noteq> 0 \<and>
    channels (bridge_heap s' bid) = (channels (bridge_heap s bid))(conn \<mapsto> ch) \<and>
    (\<forall>b. b \<in> set (e_bridges (entry_at tid s')) \<and> b \<noteq> bid \<longrightarrow> channels (bridge_heap s' b) conn = None) \<and>
    visitors (bridge_heap s' bid) \<le> max 1 (conns_per_bridge (bridge_limits s'))"
  using assms
proof (cases rule: route_effect)
  case rejected
  from rejected(2) [of bid conn tid' ch] show ?thesis by simp
next
  case (opened s1 rec r bid' conn' n)
  have eq: "bid' = bid" "conn' = conn" "tid' = ident rec" "ch = next_chan s1" using opened(9) by simp_all
  have found: "bid \<in> set (e_bridges (entry_at tid s1))" "claims (bridge_heap s1 bid) r"
    using opened(6) by (auto simp: find_Some_iff eq)
  have fresh: "conn \<noteq> 0" "\<not> channel_used s1 tid conn"
    using next_conn_fresh [OF opened(8)] by (simp_all add: eq)
  have "live_record (entry_at tid s') = Some rec"
    using opened(2) by (simp add: opened(10) open_channel_def Let_def live_record_def)
  moreover have "claims (bridge_heap s' bid) r"
    "e_bridges (entry_at tid s') = e_bridges (entry_at tid s1)"
    using found(2) by (simp_all add: opened(10) eq claims_def open_channel_fields)
  moreover have "channels (bridge_heap s' b) conn = None" if "b \<in> set (e_bridges (entry_at tid s1))" "b \<noteq> bid" for b
    using fresh(2) that by (auto simp: opened(10) eq open_channel_fields channel_used_def list_ex_iff)
  moreover have "visitors (bridge_heap s' bid) \<le> max 1 (conns_per_bridge (bridge_limits s'))"
    using opened(7) conn_limit_le [of "bridge_heap s1 bid" "conns_per_bridge (bridge_limits s1)"]
    by (simp add: opened(10) eq open_channel_fields over_limit_def)
  moreover have "r = ''@'' \<and> sni = hostname rec \<or> sni = r @ ''.'' @ hostname rec"
    using opened(4) by (auto simp: route_of_def strip_suffix_Some split: if_splits)
  ultimately show ?thesis
    using opened(3,5) found(1) fresh(1) eq(3) route_adds_connection [OF assms] by (intro exI [of _ rec] exI [of _ r]) auto
qed

theorem route_right_bridge_witness:
  "\<exists>s0 s. route example_env 0 0 ''t'' ''t.x.dev'' s0 = Some (Ok (To_bridge 0 1 ''t'' (next_chan s0)), s) \<and>
    channels (bridge_heap s 0) 1 = Some (next_chan s0)"
proof -
  obtain se s where a: "claims (bridge_heap s 0) ''@''" "visitors (bridge_heap s 0) = 0" "channels (bridge_heap s 0) = Map.empty"
    "seen_at (bridge_heap s 0) = 0" "conns_wanted (bstate (bridge_heap s 0)) = None"
    "entry_at ''t'' s = entry_at ''t'' example_touched" "\<not> clustered s"
    "bridge_limits s = BridgeLimits_default" "domain s = ''x.dev''"
    by (rule example_attached)
  note run = example_visit [OF a]
  moreover have "channels (bridge_heap (open_channel 0 ''t'' 0 1 2 (entry ''t'' s)) 0) 1 = Some (next_chan s)"
    using route_right_bridge [OF run] by auto
  ultimately show ?thesis by blast
qed


lemma closing_close [simp]: "is_closing (close code reason b)"
  by (simp add: close_def is_closing_def try_send_def send_def)

section \<open>Sessions\<close>

text \<open>C6. A session that has not attached accepts nothing but an attach: a message either is an attach, as text, with a token
  the tunnel's record accepts and routes that the bridge then holds, and attaches it, or makes the server close the bridge.\<close>

theorem session_requires_attach:
  assumes "\<not> s_attached se" "\<not> is_closing (bridge_heap s (bridge se))"
    and m: "m = MBinary frame \<or> m = MText body"
    and run: "handle_message env from_str now tick elsewhere m (se, s) = (se', s')"
  shows "s_attached se' \<and> (\<exists>control token rec. m = MText body \<and> from_str body = Some control \<and>
      json_str control ''type'' = Some ''attach'' \<and> json_str control ''token'' = Some token \<and>
      live_record (entry_at (tunnel se) s') = Some rec \<and> token_hash rec = hash_token (sha256 env) token \<and>
      routes (bstate (bridge_heap s' (bridge se))) = attach_routes control) \<or>
    \<not> s_attached se' \<and> is_closing (bridge_heap s' (bridge se))"
proof -
  let ?s = "on_bridge (touch now) (bridge se) s"
  have attach: "s_attached (fst r) \<and> (\<exists>token rec. json_str control ''type'' = Some ''attach'' \<and> json_str control ''token'' = Some token \<and>
        live_record (entry_at (tunnel se) (snd r)) = Some rec \<and> token_hash rec = hash_token (sha256 env) token \<and>
        routes (bstate (bridge_heap (snd r) (bridge se))) = attach_routes control) \<or>
      \<not> s_attached (fst r) \<and> is_closing (bridge_heap (snd r) (bridge se))"
    if r: "r = session_attach env now elsewhere control (se, ?s)" for r control
  proof (cases "json_str control ''type'' \<noteq> Some ''attach'' \<or> json_str control ''token'' = None \<or> too_many_routes control")
    case True
    then show ?thesis using assms(1) by (auto simp: r session_attach_def Let_def)
  next
    case False
    then obtain token where token: "json_str control ''token'' = Some token" by auto
    obtain q s1 where a: "attach env now elsewhere (tunnel se) (bridge se) token
        (attach_routes control) (attach_max_conns control) ?s = (q, s1)" by (meson surj_pair)
    show ?thesis
    proof (cases "\<exists>sess rs at. q = Inr (Attached sess rs at)")
      case True
      then obtain sess rs at where q: "q = Inr (Attached sess rs at)" by blast
      show ?thesis
        using False token a q attach_checks [OF a [unfolded q]]
        by (auto simp: r session_attach_def Let_def live_record_def send_def)
    next
      case no: False
      then show ?thesis
        using False token a assms(1)
        by (auto simp: r session_attach_def Let_def split: sum.splits Attach.splits)
    qed
  qed
  from m show ?thesis
  proof
    assume "m = MBinary frame"
    with run assms(1,2) show ?thesis by (auto simp: handle_message_def)
  next
    assume m: "m = MText body"
    show ?thesis
    proof (cases "option_filter is_control (from_str body)")
      case None
      with m run assms(1,2) show ?thesis by (auto simp: handle_message_def handle_text_def)
    next
      case (Some control)
      then have "from_str body = Some control" by (auto simp: option_filter_def split: option.splits if_splits)
      with m run assms(1,2) Some attach [OF refl, of control] show ?thesis
        by (auto simp: handle_message_def handle_text_def)
    qed
  qed
qed


theorem session_requires_attach_witness:
  "\<exists>se s rec. handle_message example_env example_json 0 0 (\<lambda>_ _. False) (MText []) (session_start ''t'' 0, example_registered) = (se, s) \<and>
     s_attached se \<and> live_record (entry_at ''t'' s) = Some rec \<and> token_hash rec = hash_token (sha256 example_env) ''k'' \<and>
     routes (bstate (bridge_heap s 0)) = [''@'']"
proof -
  obtain se s where a: "session_step example_env example_json 0 0 (\<lambda>_ _. False) (On_read (Got (MText [])))
      (session_start ''t'' 0, example_registered) = (se, s)" "s_attached se"
    by (rule example_attached)
  have start: "\<not> s_attached (session_start ''t'' 0)" "bridge (session_start ''t'' 0) = 0" "tunnel (session_start ''t'' 0) = ''t''"
    by (simp_all add: session_start_def)
  have run: "handle_message example_env example_json 0 0 (\<lambda>_ _. False) (MText []) (session_start ''t'' 0, example_registered) = (se, s)"
    using a(1) by (simp add: session_step_def read_step_def session_start_def)
  have "\<not> is_closing (bridge_heap example_registered 0)"
    using example_lock(7) by (simp add: example_registered_def add_bridge_fields is_closing_def new_bridge_def BridgeState_default_def)
  then obtain control token rec where r: "example_json [] = Some control" "json_str control ''token'' = Some token"
      "live_record (entry_at ''t'' s) = Some rec" "token_hash rec = hash_token (sha256 example_env) token"
      "routes (bstate (bridge_heap s 0)) = attach_routes control"
    using session_requires_attach [of "session_start ''t'' 0" example_registered "MText []" "[]" "[]", OF start(1) _ _ run] start a(2) by auto
  moreover have "control = example_attach" using r(1) by (simp add: example_json_def)
  ultimately have "token = ''k''" "attach_routes control = [''@'']"
    by (simp_all add: example_attach_def json_str_def attach_routes_def)
  with r run a(2) show ?thesis by auto
qed

end
