(* ===== verification/Service_Properties.thy ===== *)
theory Service_Properties
  imports Machine_Example
begin

text \<open>
  Properties of the operations of the API and of the cache of records: what routing reads again, when
  a request for a certificate is bound, and that renewals never take a working certificate away.
\<close>

section \<open>The cache of records\<close>

lemma refresh_reads:
  assumes "REFRESH_BACKOFF_MS \<le> now - refresh_failed_at s"
    and "Store.tunnel (db_world env) tid (sv_store s) = (Ok found, st)"
  shows "\<exists>s'. refresh env now tid s = (Ok (), s') \<and> e_record (entry_at tid s') = map_option loaded_record found \<and>
    \<not> stale (entry_at tid s') \<and> checked_at (entry_at tid s') = now \<and> e_generation (entry_at tid s') = generation s"
  using assms by (auto simp: refresh_def sv_defs Let_def split: option.splits)

lemma refresh_backs_off:
  "now - refresh_failed_at s < REFRESH_BACKOFF_MS \<Longrightarrow> refresh env now tid s = (Ok (), s)"
  by (simp add: refresh_def sv_defs)

definition must_read :: "nat \<Rightarrow> Service \<Rightarrow> EntryState \<Rightarrow> bool"
  where "must_read now s e =
    (stale e \<or> \<not> record_ready e \<and>
      (e_generation e < generation s \<or> cached_ttl (mesh_complete s) e \<le> now - checked_at e))"

lemma lock_routable_cached:
  assumes "clustered s" "loaded_entry (entry_at tid s)"
  shows "lock_routable env now tid s =
    (if must_read now s (entry_at tid s) then refresh env now tid (entry tid s) else (Ok (), entry tid s))"
  using assms by (auto simp: lock_routable_def must_read_def sv_defs Let_def)

text \<open>What routing trusts, on a machine of many with a cached record and a database that answers. After
  another machine said that the tunnel changed, and for a record that is missing or not ready
  also after events may have been missed or its time is up, routing uses the record in the database;
  otherwise the cached one, without a read. A failed read is not repeated for five seconds.\<close>

theorem routing_reads_changes:
  assumes "clustered s" "map_of (entries s) tid = Some e" "loaded_entry e"
    and "REFRESH_BACKOFF_MS \<le> now - refresh_failed_at s"
    and "Store.tunnel (db_world env) tid (sv_store s) = (Ok found, st)"
  shows "(\<exists>s'. lock_routable env now tid (expire tid s) = (Ok (), s') \<and>
      e_record (entry_at tid s') = map_option loaded_record found) \<and>
    (\<not> record_ready e \<and> e_generation e \<le> generation s \<longrightarrow>
      (\<exists>s'. lock_routable env now tid (forget_cached_answers s) = (Ok (), s') \<and>
        e_record (entry_at tid s') = map_option loaded_record found)) \<and>
    (must_read now s e \<longrightarrow> (\<exists>s'. lock_routable env now tid s = (Ok (), s') \<and>
        e_record (entry_at tid s') = map_option loaded_record found)) \<and>
    (\<not> must_read now s e \<longrightarrow> (\<exists>s'. lock_routable env now tid s = (Ok (), s') \<and>
        entry_at tid s' = e \<and> sv_store s' = sv_store s))"
proof -
  have e: "entry_at tid s = e" using assms(2) by (simp add: entry_at_def)
  have read: "\<exists>s'. lock_routable env now tid s1 = (Ok (), s') \<and> e_record (entry_at tid s') = map_option loaded_record found"
    if "clustered s1" "loaded_entry (entry_at tid s1)" "must_read now s1 (entry_at tid s1)"
      "refresh_failed_at s1 = refresh_failed_at s" "sv_store s1 = sv_store s" for s1
    using refresh_reads [of now "entry tid s1" env tid found st] assms(4,5) that
    by (auto simp: lock_routable_cached)
  have "expire tid s = set_entry tid (e\<lparr>stale := True\<rparr>) s" using assms(2) by (simp add: expire_def)
  then have "\<exists>s'. lock_routable env now tid (expire tid s) = (Ok (), s') \<and>
      e_record (entry_at tid s') = map_option loaded_record found"
    using assms by (intro read) (simp_all add: must_read_def)
  moreover have "\<exists>s'. lock_routable env now tid (forget_cached_answers s) = (Ok (), s') \<and>
        e_record (entry_at tid s') = map_option loaded_record found"
    if "\<not> record_ready e \<and> e_generation e \<le> generation s"
    using that assms e by (intro read) (simp_all add: must_read_def forget_cached_answers_def)
  moreover have "\<exists>s'. lock_routable env now tid s = (Ok (), s') \<and>
        e_record (entry_at tid s') = map_option loaded_record found" if "must_read now s e"
    using that assms e by (intro read) simp_all
  moreover have "\<exists>s'. lock_routable env now tid s = (Ok (), s') \<and> entry_at tid s' = e \<and> sv_store s' = sv_store s"
    if "\<not> must_read now s e" using that assms(1,3) e by (simp add: lock_routable_cached)
  ultimately show ?thesis by blast
qed

theorem routing_reads_changes_witness:
  "\<exists>s s'. lock_routable example_env 9000 ''t'' (expire ''t'' s) = (Ok (), s') \<and>
     e_record (entry_at ''t'' s') = Some example_record"
proof -
  let ?s = "example_service\<lparr>clustered := True, entries := [(''t'', EntryState_default\<lparr>loaded_entry := True\<rparr>)]\<rparr>"
  have "Store.tunnel (db_world example_env) ''t'' (sv_store ?s) = (Ok (Some \<lparr>loaded_record = example_record, loaded_revision = 1\<rparr>),
      1, snd (insert_tunnel example_record 5 empty_db))"
    using example_db by (simp add: Store.tunnel_def io_bind_def io_return_def example_env_def)
  from routing_reads_changes [of ?s "''t''" "EntryState_default\<lparr>loaded_entry := True\<rparr>" 9000, OF _ _ _ _ this]
  have "\<exists>s'. lock_routable example_env 9000 ''t'' (expire ''t'' ?s) = (Ok (), s') \<and>
     e_record (entry_at ''t'' s') = Some example_record"
    by (simp add: EntryState_default_def REFRESH_BACKOFF_MS_def example_service_def)
  then show ?thesis by blast
qed


section \<open>Saving\<close>

lemma sv_bind_run: "m s = (Ok a, s1) \<Longrightarrow> sv_bind m f s = f a s1"
  by (simp add: sv_bind_def)

lemma sv_bind_get: "sv_bind (sv_get g) f s = f (g s) s"
  by (simp add: sv_bind_def sv_get_def)

lemma sv_bind_try: "sv_bind (sv_try m) f s = (case m s of (r, s1) \<Rightarrow> f r s1)"
  by (simp add: sv_bind_def sv_try_def case_prod_unfold)

lemma save_effect:
  assumes "save env now tid r s = (res, s')"
  shows "case res of
      Inr _ \<Rightarrow> e_record (entry_at tid s') = Some r \<and> loaded_entry (entry_at tid s') = loaded_entry (entry_at tid s)
    | Inl err \<Rightarrow> if err = Store_failed Conflict then \<not> loaded_entry (entry_at tid s') \<and> e_record (entry_at tid s') = None
        else entry_at tid s' = entry_at tid s"
  using assms
  by (auto simp: save_def sv_defs forget_record_def split: prod.splits sum.splits if_splits)

text \<open>A record that the database holds with its revision. The write is the last statement but one: before
  the last statement, which leaves the tunnels alone, only the other machines act.\<close>

definition written :: "world \<Rightarrow> StoredTunnel \<Rightarrow> nat \<Rightarrow> nat \<times> Db \<Rightarrow> bool"
  where "written w r n st \<longleftrightarrow> (\<exists>k db1 db2. stored (ident r) db1 = Some (r, n) \<and> w k db1 = (Answered, db2) \<and>
    fst st = Suc k \<and> tunnels (snd st) = tunnels db2)"

lemma save_tunnel_stored:
  assumes "save_tunnel w r seen now st = (Ok n, st')"
  shows "stored (ident r) (snd st') = Some (r, n)"
proof -
  obtain db where db: "save_statement now r seen db = (True, snd st')" "n = Suc seen"
    using assms save_tunnel_Ok [of w r seen now "fst st" "snd st" n "fst st'" "snd st'"] by auto
  show ?thesis
  proof (cases seen)
    case 0
    then show ?thesis
      using db by (auto simp: save_statement_def insert_tunnel_def stored_def split: option.splits
          dest!: insert_row_map_of sym [of _ "snd st'"])
  next
    case (Suc m)
    then show ?thesis
      using db by (cases rule: update_row_cases [of "tunnels db" "ident r" "\<lambda>row. revision row = seen" "write_record r now"])
        (auto simp: save_statement_def update_tunnel_def stored_def write_record_def update_conv'
          dest!: sym [of _ "snd st'"])
  qed
qed

lemma save_stored:
  assumes "save env now tid r s = (Ok (), s')"
  shows "stored (ident r) (snd (sv_store s')) = Some (r, e_revision (entry_at tid s'))"
proof -
  obtain n st where "save_tunnel (db_world env) r (e_revision (entry_at tid s)) now (sv_store s) = (Ok n, st)"
      "s' = set_entry tid ((entry_at tid s)\<lparr>e_revision := n, e_record := Some r\<rparr>) (s\<lparr>sv_store := st\<rparr>)"
    using assms by (auto simp: save_def sv_defs split: prod.splits sum.splits if_splits)
  then show ?thesis using save_tunnel_stored by simp
qed

lemma announce_entry [simp]: "entry_at tid (snd (announce c s)) = entry_at tid s" "fst (announce c s) = Ok ()"
  "sv_store (snd (announce c s)) = sv_store s"
  by (simp_all add: announce_def sv_modify_def)

lemma job_added_entry [simp]: "entry_at tid (snd (job_added s)) = entry_at tid s" "fst (job_added s) = Ok ()"
  "sv_store (snd (job_added s)) = sv_store s"
  by (simp_all add: job_added_def)

lemma job_added_runs: "job_added s = (r, s') \<Longrightarrow> sv_store s' = sv_store s \<and> entry_at tid s' = entry_at tid s"
  by (metis job_added_entry(1,3) snd_conv)

lemma sv_store_io_entry [simp]: "entry_at tid (snd (sv_store_io m s)) = entry_at tid s"
  by (simp add: sv_store_io_def split: prod.splits sum.splits)

lemma add_job_stored:
  "add_job w job at (k, db) = (Ok b, k', db') \<Longrightarrow> map_of (jobs db') (job_certificate_id job) \<noteq> None"
  by (auto simp: add_job_def timed_def insert_job_def insert_row_def map_add_def
      split: prod.splits fault.splits option.splits if_splits)

lemma add_job_then:
  assumes "add_job w job at (k, db) = (Ok b, k', db')"
  obtains db2 where "w k db = (Answered, db2)" "k' = Suc k" "tunnels db' = tunnels db2"
  using assms by (auto simp: add_job_def timed_def insert_job_def split: prod.splits fault.splits option.splits if_splits)

lemma ensure_issuance_effect:
  assumes "ensure_issuance env now r kd s = (res, s')"
  shows "entry_at tid s' = entry_at tid s"
    and "res = Ok () \<Longrightarrow> kd = Issue \<Longrightarrow>
      \<exists>cid. certificate_id r = Some cid \<and> map_of (jobs (snd (sv_store s'))) cid \<noteq> None"
    and "res = Ok () \<Longrightarrow> kd = Issue \<Longrightarrow> stored (ident r) (snd (sv_store s)) = Some (r, n) \<Longrightarrow>
      written (db_world env) r n (sv_store s')"
proof -
  show "entry_at tid s' = entry_at tid s"
    using assms
    by (auto simp: ensure_issuance_def sv_bind_def sv_fail_def sv_return_def sv_store_io_def
        split: option.splits prod.splits sum.splits if_splits dest!: job_added_runs [where tid = tid])
next
  assume res: "res = Ok ()" "kd = Issue"
  then obtain cid csr where c: "certificate_id r = Some cid" "certificate_csr r = Some csr"
    using assms by (auto simp: ensure_issuance_def sv_fail_def split: option.splits)
  obtain q k db where add: "add_job (db_world env) \<lparr>job_certificate_id = cid, job_tunnel_id = Some (ident r), job_kind = kd,
      job_identifiers = identifiers r, job_csr = csr, job_attempts = 0, job_created_at = now\<rparr> now (sv_store s) = (q, k, db)"
    by (rule prod_cases3)
  then obtain b where q: "q = Ok b" and s': "snd (sv_store s') = db"
    using assms res c
    by (auto simp: ensure_issuance_def sv_bind_def sv_store_io_def sv_return_def split: sum.splits if_splits
        dest!: job_added_runs)
  from add_job_stored [of "db_world env" _ now "fst (sv_store s)" "snd (sv_store s)"] add q s' c
  show "\<exists>cid. certificate_id r = Some cid \<and> map_of (jobs (snd (sv_store s'))) cid \<noteq> None"
    by (auto simp: prod.collapse) (metis Job.select_convs(1) option.distinct(1) prod.collapse)
  assume st: "stored (ident r) (snd (sv_store s)) = Some (r, n)"
  from add_job_then [of "db_world env" _ now "fst (sv_store s)" "snd (sv_store s)" b k db] add q
  obtain db2 where "db_world env (fst (sv_store s)) (snd (sv_store s)) = (Answered, db2)" "k = Suc (fst (sv_store s))"
      "tunnels db = tunnels db2" by (metis prod.collapse)
  moreover have "sv_store s' = (k, db)"
    using assms res c add q
    by (auto simp: ensure_issuance_def sv_bind_def sv_store_io_def sv_return_def split: sum.splits if_splits
        dest!: job_added_runs)
  ultimately show "written (db_world env) r n (sv_store s')" using st by (auto simp: written_def)
qed


section \<open>Binding a certificate\<close>

lemma start_issuance_effect:
  assumes "start_issuance env now tid r csr names s = (Ok (Bound c), s')"
  shows "\<exists>r'. e_record (entry_at tid s') = Some r' \<and> certificate r' = Some c \<and> certificate_csr r' = Some csr \<and>
    certificate_identifiers r' = Some names \<and> certificate_id r' = Some (cert_id c) \<and> cert_state c = Issuing \<and>
    token_hash r' = token_hash r \<and> hostname r' = hostname r \<and> deleted_at r' = deleted_at r \<and>
    ident r' = ident r \<and> written (db_world env) r' (e_revision (entry_at tid s')) (sv_store s') \<and>
    map_of (jobs (snd (sv_store s'))) (cert_id c) \<noteq> None"
proof -
  obtain u s1 where u: "new_uuid env s = (Ok u, s1)"
    using assms by (cases "new_uuid env s") (auto simp: start_issuance_def sv_bind_def split: sum.splits)
  define cid where "cid = ''cert_'' @ u"
  define issuing where "issuing = r\<lparr>certificate_id := Some cid, certificate := Some \<lparr>cert_id = cid, cert_state = Issuing\<rparr>,
    certificate_csr := Some csr, certificate_identifiers := Some names, certificate_started_at := Some (iso env now),
    renewal := None\<rparr>"
  obtain s2 where sv: "save env now tid issuing s1 = (Ok (), s2)"
    using assms u
    by (cases "save env now tid issuing s1")
      (auto simp: start_issuance_def sv_bind_def Let_def issuing_def cid_def split: sum.splits)
  define s3 where "s3 = snd (announce (Publish (CertificateChanged tid)) s2)"
  have an: "announce (Publish (CertificateChanged tid)) s2 = (Ok (), s3)"
    unfolding s3_def by (metis announce_entry(2) prod.collapse)
  obtain q s4 where en: "ensure_issuance env now issuing Issue s3 = (q, s4)" by (meson surj_pair)
  have tr: "sv_try (ensure_issuance env now issuing Issue) s3 = (Ok q, s4)" by (simp add: sv_try_def en)
  have "start_issuance env now tid r csr names s =
    (case q of Inr _ \<Rightarrow> (Ok (Bound \<lparr>cert_id = cid, cert_state = Issuing\<rparr>), s4)
     | Inl err \<Rightarrow> sv_bind (save env now tid
         (issuing\<lparr>certificate := Some \<lparr>cert_id = cid, cert_state = Failed (error_text env err)\<rparr>\<rparr>))
         (\<lambda>_. sv_return (BindUnavailable err)) s4)"
    unfolding start_issuance_def sv_bind_run [where m = "new_uuid env", OF u] Let_def cid_def [symmetric] issuing_def [symmetric]
      sv_bind_run [where m = "save env now tid issuing", OF sv]
      sv_bind_run [where m = "announce (Publish (CertificateChanged tid))", OF an]
      sv_bind_run [where m = "sv_try (ensure_issuance env now issuing Issue)", OF tr]
    by (cases q) (simp_all add: sv_return_def)
  then have q: "q = Ok ()" "c = \<lparr>cert_id = cid, cert_state = Issuing\<rparr>" "s' = s4"
    using assms by (auto simp: sv_bind_def sv_return_def split: sum.splits prod.splits)
  have "e_record (entry_at tid s2) = Some issuing" using save_effect [OF sv] by simp
  moreover have "entry_at tid s4 = entry_at tid s2"
    using ensure_issuance_effect(1) [OF en, of tid] by (simp add: s3_def)
  moreover have "stored (ident issuing) (snd (sv_store s3)) = Some (issuing, e_revision (entry_at tid s2))"
    using save_stored [OF sv] by (simp add: s3_def)
  then have "written (db_world env) issuing (e_revision (entry_at tid s2)) (sv_store s4)"
    by (rule ensure_issuance_effect(3) [OF en q(1) refl])
  ultimately show ?thesis
    using ensure_issuance_effect(2) [OF en q(1)] q(2,3) by (intro exI [of _ issuing]) (auto simp: issuing_def)
qed

lemma check_limits_entry: "check_limits env now tid s = (res, s') \<Longrightarrow> entry_at tid' s' = entry_at tid' s"
  by (auto simp: check_limits_def backlog_check_def issuance_verdict_def sv_defs
      split: prod.splits sum.splits option.splits if_splits)


lemma check_limits_not_bound:
  "check_limits env now tid s = (Ok (Some (Bound c)), s') \<Longrightarrow> False"
  by (auto simp: check_limits_def sv_bind_def sv_get_def sv_return_def
      split: prod.splits sum.splits option.splits if_splits Verdict.splits)

text \<open>C7. A certificate request is bound only for the token of the tunnel and only for names of the tunnel:
  its hostname and the wildcard below it. Then the record holds the request and the certificate the
  caller is told, and the job that issues it is in the database. A request that the record read for this
  call did not hold already is written to the database with the record, as the revision the machine keeps, before its
  job is added.\<close>

theorem bound_certificate_authorized:
  assumes "bind_certificate env now tid token csr s = (Ok (Bound c), s')"
  shows "\<exists>r request. e_record (entry_at tid s') = Some r \<and> token_hash r = hash_token (sha256 env) token \<and>
    csr_parse (decode_csr env) csr = Some request \<and> req_hostname request = hostname r \<and>
    set (req_identifiers request) \<subseteq> {hostname r, ''*.'' @ hostname r} \<and>
    certificate r = Some c \<and> certificate_csr r = Some csr \<and> \<not> is_deleted r \<and>
    (\<exists>cid. certificate_id r = Some cid \<and> map_of (jobs (snd (sv_store s'))) cid \<noteq> None) \<and>
    (\<exists>s1 r1. lock_fresh env now tid s = (Ok (), s1) \<and> live_record (entry_at tid s1) = Some r1 \<and> ident r1 = ident r \<and>
      (if certificate r1 \<noteq> None \<and> certificate_csr r1 = Some csr then r = r1
       else written (db_world env) r (e_revision (entry_at tid s')) (sv_store s')))"
proof -
  obtain s1 where l: "lock_fresh env now tid s = (Ok (), s1)"
    using assms by (cases "lock_fresh env now tid s") (auto simp: bind_certificate_def sv_bind_def split: sum.splits)
  obtain r where r: "live_record (entry_at tid s1) = Some r"
    using assms l by (auto simp: bind_certificate_def sv_bind_def sv_get_def sv_return_def split: option.splits)
  then have rec: "e_record (entry_at tid s1) = Some r" "\<not> is_deleted r"
    by (auto simp: live_record_def option_filter_def split: option.splits if_splits)
  note run = assms [unfolded bind_certificate_def sv_bind_run [where m = "lock_fresh env now tid", OF l]
      sv_bind_get r option.case]
  have tok: "token_matches (sha256 env) token (token_hash r)"
    using run by (auto simp: sv_return_def split: if_splits)
  obtain request where q: "csr_parse (decode_csr env) csr = Some request"
    using run tok by (auto simp: sv_return_def split: option.splits)
  have names: "req_hostname request = hostname r" "set (req_identifiers request) \<subseteq> {hostname r, ''*.'' @ hostname r}"
    using run tok q by (auto simp: sv_return_def Let_def list_ex_iff split: if_splits)
  define limits where "limits = sv_bind (check_limits env now tid) (\<lambda>refused.
      case refused of Some b \<Rightarrow> sv_return b | None \<Rightarrow> start_issuance env now tid r csr (req_identifiers request))"
  have new: "\<exists>r'. e_record (entry_at tid s') = Some r' \<and> certificate r' = Some c \<and> certificate_csr r' = Some csr \<and>
      token_hash r' = token_hash r \<and> hostname r' = hostname r \<and> deleted_at r' = deleted_at r \<and>
      (\<exists>cid. certificate_id r' = Some cid \<and> map_of (jobs (snd (sv_store s'))) cid \<noteq> None) \<and>
      ident r = ident r' \<and> written (db_world env) r' (e_revision (entry_at tid s')) (sv_store s')"
    if "limits s1 = (Ok (Bound c), s')"
  proof -
    from that obtain s2 where "start_issuance env now tid r csr (req_identifiers request) s2 = (Ok (Bound c), s')"
      by (auto simp: limits_def sv_bind_def sv_return_def split: prod.splits sum.splits option.splits
          dest!: check_limits_not_bound)
    from start_issuance_effect [OF this] show ?thesis by fastforce
  qed
  consider "limits s1 = (Ok (Bound c), s')" "\<not> (certificate r \<noteq> None \<and> certificate_csr r = Some csr)"
    | "certificate r = Some c" "certificate_csr r = Some csr"
      "ensure_issuance env now r Issue s1 = (Ok (), s')"
    using run tok q names
    by (auto simp: limits_def [symmetric] Let_def sv_return_def sv_bind_try list_ex_iff
        split: option.splits if_splits prod.splits sum.splits)
  then show ?thesis
  proof cases
    case 1
    from new [OF 1(1)] obtain r' where r': "e_record (entry_at tid s') = Some r'" "certificate r' = Some c"
        "certificate_csr r' = Some csr" "token_hash r' = token_hash r" "hostname r' = hostname r" "deleted_at r' = deleted_at r"
        "\<exists>cid. certificate_id r' = Some cid \<and> map_of (jobs (snd (sv_store s'))) cid \<noteq> None"
        "ident r = ident r'" "written (db_world env) r' (e_revision (entry_at tid s')) (sv_store s')" by blast
    show ?thesis
      by (rule exI [of _ r'], rule exI [of _ request])
        (use r' tok q names rec(2) l r 1(2) in \<open>auto simp: token_matches_iff is_deleted_def\<close>)
  next
    case 2
    then show ?thesis
      using ensure_issuance_effect(1) [OF 2(3), of tid] ensure_issuance_effect(2) [OF 2(3)] rec tok q names l r
      by (intro exI [of _ r] exI [of _ request]) (simp add: token_matches_iff)
  qed
qed


definition example_bind_env :: Env
  where "example_bind_env = example_env\<lparr>decode_csr := (\<lambda>_. Some \<lparr>iter_common_name = [Some ''t.x.dev''], requested_extensions = None\<rparr>)\<rparr>"

definition example_bound :: StoredTunnel
  where "example_bound = example_record\<lparr>certificate_csr := Some ''csr''\<rparr>"

definition example_bind_service :: Service
  where "example_bind_service = example_service\<lparr>entries :=
    [(''t'', EntryState_default\<lparr>loaded_entry := True, e_record := Some example_bound\<rparr>)]\<rparr>"

definition example_new_service :: Service
  where "example_new_service = example_service\<lparr>entries :=
    [(''t'', EntryState_default\<lparr>loaded_entry := True, e_record := Some example_record, e_revision := 1\<rparr>)]\<rparr>"

lemma example_start_issuance:
  "\<exists>c s1. start_issuance example_bind_env 0 ''t'' example_record ''csr'' [''t.x.dev''] (entry ''t'' example_new_service) = (Ok (Bound c), s1)"
proof -
  obtain u where "uuid (random example_env 0) = Some u" using example_uuid by blast
  then have u: "new_uuid example_bind_env (entry ''t'' example_new_service) =
      (Ok u, (entry ''t'' example_new_service)\<lparr>uuids := Suc 0\<rparr>)"
    by (simp add: new_uuid_def example_bind_env_def example_env_def example_new_service_def example_service_def)
  show ?thesis
    unfolding start_issuance_def sv_bind_run [where m = "new_uuid example_bind_env", OF u]
    by (simp add: save_def save_tunnel_def update_tunnel_def update_row_def insert_tunnel_def
      insert_row_def empty_db_def ensure_issuance_def add_job_def insert_job_def sv_defs io_bind_def io_return_def
      example_bind_env_def example_env_def example_new_service_def example_service_def example_record_def
      EntryState_default_def entry_def entry_at_def set_entry_def job_added_def announce_def Let_def case_prod_unfold)
qed

theorem bound_certificate_authorized_witness:
  "\<exists>c s r n. bind_certificate example_bind_env 0 ''t'' ''k'' ''csr'' example_new_service = (Ok (Bound c), s) \<and>
     e_record (entry_at ''t'' s) = Some r \<and> certificate_csr r = Some ''csr'' \<and>
     stored ''t'' (snd (sv_store s)) = Some (r, n) \<and> map_of (jobs (snd (sv_store s))) (the (certificate_id r)) \<noteq> None"
proof -
  let ?s = "entry ''t'' example_new_service"
  have e: "entry_at ''t'' example_new_service = EntryState_default\<lparr>loaded_entry := True, e_record := Some example_record, e_revision := 1\<rparr>"
    "\<not> clustered example_new_service" "sv_limits example_new_service = None"
    by (simp_all add: example_new_service_def entry_at_def example_service_def)
  then have l: "lock_fresh example_bind_env 0 ''t'' example_new_service = (Ok (), ?s)"
    by (simp add: lock_fresh_def sv_defs lock_loaded [unfolded sv_defs])
  have r: "live_record (entry_at ''t'' ?s) = Some example_record"
    by (simp add: e live_record_def option_filter_def example_record_def is_deleted_def)
  have tok: "token_matches (sha256 example_bind_env) ''k'' (token_hash example_record)"
    by (simp add: token_matches_iff example_bind_env_def example_env_def example_record_def
        hash_token_def hex_bytes_def) code_simp
  have q: "csr_parse (decode_csr example_bind_env) ''csr'' = Some \<lparr>req_hostname = ''t.x.dev'', req_identifiers = [''t.x.dev'']\<rparr>"
    by (simp add: csr_parse_def example_bind_env_def List.map_filter_def Let_def)
  obtain c s1 where st: "start_issuance example_bind_env 0 ''t'' example_record ''csr'' [''t.x.dev''] ?s = (Ok (Bound c), s1)"
    using example_start_issuance by blast
  have "bind_certificate example_bind_env 0 ''t'' ''k'' ''csr'' example_new_service = (Ok (Bound c), s1)"
    unfolding bind_certificate_def sv_bind_run [where m = "lock_fresh example_bind_env 0 ''t''", OF l] sv_bind_get r q option.case
    using tok st e(3)
    by (simp add: example_record_def certificate_pending_def check_limits_def sv_bind_get sv_bind_run sv_return_def)
  from bound_certificate_authorized [OF this] this obtain r n where
    "bind_certificate example_bind_env 0 ''t'' ''k'' ''csr'' example_new_service = (Ok (Bound c), s1)"
    "e_record (entry_at ''t'' s1) = Some r" "certificate_csr r = Some ''csr''" "ident r = ''t''"
    "\<exists>cid. certificate_id r = Some cid \<and> map_of (jobs (snd (sv_store s1))) cid \<noteq> None"
    "written quiet r n (sv_store s1)"
    using l r by (auto simp: example_record_def example_bind_env_def example_env_def split: if_splits)
  then show ?thesis by (fastforce simp: written_def quiet_def stored_def)
qed

section \<open>Renewals\<close>

lemma live_record_same: "e_record e' = e_record e \<Longrightarrow> live_record e' = live_record e"
  by (simp add: live_record_def)

lemma save_live:
  assumes "save env now tid r' s = (res, s')" "live_record (entry_at tid s) = Some r" "\<not> is_deleted r'"
  shows "\<not> loaded_entry (entry_at tid s') \<or> (live_record (entry_at tid s') = Some r' \<and> res = Ok ()) \<or>
    (live_record (entry_at tid s') = Some r \<and> (\<exists>e. res = Err e))"
  using save_effect [OF assms(1)] assms(2,3)
  by (auto simp: live_record_def option_filter_def split: sum.splits if_splits)

lemma schedule_renewal_entry: "entry_at tid (snd (schedule_renewal env now r s)) = entry_at tid s"
  by (simp add: schedule_renewal_def sv_return_def split: option.splits)

lemma update_renewal_live:
  assumes "update_renewal env now tid r cid st s = (res, s')" "live_record (entry_at tid s) = Some r" "\<not> is_deleted r"
  shows "\<not> loaded_entry (entry_at tid s') \<or> (\<exists>r'. live_record (entry_at tid s') = Some r' \<and>
    (certificate r' = certificate r \<or> is_ready st \<and> certificate r' = Some \<lparr>cert_id = cid, cert_state = st\<rparr>))"
proof (cases "is_ready st \<or> is_failed st")
  case True
  define r' where "r' = (if is_ready st then r\<lparr>certificate_id := Some cid,
      certificate := Some \<lparr>cert_id = cid, cert_state = st\<rparr>, renewal := None\<rparr> else r\<lparr>renewal := None\<rparr>)"
  obtain q s1 where sv: "save env now tid r' s = (q, s1)" by (meson surj_pair)
  have "entry_at tid s' = entry_at tid s1"
    using assms(1) True sv
    by (auto simp: update_renewal_def r'_def is_ready_def is_failed_def sv_bind_def Let_def
        split: CertificateState.splits sum.splits prod.splits if_splits
        dest!: arg_cong [of _ _ snd] simp: announce_def sv_modify_def schedule_renewal_entry)
  moreover have "\<not> is_deleted r'" using assms(3) by (simp add: r'_def is_deleted_def)
  ultimately show ?thesis using save_live [OF sv assms(2)] by (auto simp: r'_def split: if_splits)
next
  case False
  then have "s' = s" using assms(1)
    by (auto simp: update_renewal_def is_ready_def is_failed_def sv_return_def split: CertificateState.splits)
  then show ?thesis using assms(2) by auto
qed


lemma start_renewal_live:
  assumes "start_renewal env now tid r s = (res, s')" "live_record (entry_at tid s) = Some r" "\<not> is_deleted r"
  shows "\<not> loaded_entry (entry_at tid s') \<or>
    (\<exists>r'. live_record (entry_at tid s') = Some r' \<and> certificate r' = certificate r)"
proof -
  have keep: "\<not> loaded_entry (entry_at tid s2) \<or> (\<exists>r'. live_record (entry_at tid s2) = Some r' \<and> certificate r' = certificate r)"
    if "save env now tid x s1 = (q, s2)" "live_record (entry_at tid s1) = Some y" "certificate y = certificate r"
      "certificate x = certificate r" "deleted_at x = deleted_at r" for x y q s1 s2
    using save_live [OF that(1,2)] that assms(3) by (auto simp: is_deleted_def)
  show ?thesis
  proof (cases "certificate_csr r = None \<or> (\<exists>e s1. new_uuid env s = (Err e, s1))")
    case True
    then have "entry_at tid s' = entry_at tid s"
      using assms(1) by (auto simp: start_renewal_def sv_return_def sv_bind_def new_uuid_def split: option.splits if_splits)
    then show ?thesis using assms(2) by auto
  next
    case False
    then obtain u s1 where u: "new_uuid env s = (Ok u, s1)" by (metis sumE surj_pair)
    have e1: "live_record (entry_at tid s1) = Some r"
      using u assms(2) by (auto simp: new_uuid_def split: option.splits)
    define x where "x = r\<lparr>renewal := Some \<lparr>renewal_id = ''cert_'' @ u, started_at = iso env now\<rparr>\<rparr>"
    obtain q s2 where sv: "save env now tid x s1 = (q, s2)" by (meson surj_pair)
    obtain q2 s3 where en: "ensure_issuance env now x Renew s2 = (q2, s3)" by (meson surj_pair)
    obtain q3 s4 where sv2: "save env now tid r s3 = (q3, s4)" by (meson surj_pair)
    have csr: "(certificate_csr r = None) = False" using False by simp
    have run: "start_renewal env now tid r s = (case q of Inl e \<Rightarrow> (Err e, s2) | Inr _ \<Rightarrow>
        (case q2 of Inr _ \<Rightarrow> (Ok (), s3) | Inl _ \<Rightarrow>
          (case q3 of Inl e \<Rightarrow> (Err e, s4)
           | Inr _ \<Rightarrow> sv_store_io (set_alarm (db_world env) (ident r) (Some (now + RENEWAL_RETRY_MS))) s4)))"
      unfolding start_renewal_def csr if_False sv_bind_run [where m = "new_uuid env", OF u] Let_def x_def [symmetric]
      by (auto simp: sv_bind_def [of "save _ _ _ _"] sv_bind_try sv_return_def sv en sv2 split: sum.splits)
    have two: "\<not> loaded_entry (entry_at tid s2) \<or> (\<exists>r'. live_record (entry_at tid s2) = Some r' \<and> certificate r' = certificate r)"
      by (rule keep [OF sv e1]) (simp_all add: x_def)
    have three: "entry_at tid s3 = entry_at tid s2" by (rule ensure_issuance_effect(1) [OF en])
    have four: "\<not> loaded_entry (entry_at tid s4) \<or> (\<exists>r'. live_record (entry_at tid s4) = Some r' \<and> certificate r' = certificate r)"
    proof (cases "loaded_entry (entry_at tid s3)")
      case True
      then obtain y where "live_record (entry_at tid s3) = Some y" "certificate y = certificate r" using two three by auto
      then show ?thesis by (rule keep [OF sv2]) simp_all
    next
      case False
      then show ?thesis using save_effect [OF sv2] by (auto split: sum.splits if_splits)
    qed
    show ?thesis
      using assms(1) two three four unfolding run
      by (auto split: sum.splits dest!: arg_cong [of _ _ "\<lambda>p. entry_at tid (snd p)"])
  qed
qed

text \<open>C8. A renewal never takes a working certificate away. While a tunnel has one, starting a renewal and every
  state a renewal reports, failures included, leave it in the record; only a ready certificate takes
  its place. (A record that another machine changed meanwhile is forgotten and read again.)\<close>

theorem renewal_keeps_certificate:
  assumes "lock_fresh env now tid s = (Ok (), s1)" "live_record (entry_at tid s1) = Some r" "certificate_ready r"
  shows "(is_renewal r cid \<and> update_certificate env now tid cid st s = (res, s') \<longrightarrow>
      \<not> loaded_entry (entry_at tid s') \<or> (\<exists>r'. live_record (entry_at tid s') = Some r' \<and> certificate_ready r' \<and>
        (certificate r' = certificate r \<or> is_ready st \<and> certificate r' = Some \<lparr>cert_id = cid, cert_state = st\<rparr>))) \<and>
    (start_renewal env now tid r s1 = (res', s'') \<longrightarrow>
      \<not> loaded_entry (entry_at tid s'') \<or> (\<exists>r'. live_record (entry_at tid s'') = Some r' \<and> certificate_ready r' \<and>
        certificate r' = certificate r))"
proof -
  have live: "\<not> is_deleted r" using assms(2) by (auto simp: live_record_def option_filter_def split: option.splits if_splits)
  have ready: "certificate_ready r'" if "certificate r' = certificate r \<or>
      is_ready st \<and> certificate r' = Some \<lparr>cert_id = cid, cert_state = st\<rparr>" for r'
    using that assms(3) by (auto simp: certificate_ready_def ready_expiry_def is_ready_def
        split: option.splits CertificateState.splits)
  have "\<not> loaded_entry (entry_at tid s') \<or> (\<exists>r'. live_record (entry_at tid s') = Some r' \<and> certificate_ready r' \<and>
        (certificate r' = certificate r \<or> is_ready st \<and> certificate r' = Some \<lparr>cert_id = cid, cert_state = st\<rparr>))"
    if "is_renewal r cid" "update_certificate env now tid cid st s = (res, s')"
  proof -
    obtain q s2 where u: "update_renewal env now tid r cid st s1 = (q, s2)" by (meson surj_pair)
    have "update_certificate env now tid cid st s = (case q of Inl e \<Rightarrow> (Err e, s2) | Inr _ \<Rightarrow> (Ok True, s2))"
      unfolding update_certificate_def sv_bind_run [where m = "lock_fresh env now tid", OF assms(1)] sv_bind_get assms(2) option.case
      using that(1) u by (auto simp: sv_bind_def sv_return_def split: sum.splits)
    then have "s' = s2" using that(2) by (auto split: sum.splits)
    with update_renewal_live [OF u assms(2) live] ready show ?thesis by blast
  qed
  moreover have "\<not> loaded_entry (entry_at tid s'') \<or> (\<exists>r'. live_record (entry_at tid s'') = Some r' \<and>
      certificate_ready r' \<and> certificate r' = certificate r)" if "start_renewal env now tid r s1 = (res', s'')"
    using start_renewal_live [OF that assms(2) live] ready by blast
  ultimately show ?thesis by blast
qed

theorem renewal_keeps_certificate_witness:
  "\<exists>res s. start_renewal example_bind_env 0 ''t'' example_bound (entry ''t'' example_bind_service) = (res, s) \<and>
    (loaded_entry (entry_at ''t'' s) = False \<or>
     (\<exists>r. live_record (entry_at ''t'' s) = Some r \<and> certificate_ready r \<and> certificate r = certificate example_bound))"
proof -
  have e: "entry_at ''t'' example_bind_service = EntryState_default\<lparr>loaded_entry := True, e_record := Some example_bound\<rparr>"
    "\<not> clustered example_bind_service"
    by (simp_all add: example_bind_service_def entry_at_def example_service_def)
  then have l: "lock_fresh example_bind_env 0 ''t'' example_bind_service = (Ok (), entry ''t'' example_bind_service)"
    by (simp add: lock_fresh_def sv_defs lock_loaded [unfolded sv_defs])
  have r: "live_record (entry_at ''t'' (entry ''t'' example_bind_service)) = Some example_bound" "certificate_ready example_bound"
    by (simp_all add: e live_record_def option_filter_def example_bound_def example_record_def is_deleted_def
        certificate_ready_def ready_expiry_def)
  obtain res s where run: "start_renewal example_bind_env 0 ''t'' example_bound (entry ''t'' example_bind_service) = (res, s)"
    by (meson surj_pair)
  from renewal_keeps_certificate [OF l r] run show ?thesis by blast
qed

end
