(* ===== verification/Sockets.thy ===== *)
theory Sockets
  imports Addresses
begin

text \<open>
  Socket addresses as text: the parser of \<^verbatim>\<open>std::net::SocketAddr\<close>, which the links between
  machines use for the addresses the machines tell each other, and that it reads back what the
  printer writes. The scope of an IPv6 address is read beside the address; flow labels have no text.
\<close>

definition read_port :: "string \<Rightarrow> (nat \<times> string) option"
  where "read_port s = read_number 10 (length s) 65535 True s"

definition read_scope_id :: "string \<Rightarrow> (nat \<times> string) option"
  where "read_scope_id s = do {
    s \<leftarrow> read_given_char CHR ''%'' s;
    read_number 10 (length s) (2 ^ 32 - 1) True s }"

definition read_socket_v4 :: "string \<Rightarrow> ((SocketAddr \<times> nat) \<times> string) option"
  where "read_socket_v4 s = do {
    (ip, s) \<leftarrow> read_ipv4_addr s;
    s \<leftarrow> read_given_char CHR '':'' s;
    (port, s) \<leftarrow> read_port s;
    Some ((\<lparr>sock_ip = IpV4 ip, sock_port = word_of_nat port\<rparr>, 0), s) }"

definition read_socket_v6 :: "string \<Rightarrow> ((SocketAddr \<times> nat) \<times> string) option"
  where "read_socket_v6 s = do {
    s \<leftarrow> read_given_char CHR ''['' s;
    (ip, s) \<leftarrow> read_ipv6_addr s;
    (scope, s) \<leftarrow> Some (case read_scope_id s of None \<Rightarrow> (0, s) | Some found \<Rightarrow> found);
    s \<leftarrow> read_given_char CHR '']'' s;
    s \<leftarrow> read_given_char CHR '':'' s;
    (port, s) \<leftarrow> read_port s;
    Some ((\<lparr>sock_ip = IpV6 ip, sock_port = word_of_nat port\<rparr>, scope), s) }"

definition parse_scoped_addr :: "string \<Rightarrow> (SocketAddr \<times> nat) option"
  where "parse_scoped_addr s =
    finished (case read_socket_v4 s of Some found \<Rightarrow> Some found | None \<Rightarrow> read_socket_v6 s)"

definition parse_socket_addr :: "string \<Rightarrow> SocketAddr option"
  where "parse_socket_addr s = map_option fst (parse_scoped_addr s)"

section \<open>A reader stops at a character it has no use for\<close>

text \<open>\<open>stops c f\<close>: what follows a \<open>c\<close> does not matter to \<open>f\<close>, which leaves the \<open>c\<close> unread.\<close>

definition stops :: "char \<Rightarrow> (string \<Rightarrow> ('a \<times> string) option) \<Rightarrow> bool"
  where "stops c f \<longleftrightarrow> (\<forall>s r. f (s @ c # r) = map_option (apsnd (\<lambda>t. t @ c # r)) (f s))"

lemma stopsI: "(\<And>s r. f (s @ c # r) = map_option (apsnd (\<lambda>t. t @ c # r)) (f s)) \<Longrightarrow> stops c f"
  by (simp add: stops_def)

lemma stopsD: "stops c f \<Longrightarrow> f (s @ c # r) = map_option (apsnd (\<lambda>t. t @ c # r)) (f s)"
  by (simp add: stops_def)

lemma span_stop:
  assumes "\<not> P c"
  shows "takeWhile P (s @ c # r) = takeWhile P s" "dropWhile P (s @ c # r) = dropWhile P s @ c # r"
  using assms by (induction s) auto

lemma stops_number: "to_digit radix c = None \<Longrightarrow> stops c (read_number radix n limit zeros)"
  by (rule stopsI) (auto simp: read_number_def span_stop Let_def)

lemma given_char_stop:
  "c \<noteq> d \<Longrightarrow> read_given_char d (s @ c # r) = map_option (\<lambda>t. t @ c # r) (read_given_char d s)"
  by (cases s) (auto simp: read_given_char_def strip_prefix_def)

lemma stops_separator:
  assumes "stops c f" "c \<noteq> sep"
  shows "stops c (read_separator sep i f)"
proof (rule stopsI)
  fix s r
  show "read_separator sep i f (s @ c # r) = map_option (apsnd (\<lambda>t. t @ c # r)) (read_separator sep i f s)"
    using assms by (cases "read_given_char sep s") (auto simp: read_separator_def given_char_stop stopsD)
qed

lemma stops_octet: "\<not> is_ascii_digit c \<Longrightarrow> stops c read_octet"
  unfolding read_octet_def by (rule stops_number) (simp add: to_digit_10 digit_value_def)

lemma stops_ipv4:
  assumes "\<not> is_ascii_digit c" "c \<noteq> CHR ''.''"
  shows "stops c read_ipv4_addr"
proof (rule stopsI)
  fix s r
  have part: "read_separator CHR ''.'' i read_octet (t @ c # r) =
      map_option (apsnd (\<lambda>t. t @ c # r)) (read_separator CHR ''.'' i read_octet t)" for i t
    using assms by (intro stopsD stops_separator stops_octet)
  show "read_ipv4_addr (s @ c # r) = map_option (apsnd (\<lambda>t. t @ c # r)) (read_ipv4_addr s)"
    unfolding read_ipv4_addr_def
    by (auto simp: part bind_eq_None_conv split: bind_splits)
qed

lemma read_groups_stop:
  assumes "to_digit 16 c = None" "c \<noteq> CHR ''.''" "c \<noteq> CHR '':''"
  shows "read_groups limit i (s @ c # r) = (case read_groups limit i s of (segs, v4, t) \<Rightarrow> (segs, v4, t @ c # r))"
proof (induction limit i s rule: read_groups.induct)
  case (1 limit i s)
  have digit: "\<not> is_ascii_digit c"
    using assms(1)
    by (auto simp: to_digit_def hex_digit_value_def option_filter_def is_ascii_digit_def split: if_splits)
  have v4: "read_separator CHR '':'' i read_ipv4_addr (s @ c # r) =
      map_option (apsnd (\<lambda>t. t @ c # r)) (read_separator CHR '':'' i read_ipv4_addr s)"
    using assms digit by (intro stopsD stops_separator stops_ipv4)
  have number: "read_separator CHR '':'' i (read_number 16 4 65535 True) (s @ c # r) =
      map_option (apsnd (\<lambda>t. t @ c # r)) (read_separator CHR '':'' i (read_number 16 4 65535 True) s)"
    using assms by (intro stopsD stops_separator stops_number)
  note IH = 1
  show ?case
  proof (cases "limit \<le> i")
    case True
    then show ?thesis by (simp add: read_groups.simps [of limit i])
  next
    case False
    show ?thesis
    proof (cases "if i < limit - 1 then read_separator CHR '':'' i read_ipv4_addr s else None")
      case None
      show ?thesis
      proof (cases "read_separator CHR '':'' i (read_number 16 4 65535 True) s")
        case sep: None
        with None False show ?thesis
          by (simp add: read_groups.simps [of limit i] v4 number split: if_splits)
      next
        case (Some found)
        obtain seg t where found: "found = (seg, t)" by fastforce
        have "read_groups limit (Suc i) (t @ c # r) =
            (case read_groups limit (Suc i) t of (segs, v4, t) \<Rightarrow> (segs, v4, t @ c # r))"
          using IH [OF False None Some] found by simp
        with None False Some found show ?thesis
          by (simp add: read_groups.simps [of limit i] v4 number split: if_splits prod.splits)
      qed
    next
      case (Some found)
      with False show ?thesis
        by (cases found) (simp add: read_groups.simps [of limit i] v4 split: if_splits)
    qed
  qed
qed

lemma stops_ipv6:
  assumes "to_digit 16 c = None" "c \<noteq> CHR ''.''" "c \<noteq> CHR '':''"
  shows "stops c read_ipv6_addr"
proof (rule stopsI)
  fix s r
  obtain segs v4 t where h: "read_groups 8 0 s = (segs, v4, t)" by (metis prod_cases3)
  have h': "read_groups 8 0 (s @ c # r) = (segs, v4, t @ c # r)"
    by (simp only: read_groups_stop [OF assms] h prod.case)
  have tail: "read_groups n 0 (u @ c # r) = (case read_groups n 0 u of (segs, v4, t) \<Rightarrow> (segs, v4, t @ c # r))" for n u
    by (rule read_groups_stop [OF assms])
  have colon: "read_given_char CHR '':'' (u @ c # r) = map_option (\<lambda>t. t @ c # r) (read_given_char CHR '':'' u)" for u
    by (rule given_char_stop [OF assms(3)])
  show "read_ipv6_addr (s @ c # r) = map_option (apsnd (\<lambda>t. t @ c # r)) (read_ipv6_addr s)"
  proof (cases "length segs = 8 \<or> v4")
    case True
    then show ?thesis by (auto simp: read_ipv6_addr_def h h' simp del: read_groups.simps)
  next
    case False
    show ?thesis
    proof (cases "Option.bind (read_given_char CHR '':'' t) (read_given_char CHR '':'')")
      case None
      with False show ?thesis
        by (cases "read_given_char CHR '':'' t") (simp_all add: read_ipv6_addr_def h h' colon del: read_groups.simps)
    next
      case (Some u)
      obtain w where w: "read_given_char CHR '':'' t = Some w" "read_given_char CHR '':'' w = Some u"
        using Some by (cases "read_given_char CHR '':'' t") auto
      obtain segs' v4' x where g: "read_groups (8 - (length segs + 1)) 0 u = (segs', v4', x)"
        by (metis prod_cases3)
      have g': "read_groups (8 - (length segs + 1)) 0 (u @ c # r) = (segs', v4', x @ c # r)"
        by (simp only: tail g prod.case)
      from False show ?thesis
        by (simp only: read_ipv6_addr_def h h' colon w g g' prod.case if_False de_Morgan_disj
            Option.bind.simps option.map apsnd_conv)
    qed
  qed
qed

section \<open>Reading back what is printed\<close>

lemma read_port_show: "read_port (show_nat (unat (p :: u16))) = Some (unat p, [])"
proof -
  let ?s = "show_nat (unat p)"
  have digits: "to_digit 10 c \<noteq> None" if "c \<in> set ?s" for c
    using show_nat_digits [OF that] by (simp add: to_digit_10 digit_value_def)
  then have "takeWhile (\<lambda>c. to_digit 10 c \<noteq> None) ?s = ?s" "dropWhile (\<lambda>c. to_digit 10 c \<noteq> None) ?s = []"
    by (simp_all add: takeWhile_eq_all_conv)
  moreover have "unat p \<le> 65535" using unsigned_less [of p, where ?'a = nat] by simp
  ultimately show ?thesis
    unfolding read_port_def read_number_def by (simp only: Let_def digits_value_show_nat) simp
qed

lemma read_ipv6_bracket: "read_ipv6_addr (show_ipv6 a @ CHR '']'' # r) = Some (a, CHR '']'' # r)"
proof -
  have "to_digit 16 CHR '']'' = None" by code_simp
  then have "stops CHR '']'' read_ipv6_addr" by (intro stops_ipv6) auto
  then show ?thesis by (simp add: stopsD read_ipv6_show)
qed

lemma read_ipv4_colon: "read_ipv4_addr (show_ipv4 a @ CHR '':'' # r) = Some (a, CHR '':'' # r)"
proof -
  have "stops CHR '':'' read_ipv4_addr" by (intro stops_ipv4) (simp_all add: is_ascii_digit_def)
  then show ?thesis using read_ipv4_show [of "[]" a] by (simp add: stopsD)
qed

lemma read_socket_v4_bracket: "read_socket_v4 (CHR ''['' # s) = None"
proof -
  have "read_octet (CHR ''['' # s) = None"
    by (simp add: read_octet_def read_number_def to_digit_def hex_digit_value_def is_ascii_digit_def
        option_filter_def)
  then show ?thesis by (simp add: read_socket_v4_def read_ipv4_addr_def read_separator_def)
qed

lemma parse_scoped_addr_show: "parse_scoped_addr (show_socket_addr addr) = Some (addr, 0)"
proof (cases "sock_ip addr")
  case (IpV4 ip)
  then have "addr = \<lparr>sock_ip = IpV4 ip, sock_port = sock_port addr\<rparr>" by (cases addr) simp
  then show ?thesis
    by (simp add: parse_scoped_addr_def read_socket_v4_def show_socket_addr_def IpV4 read_ipv4_colon
        read_given_char_def strip_prefix_def read_port_show finished_def)
next
  case (IpV6 ip)
  then have "addr = \<lparr>sock_ip = IpV6 ip, sock_port = sock_port addr\<rparr>" by (cases addr) simp
  then show ?thesis
    by (simp add: parse_scoped_addr_def read_socket_v4_bracket read_socket_v6_def show_socket_addr_def IpV6
        read_ipv6_bracket read_scope_id_def read_given_char_def strip_prefix_def read_port_show finished_def)
qed

lemma parse_socket_addr_show [text_simps]: "parse_socket_addr (show_socket_addr addr) = Some addr"
  by (simp add: parse_socket_addr_def parse_scoped_addr_show)

end
