(* ===== verification/Mesh.thy ===== *)
theory Mesh
  imports Sockets Utf8 Limits Peer_Auth Service "HOL-Library.AList" "HOL-Library.List_Lexorder" "HOL-Library.Char_ord"
begin

text \<open>
  The links between machines (\<^verbatim>\<open>crates/opentunnel-server/src/mesh.rs\<close>): the table of this
  machine's bridges and the queues it is announced on, the tables the other machines announced,
  the handshake of a link, what a frame does, which of two links to a machine is kept, and how
  peers are found and dialed.

  Hash maps are association lists with distinct keys: the order in which a map is walked is the
  list's, and no theorem depends on it. A queue holds the frames themselves; \<open>mesh_encode\<close> and \<open>read_frame\<close>
  are the bytes on the wire, with serde's JSON as a parameter. Sequence numbers are 64-bit words and
  wrap. A cancellation token is the number of its link in \<open>m_cancelled\<close>. Name lookups, nonces, the
  clock and HMAC are parameters. Metrics, logging and the sockets a test keeps open are left out.
\<close>

section \<open>Constants, frames and state\<close>

definition MESH_MAGIC :: string where "MESH_MAGIC = ''OPENTUNNEL-MESH/2 ''"
definition ACCEPT_LABEL :: string where "ACCEPT_LABEL = ''opentunnel mesh/2 accept''"
definition DIAL_LABEL :: string where "DIAL_LABEL = ''opentunnel mesh/2 dial''"
definition MESH_VERSION :: u32 where "MESH_VERSION = 1"
definition MESH_MAX_FRAME :: nat where "MESH_MAX_FRAME = 16 * 2 ^ 20"
definition MAX_HELLO :: nat where "MAX_HELLO = 4 * 2 ^ 10"
definition SNAPSHOT_CHUNK :: nat where "SNAPSHOT_CHUNK = 4 * 2 ^ 20"
definition MAX_CLOCK_AHEAD_MS :: nat where "MAX_CLOCK_AHEAD_MS = 5000"
definition LINK_QUEUE :: nat where "LINK_QUEUE = 200000"
definition FIRST_BACKOFF_MS :: nat where "FIRST_BACKOFF_MS = 200"
definition MAX_BACKOFF_MS :: nat where "MAX_BACKOFF_MS = 5000"
definition FORGET_AFTER_MS :: nat where "FORGET_AFTER_MS = 30000"

record MeshConfig =
  mc_dns :: "string option"
  mc_peers :: "string list"
  machine_dns :: "string option"
  verify_address :: bool
  snapshot_chunk :: nat

definition MeshConfig_default :: MeshConfig
  where "MeshConfig_default = \<lparr>mc_dns = None, mc_peers = [], machine_dns = None, verify_address = True,
    snapshot_chunk = SNAPSHOT_CHUNK\<rparr>"

record Entry =
  me_tunnel :: string
  me_bridge :: nat
  me_routes :: "string list"
  me_attached_at :: nat

record Hello =
  h_version :: u32
  h_machine :: string
  h_region :: string
  h_address :: string
  h_epoch :: nat
  h_started_at :: nat
  h_draining :: bool

datatype Frame =
  F_hello Hello
| F_snapshot nat u64 nat "Entry list" bool
| F_snapshot_part "Entry list" bool
| F_attached u64 nat Entry
| F_detached u64 nat string nat
| F_event nat Event
| F_ping nat
| F_unknown

datatype Notice = N_event Event | N_link_up

record Location =
  loc_machine :: string
  loc_region :: string
  loc_address :: string

text \<open>A link's queue is what has been announced and not yet written to the link.\<close>

record Local =
  l_seq :: u64
  l_entries :: "(nat \<times> Entry) list"
  l_links :: "(nat \<times> Frame list) list"

record Peer =
  p_hello :: Hello
  p_link :: nat
  p_dialer :: string
  p_connected_at :: nat
  p_seq :: u64
  p_entries :: "(nat \<times> Entry) list"
  snapshot_open :: bool

record Remote =
  r_peers :: "(string \<times> Peer) list"
  r_index :: "string \<rightharpoonup> (string \<times> nat) list"

definition index_add :: "string \<Rightarrow> Entry \<Rightarrow> (string \<rightharpoonup> (string \<times> nat) list) \<Rightarrow> (string \<rightharpoonup> (string \<times> nat) list)"
  where "index_add machine e index =
    index(me_tunnel e \<mapsto> List.insert (machine, me_bridge e)
      (case index (me_tunnel e) of Some hs \<Rightarrow> hs | None \<Rightarrow> []))"

definition index_remove :: "string \<Rightarrow> Entry \<Rightarrow> (string \<rightharpoonup> (string \<times> nat) list) \<Rightarrow> (string \<rightharpoonup> (string \<times> nat) list)"
  where "index_remove machine e index =
    (case index (me_tunnel e) of
       None \<Rightarrow> index
     | Some hs \<Rightarrow>
         let hs = filter (\<lambda>h. h \<noteq> (machine, me_bridge e)) hs
         in if hs = [] then index(me_tunnel e := None) else index(me_tunnel e \<mapsto> hs))"

definition index_remove_all :: "string \<Rightarrow> (nat \<times> Entry) list \<Rightarrow> (string \<rightharpoonup> (string \<times> nat) list)
    \<Rightarrow> (string \<rightharpoonup> (string \<times> nat) list)"
  where "index_remove_all machine es index = fold (\<lambda>(_, e). index_remove machine e) es index"

definition Remote_clear :: "string \<Rightarrow> Remote \<Rightarrow> Remote"
  where "Remote_clear machine r =
    (case map_of (r_peers r) machine of
       None \<Rightarrow> r
     | Some p \<Rightarrow> r\<lparr>r_peers := AList.update machine (p\<lparr>p_entries := []\<rparr>) (r_peers r),
         r_index := index_remove_all machine (p_entries p) (r_index r)\<rparr>)"

datatype AddressState = A_connecting | A_up | A_unreachable

record Address =
  a_state :: AddressState
  a_current :: bool
  a_static :: bool
  a_seen :: nat

record Mesh =
  m_id :: string
  m_region :: string
  m_epoch :: nat
  m_started_at :: nat
  m_address :: "string option"
  m_advertised :: "string option"
  m_config :: MeshConfig
  m_statics :: "string list"
  m_local :: Local
  m_remote :: Remote
  m_addresses :: "(SocketAddr \<times> Address) list"
  m_notices :: "Notice list"
  m_next_link :: nat
  m_draining :: bool
  m_partitioned :: "string list"
  m_cancelled :: "nat list"

definition Mesh_new :: "string \<Rightarrow> string \<Rightarrow> nat \<Rightarrow> nat \<Rightarrow> MeshConfig \<Rightarrow> Mesh"
  where "Mesh_new machine region epoch now config = \<lparr>m_id = machine, m_region = region, m_epoch = epoch,
    m_started_at = now, m_address = None, m_advertised = None, m_config = config, m_statics = mc_peers config,
    m_local = \<lparr>l_seq = 0, l_entries = [], l_links = []\<rparr>,
    m_remote = \<lparr>r_peers = [], r_index = Map.empty\<rparr>,
    m_addresses = [], m_notices = [], m_next_link = 1, m_draining = False, m_partitioned = [],
    m_cancelled = []\<rparr>"

text \<open>The address can be set once.\<close>

definition set_address :: "string \<Rightarrow> Mesh \<Rightarrow> Mesh"
  where "set_address address m = (if m_address m = None then m\<lparr>m_address := Some address\<rparr> else m)"

definition mesh_address :: "Mesh \<Rightarrow> string"
  where "mesh_address m = (case m_address m of Some a \<Rightarrow> a | None \<Rightarrow> [])"

definition own_address :: "Mesh \<Rightarrow> SocketAddr option"
  where "own_address m = parse_socket_addr (mesh_address m)"

definition mesh_hello :: "Mesh \<Rightarrow> Hello"
  where "mesh_hello m = \<lparr>h_version = MESH_VERSION, h_machine = m_id m, h_region = m_region m,
    h_address = (case m_advertised m of Some a \<Rightarrow> a | None \<Rightarrow> mesh_address m),
    h_epoch = m_epoch m, h_started_at = m_started_at m, h_draining = m_draining m\<rparr>"

section \<open>Errors and frames on the wire\<close>

datatype mesh_error = Malformed_greeting | Linked_to_itself | Failed_challenge | No_greeting | Not_text
| No_hello | Another_machine | Bad_address | Wrong_address | Link_replaced | Second_hello | Another_epoch
| Part_without_snapshot | Change_in_snapshot | Out_of_sequence | Frame_too_long | Frame_unread | Frame_undecoded

definition mesh_encode :: "(Frame \<Rightarrow> bytes) \<Rightarrow> Frame \<Rightarrow> bytes"
  where "mesh_encode to_json f = (let json = to_json f in nat_be 4 (length json mod 2 ^ 32) @ json)"

text \<open>\<open>input\<close> is what arrives before the timeouts.\<close>

definition read_frame :: "(bytes \<Rightarrow> Frame option) \<Rightarrow> nat \<Rightarrow> bytes \<Rightarrow> mesh_error + Frame \<times> bytes"
  where "read_frame of_json limit input =
    (if length input < 4 then Err Frame_unread
     else let len = be_nat (take 4 input); input = drop 4 input in
       if limit < len then Err Frame_too_long
       else if length input < len then Err Frame_unread
       else case of_json (take len input) of
         None \<Rightarrow> Err Frame_undecoded
       | Some f \<Rightarrow> Ok (f, drop len input))"

definition sane_time :: "nat \<Rightarrow> nat \<Rightarrow> nat"
  where "sane_time at now = (if now + MAX_CLOCK_AHEAD_MS < at then now else at)"

definition valid_id :: "string \<Rightarrow> bool"
  where "valid_id s \<longleftrightarrow> s \<noteq> [] \<and> length s \<le> 191 \<and>
    list_all (\<lambda>c. 33 \<le> code_of c \<and> code_of c \<le> 126 \<and> c \<noteq> CHR '' '') s"

definition valid_nonce :: "string \<Rightarrow> bool"
  where "valid_nonce s \<longleftrightarrow> 16 \<le> length s \<and> length s \<le> 128 \<and> list_all is_ascii_hexdigit s"

definition read_line :: "bytes \<Rightarrow> mesh_error + string \<times> bytes"
  where "read_line input =
    (if 10 \<notin> set (take 1024 input) then Err No_greeting
     else let line = takeWhile (\<lambda>b. b \<noteq> 10) input in
       case from_utf8 line of
         None \<Rightarrow> Err Not_text
       | Some s \<Rightarrow> Ok (s, drop (length line + 1) input))"

section \<open>This machine's bridges\<close>

definition broadcast :: "Frame \<Rightarrow> Mesh \<Rightarrow> Mesh"
  where "broadcast f m =
    (let (kept, full) = partition (\<lambda>(_, q). length q < LINK_QUEUE) (l_links (m_local m))
     in m\<lparr>m_local := (m_local m)\<lparr>l_links := map (\<lambda>(k, q). (k, q @ [f])) kept\<rparr>,
          m_cancelled := map fst full @ m_cancelled m\<rparr>)"

definition mesh_attached :: "nat \<Rightarrow> string \<Rightarrow> nat \<Rightarrow> string list \<Rightarrow> nat \<Rightarrow> Mesh \<Rightarrow> Mesh"
  where "mesh_attached now tid bid rs at m =
    (let e = \<lparr>me_tunnel = tid, me_bridge = bid, me_routes = rs, me_attached_at = at\<rparr>;
         l = m_local m; seq = l_seq l + 1
     in broadcast (F_attached seq now e)
          (m\<lparr>m_local := l\<lparr>l_seq := seq, l_entries := AList.update bid e (l_entries l)\<rparr>\<rparr>))"

definition mesh_detached :: "nat \<Rightarrow> string \<Rightarrow> nat \<Rightarrow> Mesh \<Rightarrow> Mesh"
  where "mesh_detached now tid bid m =
    (let l = m_local m in
     if map_of (l_entries l) bid = None then m
     else let seq = l_seq l + 1 in
       broadcast (F_detached seq now tid bid)
         (m\<lparr>m_local := l\<lparr>l_seq := seq, l_entries := AList.delete bid (l_entries l)\<rparr>\<rparr>))"

definition publish :: "nat \<Rightarrow> Event \<Rightarrow> Mesh \<Rightarrow> Mesh"
  where "publish now ev m = broadcast (F_event now ev) m"

definition leave :: "nat \<Rightarrow> Mesh \<Rightarrow> Mesh"
  where "leave now m = publish now Leaving (m\<lparr>m_draining := True\<rparr>)"

text \<open>What the service tells the others.\<close>

fun mesh_announce :: "nat \<Rightarrow> mesh_call \<Rightarrow> Mesh \<Rightarrow> Mesh" where
  "mesh_announce now (Publish ev) m = publish now ev m"
| "mesh_announce now (Mesh_attached tid bid rs at) m = mesh_attached now tid bid rs at m"
| "mesh_announce now (Mesh_detached tid bid) m = mesh_detached now tid bid m"

text \<open>A snapshot in chunks: a chunk is closed when the next entry would make it too big, unless it is empty.\<close>

definition chunk_step :: "(Entry \<Rightarrow> nat) \<Rightarrow> nat \<Rightarrow> Entry \<Rightarrow> Entry list list \<times> nat \<Rightarrow> Entry list list \<times> nat"
  where "chunk_step size_of limit e = (\<lambda>(chunks, size).
    if limit < size + size_of e \<and> last chunks \<noteq> [] then (chunks @ [[e]], size_of e)
    else (butlast chunks @ [last chunks @ [e]], size + size_of e))"

definition snapshot_chunks :: "(Entry \<Rightarrow> nat) \<Rightarrow> nat \<Rightarrow> Entry list \<Rightarrow> Entry list list"
  where "snapshot_chunks size_of limit es = fst (fold (chunk_step size_of limit) es ([[]], 0))"

fun snapshot_parts :: "Entry list list \<Rightarrow> Frame list" where
  "snapshot_parts [] = []"
| "snapshot_parts (es # rest) = F_snapshot_part es (rest \<noteq> []) # snapshot_parts rest"

fun snapshot_frames :: "nat \<Rightarrow> u64 \<Rightarrow> nat \<Rightarrow> Entry list list \<Rightarrow> Frame list" where
  "snapshot_frames epoch seq now [] = []"
| "snapshot_frames epoch seq now (es # rest) = F_snapshot epoch seq now es (rest \<noteq> []) # snapshot_parts rest"

definition subscribe :: "(Entry \<Rightarrow> nat) \<Rightarrow> nat \<Rightarrow> Mesh \<Rightarrow> nat \<times> Mesh"
  where "subscribe size_of now m =
    (let link = m_next_link m; l = m_local m;
         chunks = snapshot_chunks size_of (snapshot_chunk (m_config m)) (map snd (l_entries l));
         queue = take LINK_QUEUE (snapshot_frames (m_epoch m) (l_seq l) now chunks)
     in (link, m\<lparr>m_next_link := link + 1, m_local := l\<lparr>l_links := AList.update link queue (l_links l)\<rparr>\<rparr>))"

definition unsubscribe :: "nat \<Rightarrow> Mesh \<Rightarrow> Mesh"
  where "unsubscribe link m =
    m\<lparr>m_local := (m_local m)\<lparr>l_links := AList.delete link (l_links (m_local m))\<rparr>\<rparr>"

text \<open>\<^verbatim>\<open>write_loop\<close>: the next frame of a link's queue goes to the link.\<close>

definition write_next :: "nat \<Rightarrow> Mesh \<Rightarrow> Frame option \<times> Mesh"
  where "write_next link m =
    (case map_of (l_links (m_local m)) link of
       Some (f # q) \<Rightarrow>
         (Some f, m\<lparr>m_local := (m_local m)\<lparr>l_links := AList.update link q (l_links (m_local m))\<rparr>\<rparr>)
     | _ \<Rightarrow> (None, m))"

section \<open>Lookups\<close>

definition location_of :: "Peer \<Rightarrow> Location"
  where "location_of p = \<lparr>loc_machine = h_machine (p_hello p), loc_region = h_region (p_hello p),
    loc_address = h_address (p_hello p)\<rparr>"

definition holders_of :: "string \<Rightarrow> Mesh \<Rightarrow> (string \<times> nat) list"
  where "holders_of tid m = (case r_index (m_remote m) tid of None \<Rightarrow> [] | Some hs \<Rightarrow> hs)"

text \<open>The peer and the entry an item of the index names.\<close>

definition held_entry :: "Mesh \<Rightarrow> string \<times> nat \<Rightarrow> (Peer \<times> Entry) option"
  where "held_entry m = (\<lambda>(machine, bid). do {
    p \<leftarrow> map_of (r_peers (m_remote m)) machine;
    e \<leftarrow> map_of (p_entries p) bid;
    Some (p, e) })"

definition claimed_at :: "Mesh \<Rightarrow> string \<Rightarrow> string option \<Rightarrow> string \<times> nat \<Rightarrow> (nat \<times> Peer) option"
  where "claimed_at m route skip h =
    (if skip = Some (fst h) then None
     else do {
       (p, e) \<leftarrow> held_entry m h;
       if \<not> h_draining (p_hello p) \<and> route \<in> set (me_routes e) then Some (me_attached_at e, p) else None })"

text \<open>\<^verbatim>\<open>max_by_key\<close>: the last of the greatest.\<close>

definition newest :: "(nat \<times> Peer) list \<Rightarrow> (nat \<times> Peer) option"
  where "newest xs =
    foldl (\<lambda>best x. case best of None \<Rightarrow> Some x | Some y \<Rightarrow> if fst y \<le> fst x then Some x else Some y) None xs"

definition locate :: "string \<Rightarrow> string \<Rightarrow> string option \<Rightarrow> Mesh \<Rightarrow> Location option"
  where "locate tid route skip m =
    map_option (\<lambda>(_, p). location_of p)
      (newest (List.map_filter (claimed_at m route skip) (holders_of tid m)))"

definition claims_any :: "string list \<Rightarrow> Entry \<Rightarrow> bool"
  where "claims_any rs e \<longleftrightarrow> rs = [] \<or> list_ex (\<lambda>route. route \<in> set rs) (me_routes e)"

definition holders_step :: "Mesh \<Rightarrow> string list \<Rightarrow> string \<times> nat \<Rightarrow> Location list \<Rightarrow> Location list"
  where "holders_step m rs h found =
    (case held_entry m h of
       None \<Rightarrow> found
     | Some (p, e) \<Rightarrow>
         if h_draining (p_hello p) \<or> \<not> claims_any rs e \<or> list_ex (\<lambda>l. loc_machine l = fst h) found then found
         else found @ [location_of p])"

definition holders :: "string \<Rightarrow> string list \<Rightarrow> Mesh \<Rightarrow> Location list"
  where "holders tid rs m = fold (holders_step m rs) (holders_of tid m) []"

definition peer_address :: "string \<Rightarrow> Mesh \<Rightarrow> string option"
  where "peer_address machine m =
    map_option (\<lambda>p. h_address (p_hello p)) (map_of (r_peers (m_remote m)) machine)"

definition is_up :: "string \<Rightarrow> Mesh \<Rightarrow> bool"
  where "is_up machine m \<longleftrightarrow> map_of (r_peers (m_remote m)) machine \<noteq> None"

text \<open>A dialed address has no scope.\<close>

definition linked :: "SocketAddr \<Rightarrow> Mesh \<Rightarrow> bool"
  where "linked address m =
    list_ex (\<lambda>(_, p). parse_scoped_addr (h_address (p_hello p)) = Some (address, 0)) (r_peers (m_remote m))"

definition complete :: "Mesh \<Rightarrow> bool"
  where "complete m = list_all (\<lambda>(address, a). a_current a \<longrightarrow> linked address m) (m_addresses m)"

definition peers :: "Mesh \<Rightarrow> string list"
  where "peers m = map fst (r_peers (m_remote m))"

definition table_sizes :: "Mesh \<Rightarrow> (string \<times> nat) list"
  where "table_sizes m = (m_id m, length (l_entries (m_local m))) #
    map (\<lambda>(_, p). (h_machine (p_hello p), length (p_entries p))) (r_peers (m_remote m))"

section \<open>The handshake of a link\<close>

definition mesh_parts :: "string \<Rightarrow> string \<Rightarrow> string \<Rightarrow> string \<Rightarrow> string \<Rightarrow> string list"
  where "mesh_parts label dialer acceptor dial_nonce accept_nonce =
    [label, dialer, acceptor, dial_nonce, accept_nonce]"

text \<open>\<open>mesh_accept\<close> and \<open>mesh_dial\<close> give what they write, in order, and the machine that proved itself with
  the input after the handshake.\<close>

definition mesh_accept :: "('k \<Rightarrow> bytes \<Rightarrow> bytes) \<Rightarrow> 'k \<Rightarrow> string \<Rightarrow> string \<Rightarrow> string \<Rightarrow> bytes
    \<Rightarrow> string list \<times> (mesh_error + string \<times> bytes)"
  where "mesh_accept hmac key self own_nonce greeting input =
    (case split_on CHR '' '' greeting of
       [dialer, dial_nonce] \<Rightarrow>
         if \<not> valid_id dialer \<or> \<not> valid_nonce dial_nonce then ([], Err Malformed_greeting)
         else if dialer = self then ([], Err Linked_to_itself)
         else
           let proof_text = Secret_sign hmac key (mesh_parts ACCEPT_LABEL dialer self dial_nonce own_nonce);
               line = MESH_MAGIC @ self @ '' '' @ own_nonce @ '' '' @ proof_text @ [CHR 0x0A]
           in ([line],
               case read_line input of
                 Inl err \<Rightarrow> Err err
               | Inr (answer, rest) \<Rightarrow>
                   if Secret_verify hmac key (mesh_parts DIAL_LABEL dialer self dial_nonce own_nonce) answer
                   then Ok (dialer, rest) else Err Failed_challenge)
     | _ \<Rightarrow> ([], Err Malformed_greeting))"

definition mesh_dial :: "('k \<Rightarrow> bytes \<Rightarrow> bytes) \<Rightarrow> 'k \<Rightarrow> string \<Rightarrow> string \<Rightarrow> bytes
    \<Rightarrow> string list \<times> (mesh_error + string \<times> bytes)"
  where "mesh_dial hmac key self own_nonce input =
    (let greeting = MESH_MAGIC @ self @ '' '' @ own_nonce @ [CHR 0x0A] in
     case read_line input of
       Inl err \<Rightarrow> ([greeting], Err err)
     | Inr (line, rest) \<Rightarrow>
         (case strip_prefix line MESH_MAGIC of
            None \<Rightarrow> ([greeting], Err No_greeting)
          | Some line \<Rightarrow>
              (case split_on CHR '' '' line of
                 [acceptor, accept_nonce, proof_text] \<Rightarrow>
                   if \<not> valid_id acceptor \<or> \<not> valid_nonce accept_nonce then ([greeting], Err Malformed_greeting)
                   else if \<not> Secret_verify hmac key
                       (mesh_parts ACCEPT_LABEL self acceptor own_nonce accept_nonce) proof_text
                   then ([greeting], Err Failed_challenge)
                   else if acceptor = self then ([greeting], Err Linked_to_itself)
                   else ([greeting, Secret_sign hmac key
                       (mesh_parts DIAL_LABEL self acceptor own_nonce accept_nonce) @ [CHR 0x0A]],
                     Ok (acceptor, rest))
               | _ \<Rightarrow> ([greeting], Err Malformed_greeting))))"

text \<open>\<^verbatim>\<open>str::replace\<close> of \<open>{}\<close>.\<close>

fun replace_braces :: "string \<Rightarrow> string \<Rightarrow> string" where
  "replace_braces by (a # b # s) =
     (if a = CHR ''{'' \<and> b = CHR ''}'' then by @ replace_braces by s else a # replace_braces by (b # s))"
| "replace_braces by s = s"

definition check_address :: "(string \<Rightarrow> u16 \<Rightarrow> SocketAddr list option) \<Rightarrow> Hello \<Rightarrow> IpAddr \<Rightarrow> Mesh
    \<Rightarrow> mesh_error + unit"
  where "check_address lookup_host h remote m =
    (case parse_socket_addr (h_address h) of
       None \<Rightarrow> Err Bad_address
     | Some address \<Rightarrow>
         if verify_address (m_config m) \<and> canonical (sock_ip address) \<noteq> canonical remote then Err Wrong_address
         else case machine_dns (m_config m) of
           None \<Rightarrow> Ok ()
         | Some template \<Rightarrow>
             (case lookup_host (replace_braces (h_machine h) template) (sock_port address) of
                None \<Rightarrow> Ok ()
              | Some found \<Rightarrow>
                  if found \<noteq> [] \<and>
                     \<not> list_ex (\<lambda>c. canonical (sock_ip c) = canonical (sock_ip address)) found
                  then Err Wrong_address else Ok ()))"

section \<open>Links\<close>

definition cancel_link :: "nat \<Rightarrow> Mesh \<Rightarrow> Mesh"
  where "cancel_link link m = m\<lparr>m_cancelled := link # m_cancelled m\<rparr>"

definition newer_life :: "Hello \<Rightarrow> Hello \<Rightarrow> bool"
  where "newer_life h k \<longleftrightarrow> h_started_at k < h_started_at h \<or> h_started_at k = h_started_at h \<and> h_epoch k < h_epoch h"

definition same_life :: "Hello \<Rightarrow> Hello \<Rightarrow> bool"
  where "same_life h k \<longleftrightarrow> h_started_at h = h_started_at k \<and> h_epoch h = h_epoch k"

definition link_wins :: "Hello \<Rightarrow> string \<Rightarrow> Peer \<Rightarrow> bool"
  where "link_wins h dialer existing \<longleftrightarrow>
    (if \<not> same_life h (p_hello existing) then newer_life h (p_hello existing)
     else if p_dialer existing \<noteq> dialer then dialer < p_dialer existing else True)"

definition new_peer :: "nat \<Rightarrow> Hello \<Rightarrow> nat \<Rightarrow> string \<Rightarrow> (nat \<times> Entry) list \<Rightarrow> Peer"
  where "new_peer now h link dialer es = \<lparr>p_hello = h, p_link = link, p_dialer = dialer, p_connected_at = now,
    p_seq = 0, p_entries = es, snapshot_open = False\<rparr>"

definition insert_peer :: "Peer \<Rightarrow> Mesh \<Rightarrow> Mesh"
  where "insert_peer p m = m\<lparr>m_remote := (m_remote m)
    \<lparr>r_peers := AList.update (h_machine (p_hello p)) p (r_peers (m_remote m))\<rparr>\<rparr>"

definition register :: "nat \<Rightarrow> Hello \<Rightarrow> nat \<Rightarrow> string \<Rightarrow> Mesh \<Rightarrow> bool \<times> Mesh"
  where "register now h link dialer m =
    (if h_machine h \<in> set (m_partitioned m) then (False, m)
     else case map_of (r_peers (m_remote m)) (h_machine h) of
       None \<Rightarrow> (True, insert_peer (new_peer now h link dialer []) m)
     | Some existing \<Rightarrow>
         if h_address (p_hello existing) \<noteq> h_address h then (False, m)
         else if \<not> link_wins h dialer existing then (False, m)
         else
           let m = cancel_link (p_link existing) m in
           if same_life h (p_hello existing)
           then (True, insert_peer (new_peer now h link dialer (p_entries existing)) m)
           else (True, insert_peer (new_peer now h link dialer [])
                  (m\<lparr>m_remote := Remote_clear (h_machine h) (m_remote m)\<rparr>)))"

definition link_down :: "string \<Rightarrow> nat \<Rightarrow> Mesh \<Rightarrow> Mesh"
  where "link_down machine link m =
    (case map_of (r_peers (m_remote m)) machine of
       None \<Rightarrow> m
     | Some p \<Rightarrow>
         if p_link p \<noteq> link then m
         else let r = Remote_clear machine (m_remote m)
           in m\<lparr>m_remote := r\<lparr>r_peers := AList.delete machine (r_peers r)\<rparr>\<rparr>)"

definition set_peer :: "string \<Rightarrow> Peer \<Rightarrow> (string \<rightharpoonup> (string \<times> nat) list) \<Rightarrow> Mesh \<Rightarrow> Mesh"
  where "set_peer machine p index m = m\<lparr>m_remote := (m_remote m)
    \<lparr>r_peers := AList.update machine p (r_peers (m_remote m)), r_index := index\<rparr>\<rparr>"

text \<open>Taking the entries of a snapshot.\<close>

definition add_entry :: "nat \<Rightarrow> string \<Rightarrow> Entry \<Rightarrow> (nat \<times> Entry) list \<times> (string \<rightharpoonup> (string \<times> nat) list)
    \<Rightarrow> (nat \<times> Entry) list \<times> (string \<rightharpoonup> (string \<times> nat) list)"
  where "add_entry now machine e = (\<lambda>(es, index).
    let e = e\<lparr>me_attached_at := sane_time (me_attached_at e) now\<rparr>
    in (AList.update (me_bridge e) e es, index_add machine e index))"

definition take_entries :: "nat \<Rightarrow> string \<Rightarrow> Entry list \<Rightarrow> bool \<Rightarrow> Peer \<Rightarrow> (string \<rightharpoonup> (string \<times> nat) list)
    \<Rightarrow> Mesh \<Rightarrow> Mesh"
  where "take_entries now machine listed more_follow p index m =
    (let p = p\<lparr>snapshot_open := more_follow\<rparr> in
     if h_draining (p_hello p) then set_peer machine p index m
     else let (es, index) = fold (add_entry now machine) listed (p_entries p, index)
       in set_peer machine (p\<lparr>p_entries := es\<rparr>) index m)"

definition apply_frame :: "nat \<Rightarrow> string \<Rightarrow> nat \<Rightarrow> Frame \<Rightarrow> Mesh \<Rightarrow> (mesh_error + unit) \<times> Mesh"
  where "apply_frame now machine link f m =
    (case map_of (r_peers (m_remote m)) machine of
       None \<Rightarrow> (Err Link_replaced, m)
     | Some p \<Rightarrow>
         let index = r_index (m_remote m) in
         if p_link p \<noteq> link then (Err Link_replaced, m)
         else (case f of
           F_ping _ \<Rightarrow> (Ok (), m)
         | F_unknown \<Rightarrow> (Ok (), m)
         | F_hello _ \<Rightarrow> (Err Second_hello, m)
         | F_snapshot epoch seq _ listed more_follow \<Rightarrow>
             if epoch \<noteq> h_epoch (p_hello p) then (Err Another_epoch, m)
             else (Ok (), take_entries now machine listed more_follow (p\<lparr>p_entries := [], p_seq := seq\<rparr>)
               (index_remove_all machine (p_entries p) index) m)
         | F_snapshot_part listed more_follow \<Rightarrow>
             if \<not> snapshot_open p then (Err Part_without_snapshot, m)
             else (Ok (), take_entries now machine listed more_follow p index m)
         | F_attached seq _ e \<Rightarrow>
             if snapshot_open p then (Err Change_in_snapshot, m)
             else if seq \<noteq> p_seq p + 1 then (Err Out_of_sequence, m)
             else let p = p\<lparr>p_seq := seq\<rparr>; e = e\<lparr>me_attached_at := sane_time (me_attached_at e) now\<rparr> in
               if h_draining (p_hello p) then (Ok (), set_peer machine p index m)
               else let index = (case map_of (p_entries p) (me_bridge e) of
                      Some previous \<Rightarrow> index_remove machine previous index | None \<Rightarrow> index)
                 in (Ok (), set_peer machine (p\<lparr>p_entries := AList.update (me_bridge e) e (p_entries p)\<rparr>)
                      (index_add machine e index) m)
         | F_detached seq _ _ bid \<Rightarrow>
             if seq \<noteq> p_seq p + 1 then (Err Out_of_sequence, m)
             else let p = p\<lparr>p_seq := seq\<rparr> in
               (case map_of (p_entries p) bid of
                  None \<Rightarrow> (Ok (), set_peer machine p index m)
                | Some e \<Rightarrow> (Ok (), set_peer machine (p\<lparr>p_entries := AList.delete bid (p_entries p)\<rparr>)
                    (index_remove machine e index) m))
         | F_event _ ev \<Rightarrow>
             (case ev of
                Leaving \<Rightarrow> (Ok (), set_peer machine
                  (p\<lparr>p_hello := (p_hello p)\<lparr>h_draining := True\<rparr>, p_entries := []\<rparr>)
                  (index_remove_all machine (p_entries p) index) m)
              | UnknownEvent \<Rightarrow> (Ok (), m)
              | ev \<Rightarrow> (Ok (), m\<lparr>m_notices := m_notices m @ [N_event ev]\<rparr>))))"

text \<open>A link from its first frame on: a hello that is accepted registers the link, and what it carries is
  applied until a frame is refused or the link ends. The caller has subscribed the link.\<close>

definition link_end :: "string option \<Rightarrow> nat \<Rightarrow> Mesh \<Rightarrow> Mesh"
  where "link_end machine link m =
    cancel_link link (unsubscribe link (case machine of Some machine \<Rightarrow> link_down machine link m | None \<Rightarrow> m))"

definition link_hello :: "(string \<Rightarrow> u16 \<Rightarrow> SocketAddr list option) \<Rightarrow> nat \<Rightarrow> bool \<Rightarrow> string \<times> IpAddr \<Rightarrow> nat
    \<Rightarrow> Frame \<Rightarrow> Mesh \<Rightarrow> (mesh_error + bool) \<times> Mesh"
  where "link_hello lookup_host now dialed proven link f m =
    (case f of
       F_hello h \<Rightarrow>
         if h_machine h = m_id m then (Err Linked_to_itself, link_end None link m)
         else if fst proven \<noteq> h_machine h then (Err Another_machine, link_end None link m)
         else (case check_address lookup_host h (snd proven) m of
           Inl err \<Rightarrow> (Err err, link_end None link m)
         | Inr _ \<Rightarrow>
             (case register now h link (if dialed then mesh_address m else h_address h) m of
                (False, m) \<Rightarrow> (Ok False, link_end None link m)
              | (True, m) \<Rightarrow> (Ok True, m\<lparr>m_notices := m_notices m @ [N_link_up]\<rparr>)))
     | _ \<Rightarrow> (Err No_hello, link_end None link m))"

definition link_frame :: "nat \<Rightarrow> string \<Rightarrow> nat \<Rightarrow> Frame \<Rightarrow> Mesh \<Rightarrow> (mesh_error + unit) \<times> Mesh"
  where "link_frame now machine link f m =
    (case apply_frame now machine link f m of
       (Inl err, m) \<Rightarrow> (Err err, link_end (Some machine) link m)
     | (Inr _, m) \<Rightarrow> (Ok (), m))"

section \<open>Membership\<close>

definition add_peer :: "string \<Rightarrow> Mesh \<Rightarrow> Mesh"
  where "add_peer address m = m\<lparr>m_statics := m_statics m @ [address]\<rparr>"

text \<open>One address a lookup found; the addresses to start dialing are gathered.\<close>

definition discover_one :: "nat \<Rightarrow> SocketAddr option \<Rightarrow> SocketAddr \<times> bool
    \<Rightarrow> (SocketAddr \<times> Address) list \<times> SocketAddr list \<Rightarrow> (SocketAddr \<times> Address) list \<times> SocketAddr list"
  where "discover_one tick own = (\<lambda>(address, is_static) (known, spawn).
    if own = Some address then (known, spawn)
    else case map_of known address of
      None \<Rightarrow> (AList.update address
        \<lparr>a_state = A_connecting, a_current = True, a_static = is_static, a_seen = tick\<rparr> known, spawn @ [address])
    | Some a \<Rightarrow> (AList.update address
        (a\<lparr>a_current := True, a_static := a_static a \<or> is_static, a_seen := tick\<rparr>) known, spawn))"

definition discover :: "(string \<Rightarrow> SocketAddr list option) \<Rightarrow> (string \<Rightarrow> u16 \<Rightarrow> SocketAddr list option) \<Rightarrow> nat
    \<Rightarrow> Mesh \<Rightarrow> SocketAddr list \<times> Mesh"
  where "discover lookup lookup_host tick m =
    (let own = own_address m;
         found = concat (map (\<lambda>peer. case lookup peer of
             Some as \<Rightarrow> map (\<lambda>a. (a, True)) as | None \<Rightarrow> []) (m_statics m));
         (resolved, found) = (case (mc_dns (m_config m), own) of
             (Some name, Some own) \<Rightarrow>
               (case lookup_host name (sock_port own) of
                  Some as \<Rightarrow> (True, found @ map (\<lambda>a. (a, False)) as)
                | None \<Rightarrow> (False, found))
           | _ \<Rightarrow> (True, found));
         known = (if resolved then map (\<lambda>(address, a). (address, a\<lparr>a_current := a_static a\<rparr>)) (m_addresses m)
           else m_addresses m);
         (known, spawn) = fold (discover_one tick own) found (known, [])
     in (spawn, m\<lparr>m_addresses := known\<rparr>))"

definition set_state :: "SocketAddr \<Rightarrow> AddressState \<Rightarrow> Mesh \<Rightarrow> Mesh"
  where "set_state address st m =
    (case map_of (m_addresses m) address of
       None \<Rightarrow> m
     | Some a \<Rightarrow> m\<lparr>m_addresses := AList.update address (a\<lparr>a_state := st\<rparr>) (m_addresses m)\<rparr>)"

text \<open>One turn of \<^verbatim>\<open>dial_loop\<close>: the wait before the next turn and its backoff, or \<^const>\<open>None\<close> when the
  address is forgotten.\<close>

definition dial_turn :: "nat \<Rightarrow> SocketAddr \<Rightarrow> (Mesh \<Rightarrow> (mesh_error + unit) \<times> Mesh) \<Rightarrow> nat \<Rightarrow> Mesh
    \<Rightarrow> (nat \<times> nat) option \<times> Mesh"
  where "dial_turn tick address dial pause m =
    (let wanted = (case map_of (m_addresses m) address of
         None \<Rightarrow> False
       | Some a \<Rightarrow> a_static a \<or> a_current a \<or> tick - a_seen a < FORGET_AFTER_MS) in
     if \<not> wanted then (None, m\<lparr>m_addresses := AList.delete address (m_addresses m)\<rparr>)
     else if linked address m then (Some (500, FIRST_BACKOFF_MS), set_state address A_up m)
     else case dial m of
       (Inr _, m) \<Rightarrow>
         if linked address m then (Some (0, FIRST_BACKOFF_MS), m)
         else (Some (FIRST_BACKOFF_MS, FIRST_BACKOFF_MS), set_state address A_connecting m)
     | (Inl _, m) \<Rightarrow>
         (Some (pause, min (pause * 2) MAX_BACKOFF_MS),
          if linked address m then m else set_state address A_unreachable m))"

definition address_states :: "Mesh \<Rightarrow> (SocketAddr \<times> AddressState) list"
  where "address_states m =
    map (\<lambda>(address, a). (address,
        if linked address m then A_up
        else case a_state a of A_up \<Rightarrow> A_connecting | st \<Rightarrow> st))
      (filter (\<lambda>(_, a). a_current a) (m_addresses m))"

definition cut_link :: "string \<Rightarrow> bool \<Rightarrow> Mesh \<Rightarrow> Mesh"
  where "cut_link machine sever m =
    (if \<not> sever then m\<lparr>m_partitioned := filter (\<lambda>x. x \<noteq> machine) (m_partitioned m)\<rparr>
     else let m = m\<lparr>m_partitioned := List.insert machine (m_partitioned m)\<rparr> in
       case map_of (r_peers (m_remote m)) machine of
         None \<Rightarrow> m
       | Some p \<Rightarrow> cancel_link (p_link p) m)"

end
