(* ===== verification/Mesh_Table.thy ===== *)
theory Mesh_Table
  imports Mesh
begin

text \<open>
  The table of the other machines' bridges. The index by tunnel says exactly what the peers' entries
  say, in every state the mesh reaches, so that a lookup finds a machine whenever one claims the route
  and only machines that do. The states are reached by the steps of \<open>mesh_step\<close>: everything the
  machine itself announces, links that come up, carry frames and end, and finding peers.
\<close>

section \<open>The index\<close>

definition in_index :: "(string \<rightharpoonup> (string \<times> nat) list) \<Rightarrow> string \<Rightarrow> string \<times> nat \<Rightarrow> bool"
  where "in_index index tid h \<longleftrightarrow> (case index tid of None \<Rightarrow> False | Some hs \<Rightarrow> h \<in> set hs)"

definition names_entry :: "string \<Rightarrow> Entry \<Rightarrow> string \<Rightarrow> string \<times> nat \<Rightarrow> bool"
  where "names_entry machine e tid h \<longleftrightarrow> tid = me_tunnel e \<and> h = (machine, me_bridge e)"

lemma in_index_add [simp]:
  "in_index (index_add machine e index) tid h \<longleftrightarrow> in_index index tid h \<or> names_entry machine e tid h"
  by (auto simp: in_index_def index_add_def names_entry_def split: option.splits)

lemma in_index_remove [simp]:
  "in_index (index_remove machine e index) tid h \<longleftrightarrow> in_index index tid h \<and> \<not> names_entry machine e tid h"
  by (auto simp: in_index_def index_remove_def names_entry_def Let_def filter_empty_conv split: option.splits)

lemma in_index_remove_all [simp]:
  "in_index (index_remove_all machine es index) tid h \<longleftrightarrow>
     in_index index tid h \<and> (\<forall>(b, e) \<in> set es. \<not> names_entry machine e tid h)"
  unfolding index_remove_all_def by (induction es arbitrary: index) auto

section \<open>Entries of a peer\<close>

definition held :: "Remote \<Rightarrow> string \<Rightarrow> nat \<Rightarrow> Entry option"
  where "held r machine bid = Option.bind (map_of (r_peers r) machine) (\<lambda>p. map_of (p_entries p) bid)"

definition entries_ok :: "(nat \<times> Entry) list \<Rightarrow> bool"
  where "entries_ok es \<longleftrightarrow> distinct (map fst es) \<and> (\<forall>(b, e) \<in> set es. me_bridge e = b)"

text \<open>The index is exact for the entries \<open>f\<close> of one machine.\<close>

definition exact_for :: "string \<Rightarrow> (nat \<rightharpoonup> Entry) \<Rightarrow> (string \<rightharpoonup> (string \<times> nat) list) \<Rightarrow> bool"
  where "exact_for machine f index \<longleftrightarrow>
    (\<forall>tid bid. in_index index tid (machine, bid) \<longleftrightarrow> (\<exists>e. f bid = Some e \<and> me_tunnel e = tid))"

definition remote_ok :: "Remote \<Rightarrow> bool"
  where "remote_ok r \<longleftrightarrow>
    distinct (map fst (r_peers r)) \<and>
    (\<forall>(machine, p) \<in> set (r_peers r). h_machine (p_hello p) = machine \<and> entries_ok (p_entries p)) \<and>
    (\<forall>machine. exact_for machine (held r machine) (r_index r))"

definition same_elsewhere :: "string \<Rightarrow> (string \<rightharpoonup> (string \<times> nat) list) \<Rightarrow> (string \<rightharpoonup> (string \<times> nat) list) \<Rightarrow> bool"
  where "same_elsewhere machine index index' \<longleftrightarrow>
    (\<forall>tid other bid. other \<noteq> machine \<longrightarrow> in_index index' tid (other, bid) = in_index index tid (other, bid))"

lemma entries_ok_Nil [simp]: "entries_ok []" by (simp add: entries_ok_def)

lemma entries_ok_bridge: "entries_ok es \<Longrightarrow> map_of es b = Some e \<Longrightarrow> me_bridge e = b"
  by (auto simp: entries_ok_def dest: map_of_SomeD)

lemma entries_ok_iff: "entries_ok es \<longleftrightarrow> distinct (map fst es) \<and> (\<forall>b e. map_of es b = Some e \<longrightarrow> me_bridge e = b)"
  by (auto simp: entries_ok_def dest: map_of_SomeD)

lemma entries_ok_update [simp]: "entries_ok es \<Longrightarrow> entries_ok (AList.update (me_bridge e) e es)"
  by (auto simp: entries_ok_iff distinct_update update_conv')

lemma entries_ok_delete [simp]: "entries_ok es \<Longrightarrow> entries_ok (AList.delete b es)"
  by (auto simp: entries_ok_iff distinct_delete delete_conv')

lemma same_elsewhere_refl [simp]: "same_elsewhere machine index index"
  by (simp add: same_elsewhere_def)

lemma same_elsewhere_trans:
  "same_elsewhere machine i j \<Longrightarrow> same_elsewhere machine j k \<Longrightarrow> same_elsewhere machine i k"
  by (simp add: same_elsewhere_def)

lemma same_elsewhere_ops [simp]:
  "same_elsewhere machine index (index_add machine e index)"
  "same_elsewhere machine index (index_remove machine e index)"
  "same_elsewhere machine index (index_remove_all machine es index)"
  by (auto simp: same_elsewhere_def names_entry_def)

lemma exact_add:
  assumes "exact_for machine f index" "f (me_bridge e) = None"
  shows "exact_for machine (f(me_bridge e \<mapsto> e)) (index_add machine e index)"
  using assms by (auto simp: exact_for_def names_entry_def)

lemma exact_remove:
  assumes "exact_for machine f index" "f b = Some e" "me_bridge e = b"
  shows "exact_for machine (f(b := None)) (index_remove machine e index)"
  using assms by (auto simp: exact_for_def names_entry_def)

lemma exact_remove_all:
  assumes "exact_for machine (map_of es) index" "entries_ok es"
  shows "exact_for machine (\<lambda>_. None) (index_remove_all machine es index)"
  using assms by (auto simp: exact_for_def names_entry_def entries_ok_def dest: map_of_SomeD)

section \<open>Replacing one peer\<close>

lemma held_update [simp]:
  "held (r\<lparr>r_peers := AList.update machine p (r_peers r), r_index := index\<rparr>) other =
     (if other = machine then map_of (p_entries p) else held r other)"
  by (auto simp: held_def update_conv')

lemma remote_ok_update:
  assumes ok: "remote_ok r" and p: "h_machine (p_hello p) = machine" "entries_ok (p_entries p)"
    and index: "exact_for machine (map_of (p_entries p)) index" "same_elsewhere machine (r_index r) index"
  shows "remote_ok (r\<lparr>r_peers := AList.update machine p (r_peers r), r_index := index\<rparr>)"
proof -
  have "exact_for other (held r other) index" if "other \<noteq> machine" for other
    using ok index(2) that by (simp add: remote_ok_def exact_for_def same_elsewhere_def)
  moreover have "h_machine (p_hello q) = other \<and> entries_ok (p_entries q)"
    if "(other, q) \<in> set (AList.update machine p (r_peers r))" for other q
  proof -
    have d: "distinct (map fst (AList.update machine p (r_peers r)))"
      using ok by (simp add: remote_ok_def distinct_update)
    then have "map_of (AList.update machine p (r_peers r)) other = Some q"
      using that by simp
    then have "other = machine \<and> q = p \<or> map_of (r_peers r) other = Some q"
      by (auto simp: update_conv' split: if_splits)
    then show ?thesis using ok p by (auto simp: remote_ok_def dest: map_of_SomeD)
  qed
  ultimately show ?thesis
    using ok index(1) by (auto simp: remote_ok_def distinct_update)
qed

lemma remote_ok_peer:
  assumes "remote_ok r" "map_of (r_peers r) machine = Some p"
  shows "h_machine (p_hello p) = machine" "entries_ok (p_entries p)"
    "exact_for machine (map_of (p_entries p)) (r_index r)"
proof -
  have "(machine, p) \<in> set (r_peers r)" using assms(2) by (rule map_of_SomeD)
  then show "h_machine (p_hello p) = machine" "entries_ok (p_entries p)"
    using assms(1) by (auto simp: remote_ok_def)
  have "held r machine = map_of (p_entries p)" using assms(2) by (simp add: held_def fun_eq_iff)
  then show "exact_for machine (map_of (p_entries p)) (r_index r)"
    using assms(1) by (metis remote_ok_def)
qed

text \<open>Entries a snapshot lists for bridges that are not in the table yet.\<close>

definition fresh_entries :: "Entry list \<Rightarrow> (nat \<times> Entry) list \<Rightarrow> bool"
  where "fresh_entries listed es \<longleftrightarrow>
    distinct (map me_bridge listed) \<and> (\<forall>e \<in> set listed. map_of es (me_bridge e) = None)"

lemma fresh_entries_add:
  assumes "fresh_entries (e # listed) es"
  shows "fresh_entries listed (AList.update (me_bridge e) e' es)"
  using assms by (auto simp: fresh_entries_def update_conv' image_def)

lemma add_entry_pair:
  "add_entry now machine e (es, index) =
     (AList.update (me_bridge e) (e\<lparr>me_attached_at := sane_time (me_attached_at e) now\<rparr>) es,
      index_add machine (e\<lparr>me_attached_at := sane_time (me_attached_at e) now\<rparr>) index)"
  by (simp add: add_entry_def Let_def)

lemma add_entries_exact:
  assumes "fold (add_entry now machine) listed (es, index) = (es', index')"
    and "fresh_entries listed es" "entries_ok es" "exact_for machine (map_of es) index"
  shows "entries_ok es' \<and> exact_for machine (map_of es') index' \<and> same_elsewhere machine index index'"
  using assms
proof (induction listed arbitrary: es index)
  case Nil
  then show ?case by simp
next
  case (Cons e listed)
  let ?e = "e\<lparr>me_attached_at := sane_time (me_attached_at e) now\<rparr>"
  let ?es = "AList.update (me_bridge ?e) ?e es" and ?index = "index_add machine ?e index"
  have new: "map_of es (me_bridge ?e) = None" using Cons.prems(2) by (simp add: fresh_entries_def)
  have run: "fold (add_entry now machine) listed (?es, ?index) = (es', index')"
    using Cons.prems(1) by (simp add: add_entry_pair)
  have fresh: "fresh_entries listed ?es" using fresh_entries_add [OF Cons.prems(2)] by simp
  have ok: "entries_ok ?es" using Cons.prems(3) by (rule entries_ok_update)
  have exact: "exact_for machine (map_of ?es) ?index"
    unfolding update_conv' by (rule exact_add [OF Cons.prems(4) new])
  have rest: "entries_ok es' \<and> exact_for machine (map_of es') index' \<and> same_elsewhere machine ?index index'"
    by (rule Cons.IH [OF run fresh ok exact])
  then show ?case by (meson same_elsewhere_ops(1) same_elsewhere_trans)
qed

lemma remote_ok_set_peer:
  assumes "remote_ok (m_remote m)" "h_machine (p_hello p) = machine" "entries_ok (p_entries p)"
    and "exact_for machine (map_of (p_entries p)) index" "same_elsewhere machine (r_index (m_remote m)) index"
  shows "remote_ok (m_remote (set_peer machine p index m))"
  unfolding set_peer_def using remote_ok_update [OF assms] by simp

lemma remote_ok_take_entries:
  assumes "remote_ok (m_remote m)" "h_machine (p_hello p) = machine" "entries_ok (p_entries p)"
    and "exact_for machine (map_of (p_entries p)) index" "same_elsewhere machine (r_index (m_remote m)) index"
    and "fresh_entries listed (p_entries p)"
  shows "remote_ok (m_remote (take_entries now machine listed more_follow p index m))"
proof (cases "h_draining (p_hello p)")
  case True
  then show ?thesis using assms(1-5) by (simp add: take_entries_def remote_ok_set_peer)
next
  case False
  obtain es' index' where run: "fold (add_entry now machine) listed (p_entries p, index) = (es', index')"
    by fastforce
  have taken: "entries_ok es' \<and> exact_for machine (map_of es') index' \<and> same_elsewhere machine index index'"
    by (rule add_entries_exact [OF run assms(6,3,4)])
  then have "same_elsewhere machine (r_index (m_remote m)) index'"
    using assms(5) by (blast intro: same_elsewhere_trans)
  with taken False run assms(1,2) show ?thesis
    by (simp add: take_entries_def remote_ok_set_peer)
qed

section \<open>The operations keep the table right\<close>

lemma Remote_clear_peers:
  "remote_ok r \<Longrightarrow> remote_ok (Remote_clear machine r) \<and> held (Remote_clear machine r) machine = (\<lambda>_. None)"
proof (cases "map_of (r_peers r) machine")
  case None
  then show "remote_ok r \<Longrightarrow> ?thesis" by (simp add: Remote_clear_def held_def fun_eq_iff)
next
  case (Some p)
  assume ok: "remote_ok r"
  note peer = remote_ok_peer [OF ok Some]
  have eq: "Remote_clear machine r = r\<lparr>r_peers := AList.update machine (p\<lparr>p_entries := []\<rparr>) (r_peers r),
      r_index := index_remove_all machine (p_entries p) (r_index r)\<rparr>"
    by (simp add: Remote_clear_def Some)
  have "remote_ok (Remote_clear machine r)"
    unfolding eq using ok peer exact_remove_all [OF peer(3,2)] by (intro remote_ok_update) auto
  then show ?thesis by (simp add: eq fun_eq_iff)
qed

lemma remote_ok_insert_peer:
  assumes "remote_ok (m_remote m)" "entries_ok (p_entries p)"
    and "map_of (p_entries p) = held (m_remote m) (h_machine (p_hello p))"
  shows "remote_ok (m_remote (insert_peer p m))"
proof -
  let ?r = "m_remote m" and ?mc = "h_machine (p_hello p)"
  have "exact_for ?mc (map_of (p_entries p)) (r_index ?r)"
    using assms(1) unfolding assms(3) by (simp add: remote_ok_def)
  then have "remote_ok (?r\<lparr>r_peers := AList.update ?mc p (r_peers ?r), r_index := r_index ?r\<rparr>)"
    using assms by (intro remote_ok_update) auto
  then show ?thesis by (simp add: insert_peer_def)
qed

lemma new_peer_simps [simp]:
  "p_hello (new_peer now h link dialer es) = h" "p_entries (new_peer now h link dialer es) = es"
  "p_link (new_peer now h link dialer es) = link" "p_dialer (new_peer now h link dialer es) = dialer"
  "p_seq (new_peer now h link dialer es) = 0" "snapshot_open (new_peer now h link dialer es) = False"
  by (simp_all add: new_peer_def)

lemma m_remote_cancel [simp]: "m_remote (cancel_link link m) = m_remote m"
  by (simp add: cancel_link_def)

lemma remote_ok_register:
  assumes ok: "remote_ok (m_remote m)"
  shows "remote_ok (m_remote (snd (register now h link dialer m)))"
proof (cases "map_of (r_peers (m_remote m)) (h_machine h)")
  case None
  then have "held (m_remote m) (h_machine h) = (\<lambda>_. None)" by (simp add: held_def fun_eq_iff)
  then show ?thesis using None ok by (simp add: register_def remote_ok_insert_peer)
next
  case (Some q)
  note peer = remote_ok_peer [OF ok Some]
  have same: "map_of (p_entries q) = held (m_remote m) (h_machine h)" by (simp add: held_def Some fun_eq_iff)
  have kept: "remote_ok (m_remote (insert_peer (new_peer now h link dialer (p_entries q)) (cancel_link k m)))" for k
    using ok peer same by (intro remote_ok_insert_peer) auto
  have cleared: "remote_ok (m_remote (insert_peer (new_peer now h link dialer [])
      ((cancel_link k m)\<lparr>m_remote := Remote_clear (h_machine h) (m_remote m)\<rparr>)))" for k
    using Remote_clear_peers [OF ok, of "h_machine h"] by (intro remote_ok_insert_peer) auto
  show ?thesis using ok kept cleared by (simp add: register_def Some Let_def)
qed

lemma remote_ok_delete:
  assumes "remote_ok r" "held r machine = (\<lambda>_. None)"
  shows "remote_ok (r\<lparr>r_peers := AList.delete machine (r_peers r)\<rparr>)"
proof -
  have "held (r\<lparr>r_peers := AList.delete machine (r_peers r)\<rparr>) other = held r other" for other
    using assms(2) by (cases "other = machine") (auto simp: held_def delete_conv' fun_eq_iff)
  moreover have "set (AList.delete machine (r_peers r)) \<subseteq> set (r_peers r)" by (auto simp: AList.delete_eq)
  ultimately show ?thesis using assms(1) by (auto simp: remote_ok_def distinct_delete)
qed

lemma remote_ok_link_down:
  assumes ok: "remote_ok (m_remote m)"
  shows "remote_ok (m_remote (link_down machine link m))"
proof -
  have "remote_ok ((Remote_clear machine (m_remote m))
      \<lparr>r_peers := AList.delete machine (r_peers (Remote_clear machine (m_remote m)))\<rparr>)"
    using Remote_clear_peers [OF ok, of machine] by (intro remote_ok_delete) auto
  then show ?thesis using ok by (simp add: link_down_def Let_def split: option.split)
qed

text \<open>A frame that fits the table: a snapshot names each bridge once, and only bridges its earlier
  parts did not name.\<close>

definition frame_fits :: "Frame \<Rightarrow> (nat \<times> Entry) list \<Rightarrow> bool"
  where "frame_fits f es \<longleftrightarrow>
    (case f of
       F_snapshot _ _ _ listed _ \<Rightarrow> distinct (map me_bridge listed)
     | F_snapshot_part listed _ \<Rightarrow> fresh_entries listed es
     | _ \<Rightarrow> True)"

lemma remote_ok_apply:
  assumes ok: "remote_ok (m_remote m)"
    and fits: "\<And>p. map_of (r_peers (m_remote m)) machine = Some p \<Longrightarrow> frame_fits f (p_entries p)"
  shows "remote_ok (m_remote (snd (apply_frame now machine link f m)))"
proof (cases "map_of (r_peers (m_remote m)) machine")
  case None
  then show ?thesis using ok by (simp add: apply_frame_def)
next
  case (Some p)
  note peer = remote_ok_peer [OF ok Some]
  let ?index = "r_index (m_remote m)"
  show ?thesis
  proof (cases "p_link p = link")
    case False
    then show ?thesis using ok Some by (simp add: apply_frame_def)
  next
    case link: True
    have gone: "exact_for machine (\<lambda>_. None) (index_remove_all machine (p_entries p) ?index)"
      by (rule exact_remove_all [OF peer(3,2)])
    show ?thesis
    proof (cases f)
      case (F_hello h)
      then show ?thesis using ok Some link by (simp add: apply_frame_def)
    next
      case (F_snapshot epoch seq at listed more_follow)
      then have "fresh_entries listed []" using fits [OF Some] by (simp add: frame_fits_def fresh_entries_def)
      with ok peer gone show ?thesis
        unfolding F_snapshot by (auto simp: apply_frame_def Some link intro!: remote_ok_take_entries)
    next
      case (F_snapshot_part listed more_follow)
      then have "fresh_entries listed (p_entries p)" using fits [OF Some] by (simp add: frame_fits_def)
      with ok peer show ?thesis
        unfolding F_snapshot_part by (auto simp: apply_frame_def Some link intro!: remote_ok_take_entries)
    next
      case (F_attached seq at e)
      let ?e = "e\<lparr>me_attached_at := sane_time (me_attached_at e) now\<rparr>"
      define index' where "index' = (case map_of (p_entries p) (me_bridge e) of
          Some previous \<Rightarrow> index_remove machine previous ?index | None \<Rightarrow> ?index)"
      have "exact_for machine ((map_of (p_entries p))(me_bridge ?e := None)) index'"
        using peer(3) exact_remove [OF peer(3) _ entries_ok_bridge [OF peer(2)]]
        by (auto simp: index'_def fun_upd_idem split: option.split)
      then have exact: "exact_for machine (map_of (AList.update (me_bridge e) ?e (p_entries p)))
          (index_add machine ?e index')"
        using exact_add [of machine "(map_of (p_entries p))(me_bridge ?e := None)" index' ?e]
        by (simp add: update_conv')
      have "same_elsewhere machine ?index index'"
        by (simp add: index'_def split: option.split)
      then have same: "same_elsewhere machine ?index (index_add machine ?e index')"
        by (rule same_elsewhere_trans) simp
      have "entries_ok (AList.update (me_bridge e) ?e (p_entries p))"
        using entries_ok_update [OF peer(2), of ?e] by simp
      with ok peer exact same show ?thesis
        unfolding F_attached
        by (auto simp: apply_frame_def Some link Let_def index'_def [symmetric] intro!: remote_ok_set_peer)
    next
      case (F_detached seq at tid bid)
      show ?thesis
      proof (cases "map_of (p_entries p) bid")
        case None
        with ok peer show ?thesis
          unfolding F_detached by (auto simp: apply_frame_def Some link Let_def intro!: remote_ok_set_peer)
      next
        case e: (Some e)
        have "exact_for machine (map_of (AList.delete bid (p_entries p))) (index_remove machine e ?index)"
          unfolding delete_conv' by (rule exact_remove [OF peer(3) e entries_ok_bridge [OF peer(2) e]])
        with ok peer e show ?thesis
          unfolding F_detached by (auto simp: apply_frame_def Some link Let_def intro!: remote_ok_set_peer)
      qed
    next
      case (F_event at ev)
      have "remote_ok (m_remote (set_peer machine (p\<lparr>p_hello := (p_hello p)\<lparr>h_draining := True\<rparr>, p_entries := []\<rparr>)
          (index_remove_all machine (p_entries p) ?index) m))"
        using ok peer gone by (intro remote_ok_set_peer) auto
      with ok show ?thesis
        unfolding F_event by (auto simp: apply_frame_def Some link split: Event.split)
    next
      case (F_ping at)
      then show ?thesis using ok Some link by (simp add: apply_frame_def)
    next
      case F_unknown
      then show ?thesis using ok Some link by (simp add: apply_frame_def)
    qed
  qed
qed

section \<open>Every state the mesh reaches\<close>

text \<open>\<open>address_step\<close> is what finding and dialing peers does; a dial that succeeds also opens a link,
  which is a step of its own.\<close>

inductive address_step :: "Mesh \<Rightarrow> Mesh \<Rightarrow> bool" where
  found: "address_step m (snd (discover lookup lookup_host tick m))"
| turned: "address_step m (snd (dial_turn tick address (\<lambda>m. (result, m)) pause m))"
| added: "address_step m (add_peer address m)"
| named: "address_step m (set_address address m)"
| severed: "address_step m (cut_link machine sever m)"

text \<open>The service never publishes \<^const>\<open>Leaving\<close>; shutting down does.\<close>

inductive mesh_act :: "Mesh \<Rightarrow> Mesh \<Rightarrow> bool" where
  announced: "call \<noteq> Publish Leaving \<Longrightarrow> mesh_act m (mesh_announce now call m)"
| left: "mesh_act m (leave now m)"
| subscribed: "mesh_act m (snd (subscribe size_of now m))"
| greeted: "mesh_act m (snd (link_hello lookup_host now dialed proven link f m))"
| carried: "(\<And>p. map_of (r_peers (m_remote m)) machine = Some p \<Longrightarrow> frame_fits f (p_entries p)) \<Longrightarrow>
    mesh_act m (snd (link_frame now machine link f m))"
| ended: "mesh_act m (link_end machine link m)"
| addressed: "address_step m m' \<Longrightarrow> mesh_act m m'"

inductive mesh_step :: "Mesh \<Rightarrow> Mesh \<Rightarrow> bool" where
  acted: "mesh_act m m' \<Longrightarrow> mesh_step m m'"
| written: "mesh_step m (snd (write_next link m))"

inductive mesh_reach :: "Mesh \<Rightarrow> bool" where
  start: "mesh_reach (Mesh_new machine region epoch now config)"
| step: "mesh_reach m \<Longrightarrow> mesh_step m m' \<Longrightarrow> mesh_reach m'"

lemma m_remote_broadcast [simp]: "m_remote (broadcast f m) = m_remote m"
  by (simp add: broadcast_def)

lemma m_remote_announce [simp]: "m_remote (mesh_announce now call m) = m_remote m"
  by (cases call) (simp_all add: publish_def mesh_attached_def mesh_detached_def Let_def)

lemma m_remote_leave [simp]: "m_remote (leave now m) = m_remote m"
  by (simp add: leave_def publish_def)

lemma m_remote_subscribe [simp]: "m_remote (snd (subscribe size_of now m)) = m_remote m"
  by (simp add: subscribe_def Let_def)

lemma m_remote_unsubscribe [simp]: "m_remote (unsubscribe link m) = m_remote m"
  by (simp add: unsubscribe_def)

lemma m_remote_write_next [simp]: "m_remote (snd (write_next link m)) = m_remote m"
  by (simp add: write_next_def split: option.split list.split)

lemma m_remote_set_state [simp]: "m_remote (set_state address st m) = m_remote m"
  by (simp add: set_state_def split: option.split)

lemma m_remote_address: "address_step m m' \<Longrightarrow> m_remote m' = m_remote m"
  by (induction rule: address_step.induct)
     (simp_all add: discover_def dial_turn_def add_peer_def set_address_def cut_link_def Let_def
       split: option.split sum.split prod.split)

lemma remote_ok_link_end: "remote_ok (m_remote m) \<Longrightarrow> remote_ok (m_remote (link_end machine link m))"
  by (cases machine) (simp_all add: link_end_def remote_ok_link_down)

lemma remote_ok_link_hello:
  assumes "remote_ok (m_remote m)"
  shows "remote_ok (m_remote (snd (link_hello lookup_host now dialed proven link f m)))"
proof (cases f)
  case (F_hello h)
  let ?dialer = "if dialed then mesh_address m else h_address h"
  obtain won m' where r: "register now h link ?dialer m = (won, m')" by fastforce
  then have "remote_ok (m_remote m')" using remote_ok_register [OF assms, of now h link ?dialer] by simp
  with assms r show ?thesis
    by (cases won; cases dialed) (auto simp: link_hello_def F_hello remote_ok_link_end split: sum.split)
qed (simp_all add: link_hello_def assms remote_ok_link_end)

lemma remote_ok_link_frame:
  assumes "remote_ok (m_remote m)"
    and "\<And>p. map_of (r_peers (m_remote m)) machine = Some p \<Longrightarrow> frame_fits f (p_entries p)"
  shows "remote_ok (m_remote (snd (link_frame now machine link f m)))"
  using remote_ok_apply [OF assms(1), of machine f now link, OF assms(2)]
  by (auto simp: link_frame_def remote_ok_link_end split: prod.split sum.split)

lemma remote_ok_act: "mesh_act m m' \<Longrightarrow> remote_ok (m_remote m) \<Longrightarrow> remote_ok (m_remote m')"
  by (induction rule: mesh_act.induct)
     (simp_all add: remote_ok_link_hello remote_ok_link_frame remote_ok_link_end m_remote_address)

lemma remote_ok_step: "mesh_step m m' \<Longrightarrow> remote_ok (m_remote m) \<Longrightarrow> remote_ok (m_remote m')"
  by (induction rule: mesh_step.induct) (simp_all add: remote_ok_act)

lemma remote_ok_new: "remote_ok (m_remote (Mesh_new machine region epoch now config))"
  by (simp add: Mesh_new_def remote_ok_def exact_for_def in_index_def held_def)

lemma mesh_reach_ok: "mesh_reach m \<Longrightarrow> remote_ok (m_remote m)"
  by (induction rule: mesh_reach.induct) (simp_all add: remote_ok_new remote_ok_step)

section \<open>Lookups\<close>

text \<open>The specification of a lookup, without the index: a linked machine that is not leaving holds a
  bridge of the tunnel that claims the route.\<close>

definition offers :: "Mesh \<Rightarrow> string \<Rightarrow> string \<Rightarrow> string \<Rightarrow> nat \<Rightarrow> bool"
  where "offers m tid route machine at \<longleftrightarrow>
    (\<exists>p bid e. map_of (r_peers (m_remote m)) machine = Some p \<and> \<not> h_draining (p_hello p) \<and>
      map_of (p_entries p) bid = Some e \<and> me_tunnel e = tid \<and> route \<in> set (me_routes e) \<and> me_attached_at e = at)"

lemma newest_snoc:
  "newest (xs @ [x]) = (case newest xs of None \<Rightarrow> Some x | Some y \<Rightarrow> if fst y \<le> fst x then Some x else Some y)"
  by (simp add: newest_def)

lemma newest_None: "newest xs = None \<longleftrightarrow> xs = []"
  by (cases xs rule: rev_cases) (auto simp: newest_snoc newest_def [of "[]"] split: option.split)

lemma newest_Some: "newest xs = Some x \<Longrightarrow> x \<in> set xs \<and> (\<forall>y \<in> set xs. fst y \<le> fst x)"
proof (induction xs arbitrary: x rule: rev_induct)
  case Nil
  then show ?case by (simp add: newest_def)
next
  case (snoc y xs)
  show ?case
  proof (cases "newest xs")
    case None
    then have "xs = []" by (simp add: newest_None)
    then show ?thesis using snoc.prems by (simp add: newest_def)
  next
    case (Some z)
    then have "z \<in> set xs" "\<forall>w \<in> set xs. fst w \<le> fst z" using snoc.IH by auto
    then show ?thesis using snoc.prems Some by (fastforce simp: newest_snoc split: if_splits)
  qed
qed

lemma claimed_at_iff:
  assumes "remote_ok (m_remote m)"
  shows "(\<exists>h \<in> set (holders_of tid m). claimed_at m route skip h = Some (at, p)) \<longleftrightarrow>
    (\<exists>machine bid e. skip \<noteq> Some machine \<and> map_of (r_peers (m_remote m)) machine = Some p \<and>
      \<not> h_draining (p_hello p) \<and> map_of (p_entries p) bid = Some e \<and> me_tunnel e = tid \<and>
      route \<in> set (me_routes e) \<and> me_attached_at e = at)"
    (is "?found \<longleftrightarrow> ?claimed")
proof -
  have item: "h \<in> set (holders_of tid m) \<longleftrightarrow> in_index (r_index (m_remote m)) tid h" for h
    by (simp add: holders_of_def in_index_def split: option.split)
  have index: "in_index (r_index (m_remote m)) tid (machine, bid) \<longleftrightarrow>
      (\<exists>e. held (m_remote m) machine bid = Some e \<and> me_tunnel e = tid)" for machine bid
    using assms by (simp add: remote_ok_def exact_for_def)
  have claimed: "claimed_at m route skip (machine, bid) = Some (at, p) \<longleftrightarrow>
      (\<exists>e. skip \<noteq> Some machine \<and> map_of (r_peers (m_remote m)) machine = Some p \<and>
        \<not> h_draining (p_hello p) \<and> map_of (p_entries p) bid = Some e \<and>
        route \<in> set (me_routes e) \<and> me_attached_at e = at)" for machine bid
    by (auto simp: claimed_at_def held_entry_def bind_eq_Some_conv split: if_splits)
  have "?found \<longleftrightarrow> (\<exists>machine bid. in_index (r_index (m_remote m)) tid (machine, bid) \<and>
      claimed_at m route skip (machine, bid) = Some (at, p))"
    using item by auto
  also have "\<dots> \<longleftrightarrow> ?claimed"
    unfolding index claimed held_def bind_eq_Some_conv by fastforce
  finally show ?thesis .
qed

lemma located:
  assumes ok: "remote_ok (m_remote m)"
  shows "locate tid route skip m = Some l \<Longrightarrow>
      \<exists>machine at p. skip \<noteq> Some machine \<and> offers m tid route machine at \<and>
        map_of (r_peers (m_remote m)) machine = Some p \<and> l = location_of p \<and> loc_machine l = machine \<and>
        (\<forall>other at'. skip \<noteq> Some other \<longrightarrow> offers m tid route other at' \<longrightarrow> at' \<le> at)"
    and "locate tid route skip m = None \<longleftrightarrow> (\<forall>machine at. skip \<noteq> Some machine \<longrightarrow> \<not> offers m tid route machine at)"
proof -
  let ?found = "List.map_filter (claimed_at m route skip) (holders_of tid m)"
  have mem: "(at, p) \<in> set ?found \<longleftrightarrow> (\<exists>h \<in> set (holders_of tid m). claimed_at m route skip h = Some (at, p))"
    for at p by (force simp: map_filter_def)
  have offered: "(\<exists>p. (at, p) \<in> set ?found \<and> map_of (r_peers (m_remote m)) machine = Some p) \<longleftrightarrow>
      skip \<noteq> Some machine \<and> offers m tid route machine at" for machine at
  proof -
    have "machine' = machine" if "map_of (r_peers (m_remote m)) machine' = Some p"
      "map_of (r_peers (m_remote m)) machine = Some p" for machine' p
      using remote_ok_peer(1) [OF ok] that by metis
    then show ?thesis unfolding mem claimed_at_iff [OF ok] offers_def by metis
  qed
  have peer: "\<exists>machine. map_of (r_peers (m_remote m)) machine = Some p" if "(at, p) \<in> set ?found" for at p
    using that unfolding mem claimed_at_iff [OF ok] by blast
  show "\<exists>machine at p. skip \<noteq> Some machine \<and> offers m tid route machine at \<and>
      map_of (r_peers (m_remote m)) machine = Some p \<and> l = location_of p \<and> loc_machine l = machine \<and>
      (\<forall>other at'. skip \<noteq> Some other \<longrightarrow> offers m tid route other at' \<longrightarrow> at' \<le> at)"
    if found: "locate tid route skip m = Some l"
  proof -
    obtain at p where best: "newest ?found = Some (at, p)" "l = location_of p"
      using found by (auto simp: locate_def)
    then have p: "(at, p) \<in> set ?found" and top: "\<forall>y \<in> set ?found. fst y \<le> at"
      using newest_Some [OF best(1)] by auto
    obtain machine where machine: "map_of (r_peers (m_remote m)) machine = Some p" using peer [OF p] by blast
    have "skip \<noteq> Some machine \<and> offers m tid route machine at" using offered p machine by blast
    moreover have "loc_machine l = machine"
      using best(2) remote_ok_peer(1) [OF ok machine] by (simp add: location_of_def)
    moreover have "at' \<le> at" if "skip \<noteq> Some other" "offers m tid route other at'" for other at'
      using offered [of at' other] that top by force
    ultimately show ?thesis using machine best(2) by blast
  qed
  have "locate tid route skip m = None \<longleftrightarrow> (\<forall>at p. (at, p) \<notin> set ?found)"
    by (auto simp: locate_def newest_None) (metis list.set_intros(1) neq_Nil_conv surj_pair)
  then show "locate tid route skip m = None \<longleftrightarrow>
      (\<forall>machine at. skip \<noteq> Some machine \<longrightarrow> \<not> offers m tid route machine at)"
    using offered peer by metis
qed

section \<open>Who holds routes of a tunnel\<close>

definition held_by :: "Mesh \<Rightarrow> string \<Rightarrow> string list \<Rightarrow> string \<Rightarrow> bool"
  where "held_by m tid rs machine \<longleftrightarrow>
    (\<exists>p bid e. map_of (r_peers (m_remote m)) machine = Some p \<and> \<not> h_draining (p_hello p) \<and>
      map_of (p_entries p) bid = Some e \<and> me_tunnel e = tid \<and> claims_any rs e)"

definition item_held :: "Mesh \<Rightarrow> string list \<Rightarrow> string \<times> nat \<Rightarrow> bool"
  where "item_held m rs h \<longleftrightarrow>
    (case held_entry m h of None \<Rightarrow> False | Some (p, e) \<Rightarrow> \<not> h_draining (p_hello p) \<and> claims_any rs e)"

lemma item_held_iff:
  "item_held m rs (machine, bid) \<longleftrightarrow>
     (\<exists>p e. map_of (r_peers (m_remote m)) machine = Some p \<and> map_of (p_entries p) bid = Some e \<and>
       \<not> h_draining (p_hello p) \<and> claims_any rs e)"
  by (cases "map_of (r_peers (m_remote m)) machine")
     (auto simp: item_held_def held_entry_def bind_eq_Some_conv split: option.split_asm option.split)

lemma holders_fold:
  assumes ok: "remote_ok (m_remote m)"
  shows "distinct (map loc_machine found) \<Longrightarrow>
     distinct (map loc_machine (fold (holders_step m rs) hs found)) \<and>
     set (map loc_machine (fold (holders_step m rs) hs found)) =
       set (map loc_machine found) \<union> fst ` {h \<in> set hs. item_held m rs h}"
proof (induction hs arbitrary: found)
  case Nil
  then show ?case by simp
next
  case (Cons h hs)
  have machine: "loc_machine (location_of p) = fst h" if "held_entry m h = Some (p, e)" for p e
    using that remote_ok_peer(1) [OF ok] by (cases h) (auto simp: held_entry_def bind_eq_Some_conv location_of_def)
  have step: "distinct (map loc_machine (holders_step m rs h found)) \<and>
      set (map loc_machine (holders_step m rs h found)) =
        set (map loc_machine found) \<union> (if item_held m rs h then {fst h} else {})"
  proof (cases "held_entry m h")
    case None
    then show ?thesis using Cons.prems by (simp add: holders_step_def item_held_def)
  next
    case (Some pe)
    obtain p e where pe: "pe = (p, e)" by fastforce
    have "list_ex (\<lambda>l. loc_machine l = fst h) found \<longleftrightarrow> fst h \<in> set (map loc_machine found)"
      unfolding list_ex_iff set_map image_iff by metis
    then show ?thesis
      using Cons.prems machine [OF Some [unfolded pe]]
      by (auto simp: holders_step_def item_held_def Some pe)
  qed
  then show ?case using Cons.IH [of "holders_step m rs h found"] by auto
qed

lemma holders_spec:
  assumes ok: "remote_ok (m_remote m)"
  shows "distinct (map loc_machine (holders tid rs m))"
    and "machine \<in> set (map loc_machine (holders tid rs m)) \<longleftrightarrow> held_by m tid rs machine"
proof -
  note folded = holders_fold [OF ok, of "[]" rs "holders_of tid m"]
  show "distinct (map loc_machine (holders tid rs m))" using folded by (simp add: holders_def)
  have item: "h \<in> set (holders_of tid m) \<longleftrightarrow> in_index (r_index (m_remote m)) tid h" for h
    by (simp add: holders_of_def in_index_def split: option.split)
  have index: "in_index (r_index (m_remote m)) tid (machine, bid) \<longleftrightarrow>
      (\<exists>e. held (m_remote m) machine bid = Some e \<and> me_tunnel e = tid)" for bid
    using ok by (simp add: remote_ok_def exact_for_def)
  have found: "set (map loc_machine (holders tid rs m)) = fst ` {h \<in> set (holders_of tid m). item_held m rs h}"
    using folded by (simp add: holders_def)
  have "machine \<in> set (map loc_machine (holders tid rs m)) \<longleftrightarrow>
      (\<exists>bid. (machine, bid) \<in> set (holders_of tid m) \<and> item_held m rs (machine, bid))"
    unfolding found image_iff by (metis (mono_tags, lifting) fst_conv mem_Collect_eq prod.collapse)
  also have "\<dots> \<longleftrightarrow> (\<exists>bid e p. map_of (r_peers (m_remote m)) machine = Some p \<and>
      map_of (p_entries p) bid = Some e \<and> me_tunnel e = tid \<and> \<not> h_draining (p_hello p) \<and> claims_any rs e)"
    unfolding item index held_def bind_eq_Some_conv item_held_iff by (metis option.inject)
  also have "\<dots> \<longleftrightarrow> held_by m tid rs machine" unfolding held_by_def by blast
  finally show "machine \<in> set (map loc_machine (holders tid rs m)) \<longleftrightarrow> held_by m tid rs machine" .
qed

end
