(* ===== verification/Mesh_Links.thy ===== *)
theory Mesh_Links
  imports Mesh_Table
begin

text \<open>
  A link carries one machine's table to another. \<open>replay\<close> says what a frame does to a table without the
  rest of the machine; \<open>apply_frame\<close> refines it, and what a machine queues for a link replays to its own
  table. So in every state two linked machines reach, nothing the sender queued is refused, and once it has
  all arrived the receiver's table for the sender is the sender's.
\<close>

section \<open>Tables without machines\<close>

record View =
  v_seq :: u64
  v_open :: bool
  v_leaving :: bool
  v_table :: "nat \<rightharpoonup> string \<times> string list"

definition claim :: "Entry \<Rightarrow> string \<times> string list"
  where "claim e = (me_tunnel e, me_routes e)"

definition claims_of :: "(nat \<times> Entry) list \<Rightarrow> nat \<rightharpoonup> string \<times> string list"
  where "claims_of es b = map_option claim (map_of es b)"

definition list_table :: "Entry list \<Rightarrow> (nat \<rightharpoonup> string \<times> string list) \<Rightarrow> nat \<rightharpoonup> string \<times> string list"
  where "list_table listed t = fold (\<lambda>e t. t(me_bridge e \<mapsto> claim e)) listed t"

definition listing :: "Entry list \<Rightarrow> bool \<Rightarrow> View \<Rightarrow> View option"
  where "listing listed more_follow v =
    (if distinct (map me_bridge listed) \<and> (\<forall>e \<in> set listed. v_table v (me_bridge e) = None)
     then Some (v\<lparr>v_open := more_follow,
       v_table := (if v_leaving v then v_table v else list_table listed (v_table v))\<rparr>)
     else None)"

fun replay :: "nat \<Rightarrow> Frame \<Rightarrow> View \<Rightarrow> View option" where
  "replay epoch (F_hello _) v = None"
| "replay epoch (F_snapshot ep seq _ listed more_follow) v =
     (if ep = epoch then listing listed more_follow (v\<lparr>v_seq := seq, v_table := Map.empty\<rparr>) else None)"
| "replay epoch (F_snapshot_part listed more_follow) v =
     (if v_open v then listing listed more_follow v else None)"
| "replay epoch (F_attached seq _ e) v =
     (if \<not> v_open v \<and> seq = v_seq v + 1
      then Some (v\<lparr>v_seq := seq,
        v_table := (if v_leaving v then v_table v else (v_table v)(me_bridge e \<mapsto> claim e))\<rparr>)
      else None)"
| "replay epoch (F_detached seq _ _ bid) v =
     (if seq = v_seq v + 1 then Some (v\<lparr>v_seq := seq, v_table := (v_table v)(bid := None)\<rparr>) else None)"
| "replay epoch (F_event _ ev) v =
     Some (if ev = Leaving then v\<lparr>v_leaving := True, v_table := Map.empty\<rparr> else v)"
| "replay epoch (F_ping _) v = Some v"
| "replay epoch F_unknown v = Some v"

fun replay_all :: "nat \<Rightarrow> Frame list \<Rightarrow> View \<Rightarrow> View option" where
  "replay_all epoch [] v = Some v"
| "replay_all epoch (f # fs) v = Option.bind (replay epoch f v) (replay_all epoch fs)"

lemma replay_all_append:
  "replay_all epoch (fs @ gs) v = Option.bind (replay_all epoch fs v) (replay_all epoch gs)"
proof (induction fs arbitrary: v)
  case (Cons f fs)
  then show ?case by (cases "replay epoch f v") simp_all
qed simp

definition view_of :: "Peer \<Rightarrow> View"
  where "view_of p = \<lparr>v_seq = p_seq p, v_open = snapshot_open p, v_leaving = h_draining (p_hello p),
    v_table = claims_of (p_entries p)\<rparr>"

lemma claims_of_Nil [simp]: "claims_of [] = Map.empty"
  by (simp add: claims_of_def fun_eq_iff)

lemma claims_of_update [simp]: "claims_of (AList.update b e es) = (claims_of es)(b \<mapsto> claim e)"
  by (simp add: claims_of_def fun_eq_iff update_conv')

lemma claims_of_delete [simp]: "claims_of (AList.delete b es) = (claims_of es)(b := None)"
  by (simp add: claims_of_def fun_eq_iff delete_conv')

lemma claim_time [simp]: "claim (e\<lparr>me_attached_at := at\<rparr>) = claim e"
  by (simp add: claim_def)

lemma claims_of_None: "claims_of es b = None \<longleftrightarrow> map_of es b = None"
  by (simp add: claims_of_def)

section \<open>Applying a frame is replaying it\<close>

lemma add_entries_claims:
  "fold (add_entry now machine) listed (es, index) = (es', index') \<Longrightarrow>
     claims_of es' = list_table listed (claims_of es)"
  by (induction listed arbitrary: es index) (auto simp: list_table_def add_entry_pair)

lemma map_of_set_peer [simp]: "map_of (r_peers (m_remote (set_peer machine p index m))) machine = Some p"
  by (simp add: set_peer_def update_conv')

lemma take_entries_view:
  assumes "listing listed more_follow (view_of p) = Some v"
  shows "\<exists>q. map_of (r_peers (m_remote (take_entries now machine listed more_follow p index m))) machine = Some q \<and>
    p_link q = p_link p \<and> p_hello q = p_hello p \<and> view_of q = v"
proof -
  obtain es index' where run: "fold (add_entry now machine) listed (p_entries p, index) = (es, index')"
    by fastforce
  note claims = add_entries_claims [OF run]
  show ?thesis
    using assms claims
    by (auto simp: take_entries_def run listing_def view_of_def split: if_splits)
qed

definition applies_to :: "(mesh_error + unit) \<times> Mesh \<Rightarrow> string \<Rightarrow> Peer \<Rightarrow> View \<Rightarrow> bool"
  where "applies_to r machine p v \<longleftrightarrow> fst r = Ok () \<and>
    (\<exists>q. map_of (r_peers (m_remote (snd r))) machine = Some q \<and> p_link q = p_link p \<and>
      h_epoch (p_hello q) = h_epoch (p_hello p) \<and> view_of q = v)"

lemma apply_refines_replay:
  assumes p: "map_of (r_peers (m_remote m)) machine = Some p"
    and run: "replay (h_epoch (p_hello p)) f (view_of p) = Some v"
  shows "applies_to (apply_frame now machine (p_link p) f m) machine p v \<and> frame_fits f (p_entries p)"
proof (cases f)
  case (F_snapshot epoch seq at listed more_follow)
  let ?p = "p\<lparr>p_entries := [], p_seq := seq\<rparr>"
  have "epoch = h_epoch (p_hello p)" and l: "listing listed more_follow (view_of ?p) = Some v"
    using run by (auto simp: F_snapshot view_of_def split: if_splits)
  moreover have "distinct (map me_bridge listed)" using l by (auto simp: listing_def split: if_splits)
  moreover obtain q where "map_of (r_peers (m_remote (take_entries now machine listed more_follow ?p
      (index_remove_all machine (p_entries p) (r_index (m_remote m))) m))) machine = Some q"
      "p_link q = p_link p" "p_hello q = p_hello p" "view_of q = v"
    using take_entries_view [OF l] by fastforce
  ultimately show ?thesis
    by (simp add: apply_frame_def applies_to_def p F_snapshot frame_fits_def)
next
  case (F_snapshot_part listed more_follow)
  have "snapshot_open p" and l: "listing listed more_follow (view_of p) = Some v"
    using run by (auto simp: F_snapshot_part view_of_def split: if_splits)
  moreover have "fresh_entries listed (p_entries p)"
    using l by (auto simp: listing_def fresh_entries_def view_of_def claims_of_None split: if_splits)
  moreover obtain q where "map_of (r_peers (m_remote (take_entries now machine listed more_follow p
      (r_index (m_remote m)) m))) machine = Some q" "p_link q = p_link p" "p_hello q = p_hello p" "view_of q = v"
    using take_entries_view [OF l] by fastforce
  ultimately show ?thesis
    by (simp add: apply_frame_def applies_to_def p F_snapshot_part frame_fits_def)
next
  case (F_attached seq at e)
  then show ?thesis
    using run by (auto simp: apply_frame_def applies_to_def p frame_fits_def view_of_def Let_def split: if_splits)
next
  case (F_detached seq at tid bid)
  have same: "claims_of (p_entries p) = (claims_of (p_entries p))(bid := None)" if "map_of (p_entries p) bid = None"
    using that by (simp add: fun_upd_idem claims_of_None)
  show ?thesis
    using run same
    by (auto simp: apply_frame_def applies_to_def p F_detached frame_fits_def view_of_def Let_def
        split: if_splits option.split)
next
  case (F_event at ev)
  then show ?thesis
    using run by (cases ev) (auto simp: apply_frame_def applies_to_def p frame_fits_def view_of_def)
qed (use run in \<open>auto simp: apply_frame_def applies_to_def p frame_fits_def\<close>)

section \<open>What a machine queues replays to its table\<close>

text \<open>The table of the sender as a receiver that took it for leaving (\<open>gone\<close>) or not should see it.\<close>

definition sent_view :: "bool \<Rightarrow> Mesh \<Rightarrow> View"
  where "sent_view gone m = \<lparr>v_seq = l_seq (m_local m), v_open = False, v_leaving = gone \<or> m_draining m,
    v_table = (if gone \<or> m_draining m then Map.empty else claims_of (l_entries (m_local m)))\<rparr>"

definition queue_of :: "nat \<Rightarrow> Mesh \<Rightarrow> Frame list option"
  where "queue_of link m = map_of (l_links (m_local m)) link"

text \<open>A step of the sender that keeps the link adds frames that replay to its new table.\<close>

definition keeps_up :: "nat \<Rightarrow> Mesh \<Rightarrow> Mesh \<Rightarrow> bool"
  where "keeps_up link m m' \<longleftrightarrow>
    m_id m' = m_id m \<and> m_epoch m' = m_epoch m \<and> m_next_link m \<le> m_next_link m' \<and>
    (m_draining m \<longrightarrow> m_draining m') \<and>
    (\<forall>q q'. queue_of link m = Some q \<longrightarrow> queue_of link m' = Some q' \<longrightarrow>
      (\<exists>fs. q' = q @ fs \<and>
        (\<forall>gone. replay_all (m_epoch m) fs (sent_view gone m) = Some (sent_view gone m'))))"

definition local_ok :: "Mesh \<Rightarrow> bool"
  where "local_ok m \<longleftrightarrow> entries_ok (l_entries (m_local m)) \<and> distinct (map fst (l_links (m_local m))) \<and>
    (\<forall>link \<in> set (map fst (l_links (m_local m))). link < m_next_link m)"

lemma queue_of_broadcast:
  assumes "queue_of link (broadcast f m) = Some q'" "distinct (map fst (l_links (m_local m)))"
  shows "\<exists>q. queue_of link m = Some q \<and> q' = q @ [f]"
proof -
  let ?kept = "filter (\<lambda>(_, q). length q < LINK_QUEUE) (l_links (m_local m))"
  have "map_option (\<lambda>q. q @ [f]) (map_of ?kept link) = Some q'"
    using assms(1) by (simp add: queue_of_def broadcast_def map_of_map comp_def split: prod.split)
  then obtain q where q: "map_of ?kept link = Some q" "q' = q @ [f]" by auto
  then have "(link, q) \<in> set (l_links (m_local m))" using map_of_SomeD [OF q(1)] by simp
  then show ?thesis using q(2) assms(2) by (simp add: queue_of_def)
qed

lemma broadcast_simps [simp]:
  "l_seq (m_local (broadcast f m)) = l_seq (m_local m)"
  "l_entries (m_local (broadcast f m)) = l_entries (m_local m)"
  "m_draining (broadcast f m) = m_draining m" "m_epoch (broadcast f m) = m_epoch m"
  "m_id (broadcast f m) = m_id m" "m_next_link (broadcast f m) = m_next_link m"
  by (simp_all add: broadcast_def)

lemma links_broadcast: "map fst (l_links (m_local (broadcast f m))) =
    map fst (filter (\<lambda>(_, q). length q < LINK_QUEUE) (l_links (m_local m)))"
  by (simp add: broadcast_def comp_def split_def)

lemma local_ok_broadcast: "local_ok m \<Longrightarrow> local_ok (broadcast f m)"
  unfolding local_ok_def links_broadcast by (auto simp: distinct_map_filter)

text \<open>One frame that brings the table up to date.\<close>

lemma keeps_up_broadcast:
  assumes "local_ok m" "l_links (m_local n) = l_links (m_local m)" "m_id n = m_id m"
    and "m_epoch n = m_epoch m" "m_next_link n = m_next_link m" "m_draining m \<Longrightarrow> m_draining n"
    and "\<And>gone. replay (m_epoch m) f (sent_view gone m) = Some (sent_view gone n)"
  shows "keeps_up link m (broadcast f n)"
proof -
  have view: "sent_view gone (broadcast f n) = sent_view gone n" for gone
    by (simp add: sent_view_def)
  have "q' = q @ [f]" if "queue_of link m = Some q" "queue_of link (broadcast f n) = Some q'" for q q'
  proof -
    have "queue_of link n = Some q" using that(1) assms(2) by (simp add: queue_of_def)
    moreover have "distinct (map fst (l_links (m_local n)))" using assms(1,2) by (simp add: local_ok_def)
    ultimately show ?thesis using queue_of_broadcast [OF that(2)] by auto
  qed
  then show ?thesis using assms by (fastforce simp: keeps_up_def view)
qed

text \<open>A step that leaves this machine's table and the link's queue alone.\<close>

lemma keeps_up_quiet:
  assumes "l_seq (m_local m') = l_seq (m_local m)" "l_entries (m_local m') = l_entries (m_local m)"
    and "m_draining m' = m_draining m" "m_id m' = m_id m" "m_epoch m' = m_epoch m"
    and "m_next_link m \<le> m_next_link m'"
    and "\<And>q'. queue_of link m' = Some q' \<Longrightarrow> queue_of link m = None \<or> queue_of link m = Some q'"
  shows "keeps_up link m m'"
proof -
  have "sent_view gone m' = sent_view gone m" for gone using assms by (simp add: sent_view_def)
  then show ?thesis using assms(3-7) by (fastforce simp: keeps_up_def)
qed

lemma keeps_up_attached: "local_ok m \<Longrightarrow> keeps_up link m (mesh_attached now tid bid rs at m)"
  unfolding mesh_attached_def Let_def
  by (rule keeps_up_broadcast) (auto simp: sent_view_def claim_def)

lemma keeps_up_detached: "local_ok m \<Longrightarrow> keeps_up link m (mesh_detached now tid bid m)"
proof (cases "map_of (l_entries (m_local m)) bid")
  case None
  then show "local_ok m \<Longrightarrow> ?thesis" by (simp add: mesh_detached_def) (auto intro: keeps_up_quiet)
next
  case (Some e)
  assume "local_ok m"
  then show ?thesis
    unfolding mesh_detached_def Let_def using Some
    by (auto simp: sent_view_def intro!: keeps_up_broadcast)
qed

lemma keeps_up_publish: "local_ok m \<Longrightarrow> ev \<noteq> Leaving \<Longrightarrow> keeps_up link m (publish now ev m)"
  unfolding publish_def by (rule keeps_up_broadcast) auto

lemma keeps_up_leave: "local_ok m \<Longrightarrow> keeps_up link m (leave now m)"
  unfolding leave_def publish_def by (rule keeps_up_broadcast) (auto simp: sent_view_def)

lemma keeps_up_announce:
  "local_ok m \<Longrightarrow> call \<noteq> Publish Leaving \<Longrightarrow> keeps_up link m (mesh_announce now call m)"
  by (cases call) (auto intro: keeps_up_publish keeps_up_attached keeps_up_detached)

lemma local_ok_change:
  assumes "local_ok m" "entries_ok (l_entries (m_local n))" "l_links (m_local n) = l_links (m_local m)"
    and "m_next_link n = m_next_link m"
  shows "local_ok (broadcast f n)"
  using assms by (intro local_ok_broadcast) (simp add: local_ok_def)

lemma local_ok_announce: "local_ok m \<Longrightarrow> local_ok (mesh_announce now call m)"
proof (cases call)
  case (Publish ev)
  assume "local_ok m"
  with Publish show ?thesis by (simp add: publish_def local_ok_broadcast)
next
  case (Mesh_attached tid bid rs at)
  assume ok: "local_ok m"
  let ?e = "\<lparr>me_tunnel = tid, me_bridge = bid, me_routes = rs, me_attached_at = at\<rparr>"
  have "entries_ok (AList.update bid ?e (l_entries (m_local m)))"
    using ok entries_ok_update [of "l_entries (m_local m)" ?e] by (simp add: local_ok_def)
  then show ?thesis
    unfolding Mesh_attached mesh_announce.simps mesh_attached_def Let_def
    by (intro local_ok_change [OF ok]) auto
next
  case (Mesh_detached tid bid)
  assume ok: "local_ok m"
  then have "entries_ok (AList.delete bid (l_entries (m_local m)))" by (simp add: local_ok_def)
  then show ?thesis
    unfolding Mesh_detached mesh_announce.simps mesh_detached_def Let_def
    using ok by (auto intro!: local_ok_change [OF ok])
qed

lemma local_ok_leave: "local_ok m \<Longrightarrow> local_ok (leave now m)"
  unfolding leave_def publish_def by (rule local_ok_change) (auto simp: local_ok_def)

section \<open>Links of the sender\<close>

lemma local_ok_subscribe:
  assumes "local_ok m"
  shows "local_ok (snd (subscribe size_of now m))"
  using assms by (auto simp: local_ok_def subscribe_def Let_def distinct_update dom_update less_Suc_eq)

lemma keeps_up_subscribe: "link < m_next_link m \<Longrightarrow> keeps_up link m (snd (subscribe size_of now m))"
  by (rule keeps_up_quiet) (auto simp: subscribe_def Let_def queue_of_def update_conv' split: if_splits)

text \<open>Taking other machines' frames and ending links.\<close>

definition same_local :: "Mesh \<Rightarrow> Mesh \<Rightarrow> bool"
  where "same_local m m' \<longleftrightarrow>
    l_seq (m_local m') = l_seq (m_local m) \<and> l_entries (m_local m') = l_entries (m_local m) \<and>
    m_draining m' = m_draining m \<and> m_id m' = m_id m \<and> m_epoch m' = m_epoch m \<and>
    m_next_link m' = m_next_link m \<and>
    (l_links (m_local m') = l_links (m_local m) \<or>
     (\<exists>link. l_links (m_local m') = AList.delete link (l_links (m_local m))))"

lemma same_local_keeps_up: "same_local m m' \<Longrightarrow> keeps_up link m m'"
  by (rule keeps_up_quiet) (auto simp: same_local_def queue_of_def delete_conv' split: if_splits)

lemma same_local_ok: "local_ok m \<Longrightarrow> same_local m m' \<Longrightarrow> local_ok m'"
  unfolding same_local_def local_ok_def by (elim conjE disjE exE) (simp_all only: delete_keys, auto simp: distinct_removeAll)

definition same_self :: "Mesh \<Rightarrow> Mesh \<Rightarrow> bool"
  where "same_self m m' \<longleftrightarrow> m_local m' = m_local m \<and> m_draining m' = m_draining m \<and> m_id m' = m_id m \<and>
    m_epoch m' = m_epoch m \<and> m_next_link m' = m_next_link m"

lemma same_self_local: "same_self m m' \<Longrightarrow> same_local m m'"
  by (simp add: same_self_def same_local_def)

lemma same_self_refl [simp]: "same_self m m" by (simp add: same_self_def)

lemma same_self_set_peer [simp]: "same_self m (set_peer machine p index m)"
  by (simp add: same_self_def set_peer_def)

lemma same_self_link_down: "same_self m (link_down machine link m)"
  by (simp add: same_self_def link_down_def Let_def split: option.split)

lemma same_self_register: "same_self m (snd (register now h link dialer m))"
  by (simp add: same_self_def register_def insert_peer_def cancel_link_def Let_def split: option.split)

lemma same_self_take_entries [simp]: "same_self m (take_entries now machine listed more_follow p index m)"
  by (simp add: take_entries_def Let_def split: prod.split)

lemma same_self_apply: "same_self m (snd (apply_frame now machine link f m))"
proof (cases "map_of (r_peers (m_remote m)) machine")
  case None
  then show ?thesis by (simp add: apply_frame_def)
next
  case (Some p)
  have notices: "same_self m (m\<lparr>m_notices := ns\<rparr>)" for ns by (simp add: same_self_def)
  show ?thesis
    by (cases f) (simp_all add: apply_frame_def Some Let_def notices split: option.split Event.split)
qed

lemma same_local_link_end: "same_self n m \<Longrightarrow> same_local n (link_end machine link m)"
proof -
  assume n: "same_self n m"
  have "same_self m (case machine of Some machine \<Rightarrow> link_down machine link m | None \<Rightarrow> m)"
    by (simp add: same_self_link_down split: option.split)
  with n show ?thesis
    by (auto simp: link_end_def cancel_link_def unsubscribe_def same_self_def same_local_def)
qed

lemma same_local_link_hello: "same_local m (snd (link_hello lookup_host now dialed proven link f m))"
proof (cases f)
  case (F_hello h)
  let ?dialer = "if dialed then mesh_address m else h_address h"
  obtain won m' where r: "register now h link ?dialer m = (won, m')" by fastforce
  then have "same_self m m'" using same_self_register [of m now h link ?dialer] by simp
  then have won: "same_local m (m'\<lparr>m_notices := ns\<rparr>)" "same_local m (link_end None link m')" for ns
    by (simp_all add: same_local_link_end) (simp add: same_self_def same_local_def)
  have "same_local m (link_end None link m)" by (simp add: same_local_link_end)
  with won r show ?thesis
    by (cases won; cases dialed) (auto simp: link_hello_def F_hello split: sum.split)
qed (simp_all add: link_hello_def same_local_link_end)

lemma same_local_link_frame: "same_local m (snd (link_frame now machine link f m))"
  using same_self_apply [of m now machine link f]
  by (auto simp: link_frame_def same_local_link_end same_self_local split: prod.split sum.split)

lemma same_self_address: "address_step m m' \<Longrightarrow> same_self m m'"
  by (induction rule: address_step.induct)
     (simp_all add: discover_def dial_turn_def add_peer_def set_address_def cut_link_def set_state_def
       cancel_link_def same_self_def Let_def split: option.split sum.split prod.split)

lemma act_keeps_up:
  assumes "mesh_act m m'" "local_ok m" "link < m_next_link m"
  shows "keeps_up link m m' \<and> local_ok m'"
  using assms
proof (induction rule: mesh_act.induct)
  case (addressed m m')
  then have "same_local m m'" by (simp add: same_self_local same_self_address)
  with addressed show ?case by (simp add: same_local_keeps_up same_local_ok)
next
  case (greeted m lookup_host now dialed proven k f)
  have "same_local m (snd (link_hello lookup_host now dialed proven k f m))" by (rule same_local_link_hello)
  with greeted show ?case by (simp add: same_local_keeps_up same_local_ok)
next
  case (carried m machine f now k)
  have "same_local m (snd (link_frame now machine k f m))" by (rule same_local_link_frame)
  with carried show ?case by (simp add: same_local_keeps_up same_local_ok)
next
  case (ended m machine k)
  have "same_local m (link_end machine k m)" by (simp add: same_local_link_end)
  with ended show ?case by (simp add: same_local_keeps_up same_local_ok)
qed (simp_all add: keeps_up_announce local_ok_announce keeps_up_leave local_ok_leave
    keeps_up_subscribe local_ok_subscribe)

lemma write_next_queue:
  assumes "write_next link m = (Some f, m')"
  shows "\<exists>q. queue_of link m = Some (f # q) \<and> queue_of link m' = Some q \<and> sent_view gone m' = sent_view gone m \<and>
    m_id m' = m_id m \<and> m_epoch m' = m_epoch m \<and> m_next_link m' = m_next_link m"
  using assms
  by (auto simp: write_next_def queue_of_def update_conv' sent_view_def split: option.splits list.splits)

lemma local_ok_write_next:
  assumes "local_ok m"
  shows "local_ok (snd (write_next link m))"
proof -
  have keys: "map fst (AList.update link q (l_links (m_local m))) = map fst (l_links (m_local m))"
    if "map_of (l_links (m_local m)) link = Some q0" for q q0
    using map_of_SomeD [OF that] by (force simp: update_keys image_iff)
  show ?thesis
  proof (cases "\<exists>f q. map_of (l_links (m_local m)) link = Some (f # q)")
    case True
    then obtain f q where q: "map_of (l_links (m_local m)) link = Some (f # q)" by blast
    show ?thesis
      using assms unfolding local_ok_def write_next_def q by (simp only: option.case list.case snd_conv) (simp add: keys [OF q] del: set_map)
  next
    case False
    then have "snd (write_next link m) = m" by (auto simp: write_next_def split: option.split list.split)
    with assms show ?thesis by simp
  qed
qed

lemma local_ok_step:
  assumes "mesh_step m m'" "local_ok m"
  shows "local_ok m'"
  using assms
proof (induction rule: mesh_step.induct)
  case (acted m m')
  then show ?case by (induction rule: mesh_act.induct)
    (simp_all add: local_ok_announce local_ok_leave local_ok_subscribe same_local_ok [OF _ same_local_link_hello]
      same_local_ok [OF _ same_local_link_frame] same_local_ok [OF _ same_local_link_end]
      same_local_ok [OF _ same_self_local [OF same_self_address]])
qed (simp add: local_ok_write_next)

lemma mesh_reach_local: "mesh_reach m \<Longrightarrow> local_ok m"
  by (induction rule: mesh_reach.induct) (simp_all add: local_ok_step, simp add: Mesh_new_def local_ok_def)

section \<open>A snapshot replays to the table\<close>

lemma chunk_step_concat:
  "fst s \<noteq> [] \<Longrightarrow> concat (fst (chunk_step size_of limit e s)) = concat (fst s) @ [e] \<and>
     fst (chunk_step size_of limit e s) \<noteq> []"
proof (cases s)
  case (Pair chunks size)
  assume "fst s \<noteq> []"
  then have "concat (butlast chunks) @ last chunks = concat chunks"
    using Pair by (metis append_butlast_last_id append_self_conv concat.simps(1,2) concat_append fst_conv)
  then show ?thesis using Pair by (auto simp: chunk_step_def)
qed

lemma snapshot_chunks_concat:
  "concat (snapshot_chunks size_of limit es) = es \<and> snapshot_chunks size_of limit es \<noteq> []"
proof -
  have "fst s \<noteq> [] \<Longrightarrow> concat (fst (fold (chunk_step size_of limit) es s)) = concat (fst s) @ es \<and>
      fst (fold (chunk_step size_of limit) es s) \<noteq> []" for s
  proof (induction es arbitrary: s)
    case (Cons e es)
    then show ?case using chunk_step_concat [OF Cons.prems, of size_of limit e] by simp
  qed simp
  from this [of "([[]], 0)"] show ?thesis by (simp add: snapshot_chunks_def)
qed

lemma list_table_append: "list_table (xs @ ys) t = list_table ys (list_table xs t)"
  by (simp add: list_table_def)

lemma list_table_other: "b \<notin> me_bridge ` set xs \<Longrightarrow> list_table xs t b = t b"
  by (induction xs arbitrary: t) (auto simp: list_table_def)

definition taken :: "bool \<Rightarrow> Entry list \<Rightarrow> (nat \<rightharpoonup> string \<times> string list) \<Rightarrow> nat \<rightharpoonup> string \<times> string list"
  where "taken leaving xs t = (if leaving then t else list_table xs t)"

lemma listing_taken:
  assumes "distinct (map me_bridge xs)" "\<forall>e \<in> set xs. v_table v (me_bridge e) = None"
  shows "listing xs more_follow v = Some (v\<lparr>v_open := more_follow, v_table := taken (v_leaving v) xs (v_table v)\<rparr>)"
  using assms by (simp add: listing_def taken_def)

lemma replay_parts:
  assumes "distinct (map me_bridge (concat chunks))"
    and "\<forall>e \<in> set (concat chunks). v_table v (me_bridge e) = None" "v_open v = (chunks \<noteq> [])"
  shows "replay_all epoch (snapshot_parts chunks) v =
    Some (v\<lparr>v_open := False, v_table := taken (v_leaving v) (concat chunks) (v_table v)\<rparr>)"
  using assms
proof (induction chunks arbitrary: v)
  case Nil
  then have "v = v\<lparr>v_open := False\<rparr>" by simp
  then show ?case by (auto simp: taken_def list_table_def)
next
  case (Cons xs rest)
  let ?v = "v\<lparr>v_open := rest \<noteq> [], v_table := taken (v_leaving v) xs (v_table v)\<rparr>"
  have now: "listing xs (rest \<noteq> []) v = Some ?v" using Cons.prems by (intro listing_taken) auto
  have "me_bridge e \<notin> me_bridge ` set xs" if "e \<in> set (concat rest)" for e
    using Cons.prems(1) that by (auto simp: image_iff)
  then have "\<forall>e \<in> set (concat rest). v_table ?v (me_bridge e) = None"
    using Cons.prems(2) list_table_other [of _ xs "v_table v"] by (simp add: taken_def del: set_concat)
  then have "replay_all epoch (snapshot_parts rest) ?v =
      Some (?v\<lparr>v_open := False, v_table := taken (v_leaving v) (concat rest) (v_table ?v)\<rparr>)"
    using Cons.prems(1) Cons.IH [of ?v] by simp
  then show ?case
    using now Cons.prems(3) by (simp add: taken_def list_table_append)
qed

lemma replay_snapshot:
  assumes "distinct (map me_bridge (concat chunks))" "chunks \<noteq> []"
  shows "replay_all epoch (snapshot_frames epoch seq now chunks) v =
    Some (v\<lparr>v_seq := seq, v_open := False, v_table := taken (v_leaving v) (concat chunks) Map.empty\<rparr>)"
proof (cases chunks)
  case (Cons xs rest)
  let ?v = "v\<lparr>v_seq := seq, v_open := rest \<noteq> [], v_table := taken (v_leaving v) xs Map.empty\<rparr>"
  have now: "listing xs (rest \<noteq> []) (v\<lparr>v_seq := seq, v_table := Map.empty\<rparr>) = Some ?v"
    using assms(1) listing_taken [of xs "v\<lparr>v_seq := seq, v_table := Map.empty\<rparr>"] by (simp add: Cons)
  have "me_bridge e \<notin> me_bridge ` set xs" if "e \<in> set (concat rest)" for e
    using assms(1) that by (auto simp: Cons image_iff)
  then have "\<forall>e \<in> set (concat rest). v_table ?v (me_bridge e) = None"
    using list_table_other [of _ xs "Map.empty"] by (simp add: taken_def del: set_concat)
  then have "replay_all epoch (snapshot_parts rest) ?v =
      Some (?v\<lparr>v_open := False, v_table := taken (v_leaving v) (concat rest) (v_table ?v)\<rparr>)"
    using assms(1) replay_parts [of rest ?v epoch] by (simp add: Cons)
  then show ?thesis using now by (simp add: Cons taken_def list_table_append)
qed (use assms in simp)

lemma list_table_entries:
  assumes "entries_ok es"
  shows "list_table (map snd es) Map.empty = claims_of es"
proof -
  have "list_table (map snd es) t = t ++ claims_of es" for t
    using assms
  proof (induction es arbitrary: t)
    case (Cons x es)
    obtain b e where x: "x = (b, e)" by fastforce
    have "me_bridge e = b" "entries_ok es" "b \<notin> fst ` set es"
      using Cons.prems by (auto simp: x entries_ok_def)
    moreover have "list_table (map snd (x # es)) t = list_table (map snd es) (t(me_bridge e \<mapsto> claim e))"
      by (simp add: list_table_def x)
    moreover have "claims_of es b = None" using \<open>b \<notin> fst ` set es\<close> by (simp add: claims_of_None map_of_eq_None_iff)
    ultimately show ?case
      using Cons.IH by (auto simp: x claims_of_def map_add_def fun_eq_iff split: option.splits)
  qed (simp add: list_table_def)
  then show ?thesis by simp
qed

lemma subscribe_replays:
  assumes "subscribe size_of now m = (link, m')" "local_ok m"
    and "length (snapshot_chunks size_of (snapshot_chunk (m_config m)) (map snd (l_entries (m_local m)))) \<le> LINK_QUEUE"
  shows "\<exists>q. queue_of link m' = Some q \<and> link < m_next_link m' \<and> local_ok m' \<and> m_id m' = m_id m \<and>
    m_epoch m' = m_epoch m \<and>
    (\<forall>gone t. (m_draining m' \<longrightarrow> gone) \<longrightarrow>
      replay_all (m_epoch m') q \<lparr>v_seq = 0, v_open = False, v_leaving = gone, v_table = t\<rparr> = Some (sent_view gone m'))"
proof -
  let ?es = "map snd (l_entries (m_local m))"
  let ?chunks = "snapshot_chunks size_of (snapshot_chunk (m_config m)) ?es"
  have len: "length (snapshot_parts cs) = length cs" for cs by (induction cs) auto
  have "length (snapshot_frames e sq n cs) = length cs" for e sq n cs by (cases cs) (simp_all add: len)
  then have all: "take LINK_QUEUE (snapshot_frames (m_epoch m) (l_seq (m_local m)) now ?chunks) =
      snapshot_frames (m_epoch m) (l_seq (m_local m)) now ?chunks"
    using assms(3) by simp
  have ok: "entries_ok (l_entries (m_local m))" using assms(2) by (simp add: local_ok_def)
  then have "map me_bridge ?es = map fst (l_entries (m_local m))" by (auto simp: entries_ok_def)
  then have distinct: "distinct (map me_bridge (concat ?chunks))"
    using ok snapshot_chunks_concat [of size_of "snapshot_chunk (m_config m)" ?es]
    by (simp add: entries_ok_def del: map_map)
  have m': "m' = snd (subscribe size_of now m)" "link = m_next_link m"
    using assms(1) by (auto simp: subscribe_def Let_def)
  have "local_ok m'" unfolding m' by (rule local_ok_subscribe [OF assms(2)])
  moreover have "queue_of link m' = Some (snapshot_frames (m_epoch m) (l_seq (m_local m)) now ?chunks)"
    unfolding m' by (simp add: subscribe_def Let_def queue_of_def update_conv' all)
  moreover have "sent_view gone m' = sent_view gone m" "m_epoch m' = m_epoch m" "m_draining m' = m_draining m"
      "link < m_next_link m'" "m_id m' = m_id m" for gone
    unfolding m' by (simp_all add: subscribe_def Let_def sent_view_def)
  moreover have "replay_all (m_epoch m) (snapshot_frames (m_epoch m) (l_seq (m_local m)) now ?chunks)
      \<lparr>v_seq = 0, v_open = False, v_leaving = gone, v_table = t\<rparr> = Some (sent_view gone m)"
    if "m_draining m \<longrightarrow> gone" for gone t
    using that replay_snapshot [OF distinct, of "m_epoch m" "l_seq (m_local m)" now
        "\<lparr>v_seq = 0, v_open = False, v_leaving = gone, v_table = t\<rparr>"]
      snapshot_chunks_concat [of size_of "snapshot_chunk (m_config m)" ?es]
    by (auto simp: taken_def list_table_entries [OF ok] sent_view_def)
  ultimately show ?thesis by auto
qed

section \<open>Two linked machines\<close>

text \<open>The sender's link, what it has written that the receiver has not read, and the receiver's link once it
  accepted the hello.\<close>

record Linked =
  lk_sender :: Mesh
  lk_link :: nat
  lk_wire :: "Frame list"
  lk_receiver :: Mesh
  lk_peer :: "nat option"

definition peer_record :: "Linked \<Rightarrow> Peer option"
  where "peer_record s = map_of (r_peers (m_remote (lk_receiver s))) (m_id (lk_sender s))"

text \<open>The steps of a link: both machines go on with everything else they do, the sender as long as it keeps
  the link, the receiver as long as the link is not replaced. The hello is taken when it is read; what happens at
  the sender in between does not change what it said.\<close>

inductive linked_step :: "Linked \<Rightarrow> Linked \<Rightarrow> bool" where
  sender: "mesh_act (lk_sender s) a \<Longrightarrow> queue_of (lk_link s) a \<noteq> None \<Longrightarrow> linked_step s (s\<lparr>lk_sender := a\<rparr>)"
| writes: "write_next (lk_link s) (lk_sender s) = (Some f, a) \<Longrightarrow>
    linked_step s (s\<lparr>lk_sender := a, lk_wire := lk_wire s @ [f]\<rparr>)"
| greets: "lk_peer s = None \<Longrightarrow>
    link_hello lookup_host now dialed proven k (F_hello (mesh_hello (lk_sender s))) (lk_receiver s) = (Ok True, b) \<Longrightarrow>
    linked_step s (s\<lparr>lk_receiver := b, lk_peer := Some k\<rparr>)"
| reads: "lk_peer s = Some k \<Longrightarrow> lk_wire s = f # fs \<Longrightarrow>
    link_frame now (m_id (lk_sender s)) k f (lk_receiver s) = (r, b) \<Longrightarrow>
    linked_step s (s\<lparr>lk_receiver := b, lk_wire := fs\<rparr>)"
| receiver: "mesh_step (lk_receiver s) b \<Longrightarrow>
    map_of (r_peers (m_remote b)) (m_id (lk_sender s)) = peer_record s \<Longrightarrow>
    linked_step s (s\<lparr>lk_receiver := b\<rparr>)"

inductive linked_reach :: "Linked \<Rightarrow> bool" where
  opened: "mesh_reach a \<Longrightarrow> mesh_reach b \<Longrightarrow> subscribe size_of now a = (link, a') \<Longrightarrow>
    length (snapshot_chunks size_of (snapshot_chunk (m_config a)) (map snd (l_entries (m_local a)))) \<le> LINK_QUEUE \<Longrightarrow>
    linked_reach \<lparr>lk_sender = a', lk_link = link, lk_wire = [], lk_receiver = b, lk_peer = None\<rparr>"
| step: "linked_reach s \<Longrightarrow> linked_step s s' \<Longrightarrow> linked_reach s'"

definition pending :: "Linked \<Rightarrow> Frame list"
  where "pending s = lk_wire s @ (case queue_of (lk_link s) (lk_sender s) of None \<Rightarrow> [] | Some q \<Rightarrow> q)"

definition linked_inv :: "Linked \<Rightarrow> bool"
  where "linked_inv s \<longleftrightarrow>
    local_ok (lk_sender s) \<and> lk_link s < m_next_link (lk_sender s) \<and>
    queue_of (lk_link s) (lk_sender s) \<noteq> None \<and> mesh_reach (lk_receiver s) \<and>
    (case lk_peer s of
       None \<Rightarrow> (\<exists>left. (left \<longrightarrow> m_draining (lk_sender s)) \<and>
         (\<forall>gone t. (left \<longrightarrow> gone) \<longrightarrow> replay_all (m_epoch (lk_sender s)) (pending s)
           \<lparr>v_seq = 0, v_open = False, v_leaving = gone, v_table = t\<rparr> = Some (sent_view gone (lk_sender s))))
     | Some k \<Rightarrow> (\<exists>p gone. peer_record s = Some p \<and> p_link p = k \<and> h_epoch (p_hello p) = m_epoch (lk_sender s) \<and>
         (gone \<longrightarrow> m_draining (lk_sender s)) \<and>
         replay_all (m_epoch (lk_sender s)) (pending s) (view_of p) = Some (sent_view gone (lk_sender s))))"

lemma register_True:
  assumes "register now h link dialer m = (True, m')"
  shows "\<exists>es. map_of (r_peers (m_remote m')) (h_machine h) = Some (new_peer now h link dialer es)"
  using assms
  by (auto simp: register_def insert_peer_def update_conv' Let_def split: if_splits option.splits)

lemma link_hello_True:
  assumes "link_hello lookup_host now dialed proven link (F_hello h) m = (Ok True, m')"
  shows "\<exists>es dialer. map_of (r_peers (m_remote m')) (h_machine h) = Some (new_peer now h link dialer es)"
proof -
  obtain won n where r: "register now h link (if dialed then mesh_address m else h_address h) m = (won, n)"
    by fastforce
  then have "won \<and> m_remote m' = m_remote n"
    using assms by (auto simp: link_hello_def split: if_splits sum.splits bool.splits)
  with r register_True show ?thesis by metis
qed

lemma link_frame_refines:
  assumes "map_of (r_peers (m_remote m)) machine = Some p"
    and "replay (h_epoch (p_hello p)) f (view_of p) = Some v"
  shows "fst (link_frame now machine (p_link p) f m) = Ok () \<and>
    (\<exists>q. map_of (r_peers (m_remote (snd (link_frame now machine (p_link p) f m)))) machine = Some q \<and>
      p_link q = p_link p \<and> h_epoch (p_hello q) = h_epoch (p_hello p) \<and> view_of q = v) \<and>
    frame_fits f (p_entries p)"
  using apply_refines_replay [OF assms, of now]
  by (auto simp: applies_to_def link_frame_def split: prod.split sum.split)

lemma mesh_reach_act: "mesh_reach m \<Longrightarrow> mesh_act m m' \<Longrightarrow> mesh_reach m'"
  by (blast intro: mesh_reach.step mesh_step.acted)

lemma linked_inv_sender:
  assumes inv: "linked_inv s" and act: "mesh_act (lk_sender s) a" and kept: "queue_of (lk_link s) a \<noteq> None"
  shows "linked_inv (s\<lparr>lk_sender := a\<rparr>)"
proof -
  let ?m = "lk_sender s"
  have up: "keeps_up (lk_link s) ?m a" and ok: "local_ok a"
    using act_keeps_up [OF act] inv by (auto simp: linked_inv_def)
  obtain q q' where q: "queue_of (lk_link s) ?m = Some q" and q': "queue_of (lk_link s) a = Some q'"
    using inv kept by (auto simp: linked_inv_def)
  obtain fs where fs: "q' = q @ fs" and run: "replay_all (m_epoch ?m) fs (sent_view gone ?m) = Some (sent_view gone a)" for gone
    using up q q' unfolding keeps_up_def by blast
  have same: "m_id a = m_id ?m" "m_epoch a = m_epoch ?m" "m_next_link ?m \<le> m_next_link a" "m_draining ?m \<Longrightarrow> m_draining a"
    using up by (auto simp: keeps_up_def)
  have "pending (s\<lparr>lk_sender := a\<rparr>) = pending s @ fs" by (simp add: pending_def q q' fs)
  then have more: "replay_all (m_epoch ?m) (pending s) v = Some (sent_view gone ?m) \<Longrightarrow>
      replay_all (m_epoch a) (pending (s\<lparr>lk_sender := a\<rparr>)) v = Some (sent_view gone a)" for v gone
    by (simp add: replay_all_append same run)
  have peer: "peer_record (s\<lparr>lk_sender := a\<rparr>) = peer_record s" by (simp add: peer_record_def same)
  show ?thesis
  proof (cases "lk_peer s")
    case None
    then obtain left where left: "left \<longrightarrow> m_draining ?m" "\<And>gone t. left \<longrightarrow> gone \<Longrightarrow> replay_all (m_epoch ?m) (pending s)
        \<lparr>v_seq = 0, v_open = False, v_leaving = gone, v_table = t\<rparr> = Some (sent_view gone ?m)"
      using inv by (auto simp: linked_inv_def)
    have "left \<longrightarrow> m_draining a" "\<forall>gone t. (left \<longrightarrow> gone) \<longrightarrow> replay_all (m_epoch a) (pending (s\<lparr>lk_sender := a\<rparr>))
        \<lparr>v_seq = 0, v_open = False, v_leaving = gone, v_table = t\<rparr> = Some (sent_view gone a)"
      using left same(4) more by blast+
    with None show ?thesis using inv ok same(3) kept by (auto simp: linked_inv_def)
  next
    case (Some k)
    then obtain p gone where p: "peer_record s = Some p" "p_link p = k" "h_epoch (p_hello p) = m_epoch ?m"
        "gone \<longrightarrow> m_draining ?m" "replay_all (m_epoch ?m) (pending s) (view_of p) = Some (sent_view gone ?m)"
      using inv by (auto simp: linked_inv_def)
    show ?thesis
      unfolding linked_inv_def using inv ok same kept Some p more [OF p(5)]
      by (auto simp: linked_inv_def peer)
  qed
qed

lemma linked_inv_writes:
  assumes inv: "linked_inv s" and w: "write_next (lk_link s) (lk_sender s) = (Some f, a)"
  shows "linked_inv (s\<lparr>lk_sender := a, lk_wire := lk_wire s @ [f]\<rparr>)"
proof -
  have view: "sent_view gone a = sent_view gone (lk_sender s)" for gone using write_next_queue [OF w] by auto
  obtain q where q: "queue_of (lk_link s) (lk_sender s) = Some (f # q)" "queue_of (lk_link s) a = Some q"
      "m_id a = m_id (lk_sender s)" "m_epoch a = m_epoch (lk_sender s)" "m_next_link a = m_next_link (lk_sender s)"
    using write_next_queue [OF w] by auto
  have "m_draining a = m_draining (lk_sender s)" using w by (auto simp: write_next_def split: option.splits list.splits)
  moreover have "local_ok a" using local_ok_write_next [of "lk_sender s" "lk_link s"] w inv by (simp add: linked_inv_def)
  moreover have "pending (s\<lparr>lk_sender := a, lk_wire := lk_wire s @ [f]\<rparr>) = pending s" by (simp add: pending_def q)
  moreover have "peer_record (s\<lparr>lk_sender := a, lk_wire := lk_wire s @ [f]\<rparr>) = peer_record s"
    by (simp add: peer_record_def q)
  ultimately show ?thesis
    using inv by (cases "lk_peer s") (simp_all add: linked_inv_def q view)
qed

lemma linked_inv_greets:
  assumes inv: "linked_inv s" and none: "lk_peer s = None"
    and h: "link_hello lookup_host now dialed proven k (F_hello (mesh_hello (lk_sender s))) (lk_receiver s) = (Ok True, b)"
  shows "linked_inv (s\<lparr>lk_receiver := b, lk_peer := Some k\<rparr>)"
proof -
  let ?m = "lk_sender s"
  obtain es dialer where p: "map_of (r_peers (m_remote b)) (m_id ?m) = Some (new_peer now (mesh_hello ?m) k dialer es)"
    using link_hello_True [OF h] by (auto simp: mesh_hello_def)
  let ?p = "new_peer now (mesh_hello ?m) k dialer es"
  obtain left where "left \<longrightarrow> m_draining ?m" and run: "\<And>gone t. left \<longrightarrow> gone \<Longrightarrow> replay_all (m_epoch ?m) (pending s)
      \<lparr>v_seq = 0, v_open = False, v_leaving = gone, v_table = t\<rparr> = Some (sent_view gone ?m)"
    using inv none by (auto simp: linked_inv_def)
  then have "replay_all (m_epoch ?m) (pending s) (view_of ?p) = Some (sent_view (m_draining ?m) ?m)"
    by (simp add: view_of_def mesh_hello_def)
  moreover have "mesh_reach b"
    using inv h mesh_reach_act [OF _ mesh_act.greeted] unfolding linked_inv_def by (metis snd_conv)
  moreover have "pending (s\<lparr>lk_receiver := b, lk_peer := Some k\<rparr>) = pending s" by (simp add: pending_def)
  ultimately show ?thesis
    using inv p by (auto simp: linked_inv_def peer_record_def mesh_hello_def)
qed

lemma linked_inv_reads:
  assumes inv: "linked_inv s" and peer: "lk_peer s = Some k" and wire: "lk_wire s = f # fs"
  shows "fst (link_frame now (m_id (lk_sender s)) k f (lk_receiver s)) = Ok ()"
    and "linked_inv (s\<lparr>lk_receiver := snd (link_frame now (m_id (lk_sender s)) k f (lk_receiver s)), lk_wire := fs\<rparr>)"
proof -
  let ?m = "lk_sender s" and ?b = "lk_receiver s"
  let ?b' = "snd (link_frame now (m_id ?m) k f ?b)"
  obtain p gone where p: "map_of (r_peers (m_remote ?b)) (m_id ?m) = Some p" "p_link p = k"
      "h_epoch (p_hello p) = m_epoch ?m" "gone \<longrightarrow> m_draining ?m"
    and run: "replay_all (m_epoch ?m) (pending s) (view_of p) = Some (sent_view gone ?m)"
    using inv peer by (auto simp: linked_inv_def peer_record_def)
  let ?s = "s\<lparr>lk_receiver := ?b', lk_wire := fs\<rparr>"
  have "pending s = f # pending ?s" by (simp add: pending_def wire)
  then obtain v where v: "replay (h_epoch (p_hello p)) f (view_of p) = Some v"
      "replay_all (m_epoch ?m) (pending ?s) v = Some (sent_view gone ?m)"
    using run p(3) by (auto simp: bind_eq_Some_conv)
  note frame = link_frame_refines [OF p(1) v(1), of now, unfolded p(2)]
  then show "fst (link_frame now (m_id ?m) k f ?b) = Ok ()" by blast
  obtain q where q: "map_of (r_peers (m_remote ?b')) (m_id ?m) = Some q" "p_link q = k"
      "h_epoch (p_hello q) = m_epoch ?m" "view_of q = v"
    using frame p(3) by auto
  have "mesh_act ?b ?b'" using frame p(1) by (intro mesh_act.carried) simp
  then have "mesh_reach ?b'" using inv mesh_reach_act by (auto simp: linked_inv_def)
  then show "linked_inv ?s" using inv peer q v(2) p(4) by (auto simp: linked_inv_def peer_record_def)
qed

lemma linked_inv_step: "linked_step s s' \<Longrightarrow> linked_inv s \<Longrightarrow> linked_inv s'"
proof (induction rule: linked_step.induct)
  case (reads s k f fs now r b)
  then show ?case using linked_inv_reads(2) [of s k f fs now] by simp
next
  case (receiver s b)
  have "pending (s\<lparr>lk_receiver := b\<rparr>) = pending s" by (simp add: pending_def)
  moreover have "mesh_reach b" using receiver mesh_reach.step by (auto simp: linked_inv_def)
  moreover have "peer_record (s\<lparr>lk_receiver := b\<rparr>) = peer_record s" using receiver(2) by (simp add: peer_record_def)
  ultimately show ?case
    using receiver.prems by (cases "lk_peer s") (simp_all add: linked_inv_def)
qed (auto intro: linked_inv_sender linked_inv_writes linked_inv_greets)

lemma linked_reach_inv: "linked_reach s \<Longrightarrow> linked_inv s"
proof (induction rule: linked_reach.induct)
  case (opened a b size_of now link a')
  obtain q where q: "queue_of link a' = Some q" "link < m_next_link a'" "local_ok a'"
    "\<And>gone t. m_draining a' \<longrightarrow> gone \<Longrightarrow>
      replay_all (m_epoch a') q \<lparr>v_seq = 0, v_open = False, v_leaving = gone, v_table = t\<rparr> = Some (sent_view gone a')"
    using subscribe_replays [OF opened(3) mesh_reach_local [OF opened(1)] opened(4)] by auto
  then show ?case using opened(2) by (auto simp: linked_inv_def pending_def)
qed (rule linked_inv_step)

end
