(* ===== verification/Mesh_Properties.thy ===== *)
theory Mesh_Properties
  imports Mesh_Links
begin

text \<open>
  What the links between machines promise: the table of a linked machine is the machine's own, lookups find
  who claims a route, and when two links to a machine come up both sides keep the same one. The witnesses run
  two small machines.
\<close>

section \<open>Delivery\<close>

text \<open>The steps that only move what is already queued.\<close>

inductive link_delivers :: "Linked \<Rightarrow> Linked \<Rightarrow> bool" where
  writes: "write_next (lk_link s) (lk_sender s) = (Some f, a) \<Longrightarrow>
    link_delivers s (s\<lparr>lk_sender := a, lk_wire := lk_wire s @ [f]\<rparr>)"
| reads: "lk_peer s = Some k \<Longrightarrow> lk_wire s = f # fs \<Longrightarrow>
    link_frame now (m_id (lk_sender s)) k f (lk_receiver s) = (Ok (), b) \<Longrightarrow>
    link_delivers s (s\<lparr>lk_receiver := b, lk_wire := fs\<rparr>)"

text \<open>The receiver's table for the sender is the sender's, or empty once the sender is leaving.\<close>

definition tables_agree :: "Linked \<Rightarrow> bool"
  where "tables_agree s \<longleftrightarrow>
    (\<exists>p. peer_record s = Some p \<and> p_seq p = l_seq (m_local (lk_sender s)) \<and>
      h_draining (p_hello p) = m_draining (lk_sender s) \<and>
      claims_of (p_entries p) =
        (if m_draining (lk_sender s) then Map.empty else claims_of (l_entries (m_local (lk_sender s)))))"

lemma delivered_agree:
  assumes "linked_inv s" "lk_peer s = Some k" "pending s = []"
  shows "tables_agree s"
proof -
  obtain p gone where "peer_record s = Some p" "gone \<longrightarrow> m_draining (lk_sender s)"
      "view_of p = sent_view gone (lk_sender s)"
    using assms by (auto simp: linked_inv_def)
  then show ?thesis by (auto simp: tables_agree_def view_of_def sent_view_def)
qed

lemma delivers_writes:
  assumes "linked_inv s" "queue_of (lk_link s) (lk_sender s) = Some (f # q)"
  shows "\<exists>s'. link_delivers s s' \<and> linked_inv s' \<and> lk_peer s' = lk_peer s \<and>
    queue_of (lk_link s') (lk_sender s') = Some q \<and> sent_view False (lk_sender s') = sent_view False (lk_sender s)"
proof -
  obtain a where w: "write_next (lk_link s) (lk_sender s) = (Some f, a)"
    using assms(2) by (simp add: write_next_def queue_of_def)
  let ?s = "s\<lparr>lk_sender := a, lk_wire := lk_wire s @ [f]\<rparr>"
  have "linked_inv ?s" by (rule linked_inv_writes [OF assms(1) w])
  moreover have "queue_of (lk_link s) a = Some q" "sent_view False a = sent_view False (lk_sender s)"
    using write_next_queue [OF w, of False] assms(2) by auto
  ultimately show ?thesis using link_delivers.writes [OF w] by (intro exI [of _ ?s]) simp
qed

lemma delivers_queue:
  assumes "linked_inv s" "queue_of (lk_link s) (lk_sender s) = Some q"
  shows "\<exists>s'. link_delivers\<^sup>*\<^sup>* s s' \<and> linked_inv s' \<and> lk_peer s' = lk_peer s \<and>
    queue_of (lk_link s') (lk_sender s') = Some [] \<and> sent_view False (lk_sender s') = sent_view False (lk_sender s)"
  using assms
proof (induction q arbitrary: s)
  case Nil
  then show ?case by auto
next
  case (Cons f q)
  obtain s1 where s1: "link_delivers s s1" "linked_inv s1" "lk_peer s1 = lk_peer s"
      "queue_of (lk_link s1) (lk_sender s1) = Some q" "sent_view False (lk_sender s1) = sent_view False (lk_sender s)"
    using delivers_writes [OF Cons.prems] by blast
  from Cons.IH [OF s1(2,4)] s1(1,3,5) show ?case by (metis converse_rtranclp_into_rtranclp)
qed

lemma delivers_wire:
  assumes "linked_inv s" "lk_peer s = Some k" "lk_wire s = fs" "queue_of (lk_link s) (lk_sender s) = Some []"
  shows "\<exists>s'. link_delivers\<^sup>*\<^sup>* s s' \<and> linked_inv s' \<and> lk_peer s' = Some k \<and> pending s' = [] \<and>
    lk_sender s' = lk_sender s"
  using assms
proof (induction fs arbitrary: s)
  case Nil
  then show ?case by (auto simp: pending_def)
next
  case (Cons f fs)
  let ?b = "snd (link_frame 0 (m_id (lk_sender s)) k f (lk_receiver s))"
  let ?s = "s\<lparr>lk_receiver := ?b, lk_wire := fs\<rparr>"
  note read = linked_inv_reads [OF Cons.prems(1-3), of 0]
  have "link_delivers s ?s"
    using read(1) by (intro link_delivers.reads [OF Cons.prems(2,3)]) (simp add: prod_eq_iff)
  moreover have "\<exists>s'. link_delivers\<^sup>*\<^sup>* ?s s' \<and> linked_inv s' \<and> lk_peer s' = Some k \<and> pending s' = [] \<and>
      lk_sender s' = lk_sender ?s"
    using read(2) Cons.prems(2,4) by (intro Cons.IH) simp_all
  ultimately show ?case by (metis (no_types, lifting) Linked.simps(1) Linked.surjective Linked.update_convs(3,4) converse_rtranclp_into_rtranclp)
qed

section \<open>Links to one machine\<close>

definition register_all :: "Hello \<Rightarrow> (nat \<times> nat \<times> string) list \<Rightarrow> Mesh \<Rightarrow> Mesh"
  where "register_all h ls m = fold (\<lambda>(now, link, dialer) m. snd (register now h link dialer m)) ls m"

lemma register_step:
  assumes "h_machine h \<notin> set (m_partitioned m)" "map_of (r_peers (m_remote m)) (h_machine h) = Some p" "p_hello p = h"
  shows "\<exists>q. map_of (r_peers (m_remote (snd (register now h link dialer m)))) (h_machine h) = Some q \<and>
    p_hello q = h \<and> m_partitioned (snd (register now h link dialer m)) = m_partitioned m \<and>
    (p_dialer q, p_link q) = (if dialer \<le> p_dialer p then (dialer, link) else (p_dialer p, p_link p))"
  using assms
  by (auto simp: register_def link_wins_def same_life_def insert_peer_def cancel_link_def update_conv' Let_def)

lemma register_all_dialer:
  assumes "h_machine h \<notin> set (m_partitioned m)" "map_of (r_peers (m_remote m)) (h_machine h) = Some p" "p_hello p = h"
  shows "\<exists>q. map_of (r_peers (m_remote (register_all h ls m))) (h_machine h) = Some q \<and> p_hello q = h \<and>
    p_dialer q = Min (insert (p_dialer p) ((\<lambda>(_, _, d). d) ` set ls)) \<and>
    ((p_dialer q, p_link q) = (p_dialer p, p_link p) \<or> (\<exists>now. (now, p_link q, p_dialer q) \<in> set ls))"
  using assms
proof (induction ls arbitrary: m p)
  case Nil
  then show ?case by (auto simp: register_all_def)
next
  case (Cons x ls)
  obtain now link dialer where x: "x = (now, link, dialer)" by (cases x) auto
  let ?m = "snd (register now h link dialer m)"
  obtain q where q: "map_of (r_peers (m_remote ?m)) (h_machine h) = Some q" "p_hello q = h"
      "m_partitioned ?m = m_partitioned m"
      "(p_dialer q, p_link q) = (if dialer \<le> p_dialer p then (dialer, link) else (p_dialer p, p_link p))"
    using register_step [OF Cons.prems] by blast
  have dialer: "p_dialer q = min dialer (p_dialer p)" using q(4) by (auto simp: min_def split: if_splits)
  obtain r where r: "map_of (r_peers (m_remote (register_all h ls ?m))) (h_machine h) = Some r" "p_hello r = h"
      "p_dialer r = Min (insert (p_dialer q) ((\<lambda>(_, _, d). d) ` set ls))"
      "(p_dialer r, p_link r) = (p_dialer q, p_link q) \<or> (\<exists>now. (now, p_link r, p_dialer r) \<in> set ls)"
    using Cons.IH [OF _ q(1,2)] Cons.prems(1) unfolding q(3) by blast
  have "Min (insert (p_dialer q) ((\<lambda>(_, _, d). d) ` set ls)) =
      Min (insert (p_dialer p) ((\<lambda>(_, _, d). d) ` set (x # ls)))"
    by (cases "ls = []") (auto simp: dialer x min.assoc min.commute min.left_commute)
  moreover have "(p_dialer r, p_link r) = (p_dialer p, p_link p) \<or> (\<exists>now. (now, p_link r, p_dialer r) \<in> set (x # ls))"
    using r(4) q(4) x by (auto split: if_splits)
  moreover have "register_all h (x # ls) m = register_all h ls ?m" by (simp add: register_all_def x)
  ultimately show ?case using r by metis
qed

lemma register_all_new:
  assumes "h_machine h \<notin> set (m_partitioned m)" "map_of (r_peers (m_remote m)) (h_machine h) = None" "ls \<noteq> []"
  shows "\<exists>q. map_of (r_peers (m_remote (register_all h ls m))) (h_machine h) = Some q \<and>
    p_dialer q = Min ((\<lambda>(_, _, d). d) ` set ls) \<and> (\<exists>now. (now, p_link q, p_dialer q) \<in> set ls)"
proof -
  obtain now link dialer rest where ls: "ls = (now, link, dialer) # rest" using assms(3) by (cases ls) auto
  let ?p = "new_peer now h link dialer []" and ?m = "snd (register now h link dialer m)"
  have m: "?m = insert_peer ?p m" using assms(1,2) by (simp add: register_def)
  have "map_of (r_peers (m_remote ?m)) (h_machine h) = Some ?p" "h_machine h \<notin> set (m_partitioned ?m)"
    unfolding m using assms(1) by (simp_all add: insert_peer_def update_conv')
  from register_all_dialer [OF this(2,1) new_peer_simps(1), of rest, unfolded new_peer_simps]
  obtain q where "map_of (r_peers (m_remote (register_all h rest ?m))) (h_machine h) = Some q"
      "p_dialer q = Min (insert dialer ((\<lambda>(_, _, d). d) ` set rest))"
      "(p_dialer q, p_link q) = (dialer, link) \<or> (\<exists>now. (now, p_link q, p_dialer q) \<in> set rest)" by blast
  moreover have "register_all h ls m = register_all h rest ?m" by (simp add: register_all_def ls)
  ultimately show ?thesis unfolding ls by auto
qed

section \<open>Two small machines\<close>

definition example_config :: MeshConfig
  where "example_config = MeshConfig_default\<lparr>verify_address := False\<rparr>"

definition example_address :: string
  where "example_address = show_socket_addr \<lparr>sock_ip = IpV4 0x01010101, sock_port = 1\<rparr>"

definition example_a :: Mesh
  where "example_a = mesh_announce 7 (Mesh_attached ''t'' 3 [''@''] 7)
    (set_address example_address (Mesh_new ''a'' ''r'' 11 5 example_config))"

definition example_b :: Mesh
  where "example_b = Mesh_new ''b'' ''r'' 12 6 example_config"

definition example_linked :: Linked
  where "example_linked = \<lparr>lk_sender = snd (subscribe (\<lambda>_. 10) 8 example_a), lk_link = 1, lk_wire = [],
    lk_receiver = example_b, lk_peer = None\<rparr>"

definition example_greeting :: "(mesh_error + bool) \<times> Mesh"
  where "example_greeting = link_hello (\<lambda>_ _. None) 9 False (''a'', IpV4 0) 1
    (F_hello (mesh_hello (lk_sender example_linked))) example_b"

definition example_joined :: Linked
  where "example_joined = example_linked\<lparr>lk_receiver := snd example_greeting, lk_peer := Some 1\<rparr>"

definition example_frame :: Frame
  where "example_frame = F_snapshot 11 1 8
    [\<lparr>me_tunnel = ''t'', me_bridge = 3, me_routes = [''@''], me_attached_at = 7\<rparr>] False"

definition example_sent :: Linked
  where "example_sent = example_joined\<lparr>lk_sender := snd (write_next 1 (lk_sender example_joined)), lk_wire := [example_frame]\<rparr>"

definition example_read :: Linked
  where "example_read = example_sent\<lparr>
    lk_receiver := snd (link_frame 10 ''a'' 1 example_frame (lk_receiver example_sent)), lk_wire := []\<rparr>"

lemmas example_mesh_defs = example_config_def example_a_def example_b_def example_linked_def example_greeting_def
  example_joined_def example_frame_def example_sent_def example_read_def

lemma example_a_reach: "mesh_reach example_a"
proof -
  have "mesh_reach (set_address example_address (Mesh_new ''a'' ''r'' 11 5 example_config))"
    by (rule mesh_reach_act [OF mesh_reach.start mesh_act.addressed [OF address_step.named]])
  then show ?thesis unfolding example_a_def by (rule mesh_reach_act [OF _ mesh_act.announced]) simp
qed

lemma example_b_reach: "mesh_reach example_b"
  unfolding example_b_def by (rule mesh_reach.start)

lemma example_a_value: "example_a = (Mesh_new ''a'' ''r'' 11 5 example_config)\<lparr>m_address := Some example_address,
    m_local := \<lparr>l_seq = 1, l_entries = [(3, \<lparr>me_tunnel = ''t'', me_bridge = 3, me_routes = [''@''],
      me_attached_at = 7\<rparr>)], l_links = []\<rparr>\<rparr>"
  by (simp add: example_a_def set_address_def mesh_attached_def Mesh_new_def broadcast_def)

lemma example_chunks:
  "snapshot_chunks (\<lambda>_. 10) (snapshot_chunk (m_config example_a)) (map snd (l_entries (m_local example_a))) =
     [map snd (l_entries (m_local example_a))]"
  by (simp add: example_a_value Mesh_new_def example_config_def MeshConfig_default_def SNAPSHOT_CHUNK_def
      snapshot_chunks_def chunk_step_def)

lemma example_subscribed: "subscribe (\<lambda>_. 10) 8 example_a =
    (1, example_a\<lparr>m_next_link := 2, m_local := (m_local example_a)\<lparr>l_links := [(1, [example_frame])]\<rparr>\<rparr>)"
  unfolding subscribe_def Let_def example_chunks
  by (simp add: example_a_value Mesh_new_def example_frame_def LINK_QUEUE_def)

lemma example_linked_reach: "linked_reach example_linked"
  unfolding example_linked_def
proof (rule linked_reach.opened [OF example_a_reach example_b_reach])
  show "subscribe (\<lambda>_. 10) 8 example_a = (1, snd (subscribe (\<lambda>_. 10) 8 example_a))"
    by (simp add: example_subscribed)
  show "length (snapshot_chunks (\<lambda>_. 10) (snapshot_chunk (m_config example_a)) (map snd (l_entries (m_local example_a))))
      \<le> LINK_QUEUE"
    unfolding example_chunks by (simp add: LINK_QUEUE_def)
qed

lemma example_sender: "lk_sender example_linked =
    example_a\<lparr>m_next_link := 2, m_local := (m_local example_a)\<lparr>l_links := [(1, [example_frame])]\<rparr>\<rparr>"
  by (simp add: example_linked_def example_subscribed)

lemma example_hello: "mesh_hello (lk_sender example_linked) = \<lparr>h_version = 1, h_machine = ''a'', h_region = ''r'',
    h_address = example_address, h_epoch = 11, h_started_at = 5, h_draining = False\<rparr>"
  by (simp add: mesh_hello_def example_sender example_a_value Mesh_new_def MESH_VERSION_def mesh_address_def)

lemma example_parsed: "parse_socket_addr example_address = Some \<lparr>sock_ip = IpV4 0x01010101, sock_port = 1\<rparr>"
  unfolding example_address_def by (rule parse_socket_addr_show)

lemma example_greeted: "example_greeting = (Ok True, (insert_peer (new_peer 9 (mesh_hello (lk_sender example_linked)) 1
    example_address []) example_b)\<lparr>m_notices := [N_link_up]\<rparr>)"
  unfolding example_greeting_def example_hello
  by (simp add: link_hello_def example_b_def Mesh_new_def check_address_def example_parsed example_config_def
      MeshConfig_default_def register_def insert_peer_def)

lemma example_joined_reach: "linked_reach example_joined"
proof -
  have "link_hello (\<lambda>_ _. None) 9 False (''a'', IpV4 0) 1 (F_hello (mesh_hello (lk_sender example_linked)))
      (lk_receiver example_linked) = (Ok True, snd example_greeting)"
    using example_greeted by (simp add: example_greeting_def example_linked_def)
  then have "linked_step example_linked example_joined"
    unfolding example_joined_def by (intro linked_step.greets) (simp_all add: example_linked_def)
  then show ?thesis by (rule linked_reach.step [OF example_linked_reach])
qed

lemma example_sent_reach: "linked_reach example_sent"
proof -
  have "write_next (lk_link example_joined) (lk_sender example_joined) =
      (Some example_frame, snd (write_next 1 (lk_sender example_joined)))"
    by (simp add: example_joined_def example_sender write_next_def) (simp add: example_linked_def)
  from linked_step.writes [OF this] have "linked_step example_joined example_sent"
    by (simp add: example_sent_def) (simp add: example_joined_def example_linked_def)
  then show ?thesis by (rule linked_reach.step [OF example_joined_reach])
qed

lemma example_sender_id: "m_id (lk_sender example_sent) = ''a''"
  by (simp add: example_sent_def example_joined_def example_sender write_next_def example_a_value Mesh_new_def)

lemma example_read_reach: "linked_reach example_read"
proof -
  have "lk_peer example_sent = Some 1" "lk_wire example_sent = [example_frame]"
    by (simp_all add: example_sent_def example_joined_def)
  from linked_step.reads [OF this prod.collapse [symmetric], of 10] have "linked_step example_sent example_read"
    by (simp add: example_read_def example_sender_id)
  then show ?thesis by (rule linked_reach.step [OF example_sent_reach])
qed

lemma example_read_parts: "lk_peer example_read = Some 1" "pending example_read = []"
  by (simp_all add: example_read_def example_sent_def example_joined_def example_linked_def pending_def
      example_subscribed write_next_def queue_of_def)

definition example_receiver :: Mesh
  where "example_receiver = lk_receiver example_read"

lemma example_receiver_reach: "mesh_reach example_receiver"
  using linked_reach_inv [OF example_read_reach] by (simp add: linked_inv_def example_receiver_def)

lemma example_receiver_remote:
  "r_peers (m_remote example_receiver) = [(''a'', (new_peer 9 (mesh_hello (lk_sender example_linked)) 1 example_address [])
     \<lparr>p_seq := 1, p_entries := [(3, \<lparr>me_tunnel = ''t'', me_bridge = 3, me_routes = [''@''], me_attached_at = 7\<rparr>)]\<rparr>)]"
  "r_index (m_remote example_receiver) = [''t'' \<mapsto> [(''a'', 3)]]"
  by (simp_all add: example_receiver_def example_read_def example_sent_def example_joined_def example_greeted
      link_frame_def apply_frame_def insert_peer_def example_hello example_b_def Mesh_new_def example_frame_def
      take_entries_def add_entry_def Let_def set_peer_def index_remove_all_def index_add_def sane_time_def
      MAX_CLOCK_AHEAD_MS_def new_peer_def)

lemma example_located: "locate ''t'' ''@'' None example_receiver =
    Some \<lparr>loc_machine = ''a'', loc_region = ''r'', loc_address = example_address\<rparr>"
  by (simp add: locate_def holders_of_def example_receiver_remote newest_def map_filter_def claimed_at_def
      held_entry_def location_of_def example_hello)

lemma example_held: "holders ''t'' [''@'', ''www''] example_receiver =
    [\<lparr>loc_machine = ''a'', loc_region = ''r'', loc_address = example_address\<rparr>]"
  by (simp add: holders_def holders_of_def example_receiver_remote holders_step_def held_entry_def
      location_of_def example_hello claims_any_def)

section \<open>Properties\<close>

text \<open>C27. Replication: whatever two linked machines do in the meantime, no frame the sender queued for the link
  is refused by the receiver, and once everything it queued has been read, the receiver's table for the sender is
  the sender's own (the same bridges with the same tunnels and routes, at the same sequence number), or empty when
  the sender is shutting down.\<close>

theorem mesh_table_replicated:
  assumes "linked_reach s" "lk_peer s = Some k"
  shows "(lk_wire s = f # fs \<longrightarrow> fst (link_frame now (m_id (lk_sender s)) k f (lk_receiver s)) = Ok ()) \<and>
    (pending s = [] \<longrightarrow> tables_agree s)"
  using linked_inv_reads(1) [OF linked_reach_inv [OF assms(1)] assms(2)]
    delivered_agree [OF linked_reach_inv [OF assms(1)] assms(2)] by blast

theorem mesh_table_replicated_witness: "tables_agree example_read"
  using mesh_table_replicated [OF example_read_reach example_read_parts(1)] example_read_parts(2) by blast

text \<open>C28. Delivery: from every state two linked machines reach, writing and reading what is queued ends with
  the tables in agreement, without a change of the sender's table.\<close>

theorem mesh_link_delivers:
  assumes "linked_reach s" "lk_peer s = Some k"
  shows "\<exists>s'. link_delivers\<^sup>*\<^sup>* s s' \<and> pending s' = [] \<and> tables_agree s' \<and>
    sent_view False (lk_sender s') = sent_view False (lk_sender s)"
proof -
  have inv: "linked_inv s" by (rule linked_reach_inv [OF assms(1)])
  then obtain q where q: "queue_of (lk_link s) (lk_sender s) = Some q" by (auto simp: linked_inv_def)
  obtain s1 where s1: "link_delivers\<^sup>*\<^sup>* s s1" "linked_inv s1" "lk_peer s1 = lk_peer s"
      "queue_of (lk_link s1) (lk_sender s1) = Some []" "sent_view False (lk_sender s1) = sent_view False (lk_sender s)"
    using delivers_queue [OF inv q] by blast
  obtain s2 where s2: "link_delivers\<^sup>*\<^sup>* s1 s2" "linked_inv s2" "lk_peer s2 = Some k" "pending s2 = []"
      "lk_sender s2 = lk_sender s1"
    using delivers_wire [OF s1(2) _ refl s1(4)] s1(3) assms(2) by fastforce
  have "tables_agree s2" by (rule delivered_agree [OF s2(2,3,4)])
  with s1 s2 show ?thesis by (metis rtranclp_trans)
qed

theorem mesh_link_delivers_witness: "\<exists>s. link_delivers\<^sup>*\<^sup>* example_joined s \<and> tables_agree s"
proof -
  have "lk_peer example_joined = Some 1" by (simp add: example_joined_def)
  from mesh_link_delivers [OF example_joined_reach this] show ?thesis by blast
qed

text \<open>Lookups: in every state of the mesh, looking up a route of a tunnel finds a linked machine exactly
  when one that is not leaving (and is not the excepted one) holds a bridge of the tunnel that claims the route, and then one
  whose claim is the newest.\<close>

theorem mesh_locate_newest:
  assumes "mesh_reach m"
  shows "(locate tid route skip m = None \<longleftrightarrow>
      (\<forall>machine at. skip \<noteq> Some machine \<longrightarrow> \<not> offers m tid route machine at)) \<and>
    (locate tid route skip m = Some l \<longrightarrow>
      (\<exists>at. skip \<noteq> Some (loc_machine l) \<and> offers m tid route (loc_machine l) at \<and>
        peer_address (loc_machine l) m = Some (loc_address l) \<and>
        (\<forall>other at'. skip \<noteq> Some other \<longrightarrow> offers m tid route other at' \<longrightarrow> at' \<le> at)))"
  using located [OF mesh_reach_ok [OF assms]]
  by (fastforce simp: peer_address_def location_of_def)

theorem mesh_locate_newest_witness:
  "\<exists>at. offers example_receiver ''t'' ''@'' ''a'' at \<and> peer_address ''a'' example_receiver = Some example_address"
  using mesh_locate_newest [OF example_receiver_reach, of "''t''" "''@''" None] example_located by fastforce

text \<open>Conflicts: the machines asked about routes before an attach are each named once, and are exactly the
  linked machines that are not leaving and hold a bridge of the tunnel claiming one of the routes.\<close>

theorem mesh_holders_exact:
  assumes "mesh_reach m"
  shows "distinct (map loc_machine (holders tid rs m)) \<and>
    (machine \<in> set (map loc_machine (holders tid rs m)) \<longleftrightarrow> held_by m tid rs machine)"
  using holders_spec [OF mesh_reach_ok [OF assms]] by blast

theorem mesh_holders_exact_witness: "held_by example_receiver ''t'' [''@'', ''www''] ''a''"
  using mesh_holders_exact [OF example_receiver_reach, of "''t''" "[''@'', ''www'']" "''a''"] by (simp add: example_held)

text \<open>C23. Duplicate links: when machines \<open>a\<close> and \<open>b\<close> have dialed each other, in whatever order either side
  registers the links, both keep a link that was dialed by the same side, the one with the lower address.\<close>

theorem mesh_links_agree:
  assumes "map_of (r_peers (m_remote a)) (h_machine hb) = None" "h_machine hb \<notin> set (m_partitioned a)"
    and "map_of (r_peers (m_remote b)) (h_machine ha) = None" "h_machine ha \<notin> set (m_partitioned b)"
    and "(\<lambda>(_, _, d). d) ` set lsa = {h_address ha, h_address hb}" "(\<lambda>(_, _, d). d) ` set lsb = {h_address ha, h_address hb}"
  shows "\<exists>pa pb. map_of (r_peers (m_remote (register_all hb lsa a))) (h_machine hb) = Some pa \<and>
    map_of (r_peers (m_remote (register_all ha lsb b))) (h_machine ha) = Some pb \<and>
    p_dialer pa = min (h_address ha) (h_address hb) \<and> p_dialer pb = p_dialer pa \<and>
    (\<exists>now. (now, p_link pa, p_dialer pa) \<in> set lsa) \<and> (\<exists>now. (now, p_link pb, p_dialer pb) \<in> set lsb)"
proof -
  have ls: "lsa \<noteq> []" "lsb \<noteq> []" using assms(5,6) by auto
  obtain pa where pa: "map_of (r_peers (m_remote (register_all hb lsa a))) (h_machine hb) = Some pa"
      "p_dialer pa = Min ((\<lambda>(_, _, d). d) ` set lsa)" "\<exists>now. (now, p_link pa, p_dialer pa) \<in> set lsa"
    using register_all_new [OF assms(2,1) ls(1)] by blast
  obtain pb where pb: "map_of (r_peers (m_remote (register_all ha lsb b))) (h_machine ha) = Some pb"
      "p_dialer pb = Min ((\<lambda>(_, _, d). d) ` set lsb)" "\<exists>now. (now, p_link pb, p_dialer pb) \<in> set lsb"
    using register_all_new [OF assms(4,3) ls(2)] by blast
  have "p_dialer pa = min (h_address ha) (h_address hb)" "p_dialer pb = p_dialer pa"
    using pa(2) pb(2) unfolding assms(5,6) by simp_all
  with pa pb show ?thesis by blast
qed

theorem mesh_links_agree_witness:
  "\<exists>pa pb. map_of (r_peers (m_remote (register_all (mesh_hello example_b\<lparr>h_address := ''y''\<rparr>)
      [(1, 1, ''x''), (2, 2, ''y'')] example_a))) ''b'' = Some pa \<and>
    map_of (r_peers (m_remote (register_all (mesh_hello example_a\<lparr>h_address := ''x''\<rparr>)
      [(1, 1, ''y''), (2, 2, ''x'')] example_b))) ''a'' = Some pb \<and> p_dialer pa = p_dialer pb"
proof -
  let ?a = "mesh_hello example_a\<lparr>h_address := ''x''\<rparr>" and ?b = "mesh_hello example_b\<lparr>h_address := ''y''\<rparr>"
  have "h_machine ?a = ''a''" "h_machine ?b = ''b''" "r_peers (m_remote example_a) = []" "r_peers (m_remote example_b) = []"
    "m_partitioned example_a = []" "m_partitioned example_b = []"
    by (simp_all add: mesh_hello_def example_a_value example_b_def Mesh_new_def)
  then show ?thesis
    using mesh_links_agree [of example_a ?b example_b ?a "[(1, 1, ''x''), (2, 2, ''y'')]" "[(1, 1, ''y''), (2, 2, ''x'')]"]
    by (simp add: insert_commute) metis
qed

end
