(* ===== verification/Relay_Properties.thy ===== *)
theory Relay_Properties
  imports Relay
begin

text \<open>
  Accepting a public connection: however its bytes are cut into reads, a connection that starts with a PROXY
  header (where one is expected) and a ClientHello is accepted with the header's source, the hello's server
  name and protocol, and nothing of what the visitor sent lost.
\<close>

section \<open>The ClientHello\<close>

text \<open>Bytes the parser takes as a whole ClientHello.\<close>

definition is_hello :: "(string \<Rightarrow> string) \<Rightarrow> bytes \<Rightarrow> string \<Rightarrow> string \<Rightarrow> bool"
  where "is_hello to_lower hello server_name alpn \<longleftrightarrow>
    (\<exists>p. HelloParser_parse to_lower HelloParser_default hello = Some (p, HelloComplete server_name alpn))"

lemma is_hello_extend:
  assumes "is_hello to_lower hello server_name alpn"
  shows "\<exists>p. HelloParser_parse to_lower HelloParser_default (hello @ more_bytes) = Some (p, HelloComplete server_name alpn)"
proof -
  obtain p where "HelloParser_parse to_lower HelloParser_default hello = Some (p, HelloComplete server_name alpn)"
    using assms by (auto simp: is_hello_def)
  from HelloParser_parse_extend [OF this, of more_bytes] show ?thesis by simp
qed

text \<open>A parser that has seen a prefix of the connection and answers as one that starts over.\<close>

definition caught_up :: "(string \<Rightarrow> string) \<Rightarrow> HelloParser \<Rightarrow> bytes \<Rightarrow> bool"
  where "caught_up to_lower p d \<longleftrightarrow>
    (\<forall>e. HelloParser_parse to_lower p (d @ e) = HelloParser_parse to_lower HelloParser_default (d @ e))"

lemma caught_up_step:
  assumes "caught_up to_lower p d" "HelloParser_parse to_lower p d = Some (p', HelloIncomplete)"
  shows "caught_up to_lower p' (d @ c)"
  using assms HelloParser_parse_extend [OF assms(2)] by (simp add: caught_up_def)

lemma caught_up_short:
  assumes "caught_up to_lower p d" "is_hello to_lower hello server_name alpn" "d @ e = hello @ after"
    and "HelloParser_parse to_lower p d = Some (p', HelloIncomplete)"
  shows "length d < length hello"
proof (rule ccontr)
  assume "\<not> length d < length hello"
  then obtain x where "d = hello @ x" using assms(3) by (metis append_eq_append_conv_if append_take_drop_id linorder_not_less)
  then have "\<exists>q. HelloParser_parse to_lower p d = Some (q, HelloComplete server_name alpn)"
    using assms(1) is_hello_extend [OF assms(2), of x] by (metis append_Nil2 caught_up_def)
  with assms(4) show False by auto
qed

lemma caught_up_answer:
  assumes "caught_up to_lower p d" "is_hello to_lower hello server_name alpn" "d @ e = hello @ after"
    and "HelloParser_parse to_lower p d = Some (p', r)" "r \<noteq> HelloIncomplete"
  shows "r = HelloComplete server_name alpn"
proof -
  have "HelloParser_parse to_lower p (d @ e) = Some (p', r)"
    using HelloParser_parse_extend [OF assms(4), of e] assms(5) by simp
  moreover obtain q where "HelloParser_parse to_lower p (d @ e) = Some (q, HelloComplete server_name alpn)"
    using assms(1,3) is_hello_extend [OF assms(2), of after] by (metis caught_up_def)
  ultimately show ?thesis by simp
qed

lemma hello_loop_accepts:
  assumes "caught_up to_lower p (drop start buf)" "start \<le> length buf"
    and "is_hello to_lower hello server_name alpn" "length hello \<le> CLIENT_HELLO_LIMIT"
    and "drop start buf @ concat cs = hello @ after" "[] \<notin> set cs"
  shows "\<exists>acc later. hello_loop to_lower p start peer buf (map Read_bytes cs @ more_reads) =
      Some (Ok (acc, map Read_bytes later @ more_reads)) \<and>
    acc_peer acc = peer \<and> acc_sni acc = server_name \<and> acc_alpn acc = alpn \<and>
    initial acc @ concat later = hello @ after"
  using assms
proof (induction cs arbitrary: p buf)
  case Nil
  let ?d = "drop start buf"
  have here: "?d @ [] = hello @ after" using Nil.prems(5) by simp
  obtain p' r where run: "HelloParser_parse to_lower p ?d = Some (p', r)"
    using HelloParser_parse_no_panic [of to_lower p ?d] by auto
  have "r \<noteq> HelloIncomplete"
    using caught_up_short [OF Nil.prems(1,3) here] run arg_cong [OF here, of length] by auto
  then have "r = HelloComplete server_name alpn" by (rule caught_up_answer [OF Nil.prems(1,3) here run])
  then have "hello_loop to_lower p start peer buf (map Read_bytes [] @ more_reads) =
      Some (Ok (\<lparr>acc_peer = peer, initial = ?d, acc_sni = server_name, acc_alpn = alpn\<rparr>, map Read_bytes [] @ more_reads))"
    using run Nil.prems(2) by (simp add: hello_loop.simps [of _ _ _ _ buf] slice_def)
  then show ?case using here by (intro exI conjI) auto
next
  case (Cons c cs)
  let ?d = "drop start buf"
  have here: "?d @ (c @ concat cs) = hello @ after" using Cons.prems(5) by simp
  obtain p' r where run: "HelloParser_parse to_lower p ?d = Some (p', r)"
    using HelloParser_parse_no_panic [of to_lower p ?d] by auto
  show ?case
  proof (cases "r = HelloIncomplete")
    case True
    have "c \<noteq> []" using Cons.prems(6) by auto
    have grown: "drop start (buf @ c) = ?d @ c" using Cons.prems(2) by simp
    have "length ?d < length hello" using caught_up_short [OF Cons.prems(1,3) here] run True by simp
    then have "hello_loop to_lower p start peer buf (map Read_bytes (c # cs) @ more_reads) =
        hello_loop to_lower p' start peer (buf @ c) (map Read_bytes cs @ more_reads)"
      using run True Cons.prems(2,4) \<open>c \<noteq> []\<close> by (simp add: hello_loop.simps [of _ p _ _ buf] slice_def)
    moreover have "caught_up to_lower p' (drop start (buf @ c))"
      unfolding grown using caught_up_step [OF Cons.prems(1)] run True by simp
    then have "\<exists>acc later. hello_loop to_lower p' start peer (buf @ c) (map Read_bytes cs @ more_reads) =
        Some (Ok (acc, map Read_bytes later @ more_reads)) \<and> acc_peer acc = peer \<and> acc_sni acc = server_name \<and>
        acc_alpn acc = alpn \<and> initial acc @ concat later = hello @ after"
      using Cons.prems here grown by (intro Cons.IH) auto
    ultimately show ?thesis by simp
  next
    case False
    then have "r = HelloComplete server_name alpn" by (rule caught_up_answer [OF Cons.prems(1,3) here run])
    then have "hello_loop to_lower p start peer buf (map Read_bytes (c # cs) @ more_reads) =
        Some (Ok (\<lparr>acc_peer = peer, initial = ?d, acc_sni = server_name, acc_alpn = alpn\<rparr>,
          map Read_bytes (c # cs) @ more_reads))"
      using run Cons.prems(2) by (simp add: hello_loop.simps [of _ _ _ _ buf] slice_def)
    moreover have "?d @ concat (c # cs) = hello @ after" using here by simp
    ultimately show ?thesis by (metis Accepted.select_convs)
  qed
qed

section \<open>The PROXY header\<close>

lemma find_crlf_take:
  "find_crlf ds = Some n \<Longrightarrow> find_crlf (take k ds) = (if n + 2 \<le> k then Some n else None)"
proof (induction ds arbitrary: n k rule: find_crlf.induct)
  case (1 a b rest)
  show ?case
  proof (cases "a = 0x0d \<and> b = 0x0a")
    case True
    with 1(2) show ?thesis by (cases k; cases "k - 1") (auto simp: take_Cons split: nat.splits)
  next
    case False
    then obtain n' where n: "find_crlf (b # rest) = Some n'" "n = Suc n'" using 1(2) by auto
    show ?thesis
    proof (cases k)
      case (Suc k')
      have "find_crlf (a # take k' (b # rest)) = map_option Suc (find_crlf (take k' (b # rest)))"
        using False by (cases k') auto
      with 1(1) [OF False n(1), of k'] n(2) Suc show ?thesis by auto
    qed (use n in simp)
  qed
qed auto

lemma index_at_take: "i < k \<Longrightarrow> index_at (take k ds) i = index_at ds i"
  by (auto simp: index_at_def)

lemma signature_take:
  assumes "take (min (length ds) n) ds = take (min (length ds) n) sig"
  shows "take (min (length (take k ds)) n) (take k ds) = take (min (length (take k ds)) n) sig"
proof -
  have "take (min k n) (take (min (length ds) n) ds) = take (min k n) (take (min (length ds) n) sig)"
    using assms by simp
  then show ?thesis by (simp add: min.commute min.left_commute)
qed

lemma parse_v2_total:
  assumes "parse_v2 ds = Some (HeaderComplete n source)"
  shows "take (min (length ds) 12) ds = take (min (length ds) 12) V2_SIGNATURE \<and> 16 \<le> n \<and> n \<le> length ds \<and>
    drop_bit 4 (ds ! 12) = 2 \<and> n = 16 + be_nat [ds ! 14, ds ! 15]"
  using assms by (auto simp: parse_v2_def Let_def index_at_def bind_eq_Some_conv split: if_splits)

lemma parse_v2_take:
  assumes whole: "parse_v2 ds = Some (HeaderComplete n source)"
  shows "parse_v2 (take k ds) = Some (if n \<le> k then HeaderComplete n source else HeaderIncomplete)"
proof -
  note total = parse_v2_total [OF whole]
  have sig: "take (min (length (take k ds)) 12) (take k ds) = take (min (length (take k ds)) 12) V2_SIGNATURE"
    by (intro signature_take conjunct1 [OF total])
  show ?thesis
  proof (cases "n \<le> k")
    case True
    let ?total = "16 + be_nat [ds ! 14, ds ! 15]"
    have body: "slice (take k ds) 16 ?total = slice ds 16 ?total"
      using True total by (simp add: slice_def drop_take min_def)
    have long: "\<not> length (take k ds) < ?total" "\<not> length ds < ?total" "\<not> length (take k ds) < 16" "\<not> length ds < 16"
      using True total by auto
    have sig': "take (min (length ds) 12) ds = take (min (length ds) 12) V2_SIGNATURE" by (rule conjunct1 [OF total])
    have at: "index_at (take k ds) i = Some (ds ! i)" "index_at ds i = Some (ds ! i)" if "i < 16" for i
      using that True total by (simp_all add: index_at_def)
    have "parse_v2 (take k ds) = parse_v2 ds"
      unfolding parse_v2_def Let_def using sig sig' by (simp add: at body long del: length_take)
    then show ?thesis using whole True by simp
  next
    case False
    show ?thesis
    proof (cases "k < 16")
      case True
      with False sig total show ?thesis by (simp add: parse_v2_def Let_def)
    next
      case long: False
      then have "index_at (take k ds) i = Some (ds ! i)" if "i < 16" for i
        using that total by (simp add: index_at_def)
      then show ?thesis
        using False long sig total by (simp add: parse_v2_def Let_def)
    qed
  qed
qed

lemma parse_v1_end:
  assumes "parse_v1 ds = Some (HeaderComplete n source)"
  shows "take (min (length ds) 6) ds = take (min (length ds) 6) (as_bytes ''PROXY '') \<and>
    (\<exists>e. find_crlf ds = Some e \<and> n = e + 2)"
proof (cases "find_crlf ds")
  case None
  then show ?thesis using assms by (auto simp: parse_v1_def Let_def split: if_splits)
next
  case (Some e)
  then show ?thesis
    using assms by (auto simp: parse_v1_def Let_def bind_eq_Some_conv split: if_splits option.splits)
qed

lemma parse_v1_take:
  assumes whole: "parse_v1 ds = Some (HeaderComplete n source)" and short: "n \<le> V1_MAX"
  shows "n \<le> length ds" and "parse_v1 (take k ds) = Some (if n \<le> k then HeaderComplete n source else HeaderIncomplete)"
proof -
  obtain e where e: "find_crlf ds = Some e" "n = e + 2"
    using parse_v1_end [OF whole] by blast
  then show n: "n \<le> length ds" using find_crlf_less [OF e(1)] by simp
  have head: "take (min (length ds) 6) ds = take (min (length ds) 6) (as_bytes ''PROXY '')"
    using parse_v1_end [OF whole] by blast
  have sig: "take (min (length (take k ds)) 6) (take k ds) = take (min (length (take k ds)) 6) (as_bytes ''PROXY '')"
    by (rule signature_take [OF head])
  show "parse_v1 (take k ds) = Some (if n \<le> k then HeaderComplete n source else HeaderIncomplete)"
  proof (cases "n \<le> k")
    case True
    have "slice (take k ds) 0 e = slice ds 0 e" using True n e(2) by (simp add: slice_def)
    then have "parse_v1 (take k ds) = parse_v1 ds"
      unfolding parse_v1_def Let_def find_crlf_take [OF e(1)] e(1) using sig head True e(2) by simp
    then show ?thesis using whole True by simp
  next
    case False
    then have "\<not> V1_MAX \<le> length (take k ds)" using short by simp
    with False show ?thesis
      unfolding parse_v1_def Let_def find_crlf_take [OF e(1)] using sig e(2) by simp
  qed
qed

text \<open>A header of a length the reader waits for, at the start of what arrives.\<close>

definition is_header :: "bytes \<Rightarrow> nat \<Rightarrow> SocketAddr option \<Rightarrow> bool"
  where "is_header ds n source \<longleftrightarrow> header_parse ds = Some (HeaderComplete n source) \<and>
    n \<le> (if hd ds = 0x50 then V1_MAX else PROXY_BUFFER_MAX + 1)"

lemma is_header_take:
  assumes "is_header ds n source"
  shows "n \<le> length ds" "header_parse (take k ds) = Some (if n \<le> k then HeaderComplete n source else HeaderIncomplete)"
proof -
  have ds: "ds \<noteq> []" using assms by (auto simp: is_header_def header_parse_def)
  have first: "index_at ds 0 = Some (hd ds)" using ds by (simp add: index_at_def hd_conv_nth)
  have head: "header_parse (take k ds) =
      (if k = 0 then Some HeaderIncomplete else if hd ds = 0x0d then parse_v2 (take k ds)
       else if hd ds = 0x50 then parse_v1 (take k ds) else Some HeaderInvalid)" for k
    using ds by (auto simp: header_parse_def index_at_def hd_conv_nth)
  have kinds: "hd ds = 0x0d \<and> parse_v2 ds = Some (HeaderComplete n source) \<or>
      hd ds = 0x50 \<and> parse_v1 ds = Some (HeaderComplete n source) \<and> n \<le> V1_MAX"
    using assms ds by (auto simp: is_header_def header_parse_def first split: if_splits)
  show "n \<le> length ds" using kinds parse_v2_total parse_v1_take(1) by blast
  have pos: "0 < n"
    using kinds parse_v2_total [of ds n source] parse_v1_end [of ds n source] by auto
  show "header_parse (take k ds) = Some (if n \<le> k then HeaderComplete n source else HeaderIncomplete)"
    unfolding head using kinds pos parse_v2_take [of ds n source k] parse_v1_take(2) [of ds n source k] by auto
qed

lemma proxy_loop_accepts:
  assumes "is_header ds n source" "buf @ concat cs = ds" "[] \<notin> set cs"
  shows "\<exists>buf' later. proxy_loop buf (map Read_bytes cs @ more_reads) =
      Some (Ok (n, source, buf', map Read_bytes later @ more_reads)) \<and>
    n \<le> length buf' \<and> buf' @ concat later = ds \<and> [] \<notin> set later"
  using assms
proof (induction cs arbitrary: buf)
  case Nil
  have "header_parse buf = Some (HeaderComplete n source)" "n \<le> length buf"
    using Nil.prems is_header_take(1) [OF Nil.prems(1)] by (auto simp: is_header_def)
  then have "proxy_loop buf (map Read_bytes [] @ more_reads) = Some (Ok (n, source, buf, map Read_bytes [] @ more_reads))"
    by (simp add: proxy_loop.simps [of buf])
  then show ?case using Nil.prems \<open>n \<le> length buf\<close> by (intro exI conjI) auto
next
  case (Cons c cs)
  have buf: "buf = take (length buf) ds" using Cons.prems(2) by auto
  note parse = is_header_take(2) [OF Cons.prems(1), of "length buf", folded buf]
  show ?case
  proof (cases "n \<le> length buf")
    case True
    then have "proxy_loop buf (map Read_bytes (c # cs) @ more_reads) =
        Some (Ok (n, source, buf, map Read_bytes (c # cs) @ more_reads))"
      using parse by (simp add: proxy_loop.simps [of buf])
    then show ?thesis using Cons.prems(2,3) True by blast
  next
    case False
    have "n \<le> PROXY_BUFFER_MAX + 1"
      using Cons.prems(1) by (auto simp: is_header_def V1_MAX_def PROXY_BUFFER_MAX_def split: if_splits)
    then have "proxy_loop buf (map Read_bytes (c # cs) @ more_reads) =
        proxy_loop (buf @ c) (map Read_bytes cs @ more_reads)"
      using False parse Cons.prems(3) by (auto simp: proxy_loop.simps [of buf])
    moreover have "\<exists>buf' later. proxy_loop (buf @ c) (map Read_bytes cs @ more_reads) =
        Some (Ok (n, source, buf', map Read_bytes later @ more_reads)) \<and>
        n \<le> length buf' \<and> buf' @ concat later = ds \<and> [] \<notin> set later"
      using Cons.prems by (intro Cons.IH) auto
    ultimately show ?thesis by simp
  qed
qed

lemma caught_up_default: "caught_up to_lower HelloParser_default d"
  by (simp add: caught_up_def)

lemma accept_with_hello:
  assumes "is_hello to_lower hello server_name alpn" "length hello \<le> CLIENT_HELLO_LIMIT"
    and "buf @ concat cs = hello @ after" "[] \<notin> set cs"
  shows "\<exists>acc later. accept_with to_lower peer False buf (map Read_bytes cs @ more_reads) =
      Some (Ok (acc, map Read_bytes later @ more_reads)) \<and>
    acc_peer acc = peer \<and> acc_sni acc = server_name \<and> acc_alpn acc = alpn \<and>
    initial acc @ concat later = hello @ after"
  using hello_loop_accepts [OF caught_up_default, of 0 buf to_lower hello server_name alpn cs after peer more_reads] assms
  by (simp add: accept_with_def)

lemma is_hello_records:
  assumes "hello_wf h" "hello_meaning h = (server_name, alpn)" "server_name \<noteq> []"
    and "fragments_wf frags" "fragment_bytes frags = hello_message h"
  shows "is_hello to_lower (fragment_records frags) (to_lower server_name) alpn"
  unfolding is_hello_def using assms
  by (intro HelloParser_parse_records [where frags = frags and rest = "[]"]) (auto simp: HelloParser_default_def)

section \<open>Property\<close>

text \<open>C31. However the bytes of a public connection are cut into reads, a connection that starts with a PROXY header
  (of at most 107 bytes in version 1, of at most what the server buffers in version 2) and a well-formed ClientHello
  of at most the inspection limit, in any TLS records, is accepted: with the source of the header as the visitor's
  address (the socket's where it names none), the server name and the first protocol the hello carries, and every byte
  after the header either in \<open>initial\<close> or still to be read, in order.\<close>

theorem visitor_accepted:
  assumes "is_header (header @ fragment_records frags @ after) (length header) source"
    and "hello_wf h" "hello_meaning h = (server_name, alpn)" "server_name \<noteq> []"
    and "fragments_wf frags" "fragment_bytes frags = hello_message h"
    and "length (fragment_records frags) \<le> CLIENT_HELLO_LIMIT"
    and "concat cs = header @ fragment_records frags @ after" "[] \<notin> set cs"
  shows "\<exists>acc later. accept to_lower peer True (map Read_bytes cs @ more_reads) =
      Some (Ok (acc, map Read_bytes later @ more_reads)) \<and>
    acc_peer acc = (case source of Some p \<Rightarrow> p | None \<Rightarrow> peer) \<and>
    acc_sni acc = to_lower server_name \<and> acc_alpn acc = alpn \<and>
    initial acc @ concat later = fragment_records frags @ after"
proof -
  have hello: "is_hello to_lower (fragment_records frags) (to_lower server_name) alpn"
    by (rule is_hello_records [OF assms(2-6)])
  obtain buf later where run: "proxy_loop [] (map Read_bytes cs @ more_reads) =
      Some (Ok (length header, source, buf, map Read_bytes later @ more_reads))"
    and buf: "length header \<le> length buf" "buf @ concat later = header @ fragment_records frags @ after" "[] \<notin> set later"
    using proxy_loop_accepts [OF assms(1), of "[]" cs more_reads] assms(8,9) by auto
  have "drop (length header) buf @ concat later = fragment_records frags @ after"
    using buf(1) arg_cong [OF buf(2), of "drop (length header)"] by simp
  from hello_loop_accepts [OF caught_up_default buf(1) hello assms(7) this buf(3), of _ more_reads] run
  show ?thesis by (simp add: accept_def accept_with_def)
qed

definition example_header :: bytes
  where "example_header = V2_SIGNATURE @ [0x21, 0x11, 0, 12, 10, 0, 0, 7, 10, 0, 0, 1, 0, 80, 1, 187]"

definition example_source :: SocketAddr
  where "example_source = \<lparr>sock_ip = IpV4 0x0a000007, sock_port = 80\<rparr>"

lemma example_header_parsed: "is_header (example_header @ ds) (length example_header) (Some example_source)"
  by (simp add: is_header_def header_parse_def example_header_def V2_SIGNATURE_def index_at_def parse_v2_def
      be_nat_def slice_def PROXY_BUFFER_MAX_def example_source_def v4_of_octets_def)

lemma example_hello_records:
  "hello_wf example_hello" "hello_meaning example_hello = (''API.abc.example'', ''h2'')" "fragments_wf example_fragments"
  "fragment_bytes example_fragments = hello_message example_hello"
  "length (fragment_records example_fragments) \<le> CLIENT_HELLO_LIMIT"
proof -
  show "hello_wf example_hello" "hello_meaning example_hello = (''API.abc.example'', ''h2'')" "fragments_wf example_fragments"
    by (simp_all add: hello_wf_def hello_meaning_def example_hello_def extension_bytes_def
        from_utf8_lossy_ascii fragments_wf_def example_fragments_def
        hello_message_def hello_body_def del: as_bytes_simps(2))
  show "fragment_bytes example_fragments = hello_message example_hello"
    by (simp only: fragment_bytes_def example_fragments_def list.map prod.case concat.simps
        append_Nil append_Nil2 append_take_drop_id)
  show "length (fragment_records example_fragments) \<le> CLIENT_HELLO_LIMIT"
    by (simp add: fragment_records_def example_fragments_def tls_record_def CLIENT_HELLO_LIMIT_def
        hello_message_def hello_body_def example_hello_def extension_bytes_def)
qed

lemma example_lower: "to_ascii_lowercase ''API.abc.example'' = ''api.abc.example''"
  by code_simp

lemma example_is_hello: "is_hello to_ascii_lowercase (fragment_records example_fragments) ''api.abc.example'' ''h2''"
  using is_hello_records [OF example_hello_records(1,2) _ example_hello_records(3,4), of to_ascii_lowercase]
  unfolding example_lower by simp

theorem visitor_accepted_witness:
  "\<exists>acc later. accept to_ascii_lowercase example_source True
      [Read_bytes example_header, Read_bytes (fragment_records example_fragments @ [1])] = Some (Ok (acc, later)) \<and>
    acc_peer acc = example_source \<and> acc_sni acc = ''api.abc.example'' \<and> acc_alpn acc = ''h2''"
proof -
  let ?cs = "[example_header, fragment_records example_fragments @ [1]]"
  have cs: "concat ?cs = example_header @ fragment_records example_fragments @ [1]" "[] \<notin> set ?cs"
    by (simp_all add: example_header_def)
  have name: "''API.abc.example'' \<noteq> []" by simp
  from visitor_accepted [OF example_header_parsed example_hello_records(1,2) name example_hello_records(3,4,5) cs,
      where to_lower = to_ascii_lowercase and peer = example_source and more_reads = "[]"]
  show ?thesis unfolding example_lower option.case list.map append_Nil2 by blast
qed

end
