(* ===== verification/Forwarding.thy ===== *)
theory Forwarding
  imports Mesh Relay
begin

text \<open>
  Machines that work together (\<^verbatim>\<open>crates/opentunnel-server/src/cluster.rs\<close>): carrying a visitor to the
  machine that holds its route, asking other machines about routes before an attach, the connections
  the internal listener takes, and what is done about the notices of the mesh. The streams are lists
  of reads as in \<open>Relay\<close>; connecting, the answers of other machines and HMAC are parameters.
\<close>

section \<open>Constants and errors\<close>

definition FORWARD_MAGIC :: string where "FORWARD_MAGIC = ''OPENTUNNEL-FORWARD/2 ''"
definition FORWARD_LABEL :: string where "FORWARD_LABEL = ''opentunnel forward/2''"
definition CONTROL_LABEL :: string where "CONTROL_LABEL = ''opentunnel control/2''"
definition FORWARD_ACCEPTED :: u8 where "FORWARD_ACCEPTED = 0x31"
definition FORWARD_REFUSED :: u8 where "FORWARD_REFUSED = 0x30"
definition MAX_HEADER :: nat where "MAX_HEADER = 1024"

datatype cluster_error = Sender_not_linked | Sender_elsewhere | No_header | Header_not_text | Malformed_forward
| Not_authentic auth_error | Bad_visitor | Hello_refused string | Another_tunnel | Io_failed string

definition check_sender :: "string \<Rightarrow> SocketAddr \<Rightarrow> Mesh \<Rightarrow> cluster_error + unit"
  where "check_sender sender connection m =
    (case peer_address sender m of
       None \<Rightarrow> Err Sender_not_linked
     | Some address \<Rightarrow>
         (case parse_socket_addr address of
            None \<Rightarrow> Err Sender_elsewhere
          | Some a \<Rightarrow>
              if canonical (sock_ip a) = canonical (sock_ip connection) then Ok () else Err Sender_elsewhere))"

definition online_elsewhere :: "string \<Rightarrow> Mesh \<Rightarrow> bool"
  where "online_elsewhere tid m \<longleftrightarrow> holders tid [] m \<noteq> []"

section \<open>Forwarding a visitor\<close>

text \<open>What \<^verbatim>\<open>open\<close> sends; a signature without a space would panic.\<close>

definition forward_header :: "('k \<Rightarrow> bytes \<Rightarrow> bytes) \<Rightarrow> 'k \<Rightarrow> string \<Rightarrow> nat \<Rightarrow> string \<Rightarrow> Location \<Rightarrow> Accepted
    \<Rightarrow> string \<Rightarrow> string \<Rightarrow> bytes option"
  where "forward_header hmac key self now nonce l acc tid rname =
    (let visitor = show_socket_addr (acc_peer acc);
         signed = Cluster_sign hmac key self now nonce FORWARD_LABEL (loc_machine l) [tid, rname, visitor]
     in case rsplit_once CHR '' '' signed of
       None \<Rightarrow> None
     | Some (identity, proof_text) \<Rightarrow>
         Some (as_bytes (FORWARD_MAGIC @ identity @ '' '' @ tid @ '' '' @ rname @ '' '' @ visitor @ '' '' @
           proof_text @ [CHR 0x0A]) @ initial acc))"

text \<open>\<open>exchange\<close> connects, sends and reads the answer of at most one byte.\<close>

definition open_forward :: "('k \<Rightarrow> bytes \<Rightarrow> bytes) \<Rightarrow> 'k \<Rightarrow> string \<Rightarrow> nat \<Rightarrow> string
    \<Rightarrow> (Location \<Rightarrow> bytes \<Rightarrow> string + bytes) \<Rightarrow> Accepted \<Rightarrow> string \<Rightarrow> string \<Rightarrow> Location \<Rightarrow> (string + bool) option"
  where "open_forward hmac key self now nonce exchange acc tid rname l =
    (case forward_header hmac key self now nonce l acc tid rname of
       None \<Rightarrow> None
     | Some sent \<Rightarrow>
         (case exchange l sent of
            Inl e \<Rightarrow> Some (Err e)
          | Inr answer \<Rightarrow> Some (Ok (answer = [FORWARD_ACCEPTED]))))"

text \<open>The attempts, on the table as it is at each of them: the machine that took the visitor, or none.\<close>

fun forward_attempts :: "(Location \<Rightarrow> string + bool) \<Rightarrow> string \<Rightarrow> string \<Rightarrow> string option \<Rightarrow> Mesh list \<Rightarrow> Location option" where
  "forward_attempts open_to tid rname tried [] = None"
| "forward_attempts open_to tid rname tried (m # ms) =
     (case locate tid rname tried m of
        None \<Rightarrow> None
      | Some l \<Rightarrow>
          if open_to l = Ok True then Some l
          else forward_attempts open_to tid rname (Some (loc_machine l)) ms)"

definition forward :: "(Location \<Rightarrow> string + bool) \<Rightarrow> string \<Rightarrow> string \<Rightarrow> Mesh \<Rightarrow> Mesh \<Rightarrow> Location option"
  where "forward open_to tid rname m m' = forward_attempts open_to tid rname None [m, m']"

section \<open>Asking about routes\<close>

text \<open>\<open>ask\<close> is the answer of a machine to a signed request for the routes of the tunnel.\<close>

definition held_elsewhere :: "(Location \<Rightarrow> string list option) \<Rightarrow> string \<Rightarrow> string list \<Rightarrow> Mesh \<Rightarrow> bool"
  where "held_elsewhere ask tid rs m =
    list_ex (\<lambda>l. case ask l of Some held_there \<Rightarrow> list_ex (\<lambda>r. r \<in> set rs) held_there | None \<Rightarrow> False)
      (holders tid rs m)"

definition routes_path :: "string \<Rightarrow> string"
  where "routes_path tid = ''/internal/tunnel/'' @ tid @ ''/routes''"

definition control_auth :: "('k \<Rightarrow> bytes \<Rightarrow> bytes) \<Rightarrow> 'k \<Rightarrow> string \<Rightarrow> nat \<Rightarrow> string \<Rightarrow> string \<Rightarrow> Location \<Rightarrow> string"
  where "control_auth hmac key self now nonce tid l =
    Cluster_sign hmac key self now nonce CONTROL_LABEL (loc_machine l) [''GET'', routes_path tid]"

section \<open>The internal listener\<close>

fun header_loop :: "bytes \<Rightarrow> Read list \<Rightarrow> cluster_error + nat \<times> bytes \<times> Read list" where
  "header_loop buf reads =
     (if 10 \<in> set buf then Ok (length (takeWhile (\<lambda>b. b \<noteq> 10) buf), buf, reads)
      else if MAX_HEADER \<le> length buf then Err No_header
      else case reads of
        [] \<Rightarrow> Err No_header
      | Read_failed e # _ \<Rightarrow> Err (Io_failed e)
      | Read_bytes bs # reads \<Rightarrow> if bs = [] then Err No_header else header_loop (buf @ bs) reads)"

declare header_loop.simps [simp del]

datatype Internal =
  Mesh_link string bytes "Read list"
| Control_connection bytes "Read list"
| Forward_connection string bytes "Read list"

definition starts_with :: "bytes \<Rightarrow> string \<Rightarrow> bool"
  where "starts_with buf s \<longleftrightarrow> take (length s) buf = as_bytes s"

definition internal_connection :: "Read list \<Rightarrow> (cluster_error + Internal) option"
  where "internal_connection reads =
    (case header_loop [] reads of
       Inl e \<Rightarrow> Some (Err e)
     | Inr (line_end, buf, reads) \<Rightarrow>
         if starts_with buf MESH_MAGIC then
           (case slice buf (length MESH_MAGIC) line_end of
              None \<Rightarrow> None
            | Some line \<Rightarrow>
                (case from_utf8 line of
                   None \<Rightarrow> Some (Err Header_not_text)
                 | Some greeting \<Rightarrow> Some (Ok (Mesh_link greeting (drop (line_end + 1) buf) reads))))
         else if \<not> starts_with buf FORWARD_MAGIC then Some (Ok (Control_connection buf reads))
         else
           (case slice buf (length FORWARD_MAGIC) line_end of
              None \<Rightarrow> None
            | Some line \<Rightarrow>
                (case from_utf8 line of
                   None \<Rightarrow> Some (Err Header_not_text)
                 | Some line \<Rightarrow> Some (Ok (Forward_connection line (drop (line_end + 1) buf) reads)))))"

definition forward_in :: "('k \<Rightarrow> bytes \<Rightarrow> bytes) \<Rightarrow> 'k \<Rightarrow> (string \<Rightarrow> string) \<Rightarrow> nat \<Rightarrow> Mesh \<Rightarrow> string \<Rightarrow> SocketAddr
    \<Rightarrow> string \<Rightarrow> bytes \<Rightarrow> Read list \<Rightarrow> Cluster \<Rightarrow> (Cluster \<times> (cluster_error + Accepted \<times> Read list)) option"
  where "forward_in hmac key to_lower now m served connection line rest reads c =
    (case split_on CHR '' '' line of
       [sender, receiver, timestamp, nonce, tid, rname, visitor, proof_text] \<Rightarrow>
         (case Cluster_verify hmac key c now FORWARD_LABEL (sender, receiver, timestamp, nonce, proof_text)
             [tid, rname, visitor] of
            (c, Inl e) \<Rightarrow> Some (c, Err (Not_authentic e))
          | (c, Inr _) \<Rightarrow>
              (case check_sender sender connection m of
                 Inl e \<Rightarrow> Some (c, Err e)
               | Inr _ \<Rightarrow>
                   (case parse_socket_addr visitor of
                      None \<Rightarrow> Some (c, Err Bad_visitor)
                    | Some visitor \<Rightarrow>
                        (case accept_with to_lower visitor False rest reads of
                           None \<Rightarrow> None
                         | Some (Inl e) \<Rightarrow> Some (c, Err (Hello_refused e))
                         | Some (Inr (acc, reads)) \<Rightarrow>
                             if tunnel_id (acc_sni acc) served \<noteq> Some tid then Some (c, Err Another_tunnel)
                             else Some (c, Ok (acc, reads))))))
     | _ \<Rightarrow> Some (c, Err Malformed_forward))"

text \<open>The whole of a forwarded connection: the header, the ClientHello and the bridge.\<close>

definition forwarded :: "('k \<Rightarrow> bytes \<Rightarrow> bytes) \<Rightarrow> 'k \<Rightarrow> (string \<Rightarrow> string) \<Rightarrow> Env \<Rightarrow> nat \<Rightarrow> nat \<Rightarrow> bool \<Rightarrow> Mesh
    \<Rightarrow> SocketAddr \<Rightarrow> string \<Rightarrow> bytes \<Rightarrow> Read list \<Rightarrow> Cluster \<times> Service
    \<Rightarrow> ((Cluster \<times> Service) \<times> (cluster_error + Carry)) option"
  where "forwarded hmac key to_lower env now tick told m connection line rest reads = (\<lambda>(c, s).
    case forward_in hmac key to_lower now m (domain s) connection line rest reads c of
      None \<Rightarrow> None
    | Some (c, Inl e) \<Rightarrow> Some ((c, s), Err e)
    | Some (c, Inr (acc, _)) \<Rightarrow>
        (case route_tunnel env now tick told acc Forwarded s of
           None \<Rightarrow> None
         | Some (carry, s) \<Rightarrow> Some ((c, s), Ok carry)))"

datatype ControlResponse = Unauthorized | Not_found | Held_routes "string list"

text \<open>A control request: its method, path and the header that signs it.\<close>

definition control :: "('k \<Rightarrow> bytes \<Rightarrow> bytes) \<Rightarrow> 'k \<Rightarrow> nat \<Rightarrow> Mesh \<Rightarrow> SocketAddr \<Rightarrow> string \<Rightarrow> string \<Rightarrow> string option
    \<Rightarrow> Cluster \<times> Service \<Rightarrow> (Cluster \<times> Service) \<times> ControlResponse"
  where "control hmac key now m connection meth path auth = (\<lambda>(c, s).
    let (c, authorized) =
      (case auth of
         None \<Rightarrow> (c, False)
       | Some value \<Rightarrow>
           (case split_on CHR '' '' value of
              [sender, receiver, timestamp, nonce, proof_text] \<Rightarrow>
                (case Cluster_verify hmac key c now CONTROL_LABEL (sender, receiver, timestamp, nonce, proof_text)
                    [meth, path] of
                   (c, Inl _) \<Rightarrow> (c, False)
                 | (c, Inr _) \<Rightarrow> (c, check_sender sender connection m = Ok ()))
            | _ \<Rightarrow> (c, False)))
    in if \<not> authorized then ((c, s), Unauthorized)
       else case Option.bind (strip_prefix path ''/internal/tunnel/'') (split_once CHR ''/'') of
         None \<Rightarrow> ((c, s), Not_found)
       | Some (tid, action) \<Rightarrow>
           if meth = ''GET'' \<and> action = ''routes''
           then case held_routes now tid s of (rs, s) \<Rightarrow> ((c, s), Held_routes rs)
           else ((c, s), Not_found))"

section \<open>Notices\<close>

text \<open>The flag says that a check for deleted tunnels is queued; \<open>reconcile\<close> is that check. Work that the
  source starts in a task of its own is done in order here. Waking the job runner is left out.\<close>

definition close_announced :: "Env \<Rightarrow> string \<Rightarrow> Service \<Rightarrow> Service"
  where "close_announced env tid s =
    (case sv_store_io (deleted_tunnels (db_world env) [tid]) s of
       (Inl _, s) \<Rightarrow> s
     | (Inr gone, s) \<Rightarrow> if tid \<in> set gone then snd (close_deleted tid s) else s)"

fun run_notice :: "Env \<Rightarrow> Notice \<Rightarrow> bool \<times> Service \<Rightarrow> bool \<times> Service" where
  "run_notice env (N_event (TunnelCreated tid)) (queued, s) = (queued, expire tid s)"
| "run_notice env (N_event (CertificateChanged tid)) (queued, s) = (queued, expire tid s)"
| "run_notice env (N_event (TunnelDeleted tid)) (queued, s) = (queued, close_announced env tid s)"
| "run_notice env (N_event JobEnqueued) (queued, s) = (queued, s)"
| "run_notice env (N_event Leaving) (queued, s) = (queued, s)"
| "run_notice env (N_event UnknownEvent) (queued, s) = (queued, s)"
| "run_notice env N_link_up (queued, s) = (True, forget_cached_answers s)"

definition reconcile :: "Env \<Rightarrow> bool \<times> Service \<Rightarrow> bool \<times> Service"
  where "reconcile env = (\<lambda>(queued, s).
    if queued then (False, snd (close_deleted_tunnels env s)) else (queued, s))"

end
