(* ===== verification/Cluster_Properties.thy ===== *)
theory Cluster_Properties
  imports Forwarding Relay_Properties Mesh_Properties Machine_Example
begin

text \<open>
  Machines together: the handshake of a link, a visitor that is carried to another machine, whom
  the internal listener believes, and what the word of another machine can do.
\<close>

section \<open>Fields of a line\<close>

text \<open>Printable characters without the space that separates fields.\<close>

definition field_char :: "char \<Rightarrow> bool"
  where "field_char c \<longleftrightarrow> 33 \<le> code_of c \<and> code_of c \<le> 126"

definition plain :: "string \<Rightarrow> bool"
  where "plain s \<longleftrightarrow> list_all field_char s"

lemma plain_simps [simp]: "plain []" "plain (c # s) \<longleftrightarrow> field_char c \<and> plain s" "plain (s @ t) \<longleftrightarrow> plain s \<and> plain t"
  by (simp_all add: plain_def)

lemma plain_no_space: "plain s \<Longrightarrow> CHR '' '' \<notin> set s"
  by (auto simp: plain_def list_all_iff field_char_def)

lemma valid_id_plain: "valid_id s \<Longrightarrow> plain s"
  by (auto simp: valid_id_def plain_def field_char_def list_all_iff)

lemma field_hexdigit: "to_digit 16 c \<noteq> None \<Longrightarrow> field_char c"
  by (auto simp: to_digit_def hex_digit_value_def option_filter_def field_char_def is_ascii_digit_def split: if_splits)

lemma field_digit: "is_ascii_digit c \<Longrightarrow> field_char c"
  by (auto simp: field_char_def is_ascii_digit_def)

lemma field_show_nat: "plain (show_nat n)"
  unfolding plain_def list_all_iff using show_nat_digits field_digit by blast

lemma plain_hex_bytes: "plain (hex_bytes bs)"
proof -
  have "field_char (hex_char d)" if "d < 16" for d
    using that by (intro field_hexdigit) (simp add: hex_char_value)
  moreover have "unat b div 16 < 16" for b :: u8 using unat_less_256 [of b] by linarith
  ultimately show ?thesis by (induction bs) (simp_all add: hex_bytes_def)
qed

lemma plain_show_socket_addr: "plain (show_socket_addr addr)"
proof -
  have dot: "field_char CHR ''.''" "field_char CHR '':''" by (simp_all add: field_char_def)
  have "plain (show_ipv4 a)" for a
    unfolding plain_def list_all_iff using show_ipv4_chars [of _ a] field_digit dot by blast
  moreover have "plain (show_ipv6 a)" for a
    unfolding plain_def list_all_iff using show_ipv6_chars [of _ a] field_hexdigit dot by blast
  moreover have "field_char CHR ''[''" "field_char CHR '']''" "field_char CHR '':''" by (simp_all add: field_char_def)
  ultimately show ?thesis
    by (cases "sock_ip addr") (simp_all add: show_socket_addr_def field_show_nat)
qed

text \<open>Printable text, spaces included, on the wire.\<close>

definition printable :: "string \<Rightarrow> bool"
  where "printable s \<longleftrightarrow> list_all (\<lambda>c. 32 \<le> code_of c \<and> code_of c \<le> 126) s"

lemma printable_simps [simp]:
  "printable []" "printable (c # s) \<longleftrightarrow> 32 \<le> code_of c \<and> code_of c \<le> 126 \<and> printable s"
  "printable (s @ t) \<longleftrightarrow> printable s \<and> printable t"
  by (auto simp: printable_def)

lemma plain_printable: "plain s \<Longrightarrow> printable s"
  by (auto simp: plain_def printable_def field_char_def list_all_iff)

lemma printable_bytes:
  assumes "printable s"
  shows "10 \<notin> set (as_bytes s)" "from_utf8 (as_bytes s) = Some s"
proof -
  have "byte_of_char c \<noteq> 10" "unat (byte_of_char c) < 128" if "c \<in> set s" for c
  proof -
    have "32 \<le> unat (byte_of_char c)" "unat (byte_of_char c) \<le> 126"
      using assms that by (auto simp: printable_def list_all_iff)
    moreover have "unat (10 :: u8) = 10" by simp
    ultimately have "unat (byte_of_char c) \<noteq> unat (10 :: u8)" "unat (byte_of_char c) < 128" by linarith+
    then show "byte_of_char c \<noteq> 10" "unat (byte_of_char c) < 128" by metis+
  qed
  then show "10 \<notin> set (as_bytes s)" "from_utf8 (as_bytes s) = Some s"
    by (auto simp: as_bytes_def from_utf8_def list_all_iff intro!: is_utf8_ascii) (metis of_bytes_as_bytes as_bytes_def)
qed

section \<open>The first line of an internal connection\<close>

lemma append_longer:
  "xs @ ys = zs @ c # ws \<Longrightarrow> length zs < length xs \<Longrightarrow> \<exists>x. xs = zs @ c # x \<and> x @ ys = ws"
proof (induction zs arbitrary: xs)
  case Nil
  then show ?case by (cases xs) auto
next
  case (Cons z zs)
  then show ?case by (cases xs) auto
qed

lemma header_loop_found: "10 \<notin> set line \<Longrightarrow> header_loop (line @ 10 # x) reads = Ok (length line, line @ 10 # x, reads)"
proof -
  assume "10 \<notin> set line"
  then have "takeWhile (\<lambda>b. b \<noteq> 10) (line @ 10 # x) = line" by (subst takeWhile_append2) auto
  then show ?thesis by (subst header_loop.simps) simp
qed

lemma header_loop_line:
  assumes "buf @ concat cs = line @ 10 # after" "10 \<notin> set line" "length line < MAX_HEADER" "[] \<notin> set cs"
  shows "\<exists>buf' later. header_loop buf (map Read_bytes cs @ more_reads) =
      Ok (length line, buf', map Read_bytes later @ more_reads) \<and>
    length line < length buf' \<and> buf' @ concat later = line @ 10 # after \<and> [] \<notin> set later"
  using assms
proof (induction cs arbitrary: buf)
  case Nil
  then have buf: "buf = line @ 10 # after" by simp
  then have "header_loop buf (map Read_bytes [] @ more_reads) = Ok (length line, buf, map Read_bytes [] @ more_reads)"
    using header_loop_found [OF Nil.prems(2)] by simp
  then show ?case using buf by (intro exI conjI) auto
next
  case (Cons c cs)
  show ?case
  proof (cases "length line < length buf")
    case True
    then obtain x where buf: "buf = line @ 10 # x"
      using append_longer [OF Cons.prems(1)] by blast
    then have "header_loop buf (map Read_bytes (c # cs) @ more_reads) =
        Ok (length line, buf, map Read_bytes (c # cs) @ more_reads)"
      using header_loop_found [OF Cons.prems(2)] by simp
    then show ?thesis using True Cons.prems(1,4) by blast
  next
    case False
    then have "buf = take (length buf) line" using Cons.prems(1) by (metis append_eq_append_conv_if linorder_not_less)
    then have "10 \<notin> set buf" using Cons.prems(2) by (metis in_set_takeD)
    then have "header_loop buf (map Read_bytes (c # cs) @ more_reads) =
        header_loop (buf @ c) (map Read_bytes cs @ more_reads)"
      using False Cons.prems(3,4) by (auto simp: header_loop.simps [of buf])
    moreover have "\<exists>buf' later. header_loop (buf @ c) (map Read_bytes cs @ more_reads) =
        Ok (length line, buf', map Read_bytes later @ more_reads) \<and> length line < length buf' \<and>
        buf' @ concat later = line @ 10 # after \<and> [] \<notin> set later"
      using Cons.prems by (intro Cons.IH) auto
    ultimately show ?thesis by simp
  qed
qed

lemma internal_forward:
  assumes "concat cs = as_bytes (FORWARD_MAGIC @ line @ [CHR 0x0A]) @ after" "printable line"
    and "length FORWARD_MAGIC + length line < MAX_HEADER" "[] \<notin> set cs"
  shows "\<exists>rest later. internal_connection (map Read_bytes cs @ more_reads) =
      Some (Ok (Forward_connection line rest (map Read_bytes later @ more_reads))) \<and>
    rest @ concat later = after \<and> [] \<notin> set later"
proof -
  let ?line = "as_bytes (FORWARD_MAGIC @ line)"
  have magic: "printable FORWARD_MAGIC" by (simp add: FORWARD_MAGIC_def)
  have newline: "10 \<notin> set ?line" using printable_bytes(1) [of "FORWARD_MAGIC @ line"] magic assms(2) by simp
  have all: "[] @ concat cs = ?line @ 10 # after" using assms(1) by (simp add: byte_of_char_def)
  obtain buf later where run: "header_loop [] (map Read_bytes cs @ more_reads) =
      Ok (length ?line, buf, map Read_bytes later @ more_reads)"
    and buf: "length ?line < length buf" "buf @ concat later = ?line @ 10 # after" "[] \<notin> set later"
    using header_loop_line [OF all newline _ assms(4), of more_reads] assms(3) by auto
  obtain x where x: "buf = ?line @ 10 # x" "x @ concat later = after"
    using append_longer [OF buf(2,1)] by blast
  have forward: "starts_with buf FORWARD_MAGIC" by (simp add: starts_with_def x(1))
  have "\<not> starts_with buf MESH_MAGIC"
    by (simp add: starts_with_def x(1) MESH_MAGIC_def FORWARD_MAGIC_def byte_of_char_def)
  moreover have "slice buf (length FORWARD_MAGIC) (length ?line) = Some (as_bytes line)"
    by (simp add: slice_def x(1))
  moreover have "from_utf8 (as_bytes line) = Some line" by (rule printable_bytes(2) [OF assms(2)])
  moreover have "drop (length ?line + 1) buf = x" by (simp add: x(1))
  ultimately have "internal_connection (map Read_bytes cs @ more_reads) =
      Some (Ok (Forward_connection line x (map Read_bytes later @ more_reads)))"
    unfolding internal_connection_def run using forward by (simp del: length_append)
  then show ?thesis using x(2) buf(3) by blast
qed

section \<open>A visitor carried to another machine\<close>

definition forward_line :: "('k \<Rightarrow> bytes \<Rightarrow> bytes) \<Rightarrow> 'k \<Rightarrow> string \<Rightarrow> string \<Rightarrow> nat \<Rightarrow> string \<Rightarrow> string \<Rightarrow> string \<Rightarrow> string \<Rightarrow> string"
  where "forward_line hmac key self receiver now nonce tid rname visitor =
    self @ '' '' @ receiver @ '' '' @ show_nat now @ '' '' @ nonce @ '' '' @ tid @ '' '' @ rname @ '' '' @ visitor @ '' '' @
    Secret_sign hmac key ([FORWARD_LABEL, self, receiver, show_nat now, nonce] @ [tid, rname, visitor])"

lemma plain_Secret_sign: "plain (Secret_sign hmac key parts)"
  by (simp add: Secret_sign_def plain_hex_bytes)

lemma forward_header_line:
  "forward_header hmac key self now nonce l acc tid rname =
     Some (as_bytes (FORWARD_MAGIC @ forward_line hmac key self (loc_machine l) now nonce tid rname
       (show_socket_addr (acc_peer acc)) @ [CHR 0x0A]) @ initial acc)"
proof -
  let ?visitor = "show_socket_addr (acc_peer acc)"
  let ?proof = "Secret_sign hmac key ([FORWARD_LABEL, self, loc_machine l, show_nat now, nonce] @ [tid, rname, ?visitor])"
  let ?identity = "self @ '' '' @ loc_machine l @ '' '' @ show_nat now @ '' '' @ nonce"
  have "Cluster_sign hmac key self now nonce FORWARD_LABEL (loc_machine l) [tid, rname, ?visitor] = ?identity @ CHR '' '' # ?proof"
    by (simp add: Cluster_sign_def Let_def)
  moreover have "rsplit_once CHR '' '' (?identity @ CHR '' '' # ?proof) = Some (?identity, ?proof)"
    unfolding rsplit_once_Some by (intro conjI refl plain_no_space plain_Secret_sign)
  ultimately show ?thesis
    unfolding forward_header_def Let_def by (simp only: option.case prod.case) (simp add: forward_line_def)
qed

lemma forward_line_split:
  assumes "plain self" "plain receiver" "plain nonce" "plain tid" "plain rname" "plain visitor"
  shows "split_on CHR '' '' (forward_line hmac key self receiver now nonce tid rname visitor) =
    [self, receiver, show_nat now, nonce, tid, rname, visitor,
     Secret_sign hmac key ([FORWARD_LABEL, self, receiver, show_nat now, nonce] @ [tid, rname, visitor])]"
    and "printable (forward_line hmac key self receiver now nonce tid rname visitor)"
proof -
  note spaceless = assms [THEN plain_no_space] plain_no_space [OF field_show_nat, of now]
    plain_no_space [OF plain_Secret_sign]
  show "split_on CHR '' '' (forward_line hmac key self receiver now nonce tid rname visitor) =
    [self, receiver, show_nat now, nonce, tid, rname, visitor,
     Secret_sign hmac key ([FORWARD_LABEL, self, receiver, show_nat now, nonce] @ [tid, rname, visitor])]"
    unfolding forward_line_def append.simps
    by (simp only: split_on_append_sep [OF spaceless(1)] split_on_append_sep [OF spaceless(2)]
        split_on_append_sep [OF spaceless(3)] split_on_append_sep [OF spaceless(4)]
        split_on_append_sep [OF spaceless(5)] split_on_append_sep [OF spaceless(6)]
        split_on_append_sep [OF spaceless(7)] split_on_no_sep [OF spaceless(8)] append.simps)
  show "printable (forward_line hmac key self receiver now nonce tid rname visitor)"
    using assms by (simp add: forward_line_def plain_printable field_show_nat plain_Secret_sign)
qed

section \<open>Whom the internal listener believes\<close>

text \<open>A request with this sender, time, nonce and proof: the proof is the signature over the label, the sender, this machine, the time, the nonce
  and the fields; the time is within the skew; the nonce has not been seen and is remembered from now on; and the sender is a machine that is
  linked at the address the connection comes from.\<close>

definition authentic :: "('k \<Rightarrow> bytes \<Rightarrow> bytes) \<Rightarrow> 'k \<Rightarrow> nat \<Rightarrow> Mesh \<Rightarrow> SocketAddr \<Rightarrow> Cluster \<Rightarrow> Cluster \<Rightarrow> string
    \<Rightarrow> string \<times> string \<times> string \<times> string \<Rightarrow> string list \<Rightarrow> bool"
  where "authentic hmac key now m connection c c' label request fs \<longleftrightarrow>
    (case request of (sender, timestamp, nonce, proof_text) \<Rightarrow>
      Secret_verify hmac key ([label, sender, machine_id c, timestamp, nonce] @ fs) proof_text \<and>
      (\<exists>at. parse_unsigned (2 ^ 64 - 1) timestamp = Some at \<and> fresh at now \<and> map_of (nonces c') nonce = Some at) \<and>
      map_of (nonces_room (nonces c) now) nonce = None \<and>
      (\<exists>address a. peer_address sender m = Some address \<and> parse_socket_addr address = Some a \<and>
        canonical (sock_ip a) = canonical (sock_ip connection)))"

lemma verified_authentic:
  assumes "Cluster_verify hmac key c now label (sender, receiver, timestamp, nonce, proof_text) fs = (c', Ok ())"
    and "check_sender sender connection m = Ok ()"
  shows "receiver = machine_id c \<and> authentic hmac key now m connection c c' label (sender, timestamp, nonce, proof_text) fs"
proof -
  from assms(1) obtain at where verified: "receiver = machine_id c" "parse_unsigned (2 ^ 64 - 1) timestamp = Some at" "fresh at now"
      "map_of (nonces_room (nonces c) now) nonce = None" "map_of (nonces c') nonce = Some at"
      "Secret_verify hmac key ([label, sender, machine_id c, timestamp, nonce] @ fs) proof_text"
    unfolding Cluster_verify_def prod.case
    by (auto simp: first_use_def Let_def split: if_splits option.splits prod.splits)
  from assms(2) obtain address a where "peer_address sender m = Some address" "parse_socket_addr address = Some a"
      "canonical (sock_ip a) = canonical (sock_ip connection)"
    by (auto simp: check_sender_def split: option.splits if_splits)
  with verified show ?thesis unfolding authentic_def prod.case by blast
qed

lemma forward_in_fields:
  assumes "forward_in hmac key to_lower now m served connection line rest reads c = Some (c', Ok (acc, reads'))"
  shows "\<exists>sender receiver timestamp nonce tid rname visitor proof_text.
    split_on CHR '' '' line = [sender, receiver, timestamp, nonce, tid, rname, visitor, proof_text] \<and>
    Cluster_verify hmac key c now FORWARD_LABEL (sender, receiver, timestamp, nonce, proof_text) [tid, rname, visitor] = (c', Ok ()) \<and>
    check_sender sender connection m = Ok () \<and>
    (\<exists>v. parse_socket_addr visitor = Some v \<and> accept_with to_lower v False rest reads = Some (Ok (acc, reads'))) \<and>
    tunnel_id (acc_sni acc) served = Some tid"
  using assms unfolding forward_in_def
  by (auto split: list.splits prod.splits sum.splits option.splits if_splits)

lemma control_authorized:
  assumes "control hmac key now m connection meth path auth (c, s) = ((c', s'), r)" "r \<noteq> Unauthorized"
  shows "\<exists>given sender timestamp nonce proof_text. auth = Some given \<and>
    split_on CHR '' '' given = [sender, machine_id c, timestamp, nonce, proof_text] \<and>
    authentic hmac key now m connection c c' CONTROL_LABEL (sender, timestamp, nonce, proof_text) [meth, path]"
proof -
  obtain given where auth: "auth = Some given" using assms by (cases auth) (auto simp: control_def)
  obtain sender receiver timestamp nonce proof_text where fields:
      "split_on CHR '' '' given = [sender, receiver, timestamp, nonce, proof_text]"
    using assms unfolding control_def auth by (auto split: list.splits)
  obtain c1 v where v: "Cluster_verify hmac key c now CONTROL_LABEL (sender, receiver, timestamp, nonce, proof_text) [meth, path] = (c1, v)"
    by fastforce
  have ok: "v = Ok () \<and> check_sender sender connection m = Ok ()"
    using assms unfolding control_def auth prod.case option.case fields list.case v by (cases v) (auto split: if_splits)
  then have "c' = c1"
    using assms unfolding control_def auth prod.case option.case fields list.case v
    by (auto split: if_splits option.splits prod.splits)
  with ok v have "Cluster_verify hmac key c now CONTROL_LABEL (sender, receiver, timestamp, nonce, proof_text) [meth, path] = (c', Ok ())"
      "check_sender sender connection m = Ok ()" by auto
  from verified_authentic [OF this] auth fields show ?thesis by blast
qed

lemma hello_loop_peer:
  "hello_loop to_lower p start peer buf reads = Some (Ok (acc, reads')) \<Longrightarrow> acc_peer acc = peer"
proof (induction reads arbitrary: p buf)
  case Nil
  then show ?case
    by (auto simp: hello_loop.simps [of _ _ _ _ buf] split: option.splits prod.splits Sni.Hello.splits if_splits)
next
  case (Cons r reads)
  obtain answer where parsed: "Option.bind (slice buf start (length buf)) (HelloParser_parse to_lower p) = Some answer"
    using Cons.prems by (cases "Option.bind (slice buf start (length buf)) (HelloParser_parse to_lower p)")
      (simp_all add: hello_loop.simps [of _ _ _ _ buf])
  obtain p' h where answer: "answer = (p', h)" by fastforce
  show ?case
  proof (cases h)
    case HelloIncomplete
    with Cons.prems Cons.IH [of p'] show ?thesis
      by (cases r) (simp_all add: hello_loop.simps [of _ p _ _ buf] parsed answer split: if_splits)
  qed (use Cons.prems in \<open>auto simp: hello_loop.simps [of _ _ _ _ buf] parsed answer\<close>)
qed

section \<open>The handshake\<close>

lemma read_line_text:
  assumes "printable s" "length s < 1024"
  shows "read_line (as_bytes (s @ [CHR 0x0A]) @ rest) = Ok (s, rest)"
proof -
  have newline: "10 \<notin> set (as_bytes s)" by (rule printable_bytes(1) [OF assms(1)])
  have input: "as_bytes (s @ [CHR 0x0A]) @ rest = as_bytes s @ 10 # rest" by (simp add: byte_of_char_def)
  have "takeWhile (\<lambda>b. b \<noteq> 10) (as_bytes s @ 10 # rest) = as_bytes s"
    using newline by (subst takeWhile_append2) auto
  moreover have "10 \<in> set (take 1024 (as_bytes s @ 10 # rest))"
  proof -
    obtain n where "1024 - length s = Suc n" using assms(2) by (metis Suc_diff_Suc)
    then show ?thesis by simp
  qed
  ultimately show ?thesis
    unfolding read_line_def input by (simp add: printable_bytes(2) [OF assms(1)] Let_def)
qed

lemma length_Secret_sign: "length (hmac key (message parts)) \<le> 64 \<Longrightarrow> length (Secret_sign hmac key parts) \<le> 128"
  by (simp add: Secret_sign_def length_hex_bytes)

lemma valid_nonce_plain: "valid_nonce s \<Longrightarrow> plain s"
  by (auto simp: valid_nonce_def plain_def list_all_iff is_ascii_hexdigit_def field_char_def is_ascii_digit_def)

lemma located_machine:
  assumes "mesh_reach m" "locate tid rname skip m = Some l"
  shows "skip \<noteq> Some (loc_machine l) \<and> (\<exists>at. offers m tid rname (loc_machine l) at)"
proof -
  from located(1) [OF mesh_reach_ok [OF assms(1)] assms(2)]
  obtain machine at p where "skip \<noteq> Some machine" "offers m tid rname machine at" "loc_machine l = machine"
    by (elim exE conjE) (rule that)
  then show ?thesis by auto
qed

section \<open>Examples\<close>

text \<open>Machine \<open>a\<close> forwards a visitor to machine \<open>b\<close>, to which it is linked; tags are the first bytes of the message.\<close>

definition example_hmac :: "nat \<Rightarrow> bytes \<Rightarrow> bytes"
  where "example_hmac key msg = take 4 msg"

definition example_visitor :: Accepted
  where "example_visitor = \<lparr>acc_peer = example_source, initial = fragment_records example_fragments,
    acc_sni = ''api.abc.example'', acc_alpn = ''h2''\<rparr>"

definition example_location :: Location
  where "example_location = \<lparr>loc_machine = ''b'', loc_region = ''r'', loc_address = []\<rparr>"

definition example_carried :: bytes
  where "example_carried = as_bytes (FORWARD_MAGIC @ forward_line example_hmac 0 ''a'' ''b'' 5 ''n'' ''abc'' ''api''
    (show_socket_addr example_source) @ [CHR 0x0A]) @ fragment_records example_fragments"

definition example_connection :: SocketAddr
  where "example_connection = \<lparr>sock_ip = IpV4 0x01010101, sock_port = 7\<rparr>"

definition example_cluster :: Cluster
  where "example_cluster = \<lparr>machine_id = ''b'', nonces = []\<rparr>"

lemma example_hmac_length: "length (example_hmac key msg) \<le> 64"
  by (simp add: example_hmac_def)

lemma example_signed: "Secret_verify example_hmac key ps (Secret_sign example_hmac key ps)"
  using example_hmac_length by (subst Secret_verify_iff) auto

lemma example_sender_checked: "check_sender ''a'' example_connection example_receiver = Ok ()"
  by (simp add: check_sender_def peer_address_def example_receiver_remote example_hello example_parsed new_peer_def
      example_connection_def)

lemma example_header_sent:
  "forward_header example_hmac 0 ''a'' 5 ''n'' example_location example_visitor ''abc'' ''api'' = Some example_carried"
  unfolding forward_header_line by (simp add: example_carried_def example_location_def example_visitor_def)

lemma example_sent_size: "length example_carried \<le> MAX_HEADER + length (initial example_visitor)"
proof -
  have short: "length (show_nat 80) \<le> 3" "length (show_nat 5) \<le> 3" by (intro length_show_nat_255; simp)+
  then have "length (show_socket_addr example_source) \<le> 19"
    using length_show_ipv4 [of "0x0a000007"] by (simp add: show_socket_addr_def example_source_def)
  moreover note short(2)
  ultimately show ?thesis
    by (simp add: example_carried_def example_visitor_def forward_line_def Secret_sign_def length_hex_bytes
        example_hmac_def FORWARD_MAGIC_def MAX_HEADER_def)
qed

section \<open>Properties\<close>

text \<open>C29. Carrying a visitor over: what a machine sends to forward a visitor, cut into reads in any way, is taken by the
  internal listener of the machine it names as that visitor: same address, server name and protocol, with everything the
  visitor sent. It needs the same shared secret, a time within the skew, an unused nonce and a sender linked at the address
  the connection comes from.\<close>

theorem forwarded_visitor_arrives:
  assumes sent: "forward_header hmac key self now nonce l acc tid rname = Some sent"
    and stream: "concat cs = sent @ later" "[] \<notin> set cs"
    and names: "plain self" "plain (loc_machine l)" "plain nonce" "plain tid" "plain rname"
    and line: "length sent \<le> MAX_HEADER + length (initial acc)"
    and hello: "is_hello to_lower hello (acc_sni acc) (acc_alpn acc)" "length hello \<le> CLIENT_HELLO_LIMIT"
      "initial acc = hello @ extra"
    and tunnel: "tunnel_id (acc_sni acc) served = Some tid"
    and receiver: "loc_machine l = machine_id c" "check_sender self connection m = Ok ()"
      "map_of (nonces_room (nonces c) now') nonce = None"
    and time: "now < 2 ^ 64" "fresh now now'"
    and tags: "\<And>msg. length (hmac key msg) \<le> 64"
  shows "\<exists>line rest reads c' acc' later'.
    internal_connection (map Read_bytes cs @ more_reads) = Some (Ok (Forward_connection line rest reads)) \<and>
    forward_in hmac key to_lower now' m served connection line rest reads c =
      Some (c', Ok (acc', map Read_bytes later' @ more_reads)) \<and>
    acc_peer acc' = acc_peer acc \<and> acc_sni acc' = acc_sni acc \<and> acc_alpn acc' = acc_alpn acc \<and>
    initial acc' @ concat later' = initial acc @ later"
proof -
  let ?visitor = "show_socket_addr (acc_peer acc)" and ?receiver = "loc_machine l"
  let ?line = "forward_line hmac key self ?receiver now nonce tid rname ?visitor"
  note split = forward_line_split [OF names plain_show_socket_addr, of hmac key now "acc_peer acc"]
  have sent': "sent = as_bytes (FORWARD_MAGIC @ ?line @ [CHR 0x0A]) @ initial acc"
    using sent unfolding forward_header_line by simp
  have all: "concat cs = as_bytes (FORWARD_MAGIC @ ?line @ [CHR 0x0A]) @ initial acc @ later"
    using stream(1) sent' by simp
  have "length FORWARD_MAGIC + length ?line < MAX_HEADER" using line unfolding sent' by simp
  from internal_forward [OF all split(2) this stream(2), of more_reads]
  obtain rest cs' where conn: "internal_connection (map Read_bytes cs @ more_reads) =
      Some (Ok (Forward_connection ?line rest (map Read_bytes cs' @ more_reads)))"
    and rest: "rest @ concat cs' = initial acc @ later" "[] \<notin> set cs'" by blast
  have data: "rest @ concat cs' = hello @ (extra @ later)" using rest(1) hello(3) by simp
  obtain acc' later' where accepted: "accept_with to_lower (acc_peer acc) False rest (map Read_bytes cs' @ more_reads) =
      Some (Ok (acc', map Read_bytes later' @ more_reads))"
    and acc': "acc_peer acc' = acc_peer acc" "acc_sni acc' = acc_sni acc" "acc_alpn acc' = acc_alpn acc"
      "initial acc' @ concat later' = hello @ extra @ later"
    using accept_with_hello [OF hello(1,2) data rest(2), of "acc_peer acc" more_reads] by blast
  let ?parts = "[FORWARD_LABEL, self, ?receiver, show_nat now, nonce] @ [tid, rname, ?visitor]"
  have "Secret_verify hmac key ?parts (Secret_sign hmac key ?parts)" using tags by (subst Secret_verify_iff) auto
  then obtain c' where "Cluster_verify hmac key c now' FORWARD_LABEL
      (self, ?receiver, show_nat now, nonce, Secret_sign hmac key ?parts) [tid, rname, ?visitor] = (c', Ok ())"
    using receiver(1,3) time by (auto simp: Cluster_verify_def parse_unsigned_show_nat first_use_def Let_def)
  then have "forward_in hmac key to_lower now' m served connection ?line rest (map Read_bytes cs' @ more_reads) c =
      Some (c', Ok (acc', map Read_bytes later' @ more_reads))"
    unfolding forward_in_def split(1) using receiver(2) accepted tunnel acc'(2)
    by (simp add: parse_socket_addr_show)
  moreover have "initial acc' @ concat later' = initial acc @ later" using acc'(4) hello(3) by simp
  ultimately show ?thesis using conn acc'(1-3) by blast
qed

theorem forwarded_visitor_arrives_witness:
  "\<exists>line rest reads c' acc' later'.
    internal_connection [Read_bytes example_carried, Read_bytes [1]] = Some (Ok (Forward_connection line rest reads)) \<and>
    forward_in example_hmac 0 to_ascii_lowercase 6 example_receiver ''example'' example_connection line rest reads
      example_cluster = Some (c', Ok (acc', later')) \<and> acc_peer acc' = example_source"
proof -
  have "concat [example_carried, [1]] = example_carried @ [1]" "[] \<notin> set [example_carried, [1]]"
    by (simp_all add: example_carried_def FORWARD_MAGIC_def)
  moreover have "plain ''a''" "plain (loc_machine example_location)" "plain ''n''" "plain ''abc''" "plain ''api''"
    by (simp_all add: example_location_def field_char_def)
  moreover have "is_hello to_ascii_lowercase (fragment_records example_fragments) (acc_sni example_visitor) (acc_alpn example_visitor)"
      "initial example_visitor = fragment_records example_fragments @ []" "acc_peer example_visitor = example_source"
    using example_is_hello by (simp_all add: example_visitor_def)
  moreover have "tunnel_id (acc_sni example_visitor) ''example'' = Some ''abc''" by code_simp
  moreover have "loc_machine example_location = machine_id example_cluster" "(5 :: nat) < 2 ^ 64" "fresh 5 6"
      "map_of (nonces_room (nonces example_cluster) 6) ''n'' = None"
    by (simp_all add: example_location_def example_cluster_def fresh_def MAX_SKEW_MS_def nonces_room_def MAX_NONCES_def)
  ultimately show ?thesis
    using forwarded_visitor_arrives [OF example_header_sent, where cs = "[example_carried, [1]]" and later = "[1]"
        and to_lower = to_ascii_lowercase and hello = "fragment_records example_fragments" and extra = "[]"
        and served = "''example''" and c = example_cluster and connection = example_connection
        and m = example_receiver and now' = 6 and more_reads = "[]"]
      example_sent_size example_hello_records(5) example_sender_checked example_hmac_length
    by (simp only: list.map append_Nil2) blast
qed

text \<open>C30. The internal listener acts on a forwarded visitor or a control request only when what the line or the header presents is authentic:
  its proof is the signature with the shared secret over its label, its sender, this machine as the receiver, its time, its nonce and
  exactly its fields; its time is fresh; its nonce was never seen and is remembered; and the connection comes from the address at which the
  sender is linked. A forwarded visitor is taken with the signed address and for the signed tunnel.\<close>

theorem internal_requests_authentic:
  "(forward_in hmac key to_lower now m served connection line rest reads c = Some (c', Ok (acc, reads')) \<longrightarrow>
     (\<exists>sender timestamp nonce tid rname visitor proof_text.
       split_on CHR '' '' line = [sender, machine_id c, timestamp, nonce, tid, rname, visitor, proof_text] \<and>
       authentic hmac key now m connection c c' FORWARD_LABEL (sender, timestamp, nonce, proof_text) [tid, rname, visitor] \<and>
       tunnel_id (acc_sni acc) served = Some tid \<and> parse_socket_addr visitor = Some (acc_peer acc))) \<and>
   (control hmac key now m connection meth path auth (c, s) = ((c', s'), r) \<and> r \<noteq> Unauthorized \<longrightarrow>
     (\<exists>given sender timestamp nonce proof_text. auth = Some given \<and>
       split_on CHR '' '' given = [sender, machine_id c, timestamp, nonce, proof_text] \<and>
       authentic hmac key now m connection c c' CONTROL_LABEL (sender, timestamp, nonce, proof_text) [meth, path]))"
proof (intro conjI impI)
  assume "forward_in hmac key to_lower now m served connection line rest reads c = Some (c', Ok (acc, reads'))"
  from forward_in_fields [OF this] obtain sender receiver timestamp nonce tid rname visitor proof_text v where
    line: "split_on CHR '' '' line = [sender, receiver, timestamp, nonce, tid, rname, visitor, proof_text]" and
    verified: "Cluster_verify hmac key c now FORWARD_LABEL (sender, receiver, timestamp, nonce, proof_text) [tid, rname, visitor] = (c', Ok ())"
    "check_sender sender connection m = Ok ()" and visitor: "parse_socket_addr visitor = Some v"
    "accept_with to_lower v False rest reads = Some (Ok (acc, reads'))" "tunnel_id (acc_sni acc) served = Some tid" by blast
  have "acc_peer acc = v" using visitor(2) by (simp add: accept_with_def hello_loop_peer)
  with line visitor(1,3) verified_authentic [OF verified]
  show "\<exists>sender timestamp nonce tid rname visitor proof_text.
      split_on CHR '' '' line = [sender, machine_id c, timestamp, nonce, tid, rname, visitor, proof_text] \<and>
      authentic hmac key now m connection c c' FORWARD_LABEL (sender, timestamp, nonce, proof_text) [tid, rname, visitor] \<and>
      tunnel_id (acc_sni acc) served = Some tid \<and> parse_socket_addr visitor = Some (acc_peer acc)"
    by blast
qed (elim conjE, rule control_authorized)

theorem internal_requests_authentic_witness:
  "\<exists>c'. authentic example_hmac 0 6 example_receiver example_connection example_cluster c' CONTROL_LABEL
    (''a'', ''5'', ''n'', Secret_sign example_hmac 0 ([CONTROL_LABEL, ''a'', ''b'', ''5'', ''n''] @ [''GET'', ''/''])) [''GET'', ''/'']"
proof -
  let ?parts = "[CONTROL_LABEL, ''a'', ''b'', ''5'', ''n''] @ [''GET'', ''/'']"
  let ?auth = "''a b 5 n '' @ Secret_sign example_hmac 0 ?parts"
  have at: "parse_unsigned (2 ^ 64 - 1) ''5'' = Some 5"
    by (simp add: parse_unsigned_def digit_value_def is_ascii_digit_def)
  have "split_on CHR '' '' (Secret_sign example_hmac 0 ?parts) = [Secret_sign example_hmac 0 ?parts]"
    by (rule split_on_no_sep [OF plain_no_space [OF plain_Secret_sign]])
  then have fields: "split_on CHR '' '' ?auth = [''a'', ''b'', ''5'', ''n'', Secret_sign example_hmac 0 ?parts]"
    by (simp add: split_on.simps)
  moreover obtain c where "Cluster_verify example_hmac 0 example_cluster 6 CONTROL_LABEL
      (''a'', ''b'', ''5'', ''n'', Secret_sign example_hmac 0 ?parts) [''GET'', ''/''] = (c, Ok ())"
    unfolding Cluster_verify_def prod.case at using example_signed [of 0 ?parts]
    by (simp add: example_cluster_def first_use_def nonces_room_def MAX_NONCES_def fresh_def MAX_SKEW_MS_def)
  moreover have "strip_prefix ''/'' ''/internal/tunnel/'' = None" by code_simp
  ultimately have run: "control example_hmac 0 6 example_receiver example_connection ''GET'' ''/'' (Some ?auth)
      (example_cluster, example_service) = ((c, example_service), Not_found)"
    unfolding control_def prod.case option.case by (simp add: example_sender_checked)
  have "\<exists>given sender timestamp nonce proof_text. Some ?auth = Some given \<and>
      split_on CHR '' '' given = [sender, machine_id example_cluster, timestamp, nonce, proof_text] \<and>
      authentic example_hmac 0 6 example_receiver example_connection example_cluster c CONTROL_LABEL
        (sender, timestamp, nonce, proof_text) [''GET'', ''/'']"
    by (rule internal_requests_authentic [THEN conjunct2, rule_format, OF conjI [OF run]]) simp
  then show ?thesis using fields by auto
qed

text \<open>The handshake of a link: a dialer and an acceptor that share the secret prove themselves to each other, each
  ends up with the other's machine and the frames that follow; and the answer the acceptor believes was signed as the
  dialer's answer to this very challenge (barring a collision of tags), so an acceptor's own proof or one from another link is not.\<close>

theorem mesh_handshake:
  assumes ids: "valid_id d" "valid_id a" "d \<noteq> a" "valid_nonce nd" "valid_nonce na"
    and tags: "\<And>msg. length (hmac key msg) \<le> 64"
    and line: "line = MESH_MAGIC @ a @ '' '' @ na @ '' '' @ Secret_sign hmac key (mesh_parts ACCEPT_LABEL d a nd na) @ [CHR 0x0A]"
    and answer: "answer = Secret_sign hmac key ps @ [CHR 0x0A]"
    and sizes: "list_all (\<lambda>p. length p < 2 ^ 32) ps"
    and collisions: "hmac key (message (mesh_parts DIAL_LABEL d a nd na)) = hmac key (message ps) \<Longrightarrow>
      message (mesh_parts DIAL_LABEL d a nd na) = message ps"
  shows "mesh_dial hmac key d nd (as_bytes line @ frames) =
      ([MESH_MAGIC @ d @ '' '' @ nd @ [CHR 0x0A],
        Secret_sign hmac key (mesh_parts DIAL_LABEL d a nd na) @ [CHR 0x0A]], Ok (a, frames)) \<and>
    mesh_accept hmac key a na (d @ '' '' @ nd) (as_bytes answer @ frames) =
      ([line], if ps = mesh_parts DIAL_LABEL d a nd na then Ok (d, frames) else Err Failed_challenge)"
proof -
  have plain: "plain d" "plain a" "plain nd" "plain na"
    using ids by (simp_all add: valid_id_plain valid_nonce_plain)
  note spaceless = plain [THEN plain_no_space] plain_no_space [OF plain_Secret_sign]
  let ?text = "a @ '' '' @ na @ '' '' @ Secret_sign hmac key (mesh_parts ACCEPT_LABEL d a nd na)"
  have "length ?text \<le> 450" using ids tags length_Secret_sign [of hmac key "mesh_parts ACCEPT_LABEL d a nd na"]
    by (simp add: valid_id_def valid_nonce_def)
  then have "length (MESH_MAGIC @ ?text) < 1024" by (simp add: MESH_MAGIC_def)
  moreover have "printable (MESH_MAGIC @ ?text)"
    using plain by (simp add: MESH_MAGIC_def plain_printable plain_Secret_sign)
  ultimately have read: "read_line (as_bytes line @ frames) = Ok (MESH_MAGIC @ ?text, frames)"
    using read_line_text [of "MESH_MAGIC @ ?text" frames] by (simp add: line)
  have fields: "split_on CHR '' '' ?text = [a, na, Secret_sign hmac key (mesh_parts ACCEPT_LABEL d a nd na)]"
    by (simp only: append.simps split_on_append_sep [OF spaceless(2)] split_on_append_sep [OF spaceless(4)]
        split_on_no_sep [OF spaceless(5)])
  have greeting: "split_on CHR '' '' (d @ '' '' @ nd) = [d, nd]"
    by (simp only: append.simps split_on_append_sep [OF spaceless(1)] split_on_no_sep [OF spaceless(3)])
  have verify: "Secret_verify hmac key qs (Secret_sign hmac key rs) \<longleftrightarrow> hmac key (message qs) = hmac key (message rs)" for qs rs
    using tags by (rule Secret_verify_iff)
  have dial: "mesh_dial hmac key d nd (as_bytes line @ frames) =
      ([MESH_MAGIC @ d @ '' '' @ nd @ [CHR 0x0A],
        Secret_sign hmac key (mesh_parts DIAL_LABEL d a nd na) @ [CHR 0x0A]], Ok (a, frames))"
    unfolding mesh_dial_def Let_def read sum.case prod.case strip_prefix_append option.case fields list.case
    using ids by (simp add: verify)
  have "read_line (as_bytes answer @ frames) = Ok (Secret_sign hmac key ps, frames)"
    unfolding answer using length_Secret_sign [of hmac key ps] tags
    by (intro read_line_text) (simp_all add: plain_printable plain_Secret_sign)
  moreover have "hmac key (message (mesh_parts DIAL_LABEL d a nd na)) = hmac key (message ps) \<longleftrightarrow>
      ps = mesh_parts DIAL_LABEL d a nd na"
  proof -
    have "list_all (\<lambda>p. length p < 2 ^ 32) (mesh_parts DIAL_LABEL d a nd na)"
      using ids by (simp add: mesh_parts_def DIAL_LABEL_def valid_id_def valid_nonce_def)
    then show ?thesis using collisions message_inject sizes by metis
  qed
  ultimately have "mesh_accept hmac key a na (d @ '' '' @ nd) (as_bytes answer @ frames) =
      ([line], if ps = mesh_parts DIAL_LABEL d a nd na then Ok (d, frames) else Err Failed_challenge)"
    unfolding mesh_accept_def greeting list.case using ids by (simp add: verify line)
  with dial show ?thesis by blast
qed

theorem mesh_handshake_witness:
  "mesh_accept example_hmac 0 ''a'' (replicate 16 CHR ''1'') (''d '' @ replicate 16 CHR ''2'')
      (as_bytes (Secret_sign example_hmac 0
        (mesh_parts DIAL_LABEL ''d'' ''a'' (replicate 16 CHR ''2'') (replicate 16 CHR ''1'')) @ [CHR 0x0A]) @ [7]) =
    ([MESH_MAGIC @ ''a '' @ replicate 16 CHR ''1'' @ '' '' @ Secret_sign example_hmac 0
        (mesh_parts ACCEPT_LABEL ''d'' ''a'' (replicate 16 CHR ''2'') (replicate 16 CHR ''1'')) @ [CHR 0x0A]],
     Ok (''d'', [7]))"
proof -
  let ?nd = "replicate 16 CHR ''2''" and ?na = "replicate 16 CHR ''1''"
  have "valid_id ''d''" "valid_id ''a''" "''d'' \<noteq> ''a''" by (simp_all add: valid_id_def)
  moreover have "valid_nonce ?nd" "valid_nonce ?na"
    by (simp_all add: valid_nonce_def list_all_iff is_ascii_hexdigit_def is_ascii_digit_def)
  moreover have "list_all (\<lambda>p. length p < 2 ^ 32) (mesh_parts DIAL_LABEL ''d'' ''a'' ?nd ?na)"
    by (simp add: mesh_parts_def DIAL_LABEL_def)
  ultimately show ?thesis
    using mesh_handshake [of "''d''" "''a''" ?nd ?na example_hmac 0, OF _ _ _ _ _ example_hmac_length refl refl,
        of "mesh_parts DIAL_LABEL ''d'' ''a'' ?nd ?na" "[7]"] by simp
qed

text \<open>Forwarding: a visitor is given to a machine only when it claims the visitor's route and accepted it; a
  visitor that comes back was refused by the newest claimant and, unless it was the only one, by the newest of the
  others. No machine is tried twice.\<close>

theorem forward_tries_claimants:
  assumes "mesh_reach m" "mesh_reach m'"
  shows "(forward open_to tid rname m m' = Some l \<longrightarrow>
      open_to l = Ok True \<and> (locate tid rname None m = Some l \<or>
        (\<exists>l0. locate tid rname None m = Some l0 \<and> open_to l0 \<noteq> Ok True \<and>
          locate tid rname (Some (loc_machine l0)) m' = Some l \<and> loc_machine l \<noteq> loc_machine l0)) \<and>
      (\<exists>at. offers m tid rname (loc_machine l) at \<or> offers m' tid rname (loc_machine l) at)) \<and>
    (forward open_to tid rname m m' = None \<longrightarrow>
      (\<forall>machine at. \<not> offers m tid rname machine at) \<or>
      (\<exists>l0. locate tid rname None m = Some l0 \<and> open_to l0 \<noteq> Ok True \<and>
        ((\<forall>machine at. machine \<noteq> loc_machine l0 \<longrightarrow> \<not> offers m' tid rname machine at) \<or>
         (\<exists>l1. locate tid rname (Some (loc_machine l0)) m' = Some l1 \<and> loc_machine l1 \<noteq> loc_machine l0 \<and>
           open_to l1 \<noteq> Ok True))))"
proof -
  note first = located(2) [OF mesh_reach_ok [OF assms(1)], of tid rname None]
  note second = located(2) [OF mesh_reach_ok [OF assms(2)], of tid rname]
  show ?thesis
  proof (cases "locate tid rname None m")
    case None
    then show ?thesis using first by (simp add: forward_def)
  next
    case (Some l0)
    obtain at where offer: "offers m tid rname (loc_machine l0) at" using located_machine [OF assms(1) Some] by auto
    show ?thesis
    proof (cases "open_to l0 = Ok True")
      case True
      then show ?thesis using Some offer by (auto simp: forward_def)
    next
      case refused: False
      let ?skip = "Some (loc_machine l0)"
      show ?thesis
      proof (cases "locate tid rname ?skip m'")
        case None
        then have "\<forall>machine at. machine \<noteq> loc_machine l0 \<longrightarrow> \<not> offers m' tid rname machine at"
          using second [of ?skip] by auto
        with None Some refused show ?thesis by (simp add: forward_def)
      next
        case l1: (Some l1)
        obtain at1 where other: "offers m' tid rname (loc_machine l1) at1" "loc_machine l1 \<noteq> loc_machine l0"
          using located_machine [OF assms(2) l1] by auto
        have tried: "forward open_to tid rname m m' = (if open_to l1 = Ok True then Some l1 else None)"
          using l1 Some refused by (simp add: forward_def)
        show ?thesis
        proof (cases "open_to l1 = Ok True")
          case True
          with tried have "forward open_to tid rname m m' = Some l1" by simp
          then show ?thesis using True other l1 Some refused by auto
        next
          case False
          with tried other l1 Some refused show ?thesis by simp
        qed
      qed
    qed
  qed
qed

theorem forward_tries_claimants_witness: "\<exists>at. offers example_receiver ''t'' ''@'' ''a'' at"
proof -
  have "forward (\<lambda>_. Ok True) ''t'' ''@'' example_receiver example_receiver =
      Some \<lparr>loc_machine = ''a'', loc_region = ''r'', loc_address = example_address\<rparr>"
    by (simp add: forward_def example_located)
  then show ?thesis
    using forward_tries_claimants [OF example_receiver_reach example_receiver_reach, of "\<lambda>_. Ok True" "''t''" "''@''"]
    by fastforce
qed

end
