(* ===== verification/Network.thy ===== *)
theory Network
  imports Retry Crypto Frames
begin

text \<open>
  Conversations with other servers over HTTP, as the issuance of certificates has them: the calls that
  are made, what comes back, and errors with their causes. The other side is a function of everything
  sent so far, so it may answer in any way. The classes of an error are those of
  \<^verbatim>\<open>opentunnel-server/src/metrics.rs\<close> and \<^verbatim>\<open>analytics.rs\<close>, and what a tenant is told of a
  failure is from \<^verbatim>\<open>jobs.rs\<close>.
\<close>

section \<open>Calls and replies\<close>

datatype Method = GET | HEAD | POST | DELETE

text \<open>A plain request with its query and JSON body, a signed ACME request (address, nonce, payload, what
  is sent), or a run of a hook (executable, action, name, value).\<close>

datatype Call =
  Http_call Method string "(string \<times> string) list" "json option"
| Signed_call string string "json option" string
| Hook_call string string string string

text \<open>The causes of an error that the program tells apart. An error of the HTTP client has its status, if
  it is one of the timeouts, of the body or of the connection.\<close>

datatype Cause =
  Problem_cause Problem
| Transient_cause string "nat option"
| Client_cause "nat option" bool bool bool
| Timed_out_cause
| Other_cause

record Failure =
  chain :: "Cause list"
  message :: string
  stopped :: bool

text \<open>A reply with the headers that are read; reading its body may fail.\<close>

record Reply =
  reply_status :: nat
  reply_nonce :: "string option"
  reply_location :: "string option"
  reply_retry :: "string option"
  reply_body :: "Failure + bytes"

definition failure :: "string \<Rightarrow> Failure"
  where "failure s = \<lparr>chain = [Other_cause], message = s, stopped = False\<rparr>"

definition transient :: "string \<Rightarrow> Failure"
  where "transient s = \<lparr>chain = [Transient_cause s None], message = s, stopped = False\<rparr>"

text \<open>An error with the context it happened in.\<close>

definition with_context :: "string \<Rightarrow> Failure \<Rightarrow> Failure"
  where "with_context s e = e\<lparr>chain := Other_cause # chain e, message := s @ '': '' @ message e\<rparr>"

definition client_failure :: "string \<Rightarrow> Failure"
  where "client_failure s = \<lparr>chain = [Client_cause None False True False], message = s, stopped = False\<rparr>"

definition is_success :: "nat \<Rightarrow> bool"
  where "is_success status \<longleftrightarrow> 200 \<le> status \<and> status \<le> 299"

definition is_server_error :: "nat \<Rightarrow> bool"
  where "is_server_error status \<longleftrightarrow> 500 \<le> status \<and> status \<le> 599"

section \<open>Talking\<close>

text \<open>What a call gives: a value, a failure, or nothing because the task was dropped while it waited (a shutdown
  drops an attempt at any point where it waits). The state has the list of calls made so far.\<close>

datatype 'a outcome = Done 'a | Failed Failure | Dropped

type_synonym ('s, 'a) run = "'s \<Rightarrow> 'a outcome \<times> 's"
type_synonym 'a talk = "(Call list, 'a) run"

text \<open>The other servers, whether the task is dropped by then, the texts of the HTTP client and of exit
  statuses, and its URLs. A call may have been received although its answer is not waited for. A request may come to a
  server by redirects, each with its status and the address it leads to.\<close>

record Outside =
  peer :: "Call list \<Rightarrow> Call \<Rightarrow> (nat \<times> string) list \<Rightarrow> Failure + Reply"
  dropped :: "Call list \<Rightarrow> bool"
  join_url :: "string \<Rightarrow> string \<Rightarrow> string option"
  redirect_text :: string
  status_text :: "nat \<Rightarrow> string"
  decode_text :: string
  exit_text :: "nat \<Rightarrow> string"
  url_ok :: "string \<Rightarrow> bool"

definition talk_return :: "'a \<Rightarrow> ('s, 'a) run"
  where "talk_return a = (\<lambda>s. (Done a, s))"

definition talk_fail :: "Failure \<Rightarrow> ('s, 'a) run"
  where "talk_fail e = (\<lambda>s. (Failed e, s))"

definition talk_bind :: "('s, 'a) run \<Rightarrow> ('a \<Rightarrow> ('s, 'b) run) \<Rightarrow> ('s, 'b) run"
  where "talk_bind m f = (\<lambda>s.
    case m s of (Done a, s) \<Rightarrow> f a s | (Failed e, s) \<Rightarrow> (Failed e, s) | (Dropped, s) \<Rightarrow> (Dropped, s))"

text \<open>A failure that the caller handles.\<close>

definition talk_try :: "('s, 'a) run \<Rightarrow> ('s, Failure + 'a) run"
  where "talk_try m = (\<lambda>s.
    case m s of (Done a, s) \<Rightarrow> (Done (Ok a), s) | (Failed e, s) \<Rightarrow> (Done (Err e), s) | (Dropped, s) \<Rightarrow> (Dropped, s))"

definition talk_result :: "Failure + 'a \<Rightarrow> ('s, 'a) run"
  where "talk_result r = (case r of Inl e \<Rightarrow> talk_fail e | Inr a \<Rightarrow> talk_return a)"

definition talk_context :: "string \<Rightarrow> ('s, 'a) run \<Rightarrow> ('s, 'a) run"
  where "talk_context what m = (\<lambda>s.
    case m s of (Failed e, s) \<Rightarrow> (Failed (with_context what e), s) | r \<Rightarrow> r)"

text \<open>The HTTP client follows redirects, as one without a policy for them does: a reply with one of five statuses and a location leads on to that
  location, at most ten times. After 307 and 308 the same request is sent there, after the others a GET without a body.\<close>

definition MAX_REDIRECTS :: nat where "MAX_REDIRECTS = 10"

fun call_url :: "Call \<Rightarrow> string option" where
  "call_url (Http_call _ url _ _) = Some url"
| "call_url (Signed_call url _ _ _) = Some url"
| "call_url (Hook_call _ _ _ _) = None"

definition redirected :: "Outside \<Rightarrow> Call \<Rightarrow> (nat \<times> string) list \<Rightarrow> Reply \<Rightarrow> string option"
  where "redirected w c hops r =
    (if List.member [301, 302, 303, 307, 308] (reply_status r)
     then do {
       base \<leftarrow> (if hops = [] then call_url c else Some (snd (last hops)));
       location \<leftarrow> reply_location r;
       join_url w base location }
     else None)"

definition redirect_failure :: "Outside \<Rightarrow> Failure"
  where "redirect_failure w = \<lparr>chain = [Client_cause None False False False], message = redirect_text w, stopped = False\<rparr>"

fun follow :: "Outside \<Rightarrow> Call list \<Rightarrow> Call \<Rightarrow> (nat \<times> string) list \<Rightarrow> nat \<Rightarrow> (nat \<times> string) list \<times> (Failure + Reply)" where
  "follow w log c hops n =
     (case peer w log c hops of
        Inl e \<Rightarrow> (hops, Err e)
      | Inr r \<Rightarrow>
          (case redirected w c hops r of
             None \<Rightarrow> (hops, Ok r)
           | Some url \<Rightarrow>
               (case n of
                  0 \<Rightarrow> (hops, Err (redirect_failure w))
                | Suc n \<Rightarrow> follow w log c (hops @ [(reply_status r, url)]) n)))"

declare follow.simps [simp del]

definition redirects :: "Outside \<Rightarrow> Call list \<Rightarrow> Call \<Rightarrow> (nat \<times> string) list"
  where "redirects w log c = fst (follow w log c [] MAX_REDIRECTS)"

definition answer :: "Outside \<Rightarrow> Call list \<Rightarrow> Call \<Rightarrow> Failure + Reply"
  where "answer w log c = snd (follow w log c [] MAX_REDIRECTS)"

text \<open>A call: it is dropped before or after it is sent, or answered.\<close>

definition ask :: "Outside \<Rightarrow> Call \<Rightarrow> Reply talk"
  where "ask w c = (\<lambda>log.
    if dropped w log then (Dropped, log)
    else if dropped w (log @ [c]) then (Dropped, log @ [c])
    else talk_result (answer w log c) (log @ [c]))"

text \<open>\<^verbatim>\<open>error_for_status\<close>, and reading a body as JSON.\<close>

definition error_for_status :: "Outside \<Rightarrow> Reply \<Rightarrow> ('s, Reply) run"
  where "error_for_status w r =
    (if 400 \<le> reply_status r \<and> reply_status r \<le> 599
     then talk_fail \<lparr>chain = [Client_cause (Some (reply_status r)) False False False],
       message = status_text w (reply_status r), stopped = False\<rparr>
     else talk_return r)"

definition read_json :: "Outside \<Rightarrow> (bytes \<Rightarrow> 'a option) \<Rightarrow> Reply \<Rightarrow> ('s, 'a) run"
  where "read_json w decode r =
    (case reply_body r of
       Inl e \<Rightarrow> talk_fail e
     | Inr body \<Rightarrow> (case decode body of Some a \<Rightarrow> talk_return a | None \<Rightarrow> talk_fail (client_failure (decode_text w))))"

text \<open>The first characters of a text.\<close>

definition continues :: "char \<Rightarrow> bool"
  where "continues c \<longleftrightarrow> 0x80 \<le> code_of c \<and> code_of c < 0xC0"

fun take_chars :: "nat \<Rightarrow> string \<Rightarrow> string" where
  "take_chars (Suc n) (c # s) = c # takeWhile continues s @ take_chars n (dropWhile continues s)"
| "take_chars _ _ = []"

section \<open>Whether to try again\<close>

fun retry_cause :: "Cause \<Rightarrow> cause" where
  "retry_cause (Problem_cause p) = cause.Problem_cause p"
| "retry_cause (Transient_cause _ after) = cause.Transient_cause after"
| "retry_cause (Client_cause (Some status) _ _ _) = Reqwest_status status"
| "retry_cause (Client_cause None timeout body connect) =
     (if timeout \<or> body \<or> connect then Reqwest_network else Reqwest_other)"
| "retry_cause Timed_out_cause = cause.Other_cause"
| "retry_cause Other_cause = cause.Other_cause"

definition classify_failure :: "Failure \<Rightarrow> Class"
  where "classify_failure e = classify (map retry_cause (chain e)) (message e)"

section \<open>What went wrong\<close>

definition REJECTED_PROBLEMS :: "string list"
  where "REJECTED_PROBLEMS =
    [''rejectedIdentifier'', ''unsupportedIdentifier'', ''badCSR'', ''caa'', ''badSignatureAlgorithm'',
     ''badPublicKey'', ''externalAccountRequired'', ''accountDoesNotExist'', ''invalidContact'',
     ''unsupportedContact'', ''malformed'', ''unauthorized'', ''incorrectResponse'', ''connection'', ''dns'']"

definition status_class :: "nat \<Rightarrow> string"
  where "status_class status =
    (if status = 429 then ''http_429'' else if is_server_error status then ''http_5xx''
     else if status = 408 then ''timeout'' else ''other'')"

definition problem_class :: "nat \<Rightarrow> string \<Rightarrow> string"
  where "problem_class status kind_text =
    (let k = last (split_on CHR '':'' kind_text) in
     if k = ''badNonce'' then ''bad_nonce''
     else if k = ''rateLimited'' then ''http_429''
     else if k = ''serverInternal'' then ''http_5xx''
     else if List.member REJECTED_PROBLEMS k then ''rejected''
     else status_class status)"

definition message_class :: "string \<Rightarrow> string"
  where "message_class s =
    (if contains_str s ''DNS record'' \<or> contains_str s ''identical record already exists'' then ''dns''
     else if contains_str s ''no nonce'' then ''nonce''
     else if contains_str s ''badNonce'' then ''bad_nonce''
     else if contains_str s ''authorization ended in pending'' \<or> contains_str s ''order ended in'' then ''authz_pending''
     else if contains_str s ''timed out'' \<or> contains_str s ''timeout'' then ''timeout''
     else if contains_str s ''error decoding response body'' \<or> contains_str s ''could not be read''
       \<or> contains_str s ''expected value at line'' then ''bad_body''
     else if contains_str s ''rateLimited'' \<or> contains_str s ''| HTTP 429'' \<or> contains_str s ''(429 '' then ''http_429''
     else if contains_str s ''status server error'' \<or> contains_str s ''| HTTP 5'' then ''http_5xx''
     else if contains_str s ''acme:error:'' then ''rejected''
     else if contains_str s ''error sending request'' \<or> contains_str s ''connection closed''
       \<or> contains_str s ''connection reset'' then ''network''
     else ''other'')"

fun chain_class :: "Cause list \<Rightarrow> string option" where
  "chain_class [] = None"
| "chain_class (c # cs) =
     (case c of
        Problem_cause p \<Rightarrow> Some (problem_class (problem_status p) (kind p))
      | Transient_cause s _ \<Rightarrow> Some (message_class s)
      | Client_cause status timeout body connect \<Rightarrow>
          if timeout then Some ''timeout''
          else (case status of
            Some status \<Rightarrow> Some (status_class status)
          | None \<Rightarrow> if body then Some ''bad_body'' else if connect then Some ''network'' else chain_class cs)
      | Timed_out_cause \<Rightarrow> Some ''timeout''
      | Other_cause \<Rightarrow> chain_class cs)"

definition error_class :: "Failure \<Rightarrow> string"
  where "error_class e =
    (if contains_str (message e) ''DNS record'' \<or> contains_str (message e) ''identical record already exists''
       \<or> contains_str (message e) ''api.cloudflare.com'' \<or> contains_str (message e) ''DNS challenge''
     then ''dns''
     else case chain_class (chain e) of Some class \<Rightarrow> class | None \<Rightarrow> message_class (message e))"

section \<open>What a tenant is told\<close>

text \<open>The text after each place where \<open>needle\<close> is found, as \<^verbatim>\<open>match_indices\<close> finds them for a needle that
  does not overlap itself.\<close>

fun after_each :: "string \<Rightarrow> string \<Rightarrow> string list" where
  "after_each needle [] = (case strip_prefix [] needle of Some rest \<Rightarrow> [rest] | None \<Rightarrow> [])"
| "after_each needle (c # s) =
     (case strip_prefix (c # s) needle of Some rest \<Rightarrow> rest # after_each needle s | None \<Rightarrow> after_each needle s)"

definition three_digits :: "string \<Rightarrow> bool"
  where "three_digits s \<longleftrightarrow> length (filter is_ascii_digit (take 3 s)) = 3"

definition http_status :: "string \<Rightarrow> bool"
  where "http_status reason \<longleftrightarrow> list_ex three_digits (after_each ''HTTP '' reason)"

definition certificate_failure :: "string \<Rightarrow> string"
  where "certificate_failure reason =
    (let lower = to_ascii_lowercase reason in
     if contains_str reason ''required'' \<or> contains_str reason ''not a P-256'' then ''config''
     else if contains_str lower ''http 429'' \<or> contains_str lower ''ratelimited'' then ''acme_rate_limit''
     else if contains_str reason ''DNS'' then ''dns''
     else if contains_str reason ''authorization'' \<or> contains_str reason ''dns-01'' then ''acme_authorization''
     else if contains_str reason ''ACME order'' \<or> contains_str reason ''finalize'' then ''acme_order''
     else if contains_str reason ''persist certificate state'' then ''persist''
     else if http_status reason then ''acme_http''
     else ''other'')"

fun chain_status :: "Cause list \<Rightarrow> nat option" where
  "chain_status [] = None"
| "chain_status (c # cs) =
     (case c of
        Problem_cause p \<Rightarrow> Some (problem_status p)
      | Client_cause (Some status) _ _ _ \<Rightarrow> Some status
      | _ \<Rightarrow> chain_status cs)"

definition PUBLIC_PREFIX :: string where "PUBLIC_PREFIX = ''Certificate issuance failed: ''"

definition public_reason :: "Failure \<Rightarrow> string"
  where "public_reason e =
    (let full = message e;
         b = certificate_failure full;
         apostrophe = [CHR 0x27];
         answered = ''the certificate authority answered HTTP '' in
     PUBLIC_PREFIX @
     (if b = ''config'' then ''the server'' @ apostrophe @ ''s ACME settings are required but missing''
      else if b = ''acme_rate_limit'' then ''the certificate authority rateLimited the request (HTTP 429)''
      else if b = ''dns'' then ''the DNS challenge record could not be set''
      else if b = ''acme_authorization'' then ''the certificate authority did not validate the authorization''
      else if b = ''acme_order'' then ''the ACME order did not complete''
      else if b = ''persist'' then ''Failed to persist certificate state''
      else if b = ''acme_http'' then
        (case chain_status (chain e) of
           Some status \<Rightarrow> answered @ show_nat status
         | None \<Rightarrow>
             (case filter three_digits (after_each ''HTTP '' full) of
                rest # _ \<Rightarrow> answered @ take 3 rest
              | [] \<Rightarrow> ''the certificate authority answered with an error''))
      else ''the certificate authority could not be used ('' @ error_class e @ '')''))"

section \<open>What a run keeps\<close>

text \<open>A run keeps a relation when its final state is related to the state it starts in, however it ends.\<close>

definition keeps_to :: "('s \<Rightarrow> 's \<Rightarrow> bool) \<Rightarrow> ('s, 'a) run \<Rightarrow> bool"
  where "keeps_to R m \<longleftrightarrow> (\<forall>s. R s (snd (m s)))"

named_theorems keeps_rules

lemma keeps_toI: "(\<And>s. R s (snd (m s))) \<Longrightarrow> keeps_to R m"
  by (simp add: keeps_to_def)

lemma keeps_toD: "keeps_to R m \<Longrightarrow> m s = (r, s') \<Longrightarrow> R s s'"
  unfolding keeps_to_def by (metis snd_conv)

text \<open>A relation on states that holds of any number of steps.\<close>

locale steady =
  fixes R :: "'s \<Rightarrow> 's \<Rightarrow> bool"
  assumes steady_refl: "R s s"
    and steady_trans: "R s t \<Longrightarrow> R t u \<Longrightarrow> R s u"
begin

lemma keeps_talk_return: "keeps_to R (talk_return a)"
  by (simp add: keeps_to_def talk_return_def steady_refl)

lemma keeps_fail: "keeps_to R (talk_fail e)"
  by (simp add: keeps_to_def talk_fail_def steady_refl)

lemma keeps_result: "keeps_to R (talk_result r)"
  by (simp add: talk_result_def keeps_talk_return keeps_fail split: sum.split)

lemma keeps_talk_bind:
  assumes "keeps_to R m" "\<And>a. keeps_to R (f a)"
  shows "keeps_to R (talk_bind m f)"
proof (rule keeps_toI)
  fix s
  obtain r t where m: "m s = (r, t)" by fastforce
  have step: "R s t" by (rule keeps_toD [OF assms(1) m])
  show "R s (snd (talk_bind m f s))"
  proof (cases r)
    case (Done a)
    obtain r' u where f: "f a t = (r', u)" by fastforce
    have "R t u" by (rule keeps_toD [OF assms(2) f])
    then show ?thesis using m Done f steady_trans [OF step] by (simp add: talk_bind_def)
  qed (use m step in \<open>simp_all add: talk_bind_def\<close>)
qed

lemma keeps_try: "keeps_to R m \<Longrightarrow> keeps_to R (talk_try m)"
  unfolding keeps_to_def talk_try_def by (auto split: prod.split outcome.split) (metis snd_conv)+

lemma keeps_context: "keeps_to R m \<Longrightarrow> keeps_to R (talk_context what m)"
  unfolding keeps_to_def talk_context_def by (auto split: prod.split outcome.split) (metis snd_conv)+

lemma keeps_error_for_status: "keeps_to R (error_for_status w r)"
  by (simp add: error_for_status_def keeps_talk_return keeps_fail)

lemma keeps_read_json: "keeps_to R (read_json w decode r)"
  by (simp add: read_json_def keeps_talk_return keeps_fail split: sum.split option.split)

lemmas keeps_basic = keeps_talk_return keeps_fail keeps_result keeps_talk_bind keeps_try keeps_context
  keeps_error_for_status keeps_read_json

end

text \<open>The calls a run adds to those made before, all of a kind.\<close>

definition adds_calls :: "(Call \<Rightarrow> bool) \<Rightarrow> Call list \<Rightarrow> Call list \<Rightarrow> bool"
  where "adds_calls P log log' \<longleftrightarrow> (\<exists>new. log' = log @ new \<and> list_all P new)"

interpretation calls: steady "adds_calls P" for P
proof
  show "adds_calls P log log" for log by (auto simp: adds_calls_def)
  show "adds_calls P log log' \<Longrightarrow> adds_calls P log' log'' \<Longrightarrow> adds_calls P log log''" for log log' log''
    by (fastforce simp: adds_calls_def)
qed

lemma calls_ask [keeps_rules]: "P c \<Longrightarrow> keeps_to (adds_calls P) (ask w c)"
  by (auto simp: keeps_to_def ask_def adds_calls_def talk_result_def talk_fail_def talk_return_def split: sum.split)

lemmas [keeps_rules] = calls.keeps_basic

lemma adds_calls_mono: "adds_calls P log log' \<Longrightarrow> (\<And>c. P c \<Longrightarrow> Q c) \<Longrightarrow> adds_calls Q log log'"
  by (auto simp: adds_calls_def list_all_iff)

text \<open>How a run of several parts ended.\<close>

lemma talk_bind_Done:
  assumes "talk_bind m f s = (Done b, u)"
  obtains a t where "m s = (Done a, t)" "f a t = (Done b, u)"
  using assms by (auto simp: talk_bind_def split: prod.splits outcome.splits)

lemma talk_bind_run:
  "m s = (Done a, t) \<Longrightarrow> talk_bind m f s = f a t"
  "m s = (Failed e, t) \<Longrightarrow> talk_bind m f s = (Failed e, t)"
  "m s = (Dropped, t) \<Longrightarrow> talk_bind m f s = (Dropped, t)"
  by (simp_all add: talk_bind_def)

lemma talk_try_Done: "talk_try m s = (Done (Ok a), t) \<longleftrightarrow> m s = (Done a, t)"
  "talk_try m s = (Done (Err e), t) \<longleftrightarrow> m s = (Failed e, t)"
  by (auto simp: talk_try_def split: prod.splits outcome.splits)

lemma talk_context_Done: "talk_context what m s = (Done a, t) \<longleftrightarrow> m s = (Done a, t)"
  by (auto simp: talk_context_def split: prod.splits outcome.splits)

lemma talk_simps [simp]:
  "talk_return a s = (Done b, t) \<longleftrightarrow> a = b \<and> s = t" "talk_fail e s \<noteq> (Done b, t)"
  "talk_result r s = (Done b, t) \<longleftrightarrow> r = Ok b \<and> s = t"
  by (auto simp: talk_return_def talk_fail_def talk_result_def split: sum.split)

end
