(* ===== verification/Public_Reason.thy ===== *)
theory Public_Reason
  imports Network
begin

text \<open>
  What the tenant of a tunnel is told when a certificate could not be issued (\<open>public_reason\<close>): one of a few fixed sentences,
  whatever the servers along the way answered, and of the same kind as the full error.
\<close>

section \<open>Searching in text\<close>

lemma contains_str_iff: "contains_str s n \<longleftrightarrow> (\<exists>u v. s = u @ n @ v)"
proof (induction s)
  case Nil
  then show ?case by (auto simp: contains_str.simps [of "[]"] strip_prefix_eq_None)
next
  case (Cons c s)
  have "contains_str (c # s) n \<longleftrightarrow> (\<exists>v. c # s = n @ v) \<or> contains_str s n"
    by (auto simp: contains_str.simps [of "c # s"] strip_prefix_eq_None)
  also have "\<dots> \<longleftrightarrow> (\<exists>u v. c # s = u @ n @ v)"
    unfolding Cons.IH by (metis append_Cons append_Nil neq_Nil_conv list.inject)
  finally show ?case .
qed

lemma contains_before_digits:
  assumes "contains_str (p @ ds) n" "list_all is_ascii_digit ds" "list_all (\<lambda>c. \<not> is_ascii_digit c) n"
  shows "contains_str p n"
proof -
  obtain u v where s: "p @ ds = (u @ n) @ v" using assms(1) by (auto simp: contains_str_iff)
  show ?thesis
  proof (cases "length (u @ n) \<le> length p")
    case True
    then obtain w where "p = (u @ n) @ w" using s by (metis append_eq_append_conv_if append_take_drop_id)
    then show ?thesis by (auto simp: contains_str_iff)
  next
    case False
    define x where "x = u @ n"
    define w where "w = drop (length p) x"
    have "p @ ds = x @ v" "length p < length x" using False s by (simp_all add: x_def)
    then have w: "u @ n = p @ w" "ds = w @ v" "w \<noteq> []"
      unfolding x_def [symmetric] w_def by (auto simp: append_eq_append_conv_if split: if_splits) (metis append_take_drop_id)
    have "n = [] \<or> last n = last w" using w by (metis last_appendR)
    moreover have "is_ascii_digit (last w)" using w assms(2) by (simp add: list_all_iff)
    ultimately have "n = []" using assms(3) by (metis last_in_set list_all_iff)
    then show ?thesis by (auto simp: contains_str_iff)
  qed
qed

lemma contains_shorter: "contains_str s (n @ m) \<Longrightarrow> contains_str s n"
  by (auto simp: contains_str_iff)

lemma after_each_iff: "rest \<in> set (after_each n s) \<longleftrightarrow> (\<exists>u. s = u @ n @ rest)"
proof (induction s)
  case Nil
  show ?case
  proof (cases "strip_prefix [] n")
    case (Some r)
    then have "n = []" "r = []" by (simp_all add: strip_prefix_Some)
    with Some show ?thesis by auto
  next
    case None
    then have "n \<noteq> []" by (auto simp: strip_prefix_eq_None)
    with None show ?thesis by auto
  qed
next
  case (Cons c s)
  have "rest \<in> set (after_each n (c # s)) \<longleftrightarrow> c # s = n @ rest \<or> rest \<in> set (after_each n s)"
    by (auto simp: strip_prefix_Some split: option.splits)
  also have "\<dots> \<longleftrightarrow> (\<exists>u. c # s = u @ n @ rest)"
    unfolding Cons.IH by (metis append_Cons append_Nil neq_Nil_conv list.inject)
  finally show ?case .
qed

definition ANSWERED :: string
  where "ANSWERED = PUBLIC_PREFIX @ ''the certificate authority answered HTTP ''"

lemma three_digits_cases:
  assumes "three_digits s"
  obtains a b c where "take 3 s = [a, b, c]" "list_all is_ascii_digit [a, b, c]"
proof -
  have n: "length (filter is_ascii_digit (take 3 s)) = 3" using assms by (simp add: three_digits_def)
  define t where "t = take 3 s"
  have "length t = Suc (Suc (Suc 0))" using n length_filter_le [of is_ascii_digit t] by (simp add: t_def)
  then obtain a b c where t: "take 3 s = [a, b, c]" by (auto simp: length_Suc_conv t_def [symmetric])
  moreover have "list_all is_ascii_digit [a, b, c]" using n t by (auto split: if_splits)
  ultimately show thesis using that by blast
qed

lemma digit_lower: "list_all is_ascii_digit ds \<Longrightarrow> to_ascii_lowercase ds = ds"
  by (induction ds) (auto simp: lower_char_def is_ascii_digit_def is_ascii_uppercase_def)

lemma show_nat_three:
  assumes "100 \<le> n" "n \<le> 999"
  obtains a b c where "show_nat n = [a, b, c]" "list_all is_ascii_digit [a, b, c]"
proof -
  have "\<not> n div 10 < 10" using div_le_mono [of 100 n 10] assms by simp
  moreover have "n div 10 div 10 < 10"
    using less_mult_imp_div_less [of n 10 100] assms by (simp add: div_mult2_eq [of n 10 10, symmetric])
  ultimately have "show_nat n = [digit_char (n div 10 div 10), digit_char (n div 10 mod 10), digit_char (n mod 10)]"
    using assms by (simp add: show_nat.simps [of n] show_nat.simps [of "n div 10"] show_nat.simps [of "n div 10 div 10"])
  moreover have "list_all is_ascii_digit (show_nat n)" using show_nat_digits by (auto simp: list_all_iff)
  ultimately show thesis using that by metis
qed

section \<open>The sentence with a status\<close>

lemma ANSWERED_plain:
  "list_all (\<lambda>c. \<not> is_ascii_digit c) (to_ascii_lowercase ANSWERED)"
  "\<not> contains_str ANSWERED ''required''" "\<not> contains_str ANSWERED ''not a P-''"
  "\<not> contains_str (to_ascii_lowercase ANSWERED) ''ratelimited''" "\<not> contains_str ANSWERED ''DNS''"
  "\<not> contains_str ANSWERED ''authorization''" "\<not> contains_str ANSWERED ''dns-''" "\<not> contains_str ANSWERED ''ACME order''"
  "\<not> contains_str ANSWERED ''finalize''" "\<not> contains_str ANSWERED ''persist certificate state''"
  by code_simp+

lemma status_429_last:
  assumes "contains_str (p @ ds) (''http '' @ ''429'')" "list_all (\<lambda>c. \<not> is_ascii_digit c) p" "length ds = 3"
  shows "ds = ''429''"
proof -
  have four: "is_ascii_digit CHR ''4''" by code_simp
  obtain u v where "p @ ds = (u @ ''http '') @ (''429'' @ v)" using assms(1) by (auto simp: contains_str_iff)
  then obtain us where "p = (u @ ''http '') @ us \<and> us @ ds = ''429'' @ v \<or> p @ us = u @ ''http '' \<and> ds = us @ ''429'' @ v"
    using append_eq_append_conv2 [of p ds "u @ ''http ''" "''429'' @ v"] by blast
  then show ?thesis
  proof
    assume c: "p = (u @ ''http '') @ us \<and> us @ ds = ''429'' @ v"
    have "us = []"
      using c assms(2) four by (cases us) auto
    with c assms(3) show ?thesis by (cases v) auto
  next
    assume "p @ us = u @ ''http '' \<and> ds = us @ ''429'' @ v"
    with assms(3) show ?thesis by (cases us; cases v) auto
  qed
qed

lemma answered_kind:
  assumes "list_all is_ascii_digit ds" "length ds = 3" "ds \<noteq> ''429''"
  shows "certificate_failure (ANSWERED @ ds) = ''acme_http''"
proof -
  have plain: "\<not> contains_str (ANSWERED @ ds) n"
    if "\<not> contains_str ANSWERED m" "list_all (\<lambda>c. \<not> is_ascii_digit c) m" "n = m @ k" for n m k
    using that contains_before_digits [OF _ assms(1)] contains_shorter by blast
  have low: "to_ascii_lowercase (ANSWERED @ ds) = to_ascii_lowercase ANSWERED @ ds"
    using assms(1) by (simp add: digit_lower)
  have "\<not> contains_str (to_ascii_lowercase ANSWERED @ ds) ''http 429''"
    using status_429_last [OF _ ANSWERED_plain(1) assms(2)] assms(3) by auto
  moreover have "\<not> contains_str (to_ascii_lowercase ANSWERED @ ds) ''ratelimited''"
  proof -
    have "list_all (\<lambda>c. \<not> is_ascii_digit c) ''ratelimited''" by code_simp
    then show ?thesis using contains_before_digits [OF _ assms(1)] ANSWERED_plain(4) by blast
  qed
  moreover have "\<not> contains_str (ANSWERED @ ds) ''required''" "\<not> contains_str (ANSWERED @ ds) ''DNS''"
      "\<not> contains_str (ANSWERED @ ds) ''authorization''" "\<not> contains_str (ANSWERED @ ds) ''ACME order''"
      "\<not> contains_str (ANSWERED @ ds) ''finalize''" "\<not> contains_str (ANSWERED @ ds) ''persist certificate state''"
    by (rule plain [OF _ _ append_Nil2 [symmetric]], (rule ANSWERED_plain), code_simp)+
  moreover have "\<not> contains_str (ANSWERED @ ds) ''not a P-256''" "\<not> contains_str (ANSWERED @ ds) ''dns-01''"
  proof -
    show "\<not> contains_str (ANSWERED @ ds) ''not a P-256''" by (rule plain [OF ANSWERED_plain(3), of _ "''256''"]) (code_simp, simp)
    show "\<not> contains_str (ANSWERED @ ds) ''dns-01''" by (rule plain [OF ANSWERED_plain(7), of _ "''01''"]) (code_simp, simp)
  qed
  moreover have "http_status (ANSWERED @ ds)"
  proof -
    have "ds \<in> set (after_each ''HTTP '' (ANSWERED @ ds))"
      unfolding after_each_iff ANSWERED_def by (intro exI [of _ "PUBLIC_PREFIX @ ''the certificate authority answered ''"]) simp
    moreover have "three_digits ds" using assms by (simp add: three_digits_def list_all_iff)
    ultimately show ?thesis by (auto simp: http_status_def list_ex_iff)
  qed
  ultimately show ?thesis unfolding certificate_failure_def Let_def low by simp
qed

section \<open>The sentences\<close>

text \<open>The fixed sentences, by the kind of the full error.\<close>

definition SENTENCES :: "(string \<times> string) list"
  where "SENTENCES = [
    (''config'', ''the server'' @ [CHR 0x27] @ ''s ACME settings are required but missing''),
    (''acme_rate_limit'', ''the certificate authority rateLimited the request (HTTP 429)''),
    (''dns'', ''the DNS challenge record could not be set''),
    (''acme_authorization'', ''the certificate authority did not validate the authorization''),
    (''acme_order'', ''the ACME order did not complete''),
    (''persist'', ''Failed to persist certificate state'')]"

definition CLASSES :: "string list"
  where "CLASSES = [''network'', ''timeout'', ''http_5xx'', ''http_429'', ''bad_body'', ''nonce'', ''bad_nonce'',
    ''authz_pending'', ''dns'', ''rejected'', ''other'']"

definition unusable :: "string \<Rightarrow> string"
  where "unusable c = ''the certificate authority could not be used ('' @ c @ '')''"

lemma sentences_kind: "list_all (\<lambda>(k, t). certificate_failure (PUBLIC_PREFIX @ t) = k) SENTENCES"
  by code_simp

lemma unusable_kind: "list_all (\<lambda>c. certificate_failure (PUBLIC_PREFIX @ unusable c) = ''other'') CLASSES"
  by code_simp

lemma message_class_known: "message_class s \<in> set CLASSES"
  by (simp add: message_class_def CLASSES_def)

lemma status_class_known: "status_class n \<in> set CLASSES"
  by (simp add: status_class_def CLASSES_def)

lemma problem_class_known: "problem_class n k \<in> set CLASSES"
  using status_class_known [of n] by (auto simp: problem_class_def CLASSES_def Let_def)

lemma chain_class_known: "chain_class cs = Some c \<Longrightarrow> c \<in> set CLASSES"
proof (induction cs)
  case (Cons x xs)
  then show ?case
    using status_class_known problem_class_known message_class_known
    by (auto split: Cause.splits if_splits option.splits) (auto simp: CLASSES_def)
qed simp

lemma error_class_known: "error_class e \<in> set CLASSES"
proof -
  have "''dns'' \<in> set CLASSES" by (simp add: CLASSES_def)
  then show ?thesis using chain_class_known message_class_known by (auto simp: error_class_def split: option.split)
qed

text \<open>The kinds of a full error.\<close>

lemma certificate_failure_kinds:
  "certificate_failure s \<in> set (map fst SENTENCES) \<or> certificate_failure s = ''acme_http'' \<or> certificate_failure s = ''other''"
  by (simp add: certificate_failure_def SENTENCES_def Let_def)

text \<open>The three digits in the sentence about a status: those of the status in the error's causes, or the first that are spelled in it.\<close>

lemma public_reason_http:
  assumes "certificate_failure (message e) = ''acme_http''"
    and "\<And>st. chain_status (chain e) = Some st \<Longrightarrow> 100 \<le> st \<and> st \<le> 999 \<and> st \<noteq> 429"
  obtains ds where "public_reason e = ANSWERED @ ds" "list_all is_ascii_digit ds" "length ds = 3" "ds \<noteq> ''429''"
proof (cases "chain_status (chain e)")
  case (Some st)
  then have st: "100 \<le> st" "st \<le> 999" "st \<noteq> 429" using assms(2) by auto
  obtain a b c where ds: "show_nat st = [a, b, c]" "list_all is_ascii_digit [a, b, c]" using show_nat_three st by blast
  have "parse_unsigned 999 (show_nat st) \<noteq> parse_unsigned 999 (show_nat 429)"
    using st by (simp add: parse_unsigned_show_nat)
  moreover have "show_nat 429 = ''429''" by code_simp
  ultimately have "show_nat st \<noteq> ''429''" by metis
  then show thesis using that [of "show_nat st"] ds Some assms(1) by (simp add: public_reason_def ANSWERED_def Let_def)
next
  case None
  have "http_status (message e)" using assms(1) by (simp add: certificate_failure_def Let_def split: if_splits)
  then obtain rest more_rests where f: "filter three_digits (after_each ''HTTP '' (message e)) = rest # more_rests"
    unfolding http_status_def list_ex_iff by (metis filter_empty_conv neq_Nil_conv)
  then have "rest \<in> set (filter three_digits (after_each ''HTTP '' (message e)))" by simp
  then have rest: "three_digits rest" "rest \<in> set (after_each ''HTTP '' (message e))" by simp_all
  from rest(1) obtain a b c where ds: "take 3 rest = [a, b, c]" "list_all is_ascii_digit [a, b, c]" by (rule three_digits_cases)
  obtain u where u: "message e = u @ ''HTTP '' @ rest" using rest(2) unfolding after_each_iff by blast
  have "take 3 rest \<noteq> ''429''"
  proof
    assume "take 3 rest = ''429''"
    then have "message e = u @ ''HTTP '' @ ''429'' @ drop 3 rest" using u by (metis append_assoc append_take_drop_id)
    moreover have "to_ascii_lowercase (''HTTP '' @ ''429'') = ''http 429''" by code_simp
    ultimately have "contains_str (to_ascii_lowercase (message e)) ''http 429''"
      unfolding contains_str_iff by (metis append_assoc to_ascii_lowercase_append)
    then show False using assms(1) by (simp add: certificate_failure_def Let_def split: if_splits)
  qed
  then show thesis using that [of "take 3 rest"] ds None f assms(1) by (simp add: public_reason_def ANSWERED_def Let_def)
qed

lemma public_reason_fixed:
  assumes "(certificate_failure (message e), t) \<in> set SENTENCES"
  shows "public_reason e = PUBLIC_PREFIX @ t"
  using assms unfolding SENTENCES_def list.set insert_iff prod.inject empty_iff
  by (elim disjE conjE) (simp_all add: public_reason_def)

lemma public_reason_other:
  "certificate_failure (message e) = ''other'' \<Longrightarrow> public_reason e = PUBLIC_PREFIX @ unusable (error_class e)"
  by (simp add: public_reason_def unusable_def Let_def)

text \<open>The texts a tenant can be told.\<close>

definition public_text :: "string \<Rightarrow> bool"
  where "public_text s \<longleftrightarrow> (\<exists>t \<in> snd ` set SENTENCES. s = PUBLIC_PREFIX @ t) \<or> (\<exists>c \<in> set CLASSES. s = PUBLIC_PREFIX @ unusable c) \<or>
    (\<exists>ds. length ds = 3 \<and> list_all is_ascii_digit ds \<and> s = ANSWERED @ ds)"

text \<open>C26. What a tenant is told of a failed issuance is one of a few fixed texts, with at most three digits or the class of the error
  filled in, whatever the servers along the way answered; and it is counted as the same kind of failure as the full error. The status in
  the causes of an error has three digits, and an error whose status is 429 is told apart as a rate limit by its text.\<close>

theorem tenant_told_the_kind:
  assumes "\<forall>st. chain_status (chain e) = Some st \<longrightarrow> 100 \<le> st \<and> st \<le> 999 \<and>
    (st = 429 \<longrightarrow> certificate_failure (message e) \<noteq> ''acme_http'')"
  shows "public_text (public_reason e) \<and> certificate_failure (public_reason e) = certificate_failure (message e)"
proof -
  consider (fixed) t where "(certificate_failure (message e), t) \<in> set SENTENCES"
    | (status) "certificate_failure (message e) = ''acme_http''" | (other) "certificate_failure (message e) = ''other''"
    using certificate_failure_kinds [of "message e"] by fastforce
  then show ?thesis
  proof cases
    case fixed
    then have "certificate_failure (PUBLIC_PREFIX @ t) = certificate_failure (message e)"
      using sentences_kind by (auto simp: list_all_iff)
    moreover have "t \<in> snd ` set SENTENCES" using fixed by force
    ultimately show ?thesis using public_reason_fixed [OF fixed] by (auto simp: public_text_def)
  next
    case status
    then obtain ds where "public_reason e = ANSWERED @ ds" "list_all is_ascii_digit ds" "length ds = 3" "ds \<noteq> ''429''"
      using public_reason_http assms by metis
    then show ?thesis using answered_kind status by (auto simp: public_text_def)
  next
    case other
    then show ?thesis
      using public_reason_other unusable_kind error_class_known [of e] by (auto simp: public_text_def list_all_iff)
  qed
qed

definition example_problem :: Failure
  where "example_problem = \<lparr>chain = [Problem_cause \<lparr>kind = ''urn:ietf:params:acme:error:malformed'', problem_status = 400, retry_after = None\<rparr>],
    message = ''malformed: <secret> | HTTP 400 | <secret>'', stopped = False\<rparr>"

theorem tenant_told_the_kind_witness:
  "chain_status (chain example_problem) = Some 400 \<and> public_text (public_reason example_problem) \<and>
   certificate_failure (public_reason example_problem) = certificate_failure (message example_problem)"
proof -
  have "chain_status (chain example_problem) = Some 400" by (simp add: example_problem_def)
  then show ?thesis using tenant_told_the_kind [of example_problem] by simp
qed

end
