(* ===== verification/Dns.thy ===== *)
theory Dns
  imports Network Websocket
begin

text \<open>
  Challenge records in the DNS (\<^verbatim>\<open>opentunnel-server/src/dns.rs\<close>): creating, finding and deleting them with
  each provider, the sweep of leftover records, and waiting until resolvers see them. The JSON decoders
  that serde derives are parameters, pauses are left out.
\<close>

section \<open>Data\<close>

text \<open>Cloudflare with its address, zone and token, the test server's address, or a hook.\<close>

datatype DnsProvider =
  Cloudflare string string string
| ChallTestSrv string
| Exec string

record TxtRecord =
  txt_name :: string
  txt_value :: string
  txt_id :: "string option"

record Listed =
  listed_id :: string
  listed_name :: string
  content :: string
  created_on :: string

text \<open>The answer to a creation: success, the id, and the code and message of each error.\<close>

record Creation =
  created_ok :: bool
  created_id :: "string option"
  created_errors :: "(nat \<times> string) list"

record DnsCodec =
  read_creation :: "bytes \<Rightarrow> Creation option"
  read_found :: "bytes \<Rightarrow> Listed list option option"
  read_page :: "bytes \<Rightarrow> (Listed list \<times> nat) option"
  read_answers :: "bytes \<Rightarrow> (nat \<times> (nat \<times> string) list) option"
  parse_time :: "string \<Rightarrow> nat option"

definition HOOK_STDERR_LIMIT :: nat where "HOOK_STDERR_LIMIT = 500"
definition DELETE_TRIES :: nat where "DELETE_TRIES = 4"
definition SWEEP_PAGE :: nat where "SWEEP_PAGE = 500"
definition CLOUDFLARE_IDENTICAL_RECORD :: nat where "CLOUDFLARE_IDENTICAL_RECORD = 81058"

definition trim_quotes :: "string \<Rightarrow> string"
  where "trim_quotes s = rev (dropWhile (\<lambda>c. c = CHR 0x22) (rev (dropWhile (\<lambda>c. c = CHR 0x22) s)))"

section \<open>Hooks\<close>

text \<open>The first character boundary from \<open>i\<close> on.\<close>

fun char_ceil :: "string \<Rightarrow> nat \<Rightarrow> nat \<Rightarrow> nat" where
  "char_ceil s i 0 = i"
| "char_ceil s i (Suc fuel) = (if is_char_boundary s i then i else char_ceil s (Suc i) fuel)"

text \<open>The reply to a hook has its exit status and what it wrote to its standard error.\<close>

definition run_hook :: "Outside \<Rightarrow> string \<Rightarrow> string \<Rightarrow> string \<Rightarrow> string \<Rightarrow> unit talk"
  where "run_hook w hook action name v =
    talk_bind (ask w (Hook_call hook action name v)) (\<lambda>r.
      if reply_status r = 0 then talk_return ()
      else
        let errors = trim (case reply_body r of Inl _ \<Rightarrow> [] | Inr body \<Rightarrow> from_utf8_lossy body);
            at = char_ceil errors (length errors - HOOK_STDERR_LIMIT) (length errors);
            errors = drop at errors;
            what = ''DNS hook '' @ action @ '' failed: '' @ exit_text w (reply_status r)
        in talk_fail (failure (if errors = [] then what else what @ '': '' @ errors)))"

section \<open>Records\<close>

definition records_url :: "string \<Rightarrow> string \<Rightarrow> string"
  where "records_url api zone = api @ ''/zones/'' @ zone @ ''/dns_records''"

definition find_txt :: "Outside \<Rightarrow> DnsCodec \<Rightarrow> DnsProvider \<Rightarrow> string \<Rightarrow> string \<Rightarrow> string option talk"
  where "find_txt w codec provider name v =
    (case provider of
       Cloudflare api zone token \<Rightarrow>
         if \<not> url_ok w (records_url api zone) then talk_fail (failure ''invalid URL'')
         else
           talk_bind (ask w (Http_call GET (records_url api zone) [(''type'', ''TXT''), (''name'', name)] None)) (\<lambda>r.
           talk_bind (error_for_status w r) (\<lambda>r.
           talk_bind (read_json w (read_found codec) r) (\<lambda>found.
             talk_return (map_option listed_id
               (List.find (\<lambda>l. trim_quotes (content l) = v) (case found of Some ls \<Rightarrow> ls | None \<Rightarrow> []))))))
     | _ \<Rightarrow> talk_return None)"

definition txt_record :: "string \<Rightarrow> string \<Rightarrow> string option \<Rightarrow> TxtRecord"
  where "txt_record name v i = \<lparr>txt_name = name, txt_value = v, txt_id = i\<rparr>"

text \<open>An id that could not be looked up is not known.\<close>

definition or_none :: "'a option talk \<Rightarrow> 'a option talk"
  where "or_none m = talk_bind (talk_try m) (\<lambda>r. talk_return (case r of Inl _ \<Rightarrow> None | Inr i \<Rightarrow> i))"

definition identical_record :: "Creation \<Rightarrow> bool"
  where "identical_record body \<longleftrightarrow>
    list_ex (\<lambda>(code, m). code = CLOUDFLARE_IDENTICAL_RECORD \<or> contains_str m ''identical record already exists'')
      (created_errors body)"

definition create_txt :: "Outside \<Rightarrow> DnsCodec \<Rightarrow> DnsProvider \<Rightarrow> string \<Rightarrow> string \<Rightarrow> TxtRecord talk"
  where "create_txt w codec provider name v =
    (case provider of
       Cloudflare api zone token \<Rightarrow>
         talk_bind (ask w (Http_call POST (records_url api zone) []
           (Some (JObject [(''type'', JString ''TXT''), (''name'', JString name), (''content'', JString v),
             (''ttl'', JNumber 60)])))) (\<lambda>r.
         talk_bind (talk_try (read_json w (read_creation codec) r)) (\<lambda>decoded.
           case decoded of
             Inl _ \<Rightarrow> talk_fail (failure ''DNS record creation failed'')
           | Inr body \<Rightarrow>
               if created_id body \<noteq> None \<and> is_success (reply_status r) \<and> created_ok body
               then talk_return (txt_record name v (created_id body))
               else if identical_record body
               then talk_bind (or_none (find_txt w codec provider name v)) (\<lambda>i. talk_return (txt_record name v i))
               else
                 let messages = filter (\<lambda>m. m \<noteq> []) (map snd (created_errors body)) in
                 talk_fail (failure (if messages = [] then ''DNS record creation failed'' else join '', '' messages))))
     | ChallTestSrv url \<Rightarrow>
         talk_bind (ask w (Http_call POST (url @ ''/set-txt'') []
           (Some (JObject [(''host'', JString (name @ ''.'')), (''value'', JString v)])))) (\<lambda>r.
           if \<not> is_success (reply_status r)
           then talk_fail (failure (''DNS record creation failed: HTTP '' @ show_nat (reply_status r)))
           else talk_return (txt_record name v None))
     | Exec hook \<Rightarrow>
         talk_bind (run_hook w hook ''create'' name v) (\<lambda>_. talk_return (txt_record name v None)))"

text \<open>The tries that are left and what came of the last one.\<close>

definition record_url :: "string \<Rightarrow> string \<Rightarrow> string \<Rightarrow> string"
  where "record_url api zone i = records_url api zone @ ''/'' @ i"

fun delete_tries :: "Outside \<Rightarrow> string \<Rightarrow> string \<Rightarrow> nat \<Rightarrow> string \<Rightarrow> unit talk" where
  "delete_tries w url i 0 why = talk_fail (failure (''deleting DNS record '' @ i @ '' failed: '' @ why))"
| "delete_tries w url i (Suc n) why =
     talk_bind (talk_try (ask w (Http_call DELETE url [] None))) (\<lambda>answer.
       case answer of
         Inl e \<Rightarrow> delete_tries w url i n (message e)
       | Inr r \<Rightarrow>
           if is_success (reply_status r) \<or> reply_status r = 404 then talk_return ()
           else if reply_status r = 429 \<or> is_server_error (reply_status r)
           then delete_tries w url i n (''HTTP '' @ show_nat (reply_status r))
           else delete_tries w url i 0 (''HTTP '' @ show_nat (reply_status r)))"

definition delete_id :: "Outside \<Rightarrow> DnsProvider \<Rightarrow> string \<Rightarrow> unit talk"
  where "delete_id w provider i =
    (case provider of
       Cloudflare api zone token \<Rightarrow> delete_tries w (record_url api zone i) i DELETE_TRIES []
     | _ \<Rightarrow> talk_return ())"

definition remove_txt :: "Outside \<Rightarrow> DnsCodec \<Rightarrow> DnsProvider \<Rightarrow> TxtRecord \<Rightarrow> unit talk"
  where "remove_txt w codec provider record =
    (case provider of
       Cloudflare api zone token \<Rightarrow>
         talk_bind (case txt_id record of
             Some i \<Rightarrow> talk_return (Some i)
           | None \<Rightarrow> or_none (find_txt w codec provider (txt_name record) (txt_value record))) (\<lambda>i.
           case i of Some i \<Rightarrow> delete_id w provider i | None \<Rightarrow> talk_return ())
     | ChallTestSrv url \<Rightarrow>
         talk_bind (ask w (Http_call POST (url @ ''/clear-txt'') []
           (Some (JObject [(''host'', JString (txt_name record @ ''.''))])))) (\<lambda>r.
         talk_bind (error_for_status w r) (\<lambda>_. talk_return ()))
     | Exec hook \<Rightarrow> run_hook w hook ''delete'' (txt_name record) (txt_value record))"

definition delete_txt :: "Outside \<Rightarrow> DnsCodec \<Rightarrow> DnsProvider \<Rightarrow> TxtRecord \<Rightarrow> bool talk"
  where "delete_txt w codec provider record =
    talk_bind (talk_try (remove_txt w codec provider record)) (\<lambda>deleted.
      talk_return (case deleted of Inl _ \<Rightarrow> False | Inr _ \<Rightarrow> True))"

section \<open>The sweep\<close>

function (sequential) challenge_pages :: "Outside \<Rightarrow> DnsCodec \<Rightarrow> string \<Rightarrow> nat \<Rightarrow> Listed list \<Rightarrow> Listed list talk" where
  "challenge_pages w codec url page records =
     (if \<not> url_ok w url then talk_fail (failure ''invalid URL'')
      else
        talk_bind (ask w (Http_call GET url [(''type'', ''TXT''), (''name.startswith'', ''_acme-challenge.''),
          (''per_page'', show_nat SWEEP_PAGE), (''page'', show_nat page)] None)) (\<lambda>r.
        talk_bind (error_for_status w r) (\<lambda>r.
        talk_bind (read_json w (read_page codec) r) (\<lambda>(ls, total_pages).
          if ls = [] \<or> max total_pages 1 \<le> page \<or> 1000 \<le> page then talk_return (records @ ls)
          else challenge_pages w codec url (Suc page) (records @ ls)))))"
  by pat_completeness auto
termination by (relation "measure (\<lambda>(w, codec, url, page, records). 1000 - page)") auto

declare challenge_pages.simps [simp del]

definition challenge_records :: "Outside \<Rightarrow> DnsCodec \<Rightarrow> DnsProvider \<Rightarrow> Listed list option talk"
  where "challenge_records w codec provider =
    (case provider of
       Cloudflare api zone token \<Rightarrow>
         talk_bind (challenge_pages w codec (records_url api zone) 1 []) (\<lambda>ls. talk_return (Some ls))
     | _ \<Rightarrow> talk_return None)"

definition challenge_value :: "string \<Rightarrow> bool"
  where "challenge_value v \<longleftrightarrow> length v = 43 \<and>
    list_all (\<lambda>c. is_ascii_digit c \<or> is_ascii_lowercase c \<or> is_ascii_uppercase c \<or> c = CHR ''-'' \<or> c = CHR ''_'') v"

text \<open>A record as issuance makes them, for a name of the domain.\<close>

definition ours :: "string \<Rightarrow> Listed \<Rightarrow> bool"
  where "ours served l \<longleftrightarrow>
    (let name = to_ascii_lowercase (listed_name l) in
     strip_prefix name ''_acme-challenge.'' \<noteq> None \<and>
     (strip_suffix name (CHR ''.'' # served) \<noteq> None \<or> name = ''_acme-challenge.'' @ served) \<and>
     challenge_value (trim_quotes (content l)))"

definition old_record :: "DnsCodec \<Rightarrow> nat \<Rightarrow> Listed \<Rightarrow> bool"
  where "old_record codec before l \<longleftrightarrow> (case parse_time codec (created_on l) of Some at \<Rightarrow> at < before | None \<Rightarrow> False)"

fun sweep_each :: "Outside \<Rightarrow> DnsCodec \<Rightarrow> DnsProvider \<Rightarrow> string \<Rightarrow> nat \<Rightarrow> string list \<Rightarrow> nat \<Rightarrow> nat \<Rightarrow> Listed list \<Rightarrow> nat talk" where
  "sweep_each w codec provider served before in_flight limit swept [] = talk_return swept"
| "sweep_each w codec provider served before in_flight limit swept (l # ls) =
     (if limit \<le> swept then talk_return swept
      else if \<not> ours served l \<or> \<not> old_record codec before l \<or> List.member in_flight (to_ascii_lowercase (listed_name l))
      then sweep_each w codec provider served before in_flight limit swept ls
      else
        talk_bind (talk_try (delete_id w provider (listed_id l))) (\<lambda>deleted.
          case deleted of
            Inl _ \<Rightarrow> talk_return swept
          | Inr _ \<Rightarrow> sweep_each w codec provider served before in_flight limit (Suc swept) ls))"

definition sweep :: "Outside \<Rightarrow> DnsCodec \<Rightarrow> DnsProvider \<Rightarrow> string \<Rightarrow> nat \<Rightarrow> string list \<Rightarrow> nat \<Rightarrow> nat talk"
  where "sweep w codec provider served before in_flight limit =
    talk_bind (challenge_records w codec provider) (\<lambda>records.
      case records of
        None \<Rightarrow> talk_return 0
      | Some ls \<Rightarrow> sweep_each w codec provider served before in_flight limit 0 ls)"

section \<open>Waiting for resolvers\<close>

definition RESOLVERS :: "string list"
  where "RESOLVERS = [''https://cloudflare-dns.com/dns-query'', ''https://dns.google/resolve'']"

definition sees :: "DnsCodec \<Rightarrow> TxtRecord \<Rightarrow> bytes \<Rightarrow> bool"
  where "sees codec record body =
    (case read_answers codec body of
       Some (0, answers) \<Rightarrow> list_ex (\<lambda>(k, d). k = 16 \<and> trim_quotes d = txt_value record) answers
     | _ \<Rightarrow> False)"

fun resolvers_see :: "Outside \<Rightarrow> DnsCodec \<Rightarrow> TxtRecord \<Rightarrow> string list \<Rightarrow> bool talk" where
  "resolvers_see w codec record [] = talk_return False"
| "resolvers_see w codec record (resolver # rest) =
     (if \<not> url_ok w resolver then resolvers_see w codec record rest
      else
        talk_bind (talk_try (ask w (Http_call GET resolver [(''name'', txt_name record), (''type'', ''TXT'')] None))) (\<lambda>answer.
          if (case answer of Inr r \<Rightarrow> (case reply_body r of Inr body \<Rightarrow> sees codec record body | Inl _ \<Rightarrow> False) | Inl _ \<Rightarrow> False)
          then talk_return True
          else resolvers_see w codec record rest))"

fun all_visible :: "Outside \<Rightarrow> DnsCodec \<Rightarrow> TxtRecord list \<Rightarrow> bool talk" where
  "all_visible w codec [] = talk_return True"
| "all_visible w codec (record # rest) =
     talk_bind (resolvers_see w codec record RESOLVERS) (\<lambda>seen.
       if seen then all_visible w codec rest else talk_return False)"

text \<open>\<open>rounds\<close> is how many times the records are looked up before the timeout has passed.\<close>

fun wait_rounds :: "Outside \<Rightarrow> DnsCodec \<Rightarrow> TxtRecord list \<Rightarrow> nat \<Rightarrow> unit talk" where
  "wait_rounds w codec records 0 = talk_return ()"
| "wait_rounds w codec records (Suc rounds) =
     talk_bind (all_visible w codec records) (\<lambda>visible.
       if visible then talk_return () else wait_rounds w codec records rounds)"

definition wait_for_propagation :: "Outside \<Rightarrow> DnsCodec \<Rightarrow> TxtRecord list \<Rightarrow> nat \<Rightarrow> unit talk"
  where "wait_for_propagation w codec records rounds =
    (if records = [] then talk_return () else wait_rounds w codec records rounds)"

section \<open>The calls they make\<close>

fun plain_call :: "Call \<Rightarrow> bool" where
  "plain_call (Signed_call _ _ _ _) = False"
| "plain_call _ = True"

text \<open>A call that removes a record.\<close>

fun is_delete :: "DnsProvider \<Rightarrow> Call \<Rightarrow> bool" where
  "is_delete (Cloudflare _ _ _) c = (case c of Http_call DELETE _ _ _ \<Rightarrow> True | _ \<Rightarrow> False)"
| "is_delete (ChallTestSrv url) c = (case c of Http_call POST u _ _ \<Rightarrow> u = url @ ''/clear-txt'' | _ \<Rightarrow> False)"
| "is_delete (Exec hook) c = (case c of Hook_call h action _ _ \<Rightarrow> h = hook \<and> action = ''delete'' | _ \<Rightarrow> False)"

definition harmless :: "DnsProvider \<Rightarrow> Call \<Rightarrow> bool"
  where "harmless provider c \<longleftrightarrow> plain_call c \<and> \<not> is_delete provider c"

lemma harmless_get: "harmless provider (Http_call GET url q b)"
  by (cases provider) (simp_all add: harmless_def)

lemma run_hook_calls [keeps_rules]: "P (Hook_call hook action name v) \<Longrightarrow> keeps_to (adds_calls P) (run_hook w hook action name v)"
  by (auto simp: run_hook_def Let_def intro!: keeps_rules)

lemma find_txt_calls [keeps_rules]:
  "(\<And>url q. P (Http_call GET url q None)) \<Longrightarrow> keeps_to (adds_calls P) (find_txt w codec provider name v)"
  by (cases provider) (auto simp: find_txt_def intro!: keeps_rules)

lemma or_none_calls [keeps_rules]: "keeps_to (adds_calls P) m \<Longrightarrow> keeps_to (adds_calls P) (or_none m)"
  unfolding or_none_def by (intro keeps_rules)

lemma create_txt_calls: "keeps_to (adds_calls (harmless provider)) (create_txt w codec provider name v)"
proof (cases provider)
  case (Cloudflare api zone token)
  then show ?thesis
    by (auto simp: create_txt_def harmless_def Let_def harmless_get intro!: keeps_rules split: sum.split)
qed (auto simp: create_txt_def harmless_def intro!: keeps_rules)

lemma delete_tries_calls:
  "P (Http_call DELETE url [] None) \<Longrightarrow> keeps_to (adds_calls P) (delete_tries w url i n why)"
  by (induction n arbitrary: why) (auto intro!: keeps_rules split: sum.split)

lemma delete_id_calls: "keeps_to (adds_calls plain_call) (delete_id w provider i)"
  by (cases provider) (auto simp: delete_id_def intro!: keeps_rules delete_tries_calls)

lemma delete_txt_calls: "keeps_to (adds_calls plain_call) (delete_txt w codec provider record)"
  by (cases provider) (auto simp: delete_txt_def remove_txt_def intro!: keeps_rules delete_id_calls split: option.split)

lemma resolvers_see_calls:
  "(\<And>url q. P (Http_call GET url q None)) \<Longrightarrow> keeps_to (adds_calls P) (resolvers_see w codec record urls)"
  by (induction urls) (auto intro!: keeps_rules)

lemma wait_for_propagation_calls:
  assumes "\<And>url q. P (Http_call GET url q None)"
  shows "keeps_to (adds_calls P) (wait_for_propagation w codec records rounds)"
proof -
  have visible: "keeps_to (adds_calls P) (all_visible w codec rs)" for rs
    by (induction rs) (auto intro!: keeps_rules resolvers_see_calls assms)
  have "keeps_to (adds_calls P) (wait_rounds w codec records rounds)"
    by (induction rounds) (auto intro!: keeps_rules visible)
  then show ?thesis by (simp add: wait_for_propagation_def keeps_rules)
qed

lemma challenge_pages_calls:
  "(\<And>url q. P (Http_call GET url q None)) \<Longrightarrow> keeps_to (adds_calls P) (challenge_pages w codec url page records)"
proof (induction w codec url page records rule: challenge_pages.induct)
  case (1 w codec url page records)
  show ?case
    by (subst challenge_pages.simps) (auto intro!: keeps_rules "1.prems" "1.IH")
qed

section \<open>What a sweep deletes\<close>

text \<open>A listed record that the sweep may delete.\<close>

definition leftover :: "DnsCodec \<Rightarrow> string \<Rightarrow> nat \<Rightarrow> string list \<Rightarrow> Listed \<Rightarrow> bool"
  where "leftover codec served before in_flight l \<longleftrightarrow>
    ours served l \<and> old_record codec before l \<and> to_ascii_lowercase (listed_name l) \<notin> set in_flight"

lemma delete_tries_log:
  "\<exists>k \<le> n. snd (delete_tries w url i n why log) = log @ replicate k (Http_call DELETE url [] None)"
proof (induction n arbitrary: why log)
  case 0
  show ?case by (simp add: talk_fail_def)
next
  case (Suc n)
  let ?c = "Http_call DELETE url [] None"
  obtain r log' where r: "talk_try (ask w ?c) log = (r, log')" by fastforce
  then have log': "log' = log \<or> log' = log @ [?c]" "r \<noteq> Dropped \<Longrightarrow> log' = log @ [?c]"
    by (auto simp: talk_try_def ask_def talk_result_def talk_fail_def talk_return_def split: if_splits sum.splits)
  have more_tries: "\<exists>k \<le> Suc n. snd (delete_tries w url i n why' (log @ [?c])) = log @ replicate k ?c" for why'
  proof -
    obtain k where "k \<le> n" "snd (delete_tries w url i n why' (log @ [?c])) = (log @ [?c]) @ replicate k ?c"
      using Suc.IH by blast
    then show ?thesis by (intro exI [of _ "Suc k"]) simp
  qed
  show ?case
  proof (cases r)
    case (Done answer)
    then have log'': "log' = log @ [?c]" using log'(2) by simp
    have one: "\<exists>k \<le> Suc n. log @ [?c] = log @ replicate k ?c" by (intro exI [of _ 1]) simp
    show ?thesis
      using r Done log'' more_tries one
      by (cases answer) (auto simp: talk_bind_def talk_return_def talk_fail_def)
  next
    case (Failed e)
    with r show ?thesis by (simp add: talk_try_def split: prod.splits outcome.splits)
  next
    case Dropped
    have "\<exists>k \<le> Suc n. log' = log @ replicate k ?c"
    proof (cases "log' = log")
      case True
      then show ?thesis by (intro exI [of _ 0]) simp
    next
      case False
      then show ?thesis using log'(1) by (intro exI [of _ 1]) simp
    qed
    with r Dropped show ?thesis by (simp add: talk_bind_def)
  qed
qed

lemma sweep_each_calls:
  assumes "sweep_each w codec (Cloudflare api zone token) served before in_flight limit swept ls log = (r, log')" "swept \<le> limit"
  shows "\<exists>new. log' = log @ new \<and> length new \<le> DELETE_TRIES * (limit - swept) \<and> (\<forall>n. r = Done n \<longrightarrow> n \<le> limit) \<and>
    (\<forall>c \<in> set new. \<exists>l \<in> set ls. leftover codec served before in_flight l \<and>
      c = Http_call DELETE (record_url api zone (listed_id l)) [] None)"
  using assms
proof (induction ls arbitrary: swept log)
  case Nil
  then show ?case by (auto simp: talk_return_def)
next
  case (Cons l ls)
  let ?skip = "\<not> ours served l \<or> \<not> old_record codec before l \<or> List.member in_flight (to_ascii_lowercase (listed_name l))"
  show ?case
  proof (cases "limit \<le> swept")
    case True
    then show ?thesis using Cons.prems by (auto simp: talk_return_def)
  next
    case room: False
    show ?thesis
    proof (cases ?skip)
      case True
      then have "sweep_each w codec (Cloudflare api zone token) served before in_flight limit swept ls log = (r, log')"
        using Cons.prems(1) room by auto
      from Cons.IH [OF this Cons.prems(2)] show ?thesis by (auto 4 4)
    next
      case False
      then have mine: "leftover codec served before in_flight l" by (simp add: leftover_def)
      let ?c = "Http_call DELETE (record_url api zone (listed_id l)) [] None"
      obtain d log1 where d: "delete_id w (Cloudflare api zone token) (listed_id l) log = (d, log1)" by fastforce
      obtain k where k: "k \<le> DELETE_TRIES" "log1 = log @ replicate k ?c"
        using delete_tries_log [of DELETE_TRIES w "record_url api zone (listed_id l)" "listed_id l" "[]" log] d
        by (auto simp: delete_id_def)
      have bound: "k \<le> DELETE_TRIES * (limit - swept)"
        using room k(1) by (cases "limit - swept") simp_all
      have step: "sweep_each w codec (Cloudflare api zone token) served before in_flight limit swept (l # ls) log =
          (case d of Done _ \<Rightarrow> sweep_each w codec (Cloudflare api zone token) served before in_flight limit (Suc swept) ls log1
           | Failed _ \<Rightarrow> (Done swept, log1) | Dropped \<Rightarrow> (Dropped, log1))"
        using False room d by (simp add: talk_bind_def talk_try_def talk_return_def split: outcome.split)
      show ?thesis
      proof (cases d)
        case (Done u)
        then have "sweep_each w codec (Cloudflare api zone token) served before in_flight limit (Suc swept) ls log1 = (r, log')"
          using Cons.prems(1) step by simp
        from Cons.IH [OF this] room obtain new where new: "log' = log1 @ new" "length new \<le> DELETE_TRIES * (limit - Suc swept)"
            "\<forall>n. r = Done n \<longrightarrow> n \<le> limit" "\<forall>c \<in> set new. \<exists>l \<in> set ls. leftover codec served before in_flight l \<and>
              c = Http_call DELETE (record_url api zone (listed_id l)) [] None" by auto
        have "k + DELETE_TRIES * (limit - Suc swept) \<le> DELETE_TRIES * (limit - swept)"
          using k(1) room by (metis Suc_diff_Suc add_le_mono1 linorder_not_le mult_Suc_right)
        with new k mine show ?thesis by (intro exI [of _ "replicate k ?c @ new"]) auto
      qed (use Cons.prems step k mine bound in \<open>auto intro!: exI [of _ "replicate k ?c"]\<close>)
    qed
  qed
qed

text \<open>What a sweep sends: before it has listed the zone it deletes nothing, and then only leftovers.\<close>

lemma sweep_calls:
  assumes "sweep w codec (Cloudflare api zone token) served before in_flight limit log = (r, log')"
  shows "\<exists>seen new. log' = log @ seen @ new \<and> list_all (\<lambda>c. \<not> is_delete (Cloudflare api zone token) c) seen \<and>
    length new \<le> DELETE_TRIES * limit \<and>
    (\<forall>c \<in> set new. \<exists>l. leftover codec served before in_flight l \<and>
      c = Http_call DELETE (record_url api zone (listed_id l)) [] None)"
proof -
  let ?p = "Cloudflare api zone token"
  obtain q log1 where q: "challenge_records w codec ?p log = (q, log1)" by fastforce
  have "keeps_to (adds_calls (\<lambda>c. \<not> is_delete ?p c)) (challenge_records w codec ?p)"
    by (auto simp: challenge_records_def intro!: keeps_rules challenge_pages_calls)
  then have "adds_calls (\<lambda>c. \<not> is_delete ?p c) log log1"
    using q by (rule keeps_toD [where R = "adds_calls (\<lambda>c. \<not> is_delete ?p c)"])
  then obtain seen where seen: "log1 = log @ seen" "list_all (\<lambda>c. \<not> is_delete ?p c) seen"
    by (auto simp: adds_calls_def list_all_iff)
  show ?thesis
  proof (cases "\<exists>ls. q = Done (Some ls)")
    case True
    then obtain ls where "q = Done (Some ls)" by blast
    then have "sweep_each w codec ?p served before in_flight limit 0 ls log1 = (r, log')"
      using assms q by (simp add: sweep_def talk_bind_def)
    from sweep_each_calls [OF this] seen show ?thesis by (auto 4 4)
  next
    case False
    then have "log' = log1"
      using assms q by (auto simp: sweep_def talk_bind_def talk_return_def split: outcome.splits option.splits)
    with seen show ?thesis by (intro exI [of _ seen] exI [of _ "[]"]) simp
  qed
qed

end
