(* ===== verification/Acme.thy ===== *)
theory Acme
  imports Dns
begin

text \<open>
  The ACME client (\<^verbatim>\<open>opentunnel-server/src/acme.rs\<close>): signed requests with their nonces, orders and
  authorizations, and one whole attempt with its challenge records and its cleanup. The certificate authority,
  the DNS provider and the resolvers answer as they like (\<open>peer\<close>), and a shutdown may drop the attempt
  wherever it waits. JSON, base64, hashes, keys, URLs and X.509 are the libraries', as parameters.
\<close>

section \<open>Data\<close>

record Key =
  key_sign :: "bytes \<Rightarrow> bytes option"
  jwk :: json
  thumbprint :: string

record Directory =
  new_nonce :: string
  new_account :: string
  new_order :: string

record Order =
  order_status :: string
  authorizations :: "string list"
  finalize_url :: "string option"
  certificate_url :: "string option"

record AcmeChallenge =
  challenge_kind :: string
  challenge_address :: string
  challenge_token :: string
  challenge_status :: string
  challenge_error :: "json option"

record Authorization =
  auth_status :: string
  auth_name :: string
  challenges :: "AcmeChallenge list"

record Issued =
  issued_certificate :: string
  issued_chain :: string
  issued_expiry :: string

record Challenge =
  shown_token :: string
  shown_key :: string

text \<open>A pending authorization that an attempt answers.\<close>

record Pending =
  p_url :: string
  p_identifier :: string
  p_challenge_url :: string
  p_token :: string
  p_value :: string

record AcmeConfig =
  directory_url :: string
  email :: string
  eab_kid :: "string option"
  eab_hmac_key :: "string option"
  account_key_jwk :: "string option"

text \<open>The libraries. \<open>url_origin\<close> says whether a text is a URL and what its origin is, if it has one.\<close>

record Lib =
  url_origin :: "string \<Rightarrow> string option option"
  json_of :: "bytes \<Rightarrow> json option"
  json_text :: "json \<Rightarrow> string"
  json_error :: "bytes \<Rightarrow> string"
  read_directory :: "bytes \<Rightarrow> Directory option"
  read_order :: "bytes \<Rightarrow> Order option"
  read_authorization :: "bytes \<Rightarrow> Authorization option"
  b64url :: "bytes \<Rightarrow> string"
  b64url_decode :: "string \<Rightarrow> bytes option"
  b64_encode :: "bytes \<Rightarrow> string"
  b64_decode :: "string \<Rightarrow> bytes option"
  sha :: "bytes \<Rightarrow> bytes"
  hmac_sha :: "bytes \<Rightarrow> bytes \<Rightarrow> bytes"
  ecdsa :: "bytes \<Rightarrow> bytes \<Rightarrow> (bytes \<Rightarrow> bytes option) option"
  csr_from_pem :: "string \<Rightarrow> bytes option"
  certificates_from_pem :: "string \<Rightarrow> string + bytes list"
  first_from_pem :: "string \<Rightarrow> bytes option"
  certificate_key :: "bytes \<Rightarrow> bytes option"
  request_key :: "bytes \<Rightarrow> bytes option"
  not_after :: "bytes \<Rightarrow> string + int"
  iso_text :: "nat \<Rightarrow> string"

definition REQUEST_TRIES :: nat where "REQUEST_TRIES = 3"
definition AUTHORIZATION_POLLS :: nat where "AUTHORIZATION_POLLS = 60"
definition ORDERS :: nat where "ORDERS = 2"
definition ORDER_POLLS :: nat where "ORDER_POLLS = 30"

definition dns_challenge :: "Authorization \<Rightarrow> AcmeChallenge option"
  where "dns_challenge a = List.find (\<lambda>c. challenge_kind c = ''dns-01'') (challenges a)"

definition json_str :: "json \<Rightarrow> string \<Rightarrow> string"
  where "json_str v k = (case Option.bind (json_get v k) json_as_str of Some s \<Rightarrow> s | None \<Rightarrow> [])"

definition error_detail :: "Lib \<Rightarrow> Authorization \<Rightarrow> string"
  where "error_detail lib a =
    join ''; '' (map (\<lambda>e.
      let k = json_str e ''type''; d = json_str e ''detail'' in
      if k \<noteq> [] \<and> d \<noteq> [] then k @ '': '' @ d
      else if k = [] \<and> d = [] then json_text lib e
      else k @ d) (List.map_filter challenge_error (challenges a)))"

section \<open>Keys and certificates\<close>

definition key_from_pair :: "Lib \<Rightarrow> bytes \<Rightarrow> bytes \<Rightarrow> (bytes \<Rightarrow> bytes option) \<Rightarrow> Key"
  where "key_from_pair lib x y signer =
    (let x = b64url lib x; y = b64url lib y; quote = [CHR 0x22];
         field = (\<lambda>k v. quote @ k @ quote @ '':'' @ quote @ v @ quote);
         input = ''{'' @ field ''crv'' ''P-256'' @ '','' @ field ''kty'' ''EC'' @ '','' @ field ''x'' x @ '','' @ field ''y'' y @ ''}''
     in \<lparr>key_sign = signer,
         jwk = JObject [(''crv'', JString ''P-256''), (''kty'', JString ''EC''), (''x'', JString x), (''y'', JString y)],
         thumbprint = b64url lib (sha lib (as_bytes input))\<rparr>)"

definition account_key :: "Lib \<Rightarrow> string option \<Rightarrow> Failure + Key"
  where "account_key lib jwk_text =
    (let invalid = Err (failure ''ACME_ACCOUNT_KEY_JWK is not a P-256 private JWK'') in
     case Option.bind jwk_text (\<lambda>t. json_of lib (as_bytes t)) of
       None \<Rightarrow> invalid
     | Some v \<Rightarrow>
         if json_get v ''kty'' \<noteq> Some (JString ''EC'') \<or> json_get v ''crv'' \<noteq> Some (JString ''P-256'') then invalid
         else
           let field = (\<lambda>n. option_filter (\<lambda>bs. length bs = 32)
                 (Option.bind (Option.bind (json_get v n) json_as_str) (b64url_decode lib))) in
           (case (field ''x'', field ''y'', field ''d'') of
              (Some x, Some y, Some d) \<Rightarrow>
                (case ecdsa lib d (4 # x @ y) of
                   Some signer \<Rightarrow> Ok (key_from_pair lib x y signer)
                 | None \<Rightarrow> invalid)
            | _ \<Rightarrow> invalid))"

definition external_account_binding :: "Lib \<Rightarrow> Key \<Rightarrow> string \<Rightarrow> string \<Rightarrow> string \<Rightarrow> Failure + json"
  where "external_account_binding lib key kid hmac_key url =
    (case b64url_decode lib hmac_key of
       None \<Rightarrow> Err (failure ''ACME_EAB_HMAC_KEY is not base64url'')
     | Some secret \<Rightarrow>
         let protected = b64url lib (as_bytes (json_text lib (JObject
               [(''alg'', JString ''HS256''), (''kid'', JString kid), (''url'', JString url)])));
             pay = b64url lib (as_bytes (json_text lib (jwk key)));
             tag = hmac_sha lib secret (as_bytes (protected @ ''.'' @ pay))
         in Ok (JObject [(''protected'', JString protected), (''payload'', JString pay),
              (''signature'', JString (b64url lib tag))]))"

text \<open>Lines of 64 characters, without a trailing newline.\<close>

function (sequential) lines_of_64 :: "string \<Rightarrow> string list" where
  "lines_of_64 s = (if s = [] then [] else take 64 s # lines_of_64 (drop 64 s))"
  by pat_completeness auto
termination by (relation "measure length") auto

declare lines_of_64.simps [simp del]

definition to_pem :: "Lib \<Rightarrow> bytes \<Rightarrow> string"
  where "to_pem lib der =
    ''-----BEGIN CERTIFICATE-----'' @ [CHR 0x0A] @ join [CHR 0x0A] (lines_of_64 (b64_encode lib der)) @
    [CHR 0x0A] @ ''-----END CERTIFICATE-----''"

definition expiry :: "Lib \<Rightarrow> bytes \<Rightarrow> Failure + string"
  where "expiry lib der =
    (case not_after lib der of
       Inl e \<Rightarrow> Err (failure (''invalid certificate: '' @ e))
     | Inr seconds \<Rightarrow> Ok (iso_text lib (nat seconds * 1000)))"

definition chain_from_pem :: "Lib \<Rightarrow> string \<Rightarrow> Failure + Issued"
  where "chain_from_pem lib pem =
    (case certificates_from_pem lib pem of
       Inl e \<Rightarrow> Err (failure (''ACME response did not contain a certificate: '' @ e))
     | Inr [] \<Rightarrow> Err (failure ''ACME response did not contain a certificate'')
     | Inr (leaf # ders) \<Rightarrow>
         (case expiry lib leaf of
            Inl e \<Rightarrow> Err e
          | Inr ends \<Rightarrow> Ok \<lparr>issued_certificate = to_pem lib leaf,
              issued_chain = join [CHR 0x0A] (map (to_pem lib) ders), issued_expiry = ends\<rparr>))"

definition certifies_key :: "Lib \<Rightarrow> string \<Rightarrow> bytes \<Rightarrow> bool"
  where "certifies_key lib pem csr =
    (case Option.bind (first_from_pem lib pem) (certificate_key lib) of
       None \<Rightarrow> False
     | Some k \<Rightarrow> request_key lib csr = Some k)"

text \<open>White space may be several bytes long.\<close>

fun squeeze :: "nat \<Rightarrow> string \<Rightarrow> string" where
  "squeeze 0 s = []"
| "squeeze (Suc fuel) s =
     (case List.find (\<lambda>w. strip_prefix s w \<noteq> None) white_space of
        Some w \<Rightarrow> squeeze fuel (drop (length w) s)
      | None \<Rightarrow> (case s of [] \<Rightarrow> [] | c # s \<Rightarrow> c # squeeze fuel s))"

definition pem_der :: "Lib \<Rightarrow> string \<Rightarrow> bytes option"
  where "pem_der lib pem =
    (case csr_from_pem lib pem of
       Some der \<Rightarrow> Some der
     | None \<Rightarrow>
         let body = concat (filter (\<lambda>l. strip_prefix l ''-----'' = None) (split_on CHR 0x0A pem))
         in b64_decode lib (squeeze (length body) body))"

section \<open>The session\<close>

text \<open>The nonce from the last reply and the calls made; an attempt adds its records and the authorizations it
  answered that have not reached a final state.\<close>

record Conv =
  nonce :: "string option"
  sent :: "Call list"

record Attempt = Conv +
  records :: "TxtRecord list"
  unsettled :: "Pending list"

record Session =
  ses_origin :: "string option"
  ses_key :: Key
  ses_new_nonce :: string
  ses_kid :: "string option"

definition plainly :: "'a talk \<Rightarrow> ('z Conv_scheme, 'a) run"
  where "plainly m c = (case m (sent c) of (r, log) \<Rightarrow> (r, c\<lparr>sent := log\<rparr>))"

definition check_url :: "Lib \<Rightarrow> Session \<Rightarrow> string \<Rightarrow> ('z Conv_scheme, unit) run"
  where "check_url lib ses url =
    (case url_origin lib url of
       Some (Some o') \<Rightarrow> if ses_origin ses = Some o' then talk_return ()
         else talk_fail (failure (''the ACME server named a URL outside its directory'' @ [CHR 0x27] @ ''s origin: '' @ take_chars 200 url))
     | _ \<Rightarrow> talk_fail (failure (''the ACME server named a URL outside its directory'' @ [CHR 0x27] @ ''s origin: '' @ take_chars 200 url)))"

text \<open>\<open>n\<close> tries are left; the first is a HEAD.\<close>

fun nonce_tries :: "Outside \<Rightarrow> string \<Rightarrow> Method \<Rightarrow> string \<Rightarrow> nat \<Rightarrow> ('z Conv_scheme, string) run" where
  "nonce_tries w url meth why 0 = talk_fail (transient (''ACME server returned no nonce'' @ why))"
| "nonce_tries w url meth why (Suc n) =
     talk_bind (talk_try (plainly (ask w (Http_call meth url [] None)))) (\<lambda>answer.
       case answer of
         Inl e \<Rightarrow> nonce_tries w url GET ('': '' @ message e) n
       | Inr r \<Rightarrow>
           (case reply_nonce r of
              Some v \<Rightarrow> talk_return v
            | None \<Rightarrow> nonce_tries w url GET ('' (HTTP '' @ show_nat (reply_status r) @ '')'') n))"

definition fresh_nonce :: "Outside \<Rightarrow> Lib \<Rightarrow> Session \<Rightarrow> ('z Conv_scheme, string) run"
  where "fresh_nonce w lib ses = (\<lambda>c.
    case nonce c of
      Some v \<Rightarrow> (Done v, c\<lparr>nonce := None\<rparr>)
    | None \<Rightarrow>
        talk_bind (check_url lib ses (ses_new_nonce ses)) (\<lambda>_.
          nonce_tries w (ses_new_nonce ses) HEAD [] REQUEST_TRIES) c)"

definition sign :: "Lib \<Rightarrow> Session \<Rightarrow> string \<Rightarrow> string \<Rightarrow> json option \<Rightarrow> Failure + string"
  where "sign lib ses url v pay =
    (let who = (case ses_kid ses of Some kid \<Rightarrow> (''kid'', JString kid) | None \<Rightarrow> (''jwk'', jwk (ses_key ses)));
         protected = b64url lib (as_bytes (json_text lib (JObject
           [(''alg'', JString ''ES256''), (''nonce'', JString v), (''url'', JString url), who])));
         pay = (case pay of Some p \<Rightarrow> b64url lib (as_bytes (json_text lib p)) | None \<Rightarrow> [])
     in case key_sign (ses_key ses) (as_bytes (protected @ ''.'' @ pay)) of
       None \<Rightarrow> Err (failure ''signing an ACME request failed'')
     | Some s \<Rightarrow> Ok (json_text lib (JObject [(''protected'', JString protected), (''payload'', JString pay),
         (''signature'', JString (b64url lib s))])))"

definition problem_of :: "Lib \<Rightarrow> string \<Rightarrow> Reply \<Rightarrow> bytes \<Rightarrow> Failure"
  where "problem_of lib url r body =
    (let problem = (case json_of lib body of Some v \<Rightarrow> v | None \<Rightarrow> JNull);
         k = json_str problem ''type''; d = json_str problem ''detail'';
         m = (if d = [] then ''ACME request to '' @ url @ '' failed'' else k @ '': '' @ d) @ '' | HTTP '' @
           show_nat (reply_status r) @ '' | '' @ take_chars 300 (from_utf8_lossy body);
         after = Option.bind (reply_retry r) (\<lambda>t. parse_unsigned U64_MAX (trim t))
     in \<lparr>chain = [Problem_cause \<lparr>kind = k, problem_status = reply_status r, retry_after = map_option ((*) 1000) after\<rparr>],
         message = m, stopped = False\<rparr>)"

definition keep_nonce :: "string option \<Rightarrow> ('z Conv_scheme, unit) run"
  where "keep_nonce v = (\<lambda>c. (Done (), c\<lparr>nonce := v\<rparr>))"

text \<open>One signed request: the reply and its body.\<close>

definition send_signed :: "Outside \<Rightarrow> Lib \<Rightarrow> Session \<Rightarrow> string \<Rightarrow> json option \<Rightarrow> ('z Conv_scheme, Reply \<times> bytes) run"
  where "send_signed w lib ses url pay =
    (let failed = ''ACME request to '' @ url @ '' failed'' in
     talk_bind (fresh_nonce w lib ses) (\<lambda>v.
     talk_bind (talk_result (sign lib ses url v pay)) (\<lambda>text.
     talk_bind (talk_context failed (plainly (ask w (Signed_call url v pay text)))) (\<lambda>r.
     talk_bind (keep_nonce (reply_nonce r)) (\<lambda>_.
     talk_bind (talk_context failed (talk_result (reply_body r))) (\<lambda>body.
       talk_return (r, body)))))))"

definition bad_nonce :: "Lib \<Rightarrow> bytes \<Rightarrow> bool"
  where "bad_nonce lib body \<longleftrightarrow>
    strip_suffix (json_str (case json_of lib body of Some v \<Rightarrow> v | None \<Rightarrow> JNull) ''type'') '':badNonce'' \<noteq> None"

fun post_tries :: "Outside \<Rightarrow> Lib \<Rightarrow> Session \<Rightarrow> string \<Rightarrow> json option \<Rightarrow> nat \<Rightarrow> ('z Conv_scheme, Reply \<times> bytes) run" where
  "post_tries w lib ses url pay n =
     talk_bind (send_signed w lib ses url pay) (\<lambda>(r, body).
       if reply_status r < 400 then talk_return (r, body)
       else if bad_nonce lib body
       then (case n of 0 \<Rightarrow> talk_fail (problem_of lib url r body) | Suc n \<Rightarrow> post_tries w lib ses url pay n)
       else talk_fail (problem_of lib url r body))"

declare post_tries.simps [simp del]

definition post :: "Outside \<Rightarrow> Lib \<Rightarrow> Session \<Rightarrow> string \<Rightarrow> json option \<Rightarrow> ('z Conv_scheme, Reply \<times> bytes) run"
  where "post w lib ses url pay =
    talk_bind (check_url lib ses url) (\<lambda>_. post_tries w lib ses url pay 3)"

definition is_transient :: "Class \<Rightarrow> bool"
  where "is_transient c = (case c of Transient _ \<Rightarrow> True | _ \<Rightarrow> False)"

fun get_tries :: "Outside \<Rightarrow> Lib \<Rightarrow> Session \<Rightarrow> string \<Rightarrow> nat \<Rightarrow> ('z Conv_scheme, Reply \<times> bytes) run" where
  "get_tries w lib ses url n =
     talk_bind (talk_try (post w lib ses url None)) (\<lambda>answer.
       case answer of
         Inr r \<Rightarrow> talk_return r
       | Inl e \<Rightarrow>
           (case n of
              0 \<Rightarrow> talk_fail e
            | Suc n \<Rightarrow> if is_transient (classify_failure e) then get_tries w lib ses url n else talk_fail e))"

declare get_tries.simps [simp del]

definition get :: "Outside \<Rightarrow> Lib \<Rightarrow> Session \<Rightarrow> string \<Rightarrow> ('z Conv_scheme, bytes) run"
  where "get w lib ses url =
    talk_bind (get_tries w lib ses url (REQUEST_TRIES - 1)) (\<lambda>(_, body). talk_return body)"

definition parse :: "Lib \<Rightarrow> (bytes \<Rightarrow> 'a option) \<Rightarrow> string \<Rightarrow> bytes \<Rightarrow> ('s, 'a) run"
  where "parse lib decode what body =
    (case decode body of
       Some a \<Rightarrow> talk_return a
     | None \<Rightarrow> talk_fail (transient (''ACME '' @ what @ '' response could not be read ('' @ json_error lib body @ ''): '' @
         take_chars 100 (from_utf8_lossy body))))"

definition get_authorization :: "Outside \<Rightarrow> Lib \<Rightarrow> Session \<Rightarrow> string \<Rightarrow> ('z Conv_scheme, Authorization) run"
  where "get_authorization w lib ses url =
    talk_bind (get w lib ses url) (parse lib (read_authorization lib) ''authorization'')"

definition get_order :: "Outside \<Rightarrow> Lib \<Rightarrow> Session \<Rightarrow> string \<Rightarrow> ('z Conv_scheme, Order) run"
  where "get_order w lib ses url = talk_bind (get w lib ses url) (parse lib (read_order lib) ''order'')"

definition DEACTIVATED :: json where "DEACTIVATED = JObject [(''status'', JString ''deactivated'')]"

definition deactivate :: "Outside \<Rightarrow> Lib \<Rightarrow> Session \<Rightarrow> string \<Rightarrow> ('z Conv_scheme, unit) run"
  where "deactivate w lib ses url =
    talk_bind (talk_try (post w lib ses url (Some DEACTIVATED))) (\<lambda>answer.
      case answer of
        Inr _ \<Rightarrow> talk_return ()
      | Inl e \<Rightarrow>
          talk_bind (get_authorization w lib ses url) (\<lambda>a.
            if auth_status a = ''pending'' then talk_fail (with_context ''deactivating an ACME authorization'' e)
            else talk_return ()))"

section \<open>Orders\<close>

definition key_value :: "Lib \<Rightarrow> string \<Rightarrow> string \<Rightarrow> string"
  where "key_value lib thumb tok = b64url lib (sha lib (as_bytes (tok @ ''.'' @ thumb)))"

text \<open>The authorizations of an order: the pending ones, the stale ones and whether the order can be used.\<close>

fun read_authorizations :: "Outside \<Rightarrow> Lib \<Rightarrow> Session \<Rightarrow> string \<Rightarrow> string list \<Rightarrow> Pending list \<Rightarrow> string list \<Rightarrow> bool
    \<Rightarrow> ('z Conv_scheme, Pending list \<times> string list \<times> bool) run" where
  "read_authorizations w lib ses thumb [] pending stale usable = talk_return (pending, stale, usable)"
| "read_authorizations w lib ses thumb (url # urls) pending stale usable =
     talk_bind (get_authorization w lib ses url) (\<lambda>a.
       if auth_status a = ''valid'' then read_authorizations w lib ses thumb urls pending stale usable
       else if auth_status a \<noteq> ''pending'' then read_authorizations w lib ses thumb urls pending stale False
       else (case dns_challenge a of
         None \<Rightarrow> talk_fail (failure ''ACME server did not offer dns-01'')
       | Some c \<Rightarrow>
           if \<not> (challenge_status c = [] \<or> challenge_status c = ''pending'')
           then read_authorizations w lib ses thumb urls pending (stale @ [url]) False
           else read_authorizations w lib ses thumb urls
             (pending @ [\<lparr>p_url = url, p_identifier = auth_name a, p_challenge_url = challenge_address c,
               p_token = challenge_token c, p_value = key_value lib thumb (challenge_token c)\<rparr>]) stale usable))"

fun deactivate_each :: "Outside \<Rightarrow> Lib \<Rightarrow> Session \<Rightarrow> string list \<Rightarrow> ('z Conv_scheme, unit) run" where
  "deactivate_each w lib ses [] = talk_return ()"
| "deactivate_each w lib ses (url # urls) =
     talk_bind (deactivate w lib ses url) (\<lambda>_. deactivate_each w lib ses urls)"

definition order_payload :: "string list \<Rightarrow> json"
  where "order_payload names = JObject [(''identifiers'',
    JArray (map (\<lambda>n. JObject [(''type'', JString ''dns''), (''value'', JString n)]) names))]"

fun place_orders :: "Outside \<Rightarrow> Lib \<Rightarrow> Session \<Rightarrow> string \<Rightarrow> string list \<Rightarrow> string \<Rightarrow> nat
    \<Rightarrow> ('z Conv_scheme, string \<times> Pending list) run" where
  "place_orders w lib ses url names thumb 0 =
     talk_fail (transient ''ACME server kept handing out authorizations that cannot succeed'')"
| "place_orders w lib ses url names thumb (Suc n) =
     talk_bind (post w lib ses url (Some (order_payload names))) (\<lambda>(r, body).
       case reply_location r of
         None \<Rightarrow> talk_fail (failure ''ACME order has no location URL'')
       | Some order_url \<Rightarrow>
           talk_bind (parse lib (read_order lib) ''order'' body) (\<lambda>order.
           talk_bind (read_authorizations w lib ses thumb (authorizations order) [] [] True) (\<lambda>(pending, stale, usable).
             if usable then talk_return (order_url, pending)
             else talk_bind (deactivate_each w lib ses stale) (\<lambda>_. place_orders w lib ses url names thumb n))))"

definition place_order :: "Outside \<Rightarrow> Lib \<Rightarrow> Session \<Rightarrow> string \<Rightarrow> string list \<Rightarrow> string \<Rightarrow> ('z Conv_scheme, string \<times> Pending list) run"
  where "place_order w lib ses url names thumb = place_orders w lib ses url names thumb ORDERS"

section \<open>An attempt\<close>

text \<open>A hostname and its wildcard share one record name, and may share a value.\<close>

fun trim_wildcard :: "string \<Rightarrow> string" where
  "trim_wildcard (c # d # s) = (if c = CHR ''*'' \<and> d = CHR ''.'' then trim_wildcard s else c # d # s)"
| "trim_wildcard s = s"

definition challenge_name :: "string \<Rightarrow> string"
  where "challenge_name name = ''_acme-challenge.'' @ trim_wildcard name"

fun wanted_records :: "Pending list \<Rightarrow> (string \<times> string) list \<Rightarrow> (string \<times> string) list" where
  "wanted_records [] acc = acc"
| "wanted_records (p # ps) acc =
     (let r = (challenge_name (p_identifier p), p_value p) in
      wanted_records ps (if List.member acc r then acc else acc @ [r]))"

definition push_record :: "TxtRecord \<Rightarrow> (Attempt, unit) run"
  where "push_record r = (\<lambda>a. (Done (), a\<lparr>records := records a @ [r]\<rparr>))"

definition push_unsettled :: "Pending \<Rightarrow> (Attempt, unit) run"
  where "push_unsettled p = (\<lambda>a. (Done (), a\<lparr>unsettled := unsettled a @ [p]\<rparr>))"

definition remove_unsettled :: "nat \<Rightarrow> (Attempt, unit) run"
  where "remove_unsettled i = (\<lambda>a. (Done (), a\<lparr>unsettled := take i (unsettled a) @ drop (Suc i) (unsettled a)\<rparr>))"

fun create_records :: "Outside \<Rightarrow> DnsCodec \<Rightarrow> DnsProvider \<Rightarrow> (string \<times> string) list \<Rightarrow> (Attempt, unit) run" where
  "create_records w codec provider [] = talk_return ()"
| "create_records w codec provider ((name, v) # rest) =
     talk_bind (talk_context ''creating the DNS challenge record'' (plainly (create_txt w codec provider name v))) (\<lambda>r.
     talk_bind (push_record r) (\<lambda>_. create_records w codec provider rest))"

fun answer_challenges :: "Outside \<Rightarrow> Lib \<Rightarrow> Session \<Rightarrow> Pending list \<Rightarrow> (Attempt, unit) run" where
  "answer_challenges w lib ses [] = talk_return ()"
| "answer_challenges w lib ses (p # ps) =
     talk_bind (push_unsettled p) (\<lambda>_.
     talk_bind (post w lib ses (p_challenge_url p) (Some (JObject []))) (\<lambda>_.
       answer_challenges w lib ses ps))"

definition authorization_failed :: "Lib \<Rightarrow> Pending \<Rightarrow> Authorization \<Rightarrow> Failure"
  where "authorization_failed lib p a =
    (let d = error_detail lib a;
         m = ''ACME authorization for '' @ p_identifier p @ '' ended in '' @ auth_status a
     in failure (if d = [] then m else m @ '': '' @ d))"

text \<open>One look at the \<open>n\<close> authorizations from \<open>i\<close> on.\<close>

fun settle_pass :: "Outside \<Rightarrow> Lib \<Rightarrow> Session \<Rightarrow> nat \<Rightarrow> nat \<Rightarrow> (Attempt, unit) run" where
  "settle_pass w lib ses 0 i = talk_return ()"
| "settle_pass w lib ses (Suc n) i = (\<lambda>a.
     let p = unsettled a ! i in
     talk_bind (get_authorization w lib ses (p_url p)) (\<lambda>au.
       if auth_status au = ''valid''
       then talk_bind (remove_unsettled i) (\<lambda>_. settle_pass w lib ses n i)
       else if auth_status au = ''pending'' then settle_pass w lib ses n (Suc i)
       else talk_bind (remove_unsettled i) (\<lambda>_. talk_fail (authorization_failed lib p au))) a)"

fun settle_rounds :: "Outside \<Rightarrow> Lib \<Rightarrow> Session \<Rightarrow> nat \<Rightarrow> (Attempt, unit) run" where
  "settle_rounds w lib ses polls =
     talk_bind (\<lambda>a. settle_pass w lib ses (length (unsettled a)) 0 a) (\<lambda>_ a.
       if unsettled a = [] then (Done (), a)
       else case polls of
         0 \<Rightarrow> (Failed (transient ''ACME authorization ended in pending''), a)
       | Suc polls \<Rightarrow> settle_rounds w lib ses polls a)"

declare settle_rounds.simps [simp del]

text \<open>Reads an order again, at most \<open>n\<close> times, while it has the given status.\<close>

fun poll_order :: "Outside \<Rightarrow> Lib \<Rightarrow> Session \<Rightarrow> string \<Rightarrow> string \<Rightarrow> nat \<Rightarrow> Order \<Rightarrow> (Attempt, Order) run" where
  "poll_order w lib ses url status 0 order = talk_return order"
| "poll_order w lib ses url status (Suc n) order =
     (if order_status order \<noteq> status then talk_return order
      else talk_bind (get_order w lib ses url) (poll_order w lib ses url status n))"

definition finalize :: "Outside \<Rightarrow> Lib \<Rightarrow> Session \<Rightarrow> string \<Rightarrow> bytes \<Rightarrow> Order \<Rightarrow> (Attempt, Order) run"
  where "finalize w lib ses url csr order =
    (if order_status order \<noteq> ''ready'' then talk_return order
     else case finalize_url order of
       None \<Rightarrow> talk_fail (failure ''ACME order has no finalize URL'')
     | Some address \<Rightarrow>
         talk_bind (post w lib ses address (Some (JObject [(''csr'', JString (b64url lib csr))]))) (\<lambda>_.
           get_order w lib ses url))"

definition download :: "Outside \<Rightarrow> Lib \<Rightarrow> Session \<Rightarrow> bytes \<Rightarrow> Order \<Rightarrow> (Attempt, Issued) run"
  where "download w lib ses csr order =
    (if order_status order = ''valid'' \<and> certificate_url order \<noteq> None
     then talk_bind (get w lib ses (the (certificate_url order))) (\<lambda>body.
       case from_utf8 body of
         None \<Rightarrow> talk_fail (failure ''invalid utf-8 sequence'')
       | Some pem \<Rightarrow>
           talk_bind (talk_result (chain_from_pem lib pem)) (\<lambda>issued.
             if certifies_key lib pem csr then talk_return issued
             else talk_fail (failure ''ACME returned a certificate for another key'')))
     else if order_status order = ''pending'' \<or> order_status order = ''processing''
     then talk_fail (transient (''ACME order ended in '' @ order_status order))
     else talk_fail (failure (''ACME order ended in '' @ order_status order)))"

definition run_attempt :: "Outside \<Rightarrow> Lib \<Rightarrow> DnsCodec \<Rightarrow> DnsProvider \<Rightarrow> nat \<Rightarrow> Session \<Rightarrow> string \<Rightarrow> Pending list \<Rightarrow> string
    \<Rightarrow> (Attempt, Issued) run"
  where "run_attempt w lib codec provider rounds ses order_url pending csr_pem =
    talk_bind (create_records w codec provider (wanted_records pending [])) (\<lambda>_.
    talk_bind (\<lambda>a. plainly (wait_for_propagation w codec (records a) rounds) a) (\<lambda>_.
    talk_bind (answer_challenges w lib ses pending) (\<lambda>_.
    talk_bind (settle_rounds w lib ses AUTHORIZATION_POLLS) (\<lambda>_.
    talk_bind (get_order w lib ses order_url) (\<lambda>order.
    talk_bind (poll_order w lib ses order_url ''pending'' ORDER_POLLS order) (\<lambda>order.
      case pem_der lib csr_pem of
        None \<Rightarrow> talk_fail (failure ''CSR is not PEM'')
      | Some csr \<Rightarrow>
          talk_bind (finalize w lib ses order_url csr order) (\<lambda>order.
          talk_bind (poll_order w lib ses order_url ''processing'' ORDER_POLLS order) (\<lambda>order.
            download w lib ses csr order))))))))"

section \<open>Cleaning up and the whole of an attempt\<close>

text \<open>Outside the attempt nothing is dropped.\<close>

definition undropped :: "Outside \<Rightarrow> Outside"
  where "undropped w = w\<lparr>dropped := (\<lambda>_. False)\<rparr>"

fun deactivate_unsettled :: "Outside \<Rightarrow> Lib \<Rightarrow> Session \<Rightarrow> Pending list \<Rightarrow> bool \<Rightarrow> (Attempt, bool) run" where
  "deactivate_unsettled w lib ses [] settled = talk_return settled"
| "deactivate_unsettled w lib ses (p # ps) settled =
     talk_bind (talk_try (deactivate w lib ses (p_url p))) (\<lambda>r.
       deactivate_unsettled w lib ses ps (case r of Inl _ \<Rightarrow> False | Inr _ \<Rightarrow> settled))"

fun delete_records :: "Outside \<Rightarrow> DnsCodec \<Rightarrow> DnsProvider \<Rightarrow> TxtRecord list \<Rightarrow> (Attempt, unit) run" where
  "delete_records w codec provider [] = talk_return ()"
| "delete_records w codec provider (r # rs) =
     talk_bind (plainly (delete_txt w codec provider r)) (\<lambda>_. delete_records w codec provider rs)"

definition clean_up :: "Outside \<Rightarrow> Lib \<Rightarrow> DnsCodec \<Rightarrow> DnsProvider \<Rightarrow> Session \<Rightarrow> (Attempt, unit) run"
  where "clean_up w lib codec provider ses = (\<lambda>a.
    talk_bind (deactivate_unsettled w lib ses (unsettled a) True) (\<lambda>settled.
      if settled then delete_records w codec provider (records a) else talk_return ()) a)"

definition stopped_failure :: Failure
  where "stopped_failure = \<lparr>chain = [Other_cause],
    message = ''certificate issuance stopped: the server is shutting down'', stopped = True\<rparr>"

text \<open>\<^verbatim>\<open>select!\<close>: the attempt's result, or that it was stopped; then the cleanup.\<close>

definition attempt_and_clean :: "Outside \<Rightarrow> Lib \<Rightarrow> DnsCodec \<Rightarrow> DnsProvider \<Rightarrow> nat \<Rightarrow> Session \<Rightarrow> string \<Rightarrow> Pending list \<Rightarrow> string
    \<Rightarrow> Conv \<Rightarrow> (Failure + Issued) \<times> Attempt"
  where "attempt_and_clean w lib codec provider rounds ses order_url pending csr_pem c =
    (case run_attempt w lib codec provider rounds ses order_url pending csr_pem
        \<lparr>nonce = nonce c, sent = sent c, records = [], unsettled = []\<rparr> of
       (r, a) \<Rightarrow>
         ((case r of Done issued \<Rightarrow> Ok issued | Failed e \<Rightarrow> Err e | Dropped \<Rightarrow> Err stopped_failure),
          snd (clean_up (undropped w) lib codec provider ses a)))"

record Acme =
  config :: AcmeConfig
  acme_dns :: "DnsProvider option"
  account :: "string option"
  propagation :: nat

text \<open>Registers the account when it is not known yet; its address is kept from then on.\<close>

definition register_account :: "Outside \<Rightarrow> Lib \<Rightarrow> Session \<Rightarrow> string \<Rightarrow> string \<Rightarrow> string \<Rightarrow> string \<Rightarrow> (Conv, string) run"
  where "register_account w lib ses kid hmac mail url =
    talk_bind (talk_result (external_account_binding lib (ses_key ses) kid hmac url)) (\<lambda>binding.
    talk_bind (post w lib ses url (Some (JObject
        [(''contact'', JArray [JString (''mailto:'' @ mail)]), (''termsOfServiceAgreed'', JBool True),
         (''externalAccountBinding'', binding)]))) (\<lambda>(r, _).
      case reply_location r of
        None \<Rightarrow> talk_fail (failure ''ACME account has no location URL'')
      | Some location \<Rightarrow> talk_return location))"

definition fetch_directory :: "Outside \<Rightarrow> Lib \<Rightarrow> string \<Rightarrow> (Conv, Directory) run"
  where "fetch_directory w lib url =
    talk_bind (talk_context ''fetching the ACME directory'' (plainly (ask w (Http_call GET url [] None)))) (\<lambda>r.
    talk_bind (error_for_status w r) (\<lambda>r.
      talk_context ''reading the ACME directory'' (read_json w (read_directory lib) r)))"

text \<open>The state of a caller (\<open>'u\<close>) is changed by \<open>on_challenge\<close> only.\<close>

type_synonym 'u on_challenge = "Challenge \<Rightarrow> 'u \<Rightarrow> (Failure + unit) \<times> 'u"

definition issue_order :: "Outside \<Rightarrow> Lib \<Rightarrow> DnsCodec \<Rightarrow> DnsProvider \<Rightarrow> nat \<Rightarrow> Session \<Rightarrow> string \<Rightarrow> string list \<Rightarrow> string
    \<Rightarrow> 'u on_challenge \<Rightarrow> Conv \<Rightarrow> 'u \<Rightarrow> (Failure + Issued) \<times> Call list \<times> 'u"
  where "issue_order w lib codec provider rounds ses url names csr_pem on_challenge c u =
    (case place_order (undropped w) lib ses url names (thumbprint (ses_key ses)) c of
       (Failed e, c) \<Rightarrow> (Err e, sent c, u)
     | (Dropped, c) \<Rightarrow> (Err stopped_failure, sent c, u)
     | (Done (order_url, pending), c) \<Rightarrow>
         (case (case pending of [] \<Rightarrow> (Ok (), u)
             | p # _ \<Rightarrow> on_challenge \<lparr>shown_token = p_token p, shown_key = p_value p\<rparr> u) of
            (Inl e, u) \<Rightarrow> (Err e, sent c, u)
          | (Inr _, u) \<Rightarrow>
              (case attempt_and_clean w lib codec provider rounds ses order_url pending csr_pem c of
                 (r, a) \<Rightarrow> (r, sent a, u))))"

text \<open>The directory and the account: the session and where orders are placed.\<close>

definition open_session :: "Outside \<Rightarrow> Lib \<Rightarrow> Key \<Rightarrow> string option \<Rightarrow> string \<Rightarrow> string \<Rightarrow> Acme \<Rightarrow> Call list
    \<Rightarrow> (Failure + Session \<times> string) \<times> Conv"
  where "open_session w lib key org kid hmac acme log =
    (case fetch_directory w lib (directory_url (config acme)) \<lparr>nonce = None, sent = log\<rparr> of
       (Failed e, c) \<Rightarrow> (Err e, c)
     | (Dropped, c) \<Rightarrow> (Err stopped_failure, c)
     | (Done d, c) \<Rightarrow>
         let ses = \<lparr>ses_origin = org, ses_key = key, ses_new_nonce = new_nonce d, ses_kid = account acme\<rparr> in
         (case account acme of
            Some location \<Rightarrow> (Ok (ses, new_order d), c)
          | None \<Rightarrow>
              (case register_account w lib ses kid hmac (email (config acme)) (new_account d) c of
                 (Failed e, c) \<Rightarrow> (Err e, c)
               | (Dropped, c) \<Rightarrow> (Err stopped_failure, c)
               | (Done location, c) \<Rightarrow> (Ok (ses\<lparr>ses_kid := Some location\<rparr>, new_order d), c))))"

definition acme_issue :: "Outside \<Rightarrow> Lib \<Rightarrow> DnsCodec \<Rightarrow> string list \<Rightarrow> string \<Rightarrow> 'u on_challenge \<Rightarrow> Acme \<Rightarrow> Call list \<Rightarrow> 'u
    \<Rightarrow> (Failure + Issued) \<times> Acme \<times> Call list \<times> 'u"
  where "acme_issue w lib codec names csr_pem on_challenge acme log u =
    (case (eab_kid (config acme), eab_hmac_key (config acme)) of
       (Some kid, Some hmac) \<Rightarrow>
         (case acme_dns acme of
            None \<Rightarrow> (Err (failure ''CLOUDFLARE_ZONE_ID and CLOUDFLARE_API_TOKEN are required''), acme, log, u)
          | Some dns \<Rightarrow>
              if dropped w log then (Err stopped_failure, acme, log, u)
              else
                (case account_key lib (account_key_jwk (config acme)) of
                   Inl e \<Rightarrow> (Err e, acme, log, u)
                 | Inr key \<Rightarrow>
                     (case url_origin lib (directory_url (config acme)) of
                        None \<Rightarrow> (Err (failure ''ACME_URL is not a URL''), acme, log, u)
                      | Some org \<Rightarrow>
                          (case open_session (undropped w) lib key org kid hmac acme log of
                             (Inl e, c) \<Rightarrow> (Err e, acme, sent c, u)
                           | (Inr (ses, order_url), c) \<Rightarrow>
                               (case issue_order w lib codec dns (propagation acme) ses order_url names csr_pem
                                   on_challenge c u of
                                  (r, log, u) \<Rightarrow> (r, acme\<lparr>account := ses_kid ses\<rparr>, log, u))))))
     | _ \<Rightarrow> (Err (failure ''ACME_EAB_KID and ACME_EAB_HMAC_KEY are required''), acme, log, u))"

end
