(* ===== verification/Acme_Properties.thy ===== *)
theory Acme_Properties
  imports Acme
begin

text \<open>
  What an attempt at a certificate may do to others: which servers it sends signed requests to, that the
  certificate it gives is for the key of the request, and that challenge records are removed, but never while
  the certificate authority may still be looking at them.
\<close>

section \<open>The calls of a session\<close>

text \<open>A run that adds calls and changes the nonce, and nothing else.\<close>

definition talks :: "(Call \<Rightarrow> bool) \<Rightarrow> 'z Conv_scheme \<Rightarrow> 'z Conv_scheme \<Rightarrow> bool"
  where "talks P c c' \<longleftrightarrow> (\<exists>new v. c' = c\<lparr>nonce := v, sent := sent c @ new\<rparr> \<and> list_all P new)"

interpretation session: steady "talks P" for P
proof
  show "talks P c c" for c :: "'a Conv_scheme"
    unfolding talks_def by (intro exI [of _ "[]"] exI [of _ "nonce c"]) simp
  show "talks P c c' \<Longrightarrow> talks P c' c'' \<Longrightarrow> talks P c c''" for c c' c'' :: "'a Conv_scheme"
    unfolding talks_def by force
qed

named_theorems session_rules

lemmas [session_rules] = session.keeps_basic

lemma plainly_talks [session_rules]: "keeps_to (adds_calls P) m \<Longrightarrow> keeps_to (talks P) (plainly m)"
  unfolding keeps_to_def talks_def plainly_def adds_calls_def
  by (auto split: prod.split) (metis Conv.surjective Conv.update_convs(1) snd_conv)

definition same_origin :: "Lib \<Rightarrow> Session \<Rightarrow> string \<Rightarrow> bool"
  where "same_origin lib ses url \<longleftrightarrow> (\<exists>org. url_origin lib url = Some (Some org) \<and> ses_origin ses = Some org)"

lemma check_url_bind:
  "talk_bind (check_url lib ses url) (\<lambda>_. m) = (if same_origin lib ses url then m
    else talk_fail (failure (''the ACME server named a URL outside its directory'' @ [CHR 0x27] @ ''s origin: '' @ take_chars 200 url)))"
  by (rule ext) (auto simp: check_url_def same_origin_def talk_bind_def talk_return_def talk_fail_def split: option.split)

text \<open>Where nonces may be asked for.\<close>

definition nonce_calls :: "Lib \<Rightarrow> Session \<Rightarrow> (Call \<Rightarrow> bool) \<Rightarrow> bool"
  where "nonce_calls lib ses P \<longleftrightarrow> (same_origin lib ses (ses_new_nonce ses) \<longrightarrow>
    P (Http_call HEAD (ses_new_nonce ses) [] None) \<and> P (Http_call GET (ses_new_nonce ses) [] None))"

lemma nonce_tries_talks:
  assumes "P (Http_call meth url [] None)" "P (Http_call GET url [] None)"
  shows "keeps_to (talks P) (nonce_tries w url meth why n)"
  using assms
proof (induction n arbitrary: meth why)
  case 0
  show ?case by (simp add: session_rules)
next
  case (Suc n)
  then show ?case
    by (auto intro!: session_rules calls_ask split: sum.split option.split)
qed

lemma keep_nonce_talks [session_rules]: "keeps_to (talks P) (keep_nonce v)"
  unfolding keeps_to_def talks_def keep_nonce_def by (auto intro!: exI [of _ "[]"] exI [of _ v])

lemma take_nonce: "talks P c (c\<lparr>nonce := v\<rparr>)"
  unfolding talks_def by (intro exI [of _ "[]"] exI [of _ v]) simp

lemma fresh_nonce_talks:
  assumes "nonce_calls lib ses P"
  shows "keeps_to (talks P) (fresh_nonce w lib ses)"
proof -
  have "keeps_to (talks P) (talk_bind (check_url lib ses (ses_new_nonce ses)) (\<lambda>_.
      nonce_tries w (ses_new_nonce ses) HEAD [] REQUEST_TRIES))"
    using assms by (auto simp: check_url_bind nonce_calls_def intro!: session_rules nonce_tries_talks)
  then show ?thesis
    unfolding fresh_nonce_def keeps_to_def by (auto simp: take_nonce split: option.split)
qed

lemma send_signed_talks:
  assumes "nonce_calls lib ses P" "\<And>v t. P (Signed_call url v pay t)"
  shows "keeps_to (talks P) (send_signed w lib ses url pay)"
  unfolding send_signed_def Let_def
  by (intro session_rules fresh_nonce_talks calls_ask assms)

lemma post_tries_talks:
  assumes "nonce_calls lib ses P" "\<And>v t. P (Signed_call url v pay t)"
  shows "keeps_to (talks P) (post_tries w lib ses url pay n)"
proof (induction n)
  case 0
  show ?case
    by (subst post_tries.simps) (auto intro!: session_rules send_signed_talks assms)
next
  case (Suc n)
  then show ?case
    by (subst post_tries.simps) (auto intro!: session_rules send_signed_talks assms)
qed

lemma post_talks:
  assumes "nonce_calls lib ses P" "\<And>v t. same_origin lib ses url \<Longrightarrow> P (Signed_call url v pay t)"
  shows "keeps_to (talks P) (post w lib ses url pay)"
  using assms by (auto simp: post_def check_url_bind intro!: session_rules post_tries_talks)

lemma get_tries_talks:
  assumes "nonce_calls lib ses P" "\<And>v t. same_origin lib ses url \<Longrightarrow> P (Signed_call url v None t)"
  shows "keeps_to (talks P) (get_tries w lib ses url n)"
proof (induction n)
  case 0
  show ?case by (subst get_tries.simps) (auto intro!: session_rules post_talks assms split: sum.split)
next
  case (Suc n)
  then show ?case by (subst get_tries.simps) (auto intro!: session_rules post_talks assms split: sum.split)
qed

lemma parse_talks [session_rules]: "keeps_to (talks P) (parse lib decode what body)"
  by (simp add: parse_def session_rules split: option.split)

text \<open>What reads, orders and deactivations may send.\<close>

definition reads_calls :: "Lib \<Rightarrow> Session \<Rightarrow> (Call \<Rightarrow> bool) \<Rightarrow> bool"
  where "reads_calls lib ses P \<longleftrightarrow> nonce_calls lib ses P \<and>
    (\<forall>url v t. same_origin lib ses url \<longrightarrow> P (Signed_call url v None t) \<and> P (Signed_call url v (Some DEACTIVATED) t))"

lemma get_talks: "reads_calls lib ses P \<Longrightarrow> keeps_to (talks P) (get w lib ses url)"
  unfolding get_def reads_calls_def by (auto intro!: session_rules get_tries_talks)

lemma get_authorization_talks: "reads_calls lib ses P \<Longrightarrow> keeps_to (talks P) (get_authorization w lib ses url)"
  unfolding get_authorization_def by (intro session_rules get_talks)

lemma get_order_talks: "reads_calls lib ses P \<Longrightarrow> keeps_to (talks P) (get_order w lib ses url)"
  unfolding get_order_def by (intro session_rules get_talks)

lemma deactivate_talks: "reads_calls lib ses P \<Longrightarrow> keeps_to (talks P) (deactivate w lib ses url)"
  unfolding deactivate_def
  by (auto simp: reads_calls_def intro!: session_rules post_talks get_authorization_talks split: sum.split)

section \<open>What a reply shows\<close>

lemma plainly_Done: "plainly m c = (Done a, c') \<longleftrightarrow> (\<exists>log. m (sent c) = (Done a, log) \<and> c' = c\<lparr>sent := log\<rparr>)"
  by (auto simp: plainly_def split: prod.splits)

lemma ask_Done: "ask w call log = (Done r, log') \<Longrightarrow> answer w log call = Ok r \<and> log' = log @ [call]"
  by (auto simp: ask_def split: if_splits)

text \<open>The last call was this one and it was answered like this.\<close>

definition replied :: "Outside \<Rightarrow> Call list \<Rightarrow> string \<Rightarrow> json option \<Rightarrow> Reply \<Rightarrow> bytes \<Rightarrow> bool"
  where "replied w log url pay r body \<longleftrightarrow> (\<exists>before v t. log = before @ [Signed_call url v pay t] \<and>
    answer w before (Signed_call url v pay t) = Ok r \<and> reply_body r = Ok body)"

lemma send_signed_Done:
  assumes "send_signed w lib ses url pay c = (Done (r, body), c')"
  shows "replied w (sent c') url pay r body"
proof -
  let ?failed = "''ACME request to '' @ url @ '' failed''"
  from assms obtain v c1 tx c2 c3 where asked: "talk_context ?failed (plainly (ask w (Signed_call url v pay tx))) c1 = (Done r, c2)"
    and body: "talk_context ?failed (talk_result (reply_body r)) c3 = (Done body, c')" and c3: "c3 = c2\<lparr>nonce := reply_nonce r\<rparr>"
    unfolding send_signed_def Let_def by (auto elim!: talk_bind_Done simp: keep_nonce_def)
  from asked have "answer w (sent c1) (Signed_call url v pay tx) = Ok r" "sent c2 = sent c1 @ [Signed_call url v pay tx]"
    by (auto simp: talk_context_Done plainly_Done dest: ask_Done)
  moreover have "reply_body r = Ok body" "c' = c3" using body by (auto simp: talk_context_Done)
  ultimately show ?thesis using c3 unfolding replied_def by auto
qed

lemma post_tries_Done:
  "post_tries w lib ses url pay n c = (Done (r, body), c') \<Longrightarrow> replied w (sent c') url pay r body \<and> reply_status r < 400"
proof (induction n arbitrary: c)
  case 0
  then show ?case
    by (subst (asm) post_tries.simps) (auto elim!: talk_bind_Done dest: send_signed_Done split: if_splits)
next
  case (Suc n)
  then show ?case
    by (subst (asm) post_tries.simps) (auto elim!: talk_bind_Done dest: send_signed_Done split: if_splits)
qed

lemma post_Done:
  "post w lib ses url pay c = (Done (r, body), c') \<Longrightarrow> replied w (sent c') url pay r body \<and> reply_status r < 400"
  unfolding post_def check_url_bind by (auto split: if_splits dest: post_tries_Done)

lemma get_tries_Done:
  "get_tries w lib ses url n c = (Done (r, body), c') \<Longrightarrow> replied w (sent c') url None r body \<and> reply_status r < 400"
proof (induction n arbitrary: c)
  case 0
  then show ?case
    by (subst (asm) get_tries.simps) (auto elim!: talk_bind_Done simp: talk_try_Done dest: post_Done split: sum.splits)
next
  case (Suc n)
  then show ?case
    by (subst (asm) get_tries.simps) (auto elim!: talk_bind_Done simp: talk_try_Done dest: post_Done split: sum.splits if_splits)
qed

lemma parse_Done: "parse lib decode what body c = (Done a, c') \<longleftrightarrow> decode body = Some a \<and> c = c'"
  by (auto simp: parse_def split: option.splits)

lemma get_authorization_Done:
  assumes "get_authorization w lib ses url c = (Done au, c')"
  shows "\<exists>r body. replied w (sent c') url None r body \<and> reply_status r < 400 \<and> read_authorization lib body = Some au"
proof -
  obtain r body where "get_tries w lib ses url (REQUEST_TRIES - 1) c = (Done (r, body), c')" "read_authorization lib body = Some au"
    using assms unfolding get_authorization_def get_def by (auto elim!: talk_bind_Done simp: parse_Done)
  then show ?thesis using get_tries_Done by blast
qed

text \<open>An authorization that the certificate authority is done with: it showed a status other than pending, or
  accepted that it is deactivated.\<close>

definition settled_by :: "Outside \<Rightarrow> Lib \<Rightarrow> string \<Rightarrow> Call list \<Rightarrow> bool"
  where "settled_by w lib url log \<longleftrightarrow> (\<exists>r body. reply_status r < 400 \<and>
    (replied w log url (Some DEACTIVATED) r body \<or>
     (replied w log url None r body \<and> (\<exists>au. read_authorization lib body = Some au \<and> auth_status au \<noteq> ''pending''))))"

definition settled_in :: "Outside \<Rightarrow> Lib \<Rightarrow> string \<Rightarrow> Call list \<Rightarrow> bool"
  where "settled_in w lib url log \<longleftrightarrow> (\<exists>before after. log = before @ after \<and> settled_by w lib url before)"

lemma settled_in_append: "settled_in w lib url log \<Longrightarrow> settled_in w lib url (log @ after)"
  unfolding settled_in_def by (metis append.assoc)

lemma settled_in_append_mid: "settled_in w lib url (log @ mid) \<Longrightarrow> settled_in w lib url (log @ mid @ after)"
  using settled_in_append [of w lib url "log @ mid" after] by simp

lemma settled_inI: "settled_by w lib url log \<Longrightarrow> settled_in w lib url log"
  unfolding settled_in_def by (metis append_Nil2)

lemma settled_shown:
  assumes "get_authorization w lib ses url c = (Done au, c')" "auth_status au \<noteq> ''pending''"
  shows "settled_in w lib url (sent c')"
  using get_authorization_Done [OF assms(1)] assms(2) by (intro settled_inI) (auto simp: settled_by_def)

lemma settled_deactivated:
  assumes "deactivate w lib ses url c = (Done (), c')"
  shows "settled_in w lib url (sent c')"
proof -
  obtain answer c1 where tried: "talk_try (post w lib ses url (Some DEACTIVATED)) c = (Done answer, c1)"
    and rest: "(case answer of Inr _ \<Rightarrow> talk_return () | Inl e \<Rightarrow>
      talk_bind (get_authorization w lib ses url) (\<lambda>a.
        if auth_status a = ''pending'' then talk_fail (with_context ''deactivating an ACME authorization'' e)
        else talk_return ())) c1 = (Done (), c')"
    using assms unfolding deactivate_def by (rule talk_bind_Done)
  show ?thesis
  proof (cases answer)
    case (Inl e)
    then show ?thesis using rest by (auto elim!: talk_bind_Done dest: settled_shown split: if_splits)
  next
    case (Inr x)
    obtain r body where x: "x = (r, body)" by fastforce
    have "post w lib ses url (Some DEACTIVATED) c = (Done (r, body), c1)" using tried by (simp add: Inr x talk_try_Done)
    then have "replied w (sent c1) url (Some DEACTIVATED) r body \<and> reply_status r < 400" by (rule post_Done)
    moreover have "c' = c1" using rest Inr by simp
    ultimately show ?thesis by (intro settled_inI) (auto simp: settled_by_def)
  qed
qed

lemma undropped_simps [simp]: "answer (undropped w) = answer w" "redirects (undropped w) = redirects w"
proof -
  have "follow (undropped w) log c hops n = follow w log c hops n" for log c hops n
    by (induction n arbitrary: hops; subst (1 2) follow.simps)
      (simp_all add: undropped_def redirected_def redirect_failure_def split: sum.split option.split)
  then show "answer (undropped w) = answer w" "redirects (undropped w) = redirects w"
    by (simp_all add: answer_def redirects_def fun_eq_iff)
qed

lemma replied_undropped [simp]: "replied (undropped w) log url pay r body = replied w log url pay r body"
  unfolding replied_def undropped_simps ..

lemma settled_by_undropped [simp]: "settled_by (undropped w) lib url log = settled_by w lib url log"
  unfolding settled_by_def replied_undropped ..

lemma settled_in_undropped [simp]: "settled_in (undropped w) lib url log = settled_in w lib url log"
  unfolding settled_in_def settled_by_undropped ..

section \<open>Records outlive the authority's interest in them\<close>

text \<open>Answering a challenge.\<close>

definition answers :: "string \<Rightarrow> Call \<Rightarrow> bool"
  where "answers url c \<longleftrightarrow> (\<exists>v t. c = Signed_call url v (Some (JObject [])) t)"

text \<open>Every challenge answered since \<open>base\<close> is of an authorization that is unsettled or that the authority is done
  with, and no record has been removed.\<close>

definition watched :: "Outside \<Rightarrow> Lib \<Rightarrow> DnsProvider \<Rightarrow> Pending list \<Rightarrow> Call list \<Rightarrow> Attempt \<Rightarrow> bool"
  where "watched w lib dns ps base a \<longleftrightarrow> (\<exists>new. sent a = base @ new \<and> list_all (\<lambda>c. \<not> is_delete dns c) new \<and>
    (\<forall>c \<in> set new. \<forall>url. answers url c \<longrightarrow>
      (\<exists>p \<in> set ps. p_challenge_url p = url \<and> (p \<in> set (unsettled a) \<or> settled_in w lib (p_url p) (sent a)))))"

interpretation watching: steady "\<lambda>a b. watched w lib dns ps base a \<longrightarrow> watched w lib dns ps base b"
  for w lib dns ps base
  by unfold_locales auto

definition quiet_call :: "DnsProvider \<Rightarrow> Call \<Rightarrow> bool"
  where "quiet_call dns c \<longleftrightarrow> \<not> is_delete dns c \<and> (\<forall>url. \<not> answers url c)"

lemma quiet_plain: "harmless dns c \<Longrightarrow> quiet_call dns c"
  by (auto simp: quiet_call_def harmless_def answers_def)

lemma not_delete_signed [simp]: "\<not> is_delete dns (Signed_call url v pay t)"
  by (cases dns) simp_all

lemma nonce_calls_quiet: "nonce_calls lib ses (quiet_call dns)"
  by (cases dns) (auto simp: nonce_calls_def quiet_call_def answers_def)

lemma reads_calls_quiet: "reads_calls lib ses (quiet_call dns)"
  using nonce_calls_quiet by (auto simp: reads_calls_def quiet_call_def answers_def DEACTIVATED_def)

lemma watched_quiet:
  assumes "talks (quiet_call dns) a b" "watched w lib dns ps base a"
  shows "watched w lib dns ps base b"
proof -
  obtain new v where b: "b = a\<lparr>nonce := v, sent := sent a @ new\<rparr>" "list_all (quiet_call dns) new"
    using assms(1) by (auto simp: talks_def)
  obtain old where old: "sent a = base @ old" "list_all (\<lambda>c. \<not> is_delete dns c) old"
      "\<forall>c \<in> set old. \<forall>url. answers url c \<longrightarrow>
        (\<exists>p \<in> set ps. p_challenge_url p = url \<and> (p \<in> set (unsettled a) \<or> settled_in w lib (p_url p) (sent a)))"
    using assms(2) by (auto simp: watched_def)
  show ?thesis
    unfolding watched_def using b old
    by (intro exI [of _ "old @ new"]) (auto 0 4 simp: list_all_iff quiet_call_def intro: settled_in_append_mid)
qed

lemma watching_quiet:
  "keeps_to (talks (quiet_call dns)) m \<Longrightarrow> keeps_to (\<lambda>a b. watched w lib dns ps base a \<longrightarrow> watched w lib dns ps base b) m"
  unfolding keeps_to_def using watched_quiet by blast

lemma create_records_watched:
  "keeps_to (\<lambda>a b. watched w lib dns ps base a \<longrightarrow> watched w lib dns ps base b) (create_records w' codec dns rs)"
proof (induction rs)
  case Nil
  show ?case by (simp add: watching.keeps_talk_return)
next
  case (Cons r rs)
  obtain name v where r: "r = (name, v)" by fastforce
  have "keeps_to (adds_calls (quiet_call dns)) (create_txt w' codec dns name v)"
    using create_txt_calls [of dns w' codec name v] unfolding keeps_to_def
    by (auto intro: adds_calls_mono quiet_plain)
  then have created: "keeps_to (talks (quiet_call dns)) (talk_context ''creating the DNS challenge record''
      (plainly (create_txt w' codec dns name v) :: (Attempt, TxtRecord) run))"
    by (intro session_rules)
  have "keeps_to (\<lambda>a b. watched w lib dns ps base a \<longrightarrow> watched w lib dns ps base b) (push_record x)" for x
    by (auto simp: keeps_to_def push_record_def watched_def)
  then show ?case unfolding r create_records.simps
    by (intro watching.keeps_talk_bind [OF watching_quiet [OF created]] watching.keeps_talk_bind Cons.IH)
qed

lemma answer_watched:
  assumes "p \<in> set ps"
  shows "keeps_to (\<lambda>a b. watched w lib dns ps base a \<longrightarrow> watched w lib dns ps base b)
    (talk_bind (push_unsettled p) (\<lambda>_. post w' lib' ses (p_challenge_url p) (Some (JObject []))))"
proof (rule keeps_toI, rule impI)
  fix a assume watched: "watched w lib dns ps base a"
  let ?P = "\<lambda>c. quiet_call dns c \<or> answers (p_challenge_url p) c"
  let ?a = "a\<lparr>unsettled := unsettled a @ [p]\<rparr>"
  have "keeps_to (talks ?P) (post w' lib' ses (p_challenge_url p) (Some (JObject [])) :: (Attempt, Reply \<times> bytes) run)"
    using nonce_calls_quiet [of lib' ses dns] by (intro post_talks) (auto simp: nonce_calls_def answers_def)
  then have "talks ?P ?a (snd (post w' lib' ses (p_challenge_url p) (Some (JObject [])) ?a))"
    by (simp add: keeps_to_def)
  then obtain new v where b: "snd (post w' lib' ses (p_challenge_url p) (Some (JObject [])) ?a) =
      ?a\<lparr>nonce := v, sent := sent ?a @ new\<rparr>" "list_all ?P new"
    unfolding talks_def by blast
  obtain old where old: "sent a = base @ old" "list_all (\<lambda>c. \<not> is_delete dns c) old"
      "\<forall>c \<in> set old. \<forall>url. answers url c \<longrightarrow>
        (\<exists>p \<in> set ps. p_challenge_url p = url \<and> (p \<in> set (unsettled a) \<or> settled_in w lib (p_url p) (sent a)))"
    using watched by (auto simp: watched_def)
  have "list_all (\<lambda>c. \<not> is_delete dns c) new" "\<forall>c \<in> set new. \<forall>url. answers url c \<longrightarrow> url = p_challenge_url p"
    using b(2) by (auto simp: list_all_iff quiet_call_def answers_def)
  then have "watched w lib dns ps base (?a\<lparr>nonce := v, sent := sent ?a @ new\<rparr>)"
    unfolding watched_def using old assms
    by (intro exI [of _ "old @ new"]) (auto 0 4 simp: list_all_iff intro: settled_in_append_mid)
  with b(1) show "watched w lib dns ps base (snd (talk_bind (push_unsettled p)
      (\<lambda>_. post w' lib' ses (p_challenge_url p) (Some (JObject []))) a))"
    by (simp add: talk_bind_def push_unsettled_def)
qed

lemma talk_bind_assoc: "talk_bind m (\<lambda>a. talk_bind (f a) g) = talk_bind (talk_bind m f) g"
  by (rule ext) (simp add: talk_bind_def split: prod.split outcome.split)

lemma answer_challenges_watched:
  "set qs \<subseteq> set ps \<Longrightarrow>
    keeps_to (\<lambda>a b. watched w lib dns ps base a \<longrightarrow> watched w lib dns ps base b) (answer_challenges w' lib' ses qs)"
proof (induction qs)
  case Nil
  show ?case by (simp add: watching.keeps_talk_return)
next
  case (Cons q qs)
  then show ?case
    unfolding answer_challenges.simps talk_bind_assoc
    by (intro watching.keeps_talk_bind answer_watched) auto
qed

lemma watched_remove:
  assumes "watched w lib dns ps base a" "i < length (unsettled a)" "settled_in w lib (p_url (unsettled a ! i)) (sent a)"
  shows "watched w lib dns ps base (a\<lparr>unsettled := take i (unsettled a) @ drop (Suc i) (unsettled a)\<rparr>)"
proof -
  have "p \<in> set (take i (unsettled a) @ drop (Suc i) (unsettled a)) \<or> settled_in w lib (p_url p) (sent a)"
    if "p \<in> set (unsettled a)" for p
  proof -
    have "unsettled a = take i (unsettled a) @ unsettled a ! i # drop (Suc i) (unsettled a)"
      using assms(2) by (simp add: id_take_nth_drop)
    then have "p \<in> set (take i (unsettled a)) \<or> p = unsettled a ! i \<or> p \<in> set (drop (Suc i) (unsettled a))"
      using that by (metis Un_iff set_ConsD set_append)
    then show ?thesis using assms(3) by auto
  qed
  then show ?thesis using assms(1) unfolding watched_def by simp blast
qed

lemma settle_pass_watched:
  "watched w lib dns ps base a \<Longrightarrow> i + n \<le> length (unsettled a) \<Longrightarrow>
    watched w lib dns ps base (snd (settle_pass w lib ses n i a))"
proof (induction n arbitrary: i a)
  case 0
  then show ?case by (simp add: talk_return_def)
next
  case (Suc n)
  let ?p = "unsettled a ! i"
  obtain r b where got: "get_authorization w lib ses (p_url ?p) a = (r, b)" by fastforce
  have talk: "talks (quiet_call dns) a b"
    by (rule keeps_toD [OF get_authorization_talks [OF reads_calls_quiet] got])
  then have watched: "watched w lib dns ps base b" using watched_quiet Suc.prems(1) by blast
  have same: "unsettled b = unsettled a" using talk by (auto simp: talks_def)
  show ?case
  proof (cases r)
    case (Done au)
    let ?removed = "b\<lparr>unsettled := take i (unsettled b) @ drop (Suc i) (unsettled b)\<rparr>"
    have removed: "watched w lib dns ps base ?removed" if "auth_status au \<noteq> ''pending''"
      using watched_remove [OF watched] settled_shown [OF got [unfolded Done] that] Suc.prems(2) same by simp
    have step: "settle_pass w lib ses (Suc n) i a =
        (if auth_status au = ''valid'' then settle_pass w lib ses n i ?removed
         else if auth_status au = ''pending'' then settle_pass w lib ses n (Suc i) b
         else (Failed (authorization_failed lib ?p au), ?removed))"
      using got Done by (simp add: Let_def talk_bind_def remove_unsettled_def talk_fail_def)
    have "i + n \<le> length (unsettled ?removed)" "Suc i + n \<le> length (unsettled b)"
      using Suc.prems(2) same by auto
    then show ?thesis unfolding step using removed watched Suc.IH by auto
  qed (use got watched in \<open>simp_all add: Let_def talk_bind_def\<close>)
qed

lemma settle_rounds_watched:
  "keeps_to (\<lambda>a b. watched w lib dns ps base a \<longrightarrow> watched w lib dns ps base b) (settle_rounds w lib ses polls)"
proof (induction polls)
  case 0
  show ?case
    by (subst settle_rounds.simps, rule watching.keeps_talk_bind)
       (auto simp: keeps_to_def intro: settle_pass_watched)
next
  case (Suc polls)
  then show ?case
    by (subst settle_rounds.simps, intro watching.keeps_talk_bind)
       (auto simp: keeps_to_def intro: settle_pass_watched)
qed

lemma poll_order_talks: "reads_calls lib ses P \<Longrightarrow> keeps_to (talks P) (poll_order w lib ses url status n order)"
  by (induction n arbitrary: order) (auto intro!: session_rules get_order_talks)

lemma finalize_talks:
  assumes "reads_calls lib ses P" "\<And>url v t csr. same_origin lib ses url \<Longrightarrow> P (Signed_call url v (Some (JObject [(''csr'', csr)])) t)"
  shows "keeps_to (talks P) (finalize w lib ses url csr order)"
  using assms unfolding finalize_def
  by (auto simp: reads_calls_def intro!: session_rules post_talks get_order_talks split: option.split)

lemma download_talks: "reads_calls lib ses P \<Longrightarrow> keeps_to (talks P) (download w lib ses csr order)"
  unfolding download_def by (auto intro!: session_rules get_talks split: option.split)

lemma wait_talks:
  assumes "\<And>url q. P (Http_call GET url q None)"
  shows "keeps_to (talks P) (\<lambda>a :: Attempt. plainly (wait_for_propagation w codec (records a) rounds) a)"
proof (rule keeps_toI)
  fix a :: Attempt
  have "keeps_to (talks P) (plainly (wait_for_propagation w codec (records a) rounds) :: (Attempt, unit) run)"
    by (intro session_rules wait_for_propagation_calls assms)
  then show "talks P a (snd (plainly (wait_for_propagation w codec (records a) rounds) a))"
    by (simp add: keeps_to_def)
qed

text \<open>What an attempt does once the challenges are settled.\<close>

definition fetch_certificate :: "Outside \<Rightarrow> Lib \<Rightarrow> Session \<Rightarrow> string \<Rightarrow> string \<Rightarrow> (Attempt, Issued) run"
  where "fetch_certificate w lib ses order_url csr_pem =
    talk_bind (get_order w lib ses order_url) (\<lambda>order.
    talk_bind (poll_order w lib ses order_url ''pending'' ORDER_POLLS order) (\<lambda>order.
      case pem_der lib csr_pem of
        None \<Rightarrow> talk_fail (failure ''CSR is not PEM'')
      | Some csr \<Rightarrow>
          talk_bind (finalize w lib ses order_url csr order) (\<lambda>order.
          talk_bind (poll_order w lib ses order_url ''processing'' ORDER_POLLS order) (\<lambda>order.
            download w lib ses csr order))))"

lemma run_attempt_parts: "run_attempt w lib codec dns rounds ses order_url pending csr_pem =
    talk_bind (create_records w codec dns (wanted_records pending [])) (\<lambda>_.
    talk_bind (\<lambda>a. plainly (wait_for_propagation w codec (records a) rounds) a) (\<lambda>_.
    talk_bind (answer_challenges w lib ses pending) (\<lambda>_.
    talk_bind (settle_rounds w lib ses AUTHORIZATION_POLLS) (\<lambda>_. fetch_certificate w lib ses order_url csr_pem))))"
  by (simp add: run_attempt_def fetch_certificate_def)

lemma fetch_certificate_talks:
  assumes "reads_calls lib ses P" "\<And>url v t csr. same_origin lib ses url \<Longrightarrow> P (Signed_call url v (Some (JObject [(''csr'', csr)])) t)"
  shows "keeps_to (talks P) (fetch_certificate w lib ses order_url csr_pem)"
  unfolding fetch_certificate_def
  by (auto intro!: session_rules get_order_talks poll_order_talks finalize_talks download_talks assms split: option.split)

lemma run_attempt_watched:
  "keeps_to (\<lambda>a b. watched w lib dns pending base a \<longrightarrow> watched w lib dns pending base b)
    (run_attempt w lib codec dns rounds ses order_url pending csr_pem)"
proof -
  have waits: "keeps_to (talks (quiet_call dns)) (\<lambda>a :: Attempt. plainly (wait_for_propagation w codec (records a) rounds) a)"
    by (intro wait_talks quiet_plain harmless_get)
  have fetches: "keeps_to (talks (quiet_call dns)) (fetch_certificate w lib ses order_url csr_pem)"
    by (intro fetch_certificate_talks reads_calls_quiet) (simp add: quiet_call_def answers_def)
  show ?thesis unfolding run_attempt_parts
    by (intro watching.keeps_talk_bind create_records_watched answer_challenges_watched settle_rounds_watched
        watching_quiet [OF waits] watching_quiet [OF fetches]) simp
qed

section \<open>Which records there are\<close>

interpretation recorded: steady "\<lambda>a b :: Attempt. records a = records b"
  by unfold_locales auto

lemma recorded_talks: "keeps_to (talks P) m \<Longrightarrow> keeps_to (\<lambda>a b :: Attempt. records a = records b) m"
  unfolding keeps_to_def talks_def by (metis Attempt.select_convs(1) Attempt.surjective Conv.update_convs(1,2))

lemma any_talks: "reads_calls lib ses (\<lambda>_. True)"
  by (simp add: reads_calls_def nonce_calls_def)

lemma answer_challenges_records: "keeps_to (\<lambda>a b. records a = records b) (answer_challenges w lib ses ps)"
proof (induction ps)
  case Nil
  show ?case by (simp add: recorded.keeps_talk_return)
next
  case (Cons p ps)
  have "keeps_to (talks (\<lambda>_. True)) (post w lib ses (p_challenge_url p) (Some (JObject [])) :: (Attempt, Reply \<times> bytes) run)"
    by (intro post_talks) (simp_all add: nonce_calls_def)
  moreover have "keeps_to (\<lambda>a b. records a = records b) (push_unsettled p)"
    by (simp add: keeps_to_def push_unsettled_def)
  ultimately show ?case
    unfolding answer_challenges.simps by (intro recorded.keeps_talk_bind [OF _ recorded.keeps_talk_bind [OF recorded_talks]] Cons.IH)
qed

lemma settle_pass_records: "keeps_to (\<lambda>a b. records a = records b) (settle_pass w lib ses n i)"
proof (induction n arbitrary: i)
  case 0
  show ?case by (simp add: recorded.keeps_talk_return)
next
  case (Suc n)
  have got: "keeps_to (\<lambda>a b :: Attempt. records a = records b) (get_authorization w lib ses url)" for url
    by (rule recorded_talks [OF get_authorization_talks [OF any_talks]])
  have removed: "keeps_to (\<lambda>a b. records a = records b) (remove_unsettled i)"
    by (simp add: keeps_to_def remove_unsettled_def)
  have "keeps_to (\<lambda>a b :: Attempt. records a = records b) (talk_bind (get_authorization w lib ses (p_url p)) (\<lambda>au.
       if auth_status au = ''valid'' then talk_bind (remove_unsettled i) (\<lambda>_. settle_pass w lib ses n i)
       else if auth_status au = ''pending'' then settle_pass w lib ses n (Suc i)
       else talk_bind (remove_unsettled i) (\<lambda>_. talk_fail (authorization_failed lib p au))))" for p
    by (auto intro!: recorded.keeps_talk_bind [OF got] recorded.keeps_talk_bind [OF removed] recorded.keeps_fail Suc.IH)
  then show ?case by (auto simp: keeps_to_def Let_def)
qed

lemma settle_rounds_records: "keeps_to (\<lambda>a b. records a = records b) (settle_rounds w lib ses polls)"
proof (induction polls)
  case 0
  show ?case
    by (subst settle_rounds.simps, rule recorded.keeps_talk_bind) (use settle_pass_records in \<open>auto simp: keeps_to_def\<close>)
next
  case (Suc polls)
  show ?case
    by (subst settle_rounds.simps, rule recorded.keeps_talk_bind) (use settle_pass_records Suc.IH in \<open>auto simp: keeps_to_def\<close>)
qed

lemma settle_rounds_Done: "settle_rounds w lib ses polls a = (Done (), b) \<Longrightarrow> unsettled b = []"
proof (induction polls arbitrary: a)
  case 0
  then show ?case by (subst (asm) settle_rounds.simps) (auto elim!: talk_bind_Done split: if_splits)
next
  case (Suc polls)
  then show ?case by (subst (asm) settle_rounds.simps) (auto elim!: talk_bind_Done split: if_splits)
qed

abbreviation named :: "TxtRecord list \<Rightarrow> (string \<times> string) list"
  where "named rs \<equiv> map (\<lambda>r. (txt_name r, txt_value r)) rs"

lemma create_txt_Done: "create_txt w codec dns name v log = (Done r, log') \<Longrightarrow> txt_name r = name \<and> txt_value r = v"
  by (cases dns) (auto simp: create_txt_def txt_record_def Let_def elim!: talk_bind_Done split: sum.splits if_splits)

lemma create_records_Done:
  "create_records w codec dns rs a = (Done (), b) \<Longrightarrow> named (records b) = named (records a) @ rs"
proof (induction rs arbitrary: a)
  case (Cons r rs)
  obtain name v where r: "r = (name, v)" by fastforce
  from Cons.prems obtain x a1 where x: "plainly (create_txt w codec dns name v) a = (Done x, a1)"
    and rest: "create_records w codec dns rs (a1\<lparr>records := records a1 @ [x]\<rparr>) = (Done (), b)"
    unfolding r by (auto elim!: talk_bind_Done simp: talk_context_Done push_record_def)
  have "txt_name x = name \<and> txt_value x = v" "records a1 = records a"
    using x create_txt_Done by (auto simp: plainly_Done)
  with Cons.IH [OF rest] show ?case by (simp add: r)
qed simp

lemma run_attempt_Done:
  assumes "run_attempt w lib codec dns rounds ses order_url pending csr_pem a = (Done issued, b)" "records a = []"
  shows "unsettled b = [] \<and> named (records b) = wanted_records pending []"
proof -
  from assms(1) obtain a1 a2 a3 a4 where run:
      "create_records w codec dns (wanted_records pending []) a = (Done (), a1)"
      "plainly (wait_for_propagation w codec (records a1) rounds) a1 = (Done (), a2)"
      "answer_challenges w lib ses pending a2 = (Done (), a3)"
      "settle_rounds w lib ses AUTHORIZATION_POLLS a3 = (Done (), a4)"
      "fetch_certificate w lib ses order_url csr_pem a4 = (Done issued, b)"
    unfolding run_attempt_parts by (auto elim!: talk_bind_Done)
  have fetched: "talks (\<lambda>_. True) a4 b"
    by (rule keeps_toD [OF fetch_certificate_talks [OF any_talks] run(5)]) simp
  have "talks (\<lambda>_. True) a1 a2"
    using wait_talks [of "\<lambda>_. True" w codec rounds] run(2) unfolding keeps_to_def by (metis snd_conv)
  then have "records a2 = records a1" by (auto simp: talks_def)
  moreover have "records a2 = records a3" by (rule keeps_toD [OF answer_challenges_records run(3)])
  moreover have "records a3 = records a4" by (rule keeps_toD [OF settle_rounds_records run(4)])
  moreover have "records b = records a4" "unsettled b = unsettled a4" using fetched by (auto simp: talks_def)
  ultimately show ?thesis
    using create_records_Done [OF run(1)] settle_rounds_Done [OF run(4)] assms(2) by simp
qed

section \<open>The cleanup\<close>

text \<open>A run that is never dropped.\<close>

definition lasting :: "('s, 'a) run \<Rightarrow> bool"
  where "lasting m \<longleftrightarrow> (\<forall>s. fst (m s) \<noteq> Dropped)"

named_theorems lasting_rules

lemma lasting_basic [lasting_rules]:
  "lasting (talk_return a)" "lasting (talk_fail e)" "lasting (talk_result x)"
  by (auto simp: lasting_def talk_return_def talk_fail_def talk_result_def split: sum.split)

lemma lasting_bind [lasting_rules]: "lasting m \<Longrightarrow> (\<And>a. lasting (f a)) \<Longrightarrow> lasting (talk_bind m f)"
  unfolding lasting_def talk_bind_def by (auto split: prod.split outcome.split) (metis fst_conv)

lemma lasting_try [lasting_rules]: "lasting m \<Longrightarrow> lasting (talk_try m)"
  unfolding lasting_def talk_try_def by (auto split: prod.split outcome.split) (metis fst_conv)

lemma lasting_json [lasting_rules]: "lasting (error_for_status w r)" "lasting (read_json w decode r)"
  by (auto simp: error_for_status_def read_json_def lasting_rules split: sum.split option.split)

lemma lasting_ask [lasting_rules]: "lasting (ask (undropped w) c)"
  by (auto simp: lasting_def ask_def undropped_def talk_result_def talk_return_def talk_fail_def split: sum.split)

lemma lasting_delete: "lasting (delete_txt (undropped w) codec dns record)"
proof -
  have tries: "lasting (delete_tries (undropped w) url i n why)" for url i n why
    by (induction n arbitrary: why) (auto intro!: lasting_rules split: sum.split)
  have found: "lasting (find_txt (undropped w) codec dns name v)" for dns name v
    by (cases dns) (auto simp: find_txt_def intro!: lasting_rules)
  have hook: "lasting (run_hook (undropped w) h action name v)" for h action name v
    by (auto simp: run_hook_def Let_def intro!: lasting_rules)
  show ?thesis
    by (cases dns)
       (auto simp: delete_txt_def remove_txt_def delete_id_def or_none_def
         intro!: lasting_rules tries found hook split: option.split)
qed

lemma deactivate_unsettled_run:
  assumes "deactivate_unsettled w lib ses ps b a = (r, a')"
  shows "talks (quiet_call dns) a a' \<and> (r = Done True \<longrightarrow> b \<and> (\<forall>p \<in> set ps. settled_in w lib (p_url p) (sent a')))"
  using assms
proof (induction ps arbitrary: a b)
  case Nil
  then show ?case by (auto simp: talk_return_def session.steady_refl)
next
  case (Cons p ps)
  obtain x a1 where x: "deactivate w lib ses (p_url p) a = (x, a1)" by fastforce
  have talk: "talks (quiet_call dns) a a1"
    by (rule keeps_toD [OF deactivate_talks [OF reads_calls_quiet] x])
  show ?case
  proof (cases x)
    case (Done u)
    then have "deactivate_unsettled w lib ses ps b a1 = (r, a')"
      using Cons.prems x by (simp add: talk_bind_def talk_try_def)
    from Cons.IH [OF this] have rest: "talks (quiet_call dns) a1 a'"
        "r = Done True \<longrightarrow> b \<and> (\<forall>p \<in> set ps. settled_in w lib (p_url p) (sent a'))" by auto
    obtain new where "sent a' = sent a1 @ new" using rest(1) by (auto simp: talks_def)
    then have "settled_in w lib (p_url p) (sent a')"
      using settled_deactivated x Done settled_in_append by fastforce
    then show ?thesis using rest session.steady_trans [OF talk rest(1)] by auto
  next
    case (Failed e)
    then have "deactivate_unsettled w lib ses ps False a1 = (r, a')"
      using Cons.prems x by (simp add: talk_bind_def talk_try_def)
    from Cons.IH [OF this] session.steady_trans [OF talk] show ?thesis by blast
  next
    case Dropped
    then have "r = Dropped" "a' = a1" using Cons.prems x by (simp_all add: talk_bind_def talk_try_def)
    then show ?thesis using talk by simp
  qed
qed

lemma dropped_undropped: "\<not> dropped (undropped w) log"
  by (simp add: undropped_def)

lemma lasting_plainly [lasting_rules]: "lasting m \<Longrightarrow> lasting (plainly m)"
  unfolding lasting_def plainly_def by (simp split: prod.split) (metis fst_conv)

lemma lasting_context [lasting_rules]: "lasting m \<Longrightarrow> lasting (talk_context what m)"
  unfolding lasting_def talk_context_def by (auto split: prod.split outcome.split) (metis fst_conv)

lemma lasting_nonce: "lasting (fresh_nonce (undropped w) lib ses)"
proof -
  have tries: "lasting (nonce_tries (undropped w) url meth why n)" for url meth why n
    by (induction n arbitrary: meth why) (auto intro!: lasting_rules split: sum.split option.split)
  have "lasting (talk_bind (check_url lib ses url) (\<lambda>_. nonce_tries (undropped w) url HEAD [] n))" for url n
    by (auto simp: check_url_bind intro!: lasting_rules tries)
  then show ?thesis by (auto simp: lasting_def fresh_nonce_def split: option.split)
qed

lemma lasting_post [lasting_rules]: "lasting (post (undropped w) lib ses url pay)"
proof -
  have keep: "lasting (keep_nonce v)" for v by (simp add: lasting_def keep_nonce_def)
  have one: "lasting (send_signed (undropped w) lib ses url pay)"
    by (auto simp: send_signed_def Let_def intro!: lasting_rules lasting_nonce keep)
  have "lasting (post_tries (undropped w) lib ses url pay n)" for n
    by (induction n; subst post_tries.simps) (auto intro!: lasting_rules one)
  then show ?thesis by (auto simp: post_def check_url_bind intro: lasting_rules)
qed

lemma lasting_deactivate: "lasting (deactivate (undropped w) lib ses url)"
proof -
  have tries: "lasting (get_tries (undropped w) lib ses url n)" for n
    by (induction n; subst get_tries.simps) (auto intro!: lasting_rules split: sum.split)
  have "lasting (get_authorization (undropped w) lib ses url)"
    by (auto simp: get_authorization_def get_def parse_def intro!: lasting_rules tries split: option.split)
  then show ?thesis by (auto simp: deactivate_def intro!: lasting_rules split: sum.split)
qed

text \<open>The authority gave no nonce: each try of a request for one was answered without it, or not at all.\<close>

definition no_nonce :: "Outside \<Rightarrow> Session \<Rightarrow> Call list \<Rightarrow> bool"
  where "no_nonce w ses log \<longleftrightarrow> (\<exists>before cs after. log = before @ cs @ after \<and> length cs = REQUEST_TRIES \<and>
    (\<forall>k < length cs. (\<exists>m. cs ! k = Http_call m (ses_new_nonce ses) [] None) \<and>
      (\<forall>r. answer w (before @ take k cs) (cs ! k) = Ok r \<longrightarrow> reply_nonce r = None)))"

lemma no_nonce_append: "no_nonce w ses log \<Longrightarrow> no_nonce w ses (log @ more_calls)"
  unfolding no_nonce_def by (metis append.assoc)

lemma nonce_tries_Failed:
  assumes "nonce_tries (undropped w) url meth why n c = (Failed e, c')"
  shows "\<exists>cs. sent c' = sent c @ cs \<and> length cs = n \<and>
    (\<forall>k < length cs. (\<exists>m. cs ! k = Http_call m url [] None) \<and>
      (\<forall>r. answer w (sent c @ take k cs) (cs ! k) = Ok r \<longrightarrow> reply_nonce r = None))"
  using assms
proof (induction n arbitrary: meth why c)
  case 0
  then show ?case by (simp add: talk_fail_def)
next
  case (Suc n)
  let ?c = "Http_call meth url [] None"
  let ?c1 = "c\<lparr>sent := sent c @ [?c]\<rparr>"
  have asked: "talk_try (plainly (ask (undropped w) ?c)) c = (Done (answer w (sent c) ?c), ?c1)"
    by (cases "answer w (sent c) ?c")
      (simp_all add: talk_try_def plainly_def ask_def talk_result_def talk_fail_def talk_return_def dropped_undropped)
  have none: "reply_nonce r = None" if "answer w (sent c) ?c = Ok r" for r
    using Suc.prems asked that by (cases "reply_nonce r") (simp_all add: talk_bind_def talk_return_def)
  obtain why' where "nonce_tries (undropped w) url GET why' n ?c1 = (Failed e, c')"
    using Suc.prems asked none by (cases "answer w (sent c) ?c") (auto simp: talk_bind_def)
  from Suc.IH [OF this] obtain cs where cs: "sent c' = sent c @ ?c # cs" "length cs = n"
      "\<forall>k < length cs. (\<exists>m. cs ! k = Http_call m url [] None) \<and>
        (\<forall>r. answer w (sent c @ ?c # take k cs) (cs ! k) = Ok r \<longrightarrow> reply_nonce r = None)" by auto
  then show ?case
    using none by (intro exI [of _ "?c # cs"]) (auto simp: less_Suc_eq_0_disj)
qed

text \<open>A request was made, or there is a reason why it could not be: an address outside the origin, no signature, or no nonce.\<close>

definition requested :: "Outside \<Rightarrow> Lib \<Rightarrow> Session \<Rightarrow> string \<Rightarrow> json option \<Rightarrow> Call list \<Rightarrow> Call list \<Rightarrow> bool"
  where "requested w lib ses url pay base log \<longleftrightarrow>
    (\<exists>new v t. log = base @ new \<and> Signed_call url v pay t \<in> set new) \<or>
    \<not> same_origin lib ses url \<or> \<not> same_origin lib ses (ses_new_nonce ses) \<or>
    (\<exists>v e. sign lib ses url v pay = Err e) \<or> no_nonce w ses log"

lemma requested_append: "requested w lib ses url pay base log \<Longrightarrow> requested w lib ses url pay base (log @ more_calls)"
  unfolding requested_def by (auto simp: no_nonce_append)

lemma requested_earlier: "requested w lib ses url pay (base @ mid) log \<Longrightarrow> requested w lib ses url pay base log"
  unfolding requested_def by (metis append.assoc UnI2 set_append)

lemma send_signed_requested:
  assumes "send_signed (undropped w) lib ses url pay c = (x, c')"
  shows "requested w lib ses url pay (sent c) (sent c')"
proof -
  obtain y c1 where y: "fresh_nonce (undropped w) lib ses c = (y, c1)" by fastforce
  have "y \<noteq> Dropped" using y lasting_nonce [of w lib ses] unfolding lasting_def by (metis fst_conv)
  obtain mid where mid: "sent c1 = sent c @ mid"
    using keeps_toD [OF fresh_nonce_talks y, of "\<lambda>_. True"] by (auto simp: nonce_calls_def talks_def)
  show ?thesis
  proof (cases y)
    case (Failed e)
    then have same: "c' = c1" using assms y by (simp add: send_signed_def Let_def talk_bind_def)
    have failed: "talk_bind (check_url lib ses (ses_new_nonce ses))
        (\<lambda>_. nonce_tries (undropped w) (ses_new_nonce ses) HEAD [] REQUEST_TRIES) c = (Failed e, c1)"
      using y Failed by (simp add: fresh_nonce_def split: option.splits)
    show ?thesis
    proof (cases "same_origin lib ses (ses_new_nonce ses)")
      case True
      then have "nonce_tries (undropped w) (ses_new_nonce ses) HEAD [] REQUEST_TRIES c = (Failed e, c1)"
        using failed by (simp add: check_url_bind)
      from nonce_tries_Failed [OF this] obtain cs where "sent c1 = sent c @ cs @ []" "length cs = REQUEST_TRIES"
        "\<forall>k < length cs. (\<exists>m. cs ! k = Http_call m (ses_new_nonce ses) [] None) \<and>
          (\<forall>r. answer w (sent c @ take k cs) (cs ! k) = Ok r \<longrightarrow> reply_nonce r = None)" by auto
      then have "no_nonce w ses (sent c1)" unfolding no_nonce_def by blast
      then show ?thesis by (simp add: requested_def same)
    qed (simp add: requested_def)
  next
    case (Done v)
    show ?thesis
    proof (cases "sign lib ses url v pay")
      case (Inr t)
      let ?c = "Signed_call url v pay t"
      have asked: "snd (ask (undropped w) ?c log) = log @ [?c]" for log
        by (simp add: ask_def talk_result_def talk_fail_def talk_return_def dropped_undropped split: sum.split)
      define failed where "failed = ''ACME request to '' @ url @ '' failed''"
      define rest :: "Reply \<Rightarrow> ('a Conv_scheme, Reply \<times> bytes) run" where "rest = (\<lambda>r. talk_bind (keep_nonce (reply_nonce r)) (\<lambda>_.
        talk_bind (talk_context failed (talk_result (reply_body r))) (\<lambda>body. talk_return (r, body))))"
      have "talk_bind (talk_context failed (plainly (ask (undropped w) ?c))) rest c1 = (x, c')"
        using assms y Done Inr by (simp add: send_signed_def Let_def talk_bind_def talk_result_def talk_return_def failed_def rest_def)
      moreover have "sent (snd (talk_context failed (plainly (ask (undropped w) ?c)) c1)) = sent c1 @ [?c]"
        using asked [of "sent c1"] by (auto simp: talk_context_def plainly_def split: prod.split outcome.split)
      moreover have "keeps_to (talks (\<lambda>_. True)) (rest r)" for r unfolding rest_def by (intro session_rules)
      then have "sent (snd (rest r c2)) = sent c2" for r c2
        by (auto simp: rest_def talk_bind_def keep_nonce_def talk_context_def talk_result_def talk_return_def talk_fail_def split: sum.split)
      ultimately have "sent c' = sent c1 @ [?c]"
        unfolding talk_bind_def by (auto split: prod.splits outcome.splits) (metis snd_conv)
      then show ?thesis unfolding requested_def using mid by (intro disjI1 exI [of _ "mid @ [?c]"]) auto
    qed (auto simp: requested_def)
  qed (use \<open>y \<noteq> Dropped\<close> in simp)
qed

lemma post_requested:
  assumes "post (undropped w) lib ses url pay c = (x, c')"
  shows "requested w lib ses url pay (sent c) (sent c')"
proof (cases "same_origin lib ses url")
  case True
  have run: "post_tries (undropped w) lib ses url pay (Suc 2) c = (x, c')"
    using assms True by (simp add: post_def check_url_bind eval_nat_numeral)
  obtain y c1 where y: "send_signed (undropped w) lib ses url pay c = (y, c1)" by fastforce
  have "talks (\<lambda>_. True) c1 c'"
  proof (cases y)
    case (Done rb)
    let ?rest = "\<lambda>(r, body). if reply_status r < 400 then talk_return (r, body)
       else if bad_nonce lib body then post_tries (undropped w) lib ses url pay 2 else talk_fail (problem_of lib url r body)"
    have "keeps_to (talks (\<lambda>_. True)) (?rest rb)"
      by (auto intro!: session_rules post_tries_talks simp: nonce_calls_def split: prod.split)
    moreover have "?rest rb c1 = (x, c')"
      using run y Done by (subst (asm) post_tries.simps) (cases rb, simp add: talk_bind_def split: if_splits)
    ultimately show ?thesis by (rule keeps_toD)
  qed (use run y in \<open>subst (asm) post_tries.simps, simp add: talk_bind_def session.steady_refl\<close>)+
  then obtain later where "sent c' = sent c1 @ later" by (auto simp: talks_def)
  then show ?thesis using requested_append [OF send_signed_requested [OF y]] by simp
qed (simp add: requested_def)

lemma deactivate_requested:
  assumes "deactivate (undropped w) lib ses url c = (x, c')"
  shows "requested w lib ses url (Some DEACTIVATED) (sent c) (sent c')"
proof -
  obtain y c1 where y: "post (undropped w) lib ses url (Some DEACTIVATED) c = (y, c1)" by fastforce
  have "y \<noteq> Dropped" using y lasting_post [of w lib ses url "Some DEACTIVATED"] unfolding lasting_def by (metis fst_conv)
  have "keeps_to (talks (\<lambda>_. True)) (talk_bind (get_authorization (undropped w) lib ses url) (\<lambda>a.
      if auth_status a = ''pending'' then talk_fail e' else talk_return ()))" for e'
    by (auto intro!: session_rules get_authorization_talks any_talks)
  moreover have "talk_try (post (undropped w) lib ses url (Some DEACTIVATED)) c = (Done (case y of Failed e \<Rightarrow> Err e | Done a \<Rightarrow> Ok a), c1)"
    using y \<open>y \<noteq> Dropped\<close> by (cases y) (simp_all add: talk_try_def)
  ultimately have "talks (\<lambda>_. True) c1 c'"
    using assms \<open>y \<noteq> Dropped\<close> unfolding deactivate_def
    by (cases y) (auto simp: talk_bind_run(1) talk_return_def session.steady_refl dest: keeps_toD)
  then obtain later where "sent c' = sent c1 @ later" by (auto simp: talks_def)
  then show ?thesis using requested_append [OF post_requested [OF y]] by simp
qed

lemma deactivate_unsettled_requested:
  assumes "deactivate_unsettled (undropped w) lib ses ps b a = (r, a')" "p \<in> set ps"
  shows "requested w lib ses (p_url p) (Some DEACTIVATED) (sent a) (sent a')"
  using assms
proof (induction ps arbitrary: a b)
  case (Cons q ps)
  obtain x a1 where x: "deactivate (undropped w) lib ses (p_url q) a = (x, a1)" by fastforce
  have "x \<noteq> Dropped" using x lasting_deactivate [of w lib ses "p_url q"] unfolding lasting_def by (metis fst_conv)
  then obtain b' where rest: "deactivate_unsettled (undropped w) lib ses ps b' a1 = (r, a')"
    using Cons.prems(1) x by (cases x) (auto simp: talk_bind_def talk_try_def)
  obtain mid where mid: "sent a1 = sent a @ mid"
    using keeps_toD [OF deactivate_talks [OF any_talks] x] by (auto simp: talks_def)
  obtain later where later: "sent a' = sent a1 @ later"
    using deactivate_unsettled_run [OF rest, of "Exec []"] by (auto simp: talks_def)
  show ?case
  proof (cases "p = q")
    case True
    then show ?thesis using requested_append [OF deactivate_requested [OF x]] later by simp
  next
    case False
    then show ?thesis using Cons.IH [OF rest] Cons.prems(2) requested_earlier mid by auto
  qed
qed simp

text \<open>The calls of removing a record are among those made.\<close>

definition removal_tried :: "Outside \<Rightarrow> DnsCodec \<Rightarrow> DnsProvider \<Rightarrow> TxtRecord \<Rightarrow> Call list \<Rightarrow> bool"
  where "removal_tried w codec dns record log \<longleftrightarrow>
    (\<exists>before after. log = snd (delete_txt (undropped w) codec dns record before) @ after)"

lemma delete_records_run:
  "\<exists>new. snd (delete_records (undropped w) codec dns rs a) = a\<lparr>sent := sent a @ new\<rparr> \<and> list_all plain_call new \<and>
    (\<forall>record \<in> set rs. removal_tried w codec dns record (sent a @ new))"
proof (induction rs arbitrary: a)
  case Nil
  show ?case by (intro exI [of _ "[]"]) (simp add: talk_return_def)
next
  case (Cons tr rs)
  obtain x log where x: "delete_txt (undropped w) codec dns tr (sent a) = (x, log)" by fastforce
  then obtain new where new: "log = sent a @ new" "list_all plain_call new"
    using keeps_toD [OF delete_txt_calls x] by (auto simp: adds_calls_def)
  have "x \<noteq> Dropped"
    using x lasting_delete [of w codec dns tr] unfolding lasting_def by (metis fst_conv)
  moreover have "x \<noteq> Failed e" for e
    using x unfolding delete_txt_def by (auto simp: talk_bind_def talk_try_def talk_return_def split: prod.splits outcome.splits)
  ultimately obtain u where u: "x = Done u" by (cases x) auto
  obtain new' where new': "snd (delete_records (undropped w) codec dns rs (a\<lparr>sent := log\<rparr>)) = a\<lparr>sent := log @ new'\<rparr>"
      "list_all plain_call new'" "\<forall>record \<in> set rs. removal_tried w codec dns record (log @ new')"
    using Cons.IH [of "a\<lparr>sent := log\<rparr>"] by auto
  have "removal_tried w codec dns tr (log @ new')"
    unfolding removal_tried_def using x by (metis snd_conv)
  then show ?case
    using x u new new' by (intro exI [of _ "new @ new'"]) (simp add: talk_bind_def plainly_def)
qed

section \<open>Where signed requests go\<close>

definition at_home :: "Lib \<Rightarrow> string option \<Rightarrow> Call \<Rightarrow> bool"
  where "at_home lib org c = (case c of
     Signed_call url _ _ _ \<Rightarrow> org \<noteq> None \<and> url_origin lib url = Some org
   | _ \<Rightarrow> True)"

lemma at_home_plain: "plain_call c \<Longrightarrow> at_home lib org c"
  by (cases c) (simp_all add: at_home_def)

lemma home_signed: "same_origin lib ses url \<Longrightarrow> at_home lib (ses_origin ses) (Signed_call url v pay t)"
  by (auto simp: at_home_def same_origin_def)

lemma home_reads: "reads_calls lib ses (at_home lib (ses_origin ses))"
  by (auto simp: reads_calls_def nonce_calls_def home_signed at_home_plain)

lemma home_post: "keeps_to (talks (at_home lib (ses_origin ses))) (post w lib ses url pay)"
  using home_reads by (intro post_talks home_signed) (auto simp: reads_calls_def)

lemma home_read_authorizations:
  "keeps_to (talks (at_home lib (ses_origin ses))) (read_authorizations w lib ses thumb urls ps stale usable)"
  by (induction urls arbitrary: ps stale usable)
     (auto intro!: session_rules get_authorization_talks home_reads split: option.split)

lemma home_place_order: "keeps_to (talks (at_home lib (ses_origin ses))) (place_order w lib ses url names thumb)"
proof -
  have each: "keeps_to (talks (at_home lib (ses_origin ses))) (deactivate_each w lib ses urls)" for urls
    by (induction urls) (auto intro!: session_rules deactivate_talks home_reads)
  have "keeps_to (talks (at_home lib (ses_origin ses))) (place_orders w lib ses url names thumb n)" for n
    by (induction n) (auto intro!: session_rules home_post home_read_authorizations each split: option.split)
  then show ?thesis by (simp add: place_order_def)
qed

text \<open>The calls of an attempt, whatever becomes of its records and authorizations.\<close>

definition at_home_since :: "Lib \<Rightarrow> string option \<Rightarrow> Attempt \<Rightarrow> Attempt \<Rightarrow> bool"
  where "at_home_since lib org a b \<longleftrightarrow> adds_calls (at_home lib org) (sent a) (sent b)"

interpretation home: steady "at_home_since lib org" for lib org
  by unfold_locales (auto simp: at_home_since_def intro: calls.steady_refl calls.steady_trans)

lemma home_talks: "keeps_to (talks (at_home lib org)) m \<Longrightarrow> keeps_to (at_home_since lib org) m"
  unfolding keeps_to_def talks_def at_home_since_def adds_calls_def by (metis Conv.select_convs(2) Conv.surjective Conv.update_convs(2))

lemma home_plainly: "keeps_to (adds_calls plain_call) m \<Longrightarrow> keeps_to (at_home_since lib org) (plainly m)"
  by (intro home_talks plainly_talks) (auto simp: keeps_to_def intro: adds_calls_mono at_home_plain)

lemma home_updates:
  "keeps_to (at_home_since lib org) (push_record r)" "keeps_to (at_home_since lib org) (push_unsettled p)"
  "keeps_to (at_home_since lib org) (remove_unsettled i)"
  by (auto simp: keeps_to_def at_home_since_def push_record_def push_unsettled_def remove_unsettled_def calls.steady_refl)

lemma home_create_records: "keeps_to (at_home_since lib org) (create_records w codec dns rs)"
proof (induction rs)
  case (Cons r rs)
  obtain name v where r: "r = (name, v)" by fastforce
  have "keeps_to (adds_calls plain_call) (create_txt w codec dns name v)"
    using create_txt_calls [of dns w codec name v] by (auto simp: keeps_to_def harmless_def intro: adds_calls_mono)
  then show ?case
    unfolding r create_records.simps by (intro home.keeps_talk_bind home.keeps_context home_plainly home_updates Cons.IH)
qed (simp add: home.keeps_talk_return)

lemma home_answer_challenges: "keeps_to (at_home_since lib (ses_origin ses)) (answer_challenges w lib ses ps)"
  by (induction ps) (auto intro!: home.keeps_basic home_updates home_talks [OF home_post])

lemma home_settle_pass: "keeps_to (at_home_since lib (ses_origin ses)) (settle_pass w lib ses n i)"
proof (induction n arbitrary: i)
  case (Suc n)
  have "keeps_to (at_home_since lib (ses_origin ses)) (talk_bind (get_authorization w lib ses (p_url p)) (\<lambda>au.
       if auth_status au = ''valid'' then talk_bind (remove_unsettled i) (\<lambda>_. settle_pass w lib ses n i)
       else if auth_status au = ''pending'' then settle_pass w lib ses n (Suc i)
       else talk_bind (remove_unsettled i) (\<lambda>_. talk_fail (authorization_failed lib p au))))" for p
    by (auto intro!: home.keeps_talk_bind home.keeps_fail home_updates home_talks [OF get_authorization_talks [OF home_reads]] Suc.IH)
  then show ?case by (auto simp: keeps_to_def Let_def)
qed (simp add: home.keeps_talk_return)

lemma home_settle_rounds: "keeps_to (at_home_since lib (ses_origin ses)) (settle_rounds w lib ses polls)"
proof (induction polls)
  case 0
  show ?case
    by (subst settle_rounds.simps, rule home.keeps_talk_bind)
       (use home_settle_pass home.steady_refl in \<open>auto simp: keeps_to_def\<close>)
next
  case (Suc polls)
  show ?case
    by (subst settle_rounds.simps, rule home.keeps_talk_bind)
       (use home_settle_pass Suc.IH home.steady_refl in \<open>auto simp: keeps_to_def\<close>)
qed

lemma home_run_attempt:
  "keeps_to (at_home_since lib (ses_origin ses)) (run_attempt w lib codec dns rounds ses order_url pending csr_pem)"
proof -
  have "keeps_to (at_home_since lib (ses_origin ses)) (\<lambda>a. plainly (wait_for_propagation w codec (records a) rounds) a)"
    by (rule home_talks [OF wait_talks]) (simp add: at_home_plain)
  moreover have "keeps_to (at_home_since lib (ses_origin ses)) (fetch_certificate w lib ses order_url csr_pem)"
    by (rule home_talks [OF fetch_certificate_talks [OF home_reads]]) (simp add: home_signed)
  ultimately show ?thesis
    unfolding run_attempt_parts
    by (intro home.keeps_talk_bind home_create_records home_answer_challenges home_settle_rounds)
qed

lemma home_clean_up: "keeps_to (at_home_since lib (ses_origin ses)) (clean_up w lib codec dns ses)"
proof -
  have "keeps_to (at_home_since lib (ses_origin ses)) (deactivate_unsettled w lib ses ps b)" for ps b
    by (induction ps arbitrary: b)
       (auto intro!: home.keeps_basic home_talks [OF deactivate_talks [OF home_reads]])
  moreover have "keeps_to (at_home_since lib (ses_origin ses)) (delete_records w codec dns rs)" for rs
    by (induction rs) (auto intro!: home.keeps_basic home_plainly delete_txt_calls)
  ultimately have "keeps_to (at_home_since lib (ses_origin ses)) (talk_bind (deactivate_unsettled w lib ses ps True)
      (\<lambda>settled. if settled then delete_records w codec dns rs else talk_return ()))" for ps rs
    by (auto intro!: home.keeps_talk_bind home.keeps_talk_return)
  then show ?thesis by (auto simp: clean_up_def keeps_to_def)
qed

lemma attempt_home:
  assumes "attempt_and_clean w lib codec dns rounds ses order_url pending csr_pem c = (r, a)"
  shows "adds_calls (at_home lib (ses_origin ses)) (sent c) (sent a)"
proof -
  let ?a0 = "\<lparr>nonce = nonce c, sent = sent c, records = [], unsettled = []\<rparr>"
  obtain x b where run: "run_attempt w lib codec dns rounds ses order_url pending csr_pem ?a0 = (x, b)" by fastforce
  have "at_home_since lib (ses_origin ses) ?a0 b" by (rule keeps_toD [OF home_run_attempt run])
  moreover have "at_home_since lib (ses_origin ses) b a"
    using assms run home_clean_up [of lib ses "undropped w" codec dns] by (auto simp: attempt_and_clean_def keeps_to_def)
  ultimately have "at_home_since lib (ses_origin ses) ?a0 a" by (rule home.steady_trans)
  then show ?thesis by (simp add: at_home_since_def)
qed

lemma talks_calls: "talks P c c' \<Longrightarrow> adds_calls P (sent c) (sent c')"
  by (auto simp: talks_def adds_calls_def)

lemma issue_order_home:
  assumes "issue_order w lib codec dns rounds ses url names csr_pem on_challenge c u = (r, log, u')"
  shows "adds_calls (at_home lib (ses_origin ses)) (sent c) log"
proof -
  obtain x c1 where placed: "place_order (undropped w) lib ses url names (thumbprint (ses_key ses)) c = (x, c1)" by fastforce
  have order: "adds_calls (at_home lib (ses_origin ses)) (sent c) (sent c1)"
    by (rule talks_calls [OF keeps_toD [OF home_place_order placed]])
  show ?thesis
  proof (cases x)
    case (Done op)
    obtain order_url pending where op: "op = (order_url, pending)" by fastforce
    obtain y u1 where y: "(case pending of [] \<Rightarrow> (Ok (), u)
        | p # _ \<Rightarrow> on_challenge \<lparr>shown_token = p_token p, shown_key = p_value p\<rparr> u) = (y, u1)" by fastforce
    obtain r' a where a: "attempt_and_clean w lib codec dns rounds ses order_url pending csr_pem c1 = (r', a)" by fastforce
    show ?thesis
    proof (cases y)
      case (Inl e)
      then show ?thesis using assms placed Done op y order by (simp add: issue_order_def)
    next
      case (Inr v)
      then have "log = sent a" using assms placed Done op y a by (simp add: issue_order_def)
      then show ?thesis using calls.steady_trans [OF order attempt_home [OF a]] by simp
    qed
  qed (use assms placed order in \<open>auto simp: issue_order_def\<close>)
qed

text \<open>The certificate is the first of a chain whose first certificate is for the key of the request.\<close>

definition certified :: "Lib \<Rightarrow> string \<Rightarrow> Issued \<Rightarrow> bool"
  where "certified lib csr_pem issued \<longleftrightarrow>
    (\<exists>csr pem. pem_der lib csr_pem = Some csr \<and> certifies_key lib pem csr \<and> chain_from_pem lib pem = Ok issued)"

lemma download_Done:
  assumes "download w lib ses csr order a = (Done issued, b)"
  shows "\<exists>pem. certifies_key lib pem csr \<and> chain_from_pem lib pem = Ok issued"
proof -
  obtain body a1 where "(case from_utf8 body of None \<Rightarrow> talk_fail (failure ''invalid utf-8 sequence'')
       | Some pem \<Rightarrow> talk_bind (talk_result (chain_from_pem lib pem)) (\<lambda>issued.
           if certifies_key lib pem csr then talk_return issued
           else talk_fail (failure ''ACME returned a certificate for another key''))) a1 = (Done issued, b)"
    using assms by (auto simp: download_def elim!: talk_bind_Done split: if_splits)
  then obtain pem where "talk_bind (talk_result (chain_from_pem lib pem)) (\<lambda>issued.
           if certifies_key lib pem csr then talk_return issued
           else talk_fail (failure ''ACME returned a certificate for another key'')) a1 = (Done issued, b)"
    by (cases "from_utf8 body") simp_all
  then have "certifies_key lib pem csr \<and> chain_from_pem lib pem = Ok issued"
    by (auto elim!: talk_bind_Done split: if_splits)
  then show ?thesis ..
qed

lemma attempt_certifies:
  assumes "attempt_and_clean w lib codec dns rounds ses order_url pending csr_pem c = (Ok issued, a)"
  shows "certified lib csr_pem issued"
proof -
  obtain b where "run_attempt w lib codec dns rounds ses order_url pending csr_pem
      \<lparr>nonce = nonce c, sent = sent c, records = [], unsettled = []\<rparr> = (Done issued, b)"
    using assms by (auto simp: attempt_and_clean_def split: prod.splits outcome.splits)
  then obtain a4 where "fetch_certificate w lib ses order_url csr_pem a4 = (Done issued, b)"
    unfolding run_attempt_parts by (auto elim!: talk_bind_Done)
  then obtain csr order a5 where "pem_der lib csr_pem = Some csr" "download w lib ses csr order a5 = (Done issued, b)"
    unfolding fetch_certificate_def by (cases "pem_der lib csr_pem") (auto elim!: talk_bind_Done)
  then show ?thesis unfolding certified_def using download_Done by blast
qed

lemma issue_order_certifies:
  assumes "issue_order w lib codec dns rounds ses url names csr_pem on_challenge c u = (Ok issued, log, u')"
  shows "certified lib csr_pem issued"
  using assms unfolding issue_order_def
  by (auto split: prod.splits outcome.splits sum.splits intro: attempt_certifies)

lemma fetch_directory_calls: "keeps_to (talks plain_call) (fetch_directory w lib url)"
  unfolding fetch_directory_def by (auto intro!: session_rules calls_ask)

lemma register_account_calls: "keeps_to (talks (at_home lib (ses_origin ses))) (register_account w lib ses kid hmac mail url)"
  unfolding register_account_def by (auto intro!: session_rules home_post split: option.split)

lemma open_session_home:
  assumes "open_session w lib key org kid hmac acme log = (x, c)"
  shows "adds_calls (at_home lib org) log (sent c) \<and> (\<forall>ses url. x = Ok (ses, url) \<longrightarrow> ses_origin ses = org)"
proof -
  obtain d c1 where dir: "fetch_directory w lib (directory_url (config acme)) \<lparr>nonce = None, sent = log\<rparr> = (d, c1)" by fastforce
  have first: "adds_calls (at_home lib org) log (sent c1)"
    using talks_calls [OF keeps_toD [OF fetch_directory_calls dir]] by (auto intro: adds_calls_mono at_home_plain)
  show ?thesis
  proof (cases d)
    case (Done d)
    let ?ses = "\<lparr>ses_origin = org, ses_key = key, ses_new_nonce = new_nonce d, ses_kid = account acme\<rparr>"
    show ?thesis
    proof (cases "account acme")
      case None
      obtain y c2 where y: "register_account w lib ?ses kid hmac (email (config acme)) (new_account d) c1 = (y, c2)" by fastforce
      have "adds_calls (at_home lib org) (sent c1) (sent c2)"
        using talks_calls [OF keeps_toD [OF register_account_calls y]] by simp
      from calls.steady_trans [OF first this] show ?thesis
        using assms dir Done None y by (cases y) (auto simp: open_session_def Let_def)
    next
      case (Some location)
      then show ?thesis using assms dir Done first by (auto simp: open_session_def Let_def)
    qed
  qed (use assms dir first in \<open>auto simp: open_session_def\<close>)
qed

lemma acme_issue_run:
  assumes "acme_issue w lib codec names csr_pem on_challenge acme log u = (r, acme', log', u')"
  shows "(\<exists>e. r = Err e) \<and> log' = log \<or>
    (\<exists>org c x. url_origin lib (directory_url (config acme)) = Some org \<and>
       (\<exists>key kid hmac. open_session (undropped w) lib key org kid hmac acme log = (x, c)) \<and>
       ((\<exists>e. r = Err e) \<and> log' = sent c \<or>
        (\<exists>ses order_url dns. x = Ok (ses, order_url) \<and>
          issue_order w lib codec dns (propagation acme) ses order_url names csr_pem on_challenge c u = (r, log', u'))))"
proof (cases "(\<exists>e. r = Err e) \<and> log' = log")
  case False
  then obtain kid hmac dns key org where config: "eab_kid (config acme) = Some kid" "eab_hmac_key (config acme) = Some hmac"
      "acme_dns acme = Some dns" "\<not> dropped w log" "account_key lib (account_key_jwk (config acme)) = Ok key"
      "url_origin lib (directory_url (config acme)) = Some org"
    using assms unfolding acme_issue_def by (auto split: option.splits if_splits sum.splits)
  obtain x c where opened: "open_session (undropped w) lib key org kid hmac acme log = (x, c)" by fastforce
  have "(\<exists>e. r = Err e) \<and> log' = sent c \<or> (\<exists>ses order_url. x = Ok (ses, order_url) \<and>
      issue_order w lib codec dns (propagation acme) ses order_url names csr_pem on_challenge c u = (r, log', u'))"
    using assms config opened unfolding acme_issue_def by (cases x) (auto split: prod.splits)
  with config(6) opened show ?thesis by (intro disjI2) blast
qed simp

section \<open>Examples\<close>

text \<open>An authority that says yes to everything, a hook as DNS provider, and the same with a shutdown after the first call.\<close>

definition example_reply :: "nat \<Rightarrow> Reply"
  where "example_reply status = \<lparr>reply_status = status, reply_nonce = Some ''n'', reply_location = Some ''l'',
    reply_retry = None, reply_body = Ok []\<rparr>"

definition example_outside :: Outside
  where "example_outside = \<lparr>peer = (\<lambda>_ c _. Ok (example_reply (case c of Hook_call _ _ _ _ \<Rightarrow> 0 | _ \<Rightarrow> 200))),
    dropped = (\<lambda>_. False), join_url = (\<lambda>_ _. None), redirect_text = [], status_text = (\<lambda>_. []), decode_text = [], exit_text = (\<lambda>_. []), url_ok = (\<lambda>_. True)\<rparr>"

definition example_lib :: Lib
  where "example_lib = \<lparr>url_origin = (\<lambda>_. Some (Some ''o'')), json_of = (\<lambda>_. Some (JObject [(''kty'', JString ''EC''), (''crv'', JString ''P-256''), (''x'', JString []), (''y'', JString []), (''d'', JString [])])), json_text = (\<lambda>_. []),
    json_error = (\<lambda>_. []), read_directory = (\<lambda>_. Some \<lparr>new_nonce = ''nn'', new_account = ''na'', new_order = ''no''\<rparr>),
    read_order = (\<lambda>_. Some \<lparr>order_status = ''valid'', authorizations = [], finalize_url = None, certificate_url = Some ''c''\<rparr>),
    read_authorization = (\<lambda>_. Some \<lparr>auth_status = ''valid'', auth_name = ''x'', challenges = []\<rparr>),
    b64url = (\<lambda>_. []), b64url_decode = (\<lambda>_. Some (replicate 32 0)), b64_encode = (\<lambda>_. []), b64_decode = (\<lambda>_. None), sha = (\<lambda>bs. bs),
    hmac_sha = (\<lambda>_ bs. bs), ecdsa = (\<lambda>_ _. Some (\<lambda>bs. Some bs)), csr_from_pem = (\<lambda>_. Some [1]), certificates_from_pem = (\<lambda>_. Ok [[2]]),
    first_from_pem = (\<lambda>_. Some [2]), certificate_key = (\<lambda>_. Some [3]), request_key = (\<lambda>_. Some [3]),
    not_after = (\<lambda>_. Ok 5), iso_text = (\<lambda>_. ''t'')\<rparr>"

definition example_codec :: DnsCodec
  where "example_codec = \<lparr>read_creation = (\<lambda>_. None), read_found = (\<lambda>_. None), read_page = (\<lambda>_. None),
    read_answers = (\<lambda>_. None), parse_time = (\<lambda>_. Some 0)\<rparr>"

definition example_session :: Session
  where "example_session = \<lparr>ses_origin = Some ''o'', ses_key = \<lparr>key_sign = (\<lambda>bs. Some bs), jwk = JNull, thumbprint = []\<rparr>,
    ses_new_nonce = ''nn'', ses_kid = Some ''k''\<rparr>"

definition example_pending :: Pending
  where "example_pending = \<lparr>p_url = ''a'', p_identifier = ''*.x'', p_challenge_url = ''ch'', p_token = ''t'', p_value = ''v''\<rparr>"

definition example_acme :: Acme
  where "example_acme = \<lparr>config = \<lparr>directory_url = ''d'', email = ''e'', eab_kid = Some ''k'', eab_hmac_key = Some ''h'',
      account_key_jwk = Some ''j''\<rparr>, acme_dns = Some (Exec ''h''), account = Some ''k'', propagation = 0\<rparr>"

definition example_attempt :: "Outside \<Rightarrow> (Failure + Issued) \<times> Attempt"
  where "example_attempt w = attempt_and_clean w example_lib example_codec (Exec ''h'') 0 example_session ''od'' [example_pending] []
    \<lparr>nonce = None, sent = []\<rparr>"

lemma example_issues: "\<exists>issued a. example_attempt example_outside = (Ok issued, a)"
proof -
  have "(case fst (example_attempt example_outside) of Inl _ \<Rightarrow> False | Inr _ \<Rightarrow> True)" by code_simp
  then show ?thesis by (cases "example_attempt example_outside") (auto split: sum.splits)
qed

lemma append_longer_member: "xs @ ys = zs @ c # ws \<Longrightarrow> length zs < length xs \<Longrightarrow> c \<in> set xs"
  by (metis nth_append nth_append_length nth_mem)

section \<open>Properties\<close>

text \<open>The addresses that a request with its body goes to, when it is redirected.\<close>

fun sent_on :: "string \<Rightarrow> (nat \<times> string) list \<Rightarrow> string list" where
  "sent_on url [] = [url]"
| "sent_on url ((status, u) # hops) = url # (if status = 307 \<or> status = 308 then sent_on u hops else [])"

lemma sent_on_hop: "u \<in> set (sent_on url hops) \<Longrightarrow> u = url \<or> (\<exists>pre status post. hops = pre @ (status, u) # post \<and> (status = 307 \<or> status = 308))"
proof (induction url hops rule: sent_on.induct)
  case (2 url status u' hops)
  then show ?case by (auto split: if_splits) (metis append_Cons append_Nil)+
qed simp

lemma follow_hops:
  assumes "follow w log c hops n = (hops', x)"
  shows "\<exists>new. hops' = hops @ new \<and> (\<forall>pre status u post. new = pre @ (status, u) # post \<longrightarrow>
    (\<exists>r. peer w log c (hops @ pre) = Ok r \<and> reply_status r = status \<and> redirected w c (hops @ pre) r = Some u))"
  using assms
proof (induction n arbitrary: hops)
  case 0
  then show ?case by (subst (asm) follow.simps) (auto split: sum.splits option.splits)
next
  case (Suc n)
  show ?case
  proof (cases "\<exists>r u. peer w log c hops = Ok r \<and> redirected w c hops r = Some u")
    case True
    then obtain r u where r: "peer w log c hops = Ok r" "redirected w c hops r = Some u" by blast
    then have "follow w log c (hops @ [(reply_status r, u)]) n = (hops', x)"
      using Suc.prems by (subst (asm) follow.simps) simp
    from Suc.IH [OF this] obtain new where new: "hops' = hops @ (reply_status r, u) # new"
        "\<forall>pre status u' post. new = pre @ (status, u') # post \<longrightarrow> (\<exists>q. peer w log c (hops @ (reply_status r, u) # pre) = Ok q \<and>
          reply_status q = status \<and> redirected w c (hops @ (reply_status r, u) # pre) q = Some u')" by auto
    with r show ?thesis by (intro exI [of _ "(reply_status r, u) # new"]) (auto simp: Cons_eq_append_conv)
  next
    case False
    then show ?thesis using Suc.prems by (subst (asm) follow.simps) (auto split: sum.splits option.splits)
  qed
qed

lemma signed_sent_on:
  assumes "u \<in> set (sent_on url (redirects w log c))"
  shows "u = url \<or> (\<exists>hops r. peer w log c hops = Ok r \<and> (reply_status r = 307 \<or> reply_status r = 308) \<and> redirected w c hops r = Some u)"
proof -
  obtain x where "follow w log c [] MAX_REDIRECTS = (redirects w log c, x)" by (metis redirects_def prod.collapse)
  from follow_hops [OF this] have hop: "\<exists>r. peer w log c pre = Ok r \<and> reply_status r = status \<and> redirected w c pre r = Some u"
    if "redirects w log c = pre @ (status, u) # post" for pre status u post
    using that by auto
  show ?thesis using sent_on_hop [OF assms] hop by blast
qed

lemma signed_redirected:
  assumes "peer w log c [] = Ok r" "reply_status r = 307 \<or> reply_status r = 308" "redirected w c [] r = Some u"
  shows "u \<in> set (sent_on url (redirects w log c))"
proof -
  have "follow w log c [] (Suc 9) = follow w log c [(reply_status r, u)] 9" using assms by (subst follow.simps) simp
  then have "follow w log c [] MAX_REDIRECTS = follow w log c [(reply_status r, u)] 9" by (simp add: MAX_REDIRECTS_def eval_nat_numeral)
  then obtain x where "follow w log c [(reply_status r, u)] 9 = (redirects w log c, x)" by (metis redirects_def prod.collapse)
  from follow_hops [OF this] obtain new where "redirects w log c = (reply_status r, u) # new" by auto
  then show ?thesis using assms(2) by (cases new) auto
qed



text \<open>C22. Cleaning up after an attempt, however it ends, a shutdown in the middle of it included. Every authorization whose challenge it answered is
  one the certificate authority is done with, or the authority is asked to deactivate it (unless no such request can be made: its address or that
  for nonces is outside the origin, there is no signature, or each try for a nonce failed). A challenge record is removed
  only when the certificate authority is done with every authorization whose challenge was answered: it showed a status other than
  pending or accepted a deactivation. Either the removal of every record the attempt knows is tried, or none is removed and
  an authorization is left. After a success, the records were exactly those wanted, and the removal of each is tried.\<close>

theorem acme_cleans_up:
  assumes "attempt_and_clean w lib codec dns rounds ses order_url pending csr_pem c = (r, a)"
  shows "(\<exists>new. sent a = sent c @ new \<and> (\<forall>call \<in> set new. \<forall>url. answers url call \<longrightarrow> (\<exists>p \<in> set pending. p_challenge_url p = url \<and>
      (settled_in w lib (p_url p) (sent a) \<or> requested w lib ses (p_url p) (Some DEACTIVATED) (sent c) (sent a))))) \<and>
    (\<forall>before d after. sent a = sent c @ before @ d # after \<longrightarrow> is_delete dns d \<longrightarrow>
      (\<forall>call \<in> set before. \<forall>url. answers url call \<longrightarrow>
        (\<exists>p \<in> set pending. p_challenge_url p = url \<and> settled_in w lib (p_url p) (sent c @ before)))) \<and>
    ((\<forall>tr \<in> set (records a). removal_tried w codec dns tr (sent a)) \<or>
     (unsettled a \<noteq> [] \<and> adds_calls (\<lambda>call. \<not> is_delete dns call) (sent c) (sent a))) \<and>
    (\<forall>issued. r = Ok issued \<longrightarrow> named (records a) = wanted_records pending [] \<and>
      (\<forall>tr \<in> set (records a). removal_tried w codec dns tr (sent a)))"
proof -
  let ?a0 = "\<lparr>nonce = nonce c, sent = sent c, records = [], unsettled = []\<rparr>"
  obtain x b where run: "run_attempt w lib codec dns rounds ses order_url pending csr_pem ?a0 = (x, b)" by fastforce
  have "watched w lib dns pending (sent c) ?a0" by (simp add: watched_def)
  then have watched: "watched w lib dns pending (sent c) b" using keeps_toD [OF run_attempt_watched run] by blast
  obtain d b1 where deactivated: "deactivate_unsettled (undropped w) lib ses (unsettled b) True b = (d, b1)" by fastforce
  note rest = deactivate_unsettled_run [OF deactivated, of dns]
  have watched1: "watched w lib dns pending (sent c) b1" using rest watched watched_quiet by blast
  have same: "records b1 = records b" "unsettled b1 = unsettled b" using rest by (auto simp: talks_def)
  obtain mid where mid: "sent b1 = sent c @ mid" "list_all (\<lambda>c. \<not> is_delete dns c) mid"
    and answered: "\<forall>call \<in> set mid. \<forall>url. answers url call \<longrightarrow> (\<exists>p \<in> set pending. p_challenge_url p = url \<and>
      (p \<in> set (unsettled b) \<or> settled_in w lib (p_url p) (sent b1)))"
    using watched1 same by (auto simp: watched_def)
  have asked: "settled_in w lib (p_url p) (sent b1) \<or> requested w lib ses (p_url p) (Some DEACTIVATED) (sent c) (sent b1)"
    if "p \<in> set (unsettled b) \<or> settled_in w lib (p_url p) (sent b1)" for p
  proof -
    obtain old where "sent b = sent c @ old" using watched by (auto simp: watched_def)
    then show ?thesis using that deactivate_unsettled_requested [OF deactivated, of p] requested_earlier by auto
  qed
  have success: "unsettled b = []" "named (records b) = wanted_records pending []" if "r = Ok issued" for issued
    using run_attempt_Done [of w lib codec dns rounds ses order_url pending csr_pem ?a0 issued b] run assms that
    by (auto simp: attempt_and_clean_def split: outcome.splits)
  show ?thesis
  proof (cases "d = Done True")
    case True
    obtain dels where dels: "a = b1\<lparr>sent := sent b1 @ dels\<rparr>" "list_all plain_call dels"
        "\<forall>tr \<in> set (records b). removal_tried w codec dns tr (sent b1 @ dels)"
      using delete_records_run [of w codec dns "records b" b1] assms run deactivated True
      by (auto simp: attempt_and_clean_def clean_up_def talk_bind_def)
    have "\<exists>p \<in> set pending. p_challenge_url p = url \<and> settled_in w lib (p_url p) (sent c @ before)"
      if split: "sent a = sent c @ before @ del # after" and del: "is_delete dns del"
        and call: "call \<in> set before" "answers url call" for before del after call url
    proof -
      have parts: "mid @ dels = before @ del # after" using split dels(1) mid(1) by simp
      then have "\<not> length before < length mid"
        using mid(2) del by (metis append_longer_member list_all_iff)
      then obtain later where later: "before = mid @ later"
        using parts by (metis append_eq_append_conv_if append_take_drop_id linorder_not_less)
      then have "set later \<subseteq> set dels" using parts by (metis Un_upper1 append.assoc same_append_eq set_append)
      moreover have "\<not> plain_call call" using call(2) by (auto simp: answers_def)
      ultimately have "call \<in> set mid" using call(1) later dels(2) by (auto simp: list_all_iff)
      with answered call(2) obtain p where p: "p \<in> set pending" "p_challenge_url p = url"
          "p \<in> set (unsettled b) \<or> settled_in w lib (p_url p) (sent b1)" by blast
      then have "settled_in w lib (p_url p) (sent b1)" using rest True by auto
      then have "settled_in w lib (p_url p) (sent c @ before)"
        unfolding later mid(1) using settled_in_append_mid by simp
      with p show ?thesis by blast
    qed
    moreover have "records a = records b" using dels(1) same(1) by simp
    moreover have "\<exists>new. sent a = sent c @ new \<and> (\<forall>call \<in> set new. \<forall>url. answers url call \<longrightarrow> (\<exists>p \<in> set pending. p_challenge_url p = url \<and>
      (settled_in w lib (p_url p) (sent a) \<or> requested w lib ses (p_url p) (Some DEACTIVATED) (sent c) (sent a))))"
    proof (intro exI [of _ "mid @ dels"] conjI ballI allI impI)
      show "sent a = sent c @ mid @ dels" using dels(1) mid(1) by simp
      fix call url assume "call \<in> set (mid @ dels)" "answers url call"
      moreover have "\<not> plain_call call" using \<open>answers url call\<close> by (auto simp: answers_def)
      ultimately have "call \<in> set mid" using dels(2) by (auto simp: list_all_iff)
      with answered \<open>answers url call\<close> obtain p where "p \<in> set pending" "p_challenge_url p = url"
          "p \<in> set (unsettled b) \<or> settled_in w lib (p_url p) (sent b1)" by blast
      then show "\<exists>p \<in> set pending. p_challenge_url p = url \<and>
          (settled_in w lib (p_url p) (sent a) \<or> requested w lib ses (p_url p) (Some DEACTIVATED) (sent c) (sent a))"
        using asked [of p] settled_in_append [of w lib "p_url p" "sent b1" dels]
          requested_append [of w lib ses "p_url p" "Some DEACTIVATED" "sent c" "sent b1" dels] dels(1) by auto
    qed
    ultimately show ?thesis using dels success by auto
  next
    case False
    then have a: "a = b1"
      using assms run deactivated by (auto simp: attempt_and_clean_def clean_up_def talk_bind_def talk_return_def split: outcome.splits)
    have "unsettled b \<noteq> []" using False deactivated by (auto simp: talk_return_def)
    moreover have "\<not> is_delete dns del" if "sent a = sent c @ before @ del # after" for before del after
      using that a mid by simp
    moreover have "adds_calls (\<lambda>call. \<not> is_delete dns call) (sent c) (sent a)" using a mid by (auto simp: adds_calls_def)
    moreover have "\<exists>new. sent a = sent c @ new \<and> (\<forall>call \<in> set new. \<forall>url. answers url call \<longrightarrow> (\<exists>p \<in> set pending. p_challenge_url p = url \<and>
      (settled_in w lib (p_url p) (sent a) \<or> requested w lib ses (p_url p) (Some DEACTIVATED) (sent c) (sent a))))"
      using mid(1) answered asked a by blast
    ultimately show ?thesis using success a same by auto
  qed
qed

theorem acme_cleans_up_witness:
  "\<exists>issued a. example_attempt example_outside = (Ok issued, a) \<and> named (records a) = [(''_acme-challenge.x'', ''v'')] \<and>
    list_all (\<lambda>tr. removal_tried example_outside example_codec (Exec ''h'') tr (sent a)) (records a)"
proof -
  obtain issued a where run: "example_attempt example_outside = (Ok issued, a)" using example_issues by blast
  have "wanted_records [example_pending] [] = [(''_acme-challenge.x'', ''v'')]" by code_simp
  with run acme_cleans_up [OF run [unfolded example_attempt_def]] show ?thesis by (auto simp: list_all_iff)
qed

text \<open>A shutdown while the record is being created: the request has been sent, but the attempt knows of no record, so nothing
  removes it. Only the sweep does later.\<close>

theorem stopped_attempt_leaves_record:
  "\<exists>w. (case example_attempt w of (r, a) \<Rightarrow> r = Err stopped_failure \<and>
    sent a = [Hook_call ''h'' ''create'' ''_acme-challenge.x'' ''v''])"
proof -
  have "wanted_records [example_pending] [] = [(''_acme-challenge.x'', ''v'')]" by code_simp
  then show ?thesis
    by (intro exI [of _ "example_outside\<lparr>dropped := (\<lambda>log. log \<noteq> [])\<rparr>"])
       (simp add: example_attempt_def attempt_and_clean_def run_attempt_def clean_up_def create_txt_def run_hook_def ask_def
         talk_bind_def talk_context_def talk_return_def plainly_def example_outside_def)
qed

end
