(* ===== verification/Jobs.thy ===== *)
theory Jobs
  imports Service_Api Acme
begin

text \<open>
  The background work of a machine (\<^verbatim>\<open>opentunnel-server/src/jobs.rs\<close>): which due jobs it starts, one attempt of a
  job and what follows from it, renewal alarms, the sweep of leftover challenge records, and the certificate of the
  API domain. The machine's own state and the service's are passed along together. An attempt at a
  certificate is a parameter (\<open>Acme\<close> has one), and so are key generation and the loading of a certificate into the
  TLS library.
\<close>

section \<open>State\<close>

definition PERSIST_FAILED :: string
  where "PERSIST_FAILED = ''Failed to persist certificate state: tunnel or certificate not found''"

definition ORPHAN_GRACE_MS :: nat where "ORPHAN_GRACE_MS = 15 * MINUTE_MS"
definition COOLDOWN_KEY :: string where "COOLDOWN_KEY = ''ca_cooldown''"
definition COOLDOWN_REFRESH_MS :: nat where "COOLDOWN_REFRESH_MS = 15000"

text \<open>The server certificate that is being served, as its chain and key.\<close>

record Jobs =
  concurrency :: nat
  job_delay_ms :: nat
  server_name :: "string option"
  owner :: string
  running :: "(string \<times> JobKind) list"
  cooldown :: Cooldown
  cooldown_read :: nat
  stopping :: bool
  resolver :: "(string \<times> string) option"

definition Jobs_new :: "nat \<Rightarrow> nat \<Rightarrow> string option \<Rightarrow> string \<Rightarrow> Jobs"
  where "Jobs_new n delay server name = \<lparr>concurrency = max n 1, job_delay_ms = delay, server_name = server, owner = name,
    running = [], cooldown = Cooldown_default, cooldown_read = 0, stopping = False, resolver = None\<rparr>"

text \<open>The machine's name on leases: the given id, or a random one.\<close>

definition lease_name :: "string option \<Rightarrow> string \<Rightarrow> string"
  where "lease_name fly u = (case option_filter (\<lambda>i. i \<noteq> []) fly of Some i \<Rightarrow> i | None \<Rightarrow> ''process-'' @ u)"

type_synonym 'a jb = "Jobs \<times> Service \<Rightarrow> (service_error + 'a) \<times> Jobs \<times> Service"

definition jb_return :: "'a \<Rightarrow> 'a jb"
  where "jb_return a = (\<lambda>st. (Ok a, st))"

definition jb_fail :: "service_error \<Rightarrow> 'a jb"
  where "jb_fail e = (\<lambda>st. (Err e, st))"

definition jb_bind :: "'a jb \<Rightarrow> ('a \<Rightarrow> 'b jb) \<Rightarrow> 'b jb"
  where "jb_bind m f = (\<lambda>st. case m st of (Inl e, st) \<Rightarrow> (Inl e, st) | (Inr a, st) \<Rightarrow> f a st)"

definition jb_sv :: "'a sv \<Rightarrow> 'a jb"
  where "jb_sv m = (\<lambda>(j, s). case m s of (r, s) \<Rightarrow> (r, j, s))"

definition jb_try :: "'a jb \<Rightarrow> (service_error + 'a) jb"
  where "jb_try m = (\<lambda>st. case m st of (r, st) \<Rightarrow> (Ok r, st))"

definition jb_get :: "(Jobs \<Rightarrow> 'a) \<Rightarrow> 'a jb"
  where "jb_get f = (\<lambda>(j, s). (Ok (f j), j, s))"

definition jb_modify :: "(Jobs \<Rightarrow> Jobs) \<Rightarrow> unit jb"
  where "jb_modify f = (\<lambda>(j, s). (Ok (), f j, s))"

definition jb_store :: "'a store_io \<Rightarrow> 'a jb"
  where "jb_store m = jb_sv (sv_store_io m)"

section \<open>The cool-down of the certificate authority\<close>

definition cooling_until :: "Env \<Rightarrow> nat \<Rightarrow> Jobs \<times> Service \<Rightarrow> nat \<times> Jobs \<times> Service"
  where "cooling_until env now = (\<lambda>(j, s).
    if now - cooldown_read j < COOLDOWN_REFRESH_MS then (until (cooldown j), j, s)
    else case sv_store_io (meta (db_world env) COOLDOWN_KEY) s of
      (Inl _, s) \<Rightarrow> (until (cooldown j), j, s)
    | (Inr stored, s) \<Rightarrow>
        let c = (case stored of Some v \<Rightarrow> Cooldown_merge (cooldown j) v | None \<Rightarrow> cooldown j)
        in (until c, j\<lparr>cooldown := c, cooldown_read := now\<rparr>, s))"

fun chain_problem :: "Cause list \<Rightarrow> Problem option" where
  "chain_problem [] = None"
| "chain_problem (c # cs) = (case c of Problem_cause p \<Rightarrow> Some p | _ \<Rightarrow> chain_problem cs)"

definition cooldown_outcome :: "Env \<Rightarrow> nat \<Rightarrow> Failure option \<Rightarrow> unit jb"
  where "cooldown_outcome env now failed = (\<lambda>(j, s).
    let (c, changed) = (case failed of
          None \<Rightarrow> Cooldown_succeeded (cooldown j)
        | Some e \<Rightarrow> Cooldown_failed (cooldown j) (error_class e)
            (Option.bind (chain_problem (chain e)) retry_after) now)
    in if changed
       then (case sv_store_io (set_meta (db_world env) COOLDOWN_KEY (Cooldown_encode c)) s of
               (_, s) \<Rightarrow> (Ok (), j\<lparr>cooldown := c\<rparr>, s))
       else (Ok (), j\<lparr>cooldown := c\<rparr>, s))"

section \<open>Starting due jobs\<close>

definition issue_slots :: "Jobs \<Rightarrow> nat"
  where "issue_slots j = (if 1 < concurrency j then concurrency j - 1 else concurrency j)"

definition count_issuing :: "(string \<times> JobKind) list \<Rightarrow> nat"
  where "count_issuing rs = length (filter (\<lambda>(_, k). k = Issue) rs)"

definition end_task :: "string \<Rightarrow> Jobs \<Rightarrow> Jobs"
  where "end_task cid j = j\<lparr>running := AList.delete cid (running j)\<rparr>"

text \<open>The due jobs in order, with the tasks that end before each of them is looked at (\<open>ended\<close>) and the time it is
  claimed at. The jobs that were started, and the failure that stopped the search.\<close>

fun start_each :: "Env \<Rightarrow> (nat \<Rightarrow> string list) \<Rightarrow> (nat \<Rightarrow> nat) \<Rightarrow> bool \<Rightarrow> nat \<Rightarrow> (string \<times> JobKind) list \<Rightarrow> Jobs \<times> Service
    \<Rightarrow> (Job list \<times> service_error option) \<times> Jobs \<times> Service" where
  "start_each env ended clock cooling n [] = (\<lambda>st. (([], None), st))"
| "start_each env ended clock cooling n ((cid, k) # due) = (\<lambda>(j, s).
     let j = fold end_task (ended n) j;
         issuing = count_issuing (running j) in
     if concurrency j \<le> length (running j) then (([], None), j, s)
     else if k = Issue \<and> issue_slots j \<le> issuing then start_each env ended clock cooling (Suc n) due (j, s)
     else if cooling \<and> (k = Issue \<or> issuing < length (running j)) then start_each env ended clock cooling (Suc n) due (j, s)
     else
       let known = map_of (running j) cid \<noteq> None;
           j = j\<lparr>running := AList.update cid k (running j)\<rparr> in
       if known then start_each env ended clock cooling (Suc n) due (j, s)
       else case sv_store_io (claim_job (db_world env) cid (owner j) (clock n)) s of
         (Inl e, s) \<Rightarrow> (([], Some e), end_task cid j, s)
       | (Inr None, s) \<Rightarrow> start_each env ended clock cooling (Suc n) due (end_task cid j, s)
       | (Inr (Some job), s) \<Rightarrow>
           (case start_each env ended clock cooling (Suc n) due (j, s) of
              ((started, e), st) \<Rightarrow> ((job # started, e), st)))"

text \<open>When the next job may be taken, unless that failed, and the jobs that were started.\<close>

definition start_due :: "Env \<Rightarrow> (nat \<Rightarrow> string list) \<Rightarrow> (nat \<Rightarrow> nat) \<Rightarrow> nat \<Rightarrow> Jobs \<times> Service
    \<Rightarrow> ((service_error + nat option) \<times> Job list) \<times> Jobs \<times> Service"
  where "start_due env ended clock now = (\<lambda>(j, s).
    if stopping j \<or> concurrency j \<le> length (running j) then ((Ok None, []), j, s)
    else
      let limit = concurrency j + length (running j) + 1 in
      case sv_store_io (job_schedule (db_world env) (owner j) now limit) s of
        (Inl e, s) \<Rightarrow> ((Err e, []), j, s)
      | (Inr schedule, s) \<Rightarrow>
          let later = map_option (\<lambda>(_, at, _). at) (List.find (\<lambda>(_, at, _). now < at) schedule);
              later = (if later = None \<and> length schedule = limit then Some (now + 1000) else later) in
          case cooling_until env now (j, s) of
            (ends, st) \<Rightarrow>
              let cooling = now < ends;
                  later = (if cooling then Some (case later of Some l \<Rightarrow> min l ends | None \<Rightarrow> ends) else later);
                  due = map (\<lambda>(cid, _, k). (cid, k)) (filter (\<lambda>(_, at, _). at \<le> now) schedule) in
              case start_each env ended clock cooling 0 due st of
                ((started, Some e), st) \<Rightarrow> ((Err e, started), st)
              | ((started, None), st) \<Rightarrow> ((Ok later, started), st))"

text \<open>How long the runner waits before it looks again, for a random 32-bit number.\<close>

definition POLL_MS :: nat where "POLL_MS = 30000"

definition poll_wait :: "nat \<Rightarrow> nat"
  where "poll_wait r = POLL_MS + r * POLL_MS div 2 ^ 32"

definition wait_until :: "nat \<Rightarrow> nat \<Rightarrow> nat option \<Rightarrow> nat"
  where "wait_until poll now at = (case at of None \<Rightarrow> poll | Some at \<Rightarrow> min (at - now) poll)"

text \<open>One turn of the runner, which ends when the wait does, a task ends or a job is announced.\<close>

definition runner_turn :: "Env \<Rightarrow> (nat \<Rightarrow> string list) \<Rightarrow> (nat \<Rightarrow> nat) \<Rightarrow> nat \<Rightarrow> nat \<Rightarrow> nat \<Rightarrow> Jobs \<times> Service
    \<Rightarrow> (Job list \<times> nat) \<times> Jobs \<times> Service"
  where "runner_turn env ended clock now later r st =
    (case start_due env ended clock now st of
       ((at, started), st) \<Rightarrow>
         ((started, max (wait_until (poll_wait r) later (case at of Inr at \<Rightarrow> at | Inl _ \<Rightarrow> None)) 50), st))"

definition stop :: "Jobs \<Rightarrow> Jobs"
  where "stop j = j\<lparr>stopping := True\<rparr>"

text \<open>Once the attempts have ended, or the time for that has passed.\<close>

definition release :: "Env \<Rightarrow> unit jb"
  where "release env = (\<lambda>(j, s).
    case sv_store_io (release_leases (db_world env) (owner j)) s of (_, s) \<Rightarrow> (Ok (), j, s))"

section \<open>One attempt of a job\<close>

text \<open>An issuer: the names, the certificate request and what to do with the first challenge.\<close>

type_synonym issuer = "string list \<Rightarrow> string \<Rightarrow> Service on_challenge \<Rightarrow> Service \<Rightarrow> (Failure + Issued) \<times> Service"

text \<open>When things happen in an attempt: its start, the challenge, the lease extensions before and after the challenge,
  the last of them, and the end.\<close>

record Times =
  begun :: nat
  extended_before :: "nat list"
  shown :: nat
  extended_after :: "nat list"
  extended_last :: nat
  ended_at :: nat

definition names_domain :: "string \<Rightarrow> string list \<Rightarrow> bool"
  where "names_domain served names \<longleftrightarrow> (case names of [n] \<Rightarrow> eq_ignore_ascii_case n served | _ \<Rightarrow> False)"

datatype refusal = Bad_request csr_error | Not_the_domain "string list" | No_tunnel

definition permitted :: "Env \<Rightarrow> string \<Rightarrow> Job \<Rightarrow> refusal + unit"
  where "permitted env served job =
    (let served = to_ascii_lowercase served in
     if job_kind job \<noteq> Server \<and> job_tunnel_id job \<noteq> None
     then (case check_tunnel_request (decode_csr env) (the (job_tunnel_id job)) served (job_identifiers job) (job_csr job) of
             Inl e \<Rightarrow> Err (Bad_request e)
           | Inr _ \<Rightarrow> Ok ())
     else if job_kind job = Server \<and> job_tunnel_id job = None
     then (case csr_parse (decode_csr env) (job_csr job) of
             None \<Rightarrow> Err (Bad_request Csr_invalid)
           | Some request \<Rightarrow>
               if names_domain served (job_identifiers job) \<and> names_domain served (req_identifiers request) then Ok ()
               else Err (Not_the_domain (job_identifiers job)))
     else Err No_tunnel)"

definition finish_with :: "Env \<Rightarrow> Job \<Rightarrow> string \<Rightarrow> string option \<Rightarrow> nat \<Rightarrow> unit jb"
  where "finish_with env job status reason now =
    jb_bind (jb_get owner) (\<lambda>me.
    jb_bind (jb_store (finish_job (db_world env) (job_certificate_id job) me status reason now)) (\<lambda>_. jb_return ()))"

text \<open>The tunnel whose certificate a job is for.\<close>

definition job_tunnel :: "Job \<Rightarrow> string option"
  where "job_tunnel job = (if job_kind job = Server then None else job_tunnel_id job)"

definition refuse :: "Env \<Rightarrow> (refusal \<Rightarrow> string) \<Rightarrow> Job \<Rightarrow> refusal \<Rightarrow> nat \<Rightarrow> unit jb"
  where "refuse env refusal_text job why now =
    (let reason = ''Certificate request refused: '' @ refusal_text why in
     jb_bind (case job_tunnel job of
         Some tid \<Rightarrow> jb_sv (update_certificate env now tid (job_certificate_id job) (CertificateState.Failed reason))
       | None \<Rightarrow> jb_return True) (\<lambda>_.
       finish_with env job ''failed'' (Some reason) now))"

text \<open>When that cannot be read, a certificate is assumed to be wanted.\<close>

definition still_wanted :: "Env \<Rightarrow> Job \<Rightarrow> nat \<Rightarrow> bool jb"
  where "still_wanted env job now =
    (case job_tunnel job of
       None \<Rightarrow> jb_return True
     | Some tid \<Rightarrow>
         jb_bind (jb_try (jb_sv (wants_certificate env now tid (job_certificate_id job)))) (\<lambda>r.
           jb_return (case r of Inl _ \<Rightarrow> True | Inr b \<Rightarrow> b)))"

definition abandon :: "Env \<Rightarrow> Job \<Rightarrow> string option \<Rightarrow> nat \<Rightarrow> unit jb"
  where "abandon env job reason now = finish_with env job ''abandoned'' reason now"

fun extend_leases :: "Env \<Rightarrow> string \<Rightarrow> string \<Rightarrow> nat list \<Rightarrow> Service \<Rightarrow> Service" where
  "extend_leases env cid me [] s = s"
| "extend_leases env cid me (t # ts) s =
     extend_leases env cid me ts (snd (sv_store_io (extend_lease (db_world env) cid me t) s))"

definition service_failure :: "Env \<Rightarrow> service_error \<Rightarrow> Failure"
  where "service_failure env e = failure (error_text env e)"

text \<open>Only first issuance shows the challenge.\<close>

definition show_challenge :: "Env \<Rightarrow> Job \<Rightarrow> string \<Rightarrow> Times \<Rightarrow> Service on_challenge"
  where "show_challenge env job me tm c s =
    (let s = extend_leases env (job_certificate_id job) me (extended_before tm) s in
     if job_kind job \<noteq> Issue then (Ok (), s)
     else case job_tunnel_id job of
       None \<Rightarrow> (Ok (), s)
     | Some tid \<Rightarrow>
         (case update_certificate env (shown tm) tid (job_certificate_id job)
             (CertificateState.Challenge (shown_token c) (shown_key c)) s of
            (Inl e, s) \<Rightarrow> (Err (service_failure env e), s)
          | (Inr found, s) \<Rightarrow> (if found then Ok () else Err (failure PERSIST_FAILED), s)))"

definition install :: "(string \<Rightarrow> string \<Rightarrow> bool) \<Rightarrow> string \<Rightarrow> string \<Rightarrow> unit jb"
  where "install loads pem key =
    (if loads pem key then jb_modify (\<lambda>j. j\<lparr>resolver := Some (pem, key)\<rparr>)
     else jb_fail (Missing ''certificate''))"

definition installed :: "Env \<Rightarrow> (string \<Rightarrow> string \<Rightarrow> bool) \<Rightarrow> string \<Rightarrow> Job \<Rightarrow> Issued \<Rightarrow> unit jb"
  where "installed env loads name job issued =
    jb_bind (jb_store (server_certificate (db_world env) name)) (\<lambda>stored.
      case stored of
        None \<Rightarrow> jb_return ()
      | Some c \<Rightarrow>
          if server_csr c \<noteq> job_csr job then jb_return ()
          else
            jb_bind (install loads (issued_certificate issued @ [CHR 0x0A] @ issued_chain issued) (private_key c)) (\<lambda>_.
              jb_store (save_server_certificate (db_world env) name
                (c\<lparr>server_cert := Some (issued_certificate issued), server_chain := Some (issued_chain issued),
                  server_expiry := Some (issued_expiry issued)\<rparr>))))"

definition record_success :: "Env \<Rightarrow> (string \<Rightarrow> string \<Rightarrow> bool) \<Rightarrow> Job \<Rightarrow> Issued \<Rightarrow> nat \<Rightarrow> unit jb"
  where "record_success env loads job issued now =
    jb_bind (if job_kind job = Server
       then jb_bind (jb_get server_name) (\<lambda>server. case server of
              Some name \<Rightarrow> installed env loads name job issued
            | None \<Rightarrow> jb_return ())
       else (case job_tunnel_id job of
              Some tid \<Rightarrow>
                jb_bind (jb_sv (update_certificate env now tid (job_certificate_id job)
                  (CertificateState.Ready (issued_certificate issued) (issued_chain issued) (issued_expiry issued)))) (\<lambda>_. jb_return ())
            | None \<Rightarrow> jb_return ())) (\<lambda>_.
      finish_with env job ''done'' None now)"

definition record_failure :: "Env \<Rightarrow> nat \<Rightarrow> Job \<Rightarrow> Failure \<Rightarrow> nat \<Rightarrow> unit jb"
  where "record_failure env jitter job e now =
    jb_bind (if contains_str (message e) PERSIST_FAILED then jb_return False else still_wanted env job now) (\<lambda>wanted.
      if \<not> wanted then abandon env job (Some (message e)) now
      else
        let tries = job_attempts job + 1 in
        jb_bind (jb_get (\<lambda>j. (owner j, job_delay_ms j))) (\<lambda>(me, delay).
          case next_attempt (classify_failure e) tries delay (job_created_at job) now jitter of
            Some at \<Rightarrow>
              jb_bind (jb_store (retry_job (db_world env) (job_certificate_id job) me tries at (message e) now)) (\<lambda>_. jb_return ())
          | None \<Rightarrow>
              jb_bind (case job_tunnel job of
                  Some tid \<Rightarrow> jb_sv (update_certificate env now tid (job_certificate_id job)
                    (CertificateState.Failed (public_reason e)))
                | None \<Rightarrow> jb_return True) (\<lambda>_.
                finish_with env job ''failed'' (Some (message e)) now)))"

definition execute :: "Env \<Rightarrow> issuer \<Rightarrow> (string \<Rightarrow> string \<Rightarrow> bool) \<Rightarrow> (refusal \<Rightarrow> string) \<Rightarrow> nat \<Rightarrow> Times \<Rightarrow> Job \<Rightarrow> unit jb"
  where "execute env issuer loads refusal_text jitter tm job = (\<lambda>(j, s).
    case permitted env (domain s) job of
      Inl why \<Rightarrow> refuse env refusal_text job why (begun tm) (j, s)
    | Inr _ \<Rightarrow>
        jb_bind (still_wanted env job (begun tm)) (\<lambda>wanted (j, s).
          if \<not> wanted then abandon env job None (begun tm) (j, s)
          else case issuer (job_identifiers job) (job_csr job) (show_challenge env job (owner j) tm) s of
            (result, s) \<Rightarrow>
              let s = extend_leases env (job_certificate_id job) (owner j) (extended_after tm) s in
              (case sv_store_io (extend_lease (db_world env) (job_certificate_id job) (owner j) (extended_last tm)) s of
                 (Inr False, s) \<Rightarrow> (Ok (), j, s)
               | (_, s) \<Rightarrow>
                   (case result of
                      Inl e \<Rightarrow>
                        if stopped e then (Ok (), j, s)
                        else jb_bind (cooldown_outcome env (ended_at tm) (Some e)) (\<lambda>_.
                          record_failure env jitter job e (ended_at tm)) (j, s)
                    | Inr issued \<Rightarrow>
                        jb_bind (cooldown_outcome env (ended_at tm) None) (\<lambda>_.
                          record_success env loads job issued (ended_at tm)) (j, s)))) (j, s))"

text \<open>The ACME client as an issuer.\<close>

definition issue_by_acme :: "Outside \<Rightarrow> Lib \<Rightarrow> DnsCodec \<Rightarrow> Acme \<Rightarrow> Call list \<Rightarrow> issuer"
  where "issue_by_acme w lib codec acme log names csr on_challenge s =
    (case acme_issue w lib codec names csr on_challenge acme log s of (r, _, _, s) \<Rightarrow> (r, s))"

section \<open>Alarms\<close>

fun fire_each :: "Env \<Rightarrow> nat \<Rightarrow> string list \<Rightarrow> unit sv" where
  "fire_each env now [] = sv_return ()"
| "fire_each env now (tid # ids) =
     sv_bind (sv_try (renewal_alarm env now tid)) (\<lambda>r.
     sv_bind (case r of
         Inl _ \<Rightarrow> sv_store_io (set_alarm (db_world env) tid (Some (now + MINUTE_MS)))
       | Inr _ \<Rightarrow> sv_return ()) (\<lambda>_.
       fire_each env now ids))"

definition fire_due_alarms_and_next :: "Env \<Rightarrow> nat \<Rightarrow> (nat \<times> nat option) sv"
  where "fire_due_alarms_and_next env now =
    sv_bind (sv_store_io (take_due_alarms_and_next (db_world env) now)) (\<lambda>(due, later).
    sv_bind (fire_each env now due) (\<lambda>_.
      sv_return (length due,
        if due = [] then later
        else Some (case later of Some at \<Rightarrow> min at (now + MINUTE_MS) | None \<Rightarrow> now + MINUTE_MS))))"

definition fire_due_alarms :: "Env \<Rightarrow> nat \<Rightarrow> nat sv"
  where "fire_due_alarms env now =
    sv_bind (fire_due_alarms_and_next env now) (\<lambda>(n, _). sv_return n)"

definition alarms_turn :: "Env \<Rightarrow> nat \<Rightarrow> nat \<Rightarrow> nat \<Rightarrow> Service \<Rightarrow> nat \<times> Service"
  where "alarms_turn env now later r s =
    (case fire_due_alarms_and_next env now s of
       (fired, s) \<Rightarrow> (max (wait_until (poll_wait r) later (case fired of Inr (_, at) \<Rightarrow> at | Inl _ \<Rightarrow> None)) 100, s))"

section \<open>Sweeping challenge records\<close>

definition DNS_SWEEP_EVERY_MS :: nat where "DNS_SWEEP_EVERY_MS = 10 * MINUTE_MS"
definition DNS_SWEEP_AGE_MS :: nat where "DNS_SWEEP_AGE_MS = HOUR_MS"
definition DNS_SWEEP_LIMIT :: nat where "DNS_SWEEP_LIMIT = 1000"
definition DNS_SWEEPER_KEY :: string where "DNS_SWEEPER_KEY = ''dns_sweeper''"

definition other_sweeper :: "string \<Rightarrow> nat \<Rightarrow> string option \<Rightarrow> bool"
  where "other_sweeper me now current =
    (case Option.bind current (split_once CHR '' '') of
       None \<Rightarrow> False
     | Some (who, ends) \<Rightarrow> who \<noteq> me \<and>
         (case parse_unsigned U64_MAX ends of Some t \<Rightarrow> now < t | None \<Rightarrow> False))"

text \<open>The names whose records the sweep must leave alone.\<close>

definition in_flight_name :: "string \<Rightarrow> string"
  where "in_flight_name i = ''_acme-challenge.'' @ to_ascii_lowercase (trim_wildcard i)"

definition sweep_dns :: "Env \<Rightarrow> Outside \<Rightarrow> DnsCodec \<Rightarrow> DnsProvider \<Rightarrow> nat \<Rightarrow> Call list \<Rightarrow> Jobs \<times> Service
    \<Rightarrow> (service_error + (nat outcome) option) \<times> Call list \<times> Jobs \<times> Service"
  where "sweep_dns env w codec dns now log = (\<lambda>(j, s).
    case sv_store_io (meta (db_world env) DNS_SWEEPER_KEY) s of
      (Inl e, s) \<Rightarrow> (Err e, log, j, s)
    | (Inr current, s) \<Rightarrow>
        if other_sweeper (owner j) now current then (Ok None, log, j, s)
        else
          let lease = owner j @ '' '' @ show_nat (now + 2 * DNS_SWEEP_EVERY_MS) in
          (case sv_store_io (swap_meta (db_world env) DNS_SWEEPER_KEY current lease) s of
             (Inl e, s) \<Rightarrow> (Err e, log, j, s)
           | (Inr False, s) \<Rightarrow> (Ok None, log, j, s)
           | (Inr True, s) \<Rightarrow>
               (case sv_store_io (leased_job_identifiers (db_world env) now) s of
                  (Inl e, s) \<Rightarrow> (Err e, log, j, s)
                | (Inr ids, s) \<Rightarrow>
                    (case sweep w codec dns (to_ascii_lowercase (domain s)) (now - DNS_SWEEP_AGE_MS) (map in_flight_name ids)
                        DNS_SWEEP_LIMIT log of
                       (r, log) \<Rightarrow> (Ok (Some r), log, j, s)))))"

section \<open>The certificate of the API domain\<close>

definition load_server :: "Env \<Rightarrow> (string \<Rightarrow> string \<Rightarrow> bool) \<Rightarrow> string \<Rightarrow> unit jb"
  where "load_server env loads name =
    jb_bind (jb_store (server_certificate (db_world env) name)) (\<lambda>stored.
      case stored of
        Some c \<Rightarrow>
          (case (server_cert c, server_chain c) of
             (Some leaf, Some rest) \<Rightarrow> install loads (leaf @ [CHR 0x0A] @ rest) (private_key c)
           | _ \<Rightarrow> jb_return ())
      | None \<Rightarrow> jb_return ())"

definition renewal_is_due :: "Env \<Rightarrow> nat \<Rightarrow> ServerCertificate option \<Rightarrow> bool"
  where "renewal_is_due env now stored =
    (case Option.bind (Option.bind stored server_expiry) (parse_iso env) of
       None \<Rightarrow> True
     | Some ends \<Rightarrow> ends - RENEW_BEFORE_MS \<le> now)"

definition ensure_server :: "Env \<Rightarrow> (string \<Rightarrow> (string \<times> string) option) \<Rightarrow> string \<Rightarrow> nat \<Rightarrow> unit jb"
  where "ensure_server env generate name now =
    jb_bind (jb_store (server_certificate (db_world env) name)) (\<lambda>stored.
      if \<not> renewal_is_due env now stored then jb_return ()
      else
        let job_key = ''server_job:'' @ name in
        jb_bind (jb_store (meta (db_world env) job_key)) (\<lambda>previous.
        jb_bind (case previous of
            Some cid \<Rightarrow> jb_store (job_pending (db_world env) cid)
          | None \<Rightarrow> jb_return False) (\<lambda>pending.
          if pending then jb_return ()
          else
            jb_bind (case stored of
                Some c \<Rightarrow> jb_return c
              | None \<Rightarrow>
                  (case generate name of
                     None \<Rightarrow> jb_fail (Missing ''key'')
                   | Some (key, csr) \<Rightarrow>
                       jb_store (create_server_certificate (db_world env) name
                         \<lparr>private_key = key, server_csr = csr, server_cert = None, server_chain = None, server_expiry = None\<rparr>))) (\<lambda>c.
            jb_bind (jb_sv (new_uuid env)) (\<lambda>u.
              let cid = ''server_'' @ u in
              jb_bind (jb_store (swap_meta (db_world env) job_key previous cid)) (\<lambda>swapped.
                if \<not> swapped then jb_return ()
                else
                  jb_bind (jb_store (add_job (db_world env)
                    \<lparr>job_certificate_id = cid, job_tunnel_id = None, job_kind = Server, job_identifiers = [name],
                      job_csr = server_csr c, job_attempts = 0, job_created_at = now\<rparr> now)) (\<lambda>_. jb_return ())))))))"

text \<open>One turn of the loop that keeps the certificate, and how long it waits after it.\<close>

definition server_turn :: "Env \<Rightarrow> (string \<Rightarrow> string \<Rightarrow> bool) \<Rightarrow> (string \<Rightarrow> (string \<times> string) option) \<Rightarrow> string \<Rightarrow> nat \<Rightarrow> nat jb"
  where "server_turn env loads generate name now =
    jb_bind (jb_try (load_server env loads name)) (\<lambda>_.
    jb_bind (jb_try (ensure_server env generate name now)) (\<lambda>_.
      jb_get (\<lambda>j. if resolver j \<noteq> None then min HOUR_MS DAY_MS else 10000)))"

end
