(* ===== verification/Jobs_Properties.thy ===== *)
theory Jobs_Properties
  imports Jobs Machine_Example
begin

text \<open>
  What the background work keeps to: how many jobs run at once and which of them while the certificate authority is left
  alone, the names that are ordered, whose results are recorded, and which challenge records a sweep leaves in place.
\<close>

section \<open>Running jobs\<close>

lemma length_update_alist:
  "length (AList.update k v al) = (if k \<in> fst ` set al then length al else Suc (length al))"
  by (induction al) auto

lemma length_delete_alist: "length (AList.delete k al) \<le> length al"
  by (simp add: AList.delete_eq)

definition count_others :: "(string \<times> JobKind) list \<Rightarrow> nat"
  where "count_others rs = length (filter (\<lambda>(_, k). k \<noteq> Issue) rs)"

lemma counts_add: "count_issuing rs + count_others rs = length rs"
  by (induction rs) (auto simp: count_issuing_def count_others_def)

lemma counts_delete:
  "count_issuing (AList.delete c rs) \<le> count_issuing rs" "count_others (AList.delete c rs) \<le> count_others rs"
  by (induction rs) (auto simp: count_issuing_def count_others_def)

lemma counts_update:
  "count_issuing (AList.update c k rs) \<le> count_issuing rs + (if k = Issue then 1 else 0)"
  "count_others (AList.update c k rs) \<le> count_others rs + (if k = Issue then 0 else 1)"
  by (induction rs) (auto simp: count_issuing_def count_others_def)

text \<open>No job twice, no more jobs than there is room for, and a place that first issuance does not take.\<close>

definition within :: "Jobs \<Rightarrow> bool"
  where "within j \<longleftrightarrow> distinct (map fst (running j)) \<and> length (running j) \<le> concurrency j \<and>
    count_issuing (running j) \<le> issue_slots j"

definition quieter :: "Jobs \<Rightarrow> Jobs \<Rightarrow> bool"
  where "quieter j' j \<longleftrightarrow> count_issuing (running j') \<le> count_issuing (running j) \<and>
    count_others (running j') \<le> max 1 (count_others (running j))"

lemma quieter_refl [simp]: "quieter j j" by (simp add: quieter_def)

lemma quieter_trans: "quieter a b \<Longrightarrow> quieter b c \<Longrightarrow> quieter a c"
  by (auto simp: quieter_def)

text \<open>What stays as it is when tasks start and end.\<close>

definition same_setup :: "Jobs \<Rightarrow> Jobs \<Rightarrow> bool"
  where "same_setup j' j \<longleftrightarrow> (\<exists>rs. j' = j\<lparr>running := rs\<rparr>)"

lemma same_setup_refl [simp]: "same_setup j j"
  unfolding same_setup_def by (intro exI [of _ "running j"]) simp

lemma same_setup_simps [simp]: "same_setup (end_task c j) j" "same_setup (j\<lparr>running := r\<rparr>) j"
  by (auto simp: same_setup_def end_task_def)

lemma same_setup_trans: "same_setup a b \<Longrightarrow> same_setup b c \<Longrightarrow> same_setup a c"
  by (auto simp: same_setup_def)

lemma same_setupD: "same_setup a b \<Longrightarrow> cooldown a = cooldown b"
  by (auto simp: same_setup_def)

definition settles :: "bool \<Rightarrow> Jobs \<Rightarrow> Jobs \<Rightarrow> bool"
  where "settles cooling j' j \<longleftrightarrow> same_setup j' j \<and> (within j \<longrightarrow> within j') \<and> (cooling \<longrightarrow> quieter j' j)"

lemma settles_refl [simp]: "settles cooling j j" by (simp add: settles_def)

lemma settles_trans: "settles cooling a b \<Longrightarrow> settles cooling b c \<Longrightarrow> settles cooling a c"
  unfolding settles_def using quieter_trans same_setup_trans by blast

lemma settles_end_task: "settles cooling (end_task c j) j"
  using counts_delete [of c "running j"] length_delete_alist [of c "running j"]
  by (auto simp: settles_def within_def quieter_def end_task_def issue_slots_def distinct_delete)

lemma settles_end_tasks: "settles cooling (fold end_task cs j) j"
  by (induction cs arbitrary: j) (auto intro: settles_trans settles_end_task)

lemma settles_start:
  assumes "length (running j) < concurrency j" "k = Issue \<longrightarrow> count_issuing (running j) < issue_slots j"
    and "cooling \<longrightarrow> k \<noteq> Issue \<and> length (running j) \<le> count_issuing (running j)"
  shows "settles cooling (j\<lparr>running := AList.update c k (running j)\<rparr>) j"
  using assms counts_update [of c k "running j"] counts_add [of "running j"]
  by (auto simp: settles_def within_def quieter_def issue_slots_def length_update_alist distinct_update split: if_splits)

lemma start_each_settles:
  "start_each env over clock cooling n due (j, s) = (out, j', s') \<Longrightarrow> settles cooling j' j"
proof (induction due arbitrary: n j s out)
  case Nil
  then show ?case by simp
next
  case (Cons d due)
  obtain cid k where d: "d = (cid, k)" by fastforce
  define j1 where "j1 = fold end_task (over n) j"
  define j2 where "j2 = j1\<lparr>running := AList.update cid k (running j1)\<rparr>"
  have 1: "settles cooling j1 j" by (simp add: j1_def settles_end_tasks)
  have IH: "settles cooling j' j" if "start_each env over clock cooling (Suc n) due (i, t) = (out', j', s')" "settles cooling i j"
    for i t out' using that settles_trans [OF Cons.IH] by blast
  show ?case
  proof (cases "concurrency j1 \<le> length (running j1) \<or> k = Issue \<and> issue_slots j1 \<le> count_issuing (running j1) \<or>
      cooling \<and> (k = Issue \<or> count_issuing (running j1) < length (running j1))")
    case True
    then show ?thesis using Cons.prems 1 IH [OF _ 1] d j1_def by (auto simp: Let_def split: if_splits)
  next
    case False
    then have "settles cooling j2 j1" unfolding j2_def by (intro settles_start) auto
    then have 2: "settles cooling j2 j" "settles cooling (end_task cid j2) j"
      using 1 settles_trans settles_end_task by blast+
    show ?thesis
      using Cons.prems False d IH [OF _ 2(1)] IH [OF _ 2(2)] 2
      by (auto simp: Let_def j1_def [symmetric] j2_def [symmetric] split: if_splits prod.splits sum.splits option.splits)
  qed
qed

lemma cooling_until_end:
  "cooling_until env now (j, s) = (ends, j', s') \<Longrightarrow> ends = until (cooldown j') \<and> running j' = running j \<and>
     concurrency j' = concurrency j \<and> within j' = within j"
  by (auto simp: cooling_until_def Let_def within_def issue_slots_def split: if_splits prod.splits sum.splits)


section \<open>Names and records\<close>

lemma execute_consults:
  assumes "execute env issuer loads refusal_text jitter tm job (j, s) \<noteq> execute env issuer' loads refusal_text jitter tm job (j, s)"
  shows "permitted env (domain s) job = Ok ()" "issuer (job_identifiers job) (job_csr job) \<noteq> issuer' (job_identifiers job) (job_csr job)"
proof -
  show "permitted env (domain s) job = Ok ()"
    using assms by (cases "permitted env (domain s) job") (auto simp: execute_def)
  show "issuer (job_identifiers job) (job_csr job) \<noteq> issuer' (job_identifiers job) (job_csr job)"
  proof
    assume "issuer (job_identifiers job) (job_csr job) = issuer' (job_identifiers job) (job_csr job)"
    then have "execute env issuer loads refusal_text jitter tm job (j, s) = execute env issuer' loads refusal_text jitter tm job (j, s)"
      by (simp only: execute_def)
    with assms show False by blast
  qed
qed

lemma names_domain_lower:
  "names_domain (to_ascii_lowercase d) names \<Longrightarrow> map to_ascii_lowercase names = [to_ascii_lowercase d]"
  by (auto simp: names_domain_def eq_ignore_ascii_case_def split: list.splits)

text \<open>The names a job may order, in lower case: those of its tunnel, or the API domain for the server's own certificate.\<close>

definition own_names :: "string \<Rightarrow> Job \<Rightarrow> string list \<Rightarrow> bool"
  where "own_names served job names \<longleftrightarrow>
    (if job_kind job = Server then job_tunnel_id job = None \<and> names = [to_ascii_lowercase served]
     else \<exists>t. job_tunnel_id job = Some t \<and> valid_tunnel_id t \<and>
       (let h = to_ascii_lowercase (tunnel_hostname t (to_ascii_lowercase served))
        in names \<in> {[h], [h, ''*.'' @ h], [''*.'' @ h, h]}))"

lemma permitted_own_names:
  assumes "permitted env served job = Ok ()"
  shows "own_names served job (map to_ascii_lowercase (job_identifiers job))"
  using assms check_tunnel_request_safe [of "decode_csr env" "the (job_tunnel_id job)" "to_ascii_lowercase served" "job_identifiers job" "job_csr job"]
  by (auto simp: permitted_def own_names_def Let_def names_domain_lower split: if_splits sum.splits option.splits)


text \<open>A sweep that gets as far as the zone has read the names of the running jobs.\<close>

text \<open>A machine took the lease on sweeping with the second of three statements: just before it, no other machine had a lease that runs, and
  just after it, it is this machine's. The other machines may act before each statement.\<close>

definition took_lease :: "world \<Rightarrow> string \<Rightarrow> nat \<Rightarrow> nat \<times> Db \<Rightarrow> nat \<times> Db \<Rightarrow> bool"
  where "took_lease w me now st st' \<longleftrightarrow> (\<exists>db1 db2 db3.
    w (fst st) (snd st) = (Answered, db1) \<and> w (Suc (fst st)) db1 = (Answered, db2) \<and>
    \<not> other_sweeper me now (map_of (meta_rows db2) DNS_SWEEPER_KEY) \<and>
    map_of (meta_rows db3) = (map_of (meta_rows db2))(DNS_SWEEPER_KEY \<mapsto> me @ '' '' @ show_nat (now + 2 * DNS_SWEEP_EVERY_MS)) \<and>
    w (Suc (Suc (fst st))) db3 = (Answered, snd st'))"

lemma swap_statement_True:
  assumes "swap_statement key expected v db = (True, db')"
  shows "map_of (meta_rows db) key = expected \<and> map_of (meta_rows db') = (map_of (meta_rows db))(key \<mapsto> v)"
proof (cases expected)
  case None
  then show ?thesis
    using assms insert_row_map_of [of key v "meta_rows db"] by (auto simp: swap_statement_def insert_row_Some split: option.splits)
next
  case (Some x)
  then show ?thesis
    using assms by (cases rule: update_row_cases [of "meta_rows db" key "\<lambda>y. y = x" "\<lambda>_. v"]) (auto simp: swap_statement_def update_conv')
qed

lemma store_answered:
  assumes "sv_store_io (timed w statement) s = (Ok a, s')"
  obtains db where "w (fst (sv_store s)) (snd (sv_store s)) = (Answered, db)" "statement db = (a, snd (sv_store s'))"
    "fst (sv_store s') = Suc (fst (sv_store s))"
  using assms by (cases "sv_store s") (auto simp: sv_store_io_def timed_def split: prod.splits sum.splits fault.splits)

lemma lease_taken:
  assumes "sv_store_io (meta w DNS_SWEEPER_KEY) s = (Ok current, s1)" "\<not> other_sweeper me now current"
    and "sv_store_io (swap_meta w DNS_SWEEPER_KEY current (me @ '' '' @ show_nat (now + 2 * DNS_SWEEP_EVERY_MS))) s1 = (Ok True, s2)"
    and "sv_store_io (leased_job_identifiers w now) s2 = (Ok ids, s3)"
  shows "took_lease w me now (sv_store s) (sv_store s3)"
proof -
  obtain db1 where 1: "w (fst (sv_store s)) (snd (sv_store s)) = (Answered, db1)" "snd (sv_store s1) = db1"
      "fst (sv_store s1) = Suc (fst (sv_store s))"
    using assms(1) unfolding meta_def by (rule store_answered) (auto simp: select_def)
  obtain db2 where 2: "w (fst (sv_store s1)) (snd (sv_store s1)) = (Answered, db2)"
      "swap_statement DNS_SWEEPER_KEY current (me @ '' '' @ show_nat (now + 2 * DNS_SWEEP_EVERY_MS)) db2 = (True, snd (sv_store s2))"
      "fst (sv_store s2) = Suc (fst (sv_store s1))"
    using assms(3) unfolding swap_meta_def by (rule store_answered)
  obtain db4 where 3: "w (fst (sv_store s2)) (snd (sv_store s2)) = (Answered, db4)" "snd (sv_store s3) = db4"
    using assms(4) unfolding leased_job_identifiers_def by (rule store_answered) (auto simp: select_def)
  show ?thesis
    unfolding took_lease_def using 1 2(1,3) 3 assms(2) swap_statement_True [OF 2(2)]
    by (intro exI [of _ db1] exI [of _ db2] exI [of _ "snd (sv_store s2)"]) simp
qed

lemma sweep_dns_cases:
  assumes "sweep_dns env w codec dns now log (j, s) = (r, log', j', s')"
  obtains (none) "j' = j" "log' = log" "r = Ok None \<or> isl r"
  | (ran) ids s2 q where "j' = j" "r = Ok (Some q)" "domain s' = domain s"
      "sv_store_io (leased_job_identifiers (db_world env) now) s2 = (Ok ids, s')"
      "Dns.sweep w codec dns (to_ascii_lowercase (domain s)) (now - DNS_SWEEP_AGE_MS) (map in_flight_name ids) DNS_SWEEP_LIMIT log = (q, log')"
      "took_lease (db_world env) (owner j) now (sv_store s) (sv_store s')"
proof -
  define lease where "lease = owner j @ CHR '' '' # show_nat (now + 2 * DNS_SWEEP_EVERY_MS)"
  obtain q1 s1 where 1: "sv_store_io (meta (db_world env) DNS_SWEEPER_KEY) s = (q1, s1)" by fastforce
  obtain q2 s2 where 2: "sv_store_io (swap_meta (db_world env) DNS_SWEEPER_KEY (projr q1) lease) s1 = (q2, s2)" by fastforce
  obtain q3 s3 where 3: "sv_store_io (leased_job_identifiers (db_world env) now) s2 = (q3, s3)" by fastforce
  have same: "domain s3 = domain s" using 1 2 3 by (auto simp: sv_store_io_def split: prod.splits sum.splits)
  show thesis
  proof (cases "\<exists>current ids. q1 = Ok current \<and> \<not> other_sweeper (owner j) now current \<and> q2 = Ok True \<and> q3 = Ok ids")
    case False
    then have "j' = j \<and> log' = log \<and> (r = Ok None \<or> isl r)"
      using assms 1 2 3
      by (auto simp: sweep_dns_def lease_def [symmetric] Let_def split: sum.splits if_splits bool.splits)
    then show thesis using none by blast
  next
    case True
    then obtain current ids where q: "q1 = Ok current" "\<not> other_sweeper (owner j) now current" "q2 = Ok True" "q3 = Ok ids" by blast
    obtain q4 log1 where 4: "Dns.sweep w codec dns (to_ascii_lowercase (domain s3)) (now - DNS_SWEEP_AGE_MS)
        (map in_flight_name ids) DNS_SWEEP_LIMIT log = (q4, log1)" by fastforce
    have "r = Ok (Some q4)" "log' = log1" "j' = j" "s' = s3"
      using assms 1 2 3 4 q by (auto simp: sweep_dns_def lease_def [symmetric] Let_def)
    moreover have "took_lease (db_world env) (owner j) now (sv_store s) (sv_store s3)"
      using lease_taken [OF 1 [unfolded q(1)] q(2), of s2 ids s3] 2 3 q by (simp add: lease_def)
    ultimately show thesis using ran [of q4 s2 ids] 3 4 q(4) same by simp
  qed
qed

lemma leased_ids_cover:
  assumes "sv_store_io (leased_job_identifiers w now) s = (Ok ids, s')" "(cid, row) \<in> set (jobs (snd (sv_store s')))"
    and "row_status row = ''pending''" "leased_at now row"
  shows "set (row_identifiers row) \<subseteq> set ids"
proof -
  have "ids = concat (map (\<lambda>(_, row). row_identifiers row)
      (filter (\<lambda>(_, row). row_status row = ''pending'' \<and> leased_at now row) (jobs (snd (sv_store s')))))"
    using assms(1) by (auto simp: leased_job_identifiers_def sv_store_io_def timed_def select_def split: prod.splits sum.splits fault.splits)
  with assms show ?thesis by auto
qed

text \<open>A record that no running job needs.\<close>

definition unused_record :: "DnsCodec \<Rightarrow> string \<Rightarrow> nat \<Rightarrow> Db \<Rightarrow> Listed \<Rightarrow> bool"
  where "unused_record codec served now db l \<longleftrightarrow> ours served l \<and> old_record codec (now - HOUR_MS) l \<and>
    (\<forall>(cid, row) \<in> set (jobs db). row_status row = ''pending'' \<and> leased_at now row \<longrightarrow>
      to_ascii_lowercase (listed_name l) \<notin> in_flight_name ` set (row_identifiers row))"

lemma leftover_unused:
  assumes "leftover codec served (now - DNS_SWEEP_AGE_MS) (map in_flight_name ids) l"
    and "sv_store_io (leased_job_identifiers w now) s = (Ok ids, s')"
  shows "unused_record codec served now (snd (sv_store s')) l"
  using assms leased_ids_cover [OF assms(2)] by (fastforce simp: leftover_def unused_record_def DNS_SWEEP_AGE_MS_def)

section \<open>Properties\<close>


definition example_jobs :: Jobs
  where "example_jobs = (Jobs_new 2 1000 None ''m'')\<lparr>running := [(''c'', Issue)]\<rparr>"


text \<open>C23. Nothing is ordered for names that are not the job's own. When the outcome of an attempt depends on the issuer at
  all, the issuer was asked for the names and the request of the job, and those names are the hostname of the job's tunnel,
  alone or with the wildcard below it, or the API domain in the case of the server's own certificate.\<close>

theorem orders_only_own_names:
  assumes "execute env issuer loads refusal_text jitter tm job (j, s) \<noteq> execute env issuer' loads refusal_text jitter tm job (j, s)"
  shows "issuer (job_identifiers job) (job_csr job) \<noteq> issuer' (job_identifiers job) (job_csr job) \<and>
    own_names (domain s) job (map to_ascii_lowercase (job_identifiers job))"
  using execute_consults [OF assms] permitted_own_names by blast

definition example_job :: Job
  where "example_job = \<lparr>job_certificate_id = ''c'', job_tunnel_id = None, job_kind = Server, job_identifiers = [''X.dev''],
    job_csr = ''csr'', job_attempts = 0, job_created_at = 0\<rparr>"

definition example_server_env :: Env
  where "example_server_env = example_env\<lparr>decode_csr := (\<lambda>_. Some \<lparr>iter_common_name = [Some ''x.dev''],
    requested_extensions = Some [SubjectAlternativeName [DNSName ''x.dev'']]\<rparr>)\<rparr>"

definition example_times :: Times
  where "example_times = \<lparr>begun = 0, extended_before = [], shown = 0, extended_after = [], extended_last = 0, ended_at = 0\<rparr>"

definition example_issuer :: "nat \<Rightarrow> issuer"
  where "example_issuer n names csr on_challenge s = (Err stopped_failure, s\<lparr>uuids := n\<rparr>)"

lemma example_extend: "\<exists>s'. sv_store_io (extend_lease quiet ''c'' ''m'' 0) (example_service\<lparr>uuids := n\<rparr>) = (Ok False, s') \<and> uuids s' = n"
  by (simp add: sv_store_io_def extend_lease_def io_bind_def io_return_def timed_def quiet_def extend_statement_def update_job_def
      example_service_def insert_tunnel_def insert_row_def update_row_def empty_db_def Let_def)

theorem orders_only_own_names_witness: "own_names (domain example_service) example_job [''x.dev'']"
proof -
  have p: "permitted example_server_env ''x.dev'' example_job = Ok ()" by code_simp
  have "uuids (snd (snd (execute example_server_env (example_issuer n) (\<lambda>_ _. True) (\<lambda>_. []) 0 example_times example_job
      (example_jobs, example_service)))) = n" for n
    using p example_extend [of n]
    by (auto simp: execute_def still_wanted_def jb_bind_def jb_return_def job_tunnel_def example_issuer_def example_times_def
        example_server_env_def example_env_def example_jobs_def Jobs_new_def example_job_def example_service_def)
  then have "execute example_server_env (example_issuer 1) (\<lambda>_ _. True) (\<lambda>_. []) 0 example_times example_job (example_jobs, example_service)
      \<noteq> execute example_server_env (example_issuer 2) (\<lambda>_ _. True) (\<lambda>_. []) 0 example_times example_job (example_jobs, example_service)"
    by (metis one_eq_numeral_iff semiring_norm(85))
  from orders_only_own_names [OF this] have "own_names (domain example_service) example_job (map to_ascii_lowercase (job_identifiers example_job))" ..
  moreover have "map to_ascii_lowercase (job_identifiers example_job) = [''x.dev'']" by code_simp
  ultimately show ?thesis by simp
qed


definition example_zone :: Outside
  where "example_zone = \<lparr>peer = (\<lambda>_ _ _. Ok \<lparr>reply_status = 200, reply_nonce = None, reply_location = None,
      reply_retry = None, reply_body = Ok []\<rparr>),
    dropped = (\<lambda>_. False), join_url = (\<lambda>_ _. None), redirect_text = [], status_text = (\<lambda>_. []), decode_text = [], exit_text = (\<lambda>_. []), url_ok = (\<lambda>_. True)\<rparr>"

definition example_listed :: Listed
  where "example_listed = \<lparr>listed_id = ''1'', listed_name = ''_acme-challenge.t.x.dev'',
    content = replicate 43 CHR ''a'', created_on = []\<rparr>"

definition example_listing :: DnsCodec
  where "example_listing = \<lparr>read_creation = (\<lambda>_. None), read_found = (\<lambda>_. None),
    read_page = (\<lambda>_. Some ([example_listed], 1)), read_answers = (\<lambda>_. None), parse_time = (\<lambda>_. Some 0)\<rparr>"


text \<open>A renewal alarm that fails is set again a minute later. When setting it fails too, the alarms that were due with it are
  not tried, although they have been taken out of the database already.\<close>

theorem failed_alarm_drops_the_rest:
  assumes "renewal_alarm env now tid s = (Err e, s1)"
    and "sv_store_io (set_alarm (db_world env) tid (Some (now + MINUTE_MS))) s1 = (Err e', s2)"
  shows "fire_each env now (tid # ids) s = (Err e', s2)"
  using assms by (simp add: sv_bind_def sv_try_def)

end
