(* ===== verification/Client_Session.thy ===== *)
theory Client_Session
  imports Retry Proxy Frames "HOL-Library.AList"
begin

text \<open>
  The client's side of a tunnel (\<^verbatim>\<open>opentunnel/src/tunnel.rs\<close>): attaching a bridge, one session with its public connections, the task of
  each connection, the writer, and the supervisor that reconnects. A session is a function of the list of what happens to it
  (\<open>label\<close>), which the sockets, the timers and the scheduler choose; a label that is not possible in a state changes nothing. TLS
  and the connection to the target are one stream each, whose bytes are in the labels.
\<close>

section \<open>Errors, events and status\<close>

text \<open>An error of the HTTP client has its text and whether it is of the connection, a timeout or of the request.\<close>

datatype Error =
  Api nat string string
| Http string bool
| Io string string
| Corrupt string string
| Attach string
| Bridge string
| CertificateFailed string
| Invalid string
| Crypto string

fun Error_display :: "Error \<Rightarrow> string" where
  "Error_display (Api status tag m) = tag @ '': '' @ m @ '' (HTTP '' @ show_nat status @ '')''"
| "Error_display (Http m _) = ''request failed: '' @ m"
| "Error_display (Io context m) = context @ '': '' @ m"
| "Error_display (Corrupt path m) = ''invalid stored data in '' @ path @ '': '' @ m"
| "Error_display (Attach code) = ''bridge attach failed: '' @ code"
| "Error_display (Bridge m) = ''bridge error: '' @ m"
| "Error_display (CertificateFailed m) = ''certificate issuance failed: '' @ m"
| "Error_display (Invalid m) = m"
| "Error_display (Crypto m) = ''crypto error: '' @ m"

fun is_transient_error :: "Error \<Rightarrow> bool" where
  "is_transient_error (Api status _ _) = retryable_status status Idempotent"
| "is_transient_error (Http _ passing) = passing"
| "is_transient_error _ = False"

type_synonym routes = "(string \<times> Route) list"

datatype Event =
  Connecting nat
| Connected string "string list"
| Disconnected string
| Reconnecting nat nat
| ConnectionOpened ConnId string string
| ConnectionClosed ConnId string "string option"
| CertificateRenewed string
| Stopped "string option"

datatype State = StateWaitingRoutes | StateConnecting | StateConnected | StateReconnecting | StateStopped

record Status =
  state :: State
  st_hostname :: string
  st_routes :: routes
  st_session :: "string option"
  connections :: nat
  st_error :: "string option"
  connected_at :: "nat option"

definition MAX_CONNS :: nat where "MAX_CONNS = 256"
definition OUTBOUND_QUEUE :: nat where "OUTBOUND_QUEUE = 256"
definition INBOUND_QUEUE :: nat where "INBOUND_QUEUE = 64"

text \<open>The names are labels or \<^verbatim>\<open>@\<close> in order, each with a target that can be connected to.\<close>

fun validate_routes :: "routes \<Rightarrow> Error + unit" where
  "validate_routes [] = Ok ()"
| "validate_routes ((name, r) # rs) =
     (case Route_validate r name of Inl e \<Rightarrow> Err (Invalid e) | Inr _ \<Rightarrow> validate_routes rs)"

section \<open>The state of a session\<close>

text \<open>What is sent: a control message, or a data frame.\<close>

datatype Out = Control ClientMessage | Binary bytes

datatype Inbound = Data bytes | End

record Channel =
  chan_route :: string
  chan_task :: nat

text \<open>The task of a connection: its queue from the reader, whether the receiving end of it is gone and whether the sending end is, what was
  written towards TLS and whether that was ended, whether the upload and the serving are over, the failure that it is about to report,
  its result, and whether it was aborted or its result taken.\<close>

record Task =
  task_conn :: ConnId
  task_target :: string
  task_preamble :: "bytes option"
  queue :: "Inbound list"
  hungup :: bool
  sender_gone :: bool
  written :: bytes
  shut :: bool
  uploaded :: bool
  served :: bool
  failing :: "(string \<times> string) option"
  finished :: "string option option"
  aborted :: bool
  joined :: bool

record Sess =
  names :: "string list"
  targets :: routes
  channels :: "(ConnId \<times> Channel) list"
  tasks :: "nat \<Rightarrow> Task"
  next_task :: nat
  outbound :: "Out list"
  controls :: "Out list"
  wire :: "Out list"
  writer_gone :: bool
  last_received :: nat
  heartbeat_ms :: nat
  idle_ms :: nat
  status :: Status
  events :: "Event list"

datatype SessionEnd = EndShutdown | EndRoutesChanged | EndFatal Error | EndRetry string bool

definition retry :: "string \<Rightarrow> SessionEnd"
  where "retry e = EndRetry e True"

definition new_task :: "ConnId \<Rightarrow> string \<Rightarrow> bytes option \<Rightarrow> Task"
  where "new_task conn address preamble = \<lparr>task_conn = conn, task_target = address, task_preamble = preamble, queue = [],
    hungup = False, sender_gone = False, written = [], shut = False, uploaded = False, served = False, failing = None,
    finished = None, aborted = False, joined = False\<rparr>"

definition emit :: "Event \<Rightarrow> Sess \<Rightarrow> Sess"
  where "emit e s = s\<lparr>events := events s @ [e]\<rparr>"

definition on_task :: "nat \<Rightarrow> (Task \<Rightarrow> Task) \<Rightarrow> Sess \<Rightarrow> Sess"
  where "on_task i f s = s\<lparr>tasks := (tasks s)(i := f (tasks s i))\<rparr>"

definition send_control :: "ClientMessage \<Rightarrow> Sess \<Rightarrow> Sess"
  where "send_control m s = (if writer_gone s then s else s\<lparr>controls := controls s @ [Control m]\<rparr>)"

definition count_connections :: "Sess \<Rightarrow> Sess"
  where "count_connections s = s\<lparr>status := (status s)\<lparr>connections := length (channels s)\<rparr>\<rparr>"

text \<open>Takes a channel out of the table; its queue has no sender any more.\<close>

definition drop_channel :: "ConnId \<Rightarrow> Channel \<Rightarrow> Sess \<Rightarrow> Sess"
  where "drop_channel conn ch s =
    count_connections (on_task (chan_task ch) (\<lambda>t. t\<lparr>sender_gone := True\<rparr>) (s\<lparr>channels := AList.delete conn (channels s)\<rparr>))"

definition abort :: "nat \<Rightarrow> Sess \<Rightarrow> Sess"
  where "abort i = on_task i (\<lambda>t. t\<lparr>aborted := True\<rparr>)"

section \<open>The task of a connection\<close>

text \<open>Whether it still runs.\<close>

definition live :: "Task \<Rightarrow> bool"
  where "live t \<longleftrightarrow> \<not> aborted t \<and> finished t = None \<and> failing t = None"

definition stop_receiving :: "Task \<Rightarrow> Task"
  where "stop_receiving t = t\<lparr>hungup := True, queue := []\<rparr>"

text \<open>One item from the queue; writing it may fail.\<close>

definition receive :: "bool \<Rightarrow> Task \<Rightarrow> Task"
  where "receive ok t =
    (if aborted t \<or> hungup t then t
     else case queue t of
       [] \<Rightarrow> if sender_gone t then (stop_receiving t)\<lparr>shut := True\<rparr> else t
     | Data p # q \<Rightarrow> if ok then t\<lparr>queue := q, written := written t @ p\<rparr> else stop_receiving t
     | End # q \<Rightarrow> (stop_receiving t)\<lparr>shut := True\<rparr>)"

fun receive_n :: "nat \<Rightarrow> Task \<Rightarrow> Task" where
  "receive_n 0 t = t"
| "receive_n (Suc n) t = receive_n n (receive True t)"

text \<open>Both futures ended well: the task is done and stops receiving.\<close>

definition complete :: "Task \<Rightarrow> Task"
  where "complete t = (if served t \<and> uploaded t then (stop_receiving t)\<lparr>finished := Some None\<rparr> else t)"

definition fail_with :: "string \<Rightarrow> string \<Rightarrow> Task \<Rightarrow> Task"
  where "fail_with code m t = (stop_receiving t)\<lparr>failing := Some (code, m)\<rparr>"

text \<open>What the upload reads: nothing is the end of the stream. It waits while the queue to the writer is full.\<close>

definition upload :: "nat \<Rightarrow> bytes \<Rightarrow> Sess \<Rightarrow> Sess"
  where "upload i bs s =
    (let t = tasks s i in
     if \<not> live t \<or> uploaded t then s
     else if writer_gone s then on_task i (fail_with UPSTREAM_IO_ERROR ''bridge closed'') s
     else if OUTBOUND_QUEUE \<le> length (outbound s) then s
     else if bs = [] then
       on_task i (\<lambda>t. complete (t\<lparr>uploaded := True\<rparr>)) (s\<lparr>outbound := outbound s @ [Control (ClientEnd (task_conn t))]\<rparr>)
     else s\<lparr>outbound := outbound s @ [Binary (encode_data_frame (task_conn t) (take MAX_PAYLOAD_SIZE bs))]\<rparr>)"

text \<open>How accepting TLS, connecting to the target and copying ended: well, or with an error of the connection or another one.\<close>

definition serve :: "nat \<Rightarrow> (bool \<times> string) option \<Rightarrow> Sess \<Rightarrow> Sess"
  where "serve i r s =
    (let t = tasks s i in
     if \<not> live t \<or> served t then s
     else on_task i (case r of
         None \<Rightarrow> \<lambda>t. complete (t\<lparr>served := True\<rparr>)
       | Some (connecting, m) \<Rightarrow>
           if connecting then fail_with UPSTREAM_CONNECT_FAILED (''upstream connect failed: '' @ m)
           else fail_with UPSTREAM_IO_ERROR m) s)"

text \<open>A failed task tells the server before it ends.\<close>

definition report :: "nat \<Rightarrow> Sess \<Rightarrow> Sess"
  where "report i s =
    (let t = tasks s i in
     case failing t of
       None \<Rightarrow> s
     | Some (code, m) \<Rightarrow>
         if aborted t \<or> finished t \<noteq> None then s
         else if writer_gone s then on_task i (\<lambda>t. t\<lparr>finished := Some (Some m)\<rparr>) s
         else if OUTBOUND_QUEUE \<le> length (outbound s) then s
         else on_task i (\<lambda>t. t\<lparr>finished := Some (Some m)\<rparr>)
           (s\<lparr>outbound := outbound s @ [Control (ClientReset (task_conn t) code)]\<rparr>))"

section \<open>The reader\<close>

text \<open>What happens while the queue of a connection is full: its task takes some items, it ends, or it does nothing for five seconds.\<close>

datatype Waited = Room nat | Hung_up | Timed_out

definition deliver :: "Waited \<Rightarrow> Inbound \<Rightarrow> Task \<Rightarrow> bool \<times> Task"
  where "deliver waited item t =
    (if hungup t then (True, t)
     else if length (queue t) < INBOUND_QUEUE then (True, t\<lparr>queue := queue t @ [item]\<rparr>)
     else case waited of
       Room n \<Rightarrow>
         let t = receive_n (Suc n) t in
         if hungup t then (True, t)
         else if length (queue t) < INBOUND_QUEUE then (True, t\<lparr>queue := queue t @ [item]\<rparr>)
         else (False, t)
     | Hung_up \<Rightarrow> (True, stop_receiving t)
     | Timed_out \<Rightarrow> (False, t))"

text \<open>Resets a connection whose local side stopped reading.\<close>

definition stalled :: "ConnId \<Rightarrow> Sess \<Rightarrow> Sess"
  where "stalled conn s =
    (case map_of (channels s) conn of
       None \<Rightarrow> s
     | Some ch \<Rightarrow>
         emit (ConnectionClosed conn (chan_route ch) (Some ''local connection stalled''))
           (drop_channel conn ch (send_control (ClientReset conn UPSTREAM_IO_ERROR) (abort (chan_task ch) s))))"

definition deliver_to :: "Waited \<Rightarrow> ConnId \<Rightarrow> Inbound \<Rightarrow> Sess \<Rightarrow> Sess"
  where "deliver_to waited conn item s =
    (case map_of (channels s) conn of
       None \<Rightarrow> s
     | Some ch \<Rightarrow>
         (case deliver waited item (tasks s (chan_task ch)) of
            (ok, t) \<Rightarrow>
              let s = on_task (chan_task ch) (\<lambda>_. t) s in if ok then s else stalled conn s))"

text \<open>A new public connection, for the route its host name gives.\<close>

definition open_connection :: "string \<Rightarrow> ConnId \<Rightarrow> string \<Rightarrow> string \<Rightarrow> Sess \<Rightarrow> Sess"
  where "open_connection hostname conn peer sni s =
    (let r = route_for_sni sni hostname in
     case (r, Option.bind r (map_of (targets s))) of
       (Some r, Some rt) \<Rightarrow>
         if MAX_CONNS \<le> length (channels s) then send_control (ClientReset conn TOO_MANY_CONNECTIONS) s
         else
           let i = next_task s;
               preamble = map_option (\<lambda>v. proxy_header v peer sni) (proxy_protocol rt);
               s = (case map_of (channels s) conn of
                      Some ch \<Rightarrow> on_task (chan_task ch) (\<lambda>t. t\<lparr>sender_gone := True\<rparr>) s | None \<Rightarrow> s);
               s = s\<lparr>tasks := (tasks s)(i := new_task conn (target rt) preamble), next_task := Suc i,
                 channels := AList.update conn \<lparr>chan_route = r, chan_task = i\<rparr> (channels s)\<rparr>
           in emit (ConnectionOpened conn r peer) (count_connections s)
     | _ \<Rightarrow> send_control (ClientReset conn UNKNOWN_ROUTE) s)"

definition close_connection :: "ConnId \<Rightarrow> string \<Rightarrow> Sess \<Rightarrow> Sess"
  where "close_connection conn code s =
    (case map_of (channels s) conn of
       None \<Rightarrow> s
     | Some ch \<Rightarrow>
         emit (ConnectionClosed conn (chan_route ch) (Some code)) (drop_channel conn ch (abort (chan_task ch) s)))"

datatype Ws_message = Ws_binary bytes | Ws_text string | Ws_close "(nat \<times> string) option" | Ws_other

fun server_message :: "string \<Rightarrow> Waited \<Rightarrow> ServerMessage \<Rightarrow> Sess \<Rightarrow> SessionEnd option \<times> Sess" where
  "server_message hostname waited (ServerOpen conn peer sni alpn) s = (None, open_connection hostname conn peer sni s)"
| "server_message hostname waited (ServerEnd conn) s = (None, deliver_to waited conn End s)"
| "server_message hostname waited (ServerReset conn code) s = (None, close_connection conn code s)"
| "server_message hostname waited (ServerPing at) s = (None, send_control (ClientPong at) s)"
| "server_message hostname waited (ServerDrain reason) s = (Some (retry (''server draining: '' @ reason)), s)"
| "server_message hostname waited _ s = (None, s)"

text \<open>The decoder of control messages is a parameter: \<open>ServerMessage_decode\<close> on the JSON library.\<close>

type_synonym decoder = "string \<Rightarrow> DecodeError + ServerMessage option"

definition read_message :: "string \<Rightarrow> decoder \<Rightarrow> Waited \<Rightarrow> Ws_message \<Rightarrow> Sess \<Rightarrow> SessionEnd option \<times> Sess"
  where "read_message hostname decode waited m s =
    (case m of
       Ws_binary frame \<Rightarrow>
         (case decode_data_frame frame of
            None \<Rightarrow> (None, s)
          | Some (conn, p) \<Rightarrow> (None, deliver_to waited conn (Data p) s))
     | Ws_text t \<Rightarrow>
         (case decode t of
            Inr (Some m) \<Rightarrow> server_message hostname waited m s
          | _ \<Rightarrow> (None, s))
     | Ws_close None \<Rightarrow> (Some (retry ''bridge closed''), s)
     | Ws_close (Some (code, reason)) \<Rightarrow> (Some (retry (show_nat code @ '' '' @ reason)), s)
     | Ws_other \<Rightarrow> (None, s))"

section \<open>The session\<close>

text \<open>The end of the stream is \<open>None\<close>, a failure to read \<open>Inl\<close>.\<close>

datatype label =
  Reads nat Waited "(string + Ws_message) option"
| Joins nat
| Beats nat
| Routes_now "routes option"
| Shuts_down
| Receives nat bool
| Uploads nat bytes
| Upload_fails nat string
| Serves nat "(bool \<times> string) option"
| Reports nat
| Writes bool

definition join_task :: "nat \<Rightarrow> Sess \<Rightarrow> Sess"
  where "join_task i s =
    (let t = tasks s i in
     case finished t of
       None \<Rightarrow> s
     | Some e \<Rightarrow>
         if joined t then s
         else
           let s = on_task i (\<lambda>t. t\<lparr>joined := True\<rparr>) s in
           (case map_of (channels s) (task_conn t) of
              None \<Rightarrow> s
            | Some ch \<Rightarrow> emit (ConnectionClosed (task_conn t) (chan_route ch) e) (drop_channel (task_conn t) ch s)))"

definition beat :: "nat \<Rightarrow> Sess \<Rightarrow> SessionEnd option \<times> Sess"
  where "beat now s =
    (if idle_ms s < now - last_received s then (Some (retry ''bridge idle timeout''), s)
     else (None, send_control (ClientPing (word_of_nat now)) s))"

definition new_routes :: "routes option \<Rightarrow> Sess \<Rightarrow> SessionEnd option \<times> Sess"
  where "new_routes rs s =
    (case rs of
       None \<Rightarrow> (Some EndShutdown, s)
     | Some rs \<Rightarrow>
         if map fst rs = names s then (None, s\<lparr>status := (status s)\<lparr>st_routes := rs\<rparr>, targets := rs\<rparr>)
         else (Some EndRoutesChanged, s))"

text \<open>The writer: control messages go first.\<close>

definition write_next :: "bool \<Rightarrow> Sess \<Rightarrow> Sess"
  where "write_next ok s =
    (if writer_gone s then s
     else case (controls s, outbound s) of
       ([], []) \<Rightarrow> s
     | (c # cs, _) \<Rightarrow>
         if ok then s\<lparr>controls := cs, wire := wire s @ [c]\<rparr> else s\<lparr>writer_gone := True, controls := [], outbound := []\<rparr>
     | ([], m # ms) \<Rightarrow>
         if ok then s\<lparr>outbound := ms, wire := wire s @ [m]\<rparr> else s\<lparr>writer_gone := True, controls := [], outbound := []\<rparr>)"

definition session_step :: "string \<Rightarrow> decoder \<Rightarrow> label \<Rightarrow> Sess \<Rightarrow> SessionEnd option \<times> Sess"
  where "session_step hostname decode l s =
    (case l of
       Reads now waited m \<Rightarrow>
         let s = s\<lparr>last_received := now\<rparr> in
         (case m of
            None \<Rightarrow> (Some (retry ''bridge closed''), s)
          | Some (Inl e) \<Rightarrow> (Some (retry e), s)
          | Some (Inr m) \<Rightarrow> read_message hostname decode waited m s)
     | Joins i \<Rightarrow> (None, join_task i s)
     | Beats now \<Rightarrow> beat now s
     | Routes_now rs \<Rightarrow> new_routes rs s
     | Shuts_down \<Rightarrow> (Some EndShutdown, s)
     | Receives i ok \<Rightarrow> (None, on_task i (receive ok) s)
     | Uploads i bs \<Rightarrow> (None, upload i bs s)
     | Upload_fails i m \<Rightarrow>
         (None, if live (tasks s i) \<and> \<not> uploaded (tasks s i) then on_task i (fail_with UPSTREAM_IO_ERROR m) s else s)
     | Serves i r \<Rightarrow> (None, serve i r s)
     | Reports i \<Rightarrow> (None, report i s)
     | Writes ok \<Rightarrow> (None, write_next ok s))"

fun close_each :: "(ConnId \<times> Channel) list \<Rightarrow> Sess \<Rightarrow> Sess" where
  "close_each [] s = s"
| "close_each ((conn, ch) # chs) s =
     close_each chs (emit (ConnectionClosed conn (chan_route ch) (Some ''bridge disconnected'')) (abort (chan_task ch) s))"

definition end_session :: "Sess \<Rightarrow> Sess"
  where "end_session s =
    (let s = (close_each (channels s) s)\<lparr>channels := []\<rparr>
     in s\<lparr>tasks := (\<lambda>i. (tasks s i)\<lparr>aborted := True\<rparr>), writer_gone := True\<rparr>)"

fun session_loop :: "string \<Rightarrow> decoder \<Rightarrow> label list \<Rightarrow> Sess \<Rightarrow> SessionEnd option \<times> Sess" where
  "session_loop hostname decode [] s = (None, s)"
| "session_loop hostname decode (l # ls) s =
     (case session_step hostname decode l s of
        (Some e, s) \<Rightarrow> (Some e, end_session s)
      | (None, s) \<Rightarrow> session_loop hostname decode ls s)"

section \<open>Attaching\<close>

record AttachedSession =
  att_session :: string
  att_heartbeat :: nat
  att_idle :: nat

definition attach_message :: "string \<Rightarrow> string list \<Rightarrow> string \<Rightarrow> ClientMessage"
  where "attach_message token rs release =
    ClientAttach token Ws rs \<lparr>version = release, max_conns = word_of_nat MAX_CONNS\<rparr>"

text \<open>The answers until one settles it; \<open>None\<close> while none has. The end of the list is the end of the stream when \<open>closed\<close>.\<close>

fun await_attached :: "decoder \<Rightarrow> bool \<Rightarrow> (string + Ws_message) list \<Rightarrow> (Error + AttachedSession) option" where
  "await_attached decode closed [] = (if closed then Some (Err (Bridge ''bridge closed before attach'')) else None)"
| "await_attached decode closed (Inl e # ms) = Some (Err (Bridge e))"
| "await_attached decode closed (Inr m # ms) =
     (case m of
        Ws_text t \<Rightarrow>
          (case decode t of
             Inr (Some (ServerAttached name rs beat_ms idle)) \<Rightarrow>
               Some (Ok \<lparr>att_session = name, att_heartbeat = max (unat beat_ms) 1000, att_idle = max (unat idle) 5000\<rparr>)
           | Inr (Some (ServerAttachError code)) \<Rightarrow> Some (Err (Attach code))
           | _ \<Rightarrow> await_attached decode closed ms)
      | _ \<Rightarrow> await_attached decode closed ms)"

text \<open>What came of connecting: an answer to the attach or an error, too much time, or a shutdown meanwhile.\<close>

datatype Connect = Answered "Error + AttachedSession" | Connect_timeout | Connect_shutdown

definition begin_session :: "routes \<Rightarrow> AttachedSession \<Rightarrow> nat \<Rightarrow> Status \<Rightarrow> Event list \<Rightarrow> Sess"
  where "begin_session rs a now st es =
    \<lparr>names = map fst rs, targets = rs, channels = [], tasks = (\<lambda>_. new_task 0 [] None), next_task = 0, outbound = [], controls = [],
     wire = [], writer_gone = False, last_received = now, heartbeat_ms = att_heartbeat a, idle_ms = att_idle a,
     status = st\<lparr>state := StateConnected, st_session := Some (att_session a), st_routes := rs, st_error := None,
       connected_at := Some now\<rparr>,
     events = es @ [Connected (att_session a) (map fst rs)]\<rparr>"

definition connect_end :: "Connect \<Rightarrow> SessionEnd + AttachedSession"
  where "connect_end c =
    (case c of
       Answered (Inr a) \<Rightarrow> Ok a
     | Answered (Inl e) \<Rightarrow>
         Err (case e of
           Attach code \<Rightarrow> if is_fatal_attach_error code then EndFatal e else EndRetry (Error_display e) False
         | Invalid _ \<Rightarrow> EndFatal e
         | _ \<Rightarrow> EndRetry (Error_display e) False)
     | Connect_timeout \<Rightarrow> Err (EndRetry ''bridge attach timed out'' False)
     | Connect_shutdown \<Rightarrow> Err EndShutdown)"

text \<open>\<open>None\<close> while the session goes on.\<close>

definition session :: "string \<Rightarrow> decoder \<Rightarrow> routes \<Rightarrow> Connect \<Rightarrow> nat \<Rightarrow> label list \<Rightarrow> Status \<times> Event list
    \<Rightarrow> SessionEnd option \<times> Status \<times> Event list"
  where "session hostname decode rs c now ls = (\<lambda>(st, es).
    case connect_end c of
      Inl e \<Rightarrow> (Some e, st, es)
    | Inr a \<Rightarrow>
        (case session_loop hostname decode ls (begin_session rs a now st es) of
           (e, s) \<Rightarrow> (e, status s, events s)))"

section \<open>The supervisor\<close>

record Sup =
  attempt :: nat
  sup_status :: Status
  sup_events :: "Event list"

text \<open>What one turn of its loop meets: whether a shutdown was asked for, the routes, how connecting went and when, the labels of
  the session, and the random choice of the delay.\<close>

record Turn =
  turn_shutdown :: bool
  turn_routes :: routes
  turn_connect :: Connect
  turn_at :: nat
  turn_labels :: "label list"
  turn_pick :: nat

definition retry_delay :: "nat \<Rightarrow> nat \<Rightarrow> nat"
  where "retry_delay n pick = (case reconnect_backoff n of (lo, hi) \<Rightarrow> lo + pick mod (hi - lo + 1))"

datatype turn_end = Again | Still_running | Ended "Error + unit"

definition stop :: "Error + unit \<Rightarrow> Sup \<Rightarrow> turn_end \<times> Sup"
  where "stop r v =
    (let e = (case r of Inl e \<Rightarrow> Some (Error_display e) | Inr _ \<Rightarrow> None);
         st = (sup_status v)\<lparr>state := StateStopped\<rparr>;
         st = (if e = None then st else st\<lparr>st_error := e\<rparr>)
     in (Ended r, v\<lparr>sup_status := st, sup_events := sup_events v @ [Stopped e]\<rparr>))"

definition after_session :: "nat \<Rightarrow> SessionEnd \<Rightarrow> Sup \<Rightarrow> turn_end \<times> Sup"
  where "after_session pick e v =
    (let v = v\<lparr>sup_status := (sup_status v)\<lparr>st_session := None, connections := 0\<rparr>\<rparr> in
     case e of
       EndShutdown \<Rightarrow> stop (Ok ()) v
     | EndRoutesChanged \<Rightarrow> (Again, v\<lparr>attempt := 0, sup_events := sup_events v @ [Disconnected ''routes changed'']\<rparr>)
     | EndFatal error \<Rightarrow> stop (Err error) v
     | EndRetry m attached \<Rightarrow>
         let n = (if attached then 0 else attempt v);
             d = retry_delay n pick;
             n' = min (Suc n) (2 ^ 32 - 1)
         in (Again, v\<lparr>attempt := n',
              sup_status := (sup_status v)\<lparr>state := StateReconnecting, st_error := Some m\<rparr>,
              sup_events := sup_events v @ [Disconnected m, Reconnecting n' d]\<rparr>))"

definition supervise_turn :: "string \<Rightarrow> decoder \<Rightarrow> Turn \<Rightarrow> Sup \<Rightarrow> turn_end \<times> Sup"
  where "supervise_turn hostname decode tn v =
    (if turn_shutdown tn then stop (Ok ()) v
     else if turn_routes tn = [] then
       (Again, v\<lparr>sup_status := (sup_status v)\<lparr>state := StateWaitingRoutes, st_routes := []\<rparr>\<rparr>)
     else
       (case session hostname decode (turn_routes tn) (turn_connect tn) (turn_at tn) (turn_labels tn)
           ((sup_status v)\<lparr>state := StateConnecting\<rparr>, sup_events v @ [Connecting (attempt v)]) of
          (None, st, es) \<Rightarrow> (Still_running, v\<lparr>sup_status := st, sup_events := es\<rparr>)
        | (Some e, st, es) \<Rightarrow> after_session (turn_pick tn) e (v\<lparr>sup_status := st, sup_events := es\<rparr>)))"

text \<open>The turns of a tunnel, until it ends or a session goes on.\<close>

fun supervise :: "string \<Rightarrow> decoder \<Rightarrow> Turn list \<Rightarrow> Sup \<Rightarrow> (Error + unit) option \<times> Sup" where
  "supervise hostname decode [] v = (None, v)"
| "supervise hostname decode (tn # tns) v =
     (case supervise_turn hostname decode tn v of
        (Again, v) \<Rightarrow> supervise hostname decode tns v
      | (Still_running, v) \<Rightarrow> (None, v)
      | (Ended r, v) \<Rightarrow> (Some r, v))"

text \<open>The routes a tunnel is given from outside; \<open>made\<close> is what making the TLS acceptor of its certificate and key came to.\<close>

definition set_routes :: "routes \<Rightarrow> Error + routes"
  where "set_routes rs = (case validate_routes rs of Inl e \<Rightarrow> Err e | Inr _ \<Rightarrow> Ok rs)"

definition start :: "string \<Rightarrow> Error + unit \<Rightarrow> routes \<Rightarrow> Error + Sup"
  where "start hostname made rs =
    (case validate_routes rs of
       Inl e \<Rightarrow> Err e
     | Inr _ \<Rightarrow>
         (case made of
            Inl e \<Rightarrow> Err e
          | Inr _ \<Rightarrow> Ok \<lparr>attempt = 0, sup_status = \<lparr>state = StateConnecting, st_hostname = hostname, st_routes = rs, st_session = None,
              connections = 0, st_error = None, connected_at = None\<rparr>, sup_events = []\<rparr>))"

end
