(* ===== verification/Client_Runs.thy ===== *)
theory Client_Runs
  imports Client_Session
begin

text \<open>
  Invariants of the client's side of a tunnel: what every step of a session keeps (\<open>session_keeps\<close>), its limits, the accounting of its
  connections, the bytes of each connection, and what the supervisor tells over its sessions.
\<close>

section \<open>What the steps of a session keep\<close>

text \<open>A task after a change is still for the same connection, and its queue within its limit.\<close>

definition task_like :: "Task \<Rightarrow> Task \<Rightarrow> bool"
  where "task_like t t' \<longleftrightarrow> task_conn t' = task_conn t \<and> (length (queue t) \<le> INBOUND_QUEUE \<longrightarrow> length (queue t') \<le> INBOUND_QUEUE)"

lemma task_like_refl [simp]: "task_like t t" by (simp add: task_like_def)

lemma task_like_trans: "task_like a b \<Longrightarrow> task_like b c \<Longrightarrow> task_like a c"
  by (simp add: task_like_def)

lemma task_like_stop [simp]: "task_like t (stop_receiving t)"
  by (simp add: task_like_def stop_receiving_def)

lemma task_like_updates [simp]:
  "task_like t (t'\<lparr>shut := b\<rparr>) = task_like t t'" "task_like t (t'\<lparr>uploaded := b\<rparr>) = task_like t t'"
  "task_like t (t'\<lparr>served := b\<rparr>) = task_like t t'" "task_like t (t'\<lparr>failing := f\<rparr>) = task_like t t'"
  "task_like t (t'\<lparr>finished := e\<rparr>) = task_like t t'" "task_like t (t'\<lparr>aborted := b\<rparr>) = task_like t t'"
  "task_like t (t'\<lparr>joined := b\<rparr>) = task_like t t'" "task_like t (t'\<lparr>sender_gone := b\<rparr>) = task_like t t'"
  by (simp_all add: task_like_def)

lemma task_like_receive [simp]: "task_like t (receive ok t)"
  by (auto simp: receive_def split: list.splits Inbound.splits) (auto simp: task_like_def)

lemma task_like_fail [simp]: "task_like t (fail_with code m t)"
  by (simp add: fail_with_def)

lemma task_like_receive_n [simp]: "task_like t (receive_n n t)"
proof (induction n arbitrary: t)
  case (Suc n)
  show ?case using task_like_trans [OF task_like_receive Suc.IH] by simp
qed simp

lemma task_like_complete [simp]: "task_like t (complete t') = task_like t t'" if "task_conn t' = task_conn t" "queue t' = queue t"
  using that by (simp add: complete_def stop_receiving_def task_like_def)

lemma task_like_deliver: "deliver waited item t = (ok, t') \<Longrightarrow> task_like t t'"
proof -
  have push: "task_like t (u\<lparr>queue := queue u @ [item]\<rparr>)" if "task_like t u" "length (queue u) < INBOUND_QUEUE" for u
    using that by (simp add: task_like_def)
  assume "deliver waited item t = (ok, t')"
  then show ?thesis
    using task_like_receive_n [of t "Suc n" for n]
    by (auto simp: deliver_def Let_def intro!: push split: if_splits Waited.splits simp del: receive_n.simps)
qed

text \<open>The connection a label opens, and runs in which every connection that is opened is fresh at that moment.\<close>

definition opens :: "decoder \<Rightarrow> label \<Rightarrow> ConnId option"
  where "opens decode l =
    (case l of
       Reads _ _ (Some (Inr (Ws_text t))) \<Rightarrow>
         (case decode t of Inr (Some (ServerOpen conn _ _ _)) \<Rightarrow> Some conn | _ \<Rightarrow> None)
     | _ \<Rightarrow> None)"

fun orderly :: "(Sess \<Rightarrow> ConnId \<Rightarrow> bool) \<Rightarrow> string \<Rightarrow> decoder \<Rightarrow> label list \<Rightarrow> Sess \<Rightarrow> bool" where
  "orderly fresh hostname decode [] s = True"
| "orderly fresh hostname decode (l # ls) s \<longleftrightarrow>
     (case opens decode l of Some conn \<Rightarrow> fresh s conn | None \<Rightarrow> True) \<and>
     (case session_step hostname decode l s of (None, s') \<Rightarrow> orderly fresh hostname decode ls s' | _ \<Rightarrow> True)"

text \<open>A property of sessions that changes of tasks, queues and timers do not touch, that the closing of a connection keeps, and the opening of
  one that is \<open>fresh\<close>.\<close>

locale session_keeps =
  fixes I :: "Sess \<Rightarrow> bool" and fresh :: "Sess \<Rightarrow> ConnId \<Rightarrow> bool"
  assumes I_task: "I s \<Longrightarrow> task_like (tasks s i) t \<Longrightarrow> I (s\<lparr>tasks := (tasks s)(i := t)\<rparr>)"
    and I_controls: "I s \<Longrightarrow> I (s\<lparr>controls := ms\<rparr>)"
    and I_outbound: "I s \<Longrightarrow> length ms \<le> OUTBOUND_QUEUE \<Longrightarrow> I (s\<lparr>outbound := ms\<rparr>)"
    and I_wire: "I s \<Longrightarrow> I (s\<lparr>wire := ms\<rparr>)"
    and I_outbound_len: "I s \<Longrightarrow> length (outbound s) \<le> OUTBOUND_QUEUE"
    and I_writer: "I s \<Longrightarrow> I (s\<lparr>writer_gone := b\<rparr>)"
    and I_received: "I s \<Longrightarrow> I (s\<lparr>last_received := n\<rparr>)"
    and I_routes: "I s \<Longrightarrow> map fst rs = names s \<Longrightarrow> I (s\<lparr>status := (status s)\<lparr>st_routes := rs\<rparr>, targets := rs\<rparr>)"
    and I_close: "I s \<Longrightarrow> map_of (channels s) conn = Some ch \<Longrightarrow> I (emit (ConnectionClosed conn r e) (drop_channel conn ch s))"
    and I_open: "I s \<Longrightarrow> fresh s conn \<Longrightarrow> length (channels s) < MAX_CONNS \<Longrightarrow>
      I (emit (ConnectionOpened conn r peer) (count_connections (s\<lparr>tasks := (tasks s)(next_task s := new_task conn address pre),
        next_task := Suc (next_task s), channels := AList.update conn \<lparr>chan_route = r, chan_task = next_task s\<rparr> (channels s)\<rparr>)))"
    and fresh_task: "fresh (s\<lparr>tasks := f\<rparr>) = fresh s" "fresh (s\<lparr>last_received := n\<rparr>) = fresh s"
begin

lemma I_on_task: "I s \<Longrightarrow> task_like (tasks s i) (f (tasks s i)) \<Longrightarrow> I (on_task i f s)"
  by (simp add: on_task_def I_task)

lemma I_send_control: "I s \<Longrightarrow> I (send_control m s)"
  by (simp add: send_control_def I_controls)

lemma I_abort: "I s \<Longrightarrow> I (abort i s)"
  by (simp add: abort_def I_on_task)

lemma send_control_channels [simp]: "channels (send_control m s) = channels s"
  by (simp add: send_control_def)

lemma on_task_channels [simp]: "channels (on_task i f s) = channels s"
  by (simp add: on_task_def)

lemma abort_channels [simp]: "channels (abort i s) = channels s"
  by (simp add: abort_def)

lemma I_stalled: "I s \<Longrightarrow> I (stalled conn s)"
  by (auto simp: stalled_def intro!: I_close I_send_control I_abort split: option.split)

lemma I_deliver_to: "I s \<Longrightarrow> I (deliver_to waited conn item s)"
  by (auto simp: deliver_to_def Let_def intro!: I_stalled I_on_task dest: task_like_deliver split: option.split prod.split)

lemma I_close_connection: "I s \<Longrightarrow> I (close_connection conn code s)"
  by (auto simp: close_connection_def intro!: I_close I_abort split: option.split)

lemma I_join_task: "I s \<Longrightarrow> I (join_task i s)"
  by (auto simp: join_task_def Let_def intro!: I_close I_on_task split: option.split)

lemma I_upload: "I s \<Longrightarrow> I (upload i bs s)"
  by (auto simp: upload_def Let_def fail_with_def intro!: I_on_task I_outbound)

lemma I_serve: "I s \<Longrightarrow> I (serve i r s)"
  by (auto simp: serve_def Let_def fail_with_def intro!: I_on_task split: option.split)

lemma I_report: "I s \<Longrightarrow> I (report i s)"
  by (auto simp: report_def Let_def intro!: I_on_task I_outbound split: option.split)

lemma I_write_next: "I s \<Longrightarrow> I (write_next ok s)"
  using I_outbound_len [of s]
  by (auto simp: write_next_def intro!: I_controls I_outbound I_wire I_writer split: list.split)

lemma I_beat: "I s \<Longrightarrow> beat now s = (e, s') \<Longrightarrow> I s'"
  by (auto simp: beat_def intro!: I_send_control split: if_splits)

lemma I_new_routes: "I s \<Longrightarrow> new_routes rs s = (e, s') \<Longrightarrow> I s'"
  by (auto simp: new_routes_def intro!: I_routes split: option.splits if_splits)

lemma I_open_connection:
  assumes "I s" "fresh s conn"
  shows "I (open_connection hostname conn peer sni s)"
proof -
  define s1 where "s1 = (case map_of (channels s) conn of
    Some ch \<Rightarrow> on_task (chan_task ch) (\<lambda>t. t\<lparr>sender_gone := True\<rparr>) s | None \<Rightarrow> s)"
  have "I s1" "fresh s1 conn" "channels s1 = channels s" "next_task s1 = next_task s"
    using assms by (auto simp: s1_def on_task_def fresh_task intro!: I_task split: option.split)
  then show ?thesis
    using assms I_open [of s1 conn] I_send_control
    unfolding open_connection_def Let_def s1_def [symmetric] by (auto simp: not_le split: option.split)
qed

lemma I_server_message:
  assumes "I s" "server_message hostname waited m s = (e, s')" "\<And>conn peer sni alpn. m = ServerOpen conn peer sni alpn \<Longrightarrow> fresh s conn"
  shows "I s'"
  using assms by (cases m) (auto intro: I_open_connection I_deliver_to I_close_connection I_send_control)

lemma I_read_message:
  assumes "I s" "read_message hostname decode waited m s = (e, s')"
    and "\<And>t conn peer sni alpn. m = Ws_text t \<Longrightarrow> decode t = Ok (Some (ServerOpen conn peer sni alpn)) \<Longrightarrow> fresh s conn"
  shows "I s'"
  using assms
  by (cases m) (auto simp: read_message_def intro: I_deliver_to I_server_message split: option.splits sum.splits)

lemma I_step:
  assumes "I s" "session_step hostname decode l s = (e, s')" "case opens decode l of Some conn \<Rightarrow> fresh s conn | None \<Rightarrow> True"
  shows "I s'"
proof (cases l)
  case (Reads now waited m)
  have got: "I (s\<lparr>last_received := now\<rparr>)" using assms(1) by (rule I_received)
  show ?thesis
  proof (cases "\<exists>x. m = Some (Inr x)")
    case True
    then obtain x where m: "m = Some (Inr x)" by blast
    then have "read_message hostname decode waited x (s\<lparr>last_received := now\<rparr>) = (e, s')"
      using assms(2) Reads by (simp add: session_step_def Let_def)
    moreover have "fresh (s\<lparr>last_received := now\<rparr>) conn"
      if "x = Ws_text t" "decode t = Ok (Some (ServerOpen conn peer sni alpn))" for t conn peer sni alpn
      using assms(3) Reads m that by (simp add: opens_def fresh_task)
    ultimately show ?thesis using I_read_message [OF got] by blast
  next
    case False
    then show ?thesis using assms(2) Reads got by (auto simp: session_step_def Let_def split: option.splits sum.splits)
  qed
qed (use assms in \<open>auto simp: session_step_def split: if_splits
    intro: I_join_task I_upload I_serve I_report I_write_next I_on_task dest: I_beat I_new_routes\<close>)

lemma I_loop:
  "I s \<Longrightarrow> orderly fresh hostname decode ls s \<Longrightarrow> session_loop hostname decode ls s = (e, s') \<Longrightarrow>
     (case e of None \<Rightarrow> I s' | Some _ \<Rightarrow> \<exists>s1. I s1 \<and> s' = end_session s1)"
proof (induction ls arbitrary: s)
  case (Cons l ls)
  obtain e1 s1 where step: "session_step hostname decode l s = (e1, s1)" by fastforce
  have "I s1" using I_step [OF Cons.prems(1) step] Cons.prems(2) by simp
  then show ?case
    using Cons.IH [of s1] Cons.prems step by (cases e1) auto
qed auto

end

section \<open>Connections within their limits\<close>

text \<open>The connections have different numbers and tasks of their own, there are no more than were announced, their number is shown, the queues are within
  their limits, and the targets are those of the routes that were attached.\<close>

definition sess_ok :: "Sess \<Rightarrow> bool"
  where "sess_ok s \<longleftrightarrow> distinct (map fst (channels s)) \<and> length (channels s) \<le> MAX_CONNS \<and>
    connections (status s) = length (channels s) \<and>
    (\<forall>conn ch. map_of (channels s) conn = Some ch \<longrightarrow> chan_task ch < next_task s \<and> task_conn (tasks s (chan_task ch)) = conn) \<and>
    (\<forall>i. length (queue (tasks s i)) \<le> INBOUND_QUEUE) \<and> length (outbound s) \<le> OUTBOUND_QUEUE \<and> map fst (targets s) = names s"

lemma length_delete_le: "length (AList.delete k al) \<le> length al"
  by (simp add: AList.delete_eq)

lemma length_update_le: "length (AList.update k v al) \<le> Suc (length al)"
  by (induction al) auto

lemma drop_channel_parts:
  "drop_channel conn ch s = on_task (chan_task ch) (\<lambda>t. t\<lparr>sender_gone := True\<rparr>)
    (count_connections (s\<lparr>channels := AList.delete conn (channels s)\<rparr>))"
  by (simp add: drop_channel_def count_connections_def on_task_def)

lemma sess_ok_task: "sess_ok s \<Longrightarrow> task_like (tasks s i) t \<Longrightarrow> sess_ok (s\<lparr>tasks := (tasks s)(i := t)\<rparr>)"
  by (auto simp: sess_ok_def task_like_def)

lemma sess_ok_delete: "sess_ok s \<Longrightarrow> sess_ok (count_connections (s\<lparr>channels := AList.delete conn (channels s)\<rparr>))"
  using length_delete_le [of conn "channels s"]
  by (auto simp: sess_ok_def count_connections_def distinct_delete delete_conv' split: if_splits)

lemma sess_ok_emit [simp]: "sess_ok (emit e s) = sess_ok s"
  by (simp add: sess_ok_def emit_def)

interpretation within: session_keeps sess_ok "\<lambda>_ _. True"
proof
  show "sess_ok s \<Longrightarrow> map_of (channels s) conn = Some ch \<Longrightarrow> sess_ok (emit (ConnectionClosed conn r e) (drop_channel conn ch s))" for s conn ch r e
    using sess_ok_task [OF sess_ok_delete] by (simp add: drop_channel_parts on_task_def)
  show "sess_ok (emit (ConnectionOpened conn r peer) (count_connections (s\<lparr>tasks := (tasks s)(next_task s := new_task conn address pre),
      next_task := Suc (next_task s), channels := AList.update conn \<lparr>chan_route = r, chan_task = next_task s\<rparr> (channels s)\<rparr>)))"
    if "sess_ok s" "length (channels s) < MAX_CONNS" for s conn r peer address pre
    using that length_update_le [of conn "\<lparr>chan_route = r, chan_task = next_task s\<rparr>" "channels s"]
    by (auto simp: sess_ok_def emit_def count_connections_def new_task_def distinct_update update_conv' INBOUND_QUEUE_def
        split: if_splits) (fastforce dest: less_imp_neq)+
qed (erule (1) sess_ok_task, auto simp: sess_ok_def)

text \<open>A session keeps the names it was attached for.\<close>

interpretation named: session_keeps "\<lambda>s. length (outbound s) \<le> OUTBOUND_QUEUE \<and> names s = ns" "\<lambda>_ _. True" for ns
  by unfold_locales (auto simp: emit_def count_connections_def drop_channel_def on_task_def)

lemma orderly_always: "orderly (\<lambda>_ _. True) hostname decode ls s"
  by (induction ls arbitrary: s) (auto split: option.split prod.split)

section \<open>Connections accounted for\<close>

definition opened :: "ConnId \<Rightarrow> Event list \<Rightarrow> nat"
  where "opened conn es = length (filter (\<lambda>e. case e of ConnectionOpened c _ _ \<Rightarrow> c = conn | _ \<Rightarrow> False) es)"

definition closed :: "ConnId \<Rightarrow> Event list \<Rightarrow> nat"
  where "closed conn es = length (filter (\<lambda>e. case e of ConnectionClosed c _ _ \<Rightarrow> c = conn | _ \<Rightarrow> False) es)"

lemma opened_closed_simps [simp]:
  "opened conn [] = 0" "closed conn [] = 0"
  "opened conn (es @ es') = opened conn es + opened conn es'" "closed conn (es @ es') = closed conn es + closed conn es'"
  "opened conn [ConnectionOpened c r p] = (if c = conn then 1 else 0)" "opened conn [ConnectionClosed c r x] = 0"
  "closed conn [ConnectionOpened c r p] = 0" "closed conn [ConnectionClosed c r x] = (if c = conn then 1 else 0)"
  "opened conn [Connected n rs] = 0" "closed conn [Connected n rs] = 0"
  by (simp_all add: opened_def closed_def)

text \<open>What was opened and not closed are the connections there are.\<close>

definition accounted :: "Sess \<Rightarrow> bool"
  where "accounted s \<longleftrightarrow> length (outbound s) \<le> OUTBOUND_QUEUE \<and> distinct (map fst (channels s)) \<and>
    (\<forall>conn. opened conn (events s) = closed conn (events s) + (if conn \<in> fst ` set (channels s) then 1 else 0))"

definition unused :: "Sess \<Rightarrow> ConnId \<Rightarrow> bool"
  where "unused s conn \<longleftrightarrow> map_of (channels s) conn = None"

lemma keys_delete: "fst ` set (AList.delete k al) = fst ` set al - {k}"
  by (metis AList.delete_keys list.set_map set_removeAll)

interpretation accounts: session_keeps accounted unused
proof
  show "accounted (emit (ConnectionClosed conn r e) (drop_channel conn ch s))"
    if "accounted s" "map_of (channels s) conn = Some ch" for s conn ch r e
  proof -
    have "conn \<in> fst ` set (channels s)" using that(2) by (metis map_of_eq_None_iff option.distinct(1))
    then show ?thesis
      using that(1) by (auto simp: accounted_def emit_def drop_channel_def count_connections_def on_task_def distinct_delete keys_delete)
  qed
  show "accounted (emit (ConnectionOpened conn r peer) (count_connections (s\<lparr>tasks := (tasks s)(next_task s := new_task conn address pre),
      next_task := Suc (next_task s), channels := AList.update conn \<lparr>chan_route = r, chan_task = next_task s\<rparr> (channels s)\<rparr>)))"
    if "accounted s" "unused s conn" for s conn r peer address pre
    using that by (auto simp: accounted_def unused_def emit_def count_connections_def distinct_update dom_update map_of_eq_None_iff)
qed (auto simp: accounted_def unused_def fun_eq_iff)

lemma close_each_simps [simp]: "channels (close_each chs s) = channels s" "status (close_each chs s) = status s"
  by (induction chs arbitrary: s) (auto simp: emit_def abort_def on_task_def)

lemma close_each_counts:
  "opened conn (events (close_each chs s)) = opened conn (events s) \<and>
   (distinct (map fst chs) \<longrightarrow>
     closed conn (events (close_each chs s)) = closed conn (events s) + (if conn \<in> fst ` set chs then 1 else 0))"
proof (induction chs arbitrary: s)
  case (Cons c chs)
  then show ?case by (cases c) (simp add: emit_def abort_def on_task_def)
qed simp

lemma end_session_balanced: "accounted s \<Longrightarrow> opened conn (events (end_session s)) = closed conn (events (end_session s))"
  using close_each_counts [of conn "channels s" s] by (auto simp: accounted_def end_session_def Let_def)

section \<open>Streams\<close>

text \<open>The bytes on their way to the local side of a connection, and those a label carries for it.\<close>

definition payload_of :: "Inbound \<Rightarrow> bytes"
  where "payload_of i = (case i of Data p \<Rightarrow> p | End \<Rightarrow> [])"

definition down :: "Task \<Rightarrow> bytes"
  where "down t = written t @ concat (map payload_of (queue t))"

definition carries :: "ConnId \<Rightarrow> label \<Rightarrow> bytes"
  where "carries conn l =
    (case l of
       Reads _ _ (Some (Inr (Ws_binary frame))) \<Rightarrow>
         (case decode_data_frame frame of Some (c, p) \<Rightarrow> if c = conn then p else [] | None \<Rightarrow> [])
     | _ \<Rightarrow> [])"

text \<open>A task is served by the channel of a connection and still takes what is sent to it.\<close>

definition streams :: "ConnId \<Rightarrow> nat \<Rightarrow> Sess \<Rightarrow> bool"
  where "streams conn i s \<longleftrightarrow> (\<exists>ch. map_of (channels s) conn = Some ch \<and> chan_task ch = i) \<and> \<not> hungup (tasks s i)"

lemma down_receive: "\<not> hungup (receive ok t) \<Longrightarrow> down (receive ok t) = down t \<and> \<not> hungup t"
  by (auto simp: receive_def down_def payload_of_def stop_receiving_def split: if_splits list.splits Inbound.splits)

lemma down_receive_n: "\<not> hungup (receive_n n t) \<Longrightarrow> down (receive_n n t) = down t \<and> \<not> hungup t"
proof (induction n arbitrary: t)
  case (Suc n)
  then show ?case using down_receive [of True t] by auto
qed simp

lemma down_deliver:
  assumes "deliver waited item t = (True, t')" "\<not> hungup t'"
  shows "down t' = down t @ payload_of item \<and> \<not> hungup t"
proof -
  have push: "down (u\<lparr>queue := queue u @ [item]\<rparr>) = down u @ payload_of item" for u by (simp add: down_def)
  show ?thesis
    using assms down_receive_n [of "Suc n" t for n]
    by (auto simp: deliver_def Let_def push stop_receiving_def split: if_splits Waited.splits simp del: receive_n.simps)
qed

text \<open>A change after which a task that still streams streamed before, with \<open>p\<close> added to what goes to it.\<close>

definition feeds :: "ConnId \<Rightarrow> nat \<Rightarrow> bytes \<Rightarrow> Sess \<Rightarrow> Sess \<Rightarrow> bool"
  where "feeds conn i p s s' \<longleftrightarrow> (streams conn i s' \<longrightarrow> streams conn i s \<and> down (tasks s' i) = down (tasks s i) @ p)"

named_theorems feeding

lemma feeds_trans: "feeds conn i p s s' \<Longrightarrow> feeds conn i q s' s'' \<Longrightarrow> feeds conn i (p @ q) s s''"
  by (auto simp: feeds_def)

lemma feeds_after: "feeds conn i p s s' \<Longrightarrow> feeds conn i [] s' s'' \<Longrightarrow> feeds conn i p s s''"
  using feeds_trans [of conn i p s s' "[]" s''] by simp

lemma feeds_refl [simp, feeding]: "feeds conn i [] s s" by (simp add: feeds_def)

lemma feeds_same: "channels s' = channels s \<Longrightarrow> tasks s' = tasks s \<Longrightarrow> feeds conn i [] s s'"
  by (simp add: feeds_def streams_def)

text \<open>What may be done to a task without feeding it.\<close>

definition benign :: "(Task \<Rightarrow> Task) \<Rightarrow> bool"
  where "benign f \<longleftrightarrow> (\<forall>t. \<not> hungup (f t) \<longrightarrow> down (f t) = down t \<and> \<not> hungup t)"

lemma benign_rules [feeding]:
  "benign (\<lambda>t. t\<lparr>sender_gone := b\<rparr>)" "benign (\<lambda>t. t\<lparr>aborted := b\<rparr>)" "benign (\<lambda>t. t\<lparr>joined := b\<rparr>)" "benign (\<lambda>t. t\<lparr>finished := e\<rparr>)"
  "benign (\<lambda>t. complete (t\<lparr>uploaded := b\<rparr>))" "benign (\<lambda>t. complete (t\<lparr>served := b\<rparr>))" "benign (fail_with code m)" "benign (receive ok)"
  using down_receive by (auto simp: benign_def down_def complete_def fail_with_def stop_receiving_def)

lemma feeds_on_task [feeding]: "benign f \<Longrightarrow> feeds conn i [] s (on_task j f s)"
  by (auto simp: feeds_def streams_def on_task_def benign_def)

lemma feeds_outbound [feeding]: "feeds conn i [] s (s\<lparr>outbound := ms\<rparr>)"
  by (rule feeds_same) simp_all

lemma feeds_outbound_task [feeding]: "benign f \<Longrightarrow> feeds conn i [] s (on_task j f (s\<lparr>outbound := ms\<rparr>))"
  by (rule feeds_after [OF feeds_outbound feeds_on_task])

lemma feeds_send_control [feeding]: "feeds conn i [] s (send_control m s)"
  by (rule feeds_same) (simp_all add: send_control_def)

lemma feeds_emit [feeding]: "feeds conn i [] s (emit e s)"
  by (rule feeds_same) (simp_all add: emit_def)

lemma feeds_drop [feeding]: "feeds conn i [] s (drop_channel c ch s)"
  by (auto simp: feeds_def streams_def drop_channel_def count_connections_def on_task_def delete_conv' down_def split: if_splits)

lemma feeds_close [feeding]: "feeds conn i [] s (emit e (drop_channel c ch s))"
  by (rule feeds_after [OF feeds_drop feeds_emit])

lemma feeds_abort [feeding]: "feeds conn i [] s (abort j s)"
  unfolding abort_def by (intro feeding)

lemma feeds_stalled [feeding]: "feeds conn i [] s (stalled c s)"
proof (cases "map_of (channels s) c")
  case (Some ch)
  have "feeds conn i [] s (send_control m (abort j s))" for m j by (rule feeds_after [OF feeds_abort feeds_send_control])
  then show ?thesis using Some by (auto simp: stalled_def intro!: feeds_after [OF _ feeds_close])
qed (simp add: stalled_def)

lemma feeds_close_connection [feeding]: "feeds conn i [] s (close_connection c code s)"
  by (auto simp: close_connection_def intro!: feeds_after [OF feeds_abort feeds_close] split: option.split)

lemma feeds_join [feeding]: "feeds conn i [] s (join_task j s)"
  by (auto simp: join_task_def Let_def intro!: feeding feeds_after [OF feeds_on_task feeds_close] split: option.split)

lemma feeds_upload [feeding]: "feeds conn i [] s (upload j bs s)"
  by (auto simp: upload_def Let_def intro!: feeding)

lemma feeds_serve [feeding]: "feeds conn i [] s (serve j r s)"
  by (auto simp: serve_def Let_def intro!: feeding split: option.split)

lemma feeds_report [feeding]: "feeds conn i [] s (report j s)"
  by (auto simp: report_def Let_def intro!: feeding split: option.split)

lemma feeds_write [feeding]: "feeds conn i [] s (write_next ok s)"
  by (rule feeds_same) (auto simp: write_next_def split: list.split)

lemma feeds_open:
  assumes "i < next_task s"
  shows "feeds conn i [] s (open_connection hostname c peer sni s)"
proof -
  define s1 where "s1 = (case map_of (channels s) c of
    Some ch \<Rightarrow> on_task (chan_task ch) (\<lambda>t. t\<lparr>sender_gone := True\<rparr>) s | None \<Rightarrow> s)"
  have s1: "feeds conn i [] s s1" "next_task s1 = next_task s"
    by (auto simp: s1_def on_task_def intro!: feeding feeds_on_task [unfolded on_task_def] split: option.split)
  have "feeds conn i [] s1 (emit e (count_connections (s1\<lparr>tasks := (tasks s1)(next_task s := t), next_task := n,
      channels := AList.update c \<lparr>chan_route = r, chan_task = next_task s\<rparr> (channels s)\<rparr>)))"
    if "channels s1 = channels s" for e t n r
    using assms that by (auto simp: feeds_def streams_def emit_def count_connections_def update_conv' split: if_splits)
  moreover have "channels s1 = channels s" by (simp add: s1_def on_task_def split: option.split)
  ultimately show ?thesis
    unfolding open_connection_def Let_def s1_def [symmetric]
    by (auto intro!: feeds_send_control feeds_after [OF s1(1)] simp: s1(2) split: option.split)
qed

lemma sess_ok_conn:
  "sess_ok s \<Longrightarrow> map_of (channels s) conn = Some ch \<Longrightarrow> task_conn (tasks s (chan_task ch)) = conn \<and> chan_task ch < next_task s"
  unfolding sess_ok_def by blast

lemma feeds_deliver_to:
  assumes "sess_ok s"
  shows "feeds conn i (if c = conn then payload_of item else []) s (deliver_to waited c item s)"
proof (cases "map_of (channels s) c")
  case (Some ch)
  obtain ok t where d: "deliver waited item (tasks s (chan_task ch)) = (ok, t)" by fastforce
  let ?s = "on_task (chan_task ch) (\<lambda>_. t) s"
  have mine: "c = conn" if "map_of (channels s) conn = Some ch'" "chan_task ch' = chan_task ch" for ch'
    using sess_ok_conn [OF assms Some] sess_ok_conn [OF assms that(1)] that(2) by simp
  show ?thesis
  proof (cases ok)
    case True
    then have "deliver_to waited c item s = ?s" using Some d by (simp add: deliver_to_def)
    moreover have "feeds conn i (if c = conn then payload_of item else []) s ?s"
      using down_deliver [of waited item "tasks s (chan_task ch)" t] d True mine Some
      by (auto simp: feeds_def streams_def on_task_def)
    ultimately show ?thesis by simp
  next
    case False
    then have "deliver_to waited c item s = stalled c ?s" using Some d by (simp add: deliver_to_def)
    then have out: "channels (deliver_to waited c item s) = AList.delete c (channels s)"
        "j \<noteq> chan_task ch \<Longrightarrow> tasks (deliver_to waited c item s) j = tasks s j" for j
      using Some by (simp_all add: stalled_def emit_def drop_channel_def count_connections_def send_control_def abort_def on_task_def)
    show ?thesis
    proof (cases "c = conn")
      case True
      then show ?thesis using out(1) by (simp add: feeds_def streams_def delete_conv')
    next
      case c: False
      have "feeds conn i [] s (deliver_to waited c item s)"
      proof (cases "i = chan_task ch")
        case True
        then have "\<not> streams conn i (deliver_to waited c item s)"
          using out(1) c mine by (auto simp: streams_def delete_conv')
        then show ?thesis by (simp add: feeds_def)
      next
        case False
        then show ?thesis using out c by (auto simp: feeds_def streams_def delete_conv')
      qed
      with c show ?thesis by simp
    qed
  qed
qed (auto simp: deliver_to_def feeds_def streams_def)

lemma feeds_step:
  assumes "sess_ok s" "i < next_task s" "session_step hostname decode l s = (None, s')"
  shows "feeds conn i (carries conn l) s s'"
proof (cases l)
  case (Reads now waited m)
  let ?s = "s\<lparr>last_received := now\<rparr>"
  have ok: "sess_ok ?s" using assms(1) by (simp add: sess_ok_def)
  have same: "feeds conn i p ?s s' \<Longrightarrow> feeds conn i p s s'" for p by (simp add: feeds_def streams_def)
  obtain x where x: "m = Some (Inr x)" "read_message hostname decode waited x ?s = (None, s')"
    using assms(3) Reads by (auto simp: session_step_def Let_def split: option.splits sum.splits)
  have "feeds conn i (carries conn l) ?s s'"
  proof (cases x)
    case (Ws_binary frame)
    have feeds_data: "feeds conn i (if c = conn then p else []) ?s (deliver_to waited c (Data p) ?s)" for c p
      using feeds_deliver_to [OF ok, of conn i c "Data p" waited] by (cases "c = conn") (simp_all add: payload_of_def)
    show ?thesis
    proof (cases "decode_data_frame frame")
      case (Some cp)
      then show ?thesis
        using Ws_binary x Reads feeds_data [of "fst cp" "snd cp"]
        by (cases cp) (auto simp: read_message_def carries_def split: if_splits)
    qed (use Ws_binary x Reads in \<open>simp add: read_message_def carries_def\<close>)
  next
    case (Ws_text t)
    then have "carries conn l = []" using Reads x by (simp add: carries_def)
    moreover have feeds_end: "feeds conn i [] ?s (deliver_to waited c End ?s)" for c
      using feeds_deliver_to [OF ok, of conn i c End waited] by (cases "c = conn") (simp_all add: payload_of_def)
    moreover have "feeds conn i [] ?s s'"
    proof (cases "\<exists>y. decode t = Inr (Some y)")
      case True
      then obtain y where "server_message hostname waited y ?s = (None, s')" using x Ws_text by (auto simp: read_message_def)
      then show ?thesis
        using feeds_open [of i ?s] assms(2) feeds_end feeds_close_connection feeds_send_control by (cases y) auto
    next
      case False
      then show ?thesis using x Ws_text by (auto simp: read_message_def split: sum.splits option.splits)
    qed
    ultimately show ?thesis by simp
  qed (use x Reads in \<open>auto simp: read_message_def carries_def split: option.splits\<close>)
  then show ?thesis by (rule same)
qed (use assms in \<open>auto simp: session_step_def carries_def beat_def new_routes_def
    intro!: feeding feeds_same split: if_splits option.splits\<close>)

lemma tasks_numbered:
  assumes "session_step hostname decode l s = (e, s')"
  shows "next_task s \<le> next_task s'"
proof -
  have on: "next_task (on_task i f s) = next_task s" "next_task (send_control m s) = next_task s" "next_task (abort i s) = next_task s"
      "next_task (emit ev s) = next_task s" "next_task (drop_channel c ch s) = next_task s" for i f m ev c ch and s :: Sess
    by (simp_all add: on_task_def send_control_def abort_def emit_def drop_channel_def count_connections_def)
  have st: "next_task (stalled c s) = next_task s" for c and s :: Sess by (simp add: stalled_def on split: option.split)
  have de: "next_task (deliver_to w c it s) = next_task s" for w c it and s :: Sess
    by (simp add: deliver_to_def Let_def st on split: option.split prod.split)
  have op: "next_task s \<le> next_task (open_connection h c p n s)" for h c p n and s :: Sess
    by (simp add: open_connection_def Let_def on count_connections_def split: option.split)
  have cl: "next_task (close_connection c code s) = next_task s" for c code and s :: Sess
    by (simp add: close_connection_def on split: option.split)
  have sm: "server_message h w m s = (e, s') \<Longrightarrow> next_task s \<le> next_task s'" for h w m and s :: Sess
    using op by (cases m) (auto simp: de cl on)
  have rm: "read_message h d w m s = (e, s') \<Longrightarrow> next_task s \<le> next_task s'" for h d w m and s :: Sess
    using sm by (auto simp: read_message_def de split: Ws_message.splits option.splits sum.splits)
  show ?thesis
    using assms rm
    by (cases l) (auto simp: session_step_def Let_def join_task_def upload_def serve_def report_def write_next_def beat_def new_routes_def on
        split: option.splits sum.splits if_splits list.splits dest: rm)
qed

lemma feeds_loop:
  "sess_ok s \<Longrightarrow> i < next_task s \<Longrightarrow> session_loop hostname decode ls s = (None, s') \<Longrightarrow>
     feeds conn i (concat (map (carries conn) ls)) s s'"
proof (induction ls arbitrary: s)
  case (Cons l ls)
  obtain s1 where step: "session_step hostname decode l s = (None, s1)" "session_loop hostname decode ls s1 = (None, s')"
    using Cons.prems(3) by (auto split: prod.splits option.splits)
  have "sess_ok s1" using within.I_step [OF Cons.prems(1) step(1)] by (simp split: option.split)
  moreover have "i < next_task s1" using tasks_numbered [OF step(1)] Cons.prems(2) by simp
  ultimately have "feeds conn i (concat (map (carries conn) ls)) s1 s'" using Cons.IH step(2) by blast
  then show ?case using feeds_trans [OF feeds_step [OF Cons.prems(1,2) step(1)]] by simp
qed simp

section \<open>Targets follow the routes\<close>

text \<open>The routes that were given last.\<close>

fun routes_given :: "routes \<Rightarrow> label list \<Rightarrow> routes" where
  "routes_given rs [] = rs"
| "routes_given rs (l # ls) = routes_given (case l of Routes_now (Some rs') \<Rightarrow> rs' | _ \<Rightarrow> rs) ls"

definition routed :: "Sess \<Rightarrow> routes \<times> routes"
  where "routed s = (targets s, st_routes (status s))"

lemma routed_simps [simp]:
  "routed (emit e s) = routed s" "routed (on_task i f s) = routed s" "routed (send_control m s) = routed s" "routed (count_connections s) = routed s"
  "routed (abort i s) = routed s" "routed (drop_channel conn ch s) = routed s" "routed (s\<lparr>last_received := n\<rparr>) = routed s"
  "routed (s\<lparr>outbound := q\<rparr>) = routed s" "routed (s\<lparr>tasks := g, next_task := k, channels := c\<rparr>) = routed s"
  by (simp_all add: routed_def emit_def on_task_def send_control_def count_connections_def abort_def drop_channel_def)

lemma routed_ops:
  "routed (deliver_to waited conn item s) = routed s" "routed (close_connection conn code s) = routed s" "routed (join_task i s) = routed s"
  "routed (upload i bs s) = routed s" "routed (serve i x s) = routed s" "routed (report i s) = routed s" "routed (write_next ok s) = routed s"
  "routed (open_connection hostname conn peer sni s) = routed s"
proof -
  show "routed (deliver_to waited conn item s) = routed s"
    by (simp add: deliver_to_def stalled_def Let_def split: option.split prod.split)
  show "routed (close_connection conn code s) = routed s" by (simp add: close_connection_def split: option.split)
  show "routed (join_task i s) = routed s" by (simp add: join_task_def Let_def split: option.split)
  show "routed (upload i bs s) = routed s" by (simp add: upload_def Let_def)
  show "routed (serve i x s) = routed s" by (simp add: serve_def Let_def split: option.split)
  show "routed (report i s) = routed s" by (simp add: report_def Let_def split: option.split)
  show "routed (write_next ok s) = routed s" by (simp add: write_next_def routed_def split: list.split)
  show "routed (open_connection hostname conn peer sni s) = routed s" by (simp add: open_connection_def Let_def split: option.split)
qed

lemma routed_message: "server_message hostname waited m s = (e, s') \<Longrightarrow> routed s' = routed s"
  by (cases m) (auto simp: routed_ops)

lemma routed_read: "read_message hostname decode waited m s = (e, s') \<Longrightarrow> routed s' = routed s"
  by (auto simp: read_message_def routed_ops split: Ws_message.splits option.splits sum.splits dest: routed_message)

lemma routed_step:
  assumes "session_step hostname decode l s = (None, s')"
  shows "routed s' = (case l of Routes_now (Some rs) \<Rightarrow> (rs, rs) | _ \<Rightarrow> routed s)"
proof (cases l)
  case (Reads now waited m)
  then show ?thesis
    using assms by (auto simp: session_step_def Let_def split: option.splits sum.splits dest!: routed_read)
next
  case (Routes_now rs)
  then show ?thesis using assms by (auto simp: session_step_def new_routes_def routed_def split: option.splits if_splits)
qed (use assms in \<open>auto simp: session_step_def beat_def routed_ops split: if_splits\<close>)

lemma routed_loop:
  "session_loop hostname decode ls s = (None, s') \<Longrightarrow> routed s = (rs, rs) \<Longrightarrow> routed s' = (routes_given rs ls, routes_given rs ls)"
proof (induction ls arbitrary: s rs)
  case (Cons l ls)
  then obtain s1 where step: "session_step hostname decode l s = (None, s1)" "session_loop hostname decode ls s1 = (None, s')"
    by (auto split: prod.splits option.splits)
  let ?rs = "case l of Routes_now (Some rs') \<Rightarrow> rs' | _ \<Rightarrow> rs"
  have "routed s1 = (?rs, ?rs)" using routed_step [OF step(1)] Cons.prems(2) by (auto split: label.splits option.splits)
  from Cons.IH [OF step(2) this] show ?case by simp
qed simp

section \<open>The supervisor\<close>

text \<open>What a supervisor that still runs has told: every attempt is announced with its number, which starts at zero, goes back to zero
  with every session that was attached and otherwise counts up, and every delay is within the range of its attempt. \<open>None\<close>: not so, or
  the supervisor stopped. Otherwise the number of the next attempt.\<close>

fun told :: "nat \<Rightarrow> Event list \<Rightarrow> nat option" where
  "told n [] = Some n"
| "told n (Connecting k # es) = (if k = n then told n es else None)"
| "told n (Connected _ _ # es) = told 0 es"
| "told n (Reconnecting k d # es) =
     (case reconnect_backoff n of
        (lo, hi) \<Rightarrow> if k = min (Suc n) (2 ^ 32 - 1) \<and> lo \<le> d \<and> d \<le> hi then told k es else None)"
| "told n (Stopped _ # es) = None"
| "told n (_ # es) = told n es"

lemma told_append: "told n (es @ es') = Option.bind (told n es) (\<lambda>m. told m es')"
  by (induction n es rule: told.induct) (auto split: prod.split)

lemma told_delays: "told n es \<noteq> None \<Longrightarrow> Reconnecting k d \<in> set es \<Longrightarrow> 125 \<le> d \<and> d \<le> 30000"
proof (induction n es rule: told.induct)
  case (4 n k' d' es)
  obtain lo hi where b: "reconnect_backoff n = (lo, hi)" by fastforce
  with reconnect_backoff_bounds [of n] have "125 \<le> lo" "hi \<le> 30000" by auto
  with 4 b show ?case by (auto split: if_splits)
qed (auto split: if_splits)

lemma retry_delay_in_range: "reconnect_backoff n = (lo, hi) \<Longrightarrow> lo \<le> retry_delay n pick \<and> retry_delay n pick \<le> hi"
proof -
  assume b: "reconnect_backoff n = (lo, hi)"
  have "pick mod (hi - lo + 1) \<le> hi - lo" by (simp add: less_Suc_eq_le [symmetric])
  moreover have "lo \<le> hi" using reconnect_backoff_bounds [of n] b by auto
  ultimately have "lo + pick mod (hi - lo + 1) \<le> hi" by linarith
  then show ?thesis using b by (simp add: retry_delay_def)
qed

text \<open>Sessions tell of connections only.\<close>

interpretation quiet: session_keeps "\<lambda>s. length (outbound s) \<le> OUTBOUND_QUEUE \<and> told n (events s) = Some 0" "\<lambda>_ _. True" for n
  by unfold_locales (auto simp: emit_def count_connections_def drop_channel_def on_task_def told_append)

lemma told_close_each: "told n (events s) = Some 0 \<Longrightarrow> told n (events (close_each chs s)) = Some 0"
proof (induction chs arbitrary: s)
  case (Cons c chs)
  then show ?case by (cases c) (simp add: emit_def abort_def on_task_def told_append)
qed simp

lemma told_session:
  assumes "session hostname decode rs c at ls (st, es) = (e, st', es')" "told n es \<noteq> None"
  shows "(\<exists>m. connect_end c = Inl m \<and> e = Some m \<and> es' = es) \<or> (\<exists>a. connect_end c = Inr a) \<and> told n es' = Some 0"
proof (cases "connect_end c")
  case (Inr a)
  let ?s = "begin_session rs a at st es"
  obtain s where run: "session_loop hostname decode ls ?s = (e, s)" "es' = events s"
    using assms(1) Inr by (auto simp: session_def split: prod.splits)
  have "length (outbound ?s) \<le> OUTBOUND_QUEUE \<and> told n (events ?s) = Some 0"
    using assms(2) by (auto simp: begin_session_def told_append)
  from quiet.I_loop [OF this orderly_always run(1)] have "told n (events s) = Some 0"
    by (auto simp: end_session_def Let_def intro: told_close_each split: option.splits)
  then show ?thesis using Inr run(2) by simp
qed (use assms in \<open>auto simp: session_def\<close>)

text \<open>A session that was attached never ends for good, except by a shutdown.\<close>

lemma loop_end_attached:
  "session_loop hostname decode ls s = (Some e, s') \<Longrightarrow> e = EndShutdown \<or> e = EndRoutesChanged \<or> (\<exists>m. e = EndRetry m True)"
proof (induction ls arbitrary: s)
  case (Cons l ls)
  have sm: "server_message h w m s = (Some e', s1) \<Longrightarrow> \<exists>m. e' = EndRetry m True" for h w m s e' s1
    by (cases m) (auto simp: retry_def)
  have rm: "read_message h d w m s = (Some e', s1) \<Longrightarrow> \<exists>m. e' = EndRetry m True" for h d w m s e' s1
    by (auto simp: read_message_def retry_def dest: sm split: Ws_message.splits option.splits prod.splits sum.splits)
  have step: "session_step hostname decode l s = (Some e', s1) \<Longrightarrow>
      e' = EndShutdown \<or> e' = EndRoutesChanged \<or> (\<exists>m. e' = EndRetry m True)" for e' s1
    by (cases l) (auto simp: session_step_def Let_def retry_def beat_def new_routes_def dest: rm
        split: option.splits sum.splits if_splits)
  show ?case using Cons.prems step Cons.IH by (auto split: prod.splits option.splits)
qed simp

lemma connect_end_cases:
  "connect_end c = Inl e \<Longrightarrow> e = EndShutdown \<or> (\<exists>m. e = EndRetry m False) \<or>
     (\<exists>err. e = EndFatal err \<and> ((\<exists>code. err = Attach code \<and> is_fatal_attach_error code) \<or> (\<exists>m. err = Invalid m)))"
  by (auto simp: connect_end_def split: Connect.splits sum.splits Error.splits if_splits)

definition fatal :: "Error \<Rightarrow> bool"
  where "fatal e \<longleftrightarrow> (\<exists>code. e = Attach code \<and> is_fatal_attach_error code) \<or> (\<exists>m. e = Invalid m)"

lemma session_end:
  assumes "session hostname decode rs c at ls (st, es) = (Some e, st', es')" "told k es = Some n"
  shows "(case e of EndRetry m attached \<Rightarrow> told k es' = Some (if attached then 0 else n)
    | EndRoutesChanged \<Rightarrow> told k es' = Some 0 | EndFatal err \<Rightarrow> told k es' \<noteq> None \<and> fatal err | EndShutdown \<Rightarrow> told k es' \<noteq> None)"
proof (cases "connect_end c")
  case (Inl m)
  then show ?thesis
    using assms connect_end_cases [OF Inl] by (auto simp: session_def fatal_def)
next
  case (Inr a)
  then have "e = EndShutdown \<or> e = EndRoutesChanged \<or> (\<exists>m. e = EndRetry m True)"
    using assms(1) by (auto simp: session_def split: prod.splits dest: loop_end_attached)
  then show ?thesis using told_session [OF assms(1)] assms(2) Inr by auto
qed


text \<open>Between two sessions there is no connection, and the next attempt is the one that was told.\<close>

definition sup_ok :: "Sup \<Rightarrow> bool"
  where "sup_ok v \<longleftrightarrow> told 0 (sup_events v) = Some (attempt v) \<and> connections (sup_status v) = 0 \<and> st_session (sup_status v) = None"

text \<open>How a supervisor ends: it says so last, and for good only when trying again is of no use.\<close>

definition stopped_with :: "Error + unit \<Rightarrow> Sup \<Rightarrow> bool"
  where "stopped_with r v \<longleftrightarrow>
    (\<exists>es. sup_events v = es @ [Stopped (case r of Inl e \<Rightarrow> Some (Error_display e) | Inr _ \<Rightarrow> None)] \<and> told 0 es \<noteq> None) \<and>
    state (sup_status v) = StateStopped \<and> connections (sup_status v) = 0 \<and> st_session (sup_status v) = None \<and>
    (\<forall>e. r = Inl e \<longrightarrow> fatal e \<and> st_error (sup_status v) = Some (Error_display e))"

definition turn_ok :: "turn_end \<times> Sup \<Rightarrow> bool"
  where "turn_ok x = (case x of (Again, v) \<Rightarrow> sup_ok v | (Still_running, v) \<Rightarrow> told 0 (sup_events v) \<noteq> None | (Ended r, v) \<Rightarrow> stopped_with r v)"

lemma turn_ok_stop:
  assumes "told 0 (sup_events v) \<noteq> None" "connections (sup_status v) = 0" "st_session (sup_status v) = None"
    "\<And>e. r = Inl e \<Longrightarrow> fatal e"
  shows "turn_ok (stop r v)"
  using assms by (auto simp: turn_ok_def stop_def Let_def stopped_with_def split: sum.split)

lemma after_session_ok:
  assumes "case e of EndRetry m attached \<Rightarrow> told 0 (sup_events v) = Some (if attached then 0 else attempt v)
    | EndRoutesChanged \<Rightarrow> told 0 (sup_events v) = Some 0
    | EndFatal err \<Rightarrow> told 0 (sup_events v) \<noteq> None \<and> fatal err | EndShutdown \<Rightarrow> told 0 (sup_events v) \<noteq> None"
  shows "turn_ok (after_session pick e v)"
proof (cases e)
  case (EndRetry m attached)
  let ?n = "if attached then 0 else attempt v"
  obtain lo hi where b: "reconnect_backoff ?n = (lo, hi)" by fastforce
  show ?thesis
    using assms EndRetry b retry_delay_in_range [OF b, of pick]
    by (cases attached) (simp_all add: after_session_def Let_def turn_ok_def sup_ok_def told_append)
next
  case EndRoutesChanged
  then show ?thesis using assms by (simp add: after_session_def turn_ok_def sup_ok_def told_append)
qed (use assms in \<open>auto simp: after_session_def intro!: turn_ok_stop\<close>)

lemma supervise_turn_ok:
  assumes "sup_ok v"
  shows "turn_ok (supervise_turn hostname decode tn v)"
proof -
  let ?st = "(sup_status v)\<lparr>state := StateConnecting\<rparr>" and ?es = "sup_events v @ [Connecting (attempt v)]"
  have told: "told 0 ?es = Some (attempt v)" using assms by (simp add: sup_ok_def told_append)
  obtain e st es where run: "session hostname decode (turn_routes tn) (turn_connect tn) (turn_at tn) (turn_labels tn) (?st, ?es) = (e, st, es)"
    by (metis prod_cases3)
  have "turn_ok (case e of None \<Rightarrow> (Still_running, v\<lparr>sup_status := st, sup_events := es\<rparr>)
      | Some e \<Rightarrow> after_session (turn_pick tn) e (v\<lparr>sup_status := st, sup_events := es\<rparr>))"
  proof (cases e)
    case None
    then show ?thesis using told_session [OF run, of 0] told by (auto simp: turn_ok_def)
  next
    case (Some x)
    with session_end [OF run [unfolded Some] told] show ?thesis by (auto intro: after_session_ok split: SessionEnd.splits)
  qed
  moreover have "turn_ok (stop (Ok ()) v)" using assms by (auto simp: sup_ok_def intro: turn_ok_stop)
  ultimately show ?thesis
    using assms run by (auto simp: supervise_turn_def turn_ok_def sup_ok_def split: option.splits)
qed

lemma supervise_ok:
  "sup_ok v \<Longrightarrow> supervise hostname decode tns v = (r, v') \<Longrightarrow>
     (case r of None \<Rightarrow> told 0 (sup_events v') \<noteq> None | Some x \<Rightarrow> stopped_with x v')"
proof (induction tns arbitrary: v)
  case (Cons tn tns)
  obtain x v1 where t: "supervise_turn hostname decode tn v = (x, v1)" by fastforce
  then show ?case using supervise_turn_ok [OF Cons.prems(1), of hostname decode tn] Cons by (cases x) (auto simp: turn_ok_def)
qed (auto simp: sup_ok_def)


text \<open>A turn in which a shutdown is asked for: before it, while it connects, or in its session; the routes that end are the tunnel let go of.\<close>

definition shutdown_met :: "Turn \<Rightarrow> bool"
  where "shutdown_met tn \<longleftrightarrow> turn_shutdown tn \<or> turn_connect tn = Connect_shutdown \<or>
    (\<exists>a. turn_connect tn = Answered (Ok a)) \<and> (Shuts_down \<in> set (turn_labels tn) \<or> Routes_now None \<in> set (turn_labels tn))"

lemma loop_end_shutdown:
  "session_loop hostname decode ls s = (Some EndShutdown, s') \<Longrightarrow> Shuts_down \<in> set ls \<or> Routes_now None \<in> set ls"
proof (induction ls arbitrary: s)
  case (Cons l ls)
  have sm: "server_message h w m s \<noteq> (Some EndShutdown, s1)" for h w m s s1
    by (cases m) (auto simp: retry_def)
  have rm: "read_message h d w m s \<noteq> (Some EndShutdown, s1)" for h d w m s s1
    by (auto simp: read_message_def retry_def sm split: Ws_message.splits option.splits prod.splits sum.splits)
  have step: "session_step hostname decode l s = (Some EndShutdown, s1) \<Longrightarrow> l = Shuts_down \<or> l = Routes_now None" for s1
    by (cases l) (auto simp: session_step_def Let_def retry_def beat_def new_routes_def rm split: option.splits sum.splits if_splits)
  show ?case using Cons.prems step Cons.IH by (auto split: prod.splits option.splits)
qed simp

lemma turn_ended:
  assumes "supervise_turn hostname decode tn v = (Ended r, v')"
  shows "case r of Inr _ \<Rightarrow> shutdown_met tn | Inl e \<Rightarrow> \<not> turn_shutdown tn \<and> turn_connect tn = Answered (Err e)"
proof (cases "turn_shutdown tn")
  case True
  then show ?thesis using assms by (auto simp: supervise_turn_def stop_def shutdown_met_def)
next
  case False
  then have "turn_routes tn \<noteq> []" using assms by (auto simp: supervise_turn_def)
  moreover obtain e st es where run: "session hostname decode (turn_routes tn) (turn_connect tn) (turn_at tn) (turn_labels tn)
      ((sup_status v)\<lparr>state := StateConnecting\<rparr>, sup_events v @ [Connecting (attempt v)]) = (e, st, es)" by (metis prod_cases3)
  ultimately obtain x where e: "e = Some x" and x: "after_session (turn_pick tn) x (v\<lparr>sup_status := st, sup_events := es\<rparr>) = (Ended r, v')"
    using assms False by (cases e) (auto simp: supervise_turn_def)
  from x have r: "x = EndShutdown \<and> r = Ok () \<or> (\<exists>error. x = EndFatal error \<and> r = Err error)"
    by (cases x) (auto simp: after_session_def stop_def Let_def)
  show ?thesis
  proof (cases "connect_end (turn_connect tn)")
    case (Inl m)
    then have "m = x" using run e by (simp add: session_def)
    then show ?thesis
      using Inl r False by (auto simp: connect_end_def shutdown_met_def split: Connect.splits sum.splits Error.splits if_splits)
  next
    case (Inr a)
    then obtain s where loop: "session_loop hostname decode (turn_labels tn) (begin_session (turn_routes tn) a (turn_at tn)
        ((sup_status v)\<lparr>state := StateConnecting\<rparr>) (sup_events v @ [Connecting (attempt v)])) = (Some x, s)"
      using run e by (auto simp: session_def split: prod.splits)
    have "turn_connect tn = Answered (Ok a)" using Inr by (auto simp: connect_end_def split: Connect.splits sum.splits)
    moreover have "x = EndShutdown" using loop_end_attached [OF loop] r by auto
    ultimately show ?thesis using loop_end_shutdown loop r by (auto simp: shutdown_met_def)
  qed
qed

text \<open>The turn that ended it, after turns that all were followed by another.\<close>

lemma supervise_ended:
  "supervise hostname decode tns v = (Some r, v') \<Longrightarrow> \<exists>before tn after. tns = before @ tn # after \<and>
     list_all (\<lambda>x. \<not> turn_shutdown x) before \<and>
     (case r of Inr _ \<Rightarrow> shutdown_met tn | Inl e \<Rightarrow> \<not> turn_shutdown tn \<and> turn_connect tn = Answered (Err e))"
proof (induction tns arbitrary: v)
  case (Cons tn tns)
  obtain x v1 where t: "supervise_turn hostname decode tn v = (x, v1)" by fastforce
  show ?case
  proof (cases x)
    case Again
    then have "\<not> turn_shutdown tn" using t by (auto simp: supervise_turn_def stop_def Let_def)
    moreover obtain before tn' after where "tns = before @ tn' # after" "list_all (\<lambda>x. \<not> turn_shutdown x) before"
        "case r of Inr _ \<Rightarrow> shutdown_met tn' | Inl e \<Rightarrow> \<not> turn_shutdown tn' \<and> turn_connect tn' = Answered (Err e)"
      using Cons.IH [of v1] Cons.prems t Again by auto
    ultimately show ?thesis by (intro exI [of _ "tn # before"] exI [of _ tn'] exI [of _ after]) simp
  next
    case (Ended r')
    then show ?thesis using Cons.prems t turn_ended [of hostname decode tn v r v1] by (intro exI [of _ "[]"] exI [of _ tn] exI [of _ tns]) simp
  qed (use Cons.prems t in simp)
qed simp

lemma sess_ok_begin: "connections st = 0 \<Longrightarrow> sess_ok (begin_session rs a now st es)"
  by (simp add: sess_ok_def begin_session_def new_task_def)

text \<open>A connection starts with nothing.\<close>

lemma down_opened:
  assumes "opens decode l = Some conn" "session_step hostname decode l s = (None, s1)" "next_task s1 = Suc (next_task s)"
  shows "down (tasks s1 (next_task s)) = []"
proof -
  obtain now waited t peer sni alpn where l: "l = Reads now waited (Some (Inr (Ws_text t)))"
      "decode t = Inr (Some (ServerOpen conn peer sni alpn))"
    using assms(1)
    by (auto simp: opens_def split: label.splits option.splits sum.splits Ws_message.splits ServerMessage.splits)
  then have "s1 = open_connection hostname conn peer sni (s\<lparr>last_received := now\<rparr>)"
    using assms(2) by (simp add: session_step_def read_message_def)
  then show ?thesis
    using assms(3)
    by (auto simp: open_connection_def Let_def emit_def count_connections_def on_task_def send_control_def down_def new_task_def
        split: option.splits if_splits)
qed

end
