(* ===== verification/Client_Properties.thy ===== *)
theory Client_Properties
  imports Client_Runs
begin

text \<open>
  What the client's side of a tunnel keeps to: how many connections and how much queued data there may be, that connections are told apart
  and accounted for, that their bytes stay in order, which target a connection goes to, and how the supervisor retries and stops.
\<close>

section \<open>Properties\<close>

text \<open>C13. The client's session keeps to what it announced: after any run of a session that goes on, the connections have different
  numbers and tasks of their own, there are at most 256 of them and that number is the one shown, every queue is within its limit (256
  messages to the writer, 64 items to each connection), and the targets that connections are opened to, like the routes shown, are exactly
  the routes that were given last, which have the names that were attached.\<close>

theorem client_session_within:
  assumes "connections st = 0" "session_loop hostname decode ls (begin_session rs a now st es) = (None, s)"
  shows "distinct (map fst (channels s)) \<and> length (channels s) \<le> MAX_CONNS \<and> connections (status s) = length (channels s) \<and>
    inj_on (\<lambda>conn. chan_task (the (map_of (channels s) conn))) (fst ` set (channels s)) \<and>
    length (queue (tasks s i)) \<le> INBOUND_QUEUE \<and> length (outbound s) \<le> OUTBOUND_QUEUE \<and>
    targets s = routes_given rs ls \<and> st_routes (status s) = routes_given rs ls \<and> map fst (targets s) = map fst rs"
proof -
  have ok: "sess_ok s" using within.I_loop [OF sess_ok_begin [OF assms(1)] orderly_always assms(2)] by simp
  moreover have "inj_on (\<lambda>conn. chan_task (the (map_of (channels s) conn))) (fst ` set (channels s))"
  proof (rule inj_onI)
    fix c d assume cd: "c \<in> fst ` set (channels s)" "d \<in> fst ` set (channels s)"
      "chan_task (the (map_of (channels s) c)) = chan_task (the (map_of (channels s) d))"
    obtain x y where xy: "map_of (channels s) c = Some x" "map_of (channels s) d = Some y"
      using cd(1,2) by (metis map_of_eq_None_iff not_Some_eq)
    then show "c = d" using sess_ok_conn [OF ok xy(1)] sess_ok_conn [OF ok xy(2)] cd(3) by simp
  qed
  moreover have "names s = map fst rs"
    using named.I_loop [OF _ orderly_always assms(2), of "map fst rs"] by (simp add: begin_session_def)
  moreover have "routed s = (routes_given rs ls, routes_given rs ls)"
    by (rule routed_loop [OF assms(2)]) (simp add: routed_def begin_session_def)
  ultimately show ?thesis by (auto simp: sess_ok_def routed_def)
qed


text \<open>C12. Streams arrive intact: from the moment a connection was opened in a session, and as long as it is open and its task still takes
  what is sent to it, the bytes its task wrote towards TLS and those in its queue are exactly the payloads of the data frames for
  its number that were read since, in order, without those of any other connection; it never lacks or repeats a byte, however slow it is.\<close>

theorem client_streams_intact:
  assumes "connections st = 0" "session_loop hostname decode ls (begin_session rs a now st es) = (None, s)"
    and "opens decode l = Some conn" "session_step hostname decode l s = (None, s1)" "next_task s1 = Suc (next_task s)"
    and "session_loop hostname decode ls' s1 = (None, s2)" "streams conn (next_task s) s2"
  shows "written (tasks s2 (next_task s)) @ concat (map payload_of (queue (tasks s2 (next_task s)))) = concat (map (carries conn) ls')"
proof -
  have "sess_ok s" using within.I_loop [OF sess_ok_begin [OF assms(1)] orderly_always assms(2)] by simp
  then have "sess_ok s1" using within.I_step [OF _ assms(4)] by (simp split: option.split)
  from feeds_loop [OF this _ assms(6), of "next_task s" conn] assms(5,7)
  have "down (tasks s2 (next_task s)) = down (tasks s1 (next_task s)) @ concat (map (carries conn) ls')"
    by (simp add: feeds_def)
  moreover have "down (tasks s1 (next_task s)) = []" using down_opened [OF assms(3-5)] .
  ultimately show ?thesis by (simp add: down_def)
qed


text \<open>C15. A visitor reaches the target of the route it asked for: in a session of a tunnel whose id and domain are lowercase, with fewer
  than 256 connections, a connection for a host name (lowercase, as the server reads it) which the server takes for the
  route \<open>r\<close>, where \<open>r\<close> is a label or the name is the tunnel's own, is opened to the target that \<open>r\<close> has now, after the
  PROXY header of its version where the route has one, under that name, with a task of its own, and is announced.\<close>

theorem visitor_reaches_target:
  assumes "to_ascii_lowercase sni = sni" "to_ascii_lowercase t = t" "to_ascii_lowercase d = d"
    and "route_name sni t d = Some r" "is_label r \<or> sni = tunnel_hostname t d"
    and "map_of (targets s) r = Some rt" "length (channels s) < MAX_CONNS"
  shows "let s' = open_connection (tunnel_hostname t d) conn peer sni s; i = next_task s in
    map_of (channels s') conn = Some \<lparr>chan_route = r, chan_task = i\<rparr> \<and> next_task s' = Suc i \<and>
    tasks s' i = new_task conn (target rt) (map_option (\<lambda>v. proxy_header v peer sni) (proxy_protocol rt)) \<and>
    events s' = events s @ [ConnectionOpened conn r peer] \<and> controls s' = controls s"
proof -
  have "route_for_sni sni (tunnel_hostname t d) = Some r"
    using assms by (auto simp: route_for_sni_iff route_name_iff tunnel_hostname_lower dest: is_label_no_dot is_label_nonempty)
  then show ?thesis
    using assms(6,7)
    by (auto simp: open_connection_def Let_def emit_def count_connections_def on_task_def update_conv' split: option.split)
qed



section \<open>A session\<close>

text \<open>A tunnel with one route, and a server whose message \<open>open\<close> opens connection 7 for it.\<close>

definition demo_target :: string where "demo_target = ''127.0.0.1'' @ '':'' @ show_nat 80"

definition demo_routes :: routes
  where "demo_routes = [(''web'', \<lparr>target = demo_target, proxy_protocol = None\<rparr>)]"

definition demo_decode :: decoder
  where "demo_decode t = (if t = ''open'' then Ok (Some (ServerOpen 7 ''203.0.113.9:4000'' ''web.abc.example.com'' [])) else Ok None)"

definition demo_status :: Status
  where "demo_status = \<lparr>state = StateConnecting, st_hostname = ''abc.example.com'', st_routes = demo_routes, st_session = None, connections = 0, st_error = None, connected_at = None\<rparr>"

definition demo_begin :: Sess
  where "demo_begin = begin_session demo_routes \<lparr>att_session = ''s'', att_heartbeat = 15, att_idle = 45\<rparr> 10 demo_status []"

definition demo_open :: label
  where "demo_open = Reads 11 Timed_out (Some (Inr (Ws_text ''open'')))"

lemma demo_route: "route_for_sni ''web.abc.example.com'' ''abc.example.com'' = Some ''web''"
  by code_simp

definition demo_opened :: Sess
  where "demo_opened = demo_begin\<lparr>last_received := 11, channels := [(7, \<lparr>chan_route = ''web'', chan_task = 0\<rparr>)], next_task := 1,
    tasks := (tasks demo_begin)(0 := new_task 7 demo_target None), status := (status demo_begin)\<lparr>connections := 1\<rparr>,
    events := events demo_begin @ [ConnectionOpened 7 ''web'' ''203.0.113.9:4000'']\<rparr>"

lemmas demo_defs = demo_begin_def demo_routes_def demo_status_def begin_session_def

lemma demo_open_step: "session_step ''abc.example.com'' demo_decode demo_open demo_begin = (None, demo_opened)"
  by (simp add: session_step_def demo_open_def read_message_def demo_decode_def open_connection_def demo_route demo_opened_def demo_defs
      MAX_CONNS_def count_connections_def emit_def)

lemma demo_fits: "connections demo_status = 0" by (simp add: demo_status_def)

theorem client_session_within_witness:
  "session_loop ''abc.example.com'' demo_decode [demo_open] demo_begin = (None, demo_opened) \<and>
   length (channels demo_opened) \<le> MAX_CONNS \<and> connections (status demo_opened) = length (channels demo_opened)"
proof -
  have "session_loop ''abc.example.com'' demo_decode [demo_open] demo_begin = (None, demo_opened)" by (simp add: demo_open_step)
  then show ?thesis using client_session_within [OF demo_fits] unfolding demo_begin_def by blast
qed

definition demo_data :: label
  where "demo_data = Reads 12 Timed_out (Some (Inr (Ws_binary [0, 0, 0, 7, 1, 2, 3])))"

definition demo_streaming :: Sess
  where "demo_streaming = demo_opened\<lparr>last_received := 12,
    tasks := (tasks demo_opened)(0 := (new_task 7 demo_target None)\<lparr>queue := [Data [1, 2, 3]]\<rparr>)\<rparr>"

lemma demo_data_step: "session_step ''abc.example.com'' demo_decode demo_data demo_opened = (None, demo_streaming)"
proof -
  have "decode_data_frame [0, 0, 0, 7, 1, 2, 3] = Some (7, [1, 2, 3])" by code_simp
  then show ?thesis
    by (simp add: session_step_def demo_data_def read_message_def deliver_to_def deliver_def demo_streaming_def demo_opened_def new_task_def
        INBOUND_QUEUE_def on_task_def)
qed

theorem client_streams_intact_witness:
  "streams 7 0 demo_streaming \<and>
   written (tasks demo_streaming 0) @ concat (map payload_of (queue (tasks demo_streaming 0))) = concat (map (carries 7) [demo_data])"
proof -
  have none: "session_loop ''abc.example.com'' demo_decode []
      (begin_session demo_routes \<lparr>att_session = ''s'', att_heartbeat = 15, att_idle = 45\<rparr> 10 demo_status []) = (None, demo_begin)"
    by (simp add: demo_begin_def)
  have opener: "opens demo_decode demo_open = Some 7" by (simp add: opens_def demo_open_def demo_decode_def)
  have loop: "session_loop ''abc.example.com'' demo_decode [demo_data] demo_opened = (None, demo_streaming)" by (simp add: demo_data_step)
  have streaming: "streams 7 (next_task demo_begin) demo_streaming" "next_task demo_opened = Suc (next_task demo_begin)"
    by (simp_all add: streams_def demo_streaming_def demo_opened_def demo_defs new_task_def)
  moreover have "next_task demo_begin = 0" by (simp add: demo_defs)
  ultimately show ?thesis using client_streams_intact [OF demo_fits none opener demo_open_step streaming(2) loop streaming(1)] by simp
qed


theorem visitor_reaches_target_witness:
  "map_of (channels (open_connection (tunnel_hostname ''abc'' ''example.com'') 7 ''203.0.113.9:4000'' ''web.abc.example.com'' demo_begin)) 7 =
     Some \<lparr>chan_route = ''web'', chan_task = 0\<rparr>"
proof -
  have "to_ascii_lowercase ''web.abc.example.com'' = ''web.abc.example.com''" "to_ascii_lowercase ''abc'' = ''abc''"
    "to_ascii_lowercase ''example.com'' = ''example.com''" "route_name ''web.abc.example.com'' ''abc'' ''example.com'' = Some ''web''"
    "is_label ''web''"
    by code_simp+
  moreover have "map_of (targets demo_begin) ''web'' = Some \<lparr>target = demo_target, proxy_protocol = None\<rparr>"
    "length (channels demo_begin) < MAX_CONNS" "next_task demo_begin = 0"
    by (simp_all add: demo_defs MAX_CONNS_def)
  ultimately show ?thesis
    using visitor_reaches_target [of "''web.abc.example.com''" "''abc''" "''example.com''" "''web''" demo_begin _ 7 "''203.0.113.9:4000''"]
    by (simp add: Let_def)
qed

text \<open>The server cannot be reached, then it refuses the token.\<close>

definition demo_turn :: "Connect \<Rightarrow> Turn"
  where "demo_turn c = \<lparr>turn_shutdown = False, turn_routes = demo_routes, turn_connect = c, turn_at = 10, turn_labels = [], turn_pick = 60\<rparr>"

definition demo_turns :: "Turn list"
  where "demo_turns = [demo_turn Connect_timeout, demo_turn (Answered (Err (Attach BAD_TOKEN)))]"


end
