(* ===== verification/Client_Storage.thy ===== *)
theory Client_Storage
  imports Client_Session Network Records
begin

text \<open>
  What the client keeps on disk (\<^verbatim>\<open>opentunnel/src/storage.rs\<close>, \<^verbatim>\<open>identity.rs\<close>): per profile a directory with the
  credentials of its tunnel, while its certificate is pending and after. Every call to the file system may fail or be the last one
  before the process dies. JSON is a parameter.
\<close>

section \<open>Identities\<close>

record Identity =
  ident_id :: string
  ident_hostname :: string
  ident_token :: string
  ident_key :: string
  ident_certificate :: string
  ident_chain :: string
  ident_expiry :: string

record PendingIdentity =
  pend_id :: string
  pend_hostname :: string
  pend_token :: string
  pend_key :: string
  pend_csr :: string

record TunnelFile =
  tf_id :: string
  tf_hostname :: string
  tf_expiry :: string

record PendingFile =
  pf_id :: string
  pf_hostname :: string
  pf_csr :: string

section \<open>The machine of a client\<close>

text \<open>What a call to the file system comes to. One that fails or during which the process dies may have written some of its
  bytes.\<close>

datatype Io = Io_ok | Io_fails string nat | Io_dies nat

text \<open>An error of the HTTP client, with its kinds, and a request with its method, path, token and body. The header
  \<^verbatim>\<open>Retry-After\<close> is \<open>None\<close> when it is missing or no text; reading a body may fail.\<close>

record HttpError =
  http_text :: string
  is_connect :: bool
  is_timeout :: bool
  is_request :: bool

record Request =
  req_method :: Method
  req_path :: string
  req_token :: "string option"
  req_body :: "string option"

record Response =
  resp_status :: nat
  resp_retry :: "string option"
  resp_body :: "HttpError + string"

datatype ProvisionStage =
  CreatingTunnel | GeneratingKey | GeneratingCsr | ResumingCertificate | RequestingCertificate | WaitingCertificate | SavingIdentity
| StageReady

text \<open>The directories and files under the root of the storage, how many calls to the file system there were, the requests that were sent, the delays
  between them, and the stages that were reported.\<close>

record Home =
  h_dirs :: "string \<Rightarrow> bool"
  h_files :: "string \<Rightarrow> string \<Rightarrow> string option"
  h_calls :: nat
  h_sent :: "Request list"
  h_slept :: "nat list"
  h_stages :: "ProvisionStage list"

text \<open>What is around it: the file system, JSON, the server, random choices, keys, and clocks.\<close>

record Around =
  io :: "nat \<Rightarrow> Io"
  partly :: "nat \<Rightarrow> string \<Rightarrow> bool"
  root_dir :: string
  process :: nat
  write_tunnel :: "TunnelFile \<Rightarrow> string"
  read_tunnel :: "string \<Rightarrow> string + TunnelFile"
  write_pending :: "PendingFile \<Rightarrow> string"
  read_pending :: "string \<Rightarrow> string + PendingFile"
  server :: "Request list \<Rightarrow> Request \<Rightarrow> HttpError + Response"
  dies_sending :: "Request list \<Rightarrow> bool"
  pick_delay :: "nat \<Rightarrow> nat"
  decode_created :: "string \<Rightarrow> string + (string \<times> string \<times> string)"
  decode_info :: "string \<Rightarrow> string + CertificateInfo"
  decode_api_error :: "string \<Rightarrow> (string \<times> string) option"
  csr_body :: "string \<Rightarrow> string"
  generate :: "nat \<Rightarrow> string \<Rightarrow> string + (string \<times> string)"
  expired :: "string \<Rightarrow> bool"

text \<open>A computation returns, or the process dies.\<close>

datatype 'a ended = Returned "Error + 'a" | Died

type_synonym 'a cl = "Home \<Rightarrow> 'a ended \<times> Home"

definition cl_return :: "'a \<Rightarrow> 'a cl"
  where "cl_return a = (\<lambda>h. (Returned (Ok a), h))"

definition cl_fail :: "Error \<Rightarrow> 'a cl"
  where "cl_fail e = (\<lambda>h. (Returned (Err e), h))"

definition cl_bind :: "'a cl \<Rightarrow> ('a \<Rightarrow> 'b cl) \<Rightarrow> 'b cl"
  where "cl_bind m f = (\<lambda>h.
    case m h of (Returned (Inr a), h) \<Rightarrow> f a h | (Returned (Inl e), h) \<Rightarrow> (Returned (Err e), h) | (Died, h) \<Rightarrow> (Died, h))"

text \<open>An error that the caller handles.\<close>

definition cl_try :: "'a cl \<Rightarrow> (Error + 'a) cl"
  where "cl_try m = (\<lambda>h. case m h of (Returned r, h) \<Rightarrow> (Returned (Ok r), h) | (Died, h) \<Rightarrow> (Died, h))"

definition cl_result :: "Error + 'a \<Rightarrow> 'a cl"
  where "cl_result r = (\<lambda>h. (Returned r, h))"

text \<open>A call to the file system, with what it does when it goes well and what when it breaks off after some bytes.\<close>

definition disk_call :: "Around \<Rightarrow> string \<Rightarrow> (Home \<Rightarrow> Home) \<Rightarrow> (nat \<Rightarrow> Home \<Rightarrow> Home) \<Rightarrow> unit cl"
  where "disk_call env context go broken = (\<lambda>h.
    let n = h_calls h; h = h\<lparr>h_calls := Suc n\<rparr> in
    case io env n of
      Io_ok \<Rightarrow> (Returned (Ok ()), go h)
    | Io_fails m k \<Rightarrow> (Returned (Err (Io context m)), broken k h)
    | Io_dies k \<Rightarrow> (Died, broken k h))"

section \<open>Files\<close>

definition path_of :: "Around \<Rightarrow> string \<Rightarrow> string \<Rightarrow> string"
  where "path_of env profile file = root_dir env @ ''/'' @ profile @ ''/'' @ file"

definition set_file :: "string \<Rightarrow> string \<Rightarrow> string option \<Rightarrow> Home \<Rightarrow> Home"
  where "set_file profile file c h = h\<lparr>h_files := (h_files h)(profile := (h_files h profile)(file := c))\<rparr>"

text \<open>The name with its extension, if it has one, replaced.\<close>

definition temporary :: "Around \<Rightarrow> string \<Rightarrow> string"
  where "temporary env file =
    (let ext = ''.tmp-'' @ show_nat (process env) in
     case rsplit_once CHR ''.'' file of
       Some (stem, _) \<Rightarrow> if stem = [] then file @ ext else stem @ ext
     | None \<Rightarrow> file @ ext)"

definition write_secret :: "Around \<Rightarrow> string \<Rightarrow> string \<Rightarrow> string \<Rightarrow> unit cl"
  where "write_secret env profile file c =
    (let context = ''writing '' @ path_of env profile file; tmp = temporary env file in
     cl_bind (disk_call env context (set_file profile tmp (Some [])) (\<lambda>_ h. h)) (\<lambda>_.
     cl_bind (disk_call env context (set_file profile tmp (Some c)) (\<lambda>k. set_file profile tmp (Some (take k c)))) (\<lambda>_.
     disk_call env context (\<lambda>h. set_file profile tmp None (set_file profile file (Some c) h)) (\<lambda>_ h. h))))"

definition create_private_dir :: "Around \<Rightarrow> string \<Rightarrow> unit cl"
  where "create_private_dir env profile =
    disk_call env (''creating '' @ root_dir env @ ''/'' @ profile) (\<lambda>h. h\<lparr>h_dirs := (h_dirs h)(profile := True)\<rparr>) (\<lambda>_ h. h)"

definition read_optional :: "Around \<Rightarrow> string \<Rightarrow> string \<Rightarrow> string option cl"
  where "read_optional env profile file = (\<lambda>h.
    case disk_call env (''reading '' @ path_of env profile file) (\<lambda>h. h) (\<lambda>_ h. h) h of
      (Returned (Inr _), h) \<Rightarrow> (Returned (Ok (h_files h profile file)), h)
    | (Returned (Inl e), h) \<Rightarrow> (Returned (Err e), h)
    | (Died, h) \<Rightarrow> (Died, h))"

definition read_json :: "Around \<Rightarrow> (string \<Rightarrow> string + 'a) \<Rightarrow> string \<Rightarrow> string \<Rightarrow> 'a option cl"
  where "read_json env parse profile file =
    cl_bind (read_optional env profile file) (\<lambda>c.
      case c of
        None \<Rightarrow> cl_return None
      | Some c \<Rightarrow>
          (case parse c of
             Inl e \<Rightarrow> cl_fail (Corrupt (path_of env profile file) e)
           | Inr a \<Rightarrow> cl_return (Some a)))"

section \<open>The storage\<close>

definition profile_dir :: "string \<Rightarrow> unit cl"
  where "profile_dir profile =
    (if \<not> is_valid_profile profile
     then cl_fail (Invalid (''invalid profile name '' @ [CHR 0x27] @ profile @ [CHR 0x27] @
       '': use lowercase letters, numbers, and hyphens''))
     else cl_return ())"

definition ensure_dir :: "Around \<Rightarrow> string \<Rightarrow> unit cl"
  where "ensure_dir env profile = cl_bind (profile_dir profile) (\<lambda>_. create_private_dir env profile)"

text \<open>A file that has to be there.\<close>

definition read_required :: "Around \<Rightarrow> Error \<Rightarrow> string \<Rightarrow> string \<Rightarrow> string cl"
  where "read_required env incomplete profile file =
    cl_bind (read_optional env profile file) (\<lambda>c. case c of None \<Rightarrow> cl_fail incomplete | Some c \<Rightarrow> cl_return c)"

definition load :: "Around \<Rightarrow> string \<Rightarrow> Identity option cl"
  where "load env profile =
    cl_bind (profile_dir profile) (\<lambda>_.
    cl_bind (read_json env (read_tunnel env) profile ''tunnel.json'') (\<lambda>f.
      case f of
        None \<Rightarrow> cl_return None
      | Some f \<Rightarrow>
          let incomplete = Invalid (''incomplete tunnel identity for '' @ [CHR 0x27] @ profile @ [CHR 0x27]) in
          cl_bind (read_required env incomplete profile ''token'') (\<lambda>token.
          cl_bind (read_required env incomplete profile ''private-key.pem'') (\<lambda>key.
          cl_bind (read_required env incomplete profile ''certificate.pem'') (\<lambda>cert.
          cl_bind (read_required env incomplete profile ''chain.pem'') (\<lambda>ch.
          cl_return (Some \<lparr>ident_id = tf_id f, ident_hostname = tf_hostname f, ident_token = trim token, ident_key = key,
            ident_certificate = cert, ident_chain = ch, ident_expiry = tf_expiry f\<rparr>)))))))"

definition load_pending :: "Around \<Rightarrow> string \<Rightarrow> PendingIdentity option cl"
  where "load_pending env profile =
    cl_bind (profile_dir profile) (\<lambda>_.
    cl_bind (read_json env (read_pending env) profile ''pending.json'') (\<lambda>f.
      case f of
        None \<Rightarrow> cl_return None
      | Some f \<Rightarrow>
          let incomplete = Invalid (''incomplete pending tunnel identity for '' @ [CHR 0x27] @ profile @ [CHR 0x27]) in
          cl_bind (read_required env incomplete profile ''token'') (\<lambda>token.
          cl_bind (read_required env incomplete profile ''private-key.pem'') (\<lambda>key.
          cl_return (Some \<lparr>pend_id = pf_id f, pend_hostname = pf_hostname f, pend_token = trim token, pend_key = key,
            pend_csr = pf_csr f\<rparr>)))))"

definition token_line :: "string \<Rightarrow> string"
  where "token_line token = token @ [CHR 0x0A]"

definition save_pending :: "Around \<Rightarrow> string \<Rightarrow> PendingIdentity \<Rightarrow> unit cl"
  where "save_pending env profile p =
    cl_bind (ensure_dir env profile) (\<lambda>_.
    cl_bind (write_secret env profile ''token'' (token_line (pend_token p))) (\<lambda>_.
    cl_bind (write_secret env profile ''private-key.pem'' (pend_key p)) (\<lambda>_.
    write_secret env profile ''pending.json'' (write_pending env \<lparr>pf_id = pend_id p, pf_hostname = pend_hostname p, pf_csr = pend_csr p\<rparr>))))"

definition save :: "Around \<Rightarrow> string \<Rightarrow> Identity \<Rightarrow> unit cl"
  where "save env profile i =
    cl_bind (ensure_dir env profile) (\<lambda>_.
    cl_bind (write_secret env profile ''token'' (token_line (ident_token i))) (\<lambda>_.
    cl_bind (write_secret env profile ''private-key.pem'' (ident_key i)) (\<lambda>_.
    cl_bind (write_secret env profile ''certificate.pem'' (ident_certificate i)) (\<lambda>_.
    cl_bind (write_secret env profile ''chain.pem'' (ident_chain i)) (\<lambda>_.
    cl_bind (write_secret env profile ''tunnel.json''
      (write_tunnel env \<lparr>tf_id = ident_id i, tf_hostname = ident_hostname i, tf_expiry = ident_expiry i\<rparr>)) (\<lambda>_.
    disk_call env ''removing pending.json'' (set_file profile ''pending.json'' None) (\<lambda>_ h. h)))))))"

text \<open>Removing a directory may break off when some of its files are gone.\<close>

definition remove_dir :: "Around \<Rightarrow> string \<Rightarrow> unit cl"
  where "remove_dir env profile =
    cl_bind (profile_dir profile) (\<lambda>_ h.
      disk_call env (''removing '' @ root_dir env @ ''/'' @ profile)
        (\<lambda>h. h\<lparr>h_dirs := (h_dirs h)(profile := False), h_files := (h_files h)(profile := (\<lambda>_. None))\<rparr>)
        (\<lambda>_ h'. h'\<lparr>h_files := (h_files h')(profile := (\<lambda>f. if partly env (h_calls h) f then None else h_files h' profile f))\<rparr>) h)"

end
