(* ===== verification/Client_Provision.thy ===== *)
theory Client_Provision
  imports Client_Storage
begin

text \<open>
  How the client gets a tunnel and its certificate (\<^verbatim>\<open>opentunnel/src/api.rs\<close>, \<^verbatim>\<open>client.rs\<close>) and how a running tunnel takes over
  renewed certificates (\<^verbatim>\<open>refresh_certificate\<close> of \<^verbatim>\<open>tunnel.rs\<close>): the requests with their retries, and what is
  written to the storage in between. The server is a function of the requests it got.
\<close>

section \<open>Requests\<close>

definition retryable_error :: "HttpError \<Rightarrow> Repeat \<Rightarrow> bool"
  where "retryable_error e repeat =
    (case repeat of Idempotent \<Rightarrow> is_connect e \<or> is_timeout e \<or> is_request e | Once \<Rightarrow> is_connect e)"

definition http_failed :: "HttpError \<Rightarrow> Error"
  where "http_failed e = Error.Http (http_text e) (is_connect e \<or> is_timeout e \<or> is_request e)"

text \<open>The message for an error without a body of the API's own.\<close>

definition status_message :: "nat \<Rightarrow> string \<Rightarrow> string"
  where "status_message code body =
    (case cloudflare_reason code of
       Some reason \<Rightarrow> ''Cloudflare '' @ show_nat code @ '': '' @ reason
     | None \<Rightarrow>
         let body = trim body in
         if body = [] then ''HTTP '' @ show_nat code else take_chars 200 body)"

definition error_response :: "Around \<Rightarrow> Response \<Rightarrow> Error"
  where "error_response env r =
    (let body = (case resp_body r of Inl _ \<Rightarrow> [] | Inr b \<Rightarrow> b) in
     case decode_api_error env body of
       Some (tag, m) \<Rightarrow> Api (resp_status r) tag m
     | None \<Rightarrow> Api (resp_status r) ''HttpError'' (status_message (resp_status r) body))"

text \<open>What became of one sending: a response, an error, or another try after the given header.\<close>

datatype Tried = Answer Response | Gave_up Error | Try_again "string option"

definition tried :: "Around \<Rightarrow> Repeat \<Rightarrow> nat \<Rightarrow> HttpError + Response \<Rightarrow> Tried"
  where "tried env repeat n x =
    (case x of
       Inr r \<Rightarrow>
         if is_success (resp_status r) then Answer r
         else if RETRIES \<le> n \<or> \<not> retryable_status (resp_status r) repeat then Gave_up (error_response env r)
         else Try_again (resp_retry r)
     | Inl e \<Rightarrow>
         if RETRIES \<le> n \<or> \<not> retryable_error e repeat then Gave_up (http_failed e) else Try_again None)"

function send_from :: "Around \<Rightarrow> Repeat \<Rightarrow> Request \<Rightarrow> nat \<Rightarrow> Response cl" where
  "send_from env repeat q n h =
     (let sent = h_sent h; h = h\<lparr>h_sent := sent @ [q]\<rparr> in
      if dies_sending env (sent @ [q]) then (Died, h)
      else case tried env repeat n (server env sent q) of
        Answer r \<Rightarrow> (Returned (Ok r), h)
      | Gave_up e \<Rightarrow> (Returned (Err e), h)
      | Try_again after \<Rightarrow>
          (case retry_delay_ms n after of
             (lo, hi) \<Rightarrow>
               send_from env repeat q (Suc n) (h\<lparr>h_slept := h_slept h @ [lo + pick_delay env (length sent) mod (hi - lo + 1)]\<rparr>)))"
  by pat_completeness auto
termination
  by (relation "measure (\<lambda>(env, repeat, q, n, h). Suc RETRIES - n)") (auto simp: tried_def split: sum.splits if_splits)

declare send_from.simps [simp del]

definition send :: "Around \<Rightarrow> Repeat \<Rightarrow> Request \<Rightarrow> Response cl"
  where "send env repeat q = send_from env repeat q 0"

text \<open>Reading the JSON of a response.\<close>

definition json_of :: "(string \<Rightarrow> string + 'a) \<Rightarrow> Response \<Rightarrow> 'a cl"
  where "json_of parse r =
    (case resp_body r of
       Inl e \<Rightarrow> cl_fail (http_failed e)
     | Inr b \<Rightarrow> (case parse b of Inl m \<Rightarrow> cl_fail (Error.Http m False) | Inr a \<Rightarrow> cl_return a))"

definition tunnel_path :: "string \<Rightarrow> string \<Rightarrow> string"
  where "tunnel_path tid tail = ''/api/tunnel/'' @ tid @ tail"

text \<open>The id, host name and token of the tunnel.\<close>

definition api_create :: "Around \<Rightarrow> (string \<times> string \<times> string) cl"
  where "api_create env =
    cl_bind (send env Once \<lparr>req_method = POST, req_path = ''/api/tunnel'', req_token = None, req_body = Some ''{}''\<rparr>)
      (json_of (decode_created env))"

definition api_bind_certificate :: "Around \<Rightarrow> string \<Rightarrow> string \<Rightarrow> string \<Rightarrow> CertificateInfo cl"
  where "api_bind_certificate env token tid csr =
    cl_bind (send env Idempotent \<lparr>req_method = POST, req_path = tunnel_path tid ''/certificate'', req_token = Some token,
        req_body = Some (csr_body env csr)\<rparr>)
      (json_of (decode_info env))"

definition api_certificate :: "Around \<Rightarrow> string \<Rightarrow> string \<Rightarrow> CertificateInfo cl"
  where "api_certificate env token tid =
    cl_bind (send env Idempotent \<lparr>req_method = GET, req_path = tunnel_path tid ''/certificate'', req_token = Some token, req_body = None\<rparr>)
      (json_of (decode_info env))"

definition api_remove :: "Around \<Rightarrow> string \<Rightarrow> string \<Rightarrow> unit cl"
  where "api_remove env token tid =
    cl_bind (send env Once \<lparr>req_method = DELETE, req_path = tunnel_path tid [], req_token = Some token, req_body = None\<rparr>)
      (\<lambda>_. cl_return ())"

section \<open>Provisioning\<close>

definition progress :: "ProvisionStage \<Rightarrow> unit cl"
  where "progress st = (\<lambda>h. (Returned (Ok ()), h\<lparr>h_stages := h_stages h @ [st]\<rparr>))"

text \<open>Asks until the certificate is there or failed; after \<open>polls\<close> rounds the process is taken to end while it waits.\<close>

fun await_certificate :: "Around \<Rightarrow> nat \<Rightarrow> PendingIdentity \<Rightarrow> (string \<times> string \<times> string) cl" where
  "await_certificate env 0 p = (\<lambda>h. (Died, h))"
| "await_certificate env (Suc polls) p =
     cl_bind (progress WaitingCertificate) (\<lambda>_.
     cl_bind (api_certificate env (pend_token p) (pend_id p)) (\<lambda>info.
       case cert_state info of
         Ready cert ch expiry \<Rightarrow> cl_return (cert, ch, expiry)
       | CertificateState.Failed reason \<Rightarrow> cl_fail (CertificateFailed reason)
       | _ \<Rightarrow> await_certificate env polls p))"

definition certified :: "PendingIdentity \<Rightarrow> string \<times> string \<times> string \<Rightarrow> Identity"
  where "certified p = (\<lambda>(cert, ch, expiry).
    \<lparr>ident_id = pend_id p, ident_hostname = pend_hostname p, ident_token = pend_token p, ident_key = pend_key p,
     ident_certificate = cert, ident_chain = ch, ident_expiry = expiry\<rparr>)"

definition complete_provision :: "Around \<Rightarrow> nat \<Rightarrow> string \<Rightarrow> PendingIdentity \<Rightarrow> Identity cl"
  where "complete_provision env polls profile p =
    cl_bind (progress RequestingCertificate) (\<lambda>_.
    cl_bind (cl_try (api_bind_certificate env (pend_token p) (pend_id p) (pend_csr p))) (\<lambda>r.
    cl_bind (case r of
        Inr _ \<Rightarrow> cl_return ()
      | Inl (Api code tag m) \<Rightarrow>
          if tag = ''CertificateInProgressError'' then cl_return () else cl_fail (Api code tag m)
      | Inl e \<Rightarrow> cl_fail e) (\<lambda>_.
    cl_bind (await_certificate env polls p) (\<lambda>c.
    cl_bind (progress SavingIdentity) (\<lambda>_.
    cl_bind (save env profile (certified p c)) (\<lambda>_.
    cl_bind (progress StageReady) (\<lambda>_. cl_return (certified p c))))))))"

definition provision :: "Around \<Rightarrow> nat \<Rightarrow> string \<Rightarrow> string \<Rightarrow> string \<Rightarrow> string \<Rightarrow> Identity cl"
  where "provision env polls profile tid host token =
    cl_bind (progress GeneratingKey) (\<lambda>_.
    cl_bind (progress GeneratingCsr) (\<lambda>_ h.
      (case generate env (h_calls h) host of
         Inl m \<Rightarrow> cl_fail (Crypto m)
       | Inr (key, csr) \<Rightarrow>
           let p = \<lparr>pend_id = tid, pend_hostname = host, pend_token = token, pend_key = key, pend_csr = csr\<rparr> in
           cl_bind (save_pending env profile p) (\<lambda>_. complete_provision env polls profile p)) h))"

definition create :: "Around \<Rightarrow> nat \<Rightarrow> string \<Rightarrow> Identity cl"
  where "create env polls profile =
    cl_bind (load env profile) (\<lambda>i.
      if i \<noteq> None then cl_fail (Invalid (''profile '' @ [CHR 0x27] @ profile @ [CHR 0x27] @ '' already has a tunnel''))
      else
        cl_bind (load_pending env profile) (\<lambda>p.
          case p of
            Some p \<Rightarrow> cl_bind (progress ResumingCertificate) (\<lambda>_. complete_provision env polls profile p)
          | None \<Rightarrow>
              cl_bind (progress CreatingTunnel) (\<lambda>_.
              cl_bind (api_create env) (\<lambda>(tid, host, token). provision env polls profile tid host token))))"

definition resume :: "Around \<Rightarrow> nat \<Rightarrow> string \<Rightarrow> Identity option cl"
  where "resume env polls profile =
    cl_bind (load_pending env profile) (\<lambda>p.
      case p of
        None \<Rightarrow> cl_return None
      | Some p \<Rightarrow>
          cl_bind (progress ResumingCertificate) (\<lambda>_.
          cl_bind (complete_provision env polls profile p) (\<lambda>i. cl_return (Some i))))"

definition ensure :: "Around \<Rightarrow> nat \<Rightarrow> string \<Rightarrow> Identity cl"
  where "ensure env polls profile =
    cl_bind (load env profile) (\<lambda>i.
      case i of
        None \<Rightarrow> create env polls profile
      | Some i \<Rightarrow>
          cl_bind (cl_try (api_certificate env (ident_token i) (ident_id i))) (\<lambda>r.
            case r of
              Inl e \<Rightarrow> if is_transient_error e \<and> \<not> expired env (ident_expiry i) then cl_return i else cl_fail e
            | Inr info \<Rightarrow>
                (case cert_state info of
                   Ready cert ch expiry \<Rightarrow>
                     if cert \<noteq> ident_certificate i then
                       let renewed = i\<lparr>ident_certificate := cert, ident_chain := ch, ident_expiry := expiry\<rparr> in
                       cl_bind (save env profile renewed) (\<lambda>_. cl_return renewed)
                     else cl_return i
                 | CertificateState.Failed _ \<Rightarrow> provision env polls profile (ident_id i) (ident_hostname i) (ident_token i)
                 | _ \<Rightarrow> cl_return i)))"

definition remove :: "Around \<Rightarrow> string \<Rightarrow> unit cl"
  where "remove env profile =
    cl_bind (load env profile) (\<lambda>i.
    cl_bind (case i of
        None \<Rightarrow> cl_return ()
      | Some i \<Rightarrow>
          cl_bind (cl_try (api_remove env (ident_token i) (ident_id i))) (\<lambda>r.
            case r of
              Inr _ \<Rightarrow> cl_return ()
            | Inl (Api code tag m) \<Rightarrow> if code = 404 then cl_return () else cl_fail (Api code tag m)
            | Inl e \<Rightarrow> cl_fail e)) (\<lambda>_.
    remove_dir env profile))"

section \<open>Renewed certificates\<close>

text \<open>One check of a running tunnel; \<open>acceptor\<close> is what the TLS library makes of the certificate and the key. The identity that is
  in use after it, and what was announced.\<close>

definition refresh_certificate :: "Around \<Rightarrow> (Identity \<Rightarrow> Error + unit) \<Rightarrow> string option \<Rightarrow> Identity \<Rightarrow> (Identity \<times> Event list) cl"
  where "refresh_certificate env acceptor profile i =
    cl_bind (cl_try (api_certificate env (ident_token i) (ident_id i))) (\<lambda>r.
      case r of
        Inr info \<Rightarrow>
          (case cert_state info of
             Ready cert ch expiry \<Rightarrow>
               if cert = ident_certificate i then cl_return (i, [])
               else
                 let renewed = i\<lparr>ident_certificate := cert, ident_chain := ch, ident_expiry := expiry\<rparr> in
                 (case acceptor renewed of
                    Inl _ \<Rightarrow> cl_return (i, [])
                  | Inr _ \<Rightarrow>
                      cl_bind (case profile of None \<Rightarrow> cl_return (Ok ()) | Some profile \<Rightarrow> cl_try (save env profile renewed)) (\<lambda>_.
                      cl_return (renewed, [CertificateRenewed expiry])))
           | _ \<Rightarrow> cl_return (i, []))
      | Inl _ \<Rightarrow> cl_return (i, []))"

fun refresh_loop :: "Around \<Rightarrow> (Identity \<Rightarrow> Error + unit) \<Rightarrow> string option \<Rightarrow> nat \<Rightarrow> Identity \<Rightarrow> (Identity \<times> Event list) cl" where
  "refresh_loop env acceptor profile 0 i = cl_return (i, [])"
| "refresh_loop env acceptor profile (Suc n) i =
     cl_bind (refresh_certificate env acceptor profile i) (\<lambda>(i, es).
     cl_bind (refresh_loop env acceptor profile n i) (\<lambda>(i, es'). cl_return (i, es @ es')))"


text \<open>A tunnel is started, and its certificate checked \<open>n\<close> times while it runs.\<close>

definition connect :: "Around \<Rightarrow> (Identity \<Rightarrow> Error + unit) \<Rightarrow> nat \<Rightarrow> string \<Rightarrow> routes \<Rightarrow> (Sup \<times> Identity \<times> Event list) cl"
  where "connect env acceptor n profile rs =
    cl_bind (load env profile) (\<lambda>i.
      case i of
        None \<Rightarrow> cl_fail (Invalid (''profile '' @ [CHR 0x27] @ profile @ [CHR 0x27] @ '' has no tunnel''))
      | Some i \<Rightarrow>
          cl_bind (cl_result (start (ident_hostname i) (acceptor i) rs)) (\<lambda>v.
          cl_bind (refresh_loop env acceptor (Some profile) n i) (\<lambda>x. cl_return (v, x))))"

end
