(* ===== verification/Provision_Runs.thy ===== *)
theory Provision_Runs
  imports Client_Provision
begin

text \<open>
  How the operations of the client change what is stored of a profile: relations that every computation keeps (\<open>client_moves\<close>), the files that
  count, and triples for the operations that write them. They hold whatever fails and wherever the process dies.
\<close>

section \<open>Relations that computations keep\<close>

definition moves :: "(Home \<Rightarrow> Home \<Rightarrow> bool) \<Rightarrow> 'a cl \<Rightarrow> bool"
  where "moves R m \<longleftrightarrow> (\<forall>h. R h (snd (m h)))"

locale client_moves =
  fixes R :: "Home \<Rightarrow> Home \<Rightarrow> bool"
  assumes R_refl: "R h h"
    and R_trans: "R h h' \<Longrightarrow> R h' h'' \<Longrightarrow> R h h''"
    and R_calls: "R h (h\<lparr>h_calls := n\<rparr>)"
    and R_sent: "R h (h\<lparr>h_sent := qs\<rparr>)"
    and R_slept: "R h (h\<lparr>h_slept := ds\<rparr>)"
    and R_stages: "R h (h\<lparr>h_stages := sts\<rparr>)"
    and R_dirs: "R h (h\<lparr>h_dirs := d\<rparr>)"
begin

lemma m_return: "moves R (cl_return a)" by (simp add: moves_def cl_return_def R_refl)

lemma m_fail: "moves R (cl_fail e)" by (simp add: moves_def cl_fail_def R_refl)

lemma m_bind:
  assumes "moves R m" "\<And>a. moves R (f a)"
  shows "moves R (cl_bind m f)"
  unfolding moves_def
proof
  fix h
  obtain r h1 where m: "m h = (r, h1)" by fastforce
  have "R h h1" using assms(1) m by (auto simp: moves_def dest: spec [of _ h])
  moreover have "R h1 (snd (f a h1))" for a using assms(2) by (simp add: moves_def)
  ultimately show "R h (snd (cl_bind m f h))"
    using m R_trans by (cases r) (auto simp: cl_bind_def split: sum.splits)
qed

lemma m_try: "moves R m \<Longrightarrow> moves R (cl_try m)"
  by (auto simp: moves_def cl_try_def split: prod.splits ended.splits) (metis snd_conv)+

lemma m_disk: "(\<And>h. R h (go h)) \<Longrightarrow> (\<And>k h. R h (broken k h)) \<Longrightarrow> moves R (disk_call env context go broken)"
  by (auto simp: moves_def disk_call_def Let_def intro: R_trans [OF R_calls] split: Io.splits)

lemma m_read: "moves R (read_optional env profile file)"
  using m_disk [of "\<lambda>h. h" "\<lambda>_ h. h"]
  by (auto simp: read_optional_def moves_def R_refl split: prod.splits ended.splits sum.splits) (metis snd_conv)+

lemma m_required: "moves R (read_required env e profile file)"
  by (auto simp: read_required_def intro!: m_bind m_read m_return m_fail split: option.split)

lemma m_json: "moves R (read_json env parse profile file)"
  by (auto simp: read_json_def intro!: m_bind m_read m_return m_fail split: option.split sum.split)

lemma m_profile: "moves R (profile_dir profile)"
  by (simp add: profile_dir_def m_return m_fail)

lemma m_load: "moves R (load env profile)"
  by (auto simp: load_def Let_def intro!: m_bind m_profile m_json m_required m_return split: option.split)

lemma m_load_pending: "moves R (load_pending env profile)"
  by (auto simp: load_pending_def Let_def intro!: m_bind m_profile m_json m_required m_return split: option.split)

lemma m_dir: "moves R (ensure_dir env profile)"
  by (auto simp: ensure_dir_def create_private_dir_def intro!: m_bind m_profile m_disk R_dirs R_refl)

lemma m_progress: "moves R (progress st)"
  by (simp add: moves_def progress_def R_stages)

lemma m_send: "moves R (send env repeat q)"
proof -
  have "R h (snd (send_from env repeat q n h))" for n h
  proof (induction env repeat q n h rule: send_from.induct)
    case (1 env repeat q n h)
    let ?h = "h\<lparr>h_sent := h_sent h @ [q]\<rparr>"
    have sent: "R h ?h" by (rule R_sent)
    show ?case
    proof (cases "dies_sending env (h_sent h @ [q]) \<or> (\<forall>after. tried env repeat n (server env (h_sent h) q) \<noteq> Try_again after)")
      case True
      then show ?thesis using sent by (subst send_from.simps) (auto simp: Let_def split: Tried.split)
    next
      case False
      then obtain after where t: "tried env repeat n (server env (h_sent h) q) = Try_again after"
        "\<not> dies_sending env (h_sent h @ [q])" by blast
      obtain lo hi where d: "retry_delay_ms n after = (lo, hi)" by fastforce
      let ?h' = "?h\<lparr>h_slept := h_slept ?h @ [lo + pick_delay env (length (h_sent h)) mod (hi - lo + 1)]\<rparr>"
      have "R ?h' (snd (send_from env repeat q (Suc n) ?h'))" using 1 [OF refl refl] t d by auto
      then have "R h (snd (send_from env repeat q (Suc n) ?h'))" using sent R_slept R_trans by blast
      then show ?thesis using t d by (subst send_from.simps) (simp add: Let_def)
    qed
  qed
  then show ?thesis by (simp add: moves_def send_def)
qed

lemma m_json_of: "moves R (json_of parse r)"
  by (auto simp: json_of_def intro!: m_return m_fail split: sum.split)

lemma m_api: "moves R (api_create env)" "moves R (api_bind_certificate env token tid csr)" "moves R (api_certificate env token tid)"
    "moves R (api_remove env token tid)"
  by (auto simp: api_create_def api_bind_certificate_def api_certificate_def api_remove_def intro!: m_bind m_send m_json_of m_return)

lemma m_await: "moves R (await_certificate env polls p)"
proof (induction polls)
  case 0
  show ?case by (simp add: moves_def R_refl)
next
  case (Suc polls)
  then show ?case by (auto intro!: m_bind m_progress m_api m_return m_fail split: CertificateState.split)
qed

end

section \<open>The files that count\<close>

definition FILES :: "string list"
  where "FILES = [''token'', ''private-key.pem'', ''certificate.pem'', ''chain.pem'', ''tunnel.json'', ''pending.json'']"

type_synonym view = "string \<Rightarrow> string option"

definition view :: "string \<Rightarrow> Home \<Rightarrow> view"
  where "view profile h = (\<lambda>f. if f \<in> set FILES then h_files h profile f else None)"

lemma temporary_other: "f \<in> set FILES \<Longrightarrow> temporary env f \<notin> set FILES"
proof -
  have names: "rsplit_once CHR ''.'' ''token'' = None" "rsplit_once CHR ''.'' ''private-key.pem'' = Some (''private-key'', ''pem'')"
    "rsplit_once CHR ''.'' ''certificate.pem'' = Some (''certificate'', ''pem'')" "rsplit_once CHR ''.'' ''chain.pem'' = Some (''chain'', ''pem'')"
    "rsplit_once CHR ''.'' ''tunnel.json'' = Some (''tunnel'', ''json'')" "rsplit_once CHR ''.'' ''pending.json'' = Some (''pending'', ''json'')"
    by code_simp+
  assume "f \<in> set FILES"
  then show ?thesis by (auto simp: FILES_def temporary_def names)
qed

lemma view_updates [simp]:
  "view p (h\<lparr>h_calls := n\<rparr>) = view p h" "view p (h\<lparr>h_sent := qs\<rparr>) = view p h" "view p (h\<lparr>h_slept := ds\<rparr>) = view p h"
  "view p (h\<lparr>h_stages := sts\<rparr>) = view p h" "view p (h\<lparr>h_dirs := d\<rparr>) = view p h"
  by (simp_all add: view_def fun_eq_iff)

lemma view_file: "f \<in> set FILES \<Longrightarrow> view p (set_file p f c h) = (view p h)(f := c)"
  by (auto simp: view_def set_file_def)

lemma view_temporary: "f \<in> set FILES \<Longrightarrow> view p (set_file p (temporary env f) c h) = view p h"
  using temporary_other by (fastforce simp: view_def set_file_def)

text \<open>Reading, reporting and asking the server leave the files of a profile as they are.\<close>

interpretation unmoved: client_moves "\<lambda>h h'. view p h' = view p h" for p
  by unfold_locales simp_all

text \<open>Operations on a profile leave those of every other as they are.\<close>

definition apart :: "string \<Rightarrow> Home \<Rightarrow> Home \<Rightarrow> bool"
  where "apart p h h' \<longleftrightarrow> (\<forall>q. q \<noteq> p \<longrightarrow> h_files h' q = h_files h q)"

interpretation apart: client_moves "apart p" for p
  by unfold_locales (auto simp: apart_def)


section \<open>Triples\<close>

text \<open>From files with \<open>F\<close>, a computation leaves files with \<open>I\<close> however it ends, and \<open>Q\<close> when it returns a value.\<close>

definition ends :: "string \<Rightarrow> (view \<Rightarrow> bool) \<Rightarrow> 'a cl \<Rightarrow> (view \<Rightarrow> bool) \<Rightarrow> ('a \<Rightarrow> view \<Rightarrow> bool) \<Rightarrow> bool"
  where "ends p F m I Q \<longleftrightarrow>
    (\<forall>h. F (view p h) \<longrightarrow> I (view p (snd (m h))) \<and> (\<forall>a. fst (m h) = Returned (Inr a) \<longrightarrow> Q a (view p (snd (m h)))))"

lemma ends_bind:
  assumes "ends p F m I G" "\<And>a. ends p (G a) (f a) I Q"
  shows "ends p F (cl_bind m f) I Q"
  unfolding ends_def
proof (intro allI impI)
  fix h assume F: "F (view p h)"
  obtain r h1 where m: "m h = (r, h1)" by fastforce
  have 1: "I (view p h1)" "\<And>a. r = Returned (Inr a) \<Longrightarrow> G a (view p h1)"
    using assms(1) F m by (auto simp: ends_def dest: spec [of _ h])
  have 2: "I (view p (snd (f a h1)))" "\<And>b. fst (f a h1) = Returned (Inr b) \<Longrightarrow> Q b (view p (snd (f a h1)))" if "r = Returned (Inr a)" for a
    using assms(2) [of a] 1(2) [OF that] by (auto simp: ends_def)
  show "I (view p (snd (cl_bind m f h))) \<and> (\<forall>a. fst (cl_bind m f h) = Returned (Inr a) \<longrightarrow> Q a (view p (snd (cl_bind m f h))))"
  proof (cases "\<exists>a. r = Returned (Inr a)")
    case True
    then show ?thesis using 2 m by (auto simp: cl_bind_def)
  next
    case False
    then show ?thesis using 1 m by (cases r) (auto simp: cl_bind_def split: sum.splits)
  qed
qed

lemma ends_return: "(\<And>v. F v \<Longrightarrow> I v \<and> Q a v) \<Longrightarrow> ends p F (cl_return a) I Q"
  by (simp add: ends_def cl_return_def)

lemma ends_fail: "(\<And>v. F v \<Longrightarrow> I v) \<Longrightarrow> ends p F (cl_fail e) I Q"
  by (simp add: ends_def cl_fail_def)

lemma ends_try: "ends p F m I Q \<Longrightarrow> ends p F (cl_try m) I (\<lambda>r v. I v \<and> (\<forall>a. r = Inr a \<longrightarrow> Q a v))"
  by (auto simp: ends_def cl_try_def split: prod.splits ended.splits)

lemma ends_unmoved:
  assumes "moves (\<lambda>h h'. view p h' = view p h) m" "\<And>v. F v \<Longrightarrow> I v"
  shows "ends p F m I (\<lambda>_. F)"
  using assms by (simp add: ends_def moves_def)

lemma ends_after:
  assumes "moves (\<lambda>h h'. view p h' = view p h) m" "\<And>v. F v \<Longrightarrow> I v" "\<And>a. ends p F (f a) I Q"
  shows "ends p F (cl_bind m f) I Q"
  by (rule ends_bind [OF ends_unmoved [OF assms(1,2)] assms(3)])

lemma ends_result: "(\<And>v. F v \<Longrightarrow> I v \<and> (\<forall>a. r = Inr a \<longrightarrow> Q a v)) \<Longrightarrow> ends p F (cl_result r) I Q"
  by (simp add: ends_def cl_result_def)

lemma ends_weaken:
  "ends p F m I Q \<Longrightarrow> (\<And>v. F' v \<Longrightarrow> F v) \<Longrightarrow> (\<And>v. I v \<Longrightarrow> I' v) \<Longrightarrow> (\<And>a v. Q a v \<Longrightarrow> Q' a v) \<Longrightarrow> ends p F' m I' Q'"
  by (auto simp: ends_def)

lemma ends_pure: "(A \<Longrightarrow> ends p F m I Q) \<Longrightarrow> ends p (\<lambda>v. A \<and> F v) m I Q"
  by (auto simp: ends_def)

lemma ends_disk:
  assumes "\<And>h. F (view p h) \<Longrightarrow> I (view p (go h)) \<and> Q (view p (go h))" "\<And>k h. F (view p h) \<Longrightarrow> I (view p (broken k h))"
  shows "ends p F (disk_call env context go broken) I (\<lambda>_. Q)"
  unfolding ends_def
proof (intro allI impI)
  fix h assume "F (view p h)"
  then have "F (view p (h\<lparr>h_calls := Suc (h_calls h)\<rparr>))" by simp
  from assms(1) [OF this] assms(2) [OF this]
  show "I (view p (snd (disk_call env context go broken h))) \<and>
      (\<forall>a. fst (disk_call env context go broken h) = Returned (Inr a) \<longrightarrow> Q (view p (snd (disk_call env context go broken h))))"
    by (cases "io env (h_calls h)") (simp_all add: disk_call_def Let_def)
qed

text \<open>A file is written or it is not.\<close>

lemma ends_write:
  assumes "f \<in> set FILES" "\<And>v. F v \<Longrightarrow> I v" "\<And>v. F v \<Longrightarrow> I (v(f := Some c)) \<and> Q (v(f := Some c))"
  shows "ends p F (write_secret env p f c) I (\<lambda>_. Q)"
  unfolding write_secret_def Let_def
proof (rule ends_bind [where G = "\<lambda>_. F"])
  show "ends p F (disk_call env (''writing '' @ path_of env p f) (set_file p (temporary env f) (Some [])) (\<lambda>_ h. h)) I (\<lambda>_. F)"
    using assms(2) by (intro ends_disk) (simp_all add: view_temporary [OF assms(1)])
  show "ends p F (cl_bind (disk_call env (''writing '' @ path_of env p f) (set_file p (temporary env f) (Some c))
        (\<lambda>k. set_file p (temporary env f) (Some (take k c))))
      (\<lambda>_. disk_call env (''writing '' @ path_of env p f)
        (\<lambda>h. set_file p (temporary env f) None (set_file p f (Some c) h)) (\<lambda>_ h. h))) I (\<lambda>_. Q)"
    using assms(2,3)
    by (intro ends_bind [where G = "\<lambda>_. F"] ends_disk) (simp_all add: view_temporary [OF assms(1)] view_file [OF assms(1)])
qed

text \<open>Reading a file that counts gives what is there.\<close>

lemma ends_read:
  assumes "f \<in> set FILES" "\<And>v. F v \<Longrightarrow> I v"
  shows "ends p F (read_optional env p f) I (\<lambda>c v. F v \<and> v f = c)"
  unfolding ends_def
proof (intro allI impI)
  fix h assume F: "F (view p h)"
  have f: "h_files h p f = view p h f" using assms(1) by (simp add: view_def)
  show "I (view p (snd (read_optional env p f h))) \<and> (\<forall>a. fst (read_optional env p f h) = Returned (Inr a) \<longrightarrow>
      F (view p (snd (read_optional env p f h))) \<and> view p (snd (read_optional env p f h)) f = a)"
    using F assms(2) [OF F] f by (cases "io env (h_calls h)") (simp_all add: read_optional_def disk_call_def Let_def)
qed

lemma ends_json:
  assumes "f \<in> set FILES" "\<And>v. F v \<Longrightarrow> I v"
  shows "ends p F (read_json env parse p f) I
    (\<lambda>x v. F v \<and> (case x of None \<Rightarrow> v f = None | Some a \<Rightarrow> \<exists>c. v f = Some c \<and> parse c = Inr a))"
  unfolding read_json_def
proof (rule ends_bind [OF ends_read [OF assms]])
  fix c
  show "ends p (\<lambda>v. F v \<and> v f = c) (case c of None \<Rightarrow> cl_return None
      | Some c \<Rightarrow> (case parse c of Inl e \<Rightarrow> cl_fail (Corrupt (path_of env p f) e) | Inr a \<Rightarrow> cl_return (Some a))) I
    (\<lambda>x v. F v \<and> (case x of None \<Rightarrow> v f = None | Some a \<Rightarrow> \<exists>c. v f = Some c \<and> parse c = Inr a))"
    using assms(2) by (auto intro!: ends_return ends_fail split: option.split sum.split)
qed

lemma ends_required:
  assumes "f \<in> set FILES" "\<And>v. F v \<Longrightarrow> I v"
  shows "ends p F (read_required env e p f) I (\<lambda>c v. F v \<and> v f = Some c)"
  unfolding read_required_def
proof (rule ends_bind [OF ends_read [OF assms]])
  fix c
  show "ends p (\<lambda>v. F v \<and> v f = c) (case c of None \<Rightarrow> cl_fail e | Some c \<Rightarrow> cl_return c) I (\<lambda>c v. F v \<and> v f = Some c)"
    using assms(2) by (auto intro!: ends_return ends_fail split: option.split)
qed

lemma in_FILES [simp]:
  "''token'' \<in> set FILES" "''private-key.pem'' \<in> set FILES" "''certificate.pem'' \<in> set FILES" "''chain.pem'' \<in> set FILES"
  "''tunnel.json'' \<in> set FILES" "''pending.json'' \<in> set FILES"
  by (simp_all add: FILES_def)


section \<open>What is stored of a tunnel\<close>

text \<open>What was written is read back, and the tokens of the server have no white space at their ends.\<close>

definition plain :: "string \<Rightarrow> bool"
  where "plain token \<longleftrightarrow> trim (token_line token) = token"

definition around_ok :: "Around \<Rightarrow> bool"
  where "around_ok env \<longleftrightarrow> (\<forall>x. read_tunnel env (write_tunnel env x) = Inr x) \<and> (\<forall>x. read_pending env (write_pending env x) = Inr x) \<and>
    (\<forall>b tid host token. decode_created env b = Inr (tid, host, token) \<longrightarrow> plain token)"

text \<open>An identity and a pending identity, as the files have them.\<close>

definition stored :: "Around \<Rightarrow> Identity \<Rightarrow> view \<Rightarrow> bool"
  where "stored env i v \<longleftrightarrow> (\<exists>t. v ''token'' = Some t \<and> trim t = ident_token i) \<and> v ''private-key.pem'' = Some (ident_key i) \<and>
    v ''certificate.pem'' = Some (ident_certificate i) \<and> v ''chain.pem'' = Some (ident_chain i) \<and>
    (\<exists>c. v ''tunnel.json'' = Some c \<and>
      read_tunnel env c = Inr \<lparr>tf_id = ident_id i, tf_hostname = ident_hostname i, tf_expiry = ident_expiry i\<rparr>)"

definition stored_pending :: "Around \<Rightarrow> PendingIdentity \<Rightarrow> view \<Rightarrow> bool"
  where "stored_pending env q v \<longleftrightarrow> (\<exists>t. v ''token'' = Some t \<and> trim t = pend_token q) \<and> v ''private-key.pem'' = Some (pend_key q) \<and>
    (\<exists>c. v ''pending.json'' = Some c \<and>
      read_pending env c = Inr \<lparr>pf_id = pend_id q, pf_hostname = pend_hostname q, pf_csr = pend_csr q\<rparr>)"

text \<open>The files are those of one tunnel, complete for each of the two states that they are in.\<close>

definition owned :: "Around \<Rightarrow> string \<Rightarrow> string \<Rightarrow> string \<Rightarrow> view \<Rightarrow> bool"
  where "owned env tid host token v \<longleftrightarrow> (\<exists>t. v ''token'' = Some t \<and> trim t = token) \<and> v ''private-key.pem'' \<noteq> None \<and>
    (\<forall>c. v ''tunnel.json'' = Some c \<longrightarrow> (\<exists>x. read_tunnel env c = Inr x \<and> tf_id x = tid \<and> tf_hostname x = host) \<and>
      v ''certificate.pem'' \<noteq> None \<and> v ''chain.pem'' \<noteq> None) \<and>
    (\<forall>c. v ''pending.json'' = Some c \<longrightarrow> (\<exists>x. read_pending env c = Inr x \<and> pf_id x = tid \<and> pf_hostname x = host)) \<and>
    (v ''tunnel.json'' \<noteq> None \<or> v ''pending.json'' \<noteq> None)"

definition vacant :: "view \<Rightarrow> bool"
  where "vacant v \<longleftrightarrow> v ''tunnel.json'' = None \<and> v ''pending.json'' = None"

lemma stored_unique: "stored env i v \<Longrightarrow> stored env j v \<Longrightarrow> i = j"
  by (auto simp: stored_def)

lemma stored_pending_unique: "stored_pending env i v \<Longrightarrow> stored_pending env j v \<Longrightarrow> i = j"
  by (auto simp: stored_pending_def)

lemma owned_stored:
  "owned env tid host token v \<Longrightarrow> stored env i v \<Longrightarrow> ident_id i = tid \<and> ident_hostname i = host \<and> ident_token i = token"
  by (auto simp: owned_def stored_def)

lemma owned_pending:
  "owned env tid host token v \<Longrightarrow> stored_pending env q v \<Longrightarrow> pend_id q = tid \<and> pend_hostname q = host \<and> pend_token q = token"
  by (auto simp: owned_def stored_pending_def)

text \<open>The files of a tunnel can be loaded.\<close>

lemma owned_loads:
  assumes "owned env tid host token v"
  shows "v ''tunnel.json'' \<noteq> None \<Longrightarrow> \<exists>i. stored env i v" "v ''pending.json'' \<noteq> None \<Longrightarrow> \<exists>q. stored_pending env q v"
proof -
  obtain t k where tk: "v ''token'' = Some t" "v ''private-key.pem'' = Some k" using assms by (auto simp: owned_def)
  {
    assume "v ''tunnel.json'' \<noteq> None"
    then obtain c x cert ch where "v ''tunnel.json'' = Some c" "read_tunnel env c = Inr x" "v ''certificate.pem'' = Some cert" "v ''chain.pem'' = Some ch"
      using assms by (auto simp: owned_def)
    then have "stored env \<lparr>ident_id = tf_id x, ident_hostname = tf_hostname x, ident_token = trim t, ident_key = k,
        ident_certificate = cert, ident_chain = ch, ident_expiry = tf_expiry x\<rparr> v"
      using tk by (simp add: stored_def)
    then show "\<exists>i. stored env i v" ..
  }
  assume "v ''pending.json'' \<noteq> None"
  then obtain c x where "v ''pending.json'' = Some c" "read_pending env c = Inr x" using assms by (auto simp: owned_def)
  then have "stored_pending env \<lparr>pend_id = pf_id x, pend_hostname = pf_hostname x, pend_token = trim t, pend_key = k, pend_csr = pf_csr x\<rparr> v"
    using tk by (simp add: stored_pending_def)
  then show "\<exists>q. stored_pending env q v" ..
qed

lemma ends_load:
  assumes "\<And>v. F v \<Longrightarrow> I v"
  shows "ends p F (load env p) I (\<lambda>x v. F v \<and> (case x of None \<Rightarrow> v ''tunnel.json'' = None | Some i \<Rightarrow> stored env i v))"
  unfolding load_def
proof (rule ends_bind [OF ends_unmoved [OF unmoved.m_profile assms]], assumption, rule ends_bind [OF ends_json [OF in_FILES(5) assms]], assumption)
  fix u :: unit and x :: "TunnelFile option"
  show "ends p (\<lambda>v. F v \<and> (case x of None \<Rightarrow> v ''tunnel.json'' = None | Some a \<Rightarrow> \<exists>c. v ''tunnel.json'' = Some c \<and> read_tunnel env c = Inr a))
      (case x of None \<Rightarrow> cl_return None | Some f \<Rightarrow>
        let incomplete = Invalid (''incomplete tunnel identity for '' @ [CHR 0x27] @ p @ [CHR 0x27]) in
          cl_bind (read_required env incomplete p ''token'') (\<lambda>token.
          cl_bind (read_required env incomplete p ''private-key.pem'') (\<lambda>key.
          cl_bind (read_required env incomplete p ''certificate.pem'') (\<lambda>cert.
          cl_bind (read_required env incomplete p ''chain.pem'') (\<lambda>ch.
          cl_return (Some \<lparr>ident_id = tf_id f, ident_hostname = tf_hostname f, ident_token = trim token, ident_key = key,
            ident_certificate = cert, ident_chain = ch, ident_expiry = tf_expiry f\<rparr>))))))
      I (\<lambda>x v. F v \<and> (case x of None \<Rightarrow> v ''tunnel.json'' = None | Some i \<Rightarrow> stored env i v))"
  proof (cases x)
    case (Some f)
    show ?thesis
      unfolding Some Let_def option.case
      by (intro ends_bind [OF ends_required] ends_return in_FILES) (auto simp: assms stored_def)
  qed (auto intro!: ends_return assms)
qed

lemma ends_load_pending:
  assumes "\<And>v. F v \<Longrightarrow> I v"
  shows "ends p F (load_pending env p) I (\<lambda>x v. F v \<and> (case x of None \<Rightarrow> v ''pending.json'' = None | Some q \<Rightarrow> stored_pending env q v))"
  unfolding load_pending_def
proof (rule ends_bind [OF ends_unmoved [OF unmoved.m_profile assms]], assumption, rule ends_bind [OF ends_json [OF in_FILES(6) assms]], assumption)
  fix u :: unit and x :: "PendingFile option"
  show "ends p (\<lambda>v. F v \<and> (case x of None \<Rightarrow> v ''pending.json'' = None | Some a \<Rightarrow> \<exists>c. v ''pending.json'' = Some c \<and> read_pending env c = Inr a))
      (case x of None \<Rightarrow> cl_return None | Some f \<Rightarrow>
        let incomplete = Invalid (''incomplete pending tunnel identity for '' @ [CHR 0x27] @ p @ [CHR 0x27]) in
          cl_bind (read_required env incomplete p ''token'') (\<lambda>token.
          cl_bind (read_required env incomplete p ''private-key.pem'') (\<lambda>key.
          cl_return (Some \<lparr>pend_id = pf_id f, pend_hostname = pf_hostname f, pend_token = trim token, pend_key = key,
            pend_csr = pf_csr f\<rparr>))))
      I (\<lambda>x v. F v \<and> (case x of None \<Rightarrow> v ''pending.json'' = None | Some q \<Rightarrow> stored_pending env q v))"
  proof (cases x)
    case (Some f)
    show ?thesis
      unfolding Some Let_def option.case
      by (intro ends_bind [OF ends_required] ends_return in_FILES) (auto simp: assms stored_pending_def)
  qed (auto intro!: ends_return assms)
qed


section \<open>Operations on the files of a tunnel\<close>

lemma owned_updates:
  assumes "owned env tid host token v"
  shows "plain token \<Longrightarrow> owned env tid host token (v(''token'' := Some (token_line token)))"
    "owned env tid host token (v(''private-key.pem'' := Some k))" "owned env tid host token (v(''certificate.pem'' := Some k))"
    "owned env tid host token (v(''chain.pem'' := Some k))"
  using assms by (auto simp: owned_def plain_def)

lemma ends_save:
  assumes "around_ok env" "plain (ident_token i)"
  shows "ends p (owned env (ident_id i) (ident_hostname i) (ident_token i)) (save env p i) (owned env (ident_id i) (ident_hostname i) (ident_token i))
    (\<lambda>_ v. owned env (ident_id i) (ident_hostname i) (ident_token i) v \<and> stored env i v \<and> v ''pending.json'' = None)"
proof -
  let ?O = "owned env (ident_id i) (ident_hostname i) (ident_token i)"
  let ?x = "\<lparr>tf_id = ident_id i, tf_hostname = ident_hostname i, tf_expiry = ident_expiry i\<rparr>"
  have x: "read_tunnel env (write_tunnel env ?x) = Inr ?x" using assms(1) by (simp add: around_ok_def)
  note up = owned_updates
  show ?thesis
    unfolding save_def
  proof (intro ends_bind)
    show "ends p ?O (ensure_dir env p) ?O (\<lambda>_. ?O)" by (rule ends_unmoved [OF unmoved.m_dir])
    show "ends p ?O (write_secret env p ''token'' (token_line (ident_token i))) ?O
        (\<lambda>_ v. ?O v \<and> v ''token'' = Some (token_line (ident_token i)))"
      by (rule ends_write) (simp_all add: up assms(2))
    show "ends p (\<lambda>v. ?O v \<and> v ''token'' = Some (token_line (ident_token i))) (write_secret env p ''private-key.pem'' (ident_key i)) ?O
        (\<lambda>_ v. ?O v \<and> v ''token'' = Some (token_line (ident_token i)) \<and> v ''private-key.pem'' = Some (ident_key i))"
      by (rule ends_write) (simp_all add: up)
    show "ends p (\<lambda>v. ?O v \<and> v ''token'' = Some (token_line (ident_token i)) \<and> v ''private-key.pem'' = Some (ident_key i))
        (write_secret env p ''certificate.pem'' (ident_certificate i)) ?O
        (\<lambda>_ v. ?O v \<and> v ''token'' = Some (token_line (ident_token i)) \<and> v ''private-key.pem'' = Some (ident_key i) \<and>
          v ''certificate.pem'' = Some (ident_certificate i))"
      by (rule ends_write) (simp_all add: up)
    show "ends p (\<lambda>v. ?O v \<and> v ''token'' = Some (token_line (ident_token i)) \<and> v ''private-key.pem'' = Some (ident_key i) \<and>
          v ''certificate.pem'' = Some (ident_certificate i)) (write_secret env p ''chain.pem'' (ident_chain i)) ?O
        (\<lambda>_ v. ?O v \<and> v ''token'' = Some (token_line (ident_token i)) \<and> v ''private-key.pem'' = Some (ident_key i) \<and>
          v ''certificate.pem'' = Some (ident_certificate i) \<and> v ''chain.pem'' = Some (ident_chain i))"
      by (rule ends_write) (simp_all add: up)
    show "ends p (\<lambda>v. ?O v \<and> v ''token'' = Some (token_line (ident_token i)) \<and> v ''private-key.pem'' = Some (ident_key i) \<and>
          v ''certificate.pem'' = Some (ident_certificate i) \<and> v ''chain.pem'' = Some (ident_chain i))
        (write_secret env p ''tunnel.json'' (write_tunnel env ?x)) ?O (\<lambda>_ v. ?O v \<and> stored env i v)"
      by (rule ends_write) (use assms(2) x in \<open>auto simp: owned_def stored_def plain_def\<close>)
    show "ends p (\<lambda>v. ?O v \<and> stored env i v) (disk_call env ''removing pending.json'' (set_file p ''pending.json'' None) (\<lambda>_ h. h)) ?O
        (\<lambda>_ v. ?O v \<and> stored env i v \<and> v ''pending.json'' = None)"
      by (rule ends_disk) (auto simp: view_file owned_def stored_def)
  qed
qed

text \<open>A pending identity is saved for the tunnel that the profile has, or for a new one.\<close>

definition may_own :: "Around \<Rightarrow> string \<Rightarrow> string \<Rightarrow> string \<Rightarrow> view \<Rightarrow> bool"
  where "may_own env tid host token v \<longleftrightarrow> vacant v \<or> owned env tid host token v"

lemma ends_save_pending:
  assumes "around_ok env" "plain (pend_token q)" "\<And>v. F v \<Longrightarrow> I v"
    and "F = vacant \<and> I = may_own env (pend_id q) (pend_hostname q) (pend_token q) \<or>
      F = owned env (pend_id q) (pend_hostname q) (pend_token q) \<and> I = F"
  shows "ends p F (save_pending env p q) I (\<lambda>_ v. owned env (pend_id q) (pend_hostname q) (pend_token q) v \<and> stored_pending env q v)"
proof -
  let ?x = "\<lparr>pf_id = pend_id q, pf_hostname = pend_hostname q, pf_csr = pend_csr q\<rparr>"
  have x: "read_pending env (write_pending env ?x) = Inr ?x" using assms(1) by (simp add: around_ok_def)
  have F_token: "F v \<Longrightarrow> F (v(''token'' := Some (token_line (pend_token q))))" for v
    using assms(2,4) owned_updates(1) by (auto simp: vacant_def)
  have F_key: "F v \<Longrightarrow> F (v(''private-key.pem'' := Some k))" for v k
    using assms(4) owned_updates(2) by (auto simp: vacant_def)
  show ?thesis
    unfolding save_pending_def
  proof (intro ends_bind)
    show "ends p F (ensure_dir env p) I (\<lambda>_. F)" using assms(3) by (rule ends_unmoved [OF unmoved.m_dir])
    show "ends p F (write_secret env p ''token'' (token_line (pend_token q))) I (\<lambda>_ v. F v \<and> v ''token'' = Some (token_line (pend_token q)))"
      by (rule ends_write) (simp_all add: assms(3) F_token)
    show "ends p (\<lambda>v. F v \<and> v ''token'' = Some (token_line (pend_token q))) (write_secret env p ''private-key.pem'' (pend_key q)) I
        (\<lambda>_ v. F v \<and> v ''token'' = Some (token_line (pend_token q)) \<and> v ''private-key.pem'' = Some (pend_key q))"
      by (rule ends_write) (simp_all add: assms(3) F_key)
    show "ends p (\<lambda>v. F v \<and> v ''token'' = Some (token_line (pend_token q)) \<and> v ''private-key.pem'' = Some (pend_key q))
        (write_secret env p ''pending.json'' (write_pending env ?x)) I
        (\<lambda>_ v. owned env (pend_id q) (pend_hostname q) (pend_token q) v \<and> stored_pending env q v)"
      by (rule ends_write) (use assms(2-4) x in \<open>auto simp: owned_def vacant_def stored_pending_def may_own_def plain_def\<close>)
  qed
qed

lemma ends_complete:
  assumes "around_ok env" "plain (pend_token q)"
  shows "ends p (owned env (pend_id q) (pend_hostname q) (pend_token q)) (complete_provision env polls p q)
    (owned env (pend_id q) (pend_hostname q) (pend_token q)) (\<lambda>i v. stored env i v \<and> v ''pending.json'' = None)"
proof -
  let ?O = "owned env (pend_id q) (pend_hostname q) (pend_token q)"
  have "ends p ?O (save env p (certified q c)) ?O (\<lambda>_ v. ?O v \<and> stored env (certified q c) v \<and> v ''pending.json'' = None)" for c
    using ends_save [OF assms(1), of "certified q c" p] assms(2) by (cases c) (simp add: certified_def)
  then have save: "ends p ?O (cl_bind (save env p (certified q c)) (\<lambda>_. cl_bind (progress StageReady) (\<lambda>_. cl_return (certified q c)))) ?O
      (\<lambda>i v. stored env i v \<and> v ''pending.json'' = None)" for c
    by (rule ends_bind) (rule ends_bind [OF ends_unmoved [OF unmoved.m_progress]], auto intro: ends_return)
  show ?thesis
    unfolding complete_provision_def
    by (intro ends_after unmoved.m_progress unmoved.m_try unmoved.m_api unmoved.m_await save)
      (auto intro: unmoved.m_return unmoved.m_fail split: sum.split Error.split)
qed


lemma ends_provision:
  assumes "around_ok env" "plain token" "\<And>v. F v \<Longrightarrow> I v" "\<And>v. owned env tid host token v \<Longrightarrow> I v"
    and "F = vacant \<and> I = may_own env tid host token \<or> F = owned env tid host token \<and> I = F"
  shows "ends p F (provision env polls p tid host token) I (\<lambda>i v. stored env i v \<and> v ''pending.json'' = None)"
proof -
  let ?q = "\<lambda>key csr. \<lparr>pend_id = tid, pend_hostname = host, pend_token = token, pend_key = key, pend_csr = csr\<rparr>"
  have run: "ends p F (cl_bind (save_pending env p (?q key csr)) (\<lambda>_. complete_provision env polls p (?q key csr))) I
      (\<lambda>i v. stored env i v \<and> v ''pending.json'' = None)" for key csr
  proof (rule ends_bind)
    show "ends p F (save_pending env p (?q key csr)) I (\<lambda>_. owned env tid host token)"
      using ends_save_pending [OF assms(1), of "?q key csr" F I p] assms(2,3,5) by (auto elim: ends_weaken)
    show "ends p (owned env tid host token) (complete_provision env polls p (?q key csr)) I (\<lambda>i v. stored env i v \<and> v ''pending.json'' = None)"
      using ends_complete [OF assms(1), of "?q key csr" p polls] assms(2,4) by (auto elim: ends_weaken)
  qed
  have gen: "ends p F (\<lambda>h. (case generate env (h_calls h) host of Inl m \<Rightarrow> cl_fail (Crypto m) | Inr (key, csr) \<Rightarrow>
      let q = ?q key csr in cl_bind (save_pending env p q) (\<lambda>_. complete_provision env polls p q)) h) I
      (\<lambda>i v. stored env i v \<and> v ''pending.json'' = None)"
    using run assms(3) by (auto simp: ends_def cl_fail_def Let_def split: sum.split)
  show ?thesis
    unfolding provision_def
    by (intro ends_after unmoved.m_progress gen assms(3))
qed

text \<open>What a created tunnel is.\<close>

lemma decode_created_plain: "around_ok env \<Longrightarrow> decode_created env b = Inr (tid, host, token) \<Longrightarrow> plain token"
  by (auto simp: around_ok_def)

lemma created_plain:
  "around_ok env \<Longrightarrow> api_create env h = (Returned (Inr (tid, host, token)), h') \<Longrightarrow> plain token"
  by (auto simp: api_create_def cl_bind_def json_of_def cl_fail_def cl_return_def
      split: prod.splits ended.splits sum.splits dest: decode_created_plain)

lemma ends_created:
  assumes "around_ok env"
  shows "ends p vacant (api_create env) vacant (\<lambda>a v. plain (snd (snd a)) \<and> vacant v)"
  unfolding ends_def
proof (intro allI impI)
  fix h assume v: "vacant (view p h)"
  have same: "view p (snd (api_create env h)) = view p h" using unmoved.m_api(1) [of p env] by (simp add: moves_def)
  have "plain (snd (snd a))" if "fst (api_create env h) = Returned (Inr a)" for a
    using that created_plain [OF assms, of h "fst a" "fst (snd a)" "snd (snd a)" "snd (api_create env h)"]
    by (metis prod.collapse)
  then show "vacant (view p (snd (api_create env h))) \<and> (\<forall>a. fst (api_create env h) = Returned (Inr a) \<longrightarrow>
      plain (snd (snd a)) \<and> vacant (view p (snd (api_create env h))))"
    using v same by simp
qed

text \<open>The files of a profile are those of no tunnel, or of one whose token is plain.\<close>

definition settled :: "Around \<Rightarrow> view \<Rightarrow> bool"
  where "settled env v \<longleftrightarrow> vacant v \<or> (\<exists>tid host token. plain token \<and> owned env tid host token v)"

lemma owned_not_vacant: "owned env tid host token v \<Longrightarrow> \<not> vacant v"
  by (auto simp: owned_def vacant_def)

text \<open>Nothing is loaded from a profile without a tunnel.\<close>

lemma ends_vacant_load:
  fixes f :: "Identity option \<Rightarrow> 'a cl"
  assumes "\<And>v. vacant v \<Longrightarrow> I v" "ends p vacant (f None) I Q"
  shows "ends p vacant (cl_bind (load env p) f) I Q"
proof (rule ends_bind [OF ends_load [OF assms(1)]], assumption)
  fix i
  show "ends p (\<lambda>v. vacant v \<and> (case i of None \<Rightarrow> v ''tunnel.json'' = None | Some i \<Rightarrow> stored env i v)) (f i) I Q"
    using assms(2) by (cases i) (auto simp: ends_def vacant_def stored_def)
qed

lemma ends_vacant_pending:
  fixes f :: "PendingIdentity option \<Rightarrow> 'a cl"
  assumes "\<And>v. vacant v \<Longrightarrow> I v" "ends p vacant (f None) I Q"
  shows "ends p vacant (cl_bind (load_pending env p) f) I Q"
proof (rule ends_bind [OF ends_load_pending [OF assms(1)]], assumption)
  fix q
  show "ends p (\<lambda>v. vacant v \<and> (case q of None \<Rightarrow> v ''pending.json'' = None | Some q \<Rightarrow> stored_pending env q v)) (f q) I Q"
    using assms(2) by (cases q) (auto simp: ends_def vacant_def stored_pending_def)
qed

lemma ends_create_vacant:
  assumes "around_ok env"
  shows "ends p vacant (create env polls p) (settled env) (\<lambda>i v. stored env i v)"
proof -
  let ?I = "settled env" and ?Q = "\<lambda>i v. stored env i v"
  have I: "vacant v \<Longrightarrow> ?I v" for v by (simp add: settled_def)
  have made: "ends p vacant (provision env polls p tid host token) ?I ?Q" if "plain token" for tid host token
    using ends_provision [OF assms that, of vacant "may_own env tid host token" tid host p polls] that
    by (auto simp: may_own_def settled_def elim!: ends_weaken)
  have "ends p vacant (cl_bind (api_create env) (\<lambda>(tid, host, token). provision env polls p tid host token)) ?I ?Q"
  proof (rule ends_bind [where G = "\<lambda>a v. plain (snd (snd a)) \<and> vacant v"])
    show "ends p vacant (api_create env) ?I (\<lambda>a v. plain (snd (snd a)) \<and> vacant v)"
      by (rule ends_weaken [OF ends_created [OF assms]]) (auto intro: I)
    show "ends p (\<lambda>v. plain (snd (snd a)) \<and> vacant v) (case a of (tid, host, token) \<Rightarrow> provision env polls p tid host token) ?I ?Q" for a
      using made by (cases a) (auto intro!: ends_pure)
  qed
  then have none: "ends p vacant (cl_bind (progress CreatingTunnel) (\<lambda>_.
      cl_bind (api_create env) (\<lambda>(tid, host, token). provision env polls p tid host token))) ?I ?Q"
    by (intro ends_after [OF unmoved.m_progress I])
  show ?thesis
    unfolding create_def
    by (rule ends_vacant_load [OF I], assumption) (simp, rule ends_vacant_pending [OF I], assumption, simp add: none)
qed

text \<open>Whatever is done for a profile that has a tunnel is done for that tunnel.\<close>

lemma ends_resume_at:
  assumes "around_ok env" "plain token"
  shows "ends p (\<lambda>v. owned env tid host token v \<and> stored_pending env q v)
    (cl_bind (progress ResumingCertificate) (\<lambda>_. complete_provision env polls p q)) (owned env tid host token) (\<lambda>i v. stored env i v)"
proof -
  let ?O = "owned env tid host token"
  have "ends p ?O (complete_provision env polls p q) ?O (\<lambda>i v. stored env i v)"
    if "pend_id q = tid" "pend_hostname q = host" "pend_token q = token"
    using ends_complete [OF assms(1), of q p polls] assms(2) that by (auto elim: ends_weaken)
  then have "ends p (\<lambda>v. (pend_id q = tid \<and> pend_hostname q = host \<and> pend_token q = token) \<and> ?O v)
      (cl_bind (progress ResumingCertificate) (\<lambda>_. complete_provision env polls p q)) ?O (\<lambda>i v. stored env i v)"
    by (intro ends_pure ends_after [OF unmoved.m_progress]) auto
  then show ?thesis by (rule ends_weaken) (auto dest: owned_pending)
qed

lemma ends_create_owned:
  assumes "around_ok env" "plain token"
  shows "ends p (owned env tid host token) (create env polls p) (owned env tid host token) (\<lambda>i v. stored env i v)"
  unfolding create_def
proof (rule ends_bind [OF ends_load [where F = "owned env tid host token"]], assumption)
  let ?O = "owned env tid host token"
  fix i
  show "ends p (\<lambda>v. ?O v \<and> (case i of None \<Rightarrow> v ''tunnel.json'' = None | Some i \<Rightarrow> stored env i v))
    (if i \<noteq> None then cl_fail (Invalid (''profile '' @ [CHR 0x27] @ p @ [CHR 0x27] @ '' already has a tunnel''))
     else cl_bind (load_pending env p) (\<lambda>q. case q of
         Some q \<Rightarrow> cl_bind (progress ResumingCertificate) (\<lambda>_. complete_provision env polls p q)
       | None \<Rightarrow> cl_bind (progress CreatingTunnel) (\<lambda>_.
           cl_bind (api_create env) (\<lambda>(tid, host, token). provision env polls p tid host token)))) ?O (\<lambda>i v. stored env i v)"
  proof (cases i)
    case None
    have none: "ends p (\<lambda>v. ?O v \<and> v ''tunnel.json'' = None \<and> v ''pending.json'' = None) m ?O (\<lambda>i v. stored env i v)" for m :: "Identity cl"
      by (auto simp: ends_def owned_def)
    show ?thesis
      unfolding None
    proof (simp, rule ends_bind [OF ends_load_pending [where F = "\<lambda>v. ?O v \<and> v ''tunnel.json'' = None"]], simp)
      fix q
      show "ends p (\<lambda>v. (?O v \<and> v ''tunnel.json'' = None) \<and> (case q of None \<Rightarrow> v ''pending.json'' = None | Some q \<Rightarrow> stored_pending env q v))
        (case q of None \<Rightarrow> cl_bind (progress CreatingTunnel) (\<lambda>_.
           cl_bind (api_create env) (\<lambda>(tid, host, token). provision env polls p tid host token))
         | Some q \<Rightarrow> cl_bind (progress ResumingCertificate) (\<lambda>_. complete_provision env polls p q)) ?O (\<lambda>i v. stored env i v)"
        by (cases q) (auto intro: ends_weaken [OF none] ends_weaken [OF ends_resume_at [OF assms]])
    qed
  qed (auto intro!: ends_fail)
qed

lemma ends_resume:
  assumes "around_ok env" "plain token"
  shows "ends p (owned env tid host token) (resume env polls p) (owned env tid host token)
    (\<lambda>x v. case x of None \<Rightarrow> True | Some i \<Rightarrow> stored env i v)"
  unfolding resume_def
proof (rule ends_bind [OF ends_load_pending [where F = "owned env tid host token"]], assumption)
  let ?O = "owned env tid host token" and ?Q = "\<lambda>x v. case x of None \<Rightarrow> True | Some i \<Rightarrow> stored env i v"
  fix q
  have assoc: "cl_bind (progress st) (\<lambda>_. cl_bind m f) = cl_bind (cl_bind (progress st) (\<lambda>_. m)) f"
    for st and m :: "Identity cl" and f :: "Identity \<Rightarrow> Identity option cl"
    by (simp add: cl_bind_def progress_def fun_eq_iff)
  show "ends p (\<lambda>v. ?O v \<and> (case q of None \<Rightarrow> v ''pending.json'' = None | Some q \<Rightarrow> stored_pending env q v))
    (case q of None \<Rightarrow> cl_return None
     | Some q \<Rightarrow> cl_bind (progress ResumingCertificate) (\<lambda>_. cl_bind (complete_provision env polls p q) (\<lambda>i. cl_return (Some i)))) ?O ?Q"
  proof (cases q)
    case (Some q)
    have "ends p (\<lambda>v. ?O v \<and> stored_pending env q v)
        (cl_bind (cl_bind (progress ResumingCertificate) (\<lambda>_. complete_provision env polls p q)) (\<lambda>i. cl_return (Some i))) ?O ?Q"
      by (rule ends_bind [where G = "\<lambda>i v. ?O v \<and> stored env i v"])
        (use ends_resume_at [OF assms] in \<open>auto simp: ends_def cl_return_def\<close>)
    then show ?thesis using Some by (simp add: assoc)
  qed (auto intro!: ends_return)
qed


lemma ends_ensure:
  assumes "around_ok env" "plain token"
  shows "ends p (owned env tid host token) (ensure env polls p) (owned env tid host token) (\<lambda>i v. stored env i v)"
  unfolding ensure_def
proof (rule ends_bind [OF ends_load [where F = "owned env tid host token"]], assumption)
  let ?O = "owned env tid host token" and ?Q = "\<lambda>i v. stored env i v"
  fix i
  let ?m = "\<lambda>i r. case r of
      Inl e \<Rightarrow> if is_transient_error e \<and> \<not> expired env (ident_expiry i) then cl_return i else cl_fail e
    | Inr info \<Rightarrow> (case cert_state info of
         Ready cert ch expiry \<Rightarrow>
           if cert \<noteq> ident_certificate i then
             let renewed = i\<lparr>ident_certificate := cert, ident_chain := ch, ident_expiry := expiry\<rparr> in
             cl_bind (save env p renewed) (\<lambda>_. cl_return renewed)
           else cl_return i
       | CertificateState.Failed _ \<Rightarrow> provision env polls p (ident_id i) (ident_hostname i) (ident_token i)
       | _ \<Rightarrow> cl_return i)"
  have saved: "ends p ?O (cl_bind (save env p j) (\<lambda>_. cl_return j)) ?O ?Q" if "ident_id j = tid" "ident_hostname j = host" "ident_token j = token" for j
    using ends_save [OF assms(1), of j p] assms(2) that by (intro ends_bind) (auto intro!: ends_return)
  have again: "ends p (owned env a b c) (provision env polls p a b c) (owned env a b c) ?Q" if "plain c" for a b c
    using ends_provision [OF assms(1) that, of "owned env a b c" "owned env a b c" a b p polls] by (auto elim: ends_weaken)
  have branch: "ends p (\<lambda>v. ?O v \<and> stored env i v) (?m i r) ?O ?Q"
    if "ident_id i = tid" "ident_hostname i = host" "ident_token i = token" for i r
    using that assms(2) saved [of "i\<lparr>ident_certificate := c1, ident_chain := c2, ident_expiry := c3\<rparr>" for c1 c2 c3]
    by (auto simp: Let_def intro!: ends_return ends_fail ends_weaken [OF saved] ends_weaken [OF again] split: sum.split CertificateState.split)
  have some: "ends p (\<lambda>v. ?O v \<and> stored env i v) (cl_bind (cl_try (api_certificate env (ident_token i) (ident_id i))) (?m i)) ?O ?Q" for i
  proof (rule ends_bind [OF ends_unmoved [OF unmoved.m_try [OF unmoved.m_api(3)]]])
    fix r
    have "ends p (\<lambda>v. (ident_id i = tid \<and> ident_hostname i = host \<and> ident_token i = token) \<and> ?O v \<and> stored env i v) (?m i r) ?O ?Q"
      using branch by (intro ends_pure) auto
    then show "ends p (\<lambda>v. ?O v \<and> stored env i v) (?m i r) ?O ?Q" by (rule ends_weaken) (auto dest: owned_stored)
  qed simp
  show "ends p (\<lambda>v. ?O v \<and> (case i of None \<Rightarrow> v ''tunnel.json'' = None | Some i \<Rightarrow> stored env i v))
    (case i of None \<Rightarrow> create env polls p | Some i \<Rightarrow> cl_bind (cl_try (api_certificate env (ident_token i) (ident_id i))) (?m i)) ?O ?Q"
    using some by (cases i) (auto intro: ends_weaken [OF ends_create_owned [OF assms]])
qed

lemma ends_refresh:
  assumes "around_ok env" "plain (ident_token i)"
  shows "ends p (owned env (ident_id i) (ident_hostname i) (ident_token i)) (refresh_certificate env acceptor (Some p) i)
    (owned env (ident_id i) (ident_hostname i) (ident_token i))
    (\<lambda>x v. owned env (ident_id i) (ident_hostname i) (ident_token i) v \<and> ident_id (fst x) = ident_id i \<and> ident_hostname (fst x) = ident_hostname i \<and>
      ident_token (fst x) = ident_token i \<and> ident_key (fst x) = ident_key i)"
proof -
  let ?O = "owned env (ident_id i) (ident_hostname i) (ident_token i)"
  have saved: "ends p ?O (cl_try (save env p (i\<lparr>ident_certificate := c1, ident_chain := c2, ident_expiry := c3\<rparr>))) ?O (\<lambda>_. ?O)" for c1 c2 c3
    using ends_try [OF ends_save [OF assms(1), of "i\<lparr>ident_certificate := c1, ident_chain := c2, ident_expiry := c3\<rparr>" p]] assms(2)
    by (auto elim: ends_weaken)
  show ?thesis
    unfolding refresh_certificate_def
    by (rule ends_bind [OF ends_unmoved [OF unmoved.m_try [OF unmoved.m_api(3)], of ?O]], assumption)
      (auto simp: Let_def intro!: ends_return ends_bind [OF saved] split: sum.split CertificateState.split)
qed

lemma ends_refresh_loop:
  assumes "around_ok env" "plain token"
  shows "ident_id i = tid \<Longrightarrow> ident_hostname i = host \<Longrightarrow> ident_token i = token \<Longrightarrow>
    ends p (owned env tid host token) (refresh_loop env acceptor (Some p) n i) (owned env tid host token) (\<lambda>_. owned env tid host token)"
proof (induction n arbitrary: i)
  case (Suc n)
  let ?O = "owned env tid host token"
  let ?G = "\<lambda>x v. (ident_id (fst x) = tid \<and> ident_hostname (fst x) = host \<and> ident_token (fst x) = token) \<and> ?O v"
  have "ends p ?O (refresh_certificate env acceptor (Some p) i) ?O ?G"
    using ends_refresh [OF assms(1), of i p acceptor] Suc.prems assms(2) by (auto elim: ends_weaken)
  moreover have "ends p (?G x) (case x of (i, es) \<Rightarrow> cl_bind (refresh_loop env acceptor (Some p) n i) (\<lambda>(i, es'). cl_return (i, es @ es'))) ?O (\<lambda>_. ?O)" for x
  proof (cases x)
    case (Pair a b)
    have "ends p ?O (cl_bind (refresh_loop env acceptor (Some p) n a) (\<lambda>(i, es'). cl_return (i, b @ es'))) ?O (\<lambda>_. ?O)"
      if "ident_id a = tid" "ident_hostname a = host" "ident_token a = token"
      by (rule ends_bind [OF Suc.IH [OF that]]) (auto intro: ends_return split: prod.split)
    then show ?thesis unfolding Pair prod.case fst_conv by (intro ends_pure) blast
  qed
  ultimately show ?case by (simp, rule ends_bind)
qed (auto intro: ends_return)


lemma ends_connect:
  assumes "around_ok env" "plain token"
  shows "ends p (owned env tid host token) (connect env acceptor n p rs) (owned env tid host token) (\<lambda>_ _. True)"
  unfolding connect_def
proof (rule ends_bind [OF ends_load [where F = "owned env tid host token"]], assumption)
  let ?O = "owned env tid host token"
  fix i
  have run: "ends p ?O (cl_bind (refresh_loop env acceptor (Some p) n i) (\<lambda>x. cl_return (v, x))) ?O (\<lambda>_ _. True)"
    if "ident_id i = tid" "ident_hostname i = host" "ident_token i = token" for i v
    by (rule ends_bind [OF ends_refresh_loop [OF assms that]]) (auto intro: ends_return)
  have "ends p (\<lambda>v. (ident_id i = tid \<and> ident_hostname i = host \<and> ident_token i = token) \<and> ?O v)
      (cl_bind (cl_result r) (\<lambda>v. cl_bind (refresh_loop env acceptor (Some p) n i) (\<lambda>x. cl_return (v, x)))) ?O (\<lambda>_ _. True)" for i r
    by (intro ends_pure, elim conjE) (rule ends_bind [OF ends_result run], simp)
  then have some: "ends p (\<lambda>v. ?O v \<and> stored env i v)
      (cl_bind (cl_result r) (\<lambda>v. cl_bind (refresh_loop env acceptor (Some p) n i) (\<lambda>x. cl_return (v, x)))) ?O (\<lambda>_ _. True)" for i r
    by (rule ends_weaken) (auto dest: owned_stored)
  show "ends p (\<lambda>v. ?O v \<and> (case i of None \<Rightarrow> v ''tunnel.json'' = None | Some i \<Rightarrow> stored env i v))
    (case i of None \<Rightarrow> cl_fail (Invalid (''profile '' @ [CHR 0x27] @ p @ [CHR 0x27] @ '' has no tunnel''))
     | Some i \<Rightarrow> cl_bind (cl_result (start (ident_hostname i) (acceptor i) rs)) (\<lambda>v.
          cl_bind (refresh_loop env acceptor (Some p) n i) (\<lambda>x. cl_return (v, x)))) ?O (\<lambda>_ _. True)"
    using some by (cases i) (auto intro!: ends_fail)
qed

end
