(* ===== verification/Provision_Properties.thy ===== *)
theory Provision_Properties
  imports Provision_Runs
begin

text \<open>
  What the client keeps of its tunnels through failures and crashes, how often it asks the server, and where the order of its writes lets
  a key and a request of different runs meet.
\<close>

section \<open>Runs of the client\<close>

text \<open>Programs that are run for a profile one after the other; each may end in an error or die anywhere.\<close>

datatype client_op =
  Op_create nat
| Op_resume nat
| Op_ensure nat
| Op_connect "Identity \<Rightarrow> Error + unit" nat routes

fun run_op :: "Around \<Rightarrow> string \<Rightarrow> client_op \<Rightarrow> Home \<Rightarrow> Home" where
  "run_op env p (Op_create polls) h = snd (create env polls p h)"
| "run_op env p (Op_resume polls) h = snd (resume env polls p h)"
| "run_op env p (Op_ensure polls) h = snd (ensure env polls p h)"
| "run_op env p (Op_connect acceptor n rs) h = snd (connect env acceptor n p rs h)"

fun run_ops :: "(Around \<times> client_op) list \<Rightarrow> string \<Rightarrow> Home \<Rightarrow> Home" where
  "run_ops [] p h = h"
| "run_ops ((env, op) # ops) p h = run_ops ops p (run_op env p op h)"

text \<open>Programs that read each other's files.\<close>

definition same_json :: "Around \<Rightarrow> Around \<Rightarrow> bool"
  where "same_json env e \<longleftrightarrow> read_tunnel e = read_tunnel env \<and> read_pending e = read_pending env"

lemma same_json_views:
  assumes "same_json env e"
  shows "owned e = owned env" "stored e = stored env" "settled e = settled env"
proof -
  show o: "owned e = owned env" and "stored e = stored env"
    using assms by (simp_all add: same_json_def owned_def stored_def fun_eq_iff)
  show "settled e = settled env" by (simp add: settled_def o fun_eq_iff)
qed

lemma run_op_owned:
  assumes "around_ok env" "plain token" "owned env tid host token (view p h)"
  shows "owned env tid host token (view p (run_op env p op h))"
  using assms(3) ends_create_owned [OF assms(1,2)] ends_resume [OF assms(1,2)] ends_ensure [OF assms(1,2)] ends_connect [OF assms(1,2)]
  by (cases op) (auto simp: ends_def)

lemma ends_resume_vacant: "ends p vacant (resume env polls p) vacant (\<lambda>_ _. True)"
  unfolding resume_def by (rule ends_vacant_pending) (auto intro: ends_return)

lemma ends_ensure_vacant: "around_ok env \<Longrightarrow> ends p vacant (ensure env polls p) (settled env) (\<lambda>i v. stored env i v)"
  unfolding ensure_def by (rule ends_vacant_load) (auto simp: settled_def intro: ends_create_vacant)

lemma ends_connect_vacant: "ends p vacant (connect env acceptor n p rs) vacant (\<lambda>_ _. True)"
  unfolding connect_def by (rule ends_vacant_load) (auto intro: ends_fail)

lemma run_op_vacant:
  assumes "around_ok env" "vacant (view p h)"
  shows "settled env (view p (run_op env p op h))"
  using assms(2) ends_create_vacant [OF assms(1)] ends_resume_vacant ends_ensure_vacant [OF assms(1)] ends_connect_vacant
  by (cases op) (auto simp: ends_def settled_def)

lemma run_op_settled: "around_ok env \<Longrightarrow> settled env (view p h) \<Longrightarrow> settled env (view p (run_op env p op h))"
  using run_op_vacant run_op_owned unfolding settled_def by metis

text \<open>Other profiles are left alone.\<close>

lemma apart_write: "moves (apart p) (write_secret env p f c)"
  by (auto simp: write_secret_def Let_def set_file_def apart_def intro!: apart.m_bind apart.m_disk)

lemma apart_saves: "moves (apart p) (save env p i)" "moves (apart p) (save_pending env p q)"
  by (auto simp: save_def save_pending_def intro!: apart.m_bind apart.m_dir apart_write apart.m_disk) (auto simp: set_file_def apart_def)

lemma apart_complete: "moves (apart p) (complete_provision env polls p q)"
  unfolding complete_provision_def
  by (intro apart.m_bind apart.m_progress apart.m_try apart.m_api apart.m_await apart_saves apart.m_return)
    (auto intro: apart.m_return apart.m_fail split: sum.split Error.split)

lemma apart_provision: "moves (apart p) (provision env polls p tid host token)"
proof -
  have "moves (apart p) (cl_bind (save_pending env p q) (\<lambda>_. complete_provision env polls p q))" for q
    by (intro apart.m_bind apart_saves apart_complete)
  then have gen: "moves (apart p) (\<lambda>h. (case generate env (h_calls h) host of Inl m \<Rightarrow> cl_fail (Crypto m) | Inr (key, csr) \<Rightarrow>
      let q = \<lparr>pend_id = tid, pend_hostname = host, pend_token = token, pend_key = key, pend_csr = csr\<rparr> in
      cl_bind (save_pending env p q) (\<lambda>_. complete_provision env polls p q)) h)"
    by (auto simp: moves_def cl_fail_def apart_def Let_def split: sum.split)
  show ?thesis unfolding provision_def by (intro apart.m_bind apart.m_progress gen)
qed

lemma apart_create: "moves (apart p) (create env polls p)"
  by (auto simp: create_def intro!: apart.m_bind apart.m_load apart.m_load_pending apart.m_fail apart.m_progress apart_complete apart.m_api apart_provision
      split: option.split)

lemma apart_ensure: "moves (apart p) (ensure env polls p)"
  by (auto simp: ensure_def Let_def intro!: apart.m_bind apart.m_load apart_create apart.m_try apart.m_api apart.m_return apart.m_fail apart_saves
      apart_provision split: option.split sum.split CertificateState.split)

text \<open>On a disk that works, what is stored is what is loaded.\<close>

lemma load_stored:
  assumes "stored env i (view p h)" "is_valid_profile p" "\<And>n. io env n = Io_ok"
  shows "fst (load env p h) = Returned (Inr (Some i))"
proof -
  have at: "h_files h p f = view p h f" if "f \<in> set FILES" for f using that by (simp add: view_def)
  show ?thesis
    using assms
    by (auto simp: load_def cl_bind_def profile_dir_def cl_return_def read_json_def read_required_def read_optional_def disk_call_def
        Let_def at stored_def)
qed

text \<open>An answer after which a request is sent once more.\<close>

definition sends_again :: "Repeat \<Rightarrow> HttpError + Response \<Rightarrow> bool"
  where "sends_again repeat x \<longleftrightarrow>
    (case x of Inr r \<Rightarrow> \<not> is_success (resp_status r) \<and> retryable_status (resp_status r) repeat | Inl e \<Rightarrow> retryable_error e repeat)"

lemma tried_again: "tried env repeat n x = Try_again after \<Longrightarrow> n < RETRIES \<and> sends_again repeat x"
  by (auto simp: tried_def sends_again_def split: sum.splits if_splits)

lemma tried_answer: "tried env repeat n x = Answer r \<Longrightarrow> x = Inr r \<and> is_success (resp_status r)"
  by (auto simp: tried_def split: sum.splits if_splits)

lemma all_less_Suc0: "(\<forall>j < Suc k. P j) \<longleftrightarrow> P 0 \<and> (\<forall>j < k. P (Suc j))"
  by (metis less_Suc_eq_0_disj)

lemma send_from_spec:
  "send_from env repeat q n h = (r, h') \<Longrightarrow> n \<le> RETRIES \<Longrightarrow>
    \<exists>k ds. n + k \<le> RETRIES \<and> h_sent h' = h_sent h @ replicate (Suc k) q \<and> h_slept h' = h_slept h @ ds \<and> length ds = k \<and>
      (\<forall>d \<in> set ds. d \<le> RETRY_MAX_MS) \<and> (\<forall>j < k. sends_again repeat (server env (h_sent h @ replicate j q) q)) \<and>
      (\<forall>x. r = Returned (Inr x) \<longrightarrow> server env (h_sent h @ replicate k q) q = Inr x \<and> is_success (resp_status x))"
proof (induction env repeat q n h arbitrary: r h' rule: send_from.induct)
  case (1 env repeat q n h)
  let ?t = "tried env repeat n (server env (h_sent h) q)"
  show ?case
  proof (cases "dies_sending env (h_sent h @ [q]) \<or> (\<forall>after. ?t \<noteq> Try_again after)")
    case True
    then have "h_sent h' = h_sent h @ replicate (Suc 0) q" "h_slept h' = h_slept h @ []" "\<And>x. r = Returned (Inr x) \<Longrightarrow> ?t = Answer x"
      using "1.prems"(1) by (auto simp: send_from.simps [of env repeat q n h] Let_def split: Tried.splits if_splits)
    then show ?thesis using tried_answer "1.prems"(2) by (intro exI [of _ 0] exI [of _ "[]"]) auto
  next
    case False
    then obtain after where t: "?t = Try_again after" "\<not> dies_sending env (h_sent h @ [q])" by blast
    obtain lo hi where d: "retry_delay_ms n after = (lo, hi)" by fastforce
    define w where "w = lo + pick_delay env (length (h_sent h)) mod (hi - lo + 1)"
    define h1 where "h1 = h\<lparr>h_sent := h_sent h @ [q], h_slept := h_slept h @ [w]\<rparr>"
    have bounds: "lo \<le> hi" "hi \<le> RETRY_MAX_MS" using retry_delay_ms_bounds [of n after] d by auto
    have "pick_delay env (length (h_sent h)) mod (hi - lo + 1) \<le> hi - lo" by (simp add: less_Suc_eq_le [symmetric])
    then have w: "w \<le> RETRY_MAX_MS" using bounds unfolding w_def by linarith
    have rest: "send_from env repeat q (Suc n) h1 = (r, h')"
      using "1.prems"(1) t d by (simp add: send_from.simps [of env repeat q n h] Let_def h1_def w_def)
    have "Suc n \<le> RETRIES" using tried_again [OF t(1)] by simp
    with "1.IH" [OF refl refl t(2) t(1) d [symmetric], of r h'] rest
    obtain k ds where k: "Suc n + k \<le> RETRIES" "h_sent h' = h_sent h1 @ replicate (Suc k) q" "h_slept h' = h_slept h1 @ ds" "length ds = k"
      "\<forall>d \<in> set ds. d \<le> RETRY_MAX_MS" "\<forall>j < k. sends_again repeat (server env (h_sent h1 @ replicate j q) q)"
      "\<forall>x. r = Returned (Inr x) \<longrightarrow> server env (h_sent h1 @ replicate k q) q = Inr x \<and> is_success (resp_status x)"
      by (auto simp: h1_def w_def)
    show ?thesis
      by (intro exI [of _ "Suc k"] exI [of _ "w # ds"]) (use k w tried_again [OF t(1)] in \<open>auto simp: h1_def all_less_Suc0\<close>)
  qed
qed

lemma write_goes_well:
  assumes "f \<in> set FILES" "io env (h_calls h) = Io_ok" "io env (Suc (h_calls h)) = Io_ok" "io env (Suc (Suc (h_calls h))) = Io_ok"
  shows "\<exists>h'. write_secret env p f c h = (Returned (Inr ()), h') \<and> view p h' = (view p h)(f := Some c) \<and> h_calls h' = h_calls h + 3"
proof -
  have calls: "h_calls (set_file p g x k) = h_calls k" for g x k by (simp add: set_file_def)
  show ?thesis
    using assms(2-4)
    by (simp add: write_secret_def Let_def cl_bind_def disk_call_def calls view_temporary [OF assms(1)] view_file [OF assms(1)])
qed

section \<open>Properties\<close>

text \<open>C17. A tunnel is never lost: from files of no tunnel or of one tunnel, after any programs that create, resume, ensure or connect the tunnel of a
  profile, one after the other, each of which may have failed or died at any call to the file system or the server, whatever the
  server answers, the files are again those of no tunnel or of one tunnel, with everything that loading them needs; and once they are
  those of a tunnel, they stay those of the same tunnel with the same token.\<close>

theorem tunnel_never_lost:
  assumes "settled env (view p h)" "\<forall>(e, op) \<in> set ops. around_ok e \<and> same_json env e"
  shows "settled env (view p (run_ops ops p h)) \<and>
    (plain token \<and> owned env tid host token (view p h) \<longrightarrow> owned env tid host token (view p (run_ops ops p h)))"
  using assms
proof (induction ops arbitrary: h)
  case (Cons x ops)
  obtain e op where x: "x = (e, op)" by fastforce
  have e: "around_ok e" "same_json env e" using Cons.prems(2) x by auto
  have "settled env (view p (run_op e p op h))"
    using run_op_settled [OF e(1), of p h op] Cons.prems(1) same_json_views [OF e(2)] by simp
  moreover have "plain token \<Longrightarrow> owned env tid host token (view p h) \<Longrightarrow> owned env tid host token (view p (run_op e p op h))"
    using run_op_owned [OF e(1), of token tid host p h op] same_json_views [OF e(2)] by simp
  ultimately show ?case using Cons.IH [of "run_op e p op h"] Cons.prems(2) x by auto
qed simp


text \<open>C18. What is provisioned is stored: the identity that creating or ensuring a tunnel returns is the one that a later program loads, on a
  disk that works then; and nothing of another profile was changed.\<close>

theorem provisioned_is_stored:
  assumes "around_ok env" "settled env (view p h)" "is_valid_profile p"
    and "create env polls p h = (Returned (Inr i), h') \<or> ensure env polls p h = (Returned (Inr i), h')"
    and "same_json env e" "\<And>n. io e n = Io_ok"
  shows "fst (load e p h') = Returned (Inr (Some i)) \<and> (\<forall>q. q = p \<or> h_files h' q = h_files h q)"
proof -
  have "stored env i (view p h')"
  proof (cases "vacant (view p h)")
    case True
    then show ?thesis
      using ends_create_vacant [OF assms(1), of p polls] ends_ensure_vacant [OF assms(1), of p polls] assms(4) by (fastforce simp: ends_def)
  next
    case False
    then obtain tid host token where "plain token" "owned env tid host token (view p h)" using assms(2) by (auto simp: settled_def)
    then show ?thesis
      using ends_create_owned [OF assms(1), of token p tid host polls] ends_ensure [OF assms(1), of token p tid host polls] assms(4)
      by (fastforce simp: ends_def)
  qed
  then have "stored e i (view p h')" using same_json_views [OF assms(5)] by simp
  moreover have "apart p h h'"
    using assms(4) apart_create [of p env polls] apart_ensure [of p env polls] by (auto simp: moves_def dest: spec [of _ h])
  ultimately show ?thesis using load_stored assms(3,6) by (auto simp: apart_def)
qed

text \<open>C19. Requests are repeated within bounds: whatever the server and the network do, a request of the client is sent at most seven times, the same
  each time, with at most eight seconds before each repetition; it is sent again only after an answer or an error for which that is
  allowed (of a request that must not arrive twice: one that shows that it did not arrive); and what is returned is the
  last answer, which is a success.\<close>

theorem requests_repeated_within_bounds:
  assumes "send env repeat q h = (r, h')"
  shows "\<exists>k ds. k \<le> RETRIES \<and> h_sent h' = h_sent h @ replicate (Suc k) q \<and> h_slept h' = h_slept h @ ds \<and> length ds = k \<and>
    (\<forall>d \<in> set ds. d \<le> RETRY_MAX_MS) \<and> (\<forall>j < k. sends_again repeat (server env (h_sent h @ replicate j q) q)) \<and>
    (\<forall>x. r = Returned (Inr x) \<longrightarrow> server env (h_sent h @ replicate k q) q = Inr x \<and> is_success (resp_status x))"
  using send_from_spec [of env repeat q 0 h r h'] assms by (simp add: send_def)

text \<open>C20. A key and a request of different runs may meet: a pending identity is replaced file by file, so that a process that saves a new one over an old
  one of the same tunnel and dies between its key and its \<^verbatim>\<open>pending.json\<close> leaves a pending identity with the new key and the
  old certificate request, which the next program resumes.\<close>

theorem interrupted_reissue_mixes_keys:
  assumes "stored_pending env old (view p h)" "plain (pend_token q)" "pend_token q = pend_token old" "is_valid_profile p"
    and "\<And>n. n \<noteq> h_calls h + 7 \<Longrightarrow> io env n = Io_ok" "io env (h_calls h + 7) = Io_dies 0"
  shows "fst (save_pending env p q h) = Died \<and> stored_pending env (old\<lparr>pend_key := pend_key q\<rparr>) (view p (snd (save_pending env p q h)))"
proof -
  have ok: "io env (h_calls h + j) = Io_ok" if "j < 7" for j using assms(5) that by simp
  obtain h1 where h1: "ensure_dir env p h = (Returned (Inr ()), h1)" "view p h1 = view p h" "h_calls h1 = h_calls h + 1"
    using assms(4) ok [of 0] by (simp add: ensure_dir_def profile_dir_def create_private_dir_def cl_bind_def cl_return_def disk_call_def)
  obtain h2 where h2: "write_secret env p ''token'' (token_line (pend_token q)) h1 = (Returned (Inr ()), h2)"
      "view p h2 = (view p h)(''token'' := Some (token_line (pend_token q)))" "h_calls h2 = h_calls h + 4"
    using write_goes_well [of "''token''" env h1 p "token_line (pend_token q)"] h1 ok [of 1] ok [of 2] ok [of 3] by (auto simp: numeral_eq_Suc)
  obtain h3 where h3: "write_secret env p ''private-key.pem'' (pend_key q) h2 = (Returned (Inr ()), h3)"
      "view p h3 = (view p h)(''token'' := Some (token_line (pend_token q)), ''private-key.pem'' := Some (pend_key q))" "h_calls h3 = h_calls h + 7"
    using write_goes_well [of "''private-key.pem''" env h2 p "pend_key q"] h2 ok [of 4] ok [of 5] ok [of 6] by (auto simp: numeral_eq_Suc)
  have "write_secret env p ''pending.json'' c h3 = (Died, h3\<lparr>h_calls := Suc (h_calls h3)\<rparr>)" for c
    using assms(6) h3(3) by (simp add: write_secret_def cl_bind_def disk_call_def Let_def)
  then have "save_pending env p q h = (Died, h3\<lparr>h_calls := Suc (h_calls h3)\<rparr>)"
    using h1(1) h2(1) h3(1) by (simp add: save_pending_def cl_bind_def)
  then show ?thesis using assms(1-3) h3(2) by (auto simp: stored_pending_def plain_def)
qed


text \<open>Local credentials are removed only when the server has no such tunnel any more: when removing a profile changes the files of an identity that could be
  loaded, a request to delete its tunnel was the last one sent, and it was answered with success or as not found.\<close>

theorem credentials_removed_after_tunnel:
  assumes "stored env i (view p h)" "view p (snd (remove env p h)) \<noteq> view p h"
  shows "\<exists>h1 h2 r. load env p h = (Returned (Inr (Some i)), h1) \<and> api_remove env (ident_token i) (ident_id i) h1 = (r, h2) \<and>
    (r = Returned (Inr ()) \<or> (\<exists>tag m. r = Returned (Inl (Api 404 tag m))))"
proof -
  obtain r1 h1 where l: "load env p h = (r1, h1)" by fastforce
  have v1: "view p h1 = view p h" using unmoved.m_load [of p env p] l by (auto simp: moves_def dest: spec [of _ h])
  have "r1 = Returned (Inr (Some i))"
  proof (cases "\<exists>x. r1 = Returned (Inr x)")
    case True
    then obtain x where x: "r1 = Returned (Inr x)" by blast
    have "case x of None \<Rightarrow> view p h1 ''tunnel.json'' = None | Some j \<Rightarrow> stored env j (view p h1)"
      using ends_load [of "\<lambda>_. True" "\<lambda>_. True" p env, unfolded ends_def, rule_format, of h] l x by (cases x) simp_all
    then show ?thesis using assms(1) v1 x stored_unique by (cases x) (auto simp: stored_def)
  next
    case False
    then have "snd (remove env p h) = h1" using l by (cases r1) (auto simp: remove_def cl_bind_def split: sum.splits)
    then show ?thesis using assms(2) v1 by simp
  qed
  moreover obtain r h2 where a: "api_remove env (ident_token i) (ident_id i) h1 = (r, h2)" by fastforce
  moreover have "view p h2 = view p h1"
    using unmoved.m_api(4) [of p env "ident_token i" "ident_id i"] a by (auto simp: moves_def dest: spec [of _ h1])
  ultimately have "r = Returned (Inr ()) \<or> (\<exists>tag m. r = Returned (Inl (Api 404 tag m)))"
    using assms(2) l v1
    by (auto simp: remove_def cl_bind_def cl_try_def cl_return_def cl_fail_def split: ended.splits sum.splits Error.splits if_splits)
  then show ?thesis using \<open>r1 = _\<close> l a by blast
qed

section \<open>A client\<close>

text \<open>Texts one after the other, each character after a mark, stand for JSON.\<close>

definition esc :: "string \<Rightarrow> string"
  where "esc s = concat (map (\<lambda>c. [CHR ''c'', c]) s) @ ''e''"

fun unesc :: "string \<Rightarrow> (string \<times> string) option" where
  "unesc (m # c # s) = (if m = CHR ''e'' then Some ([], c # s) else map_option (\<lambda>(a, b). (c # a, b)) (unesc s))"
| "unesc [m] = (if m = CHR ''e'' then Some ([], []) else None)"
| "unesc [] = None"

lemma unesc_esc: "unesc (esc s @ r) = Some (s, r)"
proof (induction s)
  case Nil
  show ?case by (cases r) (simp_all add: esc_def)
qed (simp add: esc_def)

definition three :: "string \<Rightarrow> (string \<times> string \<times> string) option"
  where "three s = Option.bind (unesc s) (\<lambda>(a, s). Option.bind (unesc s) (\<lambda>(b, s). Option.bind (unesc s) (\<lambda>(c, s). Some (a, b, c))))"

lemma three_esc: "three (esc a @ esc b @ esc c) = Some (a, b, c)"
  using unesc_esc [of c "[]"] by (simp add: three_def unesc_esc)

definition demo_around :: "(nat \<Rightarrow> Io) \<Rightarrow> Around"
  where "demo_around disk = \<lparr>io = disk, partly = (\<lambda>_ _. False), root_dir = ''/data'', process = 1,
    write_tunnel = (\<lambda>x. esc (tf_id x) @ esc (tf_hostname x) @ esc (tf_expiry x)),
    read_tunnel = (\<lambda>s. case three s of None \<Rightarrow> Inl ''bad'' | Some (a, b, c) \<Rightarrow> Inr \<lparr>tf_id = a, tf_hostname = b, tf_expiry = c\<rparr>),
    write_pending = (\<lambda>x. esc (pf_id x) @ esc (pf_hostname x) @ esc (pf_csr x)),
    read_pending = (\<lambda>s. case three s of None \<Rightarrow> Inl ''bad'' | Some (a, b, c) \<Rightarrow> Inr \<lparr>pf_id = a, pf_hostname = b, pf_csr = c\<rparr>),
    server = (\<lambda>_ _. Inr \<lparr>resp_status = 200, resp_retry = None, resp_body = Inr []\<rparr>), dies_sending = (\<lambda>_. False), pick_delay = (\<lambda>_. 0),
    decode_created = (\<lambda>_. Inr (''abc'', ''abc.example.com'', ''tok'')),
    decode_info = (\<lambda>_. Inr \<lparr>cert_id = ''c'', cert_state = Ready ''C'' ''H'' ''2099''\<rparr>), decode_api_error = (\<lambda>_. None),
    csr_body = (\<lambda>s. s), generate = (\<lambda>_ _. Inr (''K2'', ''R2'')), expired = (\<lambda>_. False)\<rparr>"

lemma demo_around_ok: "around_ok (demo_around disk)"
proof -
  have "plain ''tok''" unfolding plain_def by code_simp
  then show ?thesis by (auto simp: around_ok_def demo_around_def three_esc)
qed

lemma demo_same_json: "same_json (demo_around disk) (demo_around disk')"
  by (simp add: same_json_def demo_around_def)

definition demo_home :: "(string \<Rightarrow> string option) \<Rightarrow> Home"
  where "demo_home files = \<lparr>h_dirs = (\<lambda>_. True), h_files = (\<lambda>_. files), h_calls = 0, h_sent = [], h_slept = [], h_stages = []\<rparr>"

text \<open>A process that dies while it creates a tunnel, and one after it.\<close>

theorem tunnel_never_lost_witness:
  "settled (demo_around (\<lambda>_. Io_ok)) (view ''web'' (run_ops [(demo_around (\<lambda>n. if n = 9 then Io_dies 0 else Io_ok), Op_create 1),
     (demo_around (\<lambda>_. Io_ok), Op_ensure 1)] ''web'' (demo_home (\<lambda>_. None))))"
proof -
  have "settled (demo_around (\<lambda>_. Io_ok)) (view ''web'' (demo_home (\<lambda>_. None)))"
    by (simp add: settled_def vacant_def view_def demo_home_def)
  then show ?thesis
    using tunnel_never_lost [of "demo_around (\<lambda>_. Io_ok)" "''web''" "demo_home (\<lambda>_. None)"
        "[(demo_around (\<lambda>n. if n = 9 then Io_dies 0 else Io_ok), Op_create 1), (demo_around (\<lambda>_. Io_ok), Op_ensure 1)]"]
      demo_around_ok demo_same_json by simp
qed

definition demo_identity :: Identity
  where "demo_identity = \<lparr>ident_id = ''abc'', ident_hostname = ''abc.example.com'', ident_token = ''tok'', ident_key = ''K'',
    ident_certificate = ''C'', ident_chain = ''H'', ident_expiry = ''2099''\<rparr>"

definition demo_files :: "string \<Rightarrow> string option"
  where "demo_files = [''token'' \<mapsto> token_line ''tok'', ''private-key.pem'' \<mapsto> ''K'', ''certificate.pem'' \<mapsto> ''C'', ''chain.pem'' \<mapsto> ''H'',
    ''tunnel.json'' \<mapsto> esc ''abc'' @ esc ''abc.example.com'' @ esc ''2099'']"

theorem provisioned_is_stored_witness:
  "fst (load (demo_around (\<lambda>_. Io_ok)) ''web'' (snd (ensure (demo_around (\<lambda>_. Io_ok)) 1 ''web'' (demo_home demo_files)))) =
     Returned (Inr (Some demo_identity))"
proof -
  let ?e = "demo_around (\<lambda>_. Io_ok)" and ?h = "demo_home demo_files"
  have tok: "trim (token_line ''tok'') = ''tok''" "is_valid_profile ''web''" by code_simp+
  have v: "stored ?e demo_identity (view ''web'' ?h)"
    using tok(1) by (simp add: stored_def view_def demo_home_def demo_files_def demo_identity_def demo_around_def three_esc FILES_def)
  have "owned ?e ''abc'' ''abc.example.com'' ''tok'' (view ''web'' ?h)"
    using tok(1) by (simp add: owned_def view_def demo_home_def demo_files_def demo_around_def three_esc FILES_def)
  then have settled: "settled ?e (view ''web'' ?h)" using tok(1) unfolding settled_def plain_def by blast
  have "fst (load ?e ''web'' ?h) = Returned (Inr (Some demo_identity))" using v tok(2) by (rule load_stored) (simp add: demo_around_def)
  then have "ensure ?e 1 ''web'' ?h = (Returned (Inr demo_identity), snd (ensure ?e 1 ''web'' ?h))"
    by (auto simp: ensure_def cl_bind_def cl_try_def api_certificate_def send_def send_from.simps tried_def demo_around_def json_of_def
        is_success_def cl_return_def demo_identity_def split: prod.splits)
  then show ?thesis
    using provisioned_is_stored [OF demo_around_ok settled tok(2), of 1 demo_identity "snd (ensure ?e 1 ''web'' ?h)" ?e] demo_same_json
    by (auto simp: demo_around_def)
qed

theorem requests_repeated_within_bounds_witness:
  "\<exists>k. k \<le> RETRIES \<and> h_sent (snd (send (demo_around (\<lambda>_. Io_ok)) Once
      \<lparr>req_method = POST, req_path = ''/api/tunnel'', req_token = None, req_body = None\<rparr> (demo_home demo_files))) =
    replicate (Suc k) \<lparr>req_method = POST, req_path = ''/api/tunnel'', req_token = None, req_body = None\<rparr>"
proof -
  let ?q = "\<lparr>req_method = POST, req_path = ''/api/tunnel'', req_token = None, req_body = None\<rparr>"
  let ?s = "send (demo_around (\<lambda>_. Io_ok)) Once ?q (demo_home demo_files)"
  have "?s = (fst ?s, snd ?s)" by simp
  from requests_repeated_within_bounds [OF this] show ?thesis by (auto simp: demo_home_def)
qed

theorem interrupted_reissue_mixes_keys_witness:
  "stored_pending (demo_around (\<lambda>n. if n = 7 then Io_dies 0 else Io_ok))
     \<lparr>pend_id = ''abc'', pend_hostname = ''abc.example.com'', pend_token = ''tok'', pend_key = ''K2'', pend_csr = ''R1''\<rparr>
     (view ''web'' (snd (save_pending (demo_around (\<lambda>n. if n = 7 then Io_dies 0 else Io_ok)) ''web''
       \<lparr>pend_id = ''abc'', pend_hostname = ''abc.example.com'', pend_token = ''tok'', pend_key = ''K2'', pend_csr = ''R2''\<rparr>
       (demo_home [''token'' \<mapsto> token_line ''tok'', ''private-key.pem'' \<mapsto> ''K1'', ''pending.json'' \<mapsto> esc ''abc'' @ esc ''abc.example.com'' @ esc ''R1'']))))"
proof -
  let ?e = "demo_around (\<lambda>n. if n = 7 then Io_dies 0 else Io_ok)"
  let ?h = "demo_home [''token'' \<mapsto> token_line ''tok'', ''private-key.pem'' \<mapsto> ''K1'', ''pending.json'' \<mapsto> esc ''abc'' @ esc ''abc.example.com'' @ esc ''R1'']"
  let ?q = "\<lambda>k r. \<lparr>pend_id = ''abc'', pend_hostname = ''abc.example.com'', pend_token = ''tok'', pend_key = k, pend_csr = r\<rparr>"
  have tok: "trim (token_line ''tok'') = ''tok''" "is_valid_profile ''web''" by code_simp+
  have old: "stored_pending ?e (?q ''K1'' ''R1'') (view ''web'' ?h)"
    using tok(1) by (simp add: stored_pending_def view_def demo_home_def demo_around_def three_esc FILES_def)
  have "stored_pending ?e ((?q ''K1'' ''R1'')\<lparr>pend_key := pend_key (?q ''K2'' ''R2'')\<rparr>) (view ''web'' (snd (save_pending ?e ''web'' (?q ''K2'' ''R2'') ?h)))"
    using interrupted_reissue_mixes_keys [OF old, of "?q ''K2'' ''R2''"] tok by (auto simp: plain_def demo_home_def demo_around_def)
  then show ?thesis by simp
qed

end
