(* ===== verification/Website.thy ===== *)
theory Website
  imports Crypto
begin

text \<open>
  The website's files (\<^verbatim>\<open>opentunnel-server/src/website.rs\<close>): what is kept of each, and what a path is answered with.
  The files come from a directory that is read once at startup; here they are a list of relative names and contents.
\<close>

record Asset =
  asset_body :: bytes
  asset_type :: string
  asset_etag :: string
  immutable :: bool

type_synonym website = "(string \<times> Asset) list"

datatype Resolved = ResolvedFile Asset | ResolvedRedirect string | ResolvedNotFound

definition content_type_of :: "string \<Rightarrow> string"
  where "content_type_of path =
    (case rsplit_once CHR ''.'' path of
       None \<Rightarrow> ''text/plain; charset=utf-8''
     | Some (_, ext) \<Rightarrow>
         (case map_of [(''html'', ''text/html; charset=utf-8''), (''js'', ''text/javascript; charset=utf-8''),
             (''mjs'', ''text/javascript; charset=utf-8''), (''css'', ''text/css; charset=utf-8''), (''json'', ''application/json''),
             (''svg'', ''image/svg+xml''), (''png'', ''image/png''), (''jpg'', ''image/jpeg''), (''jpeg'', ''image/jpeg''),
             (''webp'', ''image/webp''), (''ico'', ''image/x-icon''), (''woff2'', ''font/woff2''), (''woff'', ''font/woff''),
             (''txt'', ''text/plain; charset=utf-8''), (''wasm'', ''application/wasm''), (''mp3'', ''audio/mpeg''),
             (''ogg'', ''audio/ogg''), (''wav'', ''audio/wav'')] ext of
            Some t \<Rightarrow> t
          | None \<Rightarrow> ''application/octet-stream''))"

definition load_asset :: "(bytes \<Rightarrow> bytes) \<Rightarrow> string \<Rightarrow> bytes \<Rightarrow> string \<times> Asset"
  where "load_asset sha256 path body =
    (let name = map (\<lambda>c. if c = CHR 0x5C then CHR ''/'' else c) path in
     (name, \<lparr>asset_body = body, asset_type = content_type_of name,
       asset_etag = [CHR 0x22] @ hex_bytes (take 16 (sha256 body)) @ [CHR 0x22], immutable = strip_prefix name ''assets/'' \<noteq> None\<rparr>))"

definition ends_with :: "string \<Rightarrow> string \<Rightarrow> bool"
  where "ends_with s x \<longleftrightarrow> strip_suffix s x \<noteq> None"

definition resolve :: "website \<Rightarrow> string \<Rightarrow> Resolved"
  where "resolve files path =
    (let path = dropWhile (\<lambda>c. c = CHR ''/'') path in
     if path = [] \<or> ends_with path ''/'' then
       (case map_of files (path @ ''index.html'') of Some a \<Rightarrow> ResolvedFile a | None \<Rightarrow> ResolvedNotFound)
     else case strip_suffix path ''.html'' of
       Some stem \<Rightarrow>
         if map_of files path = None then ResolvedNotFound
         else ResolvedRedirect (case strip_suffix stem ''index'' of
             Some dir \<Rightarrow> if dir = [] \<or> ends_with dir ''/'' then ''/'' @ dir else ''/'' @ stem
           | None \<Rightarrow> ''/'' @ stem)
     | None \<Rightarrow>
         (case map_of files path of
            Some a \<Rightarrow> ResolvedFile a
          | None \<Rightarrow>
              (case map_of files (path @ ''.html'') of
                 Some a \<Rightarrow> ResolvedFile a
               | None \<Rightarrow>
                   if map_of files (path @ ''/index.html'') \<noteq> None then ResolvedRedirect (''/'' @ path @ ''/'')
                   else ResolvedNotFound)))"

section \<open>Redirects end\<close>

text \<open>Pages whose clean name is a name of its own: not empty, not of a directory, and not again with the extension.\<close>

definition pages_named :: "website \<Rightarrow> bool"
  where "pages_named files \<longleftrightarrow>
    (\<forall>(f, _) \<in> set files. \<forall>stem. f = stem @ ''.html'' \<longrightarrow> stem \<noteq> [] \<and> \<not> ends_with stem ''/'' \<and> \<not> ends_with stem ''.html'')"

lemma ends_with_append: "ends_with (s @ x) x"
  by (simp add: ends_with_def strip_suffix_Some)

lemma resolve_index:
  assumes "map_of files (dir @ ''index.html'') = Some a" "dir = [] \<or> ends_with dir ''/''" "dir = [] \<or> hd dir \<noteq> CHR ''/''"
  shows "resolve files (''/'' @ dir) = ResolvedFile a"
  using assms by (cases dir) (auto simp: resolve_def)

lemma resolve_page:
  assumes "map_of files (stem @ ''.html'') = Some a" "stem \<noteq> []" "\<not> ends_with stem ''/''" "\<not> ends_with stem ''.html''" "hd stem \<noteq> CHR ''/''"
  shows "\<exists>b. resolve files (''/'' @ stem) = ResolvedFile b"
proof -
  have "dropWhile (\<lambda>c. c = CHR ''/'') (''/'' @ stem) = stem" using assms(2,5) by (cases stem) auto
  then show ?thesis using assms by (auto simp: resolve_def Let_def ends_with_def split: option.split)
qed

text \<open>A visitor of the website is redirected at most once: where a path is redirected to, there is a page, on a site
  whose pages have clean names.\<close>

theorem website_redirects_end:
  assumes "pages_named files" "resolve files path = ResolvedRedirect location"
  shows "\<exists>a. resolve files location = ResolvedFile a"
proof -
  define p where "p = dropWhile (\<lambda>c. c = CHR ''/'') path"
  have p: "p \<noteq> []" "\<not> ends_with p ''/''" using assms(2) by (auto simp: resolve_def p_def Let_def split: option.splits if_splits)
  have head: "hd p \<noteq> CHR ''/''" using p(1) unfolding p_def by (metis (full_types) hd_dropWhile)
  show ?thesis
  proof (cases "strip_suffix p ''.html''")
    case None
    then have t: "location = ''/'' @ (p @ ''/'')" "map_of files (p @ ''/index.html'') \<noteq> None"
      using assms(2) p by (auto simp: resolve_def p_def [symmetric] Let_def split: option.splits if_splits)
    then obtain a where "map_of files ((p @ ''/'') @ ''index.html'') = Some a" by auto
    then show ?thesis using resolve_index [of files "p @ ''/''" a] t(1) head p(1) by (auto simp: ends_with_append)
  next
    case (Some stem)
    then have stem: "p = stem @ ''.html''" by (simp add: strip_suffix_Some)
    obtain a where a: "map_of files p = Some a" using assms(2) p Some by (auto simp: resolve_def p_def [symmetric] Let_def split: if_splits)
    then have "(p, a) \<in> set files" by (rule map_of_SomeD)
    with assms(1) stem have named: "stem \<noteq> []" "\<not> ends_with stem ''/''" "\<not> ends_with stem ''.html''" unfolding pages_named_def by blast+
    have hs: "hd stem \<noteq> CHR ''/''" using head named(1) stem by simp
    have t: "location = (case strip_suffix stem ''index'' of
        Some dir \<Rightarrow> if dir = [] \<or> ends_with dir ''/'' then ''/'' @ dir else ''/'' @ stem | None \<Rightarrow> ''/'' @ stem)"
      using assms(2) p Some a by (simp add: resolve_def p_def [symmetric] Let_def split: if_splits)
    show ?thesis
    proof (cases "\<exists>dir. strip_suffix stem ''index'' = Some dir \<and> (dir = [] \<or> ends_with dir ''/'')")
      case True
      then obtain dir where dir: "stem = dir @ ''index''" "dir = [] \<or> ends_with dir ''/''" "location = ''/'' @ dir"
        using t by (auto simp: strip_suffix_Some)
      then show ?thesis using resolve_index [of files dir a] a stem hs by (cases dir) auto
    next
      case False
      then have "location = ''/'' @ stem" using t by (auto split: option.splits)
      then show ?thesis using resolve_page [of files stem a] a stem named hs by simp
    qed
  qed
qed

end
