(* ===== verification/Http_Api.thy ===== *)
theory Http_Api
  imports Service_Bridges Website Utf8 "HOL-Library.AList"
begin

text \<open>
  HTTP for the API domain (\<^verbatim>\<open>opentunnel-server/src/http.rs\<close>): which operation a request is for, with what token and body, what it is
  answered with, the upgrade to a bridge, and the website. The service is that of \<open>Service_Api\<close> and \<open>Service_Bridges\<close>. Bodies that
  are JSON are values here; the text of JSON, the key of an upgrade and the endpoints for administration are parameters.
\<close>

section \<open>Requests and replies\<close>

datatype Verb = Verb_get | Verb_head | Verb_post | Verb_delete | Verb_other

text \<open>A request with the headers that are read, each as text (those that are not text count as missing, a content type then as empty), and
  its body unless reading it failed.\<close>

record Req =
  q_verb :: Verb
  q_path :: string
  q_query :: "string option"
  q_authorization :: "string option"
  q_content_type :: "string option"
  q_client :: "string option"
  q_upgrade :: "string option"
  q_protocols :: "string list"
  q_key :: "string option"
  q_if_none_match :: "string option"
  q_source :: IpAddr
  q_body :: "bytes option"

datatype Body = NoBody | TextBody string | JsonBody json | RawBody bytes

text \<open>A reply, and the tunnel whose bridge is served on the connection after it.\<close>

record HttpReply =
  r_status :: nat
  r_headers :: "(string \<times> string) list"
  r_body :: Body
  r_bridge :: "string option"

record Web =
  parse_json :: "bytes \<Rightarrow> json option"
  accept_key :: "string \<Rightarrow> string"
  base64url :: "bytes \<Rightarrow> string"
  openapi :: string

definition MAX_BODY :: nat where "MAX_BODY = 1024 * 1024"
definition MAX_ADMIN_BODY :: nat where "MAX_ADMIN_BODY = 64 * 1024 * 1024"
definition SUBPROTOCOLS :: "string list" where "SUBPROTOCOLS = [''opentunnel'']"
definition BACKLOG_RETRY_MS :: nat where "BACKLOG_RETRY_MS = 30000"

definition response :: "nat \<Rightarrow> HttpReply"
  where "response code = \<lparr>r_status = code, r_headers = [], r_body = NoBody, r_bridge = None\<rparr>"

definition header :: "string \<Rightarrow> string \<Rightarrow> HttpReply \<Rightarrow> HttpReply"
  where "header name v r = r\<lparr>r_headers := AList.update name v (r_headers r)\<rparr>"

definition json_response :: "nat \<Rightarrow> json \<Rightarrow> HttpReply"
  where "json_response code v = header ''content-type'' ''application/json'' ((response code)\<lparr>r_body := JsonBody v\<rparr>)"

definition text_response :: "nat \<Rightarrow> string \<Rightarrow> HttpReply"
  where "text_response code t = header ''content-type'' ''text/plain;charset=UTF-8'' ((response code)\<lparr>r_body := TextBody t\<rparr>)"

definition ordered :: "nat \<Rightarrow> (string \<times> json) list \<Rightarrow> HttpReply"
  where "ordered code fs = json_response code (JObject fs)"

definition unauthorized :: HttpReply
  where "unauthorized = ordered 401 [(''_tag'', JString ''UnauthorizedError''), (''message'', JString ''Invalid bearer token'')]"

definition tunnel_not_found :: "string \<Rightarrow> HttpReply"
  where "tunnel_not_found tid = ordered 404 [(''_tag'', JString ''TunnelNotFoundError''), (''tunnelID'', JString tid),
    (''message'', JString ''Tunnel not found'')]"

definition div_ceil :: "nat \<Rightarrow> nat \<Rightarrow> nat"
  where "div_ceil a b = (a + b - 1) div b"

definition retry_after_header :: "HttpReply \<Rightarrow> nat \<Rightarrow> HttpReply"
  where "retry_after_header r ms = header ''retry-after'' (show_nat (max (div_ceil ms 1000) 1)) r"

definition rate_limited :: "string \<Rightarrow> nat \<Rightarrow> HttpReply"
  where "rate_limited m ms =
    (let minutes = max (div_ceil ms 60000) 1;
         when = (if minutes = 1 then ''a minute'' else show_nat minutes @ '' minutes'')
     in retry_after_header (ordered 429 [(''_tag'', JString ''RateLimitedError''), (''message'', JString (m @ ''; try again in '' @ when))]) ms)"

definition unavailable :: "string \<Rightarrow> HttpReply"
  where "unavailable m = ordered 503 [(''_tag'', JString ''ServiceUnavailableError''), (''message'', JString m)]"

definition backlogged_reply :: HttpReply
  where "backlogged_reply = retry_after_header (unavailable ''certificate issuance is busy; try again later'') BACKLOG_RETRY_MS"

section \<open>Values of the API as JSON\<close>

definition TunnelState_json :: "TunnelState \<Rightarrow> json"
  where "TunnelState_json t = JString (case t of Offline \<Rightarrow> ''offline'' | Online \<Rightarrow> ''online'')"

definition TunnelView_json :: "TunnelView \<Rightarrow> json"
  where "TunnelView_json v = JObject ([(''id'', JString (view_id v)), (''hostname'', JString (view_hostname v)),
    (''state'', TunnelState_json (view_state v))] @
    (case view_certificate_id v of None \<Rightarrow> [] | Some c \<Rightarrow> [(''certificateID'', JString c)]))"

fun CertificateState_json :: "CertificateState \<Rightarrow> json" where
  "CertificateState_json (Challenge t k) = JObject [(''type'', JString ''challenge''), (''token'', JString t), (''key'', JString k)]"
| "CertificateState_json Issuing = JObject [(''type'', JString ''issuing'')]"
| "CertificateState_json (Ready c ch e) = JObject [(''type'', JString ''ready''), (''certificate'', JString c), (''chain'', JString ch),
    (''expiry'', JString e)]"
| "CertificateState_json (Failed r) = JObject [(''type'', JString ''failed''), (''reason'', JString r)]"

definition CertificateInfo_json :: "CertificateInfo \<Rightarrow> json"
  where "CertificateInfo_json c = JObject [(''id'', JString (cert_id c)), (''state'', CertificateState_json (cert_state c))]"

section \<open>Reading requests\<close>

definition bearer :: "Req \<Rightarrow> string"
  where "bearer q =
    (let v = (case q_authorization q of Some v \<Rightarrow> v | None \<Rightarrow> []) in
     if 7 \<le> length v \<and> eq_ignore_ascii_case (take 7 v) ''bearer '' then drop 7 v else [])"

text \<open>\<^verbatim>\<open>decodeURIComponent\<close>, keeping the input when the result is no text.\<close>

fun percent_bytes :: "string \<Rightarrow> string" where
  "percent_bytes [] = []"
| "percent_bytes (c # s) =
     (if c = CHR ''%'' then
        (case s of
           h # l # rest \<Rightarrow>
             (case (to_digit 16 h, to_digit 16 l) of
                (Some a, Some b) \<Rightarrow> char_of (a * 16 + b) # percent_bytes rest
              | _ \<Rightarrow> c # percent_bytes s)
         | _ \<Rightarrow> c # percent_bytes s)
      else c # percent_bytes s)"

definition percent_decode :: "string \<Rightarrow> string"
  where "percent_decode s = (case from_utf8 (as_bytes (percent_bytes s)) of Some t \<Rightarrow> t | None \<Rightarrow> s)"

definition payload_json :: "Web \<Rightarrow> Req \<Rightarrow> HttpReply + json"
  where "payload_json w q =
    (let mime = (case q_content_type q of None \<Rightarrow> None | Some t \<Rightarrow> Some (trim (hd (split_on CHR '';'' t)))) in
     case mime of
       Some m \<Rightarrow>
         if \<not> eq_ignore_ascii_case m ''application/json''
         then Err (header ''content-type'' ''text/plain'' (text_response 415 (''Unsupported content-type: '' @ m)))
         else (case q_body q of
             None \<Rightarrow> Err (response 400)
           | Some b \<Rightarrow> if MAX_BODY < length b then Err (response 400) else ok_or (parse_json w b) (response 400))
     | None \<Rightarrow>
         (case q_body q of
             None \<Rightarrow> Err (response 400)
           | Some b \<Rightarrow> if MAX_BODY < length b then Err (response 400) else ok_or (parse_json w b) (response 400)))"

text \<open>The id in the path of a bridge.\<close>

definition connect_path :: "string \<Rightarrow> string option"
  where "connect_path path = do {
    rest \<leftarrow> strip_prefix path ''/api/tunnel/'';
    tid \<leftarrow> strip_suffix rest ''/connect'';
    if tid \<noteq> [] \<and> CHR ''/'' \<notin> set tid then Some tid else None }"

section \<open>Operations\<close>

text \<open>A reply from the outcome of an operation of the service.\<close>

definition reply_with :: "Env \<Rightarrow> ('a \<Rightarrow> HttpReply) \<Rightarrow> 'a sv \<Rightarrow> Service \<Rightarrow> HttpReply \<times> Service"
  where "reply_with env f m s = (case m s of (Inl e, s) \<Rightarrow> (unavailable (error_text env e), s) | (Inr a, s) \<Rightarrow> (f a, s))"

definition info_reply :: "string \<Rightarrow> TunnelView Lookup \<Rightarrow> HttpReply"
  where "info_reply tid x =
    (case x of Found v \<Rightarrow> json_response 200 (TunnelView_json v) | Unauthorized \<Rightarrow> unauthorized | NotFound \<Rightarrow> tunnel_not_found tid)"

definition remove_reply :: "string \<Rightarrow> unit Lookup \<Rightarrow> HttpReply"
  where "remove_reply tid x = (case x of Found _ \<Rightarrow> response 204 | Unauthorized \<Rightarrow> unauthorized | NotFound \<Rightarrow> tunnel_not_found tid)"

definition certificate_reply :: "string \<Rightarrow> CertificateLookup \<Rightarrow> HttpReply"
  where "certificate_reply tid x =
    (case x of
       Certificate c \<Rightarrow> json_response 200 (CertificateInfo_json c)
     | CertUnauthorized \<Rightarrow> unauthorized
     | NoCertificate \<Rightarrow> ordered 404 [(''_tag'', JString ''CertificateNotFoundError''), (''tunnelID'', JString tid),
         (''message'', JString ''Certificate not found'')]
     | CertNotFound \<Rightarrow> tunnel_not_found tid)"

definition bind_reply :: "Env \<Rightarrow> string \<Rightarrow> Bind \<Rightarrow> HttpReply"
  where "bind_reply env tid x =
    (case x of
       Bound c \<Rightarrow> json_response 202 (CertificateInfo_json c)
     | BindUnauthorized \<Rightarrow> unauthorized
     | BindNotFound \<Rightarrow> tunnel_not_found tid
     | InvalidRequest m \<Rightarrow> ordered 400 [(''_tag'', JString ''InvalidRequestError''), (''message'', JString m)]
     | InvalidHostname provided expected \<Rightarrow> ordered 400 [(''_tag'', JString ''InvalidHostnameError''), (''provided'', JString provided),
         (''expected'', JString expected), (''message'', JString ''CSR hostname does not match tunnel hostname'')]
     | InProgress \<Rightarrow> ordered 409 [(''_tag'', JString ''CertificateInProgressError''), (''tunnelID'', JString tid),
         (''message'', JString ''Certificate issuance is already in progress'')]
     | BindUnavailable e \<Rightarrow> unavailable (error_text env e)
     | RateLimited ms \<Rightarrow> rate_limited ''Too many new certificates requested for this tunnel'' ms
     | Backlogged \<Rightarrow> backlogged_reply)"

definition http_bind :: "Web \<Rightarrow> Env \<Rightarrow> nat \<Rightarrow> string \<Rightarrow> Req \<Rightarrow> Service \<Rightarrow> HttpReply \<times> Service"
  where "http_bind w env now tid q s =
    (case payload_json w q of
       Inl r \<Rightarrow> (r, s)
     | Inr body \<Rightarrow>
         (case Option.bind (json_get body ''csr'') json_as_str of
            None \<Rightarrow> (response 400, s)
          | Some csr \<Rightarrow> reply_with env (bind_reply env tid) (bind_certificate env now tid (bearer q) csr) s))"

definition create_verdict :: "Env \<Rightarrow> nat \<Rightarrow> Limits \<Rightarrow> IpAddr \<Rightarrow> Verdict sv"
  where "create_verdict env now l client = (\<lambda>s.
    case Limits_create (rate_world env) l client (int now) (sv_rates s) of
      (t, Inl e) \<Rightarrow> (Err (Limit_failed e), s\<lparr>sv_rates := t\<rparr>)
    | (t, Inr v) \<Rightarrow> (Ok v, s\<lparr>sv_rates := t\<rparr>))"

text \<open>The limits on a new tunnel: a reply that refuses it, or nothing.\<close>

definition create_refused :: "Env \<Rightarrow> nat \<Rightarrow> Req \<Rightarrow> HttpReply option sv"
  where "create_refused env now q =
    sv_bind (sv_get sv_limits) (\<lambda>limits.
      case limits of
        None \<Rightarrow> sv_return None
      | Some l \<Rightarrow>
          sv_bind (backlog_check env now l) (\<lambda>backlogged.
            if backlogged then sv_return (Some backlogged_reply)
            else sv_bind (create_verdict env now l (TrustedProxies_client (proxies l) (q_source q) (q_client q))) (\<lambda>v.
              sv_return (case v of
                Allowed \<Rightarrow> None
              | Limited ms \<Rightarrow> Some (rate_limited ''Too many tunnels created from this address'' ms)))))"

text \<open>A new id and a new token, from random bytes.\<close>

definition new_credentials :: "Web \<Rightarrow> Env \<Rightarrow> (string \<times> string) sv"
  where "new_credentials w env = (\<lambda>s.
    case slug (take 12 (random env (uuids s))) of
      None \<Rightarrow> (Err Panic, s)
    | Some tid \<Rightarrow> (Ok (tid, ''rly_'' @ base64url w (take 32 (random env (Suc (uuids s))))), s\<lparr>uuids := Suc (Suc (uuids s))\<rparr>))"

definition created_reply :: "string \<Rightarrow> string \<Rightarrow> TunnelView option \<Rightarrow> HttpReply"
  where "created_reply tid token x =
    (case x of
       Some v \<Rightarrow> json_response 201 (JObject [(''tunnel'', TunnelView_json v), (''token'', JString token)])
     | None \<Rightarrow> ordered 409 [(''_tag'', JString ''HostnameUnavailableError''), (''name'', JString tid),
         (''message'', JString ''Hostname is unavailable'')])"

definition http_create :: "Web \<Rightarrow> Env \<Rightarrow> nat \<Rightarrow> Req \<Rightarrow> Service \<Rightarrow> HttpReply \<times> Service"
  where "http_create w env now q s =
    (case payload_json w q of
       Inl r \<Rightarrow> (r, s)
     | Inr body \<Rightarrow>
         (case body of
            JObject _ \<Rightarrow>
              (case json_get body ''name'' of
                 Some (JString _) \<Rightarrow>
                   (ordered 400 [(''_tag'', JString ''InvalidRequestError''),
                      (''message'', JString ''Custom tunnel names are not supported; omit name to get a random hostname'')], s)
               | x \<Rightarrow>
                   if x \<noteq> None \<and> x \<noteq> Some JNull then (response 400, s)
                   else reply_with env (\<lambda>r. r)
                     (sv_bind (create_refused env now q) (\<lambda>refused.
                        case refused of
                          Some r \<Rightarrow> sv_return r
                        | None \<Rightarrow>
                            sv_bind (new_credentials w env) (\<lambda>(tid, token).
                            sv_bind (create env now tid (hash_token (sha256 env) token)) (\<lambda>x.
                            sv_return (created_reply tid token x))))) s)
          | _ \<Rightarrow> (response 400, s)))"

definition api :: "Web \<Rightarrow> Env \<Rightarrow> nat \<Rightarrow> (string \<Rightarrow> bool) \<Rightarrow> Req \<Rightarrow> Service \<Rightarrow> HttpReply \<times> Service"
  where "api w env now elsewhere q s =
    (let get = (q_verb q = Verb_get \<or> q_verb q = Verb_head) in
     if q_path q = ''/openapi.json'' then
       (if get then header ''content-type'' ''application/json'' ((response 200)\<lparr>r_body := TextBody (openapi w)\<rparr>) else response 404, s)
     else
       case map percent_decode (filter (\<lambda>x. x \<noteq> []) (split_on CHR ''/'' (q_path q))) of
         [a, b] \<Rightarrow>
           if a = ''api'' \<and> b = ''tunnel'' \<and> q_verb q = Verb_post then http_create w env now q s else (response 404, s)
       | [a, b, tid] \<Rightarrow>
           if a = ''api'' \<and> b = ''tunnel'' \<and> get then reply_with env (info_reply tid) (info env now elsewhere tid (bearer q)) s
           else if a = ''api'' \<and> b = ''tunnel'' \<and> q_verb q = Verb_delete
           then reply_with env (remove_reply tid) (remove_tunnel env now tid (bearer q)) s
           else (response 404, s)
       | [a, b, tid, c] \<Rightarrow>
           if a = ''api'' \<and> b = ''tunnel'' \<and> c = ''certificate'' \<and> q_verb q = Verb_post then http_bind w env now tid q s
           else if a = ''api'' \<and> b = ''tunnel'' \<and> c = ''certificate'' \<and> get
           then reply_with env (certificate_reply tid) (certificate_lookup env now tid (bearer q)) s
           else if a = ''api'' \<and> b = ''tunnel'' \<and> c = ''connect'' \<and> get then (json_response 200 (JBool True), s)
           else (response 404, s)
       | _ \<Rightarrow> (response 404, s))"

section \<open>The upgrade to a bridge\<close>

definition upgraded :: "Web \<Rightarrow> string \<Rightarrow> Req \<Rightarrow> HttpReply"
  where "upgraded w tid q =
    (if \<not> (case q_upgrade q of Some v \<Rightarrow> eq_ignore_ascii_case v ''websocket'' | None \<Rightarrow> False)
     then text_response 426 ''Expected WebSocket upgrade''
     else
       let offered = map trim (concat (map (split_on CHR '','') (q_protocols q))) in
       case find (\<lambda>p. List.member offered p) SUBPROTOCOLS of
         None \<Rightarrow> text_response 426 ''Expected opentunnel WebSocket subprotocol''
       | Some protocol \<Rightarrow>
           (case q_key q of
              None \<Rightarrow> text_response 400 ''Missing Sec-WebSocket-Key''
            | Some key \<Rightarrow>
                (header ''sec-websocket-protocol'' protocol (header ''sec-websocket-accept'' (accept_key w key)
                  (header ''connection'' ''Upgrade'' (header ''upgrade'' ''websocket'' (response 101)))))\<lparr>r_bridge := Some tid\<rparr>))"

definition upgrade :: "Web \<Rightarrow> Env \<Rightarrow> nat \<Rightarrow> string \<Rightarrow> Req \<Rightarrow> Service \<Rightarrow> HttpReply \<times> Service"
  where "upgrade w env now tid q s =
    reply_with env (\<lambda>found. if found then upgraded w tid q else text_response 404 ''Tunnel not found'') (exists_tunnel env now tid) s"

section \<open>The website\<close>

text \<open>A redirect goes to a path made from that of the request, whose characters a header may have.\<close>

definition static_file :: "website \<Rightarrow> Req \<Rightarrow> HttpReply"
  where "static_file files q =
    (if q_verb q \<noteq> Verb_get \<and> q_verb q \<noteq> Verb_head then text_response 404 ''Not found''
     else case resolve files (q_path q) of
       ResolvedFile a \<Rightarrow>
         let same = (case q_if_none_match q of Some v \<Rightarrow> list_ex (\<lambda>tag. trim tag = asset_etag a) (split_on CHR '','' v) | None \<Rightarrow> False);
             r = (if same then response 304 else header ''content-type'' (asset_type a) ((response 200)\<lparr>r_body := RawBody (asset_body a)\<rparr>))
         in header ''cache-control'' (if immutable a then ''public, max-age=31536000, immutable'' else ''public, max-age=0, must-revalidate'')
              (header ''etag'' (asset_etag a) r)
     | ResolvedRedirect to \<Rightarrow>
         header ''location'' (case q_query q of Some x \<Rightarrow> to @ ''?'' @ x | None \<Rightarrow> to) (response 307)
     | ResolvedNotFound \<Rightarrow> text_response 404 ''Not found'')"

section \<open>All of it\<close>

record Admin =
  authorized :: "string \<Rightarrow> bool"
  admin_handle :: "string \<Rightarrow> bytes \<Rightarrow> Service \<Rightarrow> HttpReply \<times> Service"

definition admin_request :: "Admin \<Rightarrow> string \<Rightarrow> Req \<Rightarrow> Service \<Rightarrow> HttpReply \<times> Service"
  where "admin_request a rest q s =
    (if q_verb q \<noteq> Verb_post \<or> \<not> authorized a (bearer q) then (response 404, s)
     else
       let rest = (case q_query q of Some x \<Rightarrow> rest @ ''?'' @ x | None \<Rightarrow> rest) in
       case q_body q of
         None \<Rightarrow> (response 400, s)
       | Some b \<Rightarrow> if MAX_ADMIN_BODY < length b then (response 400, s) else admin_handle a rest b s)"

definition handle :: "Web \<Rightarrow> Env \<Rightarrow> nat \<Rightarrow> (string \<Rightarrow> bool) \<Rightarrow> website \<Rightarrow> Admin option \<Rightarrow> Req \<Rightarrow> Service \<Rightarrow> HttpReply \<times> Service"
  where "handle w env now elsewhere files admin q s =
    (if q_path q = ''/health'' then (json_response 200 (JObject [(''ok'', JBool True)]), s)
     else case (if q_verb q = Verb_get then connect_path (q_path q) else None) of
       Some tid \<Rightarrow> upgrade w env now (percent_decode tid) q s
     | None \<Rightarrow>
         (case (strip_prefix (q_path q) ''/api/admin/'', admin) of
            (Some rest, Some a) \<Rightarrow> admin_request a rest q s
          | _ \<Rightarrow>
              if strip_prefix (q_path q) ''/api/'' \<noteq> None \<or> q_path q = ''/openapi.json'' then api w env now elsewhere q s
              else (static_file files q, s)))"

text \<open>While the server drains, a connection of HTTP/1 serves one request.\<close>

definition serve_request :: "bool \<Rightarrow> bool \<Rightarrow> HttpReply \<Rightarrow> HttpReply"
  where "serve_request http1 drains r = (if http1 \<and> drains \<and> r_status r \<noteq> 101 then header ''connection'' ''close'' r else r)"

definition redirect_reply :: "string \<Rightarrow> string \<Rightarrow> string option \<Rightarrow> HttpReply"
  where "redirect_reply dn path path_and_query =
    (if path = ''/health'' then json_response 200 (JObject [(''ok'', JBool True)])
     else header ''location'' (''https://'' @ dn @ (case path_and_query of Some p \<Rightarrow> p | None \<Rightarrow> ''/'')) (response 301))"

end
