(* ===== verification/Http_Properties.thy ===== *)
theory Http_Properties
  imports Http_Api Service_Properties
begin

text \<open>
  What the HTTP interface promises: nothing of a tunnel is shown or changed without its token, and the requests that are made for a tunnel reach the
  operation of that tunnel.
\<close>

section \<open>Operations and their tokens\<close>

text \<open>The state in which an operation finds the record of its tunnel, and whether the token is that of the record.\<close>

definition found_at :: "Env \<Rightarrow> nat \<Rightarrow> string \<Rightarrow> Service \<Rightarrow> Service"
  where "found_at env now tid s = snd (lock_fresh env now tid s)"

definition token_fits :: "Env \<Rightarrow> nat \<Rightarrow> string \<Rightarrow> string \<Rightarrow> Service \<Rightarrow> bool"
  where "token_fits env now tid token s \<longleftrightarrow> (\<exists>s1 r. lock_fresh env now tid s = (Inr (), s1) \<and> live_record (entry_at tid s1) = Some r \<and>
    token_matches (sha256 env) token (token_hash r))"

text \<open>An operation behind the token: without it, it answers with one of two refusals or an error of the database, and changes nothing but
  what is cached of the record.\<close>

definition guarded :: "Env \<Rightarrow> nat \<Rightarrow> string \<Rightarrow> string \<Rightarrow> ('a \<Rightarrow> HttpReply) \<Rightarrow> 'a sv \<Rightarrow> Service \<Rightarrow> bool"
  where "guarded env now tid token f m s \<longleftrightarrow>
    token_fits env now tid token s \<or>
    (r_status (fst (reply_with env f m s)) \<in> {401, 404, 503} \<and> snd (reply_with env f m s) = found_at env now tid s)"

lemmas reply_defs = unauthorized_def tunnel_not_found_def unavailable_def ordered_def json_response_def header_def response_def

lemma guardedI:
  assumes "\<And>e s1. lock_fresh env now tid s = (Inl e, s1) \<Longrightarrow> m s = (Inl e, s1)"
    and "\<And>s1. lock_fresh env now tid s = (Inr (), s1) \<Longrightarrow> live_record (entry_at tid s1) = None \<Longrightarrow>
      \<exists>x. m s = (Inr x, s1) \<and> r_status (f x) = 404"
    and "\<And>s1 r. lock_fresh env now tid s = (Inr (), s1) \<Longrightarrow> live_record (entry_at tid s1) = Some r \<Longrightarrow>
      \<not> token_matches (sha256 env) token (token_hash r) \<Longrightarrow> \<exists>x. m s = (Inr x, s1) \<and> r_status (f x) = 401"
  shows "guarded env now tid token f m s"
proof -
  obtain x s1 where l: "lock_fresh env now tid s = (x, s1)" by fastforce
  show ?thesis
  proof (cases x)
    case (Inl e)
    then show ?thesis using assms(1) l by (auto simp: guarded_def reply_with_def found_at_def reply_defs)
  next
    case (Inr u)
    then have l': "lock_fresh env now tid s = (Inr (), s1)" using l by simp
    show ?thesis
    proof (cases "live_record (entry_at tid s1)")
      case None
      then show ?thesis using assms(2) [OF l' None] l' by (auto simp: guarded_def reply_with_def found_at_def)
    next
      case (Some r)
      show ?thesis
      proof (cases "token_matches (sha256 env) token (token_hash r)")
        case True
        then show ?thesis using Some l' by (auto simp: guarded_def token_fits_def)
      next
        case False
        then show ?thesis using assms(3) [OF l' Some False] l' by (auto simp: guarded_def reply_with_def found_at_def)
      qed
    qed
  qed
qed

lemma guarded_info: "guarded env now tid token (info_reply tid) (info env now elsewhere tid token) s"
  by (rule guardedI) (auto simp: info_def sv_bind_def sv_get_def Let_def info_reply_def reply_defs)

lemma guarded_certificate: "guarded env now tid token (certificate_reply tid) (certificate_lookup env now tid token) s"
  by (rule guardedI) (auto simp: certificate_lookup_def sv_bind_def sv_get_def Let_def certificate_reply_def reply_defs)

lemma guarded_remove: "guarded env now tid token (remove_reply tid) (remove_tunnel env now tid token) s"
  by (rule guardedI) (auto simp: remove_tunnel_def sv_bind_def sv_get_def sv_return_def Let_def remove_reply_def reply_defs)

lemma guarded_bind: "guarded env now tid token (bind_reply env tid) (bind_certificate env now tid token csr) s"
  by (rule guardedI) (auto simp: bind_certificate_def sv_bind_def sv_get_def sv_return_def Let_def bind_reply_def reply_defs)

section \<open>Paths\<close>

definition segments :: "string \<Rightarrow> string list"
  where "segments path = map percent_decode (filter (\<lambda>x. x \<noteq> []) (split_on CHR ''/'' path))"

lemma percent_bytes_plain: "CHR ''%'' \<notin> set s \<Longrightarrow> percent_bytes s = s"
  by (induction s) auto

lemma percent_decode_ascii:
  assumes "CHR ''%'' \<notin> set s" "\<And>c. c \<in> set s \<Longrightarrow> code_of c < 128"
  shows "percent_decode s = s"
proof -
  have "is_utf8 (as_bytes s)" using assms(2) by (intro is_utf8_ascii) (simp add: as_bytes_def list_all_iff)
  then show ?thesis using assms(1) by (simp add: percent_decode_def percent_bytes_plain from_utf8_def)
qed

lemma percent_decode_words [simp]:
  "percent_decode ''api'' = ''api''" "percent_decode ''tunnel'' = ''tunnel''" "percent_decode ''certificate'' = ''certificate''"
  "percent_decode ''connect'' = ''connect''" "percent_decode ''admin'' = ''admin''"
  by code_simp+

lemma label_char_code: "label_char c \<or> c = CHR ''-'' \<Longrightarrow> code_of c < 128 \<and> c \<noteq> CHR ''/'' \<and> c \<noteq> CHR ''%''"
  by (auto simp: label_char_def is_ascii_lowercase_def is_ascii_digit_def)

lemma label_path:
  assumes "is_label tid"
  shows "CHR ''/'' \<notin> set tid" "percent_decode tid = tid" "tid \<noteq> []"
proof -
  have c: "label_char c \<or> c = CHR ''-''" if "c \<in> set tid" for c using assms that by (auto simp: is_label_iff list_all_iff)
  show "CHR ''/'' \<notin> set tid" using c label_char_code by blast
  show "percent_decode tid = tid" by (rule percent_decode_ascii) (use c label_char_code in blast)+
  show "tid \<noteq> []" using assms by (rule is_label_nonempty)
qed

lemma split_path [simp]:
  "split_on CHR ''/'' (CHR ''/'' # s) = [] # split_on CHR ''/'' s"
  using split_on_append_sep [of "CHR ''/''" "[]" s] by simp

lemma segments_api: "segments (''/api/'' @ s) = ''api'' # segments s"
  using split_on_append_sep [of "CHR ''/''" "''api''" s] by (simp add: segments_def)

lemma segments_word: "CHR ''/'' \<notin> set a \<Longrightarrow> a \<noteq> [] \<Longrightarrow> segments (a @ CHR ''/'' # s) = percent_decode a # segments s"
  by (simp add: segments_def split_on_append_sep)

lemma segments_last: "CHR ''/'' \<notin> set a \<Longrightarrow> a \<noteq> [] \<Longrightarrow> segments a = [percent_decode a]"
  by (simp add: segments_def split_on_no_sep)

lemma segments_tunnel: "segments (''/api/tunnel/'' @ s) = ''api'' # ''tunnel'' # segments s"
  using segments_api [of "''tunnel/'' @ s"] segments_word [of "''tunnel''" s] by simp

lemma segments_connect: "connect_path path = Some tid \<Longrightarrow> segments path = [''api'', ''tunnel'', percent_decode tid, ''connect'']"
proof -
  assume c: "connect_path path = Some tid"
  then have "path = ''/api/tunnel/'' @ (tid @ CHR ''/'' # ''connect'')" "tid \<noteq> []" "CHR ''/'' \<notin> set tid"
    by (auto simp: connect_path_def strip_prefix_Some strip_suffix_Some bind_eq_Some_conv split: if_splits)
  then show ?thesis using segments_tunnel segments_word [of tid "''connect''"] segments_last [of "''connect''"] by simp
qed

text \<open>Requests below \<^verbatim>\<open>/api/\<close> that are not for a bridge or for administration are requests of the API.\<close>

lemma handle_api:
  assumes "q_path q = ''/api/'' @ rest" "segments (q_path q) = ''api'' # ''tunnel'' # more_segments" "\<nexists>tid. more_segments = [tid, ''connect'']"
  shows "handle w env now elsewhere files admin q = api w env now elsewhere q"
proof -
  have "connect_path (q_path q) = None"
    using assms(2,3) segments_connect [of "q_path q"] by (cases "connect_path (q_path q)") auto
  moreover have "strip_prefix (q_path q) ''/api/admin/'' = None"
  proof (rule ccontr)
    assume "strip_prefix (q_path q) ''/api/admin/'' \<noteq> None"
    then obtain x where "q_path q = ''/api/'' @ (''admin'' @ CHR ''/'' # x)" by (auto simp: strip_prefix_Some)
    then have "segments (q_path q) = ''api'' # ''admin'' # segments x" using segments_api segments_word [of "''admin''" x] by simp
    then show False using assms(2) by simp
  qed
  moreover have "strip_prefix (q_path q) ''/api/'' \<noteq> None" "q_path q \<noteq> ''/health''" using assms(1) by (simp_all add: strip_prefix_Some)
  ultimately show ?thesis by (simp add: handle_def fun_eq_iff)
qed

lemma payload_refused: "payload_json w q = Inl r \<Longrightarrow> 400 \<le> r_status r"
  by (auto simp: payload_json_def Let_def ok_or_def text_response_def reply_defs split: option.splits if_splits)

lemma guarded_refusal:
  assumes "guarded env now tid token f m s" "\<not> token_fits env now tid token s" "reply_with env f m s = (r, s')"
  shows "400 \<le> r_status r \<and> s' = found_at env now tid s"
  using assms by (auto simp: guarded_def)

lemma bind_refusal:
  assumes "\<not> token_fits env now tid (bearer q) s" "http_bind w env now tid q s = (r, s')"
  shows "400 \<le> r_status r \<and> (s' = s \<or> s' = found_at env now tid s)"
proof (cases "payload_json w q")
  case (Inl x)
  then show ?thesis using assms(2) payload_refused by (auto simp: http_bind_def)
next
  case (Inr body)
  show ?thesis
  proof (cases "Option.bind (json_get body ''csr'') json_as_str")
    case None
    then show ?thesis using assms(2) Inr by (auto simp: http_bind_def response_def)
  next
    case (Some csr)
    then have "reply_with env (bind_reply env tid) (bind_certificate env now tid (bearer q) csr) s = (r, s')"
      using assms(2) Inr by (simp add: http_bind_def)
    then show ?thesis using guarded_refusal [OF guarded_bind assms(1)] by blast
  qed
qed

section \<open>Properties\<close>

text \<open>C9. Nothing about a tunnel without its token: a request for a tunnel or its certificate, whatever its method, path, headers and body, that does not
  carry the token whose hash the live record of that tunnel has, is answered with an error, and leaves the service as it was or as
  looking the record up leaves it.\<close>

theorem api_needs_token:
  assumes "q_path q = ''/api/'' @ rest" "segments (q_path q) = [''api'', ''tunnel'', tid] \<or> segments (q_path q) = [''api'', ''tunnel'', tid, ''certificate'']"
    and "\<not> token_fits env now tid (bearer q) s" "handle w env now elsewhere files admin q s = (r, s')"
  shows "400 \<le> r_status r \<and> (s' = s \<or> s' = found_at env now tid s)"
proof -
  have api: "api w env now elsewhere q s = (r, s')"
    using handle_api [OF assms(1), of "tid # tl (tl (tl (segments (q_path q))))" w env now elsewhere files admin] assms(2,4) by auto
  have path: "q_path q \<noteq> ''/openapi.json''" using assms(1) by simp
  note refusal = guarded_refusal [OF guarded_info assms(3)] guarded_refusal [OF guarded_remove assms(3)]
    guarded_refusal [OF guarded_certificate assms(3)] bind_refusal [OF assms(3)]
  from assms(2) show ?thesis
  proof
    assume "segments (q_path q) = [''api'', ''tunnel'', tid]"
    then show ?thesis
      using api path refusal(1) [of elsewhere r s'] refusal(2) [of r s']
      by (auto simp: api_def Let_def segments_def [symmetric] response_def split: if_splits)
  next
    assume "segments (q_path q) = [''api'', ''tunnel'', tid, ''certificate'']"
    then show ?thesis
      using api path refusal(3) [of r s'] refusal(4) [of w r s']
      by (auto simp: api_def Let_def segments_def [symmetric] response_def split: if_splits)
  qed
qed

text \<open>A request for the tunnel of the example that carries another token.\<close>

definition example_request :: Req
  where "example_request = \<lparr>q_verb = Verb_get, q_path = ''/api/tunnel/t'', q_query = None, q_authorization = Some ''Bearer z'', q_content_type = None,
    q_client = None, q_upgrade = None, q_protocols = [], q_key = None, q_if_none_match = None, q_source = IpV4 0, q_body = Some []\<rparr>"

definition example_web :: Web
  where "example_web = \<lparr>parse_json = (\<lambda>_. Some (JObject [(''csr'', JString ''R'')])), accept_key = (\<lambda>k. k), base64url = (\<lambda>_. []), openapi = []\<rparr>"

theorem api_needs_token_witness:
  "\<exists>r s. handle example_web example_bind_env 0 (\<lambda>_. False) [] None example_request example_bind_service = (r, s) \<and> 400 \<le> r_status r"
proof -
  let ?s = "entry ''t'' example_bind_service"
  have e: "entry_at ''t'' example_bind_service = EntryState_default\<lparr>loaded_entry := True, e_record := Some example_bound\<rparr>"
    "\<not> clustered example_bind_service"
    by (simp_all add: example_bind_service_def entry_at_def example_service_def)
  then have l: "lock_fresh example_bind_env 0 ''t'' example_bind_service = (Ok (), ?s)"
    by (simp add: lock_fresh_def sv_defs lock_loaded [unfolded sv_defs])
  have r: "live_record (entry_at ''t'' ?s) = Some example_bound"
    by (simp add: e live_record_def option_filter_def example_bound_def example_record_def is_deleted_def)
  have b: "bearer example_request = ''z''" by (simp add: bearer_def example_request_def) code_simp
  have "\<not> token_matches (sha256 example_bind_env) ''z'' (token_hash example_bound)"
    by (simp add: token_matches_iff example_bind_env_def example_env_def example_bound_def example_record_def
        hash_token_def hex_bytes_def) code_simp
  then have "\<not> token_fits example_bind_env 0 ''t'' (bearer example_request) example_bind_service"
    using l r b by (simp add: token_fits_def)
  moreover have "segments (q_path example_request) = [''api'', ''tunnel'', ''t'']" by (simp add: example_request_def) code_simp
  moreover have "q_path example_request = ''/api/'' @ ''tunnel/t''" by (simp add: example_request_def)
  ultimately show ?thesis using api_needs_token [where q = example_request and rest = "''tunnel/t''"] by (metis surj_pair)
qed

end
