(* ===== verification/Api_Exchange.thy ===== *)
theory Api_Exchange
  imports Http_Properties Provision_Properties
begin

text \<open>
  The client's API calls (\<open>Client_Provision\<close>) against the server's HTTP interface (\<open>Http_Api\<close>): the requests of the client as they arrive,
  the replies of the server as the client reads them, with the values of \<^verbatim>\<open>opentunnel/src/protocol/api.rs\<close> in between. HTTP and the
  texts of JSON values are parameters: assumed is only that HTTP carries requests of plain characters and replies with JSON unchanged, and that a text
  is read as the value it was written for.
\<close>

section \<open>Reading the values of the API\<close>

definition json_str :: "string \<Rightarrow> json \<Rightarrow> string option"
  where "json_str key v = Option.bind (json_get v key) json_as_str"

record TunnelInfo =
  ti_id :: string
  ti_hostname :: string
  ti_state :: TunnelState
  ti_certificate_id :: "string option"

definition TunnelState_of_json :: "json \<Rightarrow> TunnelState option"
  where "TunnelState_of_json v = Option.bind (json_as_str v) (map_of [(''offline'', Offline), (''online'', Online)])"

text \<open>The field of the certificate may be missing; its name is that of the field of the source in camel case.\<close>

definition TunnelInfo_of_json :: "json \<Rightarrow> TunnelInfo option"
  where "TunnelInfo_of_json v = do {
    tid \<leftarrow> json_str ''id'' v;
    host \<leftarrow> json_str ''hostname'' v;
    st \<leftarrow> Option.bind (json_get v ''state'') TunnelState_of_json;
    cid \<leftarrow> (case json_get v ''certificateId'' of
        None \<Rightarrow> Some None
      | Some JNull \<Rightarrow> Some None
      | Some x \<Rightarrow> map_option Some (json_as_str x));
    Some \<lparr>ti_id = tid, ti_hostname = host, ti_state = st, ti_certificate_id = cid\<rparr> }"

definition CreateTunnelResponse_of_json :: "json \<Rightarrow> (TunnelInfo \<times> string) option"
  where "CreateTunnelResponse_of_json v = do {
    t \<leftarrow> Option.bind (json_get v ''tunnel'') TunnelInfo_of_json;
    token \<leftarrow> json_str ''token'' v;
    Some (t, token) }"

definition CertificateState_of_json :: "json \<Rightarrow> CertificateState option"
  where "CertificateState_of_json v = do {
    t \<leftarrow> json_str ''type'' v;
    if t = ''challenge'' then do { a \<leftarrow> json_str ''token'' v; b \<leftarrow> json_str ''key'' v; Some (Challenge a b) }
    else if t = ''issuing'' then Some Issuing
    else if t = ''ready'' then do { a \<leftarrow> json_str ''certificate'' v; b \<leftarrow> json_str ''chain'' v; c \<leftarrow> json_str ''expiry'' v; Some (Ready a b c) }
    else if t = ''failed'' then do { a \<leftarrow> json_str ''reason'' v; Some (CertificateState.Failed a) }
    else None }"

definition CertificateInfo_of_json :: "json \<Rightarrow> CertificateInfo option"
  where "CertificateInfo_of_json v = do {
    cid \<leftarrow> json_str ''id'' v;
    st \<leftarrow> Option.bind (json_get v ''state'') CertificateState_of_json;
    Some \<lparr>cert_id = cid, cert_state = st\<rparr> }"

text \<open>The tag of an error, and its message or nothing.\<close>

definition ApiError_of_json :: "json \<Rightarrow> (string \<times> string) option"
  where "ApiError_of_json v = do {
    tag \<leftarrow> json_str ''_tag'' v;
    m \<leftarrow> (case json_get v ''message'' of None \<Rightarrow> Some [] | Some x \<Rightarrow> json_as_str x);
    Some (tag, m) }"

section \<open>On the wire\<close>

text \<open>Paths and tokens that HTTP libraries neither encode nor trim nor refuse: the paths of tunnels whose ids are labels and the tokens the
  server makes are such.\<close>

definition plain_path :: "string \<Rightarrow> bool"
  where "plain_path = list_all (\<lambda>c. is_ascii_alphanumeric c \<or> c \<in> {CHR ''/'', CHR ''-''})"

definition visible :: "string \<Rightarrow> bool"
  where "visible t \<longleftrightarrow> t \<noteq> [] \<and> list_all (\<lambda>c. 33 \<le> (of_char c :: nat) \<and> (of_char c :: nat) \<le> 126) t"

fun verb_of :: "Method \<Rightarrow> Verb" where
  "verb_of GET = Verb_get"
| "verb_of HEAD = Verb_head"
| "verb_of POST = Verb_post"
| "verb_of DELETE = Verb_delete"

text \<open>What is assumed of HTTP on the way to the server: \<open>http\<close> gives the request that arrives.\<close>

definition carries :: "(Request \<Rightarrow> Req) \<Rightarrow> bool"
  where "carries http \<longleftrightarrow> (\<forall>q. plain_path (req_path q) \<and> (\<forall>t. req_token q = Some t \<longrightarrow> visible t) \<longrightarrow>
    q_verb (http q) = verb_of (req_method q) \<and> q_path (http q) = req_path q \<and>
    q_authorization (http q) = map_option (\<lambda>t. ''Bearer '' @ t) (req_token q) \<and>
    (\<forall>b. req_body q = Some b \<longrightarrow> q_content_type (http q) = Some ''application/json'' \<and> q_body (http q) = Some (as_bytes b)))"

text \<open>And on the way back, with \<open>print\<close> for the texts of JSON values.\<close>

definition returns :: "(json \<Rightarrow> string) \<Rightarrow> (HttpReply \<Rightarrow> Response) \<Rightarrow> bool"
  where "returns print back \<longleftrightarrow> (\<forall>r v. r_body r = JsonBody v \<longrightarrow>
    resp_status (back r) = r_status r \<and> resp_retry (back r) = map_of (r_headers r) ''retry-after'' \<and> resp_body (back r) = Inr (print v))"

text \<open>The client's readers, on the texts of objects without repeated fields and of certificates.\<close>

definition reads :: "Around \<Rightarrow> (json \<Rightarrow> string) \<Rightarrow> bool"
  where "reads around print \<longleftrightarrow>
    (\<forall>fs. distinct (map fst fs) \<longrightarrow> decode_api_error around (print (JObject fs)) = ApiError_of_json (JObject fs)) \<and>
    (\<forall>c x. CertificateInfo_of_json (CertificateInfo_json c) = Some x \<longrightarrow> decode_info around (print (CertificateInfo_json c)) = Inr x)"

text \<open>The server's reader, on the body of a request to bind a certificate.\<close>

definition csr_arrives :: "Web \<Rightarrow> Around \<Rightarrow> string \<Rightarrow> bool"
  where "csr_arrives w around csr \<longleftrightarrow> parse_json w (as_bytes (csr_body around csr)) = Some (JObject [(''csr'', JString csr)]) \<and>
    length (csr_body around csr) \<le> MAX_BODY"

lemma path_certificate: "is_label tid \<Longrightarrow> segments (tunnel_path tid ''/certificate'') = [''api'', ''tunnel'', tid, ''certificate'']"
  using segments_tunnel [of "tid @ CHR ''/'' # ''certificate''"] segments_word [of tid "''certificate''"] segments_last [of "''certificate''"] label_path [of tid]
  by (simp add: tunnel_path_def)

lemma path_tunnel: "is_label tid \<Longrightarrow> segments (tunnel_path tid []) = [''api'', ''tunnel'', tid]"
  using segments_tunnel [of tid] segments_last [of tid] label_path [of tid] by (simp add: tunnel_path_def)

lemma mime_json: "eq_ignore_ascii_case (trim (hd (split_on CHR '';'' ''application/json''))) ''application/json''"
  by code_simp

lemma CertificateState_read: "CertificateState_of_json (CertificateState_json st) = Some st"
  by (cases st) (simp_all add: CertificateState_of_json_def json_str_def)

lemma CertificateInfo_read: "CertificateInfo_of_json (CertificateInfo_json c) = Some c"
  by (simp add: CertificateInfo_of_json_def CertificateInfo_json_def json_str_def CertificateState_read)

lemma TunnelState_read: "TunnelState_of_json (TunnelState_json st) = Some st"
  by (cases st) (simp_all add: TunnelState_of_json_def TunnelState_json_def)

lemma TunnelInfo_read: "TunnelInfo_of_json (TunnelView_json v) =
    Some \<lparr>ti_id = view_id v, ti_hostname = view_hostname v, ti_state = view_state v, ti_certificate_id = None\<rparr>"
  by (cases "view_certificate_id v") (simp_all add: TunnelInfo_of_json_def TunnelView_json_def json_str_def TunnelState_read)


section \<open>The requests of the client\<close>

definition requests_of :: "'a cl \<Rightarrow> Home \<Rightarrow> Request list"
  where "requests_of m h = drop (length (h_sent h)) (h_sent (snd (m h)))"

text \<open>A computation that sends only such requests.\<close>

definition asks :: "(Request \<Rightarrow> bool) \<Rightarrow> 'a cl \<Rightarrow> bool"
  where "asks P m \<longleftrightarrow> (\<forall>h. \<exists>new. h_sent (snd (m h)) = h_sent h @ new \<and> list_all P new)"

named_theorems asks_intros

lemma asks_same: "(\<And>h. h_sent (snd (m h)) = h_sent h) \<Longrightarrow> asks P m"
  by (simp add: asks_def)

lemma asks_return [asks_intros]: "asks P (cl_return a)" "asks P (cl_fail e)" "asks P (progress st)"
  by (simp_all add: asks_same cl_return_def cl_fail_def progress_def)

lemma asks_bind [asks_intros]:
  assumes "asks P m" "\<And>a. asks P (f a)"
  shows "asks P (cl_bind m f)"
  unfolding asks_def
proof
  fix h
  obtain r h1 where m: "m h = (r, h1)" by fastforce
  obtain new where new: "h_sent h1 = h_sent h @ new" "list_all P new" using assms(1) m by (auto simp: asks_def dest: spec [of _ h])
  have "\<exists>more_sent. h_sent (snd (f a h1)) = h_sent h1 @ more_sent \<and> list_all P more_sent" for a using assms(2) by (simp add: asks_def)
  then show "\<exists>new. h_sent (snd (cl_bind m f h)) = h_sent h @ new \<and> list_all P new"
    using m new by (cases r) (auto simp: cl_bind_def split: sum.splits, metis append_assoc list_all_append)
qed

lemma asks_try [asks_intros]: "asks P m \<Longrightarrow> asks P (cl_try m)"
  by (auto simp: asks_def cl_try_def split: prod.splits ended.splits) (metis snd_conv)+

lemma asks_disk [asks_intros]:
  "(\<And>h. h_sent (go h) = h_sent h) \<Longrightarrow> (\<And>k h. h_sent (broken k h) = h_sent h) \<Longrightarrow> asks P (disk_call env context go broken)"
  by (rule asks_same) (auto simp: disk_call_def Let_def split: Io.splits)

lemma asks_json_of [asks_intros]: "asks P (json_of parse r)"
  by (simp add: json_of_def asks_intros split: sum.split)

lemma send_sends: "\<exists>k \<le> RETRIES. h_sent (snd (send env repeat q h)) = h_sent h @ replicate (Suc k) q"
  using send_from_spec [of env repeat q 0 h "fst (send env repeat q h)" "snd (send env repeat q h)"] by (auto simp: send_def)

lemma asks_send [asks_intros]: "P q \<Longrightarrow> asks P (send env repeat q)"
  unfolding asks_def using send_sends [of env repeat q] by (metis list_all_length length_replicate nth_replicate)

lemma asks_save [asks_intros]: "asks P (save env profile i)"
  by (auto simp: save_def write_secret_def ensure_dir_def profile_dir_def create_private_dir_def Let_def set_file_def
      intro!: asks_intros split: option.split)

lemma requests_of_asks: "asks P m \<Longrightarrow> list_all P (requests_of m h)"
  by (auto simp: asks_def requests_of_def dest!: spec [of _ h])

lemma requests_of_send:
  "(\<And>r h. h_sent (snd (f r h)) = h_sent h) \<Longrightarrow> requests_of (cl_bind (send env repeat q) f) h \<noteq> []"
  using send_sends [of env repeat q h] by (auto simp: requests_of_def cl_bind_def split: prod.splits ended.splits sum.splits)

section \<open>The requests at the server\<close>

definition bind_request :: "Around \<Rightarrow> string \<Rightarrow> string \<Rightarrow> string \<Rightarrow> Request"
  where "bind_request around token tid csr = \<lparr>req_method = POST, req_path = tunnel_path tid ''/certificate'', req_token = Some token,
    req_body = Some (csr_body around csr)\<rparr>"

definition lookup_request :: "string \<Rightarrow> string \<Rightarrow> Request"
  where "lookup_request token tid = \<lparr>req_method = GET, req_path = tunnel_path tid ''/certificate'', req_token = Some token, req_body = None\<rparr>"

definition remove_request :: "string \<Rightarrow> string \<Rightarrow> Request"
  where "remove_request token tid = \<lparr>req_method = DELETE, req_path = tunnel_path tid [], req_token = Some token, req_body = None\<rparr>"

lemma plain_tunnel_path: "is_label tid \<Longrightarrow> plain_path x \<Longrightarrow> plain_path (tunnel_path tid x)"
proof -
  have "plain_path ''/api/tunnel/''" by code_simp
  moreover have "plain_path tid" if "is_label tid"
    using that by (auto simp: plain_path_def is_label_iff label_char_def is_ascii_alphanumeric_def elim: list.pred_mono_strong)
  ultimately show "is_label tid \<Longrightarrow> plain_path x \<Longrightarrow> plain_path (tunnel_path tid x)"
    unfolding tunnel_path_def plain_path_def list_all_append by blast
qed

lemma carried:
  assumes "carries http" "is_label tid" "visible token" "x = [] \<or> x = ''/certificate''"
    and "req_path q = tunnel_path tid x" "req_token q = Some token"
  shows "q_verb (http q) = verb_of (req_method q)" "q_path (http q) = tunnel_path tid x" "bearer (http q) = token"
    and "req_body q = Some b \<Longrightarrow> q_content_type (http q) = Some ''application/json'' \<and> q_body (http q) = Some (as_bytes b)"
proof -
  have "plain_path x" using assms(4) by (elim disjE) (simp_all, code_simp+)
  then have "plain_path (req_path q) \<and> (\<forall>t. req_token q = Some t \<longrightarrow> visible t)" using assms plain_tunnel_path by simp
  note c = assms(1) [unfolded carries_def, rule_format, OF this]
  have "eq_ignore_ascii_case ''Bearer '' ''bearer ''" by code_simp
  then show "bearer (http q) = token" using c assms(6) by (simp add: bearer_def)
  show "q_verb (http q) = verb_of (req_method q)" "q_path (http q) = tunnel_path tid x"
    "req_body q = Some b \<Longrightarrow> q_content_type (http q) = Some ''application/json'' \<and> q_body (http q) = Some (as_bytes b)"
    using c assms(5) by simp_all
qed

lemma tunnel_path_not_openapi: "tunnel_path tid x \<noteq> ''/openapi.json''"
  by (simp add: tunnel_path_def)

lemma handle_tunnel:
  assumes "is_label tid" "x = [] \<or> x = ''/certificate''" "q_path q = tunnel_path tid x"
  shows "handle w env now elsewhere files admin q = api w env now elsewhere q"
  using assms path_certificate [OF assms(1)] path_tunnel [OF assms(1)]
  by (intro handle_api [where rest = "''tunnel/'' @ tid @ x" and more_segments = "tl (tl (segments (tunnel_path tid x)))"])
    (auto simp: tunnel_path_def)

lemma bind_handled:
  assumes "carries http" "is_label tid" "visible token" "csr_arrives w around csr"
  shows "handle w env now elsewhere files admin (http (bind_request around token tid csr)) s =
    reply_with env (bind_reply env tid) (bind_certificate env now tid token csr) s"
proof -
  note c = carried [OF assms(1-3), of "''/certificate''" "bind_request around token tid csr"]
  have payload: "payload_json w (http (bind_request around token tid csr)) = Inr (JObject [(''csr'', JString csr)])"
    using c(4) [of "csr_body around csr"] assms(4) mime_json
    by (simp add: payload_json_def bind_request_def ok_or_def as_bytes_def csr_arrives_def)
  show ?thesis
    using c(1-3) payload path_certificate [OF assms(2), unfolded segments_def]
    by (simp add: handle_tunnel [OF assms(2), where x = "''/certificate''"] api_def tunnel_path_not_openapi Let_def http_bind_def
        bind_request_def)
qed

lemma lookup_handled:
  assumes "carries http" "is_label tid" "visible token"
  shows "handle w env now elsewhere files admin (http (lookup_request token tid)) s =
    reply_with env (certificate_reply tid) (certificate_lookup env now tid token) s"
  using carried [OF assms, of "''/certificate''" "lookup_request token tid"] path_certificate [OF assms(2), unfolded segments_def]
  by (simp add: handle_tunnel [OF assms(2), where x = "''/certificate''"] api_def tunnel_path_not_openapi Let_def lookup_request_def)

lemma remove_handled:
  assumes "carries http" "is_label tid" "visible token"
  shows "handle w env now elsewhere files admin (http (remove_request token tid)) s =
    reply_with env (remove_reply tid) (remove_tunnel env now tid token) s"
  using carried [OF assms, of "[]" "remove_request token tid"] path_tunnel [OF assms(2), unfolded segments_def]
  by (simp add: handle_tunnel [OF assms(2), where x = "[]"] api_def tunnel_path_not_openapi Let_def remove_request_def)

lemma asks_bind_certificate: "asks ((=) (bind_request around token tid csr)) (api_bind_certificate around token tid csr)"
  by (simp add: api_bind_certificate_def bind_request_def asks_intros)

lemma asks_certificate: "asks ((=) (lookup_request token tid)) (api_certificate around token tid)"
  by (simp add: api_certificate_def lookup_request_def asks_intros)

lemma asks_remove: "asks ((=) (remove_request token tid)) (api_remove around token tid)"
  by (simp add: api_remove_def remove_request_def asks_intros)

lemma asks_more: "asks P m \<Longrightarrow> (\<And>q. P q \<Longrightarrow> Q q) \<Longrightarrow> asks Q m"
  unfolding asks_def by (metis list.pred_mono_strong)

lemma asks_await:
  assumes "P (lookup_request (pend_token p) (pend_id p))"
  shows "asks P (await_certificate around polls p)"
proof (induction polls)
  case (Suc polls)
  have "asks P (api_certificate around (pend_token p) (pend_id p))" by (rule asks_more [OF asks_certificate]) (use assms in auto)
  then show ?case using Suc by (auto intro!: asks_intros split: CertificateState.split)
qed (simp add: asks_same)

lemma asks_complete:
  assumes "P (bind_request around (pend_token p) (pend_id p) (pend_csr p))" "P (lookup_request (pend_token p) (pend_id p))"
  shows "asks P (complete_provision around polls profile p)"
proof -
  have "asks P (api_bind_certificate around (pend_token p) (pend_id p) (pend_csr p))"
    by (rule asks_more [OF asks_bind_certificate]) (use assms in auto)
  then show ?thesis
    unfolding complete_provision_def
    by (auto intro!: asks_intros asks_await assms(2) split: sum.split Error.split)
qed

lemma json_of_sent: "h_sent (snd (json_of parse r h)) = h_sent h"
  by (simp add: json_of_def cl_return_def cl_fail_def split: sum.split)

section \<open>Properties\<close>

text \<open>C10. The requests of the client reach the operation of its tunnel: when HTTP carries plain requests unchanged, the id of the tunnel is a label and its token of
  visible characters, binding a certificate request (whose text the server reads as what it was written for), asking for the certificate and removing the
  tunnel each send requests, and every request they send is, at the server, that operation on that tunnel with the client's token (and its certificate
  request), whatever the state of the server. All that completing a provision sends is one of the first two.\<close>

theorem client_requests_reach_service:
  assumes "carries http" "is_label tid" "visible token" "csr_arrives w around csr"
    and "pend_id p = tid" "pend_token p = token" "pend_csr p = csr"
  shows "requests_of (api_bind_certificate around token tid csr) h \<noteq> [] \<and>
    (\<forall>q \<in> set (requests_of (api_bind_certificate around token tid csr) h). handle w env now elsewhere files admin (http q) s =
      reply_with env (bind_reply env tid) (bind_certificate env now tid token csr) s) \<and>
    requests_of (api_certificate around token tid) h \<noteq> [] \<and>
    (\<forall>q \<in> set (requests_of (api_certificate around token tid) h). handle w env now elsewhere files admin (http q) s =
      reply_with env (certificate_reply tid) (certificate_lookup env now tid token) s) \<and>
    requests_of (api_remove around token tid) h \<noteq> [] \<and>
    (\<forall>q \<in> set (requests_of (api_remove around token tid) h). handle w env now elsewhere files admin (http q) s =
      reply_with env (remove_reply tid) (remove_tunnel env now tid token) s) \<and>
    (\<forall>q \<in> set (requests_of (complete_provision around polls profile p) h). handle w env now elsewhere files admin (http q) s \<in>
      {reply_with env (bind_reply env tid) (bind_certificate env now tid token csr) s,
       reply_with env (certificate_reply tid) (certificate_lookup env now tid token) s})"
proof (intro conjI)
  show "requests_of (api_bind_certificate around token tid csr) h \<noteq> []" "requests_of (api_certificate around token tid) h \<noteq> []"
    "requests_of (api_remove around token tid) h \<noteq> []"
    unfolding api_bind_certificate_def api_certificate_def api_remove_def
    by (rule requests_of_send, simp add: json_of_sent cl_return_def)+
  note handled = bind_handled [OF assms(1-4)] lookup_handled [OF assms(1-3)] remove_handled [OF assms(1-3)]
  show "\<forall>q \<in> set (requests_of (api_bind_certificate around token tid csr) h). handle w env now elsewhere files admin (http q) s =
      reply_with env (bind_reply env tid) (bind_certificate env now tid token csr) s"
    using requests_of_asks [OF asks_bind_certificate, of around token tid csr h] handled by (auto simp: list_all_iff)
  show "\<forall>q \<in> set (requests_of (api_certificate around token tid) h). handle w env now elsewhere files admin (http q) s =
      reply_with env (certificate_reply tid) (certificate_lookup env now tid token) s"
    using requests_of_asks [OF asks_certificate, of token tid around h] handled by (auto simp: list_all_iff)
  show "\<forall>q \<in> set (requests_of (api_remove around token tid) h). handle w env now elsewhere files admin (http q) s =
      reply_with env (remove_reply tid) (remove_tunnel env now tid token) s"
    using requests_of_asks [OF asks_remove, of token tid around h] handled by (auto simp: list_all_iff)
  have "asks (\<lambda>q. handle w env now elsewhere files admin (http q) s \<in>
      {reply_with env (bind_reply env tid) (bind_certificate env now tid token csr) s,
       reply_with env (certificate_reply tid) (certificate_lookup env now tid token) s}) (complete_provision around polls profile p)"
    by (rule asks_complete) (use handled assms(5-7) in simp_all)
  then show "\<forall>q \<in> set (requests_of (complete_provision around polls profile p) h). handle w env now elsewhere files admin (http q) s \<in>
      {reply_with env (bind_reply env tid) (bind_certificate env now tid token csr) s,
       reply_with env (certificate_reply tid) (certificate_lookup env now tid token) s}"
    using requests_of_asks by (auto simp: list_all_iff)
qed

section \<open>The answers at the client\<close>

text \<open>Sending, when every request is answered: until an answer that is a success, or not to be followed by another try, or the last.\<close>

lemma send_from_answered:
  assumes "\<And>sent. \<not> dies_sending env sent" "\<And>sent. server env sent q = Inr (f sent)" "n \<le> RETRIES"
  shows "\<exists>k h'. n + k \<le> RETRIES \<and> h_sent h' = h_sent h @ replicate (Suc k) q \<and>
    (\<forall>j < k. sends_again repeat (Inr (f (h_sent h @ replicate j q)))) \<and>
    (sends_again repeat (Inr (f (h_sent h @ replicate k q))) \<longrightarrow> n + k = RETRIES) \<and>
    send_from env repeat q n h = (Returned (let x = f (h_sent h @ replicate k q) in
      if is_success (resp_status x) then Ok x else Err (error_response env x)), h')"
  using assms
proof (induction env repeat q n h rule: send_from.induct)
  case (1 env repeat q n h)
  note IH = "1.IH" and dies = "1.prems"(1) and answer = "1.prems"(2) and n = "1.prems"(3)
  let ?x = "f (h_sent h)"
  let ?h = "h\<lparr>h_sent := h_sent h @ [q]\<rparr>"
  show ?case
  proof (cases "sends_again repeat (Inr ?x) \<and> n < RETRIES")
    case False
    then have "send_from env repeat q n h = (Returned (if is_success (resp_status ?x) then Ok ?x else Err (error_response env ?x)), ?h)"
      using dies answer by (subst send_from.simps) (auto simp: Let_def tried_def sends_again_def)
    then show ?thesis using False n by (intro exI [of _ 0] exI [of _ ?h]) auto
  next
    case True
    then have t: "tried env repeat n (server env (h_sent h) q) = Try_again (resp_retry ?x)"
      using answer by (simp add: tried_def sends_again_def)
    obtain lo hi where d: "retry_delay_ms n (resp_retry ?x) = (lo, hi)" by fastforce
    let ?h1 = "?h\<lparr>h_slept := h_slept ?h @ [lo + pick_delay env (length (h_sent h)) mod (hi - lo + 1)]\<rparr>"
    have go: "send_from env repeat q n h = send_from env repeat q (Suc n) ?h1"
      using t d dies by (subst send_from.simps) (simp add: Let_def)
    obtain k h' where k: "Suc n + k \<le> RETRIES" "h_sent h' = h_sent ?h1 @ replicate (Suc k) q"
      "\<forall>j < k. sends_again repeat (Inr (f (h_sent ?h1 @ replicate j q)))"
      "sends_again repeat (Inr (f (h_sent ?h1 @ replicate k q))) \<longrightarrow> Suc n + k = RETRIES"
      "send_from env repeat q (Suc n) ?h1 = (Returned (let x = f (h_sent ?h1 @ replicate k q) in
        if is_success (resp_status x) then Ok x else Err (error_response env x)), h')"
      using IH [OF refl refl dies t d [symmetric]] dies answer True by auto
    then show ?thesis
      unfolding go using True by (intro exI [of _ "Suc k"] exI [of _ h']) (simp add: all_less_Suc0)
  qed
qed

lemma send_stages:
  "send_from env repeat q n (h\<lparr>h_stages := st\<rparr>) = map_prod id (h_stages_update (\<lambda>_. st)) (send_from env repeat q n h)"
proof (induction env repeat q n h rule: send_from.induct)
  case (1 env repeat q n h)
  show ?case
    apply (subst (1 2) send_from.simps)
    apply (auto simp: Let_def split: Tried.split prod.split)
    subgoal for after lo hi using "1.IH" [OF refl refl _ _ sym, of after lo hi] by (cases h) (simp add: id_def)
    done
qed

lemma bind_stages:
  "api_bind_certificate env token tid csr (h\<lparr>h_stages := st\<rparr>) =
    map_prod id (h_stages_update (\<lambda>_. st)) (api_bind_certificate env token tid csr h)"
  by (auto simp: api_bind_certificate_def cl_bind_def send_def send_stages json_of_def cl_return_def cl_fail_def map_prod_def
      split: prod.splits ended.splits sum.splits)

text \<open>What became of a bind, as the operation of the service returns it: refused for now, or one after which the client waits.\<close>

definition refused_for_now :: "service_error + Bind \<Rightarrow> bool"
  where "refused_for_now x \<longleftrightarrow>
    (case x of Inl _ \<Rightarrow> True | Inr b \<Rightarrow> (\<exists>e. b = BindUnavailable e) \<or> (\<exists>ms. b = RateLimited ms) \<or> b = Backlogged)"

definition under_way :: "service_error + Bind \<Rightarrow> bool"
  where "under_way x \<longleftrightarrow> (\<exists>c. x = Ok (Bound c)) \<or> x = Ok InProgress"

definition bind_answer :: "Env \<Rightarrow> string \<Rightarrow> service_error + Bind \<Rightarrow> HttpReply"
  where "bind_answer env tid x = (case x of Inl e \<Rightarrow> unavailable (error_text env e) | Inr b \<Rightarrow> bind_reply env tid b)"

lemma reply_with_answer: "fst (reply_with env (bind_reply env tid) m s) = bind_answer env tid (fst (m s))"
  by (auto simp: reply_with_def bind_answer_def split: prod.split sum.split)

lemmas bind_replies = bind_answer_def bind_reply_def reply_defs rate_limited_def backlogged_reply_def retry_after_header_def Let_def

lemma bind_answer_json: "\<exists>v. r_body (bind_answer env tid x) = JsonBody v"
  by (auto simp: bind_replies split: sum.split Bind.split)

lemma bind_answer_success: "is_success (r_status (bind_answer env tid x)) \<longleftrightarrow> (\<exists>c. x = Ok (Bound c))"
  by (auto simp: bind_replies is_success_def split: sum.split Bind.split)

lemma bind_answer_again:
  "returns print back \<Longrightarrow> sends_again Idempotent (Inr (back (bind_answer env tid x))) \<longleftrightarrow> refused_for_now x"
  using bind_answer_json [of env tid x]
  by (auto simp: returns_def sends_again_def refused_for_now_def bind_replies is_success_def retryable_status_def
      split: sum.split Bind.split)

text \<open>What the client makes of the answer.\<close>

definition understood :: "service_error + Bind \<Rightarrow> Error + CertificateInfo \<Rightarrow> bool"
  where "understood x r \<longleftrightarrow>
    (case x of
       Inr (Bound c) \<Rightarrow> r = Ok c
     | Inr InProgress \<Rightarrow> (\<exists>m. r = Err (Api 409 ''CertificateInProgressError'' m))
     | _ \<Rightarrow> (\<exists>code tag m. r = Err (Api code tag m) \<and> 400 \<le> code \<and> tag \<noteq> ''CertificateInProgressError''))"

lemma error_read:
  assumes "returns print back" "reads around print" "r_body r = JsonBody (JObject fs)" "distinct (map fst fs)"
    and "ApiError_of_json (JObject fs) = Some (tag, m)"
  shows "error_response around (back r) = Api (r_status r) tag m"
proof -
  have "resp_status (back r) = r_status r" "resp_body (back r) = Inr (print (JObject fs))"
    using assms(1,3) by (auto simp: returns_def)
  moreover have "decode_api_error around (print (JObject fs)) = Some (tag, m)" using assms(2,4,5) by (auto simp: reads_def)
  ultimately show ?thesis by (simp add: error_response_def)
qed

lemma answer_understood:
  assumes "returns print back" "reads around print"
  shows "\<exists>r. understood x r \<and> (\<forall>h. (let a = back (bind_answer env tid x) in
    if is_success (resp_status a) then json_of (decode_info around) a h else (Returned (Err (error_response around a)), h)) = (Returned r, h))"
proof (cases "\<exists>c. x = Ok (Bound c)")
  case True
  then obtain c where x: "x = Ok (Bound c)" by blast
  let ?a = "back (bind_answer env tid x)"
  have "r_body (bind_answer env tid x) = JsonBody (CertificateInfo_json c)" "r_status (bind_answer env tid x) = 202"
    using x by (simp_all add: bind_replies)
  then have "resp_body ?a = Inr (print (CertificateInfo_json c))" "is_success (resp_status ?a)"
    using assms(1) by (auto simp: returns_def is_success_def)
  moreover have "decode_info around (print (CertificateInfo_json c)) = Inr c" using assms(2) CertificateInfo_read by (auto simp: reads_def)
  ultimately show ?thesis using x by (intro exI [of _ "Ok c"]) (simp add: understood_def json_of_def cl_return_def)
next
  case False
  let ?a = "back (bind_answer env tid x)"
  obtain fs tag m where fs: "r_body (bind_answer env tid x) = JsonBody (JObject fs)" "distinct (map fst fs)"
      "ApiError_of_json (JObject fs) = Some (tag, m)" "400 \<le> r_status (bind_answer env tid x)"
      "tag = ''CertificateInProgressError'' \<longleftrightarrow> x = Ok InProgress" "x = Ok InProgress \<Longrightarrow> r_status (bind_answer env tid x) = 409"
    using False that
    by (cases x; cases "projr x") (simp_all add: bind_replies ApiError_of_json_def json_str_def)
  have "resp_status ?a = r_status (bind_answer env tid x)" using assms(1) fs(1) by (auto simp: returns_def)
  then have "\<not> is_success (resp_status ?a)" using bind_answer_success False by simp
  moreover have "understood x (Err (Api (r_status (bind_answer env tid x)) tag m))"
    using False fs(4-6) by (auto simp: understood_def split: sum.split Bind.split)
  ultimately show ?thesis
    using error_read [OF assms fs(1-3)] by (intro exI [of _ "Err (Api (r_status (bind_answer env tid x)) tag m)"]) simp
qed

text \<open>Waiting for the certificate sends at least one request more.\<close>

lemma await_sends: "\<exists>new. h_sent (snd (await_certificate around (Suc polls) p h)) = h_sent h @ new \<and> new \<noteq> [] \<and>
    list_all ((=) (lookup_request (pend_token p) (pend_id p))) new"
proof -
  let ?P = "(=) (lookup_request (pend_token p) (pend_id p))"
  let ?h = "h\<lparr>h_stages := h_stages h @ [WaitingCertificate]\<rparr>"
  obtain r h1 where a: "api_certificate around (pend_token p) (pend_id p) ?h = (r, h1)" by fastforce
  have some: "requests_of (api_certificate around (pend_token p) (pend_id p)) ?h \<noteq> []"
    unfolding api_certificate_def by (rule requests_of_send) (simp add: json_of_sent)
  obtain new where new: "h_sent h1 = h_sent h @ new" "list_all ?P new"
    using asks_certificate [of "pend_token p" "pend_id p" around] a by (auto simp: asks_def dest!: spec [of _ ?h])
  have rest: "\<exists>more_sent. h_sent (snd (await_certificate around polls p h1)) = h_sent h1 @ more_sent \<and> list_all ?P more_sent"
    using asks_await [of ?P p around polls] by (simp add: asks_def)
  have "new \<noteq> []" using some a new(1) by (simp add: requests_of_def)
  then show ?thesis
    using a new rest
    by (auto simp: cl_bind_def progress_def cl_return_def cl_fail_def split: ended.split sum.split CertificateState.split)
qed

lemma cl_bind_run: "m h = (Returned (Ok a), h1) \<Longrightarrow> cl_bind m f h = f a h1"
  by (simp add: cl_bind_def)

lemma cl_runs: "cl_bind (cl_return a) f h = f a h" "cl_bind (cl_fail e) f h = (Returned (Err e), h)"
  "cl_bind (progress st) g h = g () (h\<lparr>h_stages := h_stages h @ [st]\<rparr>)"
  by (simp_all add: cl_bind_def cl_return_def cl_fail_def progress_def)

lemma complete_after_bind:
  assumes "api_bind_certificate around (pend_token p) (pend_id p) (pend_csr p) h = (Returned r, h1)" "understood x r"
  shows "if under_way x then \<exists>new. h_sent (snd (complete_provision around (Suc polls) profile p h)) = h_sent h1 @ new \<and> new \<noteq> [] \<and>
      list_all ((=) (lookup_request (pend_token p) (pend_id p))) new
    else h_sent (snd (complete_provision around (Suc polls) profile p h)) = h_sent h1 \<and>
      (\<exists>e. r = Err e \<and> fst (complete_provision around (Suc polls) profile p h) = Returned (Err e))"
proof -
  let ?st = "h_stages h @ [RequestingCertificate]"
  let ?P = "(=) (lookup_request (pend_token p) (pend_id p))"
  define rest where "rest = cl_bind (await_certificate around (Suc polls) p) (\<lambda>c.
    cl_bind (progress SavingIdentity) (\<lambda>_. cl_bind (save around profile (certified p c)) (\<lambda>_.
    cl_bind (progress StageReady) (\<lambda>_. cl_return (certified p c)))))"
  have b: "cl_try (api_bind_certificate around (pend_token p) (pend_id p) (pend_csr p)) (h\<lparr>h_stages := ?st\<rparr>) =
      (Returned (Ok r), h1\<lparr>h_stages := ?st\<rparr>)"
    using assms(1) by (simp add: cl_try_def bind_stages)
  have run: "complete_provision around (Suc polls) profile p h =
    (case r of Inr _ \<Rightarrow> rest (h1\<lparr>h_stages := ?st\<rparr>)
     | Inl (Api code tag m) \<Rightarrow> if tag = ''CertificateInProgressError'' then rest (h1\<lparr>h_stages := ?st\<rparr>)
         else (Returned (Err (Api code tag m)), h1\<lparr>h_stages := ?st\<rparr>)
     | Inl e \<Rightarrow> (Returned (Err e), h1\<lparr>h_stages := ?st\<rparr>))"
    unfolding complete_provision_def rest_def [symmetric]
    by (simp add: cl_runs cl_bind_run [where m = "cl_try (api_bind_certificate around (pend_token p) (pend_id p) (pend_csr p))", OF b] split: sum.split Error.split)
  have "\<exists>new. h_sent (snd (rest h2)) = h_sent h2 @ new \<and> new \<noteq> [] \<and> list_all ?P new" for h2
  proof -
    obtain q h3 where a: "await_certificate around (Suc polls) p h2 = (q, h3)" by fastforce
    obtain new where new: "h_sent h3 = h_sent h2 @ new" "new \<noteq> []" "list_all ?P new" using await_sends [of around polls p h2] a by auto
    have "asks ?P (cl_bind (progress SavingIdentity) (\<lambda>_. cl_bind (save around profile (certified p c)) (\<lambda>_.
      cl_bind (progress StageReady) (\<lambda>_. cl_return (certified p c)))))" for c
      by (intro asks_intros)
    then have "\<exists>more_sent. h_sent (snd (cl_bind (progress SavingIdentity) (\<lambda>_. cl_bind (save around profile (certified p c)) (\<lambda>_.
      cl_bind (progress StageReady) (\<lambda>_. cl_return (certified p c)))) h3)) = h_sent h3 @ more_sent \<and> list_all ?P more_sent" for c
      unfolding asks_def by blast
    then show ?thesis
      unfolding rest_def cl_bind_def [of "await_certificate around (Suc polls) p"] a using new
      by (auto split: ended.split sum.split) (metis append_assoc append_is_Nil_conv list_all_append)
  qed
  from this [of "h1\<lparr>h_stages := ?st\<rparr>"] show ?thesis
    using assms(2) unfolding run
    by (auto simp: understood_def under_way_def split: sum.splits Bind.splits)
qed

text \<open>C11. The client understands what became of its certificate request, end to end: its requests are handled by the server of this repository, each in the state the
  server is in by then. It sends the request again exactly as long as the service refuses it for now (a limit, a full backlog or a failure of the server), at
  most seven times in all; it takes exactly a bound request for a success, with the certificate as the server has it, and exactly one in progress for that.
  Completing a provision goes on to ask for the certificate exactly after these two, and otherwise ends with the error, without another request.
  The values it reads are those of the server, but for the certificate id of a tunnel, whose name the two spell differently, so that the client never sees one.
  (The process is not killed while it sends.)\<close>

theorem client_understands_bind:
  assumes "carries http" "returns print back" "reads around print" "is_label tid" "visible token" "csr_arrives w around csr"
    and "pend_id p = tid" "pend_token p = token" "pend_csr p = csr" "\<And>sent. \<not> dies_sending around sent"
    and "\<And>sent q. server around sent q = Inr (back (fst (handle w env (now sent) elsewhere files admin (http q) (service_at sent))))"
  shows "(\<exists>n q r outcome. n \<le> RETRIES \<and>
      (\<forall>i. outcome i = fst (bind_certificate env (now (h_sent h @ replicate i q)) tid token csr (service_at (h_sent h @ replicate i q)))) \<and>
      requests_of (api_bind_certificate around token tid csr) h = replicate (Suc n) q \<and>
      (\<forall>i < n. refused_for_now (outcome i)) \<and> (refused_for_now (outcome n) \<longrightarrow> n = RETRIES) \<and>
      fst (api_bind_certificate around token tid csr h) = Returned r \<and> understood (outcome n) r \<and>
      (if under_way (outcome n)
       then \<exists>later. requests_of (complete_provision around (Suc polls) profile p) h = replicate (Suc n) q @ later \<and> later \<noteq> [] \<and>
         (\<forall>q' \<in> set later. \<forall>t s. handle w env t elsewhere files admin (http q') s =
           reply_with env (certificate_reply tid) (certificate_lookup env t tid token) s)
       else requests_of (complete_provision around (Suc polls) profile p) h = replicate (Suc n) q \<and>
         (\<exists>e. r = Err e \<and> fst (complete_provision around (Suc polls) profile p h) = Returned (Err e)))) \<and>
    map_option ti_certificate_id (TunnelInfo_of_json (TunnelView_json v)) = Some None"
proof
  let ?q = "bind_request around token tid csr"
  define outcome where "outcome = (\<lambda>i. fst (bind_certificate env (now (h_sent h @ replicate i ?q)) tid token csr (service_at (h_sent h @ replicate i ?q))))"
  define f where "f = (\<lambda>sent. back (bind_answer env tid (fst (bind_certificate env (now sent) tid token csr (service_at sent)))))"
  have answer: "server around sent ?q = Inr (f sent)" for sent
    using assms(11) bind_handled [OF assms(1,4-6)] by (simp add: f_def reply_with_answer)
  have f: "f (h_sent h @ replicate i ?q) = back (bind_answer env tid (outcome i))" for i by (simp add: f_def outcome_def)
  note again = bind_answer_again [OF assms(2)]
  from send_from_answered [of around ?q f 0 h Idempotent, OF assms(10) answer]
  obtain n h1 where n: "n \<le> RETRIES" "h_sent h1 = h_sent h @ replicate (Suc n) ?q" "\<forall>i < n. refused_for_now (outcome i)"
    "refused_for_now (outcome n) \<longrightarrow> n = RETRIES"
    "send around Idempotent ?q h = (Returned (let x = back (bind_answer env tid (outcome n)) in
      if is_success (resp_status x) then Ok x else Err (error_response around x)), h1)"
    by (auto simp: send_def f again)
  obtain r where r: "understood (outcome n) r" "\<And>h. (let a = back (bind_answer env tid (outcome n)) in
    if is_success (resp_status a) then json_of (decode_info around) a h else (Returned (Err (error_response around a)), h)) = (Returned r, h)"
    using answer_understood [OF assms(2,3)] by blast
  have b: "api_bind_certificate around token tid csr h = (Returned r, h1)"
    using n(5) r(2) [of h1] by (auto simp: api_bind_certificate_def bind_request_def cl_bind_def Let_def split: if_splits)
  have requests: "requests_of (api_bind_certificate around token tid csr) h = replicate (Suc n) ?q" using b n(2) by (simp add: requests_of_def)
  note after = complete_after_bind [of around p h r h1 "outcome n" polls profile, unfolded assms(7-9), OF b r(1)]
  have later: "if under_way (outcome n)
       then \<exists>later. requests_of (complete_provision around (Suc polls) profile p) h = replicate (Suc n) ?q @ later \<and> later \<noteq> [] \<and>
         (\<forall>q' \<in> set later. \<forall>t s. handle w env t elsewhere files admin (http q') s =
           reply_with env (certificate_reply tid) (certificate_lookup env t tid token) s)
       else requests_of (complete_provision around (Suc polls) profile p) h = replicate (Suc n) ?q \<and>
         (\<exists>e. r = Err e \<and> fst (complete_provision around (Suc polls) profile p h) = Returned (Err e))"
  proof (cases "under_way (outcome n)")
    case True
    with after obtain new where new: "h_sent (snd (complete_provision around (Suc polls) profile p h)) = h_sent h1 @ new" "new \<noteq> []"
      "list_all ((=) (lookup_request token tid)) new" by auto
    then show ?thesis
      using True n(2) lookup_handled [OF assms(1,4,5)] by (auto simp: requests_of_def list_all_iff intro!: exI [of _ new])
  next
    case False
    then show ?thesis using after n(2) by (simp add: requests_of_def)
  qed
  show "\<exists>n q r outcome. n \<le> RETRIES \<and>
      (\<forall>i. outcome i = fst (bind_certificate env (now (h_sent h @ replicate i q)) tid token csr (service_at (h_sent h @ replicate i q)))) \<and>
      requests_of (api_bind_certificate around token tid csr) h = replicate (Suc n) q \<and>
      (\<forall>i < n. refused_for_now (outcome i)) \<and> (refused_for_now (outcome n) \<longrightarrow> n = RETRIES) \<and>
      fst (api_bind_certificate around token tid csr h) = Returned r \<and> understood (outcome n) r \<and>
      (if under_way (outcome n)
       then \<exists>later. requests_of (complete_provision around (Suc polls) profile p) h = replicate (Suc n) q @ later \<and> later \<noteq> [] \<and>
         (\<forall>q' \<in> set later. \<forall>t s. handle w env t elsewhere files admin (http q') s =
           reply_with env (certificate_reply tid) (certificate_lookup env t tid token) s)
       else requests_of (complete_provision around (Suc polls) profile p) h = replicate (Suc n) q \<and>
         (\<exists>e. r = Err e \<and> fst (complete_provision around (Suc polls) profile p h) = Returned (Err e)))"
    by (rule exI [of _ n], rule exI [of _ ?q], rule exI [of _ r], rule exI [of _ outcome], intro conjI)
      (use n(1,3,4) requests b r(1) later in \<open>simp_all add: outcome_def\<close>)
  show "map_option ti_certificate_id (TunnelInfo_of_json (TunnelView_json v)) = Some None" by (simp add: TunnelInfo_read)
qed

section \<open>An exchange\<close>

text \<open>HTTP as it carries a plain request and a reply.\<close>

definition demo_http :: "Request \<Rightarrow> Req"
  where "demo_http q =
    \<lparr>q_verb = verb_of (req_method q), q_path = req_path q, q_query = None, q_authorization = map_option (\<lambda>t. ''Bearer '' @ t) (req_token q),
     q_content_type = map_option (\<lambda>_. ''application/json'') (req_body q), q_client = None, q_upgrade = None, q_protocols = [], q_key = None,
     q_if_none_match = None, q_source = IpV4 0, q_body = Some (case req_body q of None \<Rightarrow> [] | Some b \<Rightarrow> as_bytes b)\<rparr>"

definition demo_back :: "(json \<Rightarrow> string) \<Rightarrow> HttpReply \<Rightarrow> Response"
  where "demo_back print r =
    \<lparr>resp_status = r_status r, resp_retry = map_of (r_headers r) ''retry-after'',
     resp_body = Inr (case r_body r of JsonBody v \<Rightarrow> print v | TextBody t \<Rightarrow> t | _ \<Rightarrow> [])\<rparr>"

lemma demo_carries: "carries demo_http" "returns print (demo_back print)"
  by (simp_all add: carries_def returns_def demo_http_def demo_back_def)

text \<open>Texts that stand for the values the client reads: an error by its tag and message, a certificate by its id and the parts of its state.\<close>

fun state_parts :: "CertificateState \<Rightarrow> string \<times> string \<times> string \<times> string" where
  "state_parts (Challenge a b) = (''challenge'', a, b, [])"
| "state_parts Issuing = (''issuing'', [], [], [])"
| "state_parts (Ready a b c) = (''ready'', a, b, c)"
| "state_parts (CertificateState.Failed a) = (''failed'', a, [], [])"

definition state_of_parts :: "string \<Rightarrow> string \<Rightarrow> string \<Rightarrow> string \<Rightarrow> CertificateState"
  where "state_of_parts t a b c =
    (if t = ''challenge'' then Challenge a b else if t = ''issuing'' then Issuing else if t = ''ready'' then Ready a b c
     else CertificateState.Failed a)"

definition demo_print :: "json \<Rightarrow> string"
  where "demo_print v =
    (case (ApiError_of_json v, CertificateInfo_of_json v) of
       (Some (tag, m), _) \<Rightarrow> ''E'' @ esc tag @ esc m
     | (None, Some c) \<Rightarrow> (case state_parts (cert_state c) of (t, x, y, z) \<Rightarrow> ''C'' @ esc (cert_id c) @ esc t @ esc x @ esc y @ esc z)
     | _ \<Rightarrow> [])"

definition demo_error :: "string \<Rightarrow> (string \<times> string) option"
  where "demo_error s = (case s of [] \<Rightarrow> None | k # s \<Rightarrow> if k = CHR ''E'' then do { (tag, s) \<leftarrow> unesc s; (m, s) \<leftarrow> unesc s; Some (tag, m) } else None)"

definition demo_info :: "string \<Rightarrow> string + CertificateInfo"
  where "demo_info s = ok_or (do {
    (cid, s) \<leftarrow> unesc (tl s); (t, s) \<leftarrow> unesc s; (x, s) \<leftarrow> unesc s; (y, s) \<leftarrow> unesc s; (z, s) \<leftarrow> unesc s;
    Some \<lparr>cert_id = cid, cert_state = state_of_parts t x y z\<rparr> }) ''bad''"

lemma state_of_parts: "state_parts st = (t, x, y, z) \<Longrightarrow> state_of_parts t x y z = st"
  by (cases st) (auto simp: state_of_parts_def)

lemma unesc_last: "unesc (esc s) = Some (s, [])"
  using unesc_esc [of s "[]"] by simp

lemma demo_error_print: "demo_error (demo_print v) = ApiError_of_json v"
  by (auto simp: demo_error_def demo_print_def unesc_esc unesc_last split: option.split prod.split)

lemma demo_info_print: "demo_info (demo_print (CertificateInfo_json c)) = Inr c"
proof -
  have "ApiError_of_json (CertificateInfo_json c) = None" by (simp add: ApiError_of_json_def json_str_def CertificateInfo_json_def)
  then show ?thesis
    by (auto simp: demo_info_def demo_print_def CertificateInfo_read unesc_esc unesc_last state_of_parts ok_or_def split: prod.split)
qed


text \<open>A client with these readers, whose server is the example service, always in the same state.\<close>

definition demo_client :: Around
  where "demo_client = (demo_around (\<lambda>_. Io_ok))\<lparr>decode_info := demo_info, decode_api_error := demo_error, dies_sending := (\<lambda>_. False),
    server := (\<lambda>sent q. Inr (demo_back demo_print (fst (handle example_web example_env 0 (\<lambda>_. False) [] None (demo_http q) example_service))))\<rparr>"

lemma demo_reads: "reads demo_client demo_print"
  by (simp add: reads_def demo_client_def demo_error_print demo_info_print CertificateInfo_read)

lemma demo_arrives: "csr_arrives example_web demo_client ''R''"
  by (simp add: csr_arrives_def example_web_def demo_client_def demo_around_def MAX_BODY_def)

lemma demo_plain: "is_label ''abc''" "visible ''tok''"
  by code_simp+

definition demo_pending :: PendingIdentity
  where "demo_pending = \<lparr>pend_id = ''abc'', pend_hostname = ''abc.x.dev'', pend_token = ''tok'', pend_key = ''K'', pend_csr = ''R''\<rparr>"

theorem client_requests_reach_service_witness:
  "\<exists>q. q \<in> set (requests_of (api_bind_certificate demo_client ''tok'' ''abc'' ''R'') (demo_home (\<lambda>_. None))) \<and>
    handle example_web example_env 0 (\<lambda>_. False) [] None (demo_http q) example_service =
    reply_with example_env (bind_reply example_env ''abc'') (bind_certificate example_env 0 ''abc'' ''tok'' ''R'') example_service"
proof -
  let ?m = "api_bind_certificate demo_client ''tok'' ''abc'' ''R''"
  have "requests_of ?m (demo_home (\<lambda>_. None)) \<noteq> [] \<and> (\<forall>q \<in> set (requests_of ?m (demo_home (\<lambda>_. None))).
      handle example_web example_env 0 (\<lambda>_. False) [] None (demo_http q) example_service =
      reply_with example_env (bind_reply example_env ''abc'') (bind_certificate example_env 0 ''abc'' ''tok'' ''R'') example_service)"
    using client_requests_reach_service [OF demo_carries(1) demo_plain demo_arrives, of demo_pending] by (simp add: demo_pending_def)
  then show ?thesis by (meson last_in_set)
qed

theorem client_understands_bind_witness:
  "\<exists>n r. n \<le> RETRIES \<and> length (requests_of (api_bind_certificate demo_client ''tok'' ''abc'' ''R'') (demo_home (\<lambda>_. None))) = Suc n \<and>
    fst (api_bind_certificate demo_client ''tok'' ''abc'' ''R'' (demo_home (\<lambda>_. None))) = Returned r \<and>
    understood (fst (bind_certificate example_env 0 ''abc'' ''tok'' ''R'' example_service)) r"
proof -
  have s: "\<And>sent. \<not> dies_sending demo_client sent"
    "\<And>sent q. server demo_client sent q = Inr (demo_back demo_print
      (fst (handle example_web example_env ((\<lambda>_. 0) sent) (\<lambda>_. False) [] None (demo_http q) ((\<lambda>_. example_service) sent))))"
    by (simp_all add: demo_client_def)
  have p: "pend_id demo_pending = ''abc''" "pend_token demo_pending = ''tok''" "pend_csr demo_pending = ''R''" by (simp_all add: demo_pending_def)
  from client_understands_bind [where h = "demo_home (\<lambda>_. None)" and polls = 0 and profile = "''web''",
    OF demo_carries(1) demo_carries(2) demo_reads demo_plain demo_arrives p s, THEN conjunct1]
  obtain n q r outcome where o: "n \<le> RETRIES"
      "\<forall>i. outcome i = fst (bind_certificate example_env 0 ''abc'' ''tok'' ''R'' example_service)"
      "requests_of (api_bind_certificate demo_client ''tok'' ''abc'' ''R'') (demo_home (\<lambda>_. None)) = replicate (Suc n) q"
      "fst (api_bind_certificate demo_client ''tok'' ''abc'' ''R'' (demo_home (\<lambda>_. None))) = Returned r" "understood (outcome n) r"
    by (elim exE conjE) (rule that, assumption+)
  from o(5) have "understood (fst (bind_certificate example_env 0 ''abc'' ''tok'' ''R'' example_service)) r" by (simp only: o(2))
  with o(1,3,4) show ?thesis by (intro exI [of _ n] exI [of _ r] conjI) (simp_all only: length_replicate)
qed

end
