(* ===== verification/Spec2Isabelle.thy ===== *)
theory Spec2Isabelle
  imports Names Frames Sni Proxy Websocket Limits Retry Crypto Peer_Auth Store_Queue
    Machine_Properties Service_Properties Mesh_Properties Relay_Properties Cluster_Properties
    Public_Reason Acme_Properties Jobs_Properties Client_Properties Provision_Properties Api_Exchange
begin

text \<open>
  This development is about opentunnel: a client opens an outbound connection (a bridge) to a server, the server accepts TLS
  connections of visitors on a public port, reads the host name they ask for without decrypting anything, and relays each to the
  bridge that claims its route; the client terminates TLS with a certificate that the server obtained for it. Several server machines
  share a database and know through a mesh which of them holds which bridge.

  The models are translations of the functions under \<^verbatim>\<open>src/crates/opentunnel\<close> (client library) and
  \<^verbatim>\<open>src/crates/opentunnel-server\<close>. They compute, so the witnesses evaluate them on concrete input.

  \<^bold>\<open>Conventions.\<close> Text is a list of characters holding its UTF-8 bytes, other data lists of 8-bit words; identifiers with a width in the
  source are words of that width (connection numbers 32 bits, sequence numbers of the mesh 64); timestamps are natural numbers. A
  panic is \<open>None\<close> or the error \<open>Panic\<close>, an error is the left side of a sum. Hash maps whose order matters nowhere are association
  lists or maps; objects shared through reference counts live in a heap of the state (\<open>bridge_heap\<close>, \<open>chan_heap\<close>). The code of other
  packages is a parameter: JSON parsing, X.509, base64, hashing and signatures, random numbers, time, host name lookup.

  \<^bold>\<open>What another party does\<close> is never assumed. A database statement is preceded by whatever the rest of the deployment does and may
  be refused, deadlock, or take effect without an answer (\<open>world\<close> in \<open>Store\<close>). Sockets are events that arrive in any order and in
  pieces of any size. HTTP peers are functions of all that was sent to them, and a task that waits may be dropped there (\<open>Network\<close>).
  An operation of the service holds the lock of its tunnel, so it is one step; sessions, visitors, timers and the mesh interleave
  between such steps (\<open>machine_step\<close>, \<open>pair_step\<close>).

  \<^bold>\<open>The theories.\<close>
  \<^item> \<open>Prelude\<close>, \<open>Utf8\<close>, \<open>Addresses\<close>, \<open>Sockets\<close>: text, numbers, words, IP addresses, byte sources.
  \<^item> \<open>Names\<close> (\<^verbatim>\<open>protocol/names.rs\<close>, \<^verbatim>\<open>protocol/routes.rs\<close>, \<^verbatim>\<open>csr.rs\<close>): labels, hostnames, route values, and the check that a
    certificate request names only its tunnel.
  \<^item> \<open>Frames\<close> (\<^verbatim>\<open>protocol/bridge.rs\<close>), \<open>Websocket\<close> (\<^verbatim>\<open>websocket.rs\<close>), \<open>Proxy\<close> (both \<^verbatim>\<open>proxy.rs\<close> and \<^verbatim>\<open>proxy_protocol.rs\<close>), \<open>Sni\<close>
    (\<^verbatim>\<open>sni.rs\<close>): what is on the wire. The parsers never panic, do not depend on how bytes are cut into reads, and read back what the
    writers write; the ClientHello parser refines a one-pass reader of the handshake.
  \<^item> \<open>Limits\<close> (\<^verbatim>\<open>limits.rs\<close>), \<open>Retry\<close> (\<^verbatim>\<open>retry.rs\<close>), \<open>Crypto\<close> (\<^verbatim>\<open>crypto.rs\<close>), \<open>Peer_Auth\<close> (\<^verbatim>\<open>peer_auth.rs\<close>): budgets of clients, when
    an attempt is repeated and that this ends, ids and tokens, requests signed between machines and their replay table.
  \<^item> \<open>Records\<close>, \<open>Store\<close>, \<open>Store_Safety\<close>, \<open>Store_Queue\<close> (\<^verbatim>\<open>record.rs\<close>, \<^verbatim>\<open>store.rs\<close>): the tables and every statement on them. A save
    that succeeds lost no update, a leased job has one runner, and every operation keeps the tables well-formed whatever the other
    machines do and whichever statements fail.
  \<^item> \<open>Service\<close>, \<open>Service_Api\<close>, \<open>Service_Bridges\<close> (\<^verbatim>\<open>service.rs\<close>), \<open>Bridge_Session\<close> (\<^verbatim>\<open>bridge.rs\<close>), \<open>Relay\<close> (\<^verbatim>\<open>relay.rs\<close>): cached records,
    the API, certificates, attached bridges, routing, one bridge connection, one visitor. \<open>Service_Properties\<close> has the properties of
    single operations, \<open>Relay_Properties\<close> of how a visitor is read. \<open>Machine_Steps\<close>, \<open>Machine_Runs\<close> and \<open>Machine_Safety\<close> compose them: a
    machine with any number of sessions and visitors as a step relation and its invariants; \<open>Machine_Properties\<close> states
    them for reachable states, \<open>Machine_Example\<close> has a run the witnesses use.
  \<^item> \<open>Mesh\<close>, \<open>Mesh_Table\<close>, \<open>Mesh_Links\<close>, \<open>Mesh_Properties\<close> (\<^verbatim>\<open>mesh.rs\<close>): the table of bridges each machine keeps and the links that
    replicate it. Two linked machines refine one table that is copied: nothing queued is refused, and what is queued can always be
    delivered. \<open>Forwarding\<close> and \<open>Cluster_Properties\<close> (\<^verbatim>\<open>cluster.rs\<close>): visitors handed from one machine to another, questions about
    routes, control requests, and that only signed, fresh requests from where a machine is linked are acted on.
  \<^item> \<open>Network\<close>, \<open>Public_Reason\<close> (error classes of \<^verbatim>\<open>metrics.rs\<close>, \<^verbatim>\<open>analytics.rs\<close>, \<^verbatim>\<open>jobs.rs\<close>), \<open>Dns\<close> (\<^verbatim>\<open>dns.rs\<close>), \<open>Acme\<close> and
    \<open>Acme_Properties\<close> (\<^verbatim>\<open>acme.rs\<close>), \<open>Jobs\<close> and \<open>Jobs_Properties\<close> (\<^verbatim>\<open>jobs.rs\<close>): issuing certificates. Requests to the authority stay at
    its directory's origin, attempts clean up however they end, only a job's own names are ordered, the limits on running jobs
    hold, and the sweep of challenge records leaves those of running jobs alone.
  \<^item> \<open>Client_Session\<close>, \<open>Client_Runs\<close>, \<open>Client_Properties\<close> (\<^verbatim>\<open>opentunnel/src/tunnel.rs\<close>, \<^verbatim>\<open>error.rs\<close>): the client's side of a tunnel. A session is a
    function of the list of what happens to it: messages read, tasks that finish, timers, new routes, bytes of the local sides, the
    writer. Its connections stay within the limits and are accounted for, their bytes arrive intact and at the target of their
    route, and the supervisor over the sessions tries again or stops as it says.
  \<^item> \<open>Client_Storage\<close>, \<open>Client_Provision\<close>, \<open>Provision_Runs\<close>, \<open>Provision_Properties\<close> (\<^verbatim>\<open>storage.rs\<close>, \<^verbatim>\<open>identity.rs\<close>, \<^verbatim>\<open>api.rs\<close>, \<^verbatim>\<open>client.rs\<close>): getting
    a tunnel and its certificate and keeping them on disk. Every call to the file system or the server may fail or be the last one of
    the process; triples over the files of a profile show that no program loses the tunnel of a profile.
  \<^item> \<open>Website\<close> (\<^verbatim>\<open>website.rs\<close>), \<open>Http_Api\<close>, \<open>Http_Properties\<close> (\<^verbatim>\<open>http.rs\<close>): which operation of the service an HTTP request is for, the replies, the
    upgrade to a bridge, the website. Nothing of a tunnel is shown or changed without its token, and redirects of the website end. \<open>Api_Exchange\<close>
    (\<^verbatim>\<open>protocol/api.rs\<close>) puts the client's calls against this interface: they reach the operation they are meant for, and the client reads
    the replies as what they say.

  \<^bold>\<open>Interfaces\<close> are locales with the laws a client relies on, each interpreted on the model's definitions: codecs and their round
  trips, incremental parsers, the relation a run of network calls keeps (\<open>steady\<close>) or one of the client's programs (\<open>client_moves\<close>), the invariants of a machine and of
  a client's session (\<open>session_keeps\<close>) under their steps, what the database operations keep. The properties use the interpreted facts.

  \<^bold>\<open>Bounds.\<close> Loops of the source are structural recursion or recursion with a proved measure wherever they end by themselves (pages of a listing,
  the search for a free connection number, records of a ClientHello). Loops that end by a deadline take the number of rounds that fit into it as an argument
  (\<open>wait_rounds\<close>), so the theorems hold for every deadline; a client that waits for its certificate is seen for any number of polls and taken to
  be stopped after them (\<open>await_certificate\<close>). \<open>squeeze\<close> and \<open>char_ceil\<close> have the length of their text as fuel, and use up at least one character per
  unit.

  \<^bold>\<open>Not modelled\<close>: serving HTTP connections over hyper and draining them, the endpoints for administration, TLS itself, the copying of bytes between
  sockets, socket options, startup and reading of the environment, the command line and its daemon, the one-off import
  from the previous server, metrics, analytics events and logs. They are calls into libraries or output that nothing
  else depends on.
\<close>

end
